(* ===== verification/Prelude.thy ===== *)
theory Prelude
  imports Main "HOL-Library.Word" "HOL-Library.Monad_Syntax"
begin

text \<open>
  Shared vocabulary of the development: the C integer types of the 32-bit big-endian
  PowerPC target as machine words, C strings as byte lists, big-endian encodings, and the
  generic facts on bytes, lists and words that the components use.

  \<^item> \<^verbatim>\<open>unsigned char\<close> / \<^verbatim>\<open>char\<close> (unsigned in the PowerPC ABI) is \<open>byte\<close>,
    \<^verbatim>\<open>unsigned short\<close> is \<open>u16\<close>, \<^verbatim>\<open>unsigned int\<close>, \<^verbatim>\<open>unsigned long\<close> and addresses are
    \<open>u32\<close>, \<^verbatim>\<open>unsigned long long\<close> is \<open>u64\<close>;
  \<^item> a C string is the list of its bytes before the terminating NUL (\<open>cstr\<close>); \<open>peek\<close> is the
    dereference \<^verbatim>\<open>*p\<close>, which reads the terminator 0 at the end, and \<open>tl\<close> is \<^verbatim>\<open>++p\<close>.
\<close>

unbundle bit_operations_syntax

type_synonym byte = "8 word"
type_synonym u16 = "16 word"
type_synonym u32 = "32 word"
type_synonym u64 = "64 word"
type_synonym cstr = "byte list"

text \<open>Lemma collections: \<open>bytes_simps\<close> evaluates encodings, \<open>str_simps\<close> unfolds the C-string
  primitives, \<open>bound_simps\<close> holds the size facts.\<close>

named_theorems bytes_simps
named_theorems str_simps
named_theorems bound_simps

subsection \<open>Characters and C strings\<close>

abbreviation ch :: "char \<Rightarrow> byte" where "ch \<equiv> of_char"

definition cs :: "string \<Rightarrow> cstr" where
  "cs s = map of_char s"

primrec peek :: "cstr \<Rightarrow> byte" where
  "peek [] = 0"
| "peek (c # _) = c"

definition nul_free :: "cstr \<Rightarrow> bool" where
  "nul_free s \<longleftrightarrow> 0 \<notin> set s"

lemma nul_free_Nil [simp]: "nul_free []"
  by (simp add: nul_free_def)

lemma nul_free_Cons [simp]: "nul_free (c # s) \<longleftrightarrow> c \<noteq> 0 \<and> nul_free s"
  by (auto simp: nul_free_def)

lemma nul_free_append [simp]: "nul_free (s @ t) \<longleftrightarrow> nul_free s \<and> nul_free t"
  by (auto simp: nul_free_def)

lemma nul_free_take: "nul_free s \<Longrightarrow> nul_free (take n s)"
  by (auto simp: nul_free_def dest: in_set_takeD)

lemma nul_free_drop: "nul_free s \<Longrightarrow> nul_free (drop n s)"
  by (auto simp: nul_free_def dest: in_set_dropD)

lemma peek_append [str_simps]: "peek (s @ t) = (if s = [] then peek t else peek s)"
  by (cases s) auto

lemma peek_neq_0_Cons: "peek s \<noteq> 0 \<Longrightarrow> \<exists>c t. s = c # t \<and> c = peek s"
  by (cases s) auto

lemma tl_shorter: "peek s \<noteq> 0 \<Longrightarrow> length (tl s) < length s"
  by (cases s) auto

subsection \<open>Checking a property of every byte\<close>

lemma all_bytes: "(\<forall>c::byte. P c) \<longleftrightarrow> list_all P (map of_nat [0..<256])"
proof
  assume a: "list_all P (map of_nat [0..<256])"
  show "\<forall>c::byte. P c"
  proof
    fix c :: byte
    have "unat c < 256" using unsigned_less [of c] by simp
    then have "unat c \<in> set [0..<256]" by simp
    with a have "P (of_nat (unat c))" unfolding list_all_iff set_map by blast
    then show "P c" by simp
  qed
qed (simp add: list_all_iff)

lemma byte_less_256 [bound_simps]: "unat (c :: byte) < 256"
  using unsigned_less [of c] by simp

lemma u16_less [bound_simps]: "unat (c :: u16) < 65536"
  using unsigned_less [of c] by simp

lemma u32_less [bound_simps]: "unat (w :: u32) < 4294967296"
  using unsigned_less [of w] by simp

lemma u64_less [bound_simps]: "unat (w :: u64) < 18446744073709551616"
  using unsigned_less [of w] by simp

lemma unat_of_nat_word:
  "unat (of_nat n :: 'a::len word) = n mod 2 ^ LENGTH('a)"
  by (simp add: unat_of_nat)

lemma unat_of_nat_u32 [bytes_simps]: "n < 4294967296 \<Longrightarrow> unat (of_nat n :: u32) = n"
  by (simp add: unat_of_nat)

lemma unat_of_nat_byte [bytes_simps]: "n < 256 \<Longrightarrow> unat (of_nat n :: byte) = n"
  by (simp add: unat_of_nat)

subsection \<open>Big-endian encodings\<close>

definition be32_bytes :: "u32 \<Rightarrow> byte list" where
  "be32_bytes w = [ucast (drop_bit 24 w), ucast (drop_bit 16 w), ucast (drop_bit 8 w), ucast w]"

definition be32_val :: "byte \<Rightarrow> byte \<Rightarrow> byte \<Rightarrow> byte \<Rightarrow> u32" where
  "be32_val a b c d =
     push_bit 24 (ucast a) OR push_bit 16 (ucast b) OR push_bit 8 (ucast c) OR ucast d"

definition be16_bytes :: "u16 \<Rightarrow> byte list" where
  "be16_bytes w = [ucast (drop_bit 8 w), ucast w]"

definition be16_val :: "byte \<Rightarrow> byte \<Rightarrow> u16" where
  "be16_val a b = push_bit 8 (ucast a) OR ucast b"

lemma length_be32_bytes [simp]: "length (be32_bytes w) = 4"
  by (simp add: be32_bytes_def)

lemma length_be16_bytes [simp]: "length (be16_bytes w) = 2"
  by (simp add: be16_bytes_def)

lemma be32_val_bytes [bytes_simps]:
  "be32_val (ucast (drop_bit 24 w)) (ucast (drop_bit 16 w)) (ucast (drop_bit 8 w)) (ucast w) = w"
  unfolding be32_val_def
proof (rule bit_word_eqI)
  fix n assume "n < LENGTH(32)"
  then consider "n < 8" | "8 \<le> n" "n < 16" | "16 \<le> n" "n < 24" | "24 \<le> n" "n < 32"
    by fastforce
  then show "bit (push_bit 24 (ucast (ucast (drop_bit 24 w) :: byte) :: u32) OR
      push_bit 16 (ucast (ucast (drop_bit 16 w) :: byte)) OR
      push_bit 8 (ucast (ucast (drop_bit 8 w) :: byte)) OR ucast (ucast w :: byte)) n = bit w n"
    by cases (auto simp: bit_simps)
qed

lemma be16_val_bytes [bytes_simps]:
  "be16_val (ucast (drop_bit 8 w)) (ucast w) = w"
  unfolding be16_val_def
  by (rule bit_word_eqI) (auto simp: bit_simps not_le)

lemma be32_bytes_val [bytes_simps]: "be32_bytes (be32_val a b c d) = [a, b, c, d]"
  unfolding be32_val_def be32_bytes_def list.inject
  by (intro conjI bit_word_eqI TrueI refl) (auto simp: bit_simps dest: bit_imp_le_length)

lemma be16_bytes_val [bytes_simps]: "be16_bytes (be16_val a b) = [a, b]"
  unfolding be16_val_def be16_bytes_def list.inject
  by (intro conjI bit_word_eqI TrueI refl) (auto simp: bit_simps dest: bit_imp_le_length)

subsection \<open>Words and their values\<close>

lemma bit_top_iff:
  "bit (w :: 'a::len word) (LENGTH('a) - 1) \<longleftrightarrow> 2 ^ (LENGTH('a) - 1) \<le> unat w"
proof -
  have l: "0 < LENGTH('a)" by simp
  have "unat w < 2 ^ LENGTH('a)" by (rule unsigned_less)
  also have "(2::nat) ^ LENGTH('a) = 2 * 2 ^ (LENGTH('a) - 1)"
    using l by (metis power_eq_if less_irrefl)
  finally have "unat w div 2 ^ (LENGTH('a) - 1) < 2"
    by (simp add: less_mult_imp_div_less)
  then have "odd (unat w div 2 ^ (LENGTH('a) - 1)) \<longleftrightarrow> unat w div 2 ^ (LENGTH('a) - 1) \<noteq> 0"
    by (cases "unat w div 2 ^ (LENGTH('a) - 1)") auto
  moreover have "bit w (LENGTH('a) - 1) \<longleftrightarrow> bit (unat w) (LENGTH('a) - 1)"
    by (simp add: bit_unsigned_iff)
  ultimately show ?thesis by (simp add: bit_iff_odd div_eq_0_iff not_less)
qed

lemma sint_neg_iff: "sint (w :: 'a::len word) < 0 \<longleftrightarrow> 2 ^ (LENGTH('a) - 1) \<le> unat w"
  using bit_last_iff [of w] bit_top_iff [of w] by simp

lemma sint_pos_iff:
  "0 < sint (w :: 'a::len word) \<longleftrightarrow> 0 < unat w \<and> unat w < 2 ^ (LENGTH('a) - 1)"
proof -
  have "0 < sint w \<longleftrightarrow> \<not> sint w < 0 \<and> sint w \<noteq> 0" by linarith
  moreover have "sint w = 0 \<longleftrightarrow> unat w = 0"
    by (metis signed_0 signed_word_eqI unat_eq_0)
  ultimately show ?thesis using sint_neg_iff [of w] by auto
qed

lemma unat_drop_bit [bytes_simps]: "unat (drop_bit n w) = unat w div 2 ^ n"
  unfolding unat_drop_bit_eq by (rule drop_bit_eq_div)

lemma unat_add_le:
  "unat (a :: 'a::len word) + unat b < 2 ^ LENGTH('a) \<Longrightarrow> unat (a + b) = unat a + unat b"
  by (simp add: unat_word_ariths)

lemma unat_ucast_mod [bytes_simps]:
  "unat (ucast (w :: 'a::len word) :: 'b::len word) = unat w mod 2 ^ LENGTH('b)"
  by (simp add: unsigned_ucast_eq take_bit_eq_mod)

lemma unat_push_bit_mod [bytes_simps]:
  "unat (push_bit n (w :: 'a::len word)) = unat w * 2 ^ n mod 2 ^ LENGTH('a)"
  unfolding unsigned_push_bit_eq by (simp add: take_bit_eq_mod push_bit_eq_mult)

lemma word_eq_of_natI: "unat (w :: 'a::len word) = n \<Longrightarrow> w = of_nat n"
  by auto

end
