(* ===== verification/Strtoul.thy ===== *)
theory Strtoul
  imports Ctype
begin

text \<open>
  Numeric parsing: \<^verbatim>\<open>simple_strtoul\<close>, \<^verbatim>\<open>simple_strtol\<close>, \<^verbatim>\<open>ustrtoul\<close>, \<^verbatim>\<open>simple_strtoull\<close> of
  \<^verbatim>\<open>lib/vsprintf.c\<close> and \<^verbatim>\<open>string_to_ip\<close> of \<^verbatim>\<open>lib/net_utils.c\<close>. A parser takes the C
  string and returns the value together with the rest of the string (\<^verbatim>\<open>*endp\<close>). The value is
  kept at its machine width, so an over-long number wraps as it does in the code.
\<close>

subsection \<open>The parsers\<close>

definition digit_value :: "byte \<Rightarrow> 'a::len word" where
  "digit_value c =
     (if isdigit c then ucast c - 0x30
      else ucast (if islower c then toupper c else c) - 0x41 + 10)"

fun strtoul_loop :: "cstr \<Rightarrow> 'a::len word \<Rightarrow> 'a word \<Rightarrow> 'a word \<times> cstr" where
  "strtoul_loop [] base result = (result, [])"
| "strtoul_loop (c # cp) base result =
     (if isxdigit c \<and> digit_value c < base
      then strtoul_loop cp base (result * base + digit_value c)
      else (result, c # cp))"

definition strtoul_base :: "cstr \<Rightarrow> u32 \<Rightarrow> cstr \<times> u32" where
  "strtoul_base cp base =
     (let (cp, base) =
        (if peek cp = ch CHR ''0'' then
           let cp = tl cp;
               (base, cp) = (if peek cp = ch CHR ''x'' \<and> isxdigit (peek (tl cp))
                             then (16, tl cp) else (base, cp))
           in (cp, if base = 0 then 8 else base)
         else (cp, base))
      in (cp, if base = 0 then 10 else base))"

definition simple_strtoul :: "cstr \<Rightarrow> u32 \<Rightarrow> u32 \<times> cstr" where
  "simple_strtoul cp base =
     (let (cp, base) = strtoul_base cp base in strtoul_loop cp base 0)"

definition simple_strtol :: "cstr \<Rightarrow> u32 \<Rightarrow> u32 \<times> cstr" where
  "simple_strtol cp base =
     (if peek cp = ch CHR ''-''
      then let (r, endp) = simple_strtoul (tl cp) base in (- r, endp)
      else simple_strtoul cp base)"

definition ustrtoul :: "cstr \<Rightarrow> u32 \<Rightarrow> u32 \<times> cstr" where
  "ustrtoul cp base =
     (let (result, endp) = simple_strtoul cp base;
          c = peek endp;
          result = (if c = ch CHR ''G'' then result * 1024 else result);
          result = (if c = ch CHR ''G'' \<or> c = ch CHR ''M'' then result * 1024 else result)
      in if c = ch CHR ''G'' \<or> c = ch CHR ''M'' \<or> c = ch CHR ''K'' \<or> c = ch CHR ''k''
         then (result * 1024,
               if peek (drop 1 endp) = ch CHR ''i''
               then (if peek (drop 2 endp) = ch CHR ''B'' then drop 3 endp else drop 2 endp)
               else endp)
         else (result, endp))"

definition simple_strtoull :: "cstr \<Rightarrow> u32 \<Rightarrow> u64 \<times> cstr" where
  "simple_strtoull cp base =
     (let (cp, base) = strtoul_base cp base in strtoul_loop cp (ucast base) 0)"

fun string_to_ip_loop :: "nat \<Rightarrow> u32 \<Rightarrow> cstr \<Rightarrow> u32" where
  "string_to_ip_loop 0 addr s = addr"
| "string_to_ip_loop (Suc n) addr s =
     (let (val, e) = simple_strtoul s 10;
          addr = push_bit 8 addr OR (val AND 0xFF);
          s = (if peek e \<noteq> 0 then tl e else e)
      in string_to_ip_loop n addr s)"

definition string_to_ip :: "cstr option \<Rightarrow> u32" where
  "string_to_ip s = (case s of None \<Rightarrow> 0 | Some s \<Rightarrow> string_to_ip_loop 4 0 s)"

subsection \<open>The value of a digit string\<close>

text \<open>The reference: the digits of a numeral in base \<open>b\<close>, most significant first.\<close>

definition digits_value :: "nat \<Rightarrow> nat list \<Rightarrow> nat" where
  "digits_value b ds = foldl (\<lambda>a d. a * b + d) 0 ds"

definition digit_char :: "nat \<Rightarrow> byte" where
  "digit_char d = (if d < 10 then 0x30 + of_nat d else 0x61 + of_nat (d - 10))"

lemma digit_char_bytes:
  "list_all (\<lambda>d. isxdigit (digit_char d) \<and> digit_value (digit_char d) = (of_nat d :: u32)
     \<and> digit_value (digit_char d) = (of_nat d :: u64)
     \<and> digit_char d \<noteq> 0 \<and> (isdigit (digit_char d) \<longleftrightarrow> d < 10)) [0..<16]"
  by code_simp

lemma digit_char:
  assumes "d < 16"
  shows "isxdigit (digit_char d)" "digit_value (digit_char d) = (of_nat d :: u32)"
    "digit_value (digit_char d) = (of_nat d :: u64)"
    "digit_char d \<noteq> 0" "isdigit (digit_char d) \<longleftrightarrow> d < 10"
  using digit_char_bytes assms by (auto simp: list_all_iff)

lemma digits_value_Nil [simp]: "digits_value b [] = 0"
  by (simp add: digits_value_def)

lemma digits_value_snoc: "digits_value b (ds @ [d]) = digits_value b ds * b + d"
  by (simp add: digits_value_def)

definition stops_at :: "'a::len word \<Rightarrow> cstr \<Rightarrow> bool" where
  "stops_at base rest \<longleftrightarrow>
     (case rest of [] \<Rightarrow> True | c # _ \<Rightarrow> \<not> (isxdigit c \<and> digit_value c < base))"

lemma strtoul_loop_digits_gen:
  assumes "\<forall>d \<in> set ds. isxdigit (digit_char d) \<and> digit_value (digit_char d) = (of_nat d :: 'a word)
              \<and> (of_nat d :: 'a::len word) < base"
    and "stops_at base rest"
  shows "strtoul_loop (map digit_char ds @ rest) base acc
      = (foldl (\<lambda>a d. a * base + of_nat d) acc ds, rest)"
  using assms
proof (induction ds arbitrary: acc)
  case Nil
  then show ?case by (auto simp: stops_at_def split: list.splits)
qed simp

lemma foldl_of_nat:
  "foldl (\<lambda>a d. a * of_nat b + of_nat d) (of_nat n) ds
     = (of_nat (foldl (\<lambda>a d. a * b + d) n ds) :: 'a::len word)"
proof (induction ds arbitrary: n)
  case (Cons d ds)
  have "of_nat n * of_nat b + of_nat d = (of_nat (n * b + d) :: 'a word)" by simp
  then show ?case by (simp only: foldl_Cons Cons.IH)
qed simp

lemma of_nat_digit_less:
  assumes "d < b" "b \<le> 16"
  shows "(of_nat d :: u32) < of_nat b" "(of_nat d :: u64) < of_nat b"
proof -
  have u: "unat (of_nat n :: u32) = n" "unat (of_nat n :: u64) = n" if "n \<le> 16" for n
    using that by (simp_all add: unat_of_nat)
  have "d \<le> 16" using assms by linarith
  with assms u [of d] u [of b]
  show "(of_nat d :: u32) < of_nat b" "(of_nat d :: u64) < of_nat b"
    unfolding word_less_nat_alt by simp_all
qed

lemma strtoul_loop_digits:
  fixes b :: nat
  assumes b: "b \<le> 16" and ds: "\<forall>d \<in> set ds. d < b" and "stops_at (of_nat b :: u32) rest"
  shows "strtoul_loop (map digit_char ds @ rest) (of_nat b :: u32) 0
      = (of_nat (digits_value b ds), rest)"
proof -
  have "\<forall>d \<in> set ds. isxdigit (digit_char d) \<and> digit_value (digit_char d) = (of_nat d :: u32)
              \<and> (of_nat d :: u32) < of_nat b"
  proof
    fix d assume "d \<in> set ds"
    with ds b have "d < 16" "d < b" by auto
    with b show "isxdigit (digit_char d) \<and> digit_value (digit_char d) = (of_nat d :: u32)
              \<and> (of_nat d :: u32) < of_nat b"
      by (simp add: digit_char of_nat_digit_less)
  qed
  from strtoul_loop_digits_gen [OF this assms(3), of 0] foldl_of_nat [of b 0 ds]
  show ?thesis by (simp add: digits_value_def)
qed


lemma digits_value_Cons_0: "digits_value b (0 # ds) = digits_value b ds"
  by (simp add: digits_value_def)

lemma digit_char_0 [simp]: "digit_char 0 = 0x30"
  by (simp add: digit_char_def)

lemma digit_char_eq_0x30:
  assumes "d < 16" shows "digit_char d = 0x30 \<longleftrightarrow> d = 0" "digit_char d \<noteq> 0x78"
proof -
  have "list_all (\<lambda>d. (digit_char d = 0x30 \<longleftrightarrow> d = 0) \<and> digit_char d \<noteq> 0x78) [0..<16]"
    by code_simp
  with assms show "digit_char d = 0x30 \<longleftrightarrow> d = 0" "digit_char d \<noteq> 0x78"
    by (auto simp: list_all_iff)
qed

lemma zero_stops_not:
  assumes "stops_at (of_nat b :: u32) rest" "0 < b" "b \<le> 16"
  shows "peek rest \<noteq> 0x30"
proof
  assume "peek rest = 0x30"
  then obtain t where rest: "rest = 0x30 # t" by (cases rest) auto
  have "isxdigit 0x30" "digit_value 0x30 = (0 :: u32)"
    using digit_char [of 0] by simp_all
  moreover have "(0 :: u32) < of_nat b"
    using of_nat_digit_less(1) [of 0 b] assms(2,3) by simp
  ultimately show False using assms(1) rest by (simp add: stops_at_def)
qed

lemma strtoul_base_id:
  "peek cp \<noteq> 0x30 \<Longrightarrow> base \<noteq> 0 \<Longrightarrow> strtoul_base cp base = (cp, base)"
  by (simp add: strtoul_base_def)

lemma strtoul_base_0:
  "peek cp \<noteq> 0x78 \<Longrightarrow> base \<noteq> 0 \<Longrightarrow> strtoul_base (0x30 # cp) base = (cp, base)"
  by (simp add: strtoul_base_def)

lemma of_nat_base_neq_0: "0 < b \<Longrightarrow> b \<le> 16 \<Longrightarrow> (of_nat b :: u32) \<noteq> 0"
  using of_nat_digit_less(1) [of 0 b] by auto

text \<open>A numeral in a given base is parsed to its value modulo \<open>2 ^ 32\<close>, and the parse ends at the
  first character that is not a digit of that base.\<close>

lemma simple_strtoul_numeral:
  assumes b: "0 < b" "b \<le> 16" and ds: "\<forall>d \<in> set ds. d < b"
    and stop: "stops_at (of_nat b :: u32) rest" and nx: "peek rest \<noteq> 0x78"
  shows "simple_strtoul (map digit_char ds @ rest) (of_nat b)
      = (of_nat (digits_value b ds), rest)"
proof (cases ds)
  case Nil
  with zero_stops_not [OF stop b] of_nat_base_neq_0 [OF b] strtoul_loop_digits [OF b(2) ds stop]
  show ?thesis by (simp add: simple_strtoul_def strtoul_base_id)
next
  case (Cons d ds')
  with ds b have d16: "d < 16" "\<forall>d \<in> set ds'. d < 16" by auto
  have px: "peek (map digit_char ds' @ rest) \<noteq> 0x78"
    using nx d16 by (cases ds') (auto simp: digit_char_eq_0x30)
  have ds': "\<forall>d \<in> set ds'. d < b" using ds Cons by simp
  show ?thesis
  proof (cases "d = 0")
    case True
    with px Cons of_nat_base_neq_0 [OF b] strtoul_loop_digits [OF b(2) ds' stop]
    show ?thesis
      by (simp add: simple_strtoul_def strtoul_base_0 digits_value_Cons_0)
  next
    case False
    then have "peek (map digit_char ds @ rest) \<noteq> 0x30"
      using Cons d16 by (simp add: digit_char_eq_0x30)
    with of_nat_base_neq_0 [OF b] strtoul_loop_digits [OF b(2) ds stop]
    show ?thesis by (simp add: simple_strtoul_def strtoul_base_id)
  qed
qed

lemma simple_strtoul_hex:
  assumes ds: "\<forall>d \<in> set ds. d < 16" "ds \<noteq> []" and stop: "stops_at (16 :: u32) rest"
  shows "simple_strtoul (cs ''0x'' @ map digit_char ds @ rest) base
      = (of_nat (digits_value 16 ds), rest)"
proof -
  obtain d ds' where "ds = d # ds'" using ds(2) by (cases ds) auto
  with ds(1) have "isxdigit (peek (map digit_char ds @ rest))"
    by (simp add: digit_char)
  moreover have "strtoul_loop (map digit_char ds @ rest) (16 :: u32) 0
      = (of_nat (digits_value 16 ds), rest)"
    using strtoul_loop_digits [of 16 ds rest] ds(1) stop by simp
  ultimately show ?thesis
    by (simp add: simple_strtoul_def strtoul_base_def cs_def)
qed

lemma simple_strtol_neg:
  assumes "0 < b" "b \<le> 16" "\<forall>d \<in> set ds. d < b"
    "stops_at (of_nat b :: u32) rest" "peek rest \<noteq> 0x78"
  shows "simple_strtol (ch CHR ''-'' # map digit_char ds @ rest) (of_nat b)
      = (- of_nat (digits_value b ds), rest)"
  using simple_strtoul_numeral [OF assms] by (simp add: simple_strtol_def)

end
