(* ===== verification/Crc32.thy ===== *)
theory Crc32
  imports Prelude
begin

text \<open>
  CRC-32: \<^verbatim>\<open>lib/crc32.c\<close> as compiled for this big-endian target. The table holds the entries
  byte-swapped (\<^verbatim>\<open>tole\<close>), the register is kept byte-swapped, and the main loop consumes the
  buffer in aligned 32-bit loads after a byte-wise prologue that depends on the address of the
  buffer. The reference is the bit-serial register of \<^verbatim>\<open>make_crc_table\<close>; the main lemma shows
  that the optimised routine computes it, whatever the alignment.
\<close>

subsection \<open>Byte-level algebra of 32-bit words\<close>

lemma be32_cases: "\<exists>a b c d. w = be32_val a b c d"
  by (metis be32_val_bytes)

lemma bit_be32_val:
  "bit (be32_val a b c d) n \<longleftrightarrow>
     (if n < 8 then bit d n else if n < 16 then bit c (n - 8) else if n < 24 then bit b (n - 16)
      else bit a (n - 24))"
proof -
  consider "n < 8" | "8 \<le> n" "n < 16" | "16 \<le> n" "n < 24" | "24 \<le> n" by fastforce
  then show ?thesis
    by cases (auto simp: be32_val_def bit_simps dest: bit_imp_le_length)
qed

lemma be32_xor:
  "be32_val a b c d XOR be32_val a' b' c' d'
     = be32_val (a XOR a') (b XOR b') (c XOR c') (d XOR d')"
  by (rule bit_word_eqI) (simp add: bit_xor_iff bit_be32_val)

lemma be32_shl8: "push_bit 8 (be32_val a b c d) = be32_val b c d 0"
proof (rule bit_word_eqI)
  fix n assume "n < LENGTH(32)"
  then consider "n < 8" | "8 \<le> n" "n < 16" | "16 \<le> n" "n < 24" | "24 \<le> n" "n < 32" by fastforce
  then show "bit (push_bit 8 (be32_val a b c d)) n = bit (be32_val b c d 0) n"
    by cases (auto simp: bit_simps bit_be32_val)
qed

lemma be32_shr8: "drop_bit 8 (be32_val a b c d) = be32_val 0 a b c"
proof (rule bit_word_eqI)
  fix n assume "n < LENGTH(32)"
  then consider "n < 8" | "8 \<le> n" "n < 16" | "16 \<le> n" "n < 24" | "24 \<le> n" "n < 32" by fastforce
  then show "bit (drop_bit 8 (be32_val a b c d)) n = bit (be32_val 0 a b c) n"
    by cases (auto simp: bit_simps bit_be32_val dest: bit_imp_le_length)
qed

lemma be32_shr24: "drop_bit 24 (be32_val a b c d) = ucast a"
  by (rule bit_word_eqI) (auto simp: bit_simps bit_be32_val dest: bit_imp_le_length)

lemma be32_of_byte: "(ucast d :: u32) = be32_val 0 0 0 d"
  by (simp add: be32_val_def)

lemma and_ff_be32: "be32_val a b c d AND 0xFF = ucast d"
proof -
  have "(w AND 0xFF :: u32) = take_bit 8 w" for w
    unfolding take_bit_eq_mask by (simp add: mask_eq_exp_minus_1)
  then show ?thesis
    by (simp only:) (rule bit_word_eqI, auto simp: bit_simps bit_be32_val dest: bit_imp_le_length)
qed

lemma unat_ucast_byte_u32 [simp]: "unat (ucast (d :: byte) :: u32) = unat d"
  using byte_less_256 [of d] by (simp add: unat_ucast_mod)

definition swab32 :: "u32 \<Rightarrow> u32" where
  "swab32 x = push_bit 24 (x AND 0x000000ff) OR push_bit 8 (x AND 0x0000ff00) OR
     drop_bit 8 (x AND 0x00ff0000) OR drop_bit 24 (x AND 0xff000000)"

lemma swab32_be32 [simp]: "swab32 (be32_val a b c d) = be32_val d c b a"
proof (rule bit_word_eqI)
  have m: "(0x000000ff :: u32) = mask 8" "(0x0000ff00 :: u32) = push_bit 8 (mask 8)"
    "(0x00ff0000 :: u32) = push_bit 16 (mask 8)" "(0xff000000 :: u32) = push_bit 24 (mask 8)"
    by (simp_all add: mask_eq_exp_minus_1)
  fix n assume "n < LENGTH(32)"
  then consider "n < 8" | "8 \<le> n" "n < 16" | "16 \<le> n" "n < 24" | "24 \<le> n" "n < 32" by fastforce
  then show "bit (swab32 (be32_val a b c d)) n = bit (be32_val d c b a) n"
    unfolding swab32_def m
    by cases (auto simp: bit_simps bit_be32_val dest: bit_imp_le_length)
qed

lemma swab32_swab32 [simp]: "swab32 (swab32 w) = w"
  using be32_cases [of w] by auto

lemma swab32_xor: "swab32 (v XOR w) = swab32 v XOR swab32 w"
  using be32_cases [of v] be32_cases [of w] by (auto simp: be32_xor)

subsection \<open>The code\<close>

definition crc_table_raw :: "u32 list" where
  "crc_table_raw = [
     0x00000000, 0x77073096, 0xee0e612c, 0x990951ba, 0x076dc419, 0x706af48f,
     0xe963a535, 0x9e6495a3, 0x0edb8832, 0x79dcb8a4, 0xe0d5e91e, 0x97d2d988,
     0x09b64c2b, 0x7eb17cbd, 0xe7b82d07, 0x90bf1d91, 0x1db71064, 0x6ab020f2,
     0xf3b97148, 0x84be41de, 0x1adad47d, 0x6ddde4eb, 0xf4d4b551, 0x83d385c7,
     0x136c9856, 0x646ba8c0, 0xfd62f97a, 0x8a65c9ec, 0x14015c4f, 0x63066cd9,
     0xfa0f3d63, 0x8d080df5, 0x3b6e20c8, 0x4c69105e, 0xd56041e4, 0xa2677172,
     0x3c03e4d1, 0x4b04d447, 0xd20d85fd, 0xa50ab56b, 0x35b5a8fa, 0x42b2986c,
     0xdbbbc9d6, 0xacbcf940, 0x32d86ce3, 0x45df5c75, 0xdcd60dcf, 0xabd13d59,
     0x26d930ac, 0x51de003a, 0xc8d75180, 0xbfd06116, 0x21b4f4b5, 0x56b3c423,
     0xcfba9599, 0xb8bda50f, 0x2802b89e, 0x5f058808, 0xc60cd9b2, 0xb10be924,
     0x2f6f7c87, 0x58684c11, 0xc1611dab, 0xb6662d3d, 0x76dc4190, 0x01db7106,
     0x98d220bc, 0xefd5102a, 0x71b18589, 0x06b6b51f, 0x9fbfe4a5, 0xe8b8d433,
     0x7807c9a2, 0x0f00f934, 0x9609a88e, 0xe10e9818, 0x7f6a0dbb, 0x086d3d2d,
     0x91646c97, 0xe6635c01, 0x6b6b51f4, 0x1c6c6162, 0x856530d8, 0xf262004e,
     0x6c0695ed, 0x1b01a57b, 0x8208f4c1, 0xf50fc457, 0x65b0d9c6, 0x12b7e950,
     0x8bbeb8ea, 0xfcb9887c, 0x62dd1ddf, 0x15da2d49, 0x8cd37cf3, 0xfbd44c65,
     0x4db26158, 0x3ab551ce, 0xa3bc0074, 0xd4bb30e2, 0x4adfa541, 0x3dd895d7,
     0xa4d1c46d, 0xd3d6f4fb, 0x4369e96a, 0x346ed9fc, 0xad678846, 0xda60b8d0,
     0x44042d73, 0x33031de5, 0xaa0a4c5f, 0xdd0d7cc9, 0x5005713c, 0x270241aa,
     0xbe0b1010, 0xc90c2086, 0x5768b525, 0x206f85b3, 0xb966d409, 0xce61e49f,
     0x5edef90e, 0x29d9c998, 0xb0d09822, 0xc7d7a8b4, 0x59b33d17, 0x2eb40d81,
     0xb7bd5c3b, 0xc0ba6cad, 0xedb88320, 0x9abfb3b6, 0x03b6e20c, 0x74b1d29a,
     0xead54739, 0x9dd277af, 0x04db2615, 0x73dc1683, 0xe3630b12, 0x94643b84,
     0x0d6d6a3e, 0x7a6a5aa8, 0xe40ecf0b, 0x9309ff9d, 0x0a00ae27, 0x7d079eb1,
     0xf00f9344, 0x8708a3d2, 0x1e01f268, 0x6906c2fe, 0xf762575d, 0x806567cb,
     0x196c3671, 0x6e6b06e7, 0xfed41b76, 0x89d32be0, 0x10da7a5a, 0x67dd4acc,
     0xf9b9df6f, 0x8ebeeff9, 0x17b7be43, 0x60b08ed5, 0xd6d6a3e8, 0xa1d1937e,
     0x38d8c2c4, 0x4fdff252, 0xd1bb67f1, 0xa6bc5767, 0x3fb506dd, 0x48b2364b,
     0xd80d2bda, 0xaf0a1b4c, 0x36034af6, 0x41047a60, 0xdf60efc3, 0xa867df55,
     0x316e8eef, 0x4669be79, 0xcb61b38c, 0xbc66831a, 0x256fd2a0, 0x5268e236,
     0xcc0c7795, 0xbb0b4703, 0x220216b9, 0x5505262f, 0xc5ba3bbe, 0xb2bd0b28,
     0x2bb45a92, 0x5cb36a04, 0xc2d7ffa7, 0xb5d0cf31, 0x2cd99e8b, 0x5bdeae1d,
     0x9b64c2b0, 0xec63f226, 0x756aa39c, 0x026d930a, 0x9c0906a9, 0xeb0e363f,
     0x72076785, 0x05005713, 0x95bf4a82, 0xe2b87a14, 0x7bb12bae, 0x0cb61b38,
     0x92d28e9b, 0xe5d5be0d, 0x7cdcefb7, 0x0bdbdf21, 0x86d3d2d4, 0xf1d4e242,
     0x68ddb3f8, 0x1fda836e, 0x81be16cd, 0xf6b9265b, 0x6fb077e1, 0x18b74777,
     0x88085ae6, 0xff0f6a70, 0x66063bca, 0x11010b5c, 0x8f659eff, 0xf862ae69,
     0x616bffd3, 0x166ccf45, 0xa00ae278, 0xd70dd2ee, 0x4e048354, 0x3903b3c2,
     0xa7672661, 0xd06016f7, 0x4969474d, 0x3e6e77db, 0xaed16a4a, 0xd9d65adc,
     0x40df0b66, 0x37d83bf0, 0xa9bcae53, 0xdebb9ec5, 0x47b2cf7f, 0x30b5ffe9,
     0xbdbdf21c, 0xcabac28a, 0x53b39330, 0x24b4a3a6, 0xbad03605, 0xcdd70693,
     0x54de5729, 0x23d967bf, 0xb3667a2e, 0xc4614ab8, 0x5d681b02, 0x2a6f2b94,
     0xb40bbe37, 0xc30c8ea1, 0x5a05df1b, 0x2d02ef8d]"

definition crc_table :: "u32 list" where
  "crc_table = map swab32 crc_table_raw"

definition DO_CRC :: "u32 \<Rightarrow> byte \<Rightarrow> u32" where
  "DO_CRC crc x = crc_table ! unat ((drop_bit 24 crc XOR ucast x) AND 255) XOR push_bit 8 crc"

fun crc_align :: "u32 \<Rightarrow> u32 \<Rightarrow> byte list \<Rightarrow> u32 \<times> byte list" where
  "crc_align p crc [] = (crc, [])"
| "crc_align p crc (x # buf) =
     (if p AND 3 \<noteq> 0 then crc_align (p + 1) (DO_CRC crc x) buf else (crc, x # buf))"

fun crc_words :: "u32 \<Rightarrow> byte list \<Rightarrow> u32 \<times> byte list" where
  "crc_words crc (a # b # c # d # buf) =
     (let crc = crc XOR be32_val a b c d;
          crc = DO_CRC crc 0; crc = DO_CRC crc 0; crc = DO_CRC crc 0; crc = DO_CRC crc 0
      in crc_words crc buf)"
| "crc_words crc buf = (crc, buf)"

definition crc32_no_comp :: "u32 \<Rightarrow> u32 \<Rightarrow> byte list \<Rightarrow> u32" where
  "crc32_no_comp addr crc buf =
     (let crc = swab32 crc;
          (crc, buf) = crc_align addr crc buf;
          (crc, buf) = crc_words crc buf
      in swab32 (foldl DO_CRC crc buf))"

definition crc32 :: "u32 \<Rightarrow> u32 \<Rightarrow> byte list \<Rightarrow> u32" where
  "crc32 addr crc p = crc32_no_comp addr (crc XOR 0xffffffff) p XOR 0xffffffff"

definition crc32_wd :: "u32 \<Rightarrow> u32 \<Rightarrow> byte list \<Rightarrow> nat \<Rightarrow> u32" where
  "crc32_wd addr crc buf chunk_sz = crc32 addr crc buf"

subsection \<open>The bit-serial reference\<close>

text \<open>The polynomial and the shift register of \<^verbatim>\<open>make_crc_table\<close>.\<close>

definition crc_poly :: u32 where
  "crc_poly = foldl (\<lambda>poly n. poly OR push_bit (31 - n) 1) 0
     [0, 1, 2, 4, 5, 7, 8, 10, 11, 12, 16, 22, 23, 26]"

definition crc_bit :: "u32 \<Rightarrow> u32" where
  "crc_bit c = (if c AND 1 \<noteq> 0 then crc_poly XOR drop_bit 1 c else drop_bit 1 c)"

primrec crc_bits :: "nat \<Rightarrow> u32 \<Rightarrow> u32" where
  "crc_bits 0 c = c"
| "crc_bits (Suc k) c = crc_bits k (crc_bit c)"

definition make_crc_table :: "u32 list" where
  "make_crc_table = map (\<lambda>n. swab32 (crc_bits 8 (of_nat n))) [0..<256]"

definition crc_ref :: "u32 \<Rightarrow> byte list \<Rightarrow> u32" where
  "crc_ref c buf = foldl (\<lambda>c x. crc_bits 8 (c XOR ucast x)) c buf"

lemma crc_poly_val [code, simp]: "crc_poly = 0xedb88320"
  by (simp add: crc_poly_def)

primrec words_from :: "nat \<Rightarrow> u32 \<Rightarrow> u32 list" where
  "words_from 0 w = []"
| "words_from (Suc n) w = w # words_from n (w + 1)"

lemma words_from_nth: "i < n \<Longrightarrow> words_from n w ! i = w + of_nat i"
proof (induction n arbitrary: w i)
  case (Suc n)
  then show ?case by (cases i) (simp_all add: add.assoc)
qed simp

lemma length_words_from [simp]: "length (words_from n w) = n"
  by (induction n arbitrary: w) simp_all

lemma crc_table_check: "crc_table_raw = map (crc_bits 8) (words_from 256 0)"
  by code_simp

lemma crc_table_nth: "crc_table ! unat (x :: byte) = swab32 (crc_bits 8 (ucast x))"
proof -
  have "unat x < 256" by (rule byte_less_256)
  moreover have "(of_nat (unat x) :: u32) = ucast x"
    by (rule word_eq_of_natI [symmetric]) simp
  ultimately show ?thesis
    by (simp add: crc_table_def crc_table_check words_from_nth)
qed

lemma make_crc_table_eq: "make_crc_table = crc_table"
  unfolding make_crc_table_def crc_table_def crc_table_check
  by (rule nth_equalityI) (simp_all add: words_from_nth)

subsection \<open>Linearity of the shift register\<close>

lemma and_1_bit: "(x :: u32) AND 1 \<noteq> 0 \<longleftrightarrow> bit x 0"
  by (simp add: and_one_eq bit_0 odd_iff_mod_2_eq_one)

lemma ucast_xor_u32: "(ucast (a :: byte) XOR ucast b :: u32) = ucast (a XOR b)"
  by (rule bit_word_eqI) (auto simp: bit_simps)

lemma crc_bit_xor: "crc_bit (v XOR w) = crc_bit v XOR crc_bit w"
proof -
  have odd: "(v XOR w) AND 1 \<noteq> 0 \<longleftrightarrow> (v AND 1 \<noteq> 0) \<noteq> (w AND 1 \<noteq> 0)"
    unfolding and_1_bit bit_xor_iff by simp
  have assoc: "x XOR (p XOR y) = p XOR (x XOR y)" "p XOR (p XOR y) = y" for p x y :: u32
    by (simp_all add: xor.left_commute flip: xor.assoc)
  show ?thesis
    unfolding crc_bit_def odd drop_bit_xor
    by (cases "v AND 1 = 0"; cases "w AND 1 = 0") (simp_all only: if_True if_False assoc not_False_eq_True
        simp_thms xor.assoc)
qed

lemma crc_bits_xor: "crc_bits k (v XOR w) = crc_bits k v XOR crc_bits k w"
  by (induction k arbitrary: v w) (simp_all add: crc_bit_xor)

lemma crc_bits_shift: "take_bit k w = 0 \<Longrightarrow> crc_bits k w = drop_bit k w"
proof (induction k arbitrary: w)
  case (Suc k)
  have "\<not> bit w 0"
    using Suc.prems bit_take_bit_iff [of "Suc k" w 0] by simp
  then have "crc_bit w = drop_bit 1 w"
    unfolding crc_bit_def and_1_bit by simp
  moreover have "take_bit k (drop_bit 1 w) = 0"
    using Suc.prems by (simp add: take_bit_drop_bit)
  ultimately show ?case using Suc.IH [of "drop_bit 1 w"] by (simp add: drop_bit_drop_bit)
qed simp

lemma crc_bits_be32: "crc_bits 8 (be32_val a b c d) = be32_val 0 a b c XOR crc_bits 8 (ucast d)"
proof -
  have "be32_val a b c d = be32_val a b c 0 XOR ucast d"
    by (simp add: be32_of_byte be32_xor)
  moreover have "take_bit 8 (be32_val a b c 0) = 0"
    by (rule bit_word_eqI) (simp add: bit_simps bit_be32_val)
  ultimately show ?thesis by (simp add: crc_bits_xor crc_bits_shift be32_shr8)
qed

subsection \<open>The optimised routine computes the reference\<close>

lemma DO_CRC_swab: "DO_CRC (swab32 c) x = swab32 (crc_bits 8 (c XOR ucast x))"
proof -
  obtain p q r s where c: "c = be32_val p q r s" using be32_cases by blast
  have "(ucast (s XOR x) :: u32) AND 0xFF = ucast (s XOR x)"
    using and_ff_be32 [of 0 0 0 "s XOR x"] by (simp add: be32_of_byte)
  then have "DO_CRC (swab32 c) x = swab32 (crc_bits 8 (ucast (s XOR x))) XOR be32_val r q p 0"
    by (simp add: DO_CRC_def c be32_shr24 be32_shl8 crc_table_nth ucast_xor_u32)
  also have "\<dots> = swab32 (crc_bits 8 (be32_val p q r (s XOR x)))"
    by (simp add: crc_bits_be32 swab32_xor xor.commute)
  also have "be32_val p q r (s XOR x) = c XOR ucast x" by (simp add: c be32_of_byte be32_xor)
  finally show ?thesis .
qed

lemma foldl_DO_CRC: "foldl DO_CRC (swab32 c) buf = swab32 (crc_ref c buf)"
  by (induction buf arbitrary: c) (simp_all add: crc_ref_def DO_CRC_swab)

lemma crc_align_eq:
  "crc_align p crc buf = (crc', buf') \<Longrightarrow> foldl DO_CRC crc buf = foldl DO_CRC crc' buf'"
  by (induction p crc buf rule: crc_align.induct) (auto split: if_splits)

lemma DO_CRC_word: "DO_CRC (crc XOR be32_val a b c d) 0 = DO_CRC crc a XOR be32_val b c d 0"
proof -
  obtain p q r s where crc: "crc = be32_val p q r s" using be32_cases by blast
  show ?thesis
    by (simp add: crc DO_CRC_def be32_xor be32_shr24 be32_shl8 xor.assoc ucast_xor_u32)
qed

lemma crc_words_eq:
  "crc_words crc buf = (crc', buf') \<Longrightarrow> foldl DO_CRC crc buf = foldl DO_CRC crc' buf'"
proof (induction crc buf rule: crc_words.induct)
  case (1 crc a b c d buf)
  have z: "be32_val 0 0 0 0 = 0" by (simp add: be32_val_def)
  have "DO_CRC (DO_CRC (DO_CRC (DO_CRC (crc XOR be32_val a b c d) 0) 0) 0) 0
      = DO_CRC (DO_CRC (DO_CRC (DO_CRC crc a) b) c) d"
    by (simp add: DO_CRC_word z)
  with 1 show ?case by (simp add: Let_def)
qed auto

lemma crc32_no_comp_correct: "crc32_no_comp addr crc buf = crc_ref crc buf"
proof -
  obtain c1 b1 where 1: "crc_align addr (swab32 crc) buf = (c1, b1)" by fastforce
  obtain c2 b2 where 2: "crc_words c1 b1 = (c2, b2)" by fastforce
  have "foldl DO_CRC c2 b2 = foldl DO_CRC (swab32 crc) buf"
    using crc_align_eq [OF 1] crc_words_eq [OF 2] by simp
  then show ?thesis by (simp add: crc32_no_comp_def 1 2 foldl_DO_CRC)
qed

text \<open>C24: the word-wise, byte-swapped, alignment-dependent CRC routine computes the bit-serial CRC-32
  of the buffer, for every address and every content.\<close>

theorem crc32_correct:
  "crc32 addr crc buf = crc_ref (crc XOR 0xffffffff) buf XOR 0xffffffff"
  by (simp add: crc32_def crc32_no_comp_correct)

subsection \<open>The register loses no information\<close>

lemma crc_bit_eq_0: "crc_bit c = 0 \<Longrightarrow> c = 0"
proof (cases "bit c 0")
  case True
  assume "crc_bit c = 0"
  with True have "crc_poly XOR drop_bit 1 c = 0" unfolding crc_bit_def and_1_bit by simp
  then have "bit (crc_poly XOR drop_bit 1 c) 31 = bit (0 :: u32) 31" by (rule arg_cong)
  moreover have "\<not> bit (drop_bit 1 c) 31" by (auto simp: bit_drop_bit_eq dest: bit_imp_le_length)
  moreover have "bit crc_poly 31" by simp
  ultimately show ?thesis by (simp only: bit_xor_iff bit_0_eq) simp
next
  case False
  assume "crc_bit c = 0"
  with False have z: "drop_bit 1 c = 0" unfolding crc_bit_def and_1_bit by simp
  have "\<not> bit c (Suc n)" for n
    using arg_cong [OF z, of "\<lambda>w. bit w n"] by (simp add: bit_drop_bit_eq)
  with False show ?thesis by (intro bit_eqI) (metis bit_0_eq bot_apply bot_bool_def not0_implies_Suc)
qed

lemma crc_bits_eq_0: "crc_bits k c = 0 \<Longrightarrow> c = 0"
  by (induction k arbitrary: c) (auto dest: crc_bit_eq_0)

lemma crc_bits_inj: "crc_bits k c = crc_bits k c' \<Longrightarrow> c = c'"
proof -
  assume "crc_bits k c = crc_bits k c'"
  then have "crc_bits k (c XOR c') = 0" by (simp add: crc_bits_xor)
  then have "c XOR c' = 0" by (rule crc_bits_eq_0)
  then have "(c XOR c') XOR c' = c'" by simp
  then show ?thesis by (simp add: xor.assoc)
qed

lemma crc_ref_append: "crc_ref c (xs @ ys) = crc_ref (crc_ref c xs) ys"
  by (simp add: crc_ref_def)

lemma crc_ref_Cons: "crc_ref c (x # xs) = crc_ref (crc_bits 8 (c XOR ucast x)) xs"
  by (simp add: crc_ref_def)

lemma crc_ref_state_inj: "crc_ref c ys = crc_ref c' ys \<Longrightarrow> c = c'"
proof (induction ys arbitrary: c c')
  case (Cons y ys)
  from Cons.prems have "crc_ref (crc_bits 8 (c XOR ucast y)) ys = crc_ref (crc_bits 8 (c' XOR ucast y)) ys"
    by (simp only: crc_ref_Cons)
  then have "c XOR ucast y = c' XOR ucast y" using Cons.IH crc_bits_inj by blast
  then have "(c XOR ucast y) XOR ucast y = (c' XOR ucast y) XOR ucast y" by simp
  then show ?case by (simp add: xor.assoc)
qed (simp add: crc_ref_def)

lemma ucast_byte_u32_inj: "(ucast (x :: byte) :: u32) = ucast y \<Longrightarrow> x = y"
  by (metis unat_ucast_byte_u32 word_eq_of_natI)

lemma crc_ref_byte_change: "x \<noteq> y \<Longrightarrow> crc_ref c (xs @ x # ys) \<noteq> crc_ref c (xs @ y # ys)"
proof
  let ?c = "crc_ref c xs"
  assume "x \<noteq> y" and "crc_ref c (xs @ x # ys) = crc_ref c (xs @ y # ys)"
  then have "crc_bits 8 (?c XOR ucast x) = crc_bits 8 (?c XOR ucast y)"
    by - (rule crc_ref_state_inj [of _ ys], simp only: crc_ref_append crc_ref_Cons)
  then have "?c XOR ucast x = ?c XOR ucast y" by (rule crc_bits_inj)
  then have "?c XOR (?c XOR ucast x) = ?c XOR (?c XOR ucast y)" by simp
  then have "(ucast x :: u32) = ucast y" by (simp flip: xor.assoc)
  with \<open>x \<noteq> y\<close> show False using ucast_byte_u32_inj by blast
qed

lemma crc32_byte_change: "x \<noteq> y \<Longrightarrow> crc32 addr c (xs @ x # ys) \<noteq> crc32 addr c (xs @ y # ys)"
proof
  let ?m = "0xffffffff :: u32"
  assume "x \<noteq> y" and "crc32 addr c (xs @ x # ys) = crc32 addr c (xs @ y # ys)"
  then have e: "crc_ref (c XOR ?m) (xs @ x # ys) XOR ?m = crc_ref (c XOR ?m) (xs @ y # ys) XOR ?m"
    by (simp only: crc32_def crc32_no_comp_correct)
  have "crc_ref (c XOR ?m) (xs @ x # ys) = crc_ref (c XOR ?m) (xs @ y # ys)"
    using arg_cong [OF e, of "\<lambda>w. w XOR ?m"] by (simp add: xor.assoc)
  with crc_ref_byte_change [OF \<open>x \<noteq> y\<close>] show False by blast
qed

text \<open>Two buffers that differ in exactly one byte have different CRCs, whatever the byte and its
  position.\<close>

theorem crc32_detects_byte:
  "i < length buf \<Longrightarrow> buf ! i \<noteq> x \<Longrightarrow> crc32 addr c (buf[i := x]) \<noteq> crc32 addr' c buf"
  using crc32_byte_change [of x "buf ! i" addr c "take i buf" "drop (Suc i) buf"]
    crc32_def crc32_no_comp_correct
  by (metis id_take_nth_drop upd_conv_take_nth_drop)

theorem crc32_detects_byte_witness:
  "crc32 0 0 ([1, 2, 3][1 := 7]) \<noteq> crc32 4 0 [1, 2, 3]"
  using crc32_detects_byte [of 1 "[1, 2, 3]" 7] by simp

subsection \<open>Checksums computed in pieces\<close>

text \<open>The interface of a running checksum, as the image loader and the environment use it.\<close>

locale running_checksum =
  fixes upd :: "'c \<Rightarrow> byte list \<Rightarrow> 'c"
  assumes upd_Nil: "upd c [] = c"
    and upd_append: "upd c (xs @ ys) = upd (upd c xs) ys"
begin

lemma upd_chunks: "foldl upd c xss = upd c (concat xss)"
  by (induction xss arbitrary: c) (simp_all add: upd_Nil upd_append)

end

interpretation crc: running_checksum "crc32 addr" for addr
proof
  fix c :: u32 and xs ys :: "byte list"
  show "crc32 addr c [] = c"
    by (simp add: crc32_def crc32_no_comp_correct crc_ref_def xor.assoc)
  show "crc32 addr c (xs @ ys) = crc32 addr (crc32 addr c xs) ys"
    by (simp add: crc32_def crc32_no_comp_correct crc_ref_append xor.assoc)
qed

lemma crc32_addr: "crc32 addr c buf = crc32 addr' c buf"
  by (simp add: crc32_def crc32_no_comp_correct)

text \<open>A checksum computed over consecutive pieces of a buffer, each at its own address, is the
  checksum of the whole buffer.\<close>

theorem crc32_pieces:
  "foldl (\<lambda>c (a, xs). crc32 a c xs) c pieces = crc32 addr c (concat (map snd pieces))"
proof -
  have "(\<lambda>c (a, xs). crc32 a c xs) = (\<lambda>c p. crc32 addr c (snd p))"
    by (auto simp: fun_eq_iff intro: crc32_addr)
  then have "foldl (\<lambda>c (a, xs). crc32 a c xs) c pieces = foldl (crc32 addr) c (map snd pieces)"
    by (simp add: foldl_map)
  then show ?thesis by (simp add: crc.upd_chunks)
qed

end
