(* ===== verification/Nvram.thy ===== *)
theory Nvram
  imports Prelude "HOL-Library.Signed_Division"
begin

text \<open>
  The MK48T59 clock and NVRAM chip behind its index/data ports
  (\<^verbatim>\<open>drivers/rtc/mk48t59.c\<close>, \<^verbatim>\<open>include/mk48t59.h\<close>, \<^verbatim>\<open>include/bcd.h\<close>).

  The port accesses \<^verbatim>\<open>out8\<close> and \<^verbatim>\<open>in8\<close> reach hardware: they are parameters of every definition,
  acting on an arbitrary device state \<open>'w\<close>. What the driver relies on is the locale
  \<open>rtc_ports\<close>: two index writes select a byte cell, the data port reads or writes it. Inside it
  the driver's block transfers are shown to refine an array of cells; \<open>mk48t59\<close> is the device
  with the two index latches and the cells, on which the locale is interpreted.
\<close>

subsection \<open>Ports and registers\<close>

abbreviation (input) RTC_PORT_ADDR0 :: u32 where "RTC_PORT_ADDR0 \<equiv> 0x80000070"
abbreviation (input) RTC_PORT_ADDR1 :: u32 where "RTC_PORT_ADDR1 \<equiv> 0x80000071"
abbreviation (input) RTC_PORT_DATA :: u32 where "RTC_PORT_DATA \<equiv> 0x80000076"

abbreviation (input) RTC_WATCHDOG :: u16 where "RTC_WATCHDOG \<equiv> 0x1FF7"
abbreviation (input) RTC_CONTROLA :: u16 where "RTC_CONTROLA \<equiv> 0x1FF8"
abbreviation (input) RTC_CONTROLB :: u16 where "RTC_CONTROLB \<equiv> 0x1FF9"
abbreviation (input) RTC_SECONDS :: u16 where "RTC_SECONDS \<equiv> 0x1FF9"
abbreviation (input) RTC_MINUTES :: u16 where "RTC_MINUTES \<equiv> 0x1FFA"
abbreviation (input) RTC_HOURS :: u16 where "RTC_HOURS \<equiv> 0x1FFB"
abbreviation (input) RTC_DAY_OF_WEEK :: u16 where "RTC_DAY_OF_WEEK \<equiv> 0x1FFC"
abbreviation (input) RTC_DAY_OF_MONTH :: u16 where "RTC_DAY_OF_MONTH \<equiv> 0x1FFD"
abbreviation (input) RTC_MONTH :: u16 where "RTC_MONTH \<equiv> 0x1FFE"
abbreviation (input) RTC_YEAR :: u16 where "RTC_YEAR \<equiv> 0x1FFF"

type_synonym 'w out_port = "u32 \<Rightarrow> byte \<Rightarrow> 'w \<Rightarrow> 'w"
type_synonym 'w in_port = "u32 \<Rightarrow> 'w \<Rightarrow> byte \<times> 'w"

definition rtc_read :: "'w out_port \<Rightarrow> 'w in_port \<Rightarrow> u16 \<Rightarrow> 'w \<Rightarrow> byte \<times> 'w" where
  "rtc_read out8 in8 reg w =
     (let w = out8 RTC_PORT_ADDR0 (ucast (reg AND 0xFF)) w;
          w = out8 RTC_PORT_ADDR1 (ucast (drop_bit 8 reg AND 0xFF)) w
      in in8 RTC_PORT_DATA w)"

definition rtc_write :: "'w out_port \<Rightarrow> u16 \<Rightarrow> byte \<Rightarrow> 'w \<Rightarrow> 'w" where
  "rtc_write out8 reg val w =
     (let w = out8 RTC_PORT_ADDR0 (ucast (reg AND 0xFF)) w;
          w = out8 RTC_PORT_ADDR1 (ucast (drop_bit 8 reg AND 0xFF)) w
      in out8 RTC_PORT_DATA val w)"

subsection \<open>Block transfers\<close>

primrec nvram_read ::
  "'w out_port \<Rightarrow> 'w in_port \<Rightarrow> u16 \<Rightarrow> nat \<Rightarrow> 'w \<Rightarrow> byte list \<times> 'w" where
  "nvram_read out8 in8 s 0 w = ([], w)"
| "nvram_read out8 in8 s (Suc count) w =
     (let (b, w) = rtc_read out8 in8 s w;
          (bs, w) = nvram_read out8 in8 (s + 1) count w
      in (b # bs, w))"

primrec nvram_write :: "'w out_port \<Rightarrow> u16 \<Rightarrow> byte list \<Rightarrow> 'w \<Rightarrow> 'w" where
  "nvram_write out8 d [] w = w"
| "nvram_write out8 d (b # bs) w = nvram_write out8 (d + 1) bs (rtc_write out8 d b w)"

subsection \<open>The clock\<close>

record rtc_time =
  tm_sec :: int
  tm_min :: int
  tm_hour :: int
  tm_mday :: int
  tm_mon :: int
  tm_year :: int
  tm_wday :: int
  tm_yday :: int
  tm_isdst :: int

definition bcd2bin :: "byte \<Rightarrow> u32" where
  "bcd2bin val = ucast (val AND 0x0f) + ucast (drop_bit 4 val) * 10"

definition bin2bcd :: "u32 \<Rightarrow> byte" where
  "bin2bcd val = ucast (push_bit 4 (val div 10) OR (val mod 10))"

definition rtc_get :: "'w out_port \<Rightarrow> 'w in_port \<Rightarrow> 'w \<Rightarrow> rtc_time \<times> 'w" where
  "rtc_get out8 in8 w =
     (let (save_ctrl_a, w) = rtc_read out8 in8 RTC_CONTROLA w;
          save_ctrl_a = save_ctrl_a OR 0x40;
          w = rtc_write out8 RTC_CONTROLA save_ctrl_a w;
          (sec, w) = rtc_read out8 in8 RTC_SECONDS w;
          (min, w) = rtc_read out8 in8 RTC_MINUTES w;
          (hour, w) = rtc_read out8 in8 RTC_HOURS w;
          (mday, w) = rtc_read out8 in8 RTC_DAY_OF_MONTH w;
          (wday, w) = rtc_read out8 in8 RTC_DAY_OF_WEEK w;
          (mon, w) = rtc_read out8 in8 RTC_MONTH w;
          (year, w) = rtc_read out8 in8 RTC_YEAR w;
          save_ctrl_a = save_ctrl_a AND NOT 0x40;
          w = rtc_write out8 RTC_CONTROLA save_ctrl_a w;
          y = sint (bcd2bin year)
      in (\<lparr> tm_sec = sint (bcd2bin (sec AND 0x7F)),
            tm_min = sint (bcd2bin (min AND 0x7F)),
            tm_hour = sint (bcd2bin (hour AND 0x3F)),
            tm_mday = sint (bcd2bin (mday AND 0x3F)),
            tm_mon = sint (bcd2bin (mon AND 0x1F)),
            tm_year = (if y < 70 then y + 2000 else y + 1900),
            tm_wday = sint (bcd2bin (wday AND 0x07)),
            tm_yday = 0, tm_isdst = 0 \<rparr>, w))"

definition rtc_set :: "'w out_port \<Rightarrow> 'w in_port \<Rightarrow> rtc_time \<Rightarrow> 'w \<Rightarrow> 'w" where
  "rtc_set out8 in8 tmp w =
     (let (save_ctrl_a, w) = rtc_read out8 in8 RTC_CONTROLA w;
          save_ctrl_a = save_ctrl_a OR 0x80;
          w = rtc_write out8 RTC_CONTROLA save_ctrl_a w;
          w = rtc_write out8 RTC_YEAR (bin2bcd (word_of_int (tm_year tmp smod 100))) w;
          w = rtc_write out8 RTC_MONTH (bin2bcd (word_of_int (tm_mon tmp))) w;
          w = rtc_write out8 RTC_DAY_OF_WEEK (bin2bcd (word_of_int (tm_wday tmp))) w;
          w = rtc_write out8 RTC_DAY_OF_MONTH (bin2bcd (word_of_int (tm_mday tmp))) w;
          w = rtc_write out8 RTC_HOURS (bin2bcd (word_of_int (tm_hour tmp))) w;
          w = rtc_write out8 RTC_MINUTES (bin2bcd (word_of_int (tm_min tmp))) w;
          w = rtc_write out8 RTC_SECONDS (bin2bcd (word_of_int (tm_sec tmp))) w;
          save_ctrl_a = save_ctrl_a AND NOT 0x80
      in rtc_write out8 RTC_CONTROLA save_ctrl_a w)"

definition rtc_reset :: "'w out_port \<Rightarrow> 'w in_port \<Rightarrow> 'w \<Rightarrow> 'w" where
  "rtc_reset out8 in8 w =
     (let (control_b, w) = rtc_read out8 in8 RTC_CONTROLB w;
          control_b = control_b AND NOT 0x80
      in rtc_write out8 RTC_CONTROLB control_b w)"

definition rtc_set_watchdog :: "'w out_port \<Rightarrow> u16 \<Rightarrow> u16 \<Rightarrow> 'w \<Rightarrow> 'w" where
  "rtc_set_watchdog out8 multi res w =
     rtc_write out8 RTC_WATCHDOG
       (ucast (0x80 OR push_bit 2 (multi AND 0x1F) OR (res AND 0x3))) w"

subsection \<open>The abstract store: an array of byte cells\<close>

type_synonym cells = "u16 \<Rightarrow> byte"

primrec cells_read :: "u16 \<Rightarrow> nat \<Rightarrow> cells \<Rightarrow> byte list" where
  "cells_read s 0 m = []"
| "cells_read s (Suc n) m = m s # cells_read (s + 1) n m"

primrec cells_write :: "u16 \<Rightarrow> byte list \<Rightarrow> cells \<Rightarrow> cells" where
  "cells_write d [] m = m"
| "cells_write d (b # bs) m = cells_write (d + 1) bs (m(d := b))"

lemma cells_read_map: "cells_read s n m = map (\<lambda>i. m (s + of_nat i)) [0..<n]"
proof (induction n arbitrary: s)
  case (Suc n)
  have "map (\<lambda>i. m (s + of_nat i)) [0..<Suc n] = m s # map (\<lambda>i. m (s + 1 + of_nat i)) [0..<n]"
    by (simp add: upt_conv_Cons map_Suc_upt [symmetric] add.assoc del: upt_Suc)
  with Suc show ?case by simp
qed simp

lemma length_cells_read [simp]: "length (cells_read s n m) = n"
  by (simp add: cells_read_map)

lemma cells_read_append:
  "cells_read s (k + n) m = cells_read s k m @ cells_read (s + of_nat k) n m"
  by (induction k arbitrary: s) (simp_all add: add.assoc)

lemma cells_write_other:
  assumes "\<forall>i < length bs. a \<noteq> d + of_nat i"
  shows "cells_write d bs m a = m a"
  using assms
proof (induction bs arbitrary: d m)
  case (Cons b bs)
  have "a \<noteq> d" using Cons.prems by force
  moreover have "a \<noteq> d + 1 + of_nat i" if "i < length bs" for i
    using Cons.prems that by (metis Suc_less_eq length_Cons of_nat_Suc add.assoc)
  ultimately have "cells_write (d + 1) bs (m(d := b)) a = (m(d := b)) a"
    by (intro Cons.IH) blast
  with \<open>a \<noteq> d\<close> show ?case by simp
qed simp

lemma unat_of_nat_u16: "n < 65536 \<Longrightarrow> unat (of_nat n :: u16) = n"
  by (simp add: unat_of_nat)

lemma of_nat_u16_inj:
  "i < 65536 \<Longrightarrow> j < 65536 \<Longrightarrow> of_nat i = (of_nat j :: u16) \<longleftrightarrow> i = j"
  using unat_of_nat_u16 by metis

lemma cells_read_write:
  "length bs \<le> 65536 \<Longrightarrow> cells_read d (length bs) (cells_write d bs m) = bs"
proof (induction bs arbitrary: d m)
  case (Cons b bs)
  have "d \<noteq> d + 1 + of_nat i" if "i < length bs" for i
    using of_nat_u16_inj [of 0 "Suc i"] Cons.prems that by (simp add: add.assoc)
  then have "cells_write (d + 1) bs (m(d := b)) d = (m(d := b)) d"
    by (intro cells_write_other) blast
  with Cons show ?case by simp
qed simp

subsection \<open>The driver over the cells\<close>

locale rtc_ports =
  fixes out8 :: "'w out_port" and in8 :: "'w in_port" and cell :: "'w \<Rightarrow> cells"
  assumes read_law: "in8 RTC_PORT_DATA (out8 RTC_PORT_ADDR1 hi (out8 RTC_PORT_ADDR0 lo w)) = (v, w')
      \<Longrightarrow> v = cell w (be16_val hi lo) \<and> cell w' = cell w"
    and write_law: "cell (out8 RTC_PORT_DATA v (out8 RTC_PORT_ADDR1 hi (out8 RTC_PORT_ADDR0 lo w)))
      = (cell w)(be16_val hi lo := v)"
begin

lemma select_reg:
  "be16_val (ucast (drop_bit 8 reg AND 0xFF)) (ucast (reg AND 0xFF)) = reg"
proof -
  have "(ucast (x AND 0xFF :: u16) :: byte) = ucast x" for x
  proof -
    have m: "(0xFF :: u16) = mask 8" by (simp add: mask_eq_exp_minus_1)
    show ?thesis unfolding m by (rule bit_word_eqI) (auto simp: bit_simps)
  qed
  then show ?thesis by (simp add: be16_val_bytes)
qed

lemma rtc_read_cell: "rtc_read out8 in8 reg w = (v, w') \<Longrightarrow> v = cell w reg \<and> cell w' = cell w"
  using read_law [of "ucast (drop_bit 8 reg AND 0xFF)" "ucast (reg AND 0xFF)" w v w']
  by (simp add: rtc_read_def Let_def select_reg)

lemma rtc_write_cell: "cell (rtc_write out8 reg v w) = (cell w)(reg := v)"
  using write_law [of v "ucast (drop_bit 8 reg AND 0xFF)" "ucast (reg AND 0xFF)" w]
  by (simp add: rtc_write_def Let_def select_reg)

lemma nvram_read_cells:
  "nvram_read out8 in8 s n w = (bs, w') \<Longrightarrow> bs = cells_read s n (cell w) \<and> cell w' = cell w"
proof (induction n arbitrary: s w bs)
  case (Suc n)
  obtain b w1 where 1: "rtc_read out8 in8 s w = (b, w1)" by fastforce
  obtain bs2 w2 where 2: "nvram_read out8 in8 (s + 1) n w1 = (bs2, w2)" by fastforce
  from Suc.prems 1 2 have "bs = b # bs2" "w' = w2" by simp_all
  with Suc.IH [of "s + 1" w1 bs2] 2 rtc_read_cell [OF 1] show ?case by simp
qed simp

lemma nvram_write_cells: "cell (nvram_write out8 d bs w) = cells_write d bs (cell w)"
  by (induction bs arbitrary: d w) (simp_all add: rtc_write_cell)

lemma fst_rtc_read: "fst (rtc_read out8 in8 reg w) = cell w reg"
  and cell_rtc_read: "cell (snd (rtc_read out8 in8 reg w)) = cell w"
  using rtc_read_cell [of reg w] by (metis prod.collapse)+

lemma rtc_set_cells:
  "cell (rtc_set out8 in8 t w) =
     (cell w)(RTC_YEAR := bin2bcd (word_of_int (tm_year t smod 100)),
       RTC_MONTH := bin2bcd (word_of_int (tm_mon t)),
       RTC_DAY_OF_WEEK := bin2bcd (word_of_int (tm_wday t)),
       RTC_DAY_OF_MONTH := bin2bcd (word_of_int (tm_mday t)),
       RTC_HOURS := bin2bcd (word_of_int (tm_hour t)),
       RTC_MINUTES := bin2bcd (word_of_int (tm_min t)),
       RTC_SECONDS := bin2bcd (word_of_int (tm_sec t)),
       RTC_CONTROLA := (cell w RTC_CONTROLA OR 0x80) AND NOT 0x80)"
  by (simp add: rtc_set_def Let_def case_prod_beta rtc_write_cell fst_rtc_read cell_rtc_read
      fun_upd_twist)

lemma rtc_get_fields:
  "fst (rtc_get out8 in8 w) =
     \<lparr> tm_sec = sint (bcd2bin (cell w RTC_SECONDS AND 0x7F)),
       tm_min = sint (bcd2bin (cell w RTC_MINUTES AND 0x7F)),
       tm_hour = sint (bcd2bin (cell w RTC_HOURS AND 0x3F)),
       tm_mday = sint (bcd2bin (cell w RTC_DAY_OF_MONTH AND 0x3F)),
       tm_mon = sint (bcd2bin (cell w RTC_MONTH AND 0x1F)),
       tm_year = (let y = sint (bcd2bin (cell w RTC_YEAR)) in if y < 70 then y + 2000 else y + 1900),
       tm_wday = sint (bcd2bin (cell w RTC_DAY_OF_WEEK AND 0x07)),
       tm_yday = 0, tm_isdst = 0 \<rparr>"
  by (simp add: rtc_get_def Let_def case_prod_beta rtc_write_cell fst_rtc_read cell_rtc_read)

lemma rtc_get_cells:
  "cell (snd (rtc_get out8 in8 w)) =
     (cell w)(RTC_CONTROLA := (cell w RTC_CONTROLA OR 0x40) AND NOT 0x40)"
  by (simp add: rtc_get_def Let_def case_prod_beta rtc_write_cell fst_rtc_read cell_rtc_read)

end

subsection \<open>The device\<close>

text \<open>The index latches and the cells of the chip, on the board's port addresses.\<close>

record mk48t59 =
  latch0 :: byte
  latch1 :: byte
  mem :: cells

definition dev_out8 :: "mk48t59 out_port" where
  "dev_out8 port v w =
     (if port = RTC_PORT_ADDR0 then w\<lparr>latch0 := v\<rparr>
      else if port = RTC_PORT_ADDR1 then w\<lparr>latch1 := v\<rparr>
      else if port = RTC_PORT_DATA then w\<lparr>mem := (mem w)(be16_val (latch1 w) (latch0 w) := v)\<rparr>
      else w)"

definition dev_in8 :: "mk48t59 in_port" where
  "dev_in8 port w =
     (if port = RTC_PORT_DATA then (mem w (be16_val (latch1 w) (latch0 w)), w) else (0xFF, w))"

interpretation dev: rtc_ports dev_out8 dev_in8 mem
  by unfold_locales (auto simp: dev_out8_def dev_in8_def)

subsection \<open>Properties\<close>

text \<open>On every device with the documented index/data protocol, a block written with
  \<^verbatim>\<open>nvram_write\<close> is read back unchanged by \<^verbatim>\<open>nvram_read\<close> from the same address, and no other
  cell has changed.\<close>

theorem nvram_roundtrip:
  assumes "rtc_ports out8 in8 cell" and "length bs \<le> 65536"
  shows "fst (nvram_read out8 in8 d (length bs) (nvram_write out8 d bs w)) = bs \<and>
    (\<forall>a. (\<forall>i < length bs. a \<noteq> d + of_nat i) \<longrightarrow> cell (nvram_write out8 d bs w) a = cell w a)"
proof (intro conjI allI impI)
  obtain bs' w' where r: "nvram_read out8 in8 d (length bs) (nvram_write out8 d bs w) = (bs', w')"
    by fastforce
  from rtc_ports.nvram_read_cells [OF assms(1) r]
  show "fst (nvram_read out8 in8 d (length bs) (nvram_write out8 d bs w)) = bs"
    by (simp add: r rtc_ports.nvram_write_cells [OF assms(1)] cells_read_write assms(2))
  show "cell (nvram_write out8 d bs w) a = cell w a" if "\<forall>i < length bs. a \<noteq> d + of_nat i" for a
    using cells_write_other [OF that] by (simp add: rtc_ports.nvram_write_cells [OF assms(1)])
qed

theorem nvram_roundtrip_witness:
  "fst (nvram_read dev_out8 dev_in8 0x1800 3
     (nvram_write dev_out8 0x1800 [1, 2, 3] \<lparr>latch0 = 0, latch1 = 0, mem = \<lambda>_. 0\<rparr>)) = [1, 2, 3]"
  using nvram_roundtrip [OF dev.rtc_ports_axioms, of "[1, 2, 3]" "0x1800"]
  by (simp add: numeral_3_eq_3)

definition rtc_valid :: "rtc_time \<Rightarrow> bool" where
  "rtc_valid t \<longleftrightarrow> 0 \<le> tm_sec t \<and> tm_sec t < 60 \<and> 0 \<le> tm_min t \<and> tm_min t < 60 \<and>
     0 \<le> tm_hour t \<and> tm_hour t < 24 \<and> 1 \<le> tm_mday t \<and> tm_mday t \<le> 31 \<and>
     1 \<le> tm_mon t \<and> tm_mon t \<le> 12 \<and> 1970 \<le> tm_year t \<and> tm_year t < 2070 \<and>
     0 \<le> tm_wday t \<and> tm_wday t < 7 \<and> tm_yday t = 0 \<and> tm_isdst t = 0"

lemma bcd_masked:
  "list_all (\<lambda>n. sint (bcd2bin (bin2bcd (word_of_int n))) = n) [0..99]"
  "list_all (\<lambda>n. sint (bcd2bin (bin2bcd (word_of_int n) AND 0x7F)) = n) [0..79]"
  "list_all (\<lambda>n. sint (bcd2bin (bin2bcd (word_of_int n) AND 0x3F)) = n) [0..39]"
  "list_all (\<lambda>n. sint (bcd2bin (bin2bcd (word_of_int n) AND 0x1F)) = n) [0..19]"
  "list_all (\<lambda>n. sint (bcd2bin (bin2bcd (word_of_int n) AND 0x07)) = n) [0..7]"
  by code_simp+

lemma bcd_roundtrip:
  "0 \<le> n \<Longrightarrow> n < 100 \<Longrightarrow> sint (bcd2bin (bin2bcd (word_of_int n))) = n"
  "0 \<le> n \<Longrightarrow> n < 80 \<Longrightarrow> sint (bcd2bin (bin2bcd (word_of_int n) AND 0x7F)) = n"
  "0 \<le> n \<Longrightarrow> n < 40 \<Longrightarrow> sint (bcd2bin (bin2bcd (word_of_int n) AND 0x3F)) = n"
  "0 \<le> n \<Longrightarrow> n < 20 \<Longrightarrow> sint (bcd2bin (bin2bcd (word_of_int n) AND 0x1F)) = n"
  "0 \<le> n \<Longrightarrow> n < 8 \<Longrightarrow> sint (bcd2bin (bin2bcd (word_of_int n) AND 0x07)) = n"
  using bcd_masked by (simp_all add: list_all_iff)

lemma smod_100: "0 \<le> y \<Longrightarrow> (y :: int) smod 100 = y mod 100"
  by (cases "y = 0") (simp_all add: signed_modulo_int_def)

lemma rtc_get_set:
  assumes "rtc_ports out8 in8 cell" and "rtc_valid t"
  shows "fst (rtc_get out8 in8 (rtc_set out8 in8 t w)) = t"
proof -
  note v = assms(2) [unfolded rtc_valid_def]
  have y: "(let y = sint (bcd2bin (bin2bcd (word_of_int (tm_year t mod 100))))
      in if y < 70 then y + 2000 else y + 1900) = tm_year t"
    using v unfolding Let_def by (simp add: bcd_roundtrip) presburger
  have s: "tm_year t smod 100 = tm_year t mod 100" using v by (intro smod_100) simp
  show ?thesis
    unfolding rtc_ports.rtc_get_fields [OF assms(1)] rtc_ports.rtc_set_cells [OF assms(1)]
    using v y by (simp add: s bcd_roundtrip)
qed

text \<open>A valid date written with \<^verbatim>\<open>rtc_set\<close> is the date that \<^verbatim>\<open>rtc_get\<close> returns, BCD
  coding, register masks and the two-digit year window 1970--2069 included.\<close>

theorem rtc_set_get:
  assumes "rtc_ports out8 in8 cell" and "rtc_valid t"
  shows "fst (rtc_get out8 in8 (rtc_set out8 in8 t w)) = t"
  by (rule rtc_get_set [OF assms])

theorem rtc_set_get_witness:
  "\<exists>t. rtc_valid t \<and> tm_year t = 2026 \<and>
     fst (rtc_get dev_out8 dev_in8 (rtc_set dev_out8 dev_in8 t
       \<lparr>latch0 = 0, latch1 = 0, mem = \<lambda>_. 0\<rparr>)) = t"
proof -
  define t where "t = \<lparr> tm_sec = 59, tm_min = 30, tm_hour = 23, tm_mday = 31, tm_mon = 12,
    tm_year = 2026, tm_wday = 4, tm_yday = 0, tm_isdst = 0 \<rparr>"
  have "rtc_valid t" by (simp add: t_def rtc_valid_def)
  moreover have "tm_year t = 2026" by (simp add: t_def)
  ultimately show ?thesis using rtc_set_get [OF dev.rtc_ports_axioms, of t] by blast
qed

end
