(* ===== verification/Stdio.thy ===== *)
theory Stdio
  imports Prelude
begin

text \<open>
  Console devices: the device list of \<^verbatim>\<open>common/stdio.c\<close> and the assignment of devices to
  \<^verbatim>\<open>stdin\<close>, \<^verbatim>\<open>stdout\<close> and \<^verbatim>\<open>stderr\<close> of \<^verbatim>\<open>common/console.c\<close>. A device is its name, its flags and
  the result its \<^verbatim>\<open>start\<close> routine gives, if it has one.
\<close>

record stdio_dev =
  dev_name :: cstr
  dev_flags :: u32
  dev_start :: "int option"

record stdio =
  devs :: "stdio_dev list"
  stdio_devices :: "stdio_dev option list"
  jt_in :: "stdio_dev option"
  jt_out :: "stdio_dev option"

abbreviation (input) DEV_FLAGS_INPUT :: u32 where "DEV_FLAGS_INPUT \<equiv> 1"
abbreviation (input) DEV_FLAGS_OUTPUT :: u32 where "DEV_FLAGS_OUTPUT \<equiv> 2"

abbreviation (input) stdin_id :: nat where "stdin_id \<equiv> 0"
abbreviation (input) stdout_id :: nat where "stdout_id \<equiv> 1"
abbreviation (input) stderr_id :: nat where "stderr_id \<equiv> 2"

definition stdio_get_by_name :: "stdio \<Rightarrow> cstr \<Rightarrow> stdio_dev option" where
  "stdio_get_by_name io name = List.find (\<lambda>dev. dev_name dev = name) (devs io)"

definition stdio_register :: "stdio \<Rightarrow> stdio_dev \<Rightarrow> stdio" where
  "stdio_register io dev = io\<lparr>devs := devs io @ [dev]\<rparr>"

definition search_device :: "stdio \<Rightarrow> u32 \<Rightarrow> cstr \<Rightarrow> stdio_dev option" where
  "search_device io flags name =
     (case stdio_get_by_name io name of
        Some dev \<Rightarrow> if dev_flags dev AND flags \<noteq> 0 then Some dev else None
      | None \<Rightarrow> None)"

definition console_setfile :: "nat \<Rightarrow> stdio_dev option \<Rightarrow> stdio \<Rightarrow> int \<times> stdio" where
  "console_setfile file dev io =
     (case dev of None \<Rightarrow> (-1, io)
      | Some d \<Rightarrow>
         if file \<in> {stdin_id, stdout_id, stderr_id} then
           let error = (case dev_start d of None \<Rightarrow> 0 | Some e \<Rightarrow> e) in
           if error < 0 then (error, io)
           else
             let io = io\<lparr>stdio_devices := (stdio_devices io)[file := Some d]\<rparr>;
                 io = (if file = stdin_id then io\<lparr>jt_in := Some d\<rparr>
                       else if file = stdout_id then io\<lparr>jt_out := Some d\<rparr> else io)
             in (error, io)
         else (-1, io))"

definition console_assign :: "nat \<Rightarrow> cstr \<Rightarrow> stdio \<Rightarrow> int \<times> stdio" where
  "console_assign file devname io =
     (if file = stdin_id \<or> file = stdout_id \<or> file = stderr_id then
        let flag = (if file = stdin_id then DEV_FLAGS_INPUT else DEV_FLAGS_OUTPUT)
        in case search_device io flag devname of
             Some dev \<Rightarrow> console_setfile file (Some dev) io
           | None \<Rightarrow> (-1, io)
      else (-1, io))"

lemma stdio_get_by_nameD:
  "stdio_get_by_name io name = Some dev \<Longrightarrow> dev \<in> set (devs io) \<and> dev_name dev = name"
  by (auto simp: stdio_get_by_name_def find_Some_iff in_set_conv_nth)

lemma search_deviceD:
  "search_device io flags name = Some dev \<Longrightarrow>
     dev \<in> set (devs io) \<and> dev_name dev = name \<and> dev_flags dev AND flags \<noteq> 0"
  by (auto simp: search_device_def stdio_get_by_nameD split: option.splits if_splits)

lemma stdio_register_get:
  "stdio_get_by_name (stdio_register io dev) name =
     (case stdio_get_by_name io name of Some d \<Rightarrow> Some d
      | None \<Rightarrow> if dev_name dev = name then Some dev else None)"
proof -
  have "List.find P (xs @ [x]) = (case List.find P xs of Some d \<Rightarrow> Some d
      | None \<Rightarrow> if P x then Some x else None)" for P xs and x :: stdio_dev
    by (induction xs) auto
  then show ?thesis by (simp add: stdio_get_by_name_def stdio_register_def)
qed

text \<open>A failed assignment changes nothing; a successful one installs a listed device of that name
  with the flag the file needs.\<close>

lemma console_assign_fail: "console_assign file name io = (e, io') \<Longrightarrow> e < 0 \<Longrightarrow> io' = io"
  by (auto simp: console_assign_def console_setfile_def Let_def split: option.splits if_splits)

lemma console_assign_ok:
  assumes "console_assign file name io = (e, io')" "e \<ge> 0" "length (stdio_devices io) = 3"
  shows "\<exists>dev \<in> set (devs io). dev_name dev = name
    \<and> dev_flags dev AND (if file = stdin_id then DEV_FLAGS_INPUT else DEV_FLAGS_OUTPUT) \<noteq> 0
    \<and> stdio_devices io' = (stdio_devices io)[file := Some dev] \<and> devs io' = devs io"
  using assms
  by (auto simp: console_assign_def console_setfile_def Let_def split: option.splits if_splits
      dest!: search_deviceD)

end
