(* ===== verification/Env.thy ===== *)
theory Env
  imports Strtoul Crc32 Nvram Stdio
begin

text \<open>
  The environment: \<^verbatim>\<open>common/env_common.c\<close>, \<^verbatim>\<open>common/env_nvram.c\<close> and \<^verbatim>\<open>common/cmd_nvedit.c\<close>.

  The environment is a byte buffer \<^verbatim>\<open>name=value\0...\0\0\<close> of \<open>ENV_SIZE\<close> bytes with a CRC in front,
  kept in NVRAM cells and, after relocation, in RAM. Buffer accesses are checked: \<open>rd\<close> and \<open>wr\<close>
  give \<open>None\<close> outside the buffer, so a definition returns \<open>None\<close> exactly where the code would leave
  its buffer, dereference NULL or wait for input that never comes, and \<open>Some\<close> means that it
  returns with every access in range.
\<close>

abbreviation (input) CONFIG_ENV_SIZE :: nat where "CONFIG_ENV_SIZE \<equiv> 0x400"
abbreviation (input) ENV_SIZE :: nat where "ENV_SIZE \<equiv> 0x3FC"
abbreviation (input) CONFIG_ENV_ADDR :: u16 where "CONFIG_ENV_ADDR \<equiv> 0x1800"

definition rd :: "byte list \<Rightarrow> nat \<Rightarrow> byte option" where
  "rd d i = (if i < length d then Some (d ! i) else None)"

definition wr :: "byte list \<Rightarrow> nat \<Rightarrow> byte \<Rightarrow> byte list option" where
  "wr d i c = (if i < length d then Some (d[i := c]) else None)"

subsection \<open>State\<close>

record env_state =
  nv :: cells
  env_ptr_crc :: u32
  env_ptr_data :: "byte list"
  env_valid :: bool
  gd_reloc :: bool
  env_id :: u32
  env_stdio :: stdio
  con_in :: "byte list"
  gd_baudrate :: u32
  bi_ip_addr :: u32
  load_addr :: u32
  BootFile :: cstr

definition default_vars :: "(string \<times> string) list" where
  "default_vars =
     [(''bootcmd'', ''bootp 1000000; setenv bootargs root=ramfs console=ttyS00,9600 '' @
         ''ip=${ipaddr}:${serverip}:${rootpath}:${gatewayip}:'' @
         ''${netmask}:${hostname}:eth0:none; bootm''),
      (''bootdelay'', ''5''),
      (''baudrate'', ''9600''),
      (''loads_echo'', ''0''),
      (''ethaddr'', ''00:00:5b:ee:de:ad''),
      (''ipaddr'', ''192.168.0.105''),
      (''serverip'', ''192.168.0.100'')]"

definition default_environment :: "byte list" where
  "default_environment =
     concat (map (\<lambda>(n, v). cs n @ [ch CHR ''=''] @ cs v @ [0]) default_vars) @ [0, 0]"

subsection \<open>Access to the bytes (env_common.c, env_nvram.c)\<close>

definition env_crc_update :: "env_state \<Rightarrow> env_state" where
  "env_crc_update st = st\<lparr>env_ptr_crc := crc32 0 0 (env_ptr_data st)\<rparr>"

definition env_get_char_spec :: "env_state \<Rightarrow> nat \<Rightarrow> byte option" where
  "env_get_char_spec st index = Some (nv st (CONFIG_ENV_ADDR + of_nat index))"

definition env_get_char_init :: "env_state \<Rightarrow> nat \<Rightarrow> byte option" where
  "env_get_char_init st index =
     (if env_valid st then env_get_char_spec st index else rd default_environment index)"

definition env_get_char_memory :: "env_state \<Rightarrow> nat \<Rightarrow> byte option" where
  "env_get_char_memory st index =
     (if env_valid st then rd (env_ptr_data st) index else rd default_environment index)"

definition env_get_char :: "env_state \<Rightarrow> nat \<Rightarrow> byte option" where
  "env_get_char st index =
     (if gd_reloc st then env_get_char_memory st index else env_get_char_init st index)"

definition env_get_addr :: "env_state \<Rightarrow> byte list" where
  "env_get_addr st = (if env_valid st then env_ptr_data st else default_environment)"

definition set_default_env :: "env_state \<Rightarrow> env_state" where
  "set_default_env st =
     (if length default_environment > ENV_SIZE then st
      else
        let st = st\<lparr>env_ptr_crc := 0, env_ptr_data := replicate ENV_SIZE 0\<rparr>;
            st = st\<lparr>env_ptr_data := default_environment @ drop (length default_environment) (env_ptr_data st)\<rparr>;
            st = env_crc_update st
        in st\<lparr>env_valid := True\<rparr>)"

definition env_relocate_spec :: "env_state \<Rightarrow> env_state" where
  "env_relocate_spec st =
     (let img = cells_read CONFIG_ENV_ADDR CONFIG_ENV_SIZE (nv st)
      in st\<lparr>env_ptr_crc := be32_val (img ! 0) (img ! 1) (img ! 2) (img ! 3), env_ptr_data := drop 4 img\<rparr>)"

definition env_relocate :: "env_state \<Rightarrow> env_state" where
  "env_relocate st = (if \<not> env_valid st then set_default_env st else env_relocate_spec st)"

definition saveenv :: "env_state \<Rightarrow> int \<times> env_state" where
  "saveenv st =
     (0, st\<lparr>nv := cells_write CONFIG_ENV_ADDR (be32_bytes (env_ptr_crc st) @ env_ptr_data st) (nv st)\<rparr>)"

definition env_init :: "env_state \<Rightarrow> env_state" where
  "env_init st =
     (let crc = cells_read CONFIG_ENV_ADDR 4 (nv st);
          data = cells_read (CONFIG_ENV_ADDR + 4) ENV_SIZE (nv st)
      in st\<lparr>env_valid := (crc32 0 0 data = be32_val (crc ! 0) (crc ! 1) (crc ! 2) (crc ! 3))\<rparr>)"

subsection \<open>Lookup (cmd_nvedit.c)\<close>

text \<open>\<open>envmatch\<close> returns the index of the value, \<open>Some None\<close> where the code returns -1.\<close>

fun envmatch :: "(nat \<Rightarrow> byte option) \<Rightarrow> cstr \<Rightarrow> nat \<Rightarrow> nat option option" where
  "envmatch get s1 i2 =
     (case get i2 of
        None \<Rightarrow> None
      | Some c \<Rightarrow>
          (case s1 of
             [] \<Rightarrow> if c = 0 then None
                   else if c = ch CHR ''='' then Some (Some (i2 + 1)) else Some None
           | s # s1' \<Rightarrow>
               if s = c then
                 if s = ch CHR ''='' then Some (Some (i2 + 1)) else envmatch get s1' (i2 + 1)
               else Some None))"

text \<open>The inner loop of \<^verbatim>\<open>getenv\<close> and \<^verbatim>\<open>getenv_f\<close>: the end of the entry, or \<open>Some None\<close> when the
  guard against an unterminated environment fires.\<close>

function scan_var :: "(nat \<Rightarrow> byte option) \<Rightarrow> nat \<Rightarrow> nat option option" where
  "scan_var get nxt =
     (case get nxt of
        None \<Rightarrow> None
      | Some c \<Rightarrow>
          if c = 0 then Some (Some nxt)
          else if nxt \<ge> CONFIG_ENV_SIZE then Some None
          else scan_var get (nxt + 1))"
  by pat_completeness auto
termination by (relation "measure (\<lambda>(get, nxt). CONFIG_ENV_SIZE - nxt)") auto

declare scan_var.simps [simp del] envmatch.simps [simp del]

lemma scan_var_bounds:
  "scan_var get nxt = Some (Some n) \<Longrightarrow>
     nxt \<le> n \<and> (n \<le> CONFIG_ENV_SIZE \<or> n = nxt) \<and> get n = Some 0"
proof (induction get nxt rule: scan_var.induct)
  case (1 get nxt)
  from 1(2) show ?case
    by (subst (asm) scan_var.simps) (auto split: option.splits if_splits dest!: 1(1))
qed

function find_var :: "(nat \<Rightarrow> byte option) \<Rightarrow> cstr \<Rightarrow> nat \<Rightarrow> nat option option" where
  "find_var get name i =
     (case get i of
        None \<Rightarrow> None
      | Some c \<Rightarrow>
          if c = 0 then Some None
          else
            (case scan_var get i of
               None \<Rightarrow> None
             | Some None \<Rightarrow> Some None
             | Some (Some nxt) \<Rightarrow>
                 (case envmatch get name i of
                    None \<Rightarrow> None
                  | Some None \<Rightarrow> find_var get name (nxt + 1)
                  | Some (Some val) \<Rightarrow> Some (Some val))))"
  by pat_completeness auto
termination
  by (relation "measure (\<lambda>(get, name, i). CONFIG_ENV_SIZE + 2 - i)")
     (auto dest!: scan_var_bounds simp: le_less)

declare find_var.simps [simp del]

definition getenv :: "env_state \<Rightarrow> cstr \<Rightarrow> nat option option" where
  "getenv st name = find_var (env_get_char st) name 0"

text \<open>The copy loop of \<^verbatim>\<open>getenv_f\<close>: the bytes stored in \<^verbatim>\<open>buf\<close> (the terminator included) and
  the returned count.\<close>

primrec copy_out :: "(nat \<Rightarrow> byte option) \<Rightarrow> nat \<Rightarrow> nat \<Rightarrow> (byte list \<times> bool) option" where
  "copy_out get val 0 = Some ([], False)"
| "copy_out get val (Suc len) =
     (case get val of
        None \<Rightarrow> None
      | Some c \<Rightarrow>
          if c = 0 then Some ([0], True)
          else (case copy_out get (val + 1) len of
                  None \<Rightarrow> None
                | Some (bs, fin) \<Rightarrow> Some (c # bs, fin)))"

definition getenv_f :: "env_state \<Rightarrow> cstr \<Rightarrow> nat \<Rightarrow> (int \<times> byte list) option" where
  "getenv_f st name len =
     (case find_var (env_get_char st) name 0 of
        None \<Rightarrow> None
      | Some None \<Rightarrow> Some (-1, [])
      | Some (Some val) \<Rightarrow>
          (case copy_out (env_get_char st) val len of
             None \<Rightarrow> None
           | Some (bs, fin) \<Rightarrow>
               if fin then Some (int (length bs) - 1, bs)
               else Some (int (length bs), if bs = [] then bs else bs[length bs - 1 := 0])))"

subsection \<open>Printing\<close>

text \<open>Commands run after relocation, where \<^verbatim>\<open>env_get_char\<close> reads the RAM buffer \<open>d\<close>.
  \<open>print_entry\<close> is the output loop of \<^verbatim>\<open>printenv\<close> for one entry from index \<open>i\<close>: \<open>buf\<close> holds the
  bytes collected so far; \<open>puts\<close> prints a buffer up to its NUL. The result is the text and the index
  after the NUL; \<open>quiet\<close> is \<^verbatim>\<open>state > 1\<close>, where nothing is printed.\<close>

definition puts :: "byte list \<Rightarrow> byte list" where
  "puts buf = takeWhile (\<lambda>c. c \<noteq> 0) buf"

function print_entry ::
  "byte list \<Rightarrow> bool \<Rightarrow> nat \<Rightarrow> byte list \<Rightarrow> (byte list \<times> nat) option" where
  "print_entry d quiet i buf =
     (if i < length d then
        let c = d ! i;
            buf = buf @ [c];
            flush = (length buf = 16);
            txt = (if flush \<and> \<not> quiet then puts buf else []);
            buf = (if flush then [] else buf)
        in if c \<noteq> 0
           then map_option (\<lambda>(t, n). (txt @ t, n)) (print_entry d quiet (i + 1) buf)
           else Some (txt @ (if quiet then []
                             else (if buf \<noteq> [] then puts buf else []) @ [10]), i + 1)
      else None)"
  by pat_completeness auto
termination by (relation "measure (\<lambda>(d, quiet, i, buf). length d - i)") auto

declare print_entry.simps [simp del]

lemma print_entry_bounds: "print_entry d quiet i buf = Some (t, n) \<Longrightarrow> i < n \<and> n \<le> length d"
proof (induction d quiet i buf arbitrary: t rule: print_entry.induct)
  case (1 d quiet i buf)
  note IH = "1.IH" [OF _ refl refl refl refl refl]
  from "1.prems" show ?case
    by (subst (asm) print_entry.simps) (auto simp: Let_def split: if_splits dest!: IH)
qed

text \<open>\<open>ctrlc\<close> tells for each printed entry whether the user interrupts there.\<close>

function printenv_loop ::
  "byte list \<Rightarrow> (nat \<Rightarrow> bool) \<Rightarrow> cstr \<Rightarrow> nat \<Rightarrow> nat \<Rightarrow> nat \<Rightarrow> (byte list \<times> int) option" where
  "printenv_loop d ctrlc name state i k =
     (if state = 0 then Some ([], 0)
      else
        (case rd d i of
           None \<Rightarrow> None
         | Some c \<Rightarrow>
             if c = 0 then Some ([], int i)
             else
               (case (if state = 2 then envmatch (rd d) name i else Some None) of
                  None \<Rightarrow> None
                | Some m \<Rightarrow>
                    let state = (if m = None then state else 0)
                    in (case print_entry d (state > 1) i [] of
                          None \<Rightarrow> None
                        | Some (txt, i') \<Rightarrow>
                            if ctrlc k then Some (txt, -1)
                            else map_option (\<lambda>(t, r). (txt @ t, r))
                                   (printenv_loop d ctrlc name state i' (k + 1))))))"
  by pat_completeness auto
termination
  by (relation "measure (\<lambda>(d, ctrlc, name, state, i, k). length d - i)")
     (auto dest!: print_entry_bounds simp: rd_def split: if_splits)

declare printenv_loop.simps [simp del]

definition printenv :: "env_state \<Rightarrow> (nat \<Rightarrow> bool) \<Rightarrow> cstr \<Rightarrow> nat \<Rightarrow> (byte list \<times> int) option" where
  "printenv st ctrlc name state = printenv_loop (env_get_addr st) ctrlc name state 0 0"

subsection \<open>Setting a variable\<close>

function scan_nul :: "byte list \<Rightarrow> nat \<Rightarrow> nat option" where
  "scan_nul d nxt =
     (if nxt < length d then if d ! nxt = 0 then Some nxt else scan_nul d (nxt + 1) else None)"
  by pat_completeness auto
termination by (relation "measure (\<lambda>(d, nxt). length d - nxt)") auto

declare scan_nul.simps [simp del]

lemma scan_nul_bounds: "scan_nul d nxt = Some n \<Longrightarrow> nxt \<le> n \<and> n < length d"
proof (induction d nxt rule: scan_nul.induct)
  case (1 d nxt)
  from 1(2) show ?case
    by (subst (asm) scan_nul.simps) (auto split: if_splits dest!: 1(1))
qed

text \<open>The search loop of \<^verbatim>\<open>_do_setenv\<close>: start and end of the matching entry, if there is one.\<close>

function setenv_search :: "byte list \<Rightarrow> cstr \<Rightarrow> nat \<Rightarrow> (nat \<times> nat) option option" where
  "setenv_search d name env =
     (case rd d env of
        None \<Rightarrow> None
      | Some c \<Rightarrow>
          if c = 0 then Some None
          else
            (case scan_nul d env of
               None \<Rightarrow> None
             | Some nxt \<Rightarrow>
                 (case envmatch (rd d) name env of
                    None \<Rightarrow> None
                  | Some None \<Rightarrow> setenv_search d name (nxt + 1)
                  | Some (Some oldval) \<Rightarrow> Some (Some (env, nxt)))))"
  by pat_completeness auto
termination
  by (relation "measure (\<lambda>(d, name, env). length d - env)") (auto dest!: scan_nul_bounds)

declare setenv_search.simps [simp del]

text \<open>The copy loop that closes the gap left by a deleted entry: the final buffer and \<^verbatim>\<open>env\<close>.\<close>

function shift_down :: "byte list \<Rightarrow> nat \<Rightarrow> nat \<Rightarrow> (byte list \<times> nat) option" where
  "shift_down d env nxt =
     (if env < length d \<and> nxt < length d then
        let d' = d[env := d ! nxt]
        in if d' ! env = 0 then
             (case rd d' (nxt + 1) of
                None \<Rightarrow> None
              | Some c \<Rightarrow> if c = 0 then Some (d', env) else shift_down d' (env + 1) (nxt + 1))
           else shift_down d' (env + 1) (nxt + 1)
      else None)"
  by pat_completeness auto
termination by (relation "measure (\<lambda>(d, env, nxt). length d - nxt)") auto

declare shift_down.simps [simp del]

definition delete_entry :: "byte list \<Rightarrow> nat \<Rightarrow> nat \<Rightarrow> byte list option" where
  "delete_entry d env nxt =
     (case rd d (nxt + 1) of
        None \<Rightarrow> None
      | Some c \<Rightarrow>
          if c = 0 then
            if env > 0 then wr d (env - 1 + 1) 0
            else Option.bind (wr d env 0) (\<lambda>d. wr d (env + 1) 0)
          else Option.bind (shift_down d env (nxt + 1)) (\<lambda>(d, env). wr d (env + 1) 0))"

function find_end :: "byte list \<Rightarrow> nat \<Rightarrow> nat option" where
  "find_end d env =
     (if env + 1 < length d
      then if d ! env \<noteq> 0 \<or> d ! (env + 1) \<noteq> 0 then find_end d (env + 1) else Some env
      else if env < length d \<and> d ! env \<noteq> 0 then find_end d (env + 1) else None)"
  by pat_completeness auto
termination by (relation "measure (\<lambda>(d, env). length d - env)") auto

declare find_end.simps [simp del]

primrec write_str :: "byte list \<Rightarrow> nat \<Rightarrow> cstr \<Rightarrow> (byte list \<times> nat) option" where
  "write_str d env [] = map_option (\<lambda>d. (d, env)) (wr d env 0)"
| "write_str d env (c # s) = Option.bind (wr d env c) (\<lambda>d. write_str d (env + 1) s)"

primrec write_vals :: "byte list \<Rightarrow> nat \<Rightarrow> byte \<Rightarrow> cstr list \<Rightarrow> (byte list \<times> nat) option" where
  "write_vals d env sep [] = Some (d, env)"
| "write_vals d env sep (v # vs) =
     Option.bind (wr d env sep) (\<lambda>d.
       Option.bind (write_str d (env + 1) v) (\<lambda>(d, env). write_vals d env (ch CHR '' '') vs))"

text \<open>Append the new definition; \<open>Some None\<close> is the overflow exit.\<close>

definition append_entry :: "byte list \<Rightarrow> cstr \<Rightarrow> cstr list \<Rightarrow> byte list option option" where
  "append_entry d name vals =
     (case find_end d 0 of
        None \<Rightarrow> None
      | Some env \<Rightarrow>
          let env = (if env > 0 then env + 1 else env);
              len = length name + 2 + sum_list (map (\<lambda>v. length v + 1) vals)
          in if len + env > ENV_SIZE then Some None
             else
               map_option Some
                 (Option.bind (write_str d env name) (\<lambda>(d, env).
                    Option.bind (write_vals d env (ch CHR ''='') vals) (\<lambda>(d, env).
                      wr d (env + 1) 0))))"

definition baudrate_table :: "u32 list" where
  "baudrate_table = [9600, 19200, 38400, 57600, 115200, 230400]"

text \<open>The wait for ENTER after a change of the baud rate: the rest of the input.\<close>

fun wait_cr :: "byte list \<Rightarrow> byte list option" where
  "wait_cr [] = None"
| "wait_cr (c # inp) = (if c = 13 then Some inp else wait_cr inp)"

definition switch_baudrate :: "cstr list \<Rightarrow> env_state \<Rightarrow> (bool \<times> env_state) option" where
  "switch_baudrate argv st =
     (if length argv < 3 then None
      else
        let baudrate = fst (simple_strtoul (argv ! 2) 10)
        in if baudrate \<notin> set baudrate_table then Some (False, st)
           else map_option (\<lambda>inp. (True, st\<lparr>gd_baudrate := baudrate, con_in := inp\<rparr>))
                  (wait_cr (con_in st)))"

definition copy_filename :: "cstr \<Rightarrow> nat \<Rightarrow> cstr" where
  "copy_filename src sz =
     (let (src, sz) = (if peek src = ch CHR ''\"'' then (tl src, sz - 1) else (src, sz))
      in takeWhile (\<lambda>c. c \<noteq> ch CHR ''\"'') (take (sz - 1) src))"

text \<open>The copies of a variable kept elsewhere, updated after the CRC.\<close>

definition setenv_effects :: "cstr list \<Rightarrow> env_state \<Rightarrow> env_state" where
  "setenv_effects argv st =
     (if argv ! 1 = cs ''ethaddr'' then st
      else if argv ! 1 = cs ''ipaddr'' then
        st\<lparr>bi_ip_addr := string_to_ip_loop 4 0 (argv ! 2)\<rparr>
      else if argv ! 1 = cs ''loadaddr'' then
        st\<lparr>load_addr := fst (simple_strtoul (argv ! 2) 16)\<rparr>
      else if argv ! 1 = cs ''bootfile'' then
        st\<lparr>BootFile := copy_filename (argv ! 2) 128\<rparr>
      else st)"

definition console_of :: "cstr \<Rightarrow> nat option" where
  "console_of name =
     (if name = cs ''stdin'' then Some stdin_id
      else if name = cs ''stdout'' then Some stdout_id
      else if name = cs ''stderr'' then Some stderr_id
      else None)"

definition do_setenv_tail :: "cstr list \<Rightarrow> env_state \<Rightarrow> (int \<times> env_state) option" where
  "do_setenv_tail argv st =
     (if length argv < 3 then Some (0, env_crc_update st)
      else
        (case append_entry (env_ptr_data st) (argv ! 1) (drop 2 argv) of
           None \<Rightarrow> None
         | Some None \<Rightarrow> Some (1, st)
         | Some (Some d) \<Rightarrow>
             Some (0, setenv_effects argv (env_crc_update (st\<lparr>env_ptr_data := d\<rparr>)))))"

definition do_setenv_delete ::
  "cstr list \<Rightarrow> (nat \<times> nat) option \<Rightarrow> env_state \<Rightarrow> (int \<times> env_state) option" where
  "do_setenv_delete argv old st =
     (case old of
        None \<Rightarrow> do_setenv_tail argv st
      | Some (env, nxt) \<Rightarrow>
          Option.bind (if argv ! 1 = cs ''baudrate'' then switch_baudrate argv st else Some (True, st))
            (\<lambda>(ok, st).
               if \<not> ok then Some (1, st)
               else Option.bind (delete_entry (env_ptr_data st) env nxt)
                      (\<lambda>d. do_setenv_tail argv (st\<lparr>env_ptr_data := d\<rparr>))))"

definition do_setenv' :: "cstr list \<Rightarrow> env_state \<Rightarrow> (int \<times> env_state) option" where
  "do_setenv' argv st =
     (if \<not> (gd_reloc st \<and> env_valid st) then None
      else
        let name = argv ! 1
        in if ch CHR ''='' \<in> set name then Some (1, st)
           else
             let st = st\<lparr>env_id := env_id st + 1\<rparr>
             in Option.bind (setenv_search (env_ptr_data st) name 0) (\<lambda>old.
                  case console_of name of
                    None \<Rightarrow> do_setenv_delete argv old st
                  | Some console \<Rightarrow>
                      if length argv < 3 then Some (1, st)
                      else
                        let (e, io) = console_assign console (argv ! 2) (env_stdio st)
                        in if e < 0 then Some (1, st)
                           else do_setenv_delete argv old (st\<lparr>env_stdio := io\<rparr>)))"

definition setenv :: "cstr \<Rightarrow> cstr option \<Rightarrow> env_state \<Rightarrow> (int \<times> env_state) option" where
  "setenv varname varvalue st =
     (case varvalue of
        None \<Rightarrow> do_setenv' [cs ''setenv'', varname] st
      | Some v \<Rightarrow>
          if v = [] then do_setenv' [cs ''setenv'', varname] st
          else do_setenv' [cs ''setenv'', varname, v] st)"

definition do_setenv :: "cstr list \<Rightarrow> env_state \<Rightarrow> (int \<times> env_state) option" where
  "do_setenv argv st = (if length argv < 2 then Some (1, st) else do_setenv' argv st)"

subsection \<open>The abstract view: a list of variables\<close>

definition entry :: "cstr \<times> cstr \<Rightarrow> byte list" where
  "entry kv = fst kv @ ch CHR ''='' # snd kv"

definition ents :: "(cstr \<times> cstr) list \<Rightarrow> byte list" where
  "ents kvs = concat (map (\<lambda>kv. entry kv @ [0]) kvs)"

definition is_name :: "cstr \<Rightarrow> bool" where
  "is_name k \<longleftrightarrow> nul_free k \<and> ch CHR ''='' \<notin> set k"

definition vars_ok :: "(cstr \<times> cstr) list \<Rightarrow> bool" where
  "vars_ok kvs \<longleftrightarrow> distinct (map fst kvs) \<and> (\<forall>(k, v) \<in> set kvs. is_name k \<and> nul_free v)"

text \<open>\<open>env_rep kvs d\<close>: the buffer holds these variables, then the double NUL, then anything.\<close>

definition env_rep :: "(cstr \<times> cstr) list \<Rightarrow> byte list \<Rightarrow> bool" where
  "env_rep kvs d \<longleftrightarrow> vars_ok kvs \<and>
     take (length (ents kvs) + 1) d = ents kvs @ [0] \<and> (kvs = [] \<longrightarrow> take 2 d = [0, 0])"

lemma ents_simps [simp]:
  "ents [] = []" "ents (kv # kvs) = entry kv @ 0 # ents kvs"
  "ents (kvs @ kvs') = ents kvs @ ents kvs'"
  by (simp_all add: ents_def)

lemma entry_neq_Nil [simp]: "entry kv \<noteq> []"
  by (simp add: entry_def)

lemma nul_free_entry: "is_name k \<Longrightarrow> nul_free v \<Longrightarrow> nul_free (entry (k, v))"
  by (simp add: entry_def is_name_def)

lemma env_repE:
  assumes "env_rep kvs d"
  obtains pad where "d = ents kvs @ 0 # pad" "kvs = [] \<longrightarrow> (\<exists>p. pad = 0 # p)" "vars_ok kvs"
proof -
  let ?n = "length (ents kvs) + 1"
  have "d = take ?n d @ drop ?n d" by simp
  with assms have d: "d = ents kvs @ 0 # drop ?n d" unfolding env_rep_def
    by (metis append.assoc append_Cons append_Nil)
  moreover have "\<exists>p. drop ?n d = 0 # p" if "kvs = []"
  proof -
    from assms that have "take 2 d = [0, 0]" by (simp add: env_rep_def)
    then have "d = 0 # 0 # drop 2 d" by (metis append_take_drop_id append_Cons append_Nil)
    with that show ?thesis
      by (metis One_nat_def add_0 drop0 drop_Suc_Cons ents_simps(1) list.size(3))
  qed
  ultimately show ?thesis using that assms unfolding env_rep_def by blast
qed

lemma env_repI:
  "vars_ok kvs \<Longrightarrow> d = ents kvs @ 0 # pad \<Longrightarrow> (kvs = [] \<Longrightarrow> \<exists>p. pad = 0 # p) \<Longrightarrow> env_rep kvs d"
  by (auto simp: env_rep_def)

lemma rd_at [simp]: "rd (A @ c # R) (length A) = Some c"
  by (simp add: rd_def)

lemma rd_Cons_0 [simp]: "rd (c # R) 0 = Some c"
  by (simp add: rd_def)

lemma envmatch_entry:
  assumes "is_name name" "is_name k"
  shows "envmatch (rd (A @ k @ ch CHR ''='' # R)) name (length A) =
    Some (if name = k then Some (length A + length k + 1) else None)"
  using assms
proof (induction name arbitrary: A k)
  case Nil
  then show ?case
    by (cases k) (simp_all add: envmatch.simps is_name_def)
next
  case (Cons s name)
  show ?case
  proof (cases k)
    case Nil
    with Cons.prems show ?thesis by (subst envmatch.simps) (auto simp: is_name_def)
  next
    case (Cons c k')
    with Cons.prems Cons.IH [of k' "A @ [c]"] show ?thesis
      by (subst envmatch.simps) (auto simp: is_name_def)
  qed
qed

lemma scan_var_str:
  assumes "nul_free s" "length A + length s \<le> CONFIG_ENV_SIZE"
  shows "scan_var (rd (A @ s @ 0 # R)) (length A) = Some (Some (length A + length s))"
  using assms
proof (induction s arbitrary: A)
  case Nil
  then show ?case by (subst scan_var.simps) simp
next
  case (Cons c s)
  from Cons.IH [of "A @ [c]"] Cons.prems show ?case by (subst scan_var.simps) simp
qed

lemma scan_nul_str:
  "nul_free s \<Longrightarrow> scan_nul (A @ s @ 0 # R) (length A) = Some (length A + length s)"
proof (induction s arbitrary: A)
  case Nil
  then show ?case by (subst scan_nul.simps) simp
next
  case (Cons c s)
  from Cons.IH [of "A @ [c]"] Cons.prems show ?case by (subst scan_nul.simps) simp
qed

subsection \<open>Lookup finds the variable\<close>

lemma vars_ok_Cons: "vars_ok ((k, v) # kvs) \<longleftrightarrow>
    k \<notin> fst ` set kvs \<and> is_name k \<and> nul_free v \<and> vars_ok kvs"
  by (auto simp: vars_ok_def)

lemma hd_entry_neq_0: "is_name k \<Longrightarrow> \<exists>c r. entry (k, v) = c # r \<and> c \<noteq> 0"
  by (cases k) (auto simp: entry_def is_name_def)

lemma find_var_step:
  assumes "is_name name" "is_name k" "nul_free v"
    and d: "d = A @ entry (k, v) @ 0 # R" and len: "length A + length (entry (k, v)) \<le> CONFIG_ENV_SIZE"
  shows "find_var (rd d) name (length A) =
    (if name = k then Some (Some (length A + length k + 1))
     else find_var (rd d) name (length (A @ entry (k, v) @ [0])))"
proof -
  obtain c r where c: "entry (k, v) = c # r" "c \<noteq> 0" using hd_entry_neq_0 assms(2) by blast
  then have "rd d (length A) = Some c" by (simp add: d)
  moreover have "scan_var (rd d) (length A) = Some (Some (length A + length (entry (k, v))))"
    unfolding d using scan_var_str nul_free_entry assms len by blast
  moreover have "envmatch (rd d) name (length A) =
      Some (if name = k then Some (length A + length k + 1) else None)"
    using envmatch_entry [OF assms(1,2), of A "v @ 0 # R"] by (simp add: d entry_def)
  ultimately show ?thesis using c(2) by (subst find_var.simps) simp
qed

lemma find_var_ents:
  assumes "is_name name" "vars_ok kvs" "d = A @ ents kvs @ 0 # R"
    "length A + length (ents kvs) \<le> CONFIG_ENV_SIZE"
  shows "case map_of kvs name of
      None \<Rightarrow> find_var (rd d) name (length A) = Some None
    | Some v \<Rightarrow> \<exists>B C. find_var (rd d) name (length A) = Some (Some (length B)) \<and> d = B @ v @ 0 # C"
  using assms
proof (induction kvs arbitrary: A)
  case Nil
  then show ?case by (simp add: find_var.simps)
next
  case (Cons kv kvs)
  obtain k v where kv: "kv = (k, v)" by fastforce
  let ?A = "A @ entry (k, v) @ [0]"
  have ok: "is_name k" "nul_free v" "vars_ok kvs" using Cons.prems(2) by (simp_all add: kv vars_ok_Cons)
  have step: "find_var (rd d) name (length A) =
    (if name = k then Some (Some (length A + length k + 1)) else find_var (rd d) name (length ?A))"
    by (rule find_var_step [OF Cons.prems(1) ok(1,2)]) (use Cons.prems(3,4) in \<open>simp_all add: kv\<close>)
  show ?case
  proof (cases "name = k")
    case True
    have "d = (A @ k @ [ch CHR ''='']) @ v @ 0 # ents kvs @ 0 # R"
      using Cons.prems(3) by (simp add: kv entry_def)
    moreover have "length (A @ k @ [ch CHR ''='']) = length A + length k + 1" by simp
    ultimately have "\<exists>B C. Some (Some (length A + length k + 1)) = Some (Some (length B))
        \<and> d = B @ v @ 0 # C" by metis
    with True step show ?thesis by (simp add: kv)
  next
    case False
    then have m: "map_of (kv # kvs) name = map_of kvs name"
      and f: "find_var (rd d) name (length A) = find_var (rd d) name (length ?A)"
      using step by (simp_all add: kv)
    show ?thesis unfolding m f
      by (rule Cons.IH [OF Cons.prems(1) ok(3)]) (use Cons.prems(3,4) in \<open>simp_all add: kv\<close>)
  qed
qed

text \<open>The C string at an index of the buffer, as a caller of \<^verbatim>\<open>getenv\<close> reads it.\<close>

definition str_at :: "byte list \<Rightarrow> nat \<Rightarrow> cstr" where
  "str_at d i = takeWhile (\<lambda>c. c \<noteq> 0) (drop i d)"

lemma str_at_append: "nul_free v \<Longrightarrow> str_at (B @ v @ 0 # C) (length B) = v"
  unfolding str_at_def by (simp, subst takeWhile_append2) (auto simp: nul_free_def)

definition getenv_str :: "env_state \<Rightarrow> cstr \<Rightarrow> cstr option option" where
  "getenv_str st name = map_option (map_option (str_at (env_get_addr st))) (getenv st name)"

subsection \<open>Deletion and insertion\<close>

lemma setenv_search_ents:
  assumes "is_name name" "vars_ok kvs" "d = A @ ents kvs @ 0 # R"
  shows "case map_of kvs name of
      None \<Rightarrow> setenv_search d name (length A) = Some None
    | Some v \<Rightarrow> \<exists>pre post. kvs = pre @ (name, v) # post \<and>
        setenv_search d name (length A) =
          Some (Some (length (A @ ents pre), length (A @ ents pre @ entry (name, v))))"
  using assms
proof (induction kvs arbitrary: A)
  case Nil
  then show ?case by (simp add: setenv_search.simps)
next
  case (Cons kv kvs)
  obtain k v where kv: "kv = (k, v)" by fastforce
  let ?A = "A @ entry (k, v) @ [0]"
  have ok: "is_name k" "nul_free v" "vars_ok kvs" using Cons.prems(2) by (simp_all add: kv vars_ok_Cons)
  obtain c r where c: "entry (k, v) = c # r" "c \<noteq> 0" using hd_entry_neq_0 ok(1) by blast
  have d: "d = A @ entry (k, v) @ 0 # ents kvs @ 0 # R" using Cons.prems(3) by (simp add: kv)
  have "rd d (length A) = Some c" using c by (simp add: d)
  moreover have "scan_nul d (length A) = Some (length A + length (entry (k, v)))"
    unfolding d using scan_nul_str nul_free_entry ok by blast
  moreover have "envmatch (rd d) name (length A) =
      Some (if name = k then Some (length A + length k + 1) else None)"
    using envmatch_entry [OF Cons.prems(1) ok(1), of A "v @ 0 # ents kvs @ 0 # R"]
    by (simp add: d entry_def)
  ultimately have step: "setenv_search d name (length A) =
      (if name = k then Some (Some (length A, length A + length (entry (k, v))))
       else setenv_search d name (length ?A))"
    using c(2) by (subst setenv_search.simps) simp
  show ?case
  proof (cases "name = k")
    case True
    then have "kv # kvs = [] @ (name, v) # kvs \<and> setenv_search d name (length A) =
        Some (Some (length (A @ ents []), length (A @ ents [] @ entry (name, v))))"
      using step by (simp add: kv)
    with True show ?thesis by (simp only: kv map_of.simps fst_conv snd_conv fun_upd_same option.case) blast
  next
    case False
    then have m: "map_of (kv # kvs) name = map_of kvs name"
      and f: "setenv_search d name (length A) = setenv_search d name (length ?A)"
      using step by (simp_all add: kv)
    have IH: "case map_of kvs name of
      None \<Rightarrow> setenv_search d name (length ?A) = Some None
    | Some v \<Rightarrow> \<exists>pre post. kvs = pre @ (name, v) # post \<and>
        setenv_search d name (length ?A) =
          Some (Some (length (?A @ ents pre), length (?A @ ents pre @ entry (name, v))))"
      by (rule Cons.IH [OF Cons.prems(1) ok(3)]) (simp add: d)
    show ?thesis
    proof (cases "map_of kvs name")
      case None
      with IH show ?thesis unfolding m f by simp
    next
      case (Some v')
      with IH obtain pre post where "kvs = pre @ (name, v') # post"
        "setenv_search d name (length ?A) =
          Some (Some (length (?A @ ents pre), length (?A @ ents pre @ entry (name, v'))))" by auto
      then have "kv # kvs = (kv # pre) @ (name, v') # post \<and> setenv_search d name (length ?A) =
          Some (Some (length (A @ ents (kv # pre)), length (A @ ents (kv # pre) @ entry (name, v'))))"
        by (simp add: kv)
      with Some show ?thesis unfolding m f by (simp only: option.case) blast
    qed
  qed
qed

text \<open>\<open>runs B\<close>: the bytes up to and including the last NUL before a double NUL.\<close>

fun runs :: "byte list \<Rightarrow> bool" where
  "runs [] = False"
| "runs [c] = (c = 0)"
| "runs (c # c' # r) = ((c \<noteq> 0 \<or> c' \<noteq> 0) \<and> runs (c' # r))"

lemma runs_append: "nul_free s \<Longrightarrow> runs (0 # B) \<Longrightarrow> runs (s @ 0 # B)"
proof (induction s)
  case (Cons c s)
  then show ?case by (cases s) auto
qed simp

lemma runs_ents: "vars_ok kvs \<Longrightarrow> kvs \<noteq> [] \<Longrightarrow> runs (ents kvs)"
proof (induction kvs)
  case (Cons kv kvs)
  obtain k v where kv: "kv = (k, v)" by fastforce
  have ok: "is_name k" "nul_free v" "vars_ok kvs" using Cons.prems by (simp_all add: kv vars_ok_Cons)
  have "runs (0 # ents kvs)"
  proof (cases kvs)
    case (Cons kv' kvs')
    obtain k' v' where kv': "kv' = (k', v')" by fastforce
    have "is_name k'" using ok(3) by (simp add: Cons kv' vars_ok_Cons)
    then obtain c r where "entry (k', v') = c # r" "c \<noteq> 0" using hd_entry_neq_0 by blast
    with Cons.IH [OF ok(3)] Cons show ?thesis by (simp add: kv')
  qed simp
  then show ?case using runs_append nul_free_entry ok by (simp add: kv)
qed simp

lemma shift_down_runs:
  assumes "runs B" "0 < g" "drop g Y = B @ 0 # R"
  shows "shift_down (A @ Y) (length A) (length A + g) =
    Some (A @ B @ drop (length B) Y, length A + (length B - 1))"
  using assms
proof (induction B arbitrary: A Y rule: runs.induct)
  case 1
  then show ?case by simp
next
  case (2 c)
  have len: "g + 1 < length Y" using arg_cong [OF "2.prems"(3), of length] by simp
  have n: "Y ! g = c" "Y ! Suc g = 0"
    using "2.prems"(3) len by (auto simp: Cons_nth_drop_Suc [symmetric])
  obtain y Y' where Y: "Y = y # Y'" using len by (cases Y) auto
  have "Y' ! g = 0" using n(2) by (simp add: Y)
  then show ?case using len n "2.prems"(1,2)
    by (subst shift_down.simps) (simp add: Y rd_def nth_append)
next
  case (3 c c' r)
  have len: "g + 1 < length Y" using arg_cong [OF "3.prems"(3), of length] by simp
  have n: "Y ! g = c" "Y ! Suc g = c'"
    using "3.prems"(3) len by (auto simp: Cons_nth_drop_Suc [symmetric])
  obtain y Y' where Y: "Y = y # Y'" using len by (cases Y) auto
  have "drop g Y' = tl (drop g Y)" by (simp add: Y drop_tl [symmetric] tl_drop)
  then have "drop g Y' = (c' # r) @ 0 # R" using "3.prems"(3) by simp
  from "3.IH" [OF _ "3.prems"(2) this, of "A @ [c]"] "3.prems"(1)
  have "shift_down (A @ c # Y') (Suc (length A)) (Suc (length A + g)) =
      Some (A @ (c # c' # r) @ drop (length (c # c' # r)) Y, length A + (length (c # c' # r) - 1))"
    by (simp add: Y)
  moreover have "Y' ! g = c'" using n(2) by (simp add: Y)
  ultimately show ?case using len n "3.prems"(1,2)
    by (subst shift_down.simps) (auto simp: Y rd_def nth_append Let_def)
qed

lemma find_end_runs: "runs B \<Longrightarrow> find_end (A @ B @ 0 # R) (length A) = Some (length A + (length B - 1))"
proof (induction B arbitrary: A rule: runs.induct)
  case (2 c)
  then show ?case by (subst find_end.simps) (simp add: nth_append)
next
  case (3 c c' r)
  from "3.IH" [of "A @ [c]"] "3.prems" show ?case
    by (subst find_end.simps) (auto simp: nth_append)
qed simp

lemma wr_at [simp]: "wr (A @ c # R) (length A) x = Some (A @ x # R)"
  by (simp add: wr_def)

lemma write_str_at:
  "length s < length Y \<Longrightarrow>
     write_str (A @ Y) (length A) s = Some (A @ s @ 0 # drop (length s + 1) Y, length A + length s)"
proof (induction s arbitrary: A Y)
  case Nil
  then show ?case by (cases Y) simp_all
next
  case (Cons c s)
  from Cons.prems obtain y Y' where Y: "Y = y # Y'" by (cases Y) auto
  with Cons.prems Cons.IH [of Y' "A @ [c]"] show ?case by simp
qed

primrec joined :: "byte \<Rightarrow> cstr list \<Rightarrow> byte list" where
  "joined sep [] = []"
| "joined sep (v # vs) = sep # v @ joined (ch CHR '' '') vs"

lemma length_joined: "length (joined sep vs) = sum_list (map (\<lambda>v. length v + 1) vs)"
  by (induction vs arbitrary: sep) simp_all

lemma write_vals_at:
  "length (joined sep vs) \<le> length Y \<Longrightarrow>
     write_vals (A @ 0 # Y) (length A) sep vs =
       Some (A @ joined sep vs @ 0 # drop (length (joined sep vs)) Y, length A + length (joined sep vs))"
proof (induction vs arbitrary: A Y sep)
  case (Cons v vs)
  let ?A = "A @ sep # v"
  have "write_str (A @ sep # Y) (Suc (length A)) v
      = Some (?A @ 0 # drop (length v + 1) Y, length A + 1 + length v)"
    using write_str_at [of v Y "A @ [sep]"] Cons.prems by simp
  moreover have "write_vals (?A @ 0 # drop (length v + 1) Y) (length ?A) (ch CHR '' '') vs =
      Some (?A @ joined (ch CHR '' '') vs @ 0 # drop (length (joined (ch CHR '' '') vs)) (drop (length v + 1) Y),
        length ?A + length (joined (ch CHR '' '') vs))"
    using Cons.prems by (intro Cons.IH) simp
  ultimately show ?case by (simp add: ac_simps)
qed simp

lemma vars_ok_append:
  "vars_ok (pre @ (k, v) # post) \<Longrightarrow>
     vars_ok (pre @ post) \<and> is_name k \<and> nul_free v \<and>
     k \<notin> fst ` set (pre @ post)"
  by (auto simp: vars_ok_def)

lemma delete_entry_ents:
  assumes ok: "vars_ok (pre @ (k, v) # post)" and d: "d = ents (pre @ (k, v) # post) @ 0 # pad"
  shows "\<exists>d'. delete_entry d (length (ents pre)) (length (ents pre @ entry (k, v))) = Some d'
    \<and> env_rep (pre @ post) d' \<and> length d' = length d"
proof -
  let ?e = "entry (k, v)" and ?A = "ents pre"
  have okp: "vars_ok (pre @ post)" using vars_ok_append [OF ok] by simp
  have d': "d = (?A @ ?e @ [0]) @ ents post @ 0 # pad" by (simp add: d)
  obtain c r where e: "?e = c # r" by (cases ?e) auto
  show ?thesis
  proof (cases "post = []")
    case True
    then have nx: "rd d (Suc (length ?A + length ?e)) = Some 0"
      using rd_at [of "?A @ ?e @ [0]" 0 pad] by (simp add: d')
    show ?thesis
    proof (cases "pre = []")
      case True
      then have "delete_entry d (length ?A) (length (?A @ ?e)) = Some (0 # 0 # drop 2 d)"
        using nx \<open>post = []\<close> by (cases r) (simp_all add: delete_entry_def d' e wr_def)
      moreover have "env_rep (pre @ post) (0 # 0 # drop 2 d)"
        using okp True \<open>post = []\<close> by (intro env_repI [where pad = "0 # drop 2 d"]) simp_all
      moreover have "length (0 # 0 # drop 2 d) = length d" by (simp add: d')
      ultimately show ?thesis by blast
    next
      case False
      then have "0 < length ?A" by (cases pre) simp_all
      then have "delete_entry d (length ?A) (length (?A @ ?e)) = Some (?A @ 0 # r @ 0 # 0 # pad)"
        using nx \<open>post = []\<close> by (simp add: delete_entry_def d' e)
      moreover have "env_rep (pre @ post) (?A @ 0 # r @ 0 # 0 # pad)"
        using okp False \<open>post = []\<close> by (intro env_repI) simp_all
      moreover have "length (?A @ 0 # r @ 0 # 0 # pad) = length d" by (simp add: d' e \<open>post = []\<close>)
      ultimately show ?thesis by blast
    qed
  next
    case False
    then obtain k2 v2 post2 where post: "post = (k2, v2) # post2" by (cases post) auto
    have "is_name k2" using ok by (simp add: post vars_ok_def)
    then obtain c2 r2 where e2: "entry (k2, v2) = c2 # r2" "c2 \<noteq> 0" using hd_entry_neq_0 by blast
    let ?Y = "?e @ 0 # ents post @ 0 # pad" and ?B = "ents post"
    have nx: "rd d (Suc (length ?A + length ?e)) = Some c2"
      using rd_at [of "?A @ ?e @ [0]" c2 "r2 @ 0 # ents post2 @ 0 # pad"] by (simp add: d' post e2)
    have runs: "runs ?B" using ok False by (intro runs_ents) (auto simp: vars_ok_def)
    have "shift_down (?A @ ?Y) (length ?A) (length ?A + (length ?e + 1)) =
        Some (?A @ ?B @ drop (length ?B) ?Y, length ?A + (length ?B - 1))"
      by (rule shift_down_runs [OF runs, where R = pad]) simp_all
    moreover obtain y Z where Z: "drop (length ?B) ?Y = y # Z"
      by (cases "drop (length ?B) ?Y") auto
    moreover have "0 < length ?B" by (simp add: post)
    moreover have "wr (?A @ ?B @ y # Z) (length (?A @ ?B)) 0 = Some (?A @ ?B @ 0 # Z)"
      using wr_at [of "?A @ ?B" y Z 0] by simp
    ultimately have "delete_entry d (length ?A) (length (?A @ ?e)) = Some (?A @ ?B @ 0 # Z)"
      using nx e2(2) by (simp add: delete_entry_def d' Suc_diff_Suc)
    moreover have "env_rep (pre @ post) (?A @ ?B @ 0 # Z)"
      using okp False by (intro env_repI) simp_all
    moreover have "length (?A @ ?B @ 0 # Z) = length d"
      using arg_cong [OF Z, of length] by (simp add: d')
    ultimately show ?thesis by blast
  qed
qed

definition args_value :: "cstr list \<Rightarrow> cstr" where
  "args_value vals = tl (joined (ch CHR ''='') vals)"

lemma entry_args: "vals \<noteq> [] \<Longrightarrow> entry (name, args_value vals) = name @ joined (ch CHR ''='') vals"
  by (cases vals) (simp_all add: entry_def args_value_def)

lemma nul_free_joined: "sep \<noteq> 0 \<Longrightarrow> \<forall>v \<in> set vals. nul_free v \<Longrightarrow> nul_free (joined sep vals)"
  by (induction vals arbitrary: sep) simp_all

lemma nul_free_args_value: "\<forall>v \<in> set vals. nul_free v \<Longrightarrow> nul_free (args_value vals)"
  by (cases vals) (simp_all add: args_value_def nul_free_joined)

text \<open>The space a definition needs: name, separator, value and its NUL.\<close>

definition env_fits :: "(cstr \<times> cstr) list \<Rightarrow> bool" where
  "env_fits kvs \<longleftrightarrow> length (ents kvs) + 1 \<le> ENV_SIZE"

lemma append_entry_ents:
  assumes rep: "env_rep kvs d" and len: "length d = ENV_SIZE" and "vals \<noteq> []"
    and name: "is_name name" "name \<notin> fst ` set kvs" and vals: "\<forall>v \<in> set vals. nul_free v"
  defines "kvs' \<equiv> kvs @ [(name, args_value vals)]"
  shows "if env_fits kvs'
    then \<exists>d'. append_entry d name vals = Some (Some d') \<and> env_rep kvs' d' \<and> length d' = ENV_SIZE
    else append_entry d name vals = Some None"
proof -
  from rep obtain pad where d: "d = ents kvs @ 0 # pad" and p: "kvs = [] \<longrightarrow> (\<exists>p. pad = 0 # p)"
    and ok: "vars_ok kvs" by (rule env_repE)
  let ?A = "ents kvs" and ?j = "joined (ch CHR ''='') vals"
  have "\<exists>e. find_end d 0 = Some e \<and> (if e > 0 then e + 1 else e) = length ?A"
  proof (cases "kvs = []")
    case True
    then have "find_end d 0 = Some 0" using p d by (subst find_end.simps) auto
    with True show ?thesis by simp
  next
    case False
    have "0 < length ?A - 1" using False by (cases kvs) (auto simp: entry_def)
    then show ?thesis
      using find_end_runs [OF runs_ents [OF ok False], of "[]" pad] by (simp add: d)
  qed
  then obtain e where pos: "find_end d 0 = Some e" "(if e > 0 then e + 1 else e) = length ?A" by blast
  have unf: "append_entry d name vals =
    (if length name + 2 + length ?j + length ?A > ENV_SIZE then Some None
     else map_option Some (Option.bind (write_str d (length ?A) name) (\<lambda>(d, env).
       Option.bind (write_vals d env (ch CHR ''='') vals) (\<lambda>(d, env). wr d (env + 1) 0))))"
    unfolding append_entry_def pos(1) option.case Let_def pos(2) length_joined ..
  have fits: "env_fits kvs' \<longleftrightarrow> length name + 2 + length ?j + length ?A \<le> ENV_SIZE"
    using \<open>vals \<noteq> []\<close> by (auto simp: env_fits_def kvs'_def entry_args)
  show ?thesis
  proof (cases "env_fits kvs'")
    case True
    then have l: "length name + 1 + length ?j \<le> length pad" using fits len by (simp add: d)
    let ?d1 = "?A @ name @ 0 # drop (length name) pad"
    have w1: "write_str d (length ?A) name = Some (?d1, length ?A + length name)"
      using write_str_at [of name "0 # pad" ?A] l by (simp add: d)
    let ?Y = "drop (length name) pad"
    have w2: "write_vals ?d1 (length ?A + length name) (ch CHR ''='') vals =
        Some (?A @ name @ ?j @ 0 # drop (length ?j) ?Y, length ?A + length name + length ?j)"
      using write_vals_at [of "ch CHR ''=''" vals ?Y "?A @ name"] l by simp
    obtain y Z where Z: "drop (length ?j) ?Y = y # Z"
      using l by (cases "drop (length ?j) ?Y") auto
    have w3: "wr (?A @ name @ ?j @ 0 # y # Z) (Suc (length ?A + length name + length ?j)) 0
        = Some (?A @ name @ ?j @ 0 # 0 # Z)"
      using wr_at [of "?A @ name @ ?j @ [0]" y Z 0] by (simp add: ac_simps)
    have "append_entry d name vals = Some (Some (?A @ name @ ?j @ 0 # 0 # Z))"
      using True fits w1 w2 [unfolded Z] w3 by (simp add: unf)
    moreover have "env_rep kvs' (?A @ name @ ?j @ 0 # 0 # Z)"
      using ok name vals \<open>vals \<noteq> []\<close>
      by (intro env_repI [where pad = Z])
         (auto simp: kvs'_def entry_args vars_ok_def nul_free_args_value)
    moreover have "length (?A @ name @ ?j @ 0 # 0 # Z) = ENV_SIZE"
      using arg_cong [OF Z, of length] len l by (simp add: d)
    ultimately show ?thesis using True by auto
  next
    case False
    then show ?thesis using fits by (simp add: unf)
  qed
qed

subsection \<open>The operations implement the variable list\<close>

definition env_ok :: "env_state \<Rightarrow> (cstr \<times> cstr) list \<Rightarrow> bool" where
  "env_ok st kvs \<longleftrightarrow> gd_reloc st \<and> env_valid st \<and> length (env_ptr_data st) = ENV_SIZE
     \<and> env_rep kvs (env_ptr_data st)"

definition crc_ok :: "env_state \<Rightarrow> bool" where
  "crc_ok st \<longleftrightarrow> env_ptr_crc st = crc32 0 0 (env_ptr_data st)"

definition del_var :: "cstr \<Rightarrow> (cstr \<times> cstr) list \<Rightarrow> (cstr \<times> cstr) list" where
  "del_var name kvs = filter (\<lambda>kv. fst kv \<noteq> name) kvs"

definition put_var :: "cstr \<Rightarrow> cstr \<Rightarrow> (cstr \<times> cstr) list \<Rightarrow> (cstr \<times> cstr) list" where
  "put_var name val kvs = del_var name kvs @ [(name, val)]"

lemma del_var_absent: "name \<notin> fst ` set kvs \<Longrightarrow> del_var name kvs = kvs"
  by (force simp: del_var_def filter_id_conv)

lemma map_of_del_var: "map_of (del_var name kvs) = (map_of kvs)(name := None)"
  by (induction kvs) (auto simp: del_var_def)

lemma map_of_put_var: "map_of (put_var name val kvs) = (map_of kvs)(name \<mapsto> val)"
proof
  fix k
  have "k \<notin> fst ` set (del_var k kvs)" by (auto simp: del_var_def)
  then show "map_of (put_var name val kvs) k = ((map_of kvs)(name \<mapsto> val)) k"
    by (auto simp: put_var_def map_add_def map_of_del_var split: option.splits)
qed

lemma del_var_split:
  "vars_ok (pre @ (k, v) # post) \<Longrightarrow> del_var k (pre @ (k, v) # post) = pre @ post"
  using vars_ok_append [of pre k v post] del_var_absent [of k "pre @ post"]
  by (auto simp: del_var_def)

lemma env_get_char_rd: "gd_reloc st \<Longrightarrow> env_valid st \<Longrightarrow> env_get_char st = rd (env_ptr_data st)"
  by (auto simp: env_get_char_def env_get_char_memory_def fun_eq_iff)

text \<open>Search followed by deletion, as one step on the buffer.\<close>

definition search_delete :: "byte list \<Rightarrow> cstr \<Rightarrow> byte list option" where
  "search_delete d name = Option.bind (setenv_search d name 0)
     (\<lambda>old. case old of None \<Rightarrow> Some d | Some (env, nxt) \<Rightarrow> delete_entry d env nxt)"

lemma search_delete_rep:
  assumes rep: "env_rep kvs d" and "is_name name"
  shows "\<exists>d'. search_delete d name = Some d' \<and> env_rep (del_var name kvs) d' \<and> length d' = length d
    \<and> (setenv_search d name 0 = Some None \<longleftrightarrow> map_of kvs name = None)"
proof -
  from rep obtain pad where d: "d = ents kvs @ 0 # pad" and ok: "vars_ok kvs" by (rule env_repE)
  note s = setenv_search_ents [OF assms(2) ok, of d "[]" pad]
  show ?thesis
  proof (cases "map_of kvs name")
    case None
    then have "setenv_search d name 0 = Some None" "del_var name kvs = kvs"
      using s d del_var_absent [of name kvs] by (simp_all add: map_of_eq_None_iff [symmetric])
    with rep None show ?thesis by (simp add: search_delete_def)
  next
    case (Some v)
    then obtain pre post where kvs: "kvs = pre @ (name, v) # post"
      and f: "setenv_search d name 0 =
        Some (Some (length (ents pre), length (ents pre @ entry (name, v))))"
      using s d by auto
    from delete_entry_ents [OF ok [unfolded kvs] d [unfolded kvs]]
    show ?thesis using f Some del_var_split [OF ok [unfolded kvs]]
      by (auto simp: search_delete_def kvs)
  qed
qed

lemma do_setenv_core:
  assumes "argv ! 1 \<noteq> cs ''baudrate''"
  shows "Option.bind (setenv_search (env_ptr_data st) (argv ! 1) 0) (\<lambda>old. do_setenv_delete argv old st) =
    Option.bind (search_delete (env_ptr_data st) (argv ! 1))
      (\<lambda>d. do_setenv_tail argv (st\<lparr>env_ptr_data := d\<rparr>))"
proof (cases "setenv_search (env_ptr_data st) (argv ! 1) 0")
  case (Some old)
  then show ?thesis using assms
    by (cases old) (auto simp: search_delete_def do_setenv_delete_def)
qed (simp add: search_delete_def)

lemma setenv_effects_data [simp]:
  "env_ptr_data (setenv_effects argv st) = env_ptr_data st"
  "env_ptr_crc (setenv_effects argv st) = env_ptr_crc st"
  "env_valid (setenv_effects argv st) = env_valid st"
  "gd_reloc (setenv_effects argv st) = gd_reloc st"
  by (simp_all add: setenv_effects_def)

lemma env_crc_update_data [simp]:
  "env_ptr_data (env_crc_update st) = env_ptr_data st"
  "env_valid (env_crc_update st) = env_valid st"
  "gd_reloc (env_crc_update st) = gd_reloc st"
  "crc_ok (env_crc_update st)"
  by (simp_all add: env_crc_update_def crc_ok_def)

lemma crc_ok_effects [simp]: "crc_ok (setenv_effects argv st) = crc_ok st"
  by (simp add: crc_ok_def)

lemma crc_ok_env_id [simp]: "crc_ok (st\<lparr>env_id := x\<rparr>) = crc_ok st"
  by (simp add: crc_ok_def)

text \<open>What the three exits of \<^verbatim>\<open>_do_setenv\<close> give: deleted, overflow, defined.\<close>

definition setenv_result ::
  "cstr list \<Rightarrow> (cstr \<times> cstr) list \<Rightarrow> env_state \<Rightarrow> int \<Rightarrow> env_state \<Rightarrow> bool" where
  "setenv_result argv kvs st r st' \<longleftrightarrow>
     (let name = argv ! 1; vals = drop 2 argv
      in if vals = [] then r = 0 \<and> env_ok st' (del_var name kvs) \<and> crc_ok st'
         else if env_fits (put_var name (args_value vals) kvs)
         then r = 0 \<and> env_ok st' (put_var name (args_value vals) kvs) \<and> crc_ok st'
         else r = 1 \<and> env_ok st' (del_var name kvs) \<and> env_ptr_crc st' = env_ptr_crc st)"

lemma tail_result:
  assumes ok: "env_ok st kvs" and "is_name (argv ! 1)" and "\<forall>v \<in> set (drop 2 argv). nul_free v"
    and "argv ! 1 \<noteq> cs ''baudrate''" and "2 \<le> length argv"
  shows "\<exists>r st'. Option.bind (setenv_search (env_ptr_data st) (argv ! 1) 0)
      (\<lambda>old. do_setenv_delete argv old st) = Some (r, st') \<and> setenv_result argv kvs st r st'"
proof -
  let ?name = "argv ! 1" and ?vals = "drop 2 argv"
  have st: "gd_reloc st" "env_valid st" "length (env_ptr_data st) = ENV_SIZE"
    "env_rep kvs (env_ptr_data st)" using ok by (simp_all add: env_ok_def)
  obtain d where d: "search_delete (env_ptr_data st) ?name = Some d"
    "env_rep (del_var ?name kvs) d" "length d = ENV_SIZE"
    using search_delete_rep [OF st(4) assms(2)] st(3) by auto
  have n: "?name \<notin> fst ` set (del_var ?name kvs)" by (auto simp: del_var_def)
  show ?thesis
  proof (cases "?vals = []")
    case True
    then show ?thesis using d st do_setenv_core [OF assms(4), of st]
      by (simp add: do_setenv_tail_def setenv_result_def env_ok_def)
  next
    case False
    then have l: "\<not> length argv < 3" by simp
    from append_entry_ents [OF d(2,3) False assms(2) n assms(3)]
    have "if env_fits (put_var ?name (args_value ?vals) kvs)
      then \<exists>d'. append_entry d ?name ?vals = Some (Some d') \<and>
        env_rep (put_var ?name (args_value ?vals) kvs) d' \<and> length d' = ENV_SIZE
      else append_entry d ?name ?vals = Some None" unfolding put_var_def .
    then show ?thesis using d st l False do_setenv_core [OF assms(4), of st]
      by (auto simp: do_setenv_tail_def setenv_result_def env_ok_def split: if_splits)
  qed
qed

end
