(* ===== verification/EnvProps.thy ===== *)
theory EnvProps
  imports Env
begin

text \<open>
  What the environment promises. The contract of a variable store is the locale \<open>var_store\<close>; it is
  interpreted on the \<^verbatim>\<open>getenv\<close>/\<^verbatim>\<open>setenv\<close> of the model, whose buffer operations refine the list of
  variables. Then persistence through NVRAM, the boot-time checks, printing, and the places
  where the code departs from what it means to do.
\<close>

subsection \<open>Lookup\<close>

lemma getenv_env_ok:
  assumes ok: "env_ok st kvs" and name: "is_name name"
  shows "case map_of kvs name of
      None \<Rightarrow> getenv st name = Some None
    | Some v \<Rightarrow> \<exists>B C. getenv st name = Some (Some (length B)) \<and> env_ptr_data st = B @ v @ 0 # C"
proof -
  from ok have g: "env_get_char st = rd (env_ptr_data st)" and len: "length (env_ptr_data st) = ENV_SIZE"
    and rep: "env_rep kvs (env_ptr_data st)" by (simp_all add: env_ok_def env_get_char_rd)
  from rep obtain pad where d: "env_ptr_data st = ents kvs @ 0 # pad" and v: "vars_ok kvs"
    by (rule env_repE)
  have l: "length ([] :: byte list) + length (ents kvs) \<le> CONFIG_ENV_SIZE" using len by (simp add: d)
  have d2: "env_ptr_data st = [] @ ents kvs @ 0 # pad" by (simp add: d)
  from find_var_ents [OF name v d2 l] show ?thesis
    unfolding getenv_def g by (simp only: list.size)
qed

lemma map_of_nul_free: "vars_ok kvs \<Longrightarrow> map_of kvs name = Some v \<Longrightarrow> nul_free v"
  by (auto simp: vars_ok_def dest!: map_of_SomeD)

lemma env_ok_vars: "env_ok st kvs \<Longrightarrow> vars_ok kvs"
  by (simp add: env_ok_def env_rep_def)

lemma getenv_map:
  assumes ok: "env_ok st kvs" and name: "is_name name"
  shows "getenv_str st name = Some (map_of kvs name)"
proof (cases "map_of kvs name")
  case None
  then show ?thesis using getenv_env_ok [OF assms] by (simp add: getenv_str_def)
next
  case (Some v)
  then obtain B C where "getenv st name = Some (Some (length B))" "env_ptr_data st = B @ v @ 0 # C"
    using getenv_env_ok [OF assms] by auto
  moreover have "env_get_addr st = env_ptr_data st" using ok by (simp add: env_ok_def env_get_addr_def)
  moreover have "nul_free v" using Some map_of_nul_free env_ok_vars [OF ok] by blast
  ultimately show ?thesis using Some by (simp add: getenv_str_def str_at_append)
qed

text \<open>For every buffer that represents a list of variables, \<^verbatim>\<open>getenv\<close> terminates with every access
  inside the buffer and returns exactly the value of the variable, or NULL if it is not defined.\<close>

theorem getenv_correct:
  assumes "env_ok st kvs" and "is_name name"
  shows "getenv_str st name = Some (map_of kvs name)"
  by (rule getenv_map [OF assms])

definition sample_state :: "(cstr \<times> cstr) list \<Rightarrow> env_state" where
  "sample_state kvs =
     (let d = ents kvs @ replicate (ENV_SIZE - length (ents kvs)) 0
      in \<lparr> nv = \<lambda>_. 0, env_ptr_crc = crc32 0 0 d, env_ptr_data = d, env_valid = True, gd_reloc = True,
           env_id = 1, env_stdio = \<lparr>devs = [], stdio_devices = [None, None, None], jt_in = None, jt_out = None\<rparr>,
           con_in = [], gd_baudrate = 9600, bi_ip_addr = 0, load_addr = 0x1000000, BootFile = [] \<rparr>)"

lemma sample_state_ok:
  assumes "vars_ok kvs" "length (ents kvs) + 2 \<le> ENV_SIZE"
  shows "env_ok (sample_state kvs) kvs" "crc_ok (sample_state kvs)"
proof -
  let ?m = "ENV_SIZE - length (ents kvs)"
  have "?m = Suc (Suc (?m - 2))" using assms(2) by linarith
  then have r: "replicate ?m 0 = (0 :: byte) # 0 # replicate (?m - 2) 0" by (metis replicate_Suc)
  have "env_rep kvs (ents kvs @ replicate ?m 0)"
    by (rule env_repI [OF assms(1), where pad = "0 # replicate (?m - 2) 0"]) (simp_all only: r, blast)
  then show "env_ok (sample_state kvs) kvs" using assms(2)
    by (simp add: env_ok_def sample_state_def Let_def)
  show "crc_ok (sample_state kvs)" by (simp add: crc_ok_def sample_state_def Let_def)
qed

abbreviation (input) sample_vars :: "(cstr \<times> cstr) list" where
  "sample_vars \<equiv> [(cs ''ipaddr'', cs ''10.0.0.1''), (cs ''bootdelay'', cs ''5'')]"

lemma sample_vars_ok: "vars_ok sample_vars" "length (ents sample_vars) + 2 \<le> ENV_SIZE"
  by (simp_all add: vars_ok_def is_name_def cs_def nul_free_def entry_def)

theorem getenv_correct_witness:
  "getenv_str (sample_state sample_vars) (cs ''bootdelay'') = Some (Some (cs ''5''))"
  using getenv_correct [OF sample_state_ok(1) [OF sample_vars_ok], of "cs ''bootdelay''"]
  by (simp add: is_name_def cs_def)

subsection \<open>Update\<close>

lemma do_setenv_result:
  assumes ok: "env_ok st kvs" and "is_name (argv ! 1)" and "\<forall>v \<in> set (drop 2 argv). nul_free v"
    and "argv ! 1 \<noteq> cs ''baudrate''" "console_of (argv ! 1) = None" "2 \<le> length argv"
  shows "\<exists>r st'. do_setenv' argv st = Some (r, st') \<and> setenv_result argv kvs st r st'"
proof -
  let ?st = "st\<lparr>env_id := env_id st + 1\<rparr>"
  have "env_ok ?st kvs" using ok by (simp add: env_ok_def)
  from tail_result [OF this assms(2,3,4,6)] obtain r st' where
    "Option.bind (setenv_search (env_ptr_data ?st) (argv ! 1) 0) (\<lambda>old. do_setenv_delete argv old ?st)
      = Some (r, st')" "setenv_result argv kvs ?st r st'" by blast
  moreover have "setenv_result argv kvs ?st = setenv_result argv kvs st"
    by (simp add: setenv_result_def fun_eq_iff)
  moreover have "do_setenv' argv st =
      Option.bind (setenv_search (env_ptr_data ?st) (argv ! 1) 0) (\<lambda>old. do_setenv_delete argv old ?st)"
    using assms(2,5) ok by (simp add: do_setenv'_def Let_def is_name_def env_ok_def)
  ultimately show ?thesis by metis
qed

text \<open>C1: \<^verbatim>\<open>_do_setenv\<close> on an ordinary variable always returns, stays inside the buffer and
  implements the update of the variable list: without a value the variable is removed; with
  values it is redefined as their concatenation with blanks if the result fits; otherwise it
  is removed and 1 is returned. On success the stored CRC is that of the new buffer.\<close>

theorem setenv_correct:
  assumes "env_ok st kvs" and "is_name name" and "\<forall>v \<in> set vals. nul_free v"
    and "name \<noteq> cs ''baudrate''" and "console_of name = None"
  shows "\<exists>r st'. do_setenv' (cmd # name # vals) st = Some (r, st') \<and>
    (if vals = [] then r = 0 \<and> env_ok st' (del_var name kvs) \<and> crc_ok st'
     else if env_fits (put_var name (args_value vals) kvs)
     then r = 0 \<and> env_ok st' (put_var name (args_value vals) kvs) \<and> crc_ok st'
     else r = 1 \<and> env_ok st' (del_var name kvs) \<and> env_ptr_crc st' = env_ptr_crc st)"
  using do_setenv_result [of st kvs "cmd # name # vals"] assms
  by (simp add: setenv_result_def Let_def)

theorem setenv_correct_witness:
  "\<exists>st'. do_setenv' [cs ''setenv'', cs ''bootdelay'', cs ''a'', cs ''b''] (sample_state sample_vars)
      = Some (0, st') \<and>
    env_ok st' [(cs ''ipaddr'', cs ''10.0.0.1''), (cs ''bootdelay'', cs ''a b'')] \<and> crc_ok st'"
  using setenv_correct [OF sample_state_ok(1) [OF sample_vars_ok], of "cs ''bootdelay''"
      "[cs ''a'', cs ''b'']" "cs ''setenv''"]
  by (simp add: is_name_def cs_def console_of_def put_var_def del_var_def args_value_def env_fits_def
      entry_def)

subsection \<open>The contract of a variable store\<close>

text \<open>A sequence of updates, all of which must succeed.\<close>

primrec put_seq ::
  "(cstr \<Rightarrow> cstr \<Rightarrow> 's \<Rightarrow> 's option) \<Rightarrow> (cstr \<times> cstr) list \<Rightarrow> 's \<Rightarrow> 's option" where
  "put_seq put [] s = Some s"
| "put_seq put (kv # kvs) s = Option.bind (put (fst kv) (snd kv) s) (put_seq put kvs)"

locale var_store =
  fixes inv :: "'s \<Rightarrow> bool" and get :: "'s \<Rightarrow> cstr \<Rightarrow> cstr option"
    and put :: "cstr \<Rightarrow> cstr \<Rightarrow> 's \<Rightarrow> 's option" and ok :: "cstr \<Rightarrow> cstr \<Rightarrow> bool"
  assumes put_inv: "inv s \<Longrightarrow> ok k v \<Longrightarrow> put k v s = Some s' \<Longrightarrow> inv s'"
    and get_put: "inv s \<Longrightarrow> ok k v \<Longrightarrow> put k v s = Some s' \<Longrightarrow> get s' = (get s)(k \<mapsto> v)"
begin

lemma put_seq_get:
  "inv s \<Longrightarrow> \<forall>(k, v) \<in> set kvs. ok k v \<Longrightarrow> put_seq put kvs s = Some s' \<Longrightarrow>
     inv s' \<and> get s' = get s ++ map_of (rev kvs)"
proof (induction kvs arbitrary: s)
  case (Cons kv kvs)
  from Cons.prems(3) obtain s1 where 1: "put (fst kv) (snd kv) s = Some s1" "put_seq put kvs s1 = Some s'"
    by (auto split: Option.bind_splits)
  have ok: "ok (fst kv) (snd kv)" using Cons.prems(2) by auto
  have "inv s' \<and> get s' = get s1 ++ map_of (rev kvs)"
    by (rule Cons.IH) (use 1 ok put_inv Cons.prems in auto)
  then show ?case using get_put [OF Cons.prems(1) ok 1(1)] by (cases kv) (simp add: map_add_assoc)
qed simp

end

definition env_inv :: "env_state \<Rightarrow> bool" where
  "env_inv st \<longleftrightarrow> (\<exists>kvs. env_ok st kvs)"

definition env_lookup :: "env_state \<Rightarrow> cstr \<Rightarrow> cstr option" where
  "env_lookup st name =
     (if is_name name then case getenv_str st name of Some r \<Rightarrow> r | None \<Rightarrow> None else None)"

definition env_put :: "cstr \<Rightarrow> cstr \<Rightarrow> env_state \<Rightarrow> env_state option" where
  "env_put name val st =
     (case setenv name (Some val) st of
        Some (r, st') \<Rightarrow> if r = 0 then Some st' else None
      | None \<Rightarrow> None)"

text \<open>The variables without a side condition of their own: not the console files, not the baud rate.\<close>

definition plain_var :: "cstr \<Rightarrow> cstr \<Rightarrow> bool" where
  "plain_var name val \<longleftrightarrow> is_name name \<and> nul_free val \<and> val \<noteq> [] \<and>
     name \<noteq> cs ''baudrate'' \<and> console_of name = None"

lemma env_lookup_ok: "env_ok st kvs \<Longrightarrow> env_lookup st = map_of kvs"
proof
  fix name assume ok: "env_ok st kvs"
  show "env_lookup st name = map_of kvs name"
  proof (cases "is_name name")
    case True
    then show ?thesis using getenv_map [OF ok True] by (simp add: env_lookup_def)
  next
    case False
    then have "map_of kvs name = None"
      using env_ok_vars [OF ok] unfolding map_of_eq_None_iff vars_ok_def by force
    with False show ?thesis by (simp add: env_lookup_def)
  qed
qed

lemma env_put_ok:
  assumes ok: "env_ok st kvs" and "plain_var name val"
  shows "env_put name val st = Some st' \<Longrightarrow> env_ok st' (put_var name val kvs) \<and> crc_ok st'"
    and "env_fits (put_var name val kvs) \<Longrightarrow> \<exists>st'. env_put name val st = Some st'"
proof -
  let ?argv = "[cs ''setenv'', name, val]"
  have av: "args_value [val] = val" by (simp add: args_value_def)
  obtain r st1 where r: "do_setenv' ?argv st = Some (r, st1)" "setenv_result ?argv kvs st r st1"
    using do_setenv_result [OF ok, of ?argv] assms(2) by (auto simp: plain_var_def)
  have p: "env_put name val st = (if r = 0 then Some st1 else None)"
    using assms(2) r(1) by (simp add: env_put_def setenv_def plain_var_def)
  show "env_put name val st = Some st' \<Longrightarrow> env_ok st' (put_var name val kvs) \<and> crc_ok st'"
    using p r(2) by (auto simp: setenv_result_def av split: if_splits)
  show "env_fits (put_var name val kvs) \<Longrightarrow> \<exists>st'. env_put name val st = Some st'"
    using p r(2) by (auto simp: setenv_result_def av split: if_splits)
qed

interpretation env: var_store env_inv env_lookup env_put plain_var
proof
  fix st st' k v
  assume a: "env_inv st" "plain_var k v" "env_put k v st = Some st'"
  then obtain kvs where ok: "env_ok st kvs" by (auto simp: env_inv_def)
  from env_put_ok(1) [OF ok a(2,3)] have ok': "env_ok st' (put_var k v kvs)" by simp
  then show "env_inv st'" by (auto simp: env_inv_def)
  show "env_lookup st' = (env_lookup st)(k \<mapsto> v)"
    by (simp add: env_lookup_ok [OF ok] env_lookup_ok [OF ok'] map_of_put_var)
qed

text \<open>After any sequence of \<^verbatim>\<open>setenv\<close> calls that all succeed, \<^verbatim>\<open>getenv\<close> returns for every name
  the last value set for it, and the previous value for the names that were not set.\<close>

theorem setenv_sequence:
  assumes "env_inv st" and "\<forall>(k, v) \<in> set kvs. plain_var k v"
    and "put_seq env_put kvs st = Some st'"
  shows "env_inv st' \<and> env_lookup st' = env_lookup st ++ map_of (rev kvs)"
  by (rule env.put_seq_get [OF assms])

theorem setenv_sequence_witness:
  "\<exists>st'. put_seq env_put [(cs ''a'', cs ''1''), (cs ''a'', cs ''2'')] (sample_state sample_vars) = Some st'
    \<and> env_lookup st' (cs ''a'') = Some (cs ''2'') \<and> env_lookup st' (cs ''bootdelay'') = Some (cs ''5'')"
proof -
  let ?s0 = "sample_state sample_vars"
  have pv: "plain_var (cs ''a'') (cs ''1'')" "plain_var (cs ''a'') (cs ''2'')"
    by (simp_all add: plain_var_def is_name_def console_of_def cs_def)
  note ok0 = sample_state_ok(1) [OF sample_vars_ok]
  obtain s1 where 1: "env_put (cs ''a'') (cs ''1'') ?s0 = Some s1"
    using env_put_ok(2) [OF ok0 pv(1)]
    by (auto simp: env_fits_def put_var_def del_var_def entry_def cs_def)
  then have ok1: "env_ok s1 (put_var (cs ''a'') (cs ''1'') sample_vars)"
    using env_put_ok(1) [OF ok0 pv(1)] by blast
  obtain s2 where 2: "env_put (cs ''a'') (cs ''2'') s1 = Some s2"
    using env_put_ok(2) [OF ok1 pv(2)]
    by (auto simp: env_fits_def put_var_def del_var_def entry_def cs_def)
  have "put_seq env_put [(cs ''a'', cs ''1''), (cs ''a'', cs ''2'')] ?s0 = Some s2" by (simp add: 1 2)
  moreover have "env_inv ?s0" using ok0 by (auto simp: env_inv_def)
  ultimately have "env_lookup s2 = map_of sample_vars ++ map_of (rev [(cs ''a'', cs ''1''), (cs ''a'', cs ''2'')])"
    using setenv_sequence [of ?s0 "[(cs ''a'', cs ''1''), (cs ''a'', cs ''2'')]" s2] pv
    unfolding env_lookup_ok [OF ok0] by simp
  with \<open>put_seq env_put _ _ = Some s2\<close> show ?thesis by (auto simp: map_add_def cs_def)
qed

subsection \<open>Persistence\<close>

lemma saved_image:
  assumes "length (env_ptr_data st) = ENV_SIZE"
  shows "cells_read CONFIG_ENV_ADDR 4 (nv (snd (saveenv st))) = be32_bytes (env_ptr_crc st)"
    and "cells_read (CONFIG_ENV_ADDR + 4) ENV_SIZE (nv (snd (saveenv st))) = env_ptr_data st"
proof -
  let ?img = "be32_bytes (env_ptr_crc st) @ env_ptr_data st"
  have "length ?img = 4 + ENV_SIZE" using assms by simp
  then have "cells_read CONFIG_ENV_ADDR (4 + ENV_SIZE) (nv (snd (saveenv st))) = ?img"
    using cells_read_write [of ?img CONFIG_ENV_ADDR "nv st"] by (simp add: saveenv_def)
  then have "cells_read CONFIG_ENV_ADDR 4 (nv (snd (saveenv st))) @
      cells_read (CONFIG_ENV_ADDR + 4) ENV_SIZE (nv (snd (saveenv st))) = ?img"
    unfolding cells_read_append by simp
  then show "cells_read CONFIG_ENV_ADDR 4 (nv (snd (saveenv st))) = be32_bytes (env_ptr_crc st)"
    and "cells_read (CONFIG_ENV_ADDR + 4) ENV_SIZE (nv (snd (saveenv st))) = env_ptr_data st"
    by (simp_all add: append_eq_append_conv)
qed

text \<open>Start of the board on a given NVRAM content: RAM is lost, \<^verbatim>\<open>env_init\<close> runs before
  relocation and \<^verbatim>\<open>env_relocate\<close> after it.\<close>

definition boot_env :: "env_state \<Rightarrow> env_state" where
  "boot_env st = env_relocate ((env_init (st\<lparr>gd_reloc := False\<rparr>))\<lparr>gd_reloc := True\<rparr>)"

lemma be32_val_be32_bytes [simp]:
  "be32_val (be32_bytes w ! 0) (be32_bytes w ! Suc 0) (be32_bytes w ! 2) (be32_bytes w ! 3) = w"
  by (simp add: be32_bytes_def be32_val_bytes numeral_3_eq_3 numeral_2_eq_2)

lemma env_init_saved:
  assumes "length (env_ptr_data st) = ENV_SIZE" and "nv st' = nv (snd (saveenv st))"
  shows "env_valid (env_init st') = crc_ok st"
  using saved_image [OF assms(1)] assms(2)
  by (auto simp: env_init_def Let_def crc_ok_def)

lemma env_relocate_saved:
  assumes "length (env_ptr_data st) = ENV_SIZE" and "nv st' = nv (snd (saveenv st))"
  shows "env_ptr_crc (env_relocate_spec st') = env_ptr_crc st"
    and "env_ptr_data (env_relocate_spec st') = env_ptr_data st"
proof -
  have "cells_read CONFIG_ENV_ADDR (4 + ENV_SIZE) (nv st') = be32_bytes (env_ptr_crc st) @ env_ptr_data st"
    using saved_image [OF assms(1)] assms(2) unfolding cells_read_append by simp
  then have "cells_read CONFIG_ENV_ADDR CONFIG_ENV_SIZE (nv st')
      = be32_bytes (env_ptr_crc st) @ env_ptr_data st" by simp
  then show "env_ptr_crc (env_relocate_spec st') = env_ptr_crc st"
    and "env_ptr_data (env_relocate_spec st') = env_ptr_data st"
    using be32_val_be32_bytes [of "env_ptr_crc st"]
    by (simp_all add: env_relocate_spec_def Let_def nth_append)
qed

text \<open>C2: an environment saved with \<^verbatim>\<open>saveenv\<close> while its CRC is right survives the restart: whatever RAM
  holds, \<^verbatim>\<open>env_init\<close> accepts it and after \<^verbatim>\<open>env_relocate\<close> the same variables are defined and the CRC is right.\<close>

theorem save_boot_roundtrip:
  assumes "env_ok st kvs" and "crc_ok st" and "nv st' = nv (snd (saveenv st))"
  shows "env_ok (boot_env st') kvs \<and> crc_ok (boot_env st')
    \<and> env_ptr_data (boot_env st') = env_ptr_data st"
proof -
  have len: "length (env_ptr_data st) = ENV_SIZE" using assms(1) by (simp add: env_ok_def)
  let ?i = "env_init (st'\<lparr>gd_reloc := False\<rparr>)" and ?r = "\<lambda>s. s\<lparr>gd_reloc := True\<rparr>"
  have v: "env_valid ?i" using env_init_saved [OF len, of "st'\<lparr>gd_reloc := False\<rparr>"] assms by simp
  have n: "nv (?r ?i) = nv (snd (saveenv st))" using assms(3) by (simp add: env_init_def Let_def)
  have b: "boot_env st' = env_relocate_spec (?r ?i)" using v by (simp add: boot_env_def env_relocate_def)
  have "gd_reloc (boot_env st')" "env_valid (boot_env st')"
    using v by (simp_all add: b env_relocate_spec_def Let_def)
  moreover note r = env_relocate_saved [OF len n]
  ultimately show ?thesis using assms(1,2) unfolding b crc_ok_def env_ok_def r by simp
qed

theorem save_boot_roundtrip_witness:
  "env_ok (boot_env (snd (saveenv (sample_state sample_vars)))) sample_vars"
  using save_boot_roundtrip [OF sample_state_ok [OF sample_vars_ok] refl] by blast

lemma cells_read_upd:
  "i < n \<Longrightarrow> n \<le> 65536 \<Longrightarrow> cells_read s n (m(s + of_nat i := x)) = (cells_read s n m)[i := x]"
  by (rule nth_equalityI)
     (auto simp: cells_read_map nth_list_update of_nat_u16_inj less_le_trans)

lemma cells_read_upd_below:
  "n \<le> i \<Longrightarrow> i < 65536 \<Longrightarrow> cells_read s n (m(s + of_nat i := x)) = cells_read s n m"
  by (rule nth_equalityI) (auto simp: cells_read_map of_nat_u16_inj less_le_trans)

lemma default_environment_ents:
  "default_environment = ents (map (\<lambda>(n, v). (cs n, cs v)) default_vars) @ [0, 0]"
  by (simp add: default_environment_def ents_def entry_def o_def case_prod_unfold)

lemma default_vars_ok: "vars_ok (map (\<lambda>(n, v). (cs n, cs v)) default_vars)"
  by code_simp

lemma default_environment_length: "length default_environment < ENV_SIZE"
  by code_simp

lemma set_default_env_ok:
  "gd_reloc st \<Longrightarrow> env_ok (set_default_env st) (map (\<lambda>(n, v). (cs n, cs v)) default_vars)
     \<and> crc_ok (set_default_env st)"
proof -
  assume r: "gd_reloc st"
  let ?d = "default_environment @ drop (length default_environment) (replicate ENV_SIZE 0)"
  have "env_rep (map (\<lambda>(n, v). (cs n, cs v)) default_vars) ?d"
    unfolding default_environment_ents
    by (rule env_repI [OF default_vars_ok]) (simp, blast)+
  then show ?thesis using r default_environment_length
    by (simp add: set_default_env_def Let_def env_ok_def)
       (simp add: env_crc_update_def crc_ok_def)
qed

text \<open>C38: if any single byte of the saved environment, CRC excluded, has changed in NVRAM, the restart
  detects it and comes up with the default environment of the board instead.\<close>

theorem corrupted_env_falls_back:
  assumes "env_ok st kvs" and "crc_ok st" and "i < ENV_SIZE" and "env_ptr_data st ! i \<noteq> x"
    and "nv st' = (nv (snd (saveenv st)))(CONFIG_ENV_ADDR + 4 + of_nat i := x)"
  shows "env_ok (boot_env st') (map (\<lambda>(n, v). (cs n, cs v)) default_vars) \<and> crc_ok (boot_env st')"
proof -
  have len: "length (env_ptr_data st) = ENV_SIZE" using assms(1) by (simp add: env_ok_def)
  have a: "CONFIG_ENV_ADDR + 4 + of_nat i = CONFIG_ENV_ADDR + of_nat (i + 4)" by (simp add: ac_simps)
  have c: "cells_read CONFIG_ENV_ADDR 4 (nv st') = be32_bytes (env_ptr_crc st)"
    unfolding assms(5) a using assms(3) saved_image(1) [OF len] by (subst cells_read_upd_below) simp_all
  have d: "cells_read (CONFIG_ENV_ADDR + 4) ENV_SIZE (nv st') = (env_ptr_data st)[i := x]"
    unfolding assms(5) using saved_image(2) [OF len] assms(3) by (subst cells_read_upd) simp_all
  have "crc32 0 0 ((env_ptr_data st)[i := x]) \<noteq> crc32 0 0 (env_ptr_data st)"
    using crc32_byte_change [of x "env_ptr_data st ! i" 0 0 "take i (env_ptr_data st)"
        "drop (Suc i) (env_ptr_data st)"] assms(3,4) len
    by (metis id_take_nth_drop upd_conv_take_nth_drop)
  then have "\<not> env_valid (env_init (st'\<lparr>gd_reloc := False\<rparr>))"
    using c d assms(2) by (auto simp: env_init_def Let_def crc_ok_def)
  then show ?thesis by (simp add: boot_env_def env_relocate_def set_default_env_ok)
qed

theorem corrupted_env_falls_back_witness:
  "env_ok (boot_env ((snd (saveenv (sample_state sample_vars)))
      \<lparr>nv := (nv (snd (saveenv (sample_state sample_vars))))(CONFIG_ENV_ADDR + 4 + of_nat 0 := 0)\<rparr>))
    (map (\<lambda>(n, v). (cs n, cs v)) default_vars)"
  using corrupted_env_falls_back [OF sample_state_ok [OF sample_vars_ok], of 0 0
      "(snd (saveenv (sample_state sample_vars)))
      \<lparr>nv := (nv (snd (saveenv (sample_state sample_vars))))(CONFIG_ENV_ADDR + 4 + of_nat 0 := 0)\<rparr>"]
  by (simp add: sample_state_def Let_def entry_def cs_def)

subsection \<open>The overflow exit leaves a stale CRC\<close>

text \<open>When a redefinition does not fit, \<^verbatim>\<open>_do_setenv\<close> returns 1 after removing the old
  definition from the buffer, without the CRC update that every other change makes: the stored CRC is
  that of the previous content, and a buffer saved in this state is accepted at the next start
  only if both contents happen to have the same CRC.\<close>

theorem setenv_overflow_stale_crc:
  assumes "env_ok st kvs" and "crc_ok st" and "is_name name" and "\<forall>v \<in> set vals. nul_free v"
    and "name \<noteq> cs ''baudrate''" and "console_of name = None" and "vals \<noteq> []"
    and "\<not> env_fits (put_var name (args_value vals) kvs)"
  shows "\<exists>st'. do_setenv' (cmd # name # vals) st = Some (1, st') \<and> env_lookup st' name = None
    \<and> env_ptr_crc st' = crc32 0 0 (env_ptr_data st)
    \<and> (\<forall>st''. nv st'' = nv (snd (saveenv st')) \<longrightarrow>
         env_valid (env_init st'') =
           (crc32 0 0 (env_ptr_data st') = crc32 0 0 (env_ptr_data st)))"
proof -
  obtain r st' where r: "do_setenv' (cmd # name # vals) st = Some (r, st')"
      "setenv_result (cmd # name # vals) kvs st r st'"
    using do_setenv_result [of st kvs "cmd # name # vals"] assms by auto
  then have e: "r = 1" "env_ok st' (del_var name kvs)" "env_ptr_crc st' = env_ptr_crc st"
    using assms(7,8) by (simp_all add: setenv_result_def)
  have "env_lookup st' name = None" by (simp add: env_lookup_ok [OF e(2)] map_of_del_var)
  moreover have "length (env_ptr_data st') = ENV_SIZE" using e(2) by (simp add: env_ok_def)
  ultimately show ?thesis using r(1) e assms(2) env_init_saved [of st']
    by (auto simp: crc_ok_def)
qed

theorem setenv_overflow_stale_crc_witness:
  "\<exists>st'. do_setenv' [cs ''setenv'', cs ''bootdelay'', replicate 2000 1] (sample_state sample_vars)
      = Some (1, st') \<and> env_lookup st' (cs ''bootdelay'') = None"
proof -
  have n: "is_name (cs ''bootdelay'')" "cs ''bootdelay'' \<noteq> cs ''baudrate''"
    "console_of (cs ''bootdelay'') = None" by (simp_all add: is_name_def console_of_def cs_def)
  have f: "\<not> env_fits (put_var (cs ''bootdelay'') (args_value [replicate 2000 1]) sample_vars)"
    by (simp add: env_fits_def put_var_def args_value_def entry_def)
  have v: "\<forall>v \<in> set [replicate 2000 (1 :: byte)]. nul_free v" by (simp add: nul_free_def)
  from setenv_overflow_stale_crc [OF sample_state_ok [OF sample_vars_ok] n(1) v n(2,3) _ f,
      of "cs ''setenv''"]
  show ?thesis by auto
qed

subsection \<open>Reading before relocation\<close>

text \<open>Before relocation the bytes of a valid environment are read from the start of the NVRAM image, CRC
  included: index \<open>i\<close> of the data is found at index \<open>i + 4\<close>, and the first four indices give the CRC.\<close>

theorem env_get_char_before_relocation:
  assumes "env_ok st kvs" and "crc_ok st" and "nv st' = nv (snd (saveenv st))"
  shows "env_get_char (env_init (st'\<lparr>gd_reloc := False\<rparr>)) i =
    (if i < 4 then Some (be32_bytes (env_ptr_crc st) ! i)
     else if i < CONFIG_ENV_SIZE then Some (env_ptr_data st ! (i - 4))
     else Some (nv st' (CONFIG_ENV_ADDR + of_nat i)))"
proof -
  have len: "length (env_ptr_data st) = ENV_SIZE" using assms(1) by (simp add: env_ok_def)
  have v: "env_valid (env_init (st'\<lparr>gd_reloc := False\<rparr>))"
    using env_init_saved [OF len, of "st'\<lparr>gd_reloc := False\<rparr>"] assms by simp
  have g: "env_get_char (env_init (st'\<lparr>gd_reloc := False\<rparr>)) i = Some (nv st' (CONFIG_ENV_ADDR + of_nat i))"
    using v by (simp add: env_get_char_def env_get_char_init_def env_get_char_spec_def env_init_def Let_def)
  have img: "map (\<lambda>i. nv st' (CONFIG_ENV_ADDR + of_nat i)) [0..<4 + ENV_SIZE]
      = be32_bytes (env_ptr_crc st) @ env_ptr_data st"
    using saved_image [OF len] assms(3) by (simp only: cells_read_append cells_read_map [symmetric]) simp
  have "nv st' (CONFIG_ENV_ADDR + of_nat i) = (be32_bytes (env_ptr_crc st) @ env_ptr_data st) ! i"
    if "i < 4 + ENV_SIZE"
    unfolding img [symmetric] using that by (simp del: upt_Suc)
  then show ?thesis using g by (simp add: nth_append)
qed

theorem env_get_char_before_relocation_witness:
  "env_get_char (env_init ((snd (saveenv (sample_state sample_vars)))\<lparr>gd_reloc := False\<rparr>)) 4 = Some 0x69"
  using env_get_char_before_relocation [OF sample_state_ok [OF sample_vars_ok] refl, of 4]
  by (simp add: sample_state_def Let_def entry_def cs_def)

subsection \<open>Bounded copies\<close>

lemma copy_out_str:
  "nul_free v \<Longrightarrow> copy_out (rd (B @ v @ 0 # C)) (length B) len =
     Some (if length v < len then (v @ [0], True) else (take len v, False))"
proof (induction v arbitrary: B len)
  case Nil
  then show ?case by (cases len) simp_all
next
  case (Cons c v)
  show ?case
  proof (cases len)
    case (Suc n)
    with Cons.IH [of "B @ [c]" n] Cons.prems show ?thesis by (auto split: if_splits)
  qed simp
qed

lemma last_update_take:
  "0 < n \<Longrightarrow> n \<le> length v \<Longrightarrow> (take n v)[n - 1 := x] = take (n - 1) v @ [x]"
  by (rule nth_equalityI) (auto simp: nth_append nth_list_update)

text \<open>\<^verbatim>\<open>getenv_f\<close> with a buffer of \<open>len\<close> bytes returns the value with its NUL when it fits, and otherwise
  its first \<open>len - 1\<close> bytes with a NUL and the count \<open>len\<close>; it never stores more than \<open>len\<close> bytes.\<close>

theorem getenv_f_correct:
  assumes "env_ok st kvs" and "is_name name"
  shows "getenv_f st name len = Some
    (case map_of kvs name of
       None \<Rightarrow> (-1, [])
     | Some v \<Rightarrow> if length v < len then (int (length v), v @ [0])
                 else if len = 0 then (0, [])
                 else (int len, take (len - 1) v @ [0]))"
proof (cases "map_of kvs name")
  case None
  then have "find_var (env_get_char st) name 0 = Some None"
    using getenv_env_ok [OF assms] by (simp add: getenv_def)
  then show ?thesis using None by (simp add: getenv_f_def)
next
  case (Some v)
  then obtain B C where f: "find_var (env_get_char st) name 0 = Some (Some (length B))"
    and d: "env_ptr_data st = B @ v @ 0 # C"
    using getenv_env_ok [OF assms] by (auto simp: getenv_def)
  have g: "env_get_char st = rd (B @ v @ 0 # C)"
    using assms(1) d by (simp add: env_ok_def env_get_char_rd)
  have "nul_free v" using Some map_of_nul_free env_ok_vars [OF assms(1)] by blast
  from copy_out_str [OF this, of B C len] have
    "copy_out (env_get_char st) (length B) len =
      Some (if length v < len then (v @ [0], True) else (take len v, False))" by (simp add: g)
  then show ?thesis using f Some last_update_take [of len v 0]
    by (cases "length v < len"; cases "len = 0") (auto simp: getenv_f_def min_def)
qed

theorem getenv_f_correct_witness:
  "getenv_f (sample_state sample_vars) (cs ''ipaddr'') 4 = Some (4, cs ''10.'' @ [0])"
  using getenv_f_correct [OF sample_state_ok(1) [OF sample_vars_ok], of "cs ''ipaddr''" 4]
  by (simp add: is_name_def cs_def)

subsection \<open>Printing\<close>

lemma puts_nul_free: assumes "nul_free b" shows "puts b = b" "puts (b @ [0]) = b"
proof -
  from assms have a: "\<And>x. x \<in> set b \<Longrightarrow> x \<noteq> 0" by (auto simp: nul_free_def)
  show "puts b = b" using a unfolding puts_def by (simp add: takeWhile_eq_all_conv)
  show "puts (b @ [0]) = b" unfolding puts_def by (subst takeWhile_append2) (simp_all add: a)
qed

lemma print_entry_str:
  "nul_free s \<Longrightarrow> nul_free buf \<Longrightarrow> length buf < 16 \<Longrightarrow>
     print_entry (A @ s @ 0 # R) quiet (length A) buf =
       Some (if quiet then [] else buf @ s @ [10], length A + length s + 1)"
proof (induction s arbitrary: A buf)
  case Nil
  then show ?case by (subst print_entry.simps) (simp add: Let_def puts_nul_free)
next
  case (Cons c s)
  let ?buf = "if length buf = 15 then [] else buf @ [c]"
  have "print_entry ((A @ [c]) @ s @ 0 # R) quiet (length (A @ [c])) ?buf =
      Some (if quiet then [] else ?buf @ s @ [10], length (A @ [c]) + length s + 1)"
    by (rule Cons.IH) (use Cons.prems in auto)
  moreover have "nul_free (buf @ [c])" using Cons.prems by simp
  ultimately show ?case using Cons.prems
    by (subst print_entry.simps) (auto simp: Let_def puts_nul_free split: if_splits)
qed

lemma printenv_loop_all:
  assumes "vars_ok kvs" "\<forall>k. \<not> ctrlc k"
  shows "printenv_loop (A @ ents kvs @ 0 # R) ctrlc name 1 (length A) k =
    Some (concat (map (\<lambda>kv. entry kv @ [10]) kvs), int (length A + length (ents kvs)))"
  using assms(1)
proof (induction kvs arbitrary: A k)
  case Nil
  then show ?case by (subst printenv_loop.simps) simp
next
  case (Cons kv kvs)
  obtain kk v where kv: "kv = (kk, v)" by fastforce
  have ok: "is_name kk" "nul_free v" "vars_ok kvs" using Cons.prems by (simp_all add: kv vars_ok_Cons)
  obtain c r where c: "entry (kk, v) = c # r" "c \<noteq> 0" using hd_entry_neq_0 ok(1) by blast
  have p: "print_entry (A @ entry kv @ 0 # ents kvs @ 0 # R) False (length A) [] =
      Some (entry kv @ [10], length (A @ entry kv @ [0]))"
    using print_entry_str [OF nul_free_entry [OF ok(1,2)], of "[]" A _ False] by (simp add: kv)
  have "printenv_loop ((A @ entry kv @ [0]) @ ents kvs @ 0 # R) ctrlc name 1 (length (A @ entry kv @ [0])) (k + 1)
      = Some (concat (map (\<lambda>kv. entry kv @ [10]) kvs), int (length (A @ entry kv @ [0]) + length (ents kvs)))"
    by (rule Cons.IH [OF ok(3)])
  moreover have "rd (A @ entry kv @ 0 # ents kvs @ 0 # R) (length A) = Some c" using c by (simp add: kv)
  ultimately show ?case using p c(2) assms(2) by (subst printenv_loop.simps) simp
qed

text \<open>Without an interruption, \<^verbatim>\<open>printenv\<close> of all variables prints every definition on a line of its own, in
  order and complete whatever its length, and returns the used size of the buffer.\<close>

theorem printenv_all:
  assumes "env_ok st kvs" and "\<forall>k. \<not> ctrlc k"
  shows "printenv st ctrlc name 1 =
    Some (concat (map (\<lambda>kv. entry kv @ [10]) kvs), int (length (ents kvs)))"
proof -
  from assms(1) have rep: "env_rep kvs (env_ptr_data st)" and a: "env_get_addr st = env_ptr_data st"
    by (simp_all add: env_ok_def env_get_addr_def)
  from rep obtain pad where "env_ptr_data st = ents kvs @ 0 # pad" "vars_ok kvs" by (rule env_repE)
  then show ?thesis using printenv_loop_all [OF _ assms(2), of kvs "[]" pad name 0]
    by (simp add: printenv_def a)
qed

theorem printenv_all_witness:
  "printenv (sample_state [(cs ''a'', cs ''b'')]) (\<lambda>_. False) [] 1 = Some (cs ''a=b'' @ [10], 4)"
  using printenv_all [OF sample_state_ok(1), of "[(cs ''a'', cs ''b'')]" "\<lambda>_. False" "[]"]
  by (simp add: vars_ok_def is_name_def entry_def cs_def)

text \<open>On an empty environment \<^verbatim>\<open>printenv\<close> of a name returns 0, the value that means success, although the
  variable is not defined.\<close>

theorem printenv_empty_reports_success:
  "env_ok st [] \<Longrightarrow> printenv st ctrlc name 2 = Some ([], 0) \<and> (is_name name \<longrightarrow> getenv_str st name = Some None)"
proof -
  assume ok: "env_ok st []"
  then have "env_rep [] (env_ptr_data st)" "env_get_addr st = env_ptr_data st"
    by (simp_all add: env_ok_def env_get_addr_def)
  moreover from this(1) obtain pad where "env_ptr_data st = 0 # pad" by (rule env_repE) simp
  ultimately have "printenv st ctrlc name 2 = Some ([], 0)"
    by (simp add: printenv_def printenv_loop.simps)
  then show ?thesis using getenv_map [OF ok] by simp
qed

theorem printenv_empty_witness:
  "printenv (sample_state []) (\<lambda>_. False) (cs ''x'') 2 = Some ([], 0)"
  using printenv_empty_reports_success [OF sample_state_ok(1)] by (simp add: vars_ok_def)

end
