(* ===== verification/Cmdline.thy ===== *)
theory Cmdline
  imports EnvProps
begin

text \<open>
  The command line of \<^verbatim>\<open>common/main.c\<close> (the simple parser) and the command table search of
  \<^verbatim>\<open>common/command.c\<close>: line input with its editing keys, splitting at semicolons, macro
  expansion, argument splitting, table lookup, \<^verbatim>\<open>run_command\<close> and the commands \<^verbatim>\<open>run\<close>, \<^verbatim>\<open>bootd\<close>, \<^verbatim>\<open>setenv\<close>
  and \<^verbatim>\<open>saveenv\<close> that work on the environment. Every other command is a parameter of the model.
\<close>

abbreviation (input) CONFIG_SYS_CBSIZE :: nat where "CONFIG_SYS_CBSIZE \<equiv> 256"
abbreviation (input) CONFIG_SYS_MAXARGS :: nat where "CONFIG_SYS_MAXARGS \<equiv> 16"

subsection \<open>Line input\<close>

definition erase_seq :: "byte list" where "erase_seq = [8, 32, 8]"
definition tab_seq :: "byte list" where "tab_seq = replicate 8 32"

text \<open>The bytes in the buffer before \<^verbatim>\<open>p\<close>, the counter \<^verbatim>\<open>n\<close>, the column, what was written to the terminal,
  and the byte at \<^verbatim>\<open>p\<close> that the last deletion left behind.\<close>

record rl =
  rl_line :: "byte list"
  rl_n :: nat
  rl_col :: nat
  rl_out :: "byte list"
  rl_at_p :: byte

primrec erase_to :: "nat \<Rightarrow> byte list" where
  "erase_to 0 = []"
| "erase_to (Suc k) = erase_seq @ erase_to k"

fun retype :: "byte list \<Rightarrow> nat \<Rightarrow> byte list \<times> nat" where
  "retype [] col = ([], col)"
| "retype (c # s) col =
     (if c = 9 then
        let (o', col') = retype s (col + (8 - col mod 8)) in (drop (col mod 8) tab_seq @ o', col')
      else let (o', col') = retype s (col + 1) in (c # o', col'))"

definition delete_char :: "nat \<Rightarrow> rl \<Rightarrow> rl" where
  "delete_char plen r =
     (if rl_n r = 0 then r
      else
        let c = last (rl_line r); line = butlast (rl_line r)
        in if c = 9 then
             let (o', col) = retype line (min plen (rl_col r))
             in r\<lparr>rl_line := line, rl_n := rl_n r - 1, rl_col := col,
                  rl_out := rl_out r @ erase_to (rl_col r - plen) @ o', rl_at_p := c\<rparr>
           else r\<lparr>rl_line := line, rl_n := rl_n r - 1, rl_col := rl_col r - 1,
                  rl_out := rl_out r @ erase_seq, rl_at_p := c\<rparr>)"

function delete_word :: "nat \<Rightarrow> rl \<Rightarrow> rl" where
  "delete_word plen r =
     (if rl_n r > 0 \<and> rl_at_p r \<noteq> 32 then delete_word plen (delete_char plen r) else r)"
  by pat_completeness auto
termination
  by (relation "measure (\<lambda>(plen, r). rl_n r)") (auto simp: delete_char_def Let_def split: prod.splits)

declare delete_word.simps [simp del]

datatype rl_result = Line "byte list" int | Blocked

definition rl_char :: "nat \<Rightarrow> byte \<Rightarrow> rl \<Rightarrow> rl" where
  "rl_char plen c r =
     (if c = 0 then r
      else if c = 0x15 then
        r\<lparr>rl_line := [], rl_n := 0, rl_col := min plen (rl_col r),
          rl_out := rl_out r @ erase_to (rl_col r - plen)\<rparr>
      else if c = 0x17 then delete_word plen (delete_char plen r)
      else if c = 0x08 \<or> c = 0x7F then delete_char plen r
      else if rl_n r < CONFIG_SYS_CBSIZE - 2 then
        let (e, col) = (if c = 9 then (drop (rl_col r mod 8) tab_seq, rl_col r + (8 - rl_col r mod 8))
                        else ([c], rl_col r + 1))
        in r\<lparr>rl_line := rl_line r @ [c], rl_n := rl_n r + 1, rl_col := col, rl_out := rl_out r @ e\<rparr>
      else r\<lparr>rl_out := rl_out r @ [7]\<rparr>)"

fun readline_loop :: "nat \<Rightarrow> byte list \<Rightarrow> rl \<Rightarrow> rl_result \<times> byte list \<times> byte list" where
  "readline_loop plen [] r = (Blocked, [], rl_out r)"
| "readline_loop plen (c # inp) r =
     (if c = 13 \<or> c = 10 then
        (Line (rl_line r) (int (length (rl_line r))), inp, rl_out r @ [13, 10])
      else if c = 3 then (Line [] (-1), inp, rl_out r)
      else readline_loop plen inp (rl_char plen c r))"

definition readline_into_buffer :: "cstr \<Rightarrow> byte list \<Rightarrow> rl_result \<times> byte list \<times> byte list" where
  "readline_into_buffer prompt inp =
     readline_loop (length prompt) inp
       \<lparr>rl_line = [], rl_n = 0, rl_col = length prompt, rl_out = prompt, rl_at_p = 0\<rparr>"

definition readline :: "cstr \<Rightarrow> byte list \<Rightarrow> rl_result \<times> byte list \<times> byte list" where
  "readline prompt inp = readline_into_buffer prompt inp"

subsection \<open>Arguments\<close>

abbreviation is_blank :: "byte \<Rightarrow> bool" where "is_blank c \<equiv> c = 32 \<or> c = 9"

text \<open>The arguments and whether the "too many args" message is printed.\<close>

function parse_args :: "nat \<Rightarrow> cstr \<Rightarrow> cstr list \<times> bool" where
  "parse_args nargs line =
     (if nargs < CONFIG_SYS_MAXARGS then
        let line = dropWhile is_blank line
        in if line = [] then ([], False)
           else
             let arg = takeWhile (\<lambda>c. \<not> is_blank c) line;
                 rest = dropWhile (\<lambda>c. \<not> is_blank c) line
             in if rest = [] then ([arg], False)
                else let (args, many) = parse_args (nargs + 1) (tl rest) in (arg # args, many)
      else ([], True))"
  by pat_completeness auto
termination by (relation "measure (\<lambda>(nargs, line). CONFIG_SYS_MAXARGS - nargs)") auto

declare parse_args.simps [simp del]

definition parse_line :: "cstr \<Rightarrow> cstr list \<times> bool" where
  "parse_line line = parse_args 0 line"

subsection \<open>Macros\<close>

text \<open>One character \<open>c\<close> (after the escape rule) in the state machine of \<^verbatim>\<open>process_macros\<close>; \<open>vs\<close> is the
  input at \<^verbatim>\<open>varname_start\<close>, \<open>out\<close> the output and \<open>cnt\<close> the space left.\<close>

record pm =
  pm_state :: nat
  pm_prev :: byte
  pm_vs :: cstr
  pm_out :: "byte list"
  pm_cnt :: nat

definition put_byte :: "byte \<Rightarrow> pm \<Rightarrow> pm" where
  "put_byte c s = s\<lparr>pm_out := pm_out s @ [c], pm_cnt := pm_cnt s - 1\<rparr>"

definition pm_char :: "(cstr \<Rightarrow> cstr option) \<Rightarrow> byte \<Rightarrow> cstr \<Rightarrow> pm \<Rightarrow> pm" where
  "pm_char getv c input s =
     (if pm_state s = 0 then
        if c = ch CHR 0x27 \<and> pm_prev s \<noteq> ch CHR 0x5C then s\<lparr>pm_state := 3\<rparr>
        else if c = ch CHR ''$'' \<and> pm_prev s \<noteq> ch CHR 0x5C then s\<lparr>pm_state := 1\<rparr>
        else put_byte c s
      else if pm_state s = 1 then
        if c = ch CHR ''('' \<or> c = ch CHR ''{'' then s\<lparr>pm_state := 2, pm_vs := input\<rparr>
        else
          let s = put_byte (ch CHR ''$'') (s\<lparr>pm_state := 0\<rparr>)
          in if pm_cnt s \<noteq> 0 then put_byte c s else s
      else if pm_state s = 2 then
        if c = ch CHR '')'' \<or> c = ch CHR ''}'' then
          let envname = take (length (pm_vs s) - length input - 1) (pm_vs s);
              s = (case getv envname of
                     None \<Rightarrow> s
                   | Some v \<Rightarrow> s\<lparr>pm_out := pm_out s @ take (pm_cnt s) v,
                                  pm_cnt := pm_cnt s - min (pm_cnt s) (length v)\<rparr>)
          in s\<lparr>pm_state := 0\<rparr>
        else s
      else
        if c = ch CHR 0x27 \<and> pm_prev s \<noteq> ch CHR 0x5C then s\<lparr>pm_state := 0\<rparr>
        else put_byte c s)"

fun pm_loop :: "(cstr \<Rightarrow> cstr option) \<Rightarrow> cstr \<Rightarrow> pm \<Rightarrow> pm" where
  "pm_loop getv [] s = s"
| "pm_loop getv (c # input) s =
     (if pm_cnt s = 0 then s
      else if pm_state s \<noteq> 3 \<and> c = ch CHR 0x5C \<and> pm_prev s \<noteq> ch CHR 0x5C then
        (case input of
           [] \<Rightarrow> s
         | c' # input' \<Rightarrow>
             pm_loop getv input' ((pm_char getv c' input' (s\<lparr>pm_prev := c\<rparr>))\<lparr>pm_prev := c'\<rparr>))
      else pm_loop getv input ((pm_char getv c input s)\<lparr>pm_prev := c\<rparr>))"

text \<open>The final NUL goes after the output, or over its last byte when the buffer is full.\<close>

definition process_macros :: "(cstr \<Rightarrow> cstr option) \<Rightarrow> cstr \<Rightarrow> cstr" where
  "process_macros getv input =
     (let s = pm_loop getv input
        \<lparr>pm_state = 0, pm_prev = 0, pm_vs = [], pm_out = [], pm_cnt = CONFIG_SYS_CBSIZE\<rparr>
      in if pm_cnt s \<noteq> 0 then pm_out s else butlast (pm_out s))"

subsection \<open>The command table\<close>

text \<open>The implementation of a command: the built-in ones by name, any other by its index.\<close>

datatype cmd_fn = DoBootd | DoRun | DoSetenv | DoSaveenv | DoOther nat

record cmd_tbl =
  cmd_name :: cstr
  maxargs :: nat
  cmd_repeatable :: bool
  cmd_impl :: cmd_fn

fun find_cmd_loop :: "cstr \<Rightarrow> nat \<Rightarrow> cmd_tbl list \<Rightarrow> cmd_tbl option \<Rightarrow> nat \<Rightarrow> cmd_tbl option" where
  "find_cmd_loop cmd len [] temp n_found = (if n_found = 1 then temp else None)"
| "find_cmd_loop cmd len (cmdtp # table) temp n_found =
     (if take len cmd = take len (cmd_name cmdtp) then
        if len = length (cmd_name cmdtp) then Some cmdtp
        else find_cmd_loop cmd len table (Some cmdtp) (n_found + 1)
      else find_cmd_loop cmd len table temp n_found)"

definition find_cmd :: "cmd_tbl list \<Rightarrow> cstr \<Rightarrow> cmd_tbl option" where
  "find_cmd table cmd =
     find_cmd_loop cmd (length (takeWhile (\<lambda>c. c \<noteq> ch CHR ''.'') cmd)) table None 0"

subsection \<open>Running commands\<close>

text \<open>The scan for the end of a command: \<open>prev\<close> is the byte before \<^verbatim>\<open>sep\<close>, \<open>first\<close> holds at the start of the
  string. The result is the token and, if a separator was found, what follows it.\<close>

fun split_sep :: "byte \<Rightarrow> bool \<Rightarrow> bool \<Rightarrow> cstr \<Rightarrow> cstr \<times> cstr option" where
  "split_sep prev inquotes first [] = ([], None)"
| "split_sep prev inquotes first (c # s) =
     (let inquotes = (if c = ch CHR 0x27 \<and> prev \<noteq> ch CHR 0x5C then \<not> inquotes else inquotes)
      in if \<not> inquotes \<and> c = ch CHR '';'' \<and> \<not> first \<and> prev \<noteq> ch CHR 0x5C then ([], Some s)
         else let (t, r) = split_sep c inquotes False s in (c # t, r))"

lemma split_sep_length:
  "split_sep prev q f s = (t, Some r) \<Longrightarrow> length r < length s"
  by (induction prev q f s arbitrary: t rule: split_sep.induct)
     (auto simp: Let_def split: if_splits prod.splits)

record shell =
  sh_env :: env_state
  sh_ctrlc :: bool

text \<open>The lookup of macro expansion. A fault of the scan, which cannot happen in a well-formed environment, reads as an undefined
  variable here.\<close>

definition sh_getenv :: "shell \<Rightarrow> cstr \<Rightarrow> cstr option" where
  "sh_getenv s name = (case getenv_str (sh_env s) name of Some r \<Rightarrow> r | None \<Rightarrow> None)"

abbreviation (input) CMD_FLAG_BOOTD :: u32 where "CMD_FLAG_BOOTD \<equiv> 2"

type_synonym call = "cmd_tbl \<Rightarrow> u32 \<Rightarrow> cstr list \<Rightarrow> shell \<Rightarrow> (int \<times> shell) option"

text \<open>One pass of the loop over the commands of a line up to the call: the rest of the line, and the
  command to call with its flag and arguments, or nothing when the pass ends with \<^verbatim>\<open>rc = -1\<close> (no command,
  unknown command, too many arguments for it, \<^verbatim>\<open>bootd\<close> inside \<^verbatim>\<open>bootd\<close>).\<close>

definition next_cmd ::
  "cmd_tbl list \<Rightarrow> byte \<Rightarrow> cstr \<Rightarrow> u32 \<Rightarrow> shell \<Rightarrow> cstr \<times> (cmd_tbl \<times> u32 \<times> cstr list) option" where
  "next_cmd table prev str flag s =
     (let (token, nxt) = split_sep prev False True str;
          str = (case nxt of None \<Rightarrow> [] | Some r \<Rightarrow> r);
          finaltoken = process_macros (sh_getenv s) token;
          argv = fst (parse_line finaltoken)
      in (str,
          if argv = [] then None
          else
            (case find_cmd table (hd argv) of
               None \<Rightarrow> None
             | Some cmdtp \<Rightarrow>
                 if length argv > maxargs cmdtp then None
                 else if cmd_impl cmdtp = DoBootd then
                   if flag AND CMD_FLAG_BOOTD \<noteq> 0 then None
                   else Some (cmdtp, flag OR CMD_FLAG_BOOTD, argv)
                 else Some (cmdtp, flag, argv))))"

lemma next_cmd_length: "next_cmd table prev str flag s = (str', sel) \<Longrightarrow> str \<noteq> [] \<Longrightarrow> length str' < length str"
  by (auto simp: next_cmd_def Let_def split: prod.splits option.splits dest: split_sep_length)

text \<open>The loop itself. \<open>call\<close> runs a command function; \<open>None\<close> means that it does not return.\<close>

function run_loop ::
  "call \<Rightarrow> cmd_tbl list \<Rightarrow> byte \<Rightarrow> cstr \<Rightarrow> u32 \<Rightarrow> int \<Rightarrow> bool \<Rightarrow> shell \<Rightarrow> (int \<times> shell) option" where
  "run_loop call table prev str flag rc repeatable s =
     (if str = [] then Some (if rc \<noteq> 0 then rc else if repeatable then 1 else 0, s)
      else
        (case next_cmd table prev str flag s of
           (str', None) \<Rightarrow> run_loop call table 0 str' flag (-1) repeatable s
         | (str', Some (cmdtp, flag', argv)) \<Rightarrow>
             (case call cmdtp flag' argv s of
                None \<Rightarrow> None
              | Some (r, s') \<Rightarrow>
                  if sh_ctrlc s' then Some (-1, s')
                  else run_loop call table 0 str' flag' (if r \<noteq> 0 then -1 else rc)
                         (repeatable \<and> cmd_repeatable cmdtp) s')))"
  by pat_completeness auto
termination
  by (relation "measure (\<lambda>(call, table, prev, str, _). length str)")
     (auto dest: next_cmd_length [OF sym])

declare run_loop.simps [simp del]

definition run_command ::
  "call \<Rightarrow> cmd_tbl list \<Rightarrow> byte \<Rightarrow> cstr option \<Rightarrow> u32 \<Rightarrow> shell \<Rightarrow> (int \<times> shell) option" where
  "run_command call table before cmd flag s =
     (let s = s\<lparr>sh_ctrlc := False\<rparr>
      in case cmd of
           None \<Rightarrow> Some (-1, s)
         | Some cmd \<Rightarrow>
             if cmd = [] then Some (-1, s)
             else if length cmd \<ge> CONFIG_SYS_CBSIZE then Some (-1, s)
             else run_loop call table before cmd flag 0 True s)"

fun do_run_loop ::
  "(cstr option \<Rightarrow> u32 \<Rightarrow> shell \<Rightarrow> (int \<times> shell) option) \<Rightarrow> u32 \<Rightarrow> cstr list \<Rightarrow> shell \<Rightarrow> (int \<times> shell) option"
where
  "do_run_loop runc flag [] s = Some (0, s)"
| "do_run_loop runc flag (name # names) s =
     (case getenv_str (sh_env s) name of
        None \<Rightarrow> None
      | Some None \<Rightarrow> Some (1, s)
      | Some (Some arg) \<Rightarrow>
          (case runc (Some arg) flag s of
             None \<Rightarrow> None
           | Some (r, s) \<Rightarrow> if r = -1 then Some (1, s) else do_run_loop runc flag names s))"

definition do_run ::
  "(cstr option \<Rightarrow> u32 \<Rightarrow> shell \<Rightarrow> (int \<times> shell) option) \<Rightarrow> u32 \<Rightarrow> cstr list \<Rightarrow> shell \<Rightarrow> (int \<times> shell) option"
where
  "do_run runc flag argv s = (if length argv < 2 then Some (1, s) else do_run_loop runc flag (tl argv) s)"

definition do_bootd ::
  "(cstr option \<Rightarrow> u32 \<Rightarrow> shell \<Rightarrow> (int \<times> shell) option) \<Rightarrow> u32 \<Rightarrow> shell \<Rightarrow> (int \<times> shell) option" where
  "do_bootd runc flag s =
     Option.bind (getenv_str (sh_env s) (cs ''bootcmd''))
       (\<lambda>cmd. map_option (\<lambda>(r, s). (if r < 0 then 1 else 0, s)) (runc cmd flag s))"

definition do_saveenv :: "env_state \<Rightarrow> int \<times> env_state" where
  "do_saveenv st = (let (r, st) = saveenv st in (if r \<noteq> 0 then 1 else 0, st))"

text \<open>The command functions. \<open>ext\<close> stands for the commands that are not modelled; the first argument bounds the
  nesting of \<^verbatim>\<open>run\<close> and \<^verbatim>\<open>bootd\<close>.\<close>

fun exec_cmd ::
  "(nat \<Rightarrow> u32 \<Rightarrow> cstr list \<Rightarrow> shell \<Rightarrow> int \<times> shell) \<Rightarrow> cmd_tbl list \<Rightarrow> byte \<Rightarrow> nat \<Rightarrow> call" where
  "exec_cmd ext table before 0 cmdtp flag argv s = None"
| "exec_cmd ext table before (Suc depth) cmdtp flag argv s =
     (case cmd_impl cmdtp of
        DoBootd \<Rightarrow> do_bootd (run_command (exec_cmd ext table before depth) table before) flag s
      | DoRun \<Rightarrow> do_run (run_command (exec_cmd ext table before depth) table before) flag argv s
      | DoSetenv \<Rightarrow> map_option (\<lambda>(r, e). (r, s\<lparr>sh_env := e\<rparr>)) (do_setenv argv (sh_env s))
      | DoSaveenv \<Rightarrow> (let (r, e) = do_saveenv (sh_env s) in Some (r, s\<lparr>sh_env := e\<rparr>))
      | DoOther i \<Rightarrow> Some (ext i flag argv s))"

definition shell_run ::
  "(nat \<Rightarrow> u32 \<Rightarrow> cstr list \<Rightarrow> shell \<Rightarrow> int \<times> shell) \<Rightarrow> cmd_tbl list \<Rightarrow> byte \<Rightarrow> nat \<Rightarrow>
     cstr option \<Rightarrow> u32 \<Rightarrow> shell \<Rightarrow> (int \<times> shell) option" where
  "shell_run ext table before depth = run_command (exec_cmd ext table before depth) table before"

end
