(* ===== verification/CmdlineProps.thy ===== *)
theory CmdlineProps
  imports Cmdline
begin

text \<open>
  What the command line promises: bounded line input, arguments as blank-separated words, macro
  expansion as substitution, the meaning of abbreviated command names, and the behaviour of
  \<^verbatim>\<open>run_command\<close> on whole lines, nesting included.
\<close>

subsection \<open>Line input stays in its buffer\<close>

definition rl_ok :: "rl \<Rightarrow> bool" where
  "rl_ok r \<longleftrightarrow> rl_n r = length (rl_line r) \<and> rl_n r \<le> CONFIG_SYS_CBSIZE - 2 \<and> nul_free (rl_line r)"

lemma nul_free_butlast: "nul_free s \<Longrightarrow> nul_free (butlast s)"
  by (auto simp: nul_free_def dest: in_set_butlastD)

lemma rl_ok_delete_char: "rl_ok r \<Longrightarrow> rl_ok (delete_char plen r)"
  by (auto simp: rl_ok_def delete_char_def Let_def nul_free_butlast split: prod.splits)

lemma rl_ok_delete_word: "rl_ok r \<Longrightarrow> rl_ok (delete_word plen r)"
proof (induction plen r rule: delete_word.induct)
  case (1 plen r)
  then show ?case by (subst delete_word.simps) (auto intro: rl_ok_delete_char)
qed

lemma rl_ok_char: "rl_ok r \<Longrightarrow> rl_ok (rl_char plen c r)"
  using rl_ok_delete_char [of r plen] rl_ok_delete_word [of "delete_char plen r" plen]
  by (auto simp: rl_char_def) (auto simp: rl_ok_def Let_def split: prod.splits)

lemma readline_loop_ok:
  "rl_ok r \<Longrightarrow> readline_loop plen inp r = (Line l n, rest, tx) \<Longrightarrow>
     length l \<le> CONFIG_SYS_CBSIZE - 2 \<and> nul_free l \<and> (n = int (length l) \<or> n = -1 \<and> l = [])"
proof (induction plen inp r rule: readline_loop.induct)
  case (2 plen c inp r)
  then show ?case using rl_ok_char [of r plen c]
    by (auto simp: rl_ok_def split: if_splits)
qed simp

text \<open>C40: whatever is typed, the line returned by \<^verbatim>\<open>readline\<close> fits the console buffer with its NUL, contains no
  NUL, and the result is its length or, after Control-C, -1 with an empty line.\<close>

theorem readline_bounded:
  assumes "readline prompt inp = (Line l n, rest, tx)"
  shows "length l + 1 < CONFIG_SYS_CBSIZE \<and> nul_free l \<and> (n = int (length l) \<or> n = -1 \<and> l = [])"
  using readline_loop_ok [of "\<lparr>rl_line = [], rl_n = 0, rl_col = length prompt, rl_out = prompt, rl_at_p = 0\<rparr>"
      "length prompt" inp l n rest tx] assms
  by (auto simp: readline_def readline_into_buffer_def rl_ok_def)

theorem readline_bounded_witness:
  "readline (cs ''=> '') (cs ''a'' @ [13]) = (Line (cs ''a'') 1, [], cs ''=> a'' @ [13, 10]) \<and>
     length (cs ''a'') + 1 < CONFIG_SYS_CBSIZE"
proof -
  have r: "readline (cs ''=> '') (cs ''a'' @ [13]) = (Line (cs ''a'') 1, [], cs ''=> a'' @ [13, 10])"
    by (simp add: readline_def readline_into_buffer_def rl_char_def cs_def Let_def)
  from readline_bounded [OF r] r show ?thesis by blast
qed

lemma readline_plain_loop:
  "\<forall>c \<in> set s. 32 \<le> c \<and> c \<noteq> 0x7F \<Longrightarrow> rl_n r = length (rl_line r) \<Longrightarrow> rl_n r \<le> 254 \<Longrightarrow>
     \<exists>tx. readline_loop plen (s @ 13 # rest) r =
       (Line (take 254 (rl_line r @ s)) (int (length (take 254 (rl_line r @ s)))), rest, tx)"
proof (induction s arbitrary: r)
  case Nil
  then show ?case by simp
next
  case (Cons c s)
  have "c \<noteq> 13" "c \<noteq> 10" "c \<noteq> 3" "c \<noteq> 0" "c \<noteq> 0x15" "c \<noteq> 0x17" "c \<noteq> 8" "c \<noteq> 0x7F" "c \<noteq> 9"
    using Cons.prems(1) by auto
  then have step: "readline_loop plen ((c # s) @ 13 # rest) r = readline_loop plen (s @ 13 # rest) (rl_char plen c r)"
    and r: "rl_char plen c r = (if rl_n r < 254
      then r\<lparr>rl_line := rl_line r @ [c], rl_n := rl_n r + 1, rl_col := rl_col r + 1, rl_out := rl_out r @ [c]\<rparr>
      else r\<lparr>rl_out := rl_out r @ [7]\<rparr>)"
    by (simp_all add: rl_char_def)
  let ?r = "rl_char plen c r"
  have n: "rl_n ?r = length (rl_line ?r)" "rl_n ?r \<le> 254"
    "take 254 (rl_line ?r @ s) = take 254 (rl_line r @ c # s)"
    using Cons.prems(2,3) by (cases "rl_n r < 254"; simp add: r)+
  from Cons.IH [OF _ n(1,2)] Cons.prems(1) show ?case unfolding step n(3) by simp
qed

text \<open>A line of ordinary characters ended by ENTER is returned as typed, cut at 254 characters.\<close>

theorem readline_plain:
  assumes "\<forall>c \<in> set s. 32 \<le> c \<and> c \<noteq> 0x7F"
  shows "\<exists>tx. readline prompt (s @ 13 # rest) = (Line (take 254 s) (int (min 254 (length s))), rest, tx)"
  using readline_plain_loop [OF assms, of
      "\<lparr>rl_line = [], rl_n = 0, rl_col = length prompt, rl_out = prompt, rl_at_p = 0\<rparr>" "length prompt" rest]
  by (simp add: readline_def readline_into_buffer_def min.commute)

theorem readline_plain_witness:
  "\<exists>tx. readline (cs ''=> '') (cs ''boot'' @ 13 # [65]) = (Line (cs ''boot'') 4, [65], tx)"
  using readline_plain [of "cs ''boot''" "cs ''=> ''" "[65]"] by (simp add: cs_def)

subsection \<open>Arguments are the words of the line\<close>

text \<open>A line as blanks and words in turn.\<close>

definition lay :: "(byte list \<times> cstr) list \<Rightarrow> byte list" where
  "lay ps = concat (map (\<lambda>p. fst p @ snd p) ps)"

definition word :: "cstr \<Rightarrow> bool" where
  "word w \<longleftrightarrow> w \<noteq> [] \<and> (\<forall>c \<in> set w. \<not> is_blank c)"

definition blanks :: "byte list \<Rightarrow> bool" where
  "blanks b \<longleftrightarrow> (\<forall>c \<in> set b. is_blank c)"

definition lay_ok :: "(byte list \<times> cstr) list \<Rightarrow> bool" where
  "lay_ok ps \<longleftrightarrow> (\<forall>p \<in> set ps. blanks (fst p) \<and> word (snd p)) \<and> (\<forall>p \<in> set (tl ps). fst p \<noteq> [])"

lemma dropWhile_blanks: "blanks b \<Longrightarrow> dropWhile is_blank (b @ s) = dropWhile is_blank s"
  by (simp add: blanks_def dropWhile_append2)

lemma word_scan:
  assumes "word w" "s = [] \<or> is_blank (hd s)"
  shows "dropWhile is_blank (w @ s) = w @ s" "takeWhile (\<lambda>c. \<not> is_blank c) (w @ s) = w"
    "dropWhile (\<lambda>c. \<not> is_blank c) (w @ s) = s"
proof -
  have w: "\<forall>c \<in> set w. \<not> is_blank c" using assms(1) by (simp add: word_def)
  show "dropWhile is_blank (w @ s) = w @ s" using assms(1) by (cases w) (auto simp: word_def)
  show "takeWhile (\<lambda>c. \<not> is_blank c) (w @ s) = w"
    using w assms(2) by (subst takeWhile_append2) (auto simp: takeWhile_eq_Nil_iff)
  show "dropWhile (\<lambda>c. \<not> is_blank c) (w @ s) = s"
    using w assms(2) by (subst dropWhile_append2) (auto simp: dropWhile_eq_self_iff)
qed

lemma lay_ok_Cons:
  "lay_ok ((b, w) # ps) \<Longrightarrow> blanks b \<and> word w \<and> lay_ok ps \<and> (ps = [] \<or> fst (hd ps) \<noteq> [])"
  by (cases ps) (auto simp: lay_ok_def)

lemma lay_Cons: "lay (p # ps) = fst p @ snd p @ lay ps"
  by (simp add: lay_def)

lemma lay_rest:
  assumes "lay_ok ps" "ps = [] \<or> fst (hd ps) \<noteq> []" "blanks t"
  shows "lay ps @ t = [] \<or> is_blank (hd (lay ps @ t))"
proof (cases ps)
  case Nil
  then show ?thesis using assms(3) by (cases t) (auto simp: lay_def blanks_def)
next
  case (Cons q qs)
  then have "fst q \<noteq> []" "blanks (fst q)" using assms(1,2) by (auto simp: lay_ok_def)
  then show ?thesis by (cases "fst q") (auto simp: lay_Cons blanks_def Cons)
qed

lemma parse_args_step:
  assumes "lay_ok ((b, w) # ps)" "blanks t"
  shows "parse_args n (lay ((b, w) # ps) @ t) =
    (if n < 16 then if lay ps @ t = [] then ([w], False)
       else let (args, many) = parse_args (n + 1) (tl (lay ps @ t)) in (w # args, many)
     else ([], True))"
proof -
  have b: "blanks b" and w: "word w" and rest: "lay ps @ t = [] \<or> is_blank (hd (lay ps @ t))"
    using lay_ok_Cons [OF assms(1)] lay_rest assms(2) by blast+
  have lay: "lay ((b, w) # ps) @ t = b @ w @ lay ps @ t" by (simp add: lay_Cons)
  show ?thesis
    unfolding lay parse_args.simps [of n "b @ w @ lay ps @ t"] Let_def dropWhile_blanks [OF b]
      word_scan [OF w rest]
    using w by (simp only: word_def append_is_Nil_conv simp_thms if_False)
qed

lemma lay_tail:
  assumes "lay_ok ps" "ps = [] \<or> fst (hd ps) \<noteq> []" "blanks t" "lay ps @ t \<noteq> []"
  obtains ps' t' where "tl (lay ps @ t) = lay ps' @ t'" "lay_ok ps'" "blanks t'"
    "map snd ps' = map snd ps" "if ps = [] then t \<noteq> [] else t' = t"
proof (cases ps)
  case Nil
  have "blanks (tl t)" using assms(3) by (cases t) (auto simp: blanks_def)
  then show ?thesis using that [of "[]" "tl t"] assms(4) by (simp add: Nil lay_def lay_ok_def)
next
  case (Cons q qs)
  obtain c b w where q: "q = (c # b, w)" using assms(2) by (cases q, cases "fst q") (auto simp: Cons)
  show ?thesis
    by (rule that [of "(b, w) # qs" t])
       (use assms in \<open>auto simp: Cons q lay_Cons lay_ok_def blanks_def\<close>)
qed

lemma parse_args_lay:
  assumes "lay_ok ps" "blanks t" "n \<le> 16"
  shows "parse_args n (lay ps @ t) =
    (take (16 - n) (map snd ps), 16 < n + length ps \<or> n + length ps = 16 \<and> (ps = [] \<or> t \<noteq> []))"
  using assms
proof (induction "length ps" arbitrary: ps n t)
  case 0
  have "dropWhile is_blank t = []" using "0.prems"(2) by (simp add: blanks_def dropWhile_eq_Nil_conv)
  then show ?case using 0 by (subst parse_args.simps) (auto simp: lay_def)
next
  case (Suc k)
  then obtain b w qs where ps: "ps = (b, w) # qs" by (cases ps) auto
  have qs: "lay_ok qs" "qs = [] \<or> fst (hd qs) \<noteq> []" using lay_ok_Cons Suc.prems(1) ps by blast+
  note step = parse_args_step [OF Suc.prems(1) [unfolded ps] Suc.prems(2), of n]
  show ?case
  proof (cases "n < 16 \<and> lay qs @ t \<noteq> []")
    case False
    have "lay qs = [] \<longrightarrow> qs = []" using qs(1) by (cases qs) (auto simp: lay_Cons lay_ok_def word_def)
    then show ?thesis using Suc.prems(3) False unfolding ps step by auto
  next
    case True
    obtain ps' t' where h: "tl (lay qs @ t) = lay ps' @ t'" "lay_ok ps'" "blanks t'"
      "map snd ps' = map snd qs" "if qs = [] then t \<noteq> [] else t' = t"
      using lay_tail [OF qs Suc.prems(2)] True by blast
    have len: "length ps' = length qs" using h(4) by (metis length_map)
    have "parse_args (n + 1) (tl (lay qs @ t)) =
      (take (16 - (n + 1)) (map snd qs), 16 < n + 1 + length qs \<or> n + 1 + length qs = 16 \<and> (ps' = [] \<or> t' \<noteq> []))"
      using Suc.hyps(1) [OF _ h(2,3), of "n + 1"] Suc.hyps(2) True len h(4) by (simp add: h(1) ps)
    moreover have "(ps' = []) = (qs = [])" using len by auto
    moreover have "16 - n = Suc (16 - (n + 1))" using conjunct1 [OF True] by linarith
    ultimately show ?thesis using True h(5) unfolding ps step by (auto split: if_splits)
  qed
qed

text \<open>The arguments of a line are its blank-separated words in order, up to 16; the message about too many
  arguments appears for more than 16 words, and for 16 words followed by a blank.\<close>

theorem parse_line_words:
  assumes "lay_ok ps" and "blanks t"
  shows "parse_line (lay ps @ t) =
    (take 16 (map snd ps), 16 < length ps \<or> length ps = 16 \<and> t \<noteq> [])"
  using parse_args_lay [OF assms, of 0] by (auto simp: parse_line_def)

theorem parse_line_words_witness:
  "parse_line (cs ''  md  100 '') = ([cs ''md'', cs ''100''], False)"
  using parse_line_words [of "[(cs ''  '', cs ''md''), (cs ''  '', cs ''100'')]" "cs '' ''"]
  by (simp add: lay_ok_def lay_def blanks_def word_def cs_def)

subsection \<open>Macro expansion is substitution\<close>

datatype seg = Chr byte | Var cstr

fun render :: "seg list \<Rightarrow> cstr" where
  "render [] = []"
| "render (Chr c # ss) = c # render ss"
| "render (Var n # ss) = ch CHR ''$'' # ch CHR ''{'' # n @ ch CHR ''}'' # render ss"

fun expand :: "(cstr \<Rightarrow> cstr option) \<Rightarrow> seg list \<Rightarrow> cstr" where
  "expand getv [] = []"
| "expand getv (Chr c # ss) = c # expand getv ss"
| "expand getv (Var n # ss) = (case getv n of None \<Rightarrow> [] | Some v \<Rightarrow> v) @ expand getv ss"

definition plain_char :: "byte \<Rightarrow> bool" where
  "plain_char c \<longleftrightarrow> c \<noteq> 0x27 \<and> c \<noteq> 0x5C \<and> c \<noteq> 0x24"

definition name_char :: "byte \<Rightarrow> bool" where
  "name_char c \<longleftrightarrow> c \<noteq> 0x29 \<and> c \<noteq> 0x7D \<and> c \<noteq> 0x5C"

fun seg_ok :: "seg \<Rightarrow> bool" where
  "seg_ok (Chr c) = plain_char c"
| "seg_ok (Var n) = (\<forall>c \<in> set n. name_char c)"

definition pm_ok :: "pm \<Rightarrow> bool" where
  "pm_ok s \<longleftrightarrow> pm_state s = 0 \<and> pm_prev s \<noteq> 0x5C \<and> length (pm_out s) \<le> CONFIG_SYS_CBSIZE
     \<and> pm_cnt s = CONFIG_SYS_CBSIZE - length (pm_out s)"

lemma pm_step_chr:
  assumes "pm_ok s" "plain_char c" "pm_cnt s \<noteq> 0"
  shows "\<exists>s'. pm_loop getv (c # rest) s = pm_loop getv rest s' \<and> pm_ok s' \<and> pm_out s' = pm_out s @ [c]"
proof -
  let ?s = "(put_byte c s)\<lparr>pm_prev := c\<rparr>"
  have "pm_loop getv (c # rest) s = pm_loop getv rest ?s"
    using assms by (simp add: pm_ok_def plain_char_def pm_char_def)
  moreover have "pm_ok ?s" using assms by (auto simp: pm_ok_def put_byte_def plain_char_def)
  ultimately show ?thesis by (intro exI [of _ ?s]) (simp add: put_byte_def)
qed

lemma pm_name:
  "\<forall>c \<in> set n. name_char c \<Longrightarrow> pm_state s = 2 \<Longrightarrow> pm_cnt s \<noteq> 0 \<Longrightarrow>
     \<exists>p. pm_loop getv (n @ rest) s = pm_loop getv rest (s\<lparr>pm_prev := p\<rparr>) \<and> (n = [] \<longrightarrow> p = pm_prev s)"
proof (induction n arbitrary: s)
  case Nil
  show ?case by (rule exI [of _ "pm_prev s"]) simp
next
  case (Cons c n)
  have "pm_loop getv ((c # n) @ rest) s = pm_loop getv (n @ rest) (s\<lparr>pm_prev := c\<rparr>)"
    using Cons.prems by (simp add: name_char_def pm_char_def)
  with Cons.IH [of "s\<lparr>pm_prev := c\<rparr>"] Cons.prems show ?case by auto
qed

lemma pm_step_var:
  assumes "pm_ok s" "\<forall>c \<in> set n. name_char c" "pm_cnt s \<noteq> 0"
  shows "\<exists>s'. pm_loop getv (ch CHR ''$'' # ch CHR ''{'' # n @ ch CHR ''}'' # rest) s = pm_loop getv rest s'
    \<and> pm_ok s'
    \<and> pm_out s' = take CONFIG_SYS_CBSIZE (pm_out s @ (case getv n of None \<Rightarrow> [] | Some v \<Rightarrow> v))"
proof -
  let ?in = "n @ ch CHR ''}'' # rest"
  let ?s2 = "s\<lparr>pm_state := 2, pm_vs := ?in, pm_prev := ch CHR ''{''\<rparr>"
  have a: "pm_loop getv (ch CHR ''$'' # ch CHR ''{'' # ?in) s = pm_loop getv ?in ?s2"
    using assms(1,3) by (simp add: pm_ok_def pm_char_def)
  obtain p where b: "pm_loop getv ?in ?s2 = pm_loop getv (ch CHR ''}'' # rest) (?s2\<lparr>pm_prev := p\<rparr>)"
    using pm_name [OF assms(2), of ?s2 getv "ch CHR ''}'' # rest"] assms(3) by auto
  let ?v = "case getv n of None \<Rightarrow> [] | Some v \<Rightarrow> v"
  let ?s' = "s\<lparr>pm_state := 0, pm_vs := ?in, pm_prev := ch CHR ''}'', pm_out := pm_out s @ take (pm_cnt s) ?v,
    pm_cnt := pm_cnt s - min (pm_cnt s) (length ?v)\<rparr>"
  have "take (length ?in - length rest - 1) ?in = n" by simp
  then have c: "pm_loop getv (ch CHR ''}'' # rest) (?s2\<lparr>pm_prev := p\<rparr>) = pm_loop getv rest ?s'"
    using assms(3) by (cases s) (simp add: pm_char_def Let_def split: option.split)
  have "pm_ok ?s'" using assms(1) by (auto simp: pm_ok_def)
  moreover have "pm_out ?s' = take CONFIG_SYS_CBSIZE (pm_out s @ ?v)"
    using assms(1) by (simp add: pm_ok_def)
  ultimately show ?thesis using a b c by metis
qed

lemma pm_loop_render:
  assumes "\<forall>x \<in> set ss. seg_ok x" "pm_ok s"
  shows "pm_out (pm_loop getv (render ss) s) = take CONFIG_SYS_CBSIZE (pm_out s @ expand getv ss)
    \<and> pm_cnt (pm_loop getv (render ss) s)
        = CONFIG_SYS_CBSIZE - length (pm_out (pm_loop getv (render ss) s))"
  using assms
proof (induction ss arbitrary: s rule: render.induct)
  case 1
  then show ?case by (auto simp: pm_ok_def)
next
  case (2 c ss)
  show ?case
  proof (cases "pm_cnt s = 0")
    case True
    then show ?thesis using "2.prems"(2) by (auto simp: pm_ok_def)
  next
    case False
    obtain s' where s': "pm_loop getv (c # render ss) s = pm_loop getv (render ss) s'" "pm_ok s'"
      "pm_out s' = pm_out s @ [c]" using pm_step_chr [OF "2.prems"(2) _ False] "2.prems"(1) by fastforce
    with "2.IH" [OF _ s'(2)] "2.prems"(1) show ?thesis by simp
  qed
next
  case (3 n ss)
  show ?case
  proof (cases "pm_cnt s = 0")
    case True
    then show ?thesis using "3.prems"(2) by (auto simp: pm_ok_def)
  next
    case False
    let ?v = "case getv n of None \<Rightarrow> [] | Some v \<Rightarrow> v"
    obtain s' where s': "pm_loop getv (render (Var n # ss)) s = pm_loop getv (render ss) s'" "pm_ok s'"
      "pm_out s' = take CONFIG_SYS_CBSIZE (pm_out s @ ?v)"
      using pm_step_var [OF "3.prems"(2) _ False, of n getv "render ss"] "3.prems"(1) by auto
    have "take CONFIG_SYS_CBSIZE (pm_out s' @ expand getv ss)
        = take CONFIG_SYS_CBSIZE (pm_out s @ expand getv (Var n # ss))"
      by (simp add: s'(3)) (simp add: take_append min_def)
    with "3.IH" [OF _ s'(2)] "3.prems"(1) show ?thesis by (simp only: s'(1)) simp
  qed
qed

lemma process_macros_render:
  assumes "\<forall>x \<in> set ss. seg_ok x"
  shows "process_macros getv (render ss) = take 255 (expand getv ss)"
proof -
  let ?s = "pm_loop getv (render ss)
    \<lparr>pm_state = 0, pm_prev = 0, pm_vs = [], pm_out = [], pm_cnt = CONFIG_SYS_CBSIZE\<rparr>"
  have "pm_out ?s = take 256 (expand getv ss)" "pm_cnt ?s = 256 - length (pm_out ?s)"
    using pm_loop_render [OF assms, of "\<lparr>pm_state = 0, pm_prev = 0, pm_vs = [], pm_out = [],
        pm_cnt = CONFIG_SYS_CBSIZE\<rparr>" getv] by (simp_all add: pm_ok_def)
  then show ?thesis
    by (cases "length (expand getv ss) < 256") (simp_all add: process_macros_def Let_def butlast_take)
qed

text \<open>C39: macro expansion replaces every \<^verbatim>\<open>${name}\<close> by the value of the variable (nothing if it is undefined),
  keeps the other characters, and cuts the result so that it fits the 256-byte buffer with its NUL.\<close>

theorem process_macros_expands:
  assumes "\<forall>x \<in> set ss. seg_ok x"
  shows "process_macros getv (render ss) = take 255 (expand getv ss)"
  by (rule process_macros_render [OF assms])

theorem process_macros_expands_witness:
  "process_macros [cs ''ip'' \<mapsto> cs ''10.0.0.1''] (cs ''a=${ip}:'') = cs ''a=10.0.0.1:''"
  using process_macros_expands [of "[Chr (ch CHR ''a''), Chr (ch CHR ''=''), Var (cs ''ip''), Chr (ch CHR '':'')]"
      "[cs ''ip'' \<mapsto> cs ''10.0.0.1'']"]
  by (simp add: plain_char_def name_char_def cs_def)

subsection \<open>Command names and their abbreviations\<close>

definition abbr :: "cstr \<Rightarrow> cmd_tbl \<Rightarrow> bool" where
  "abbr n c \<longleftrightarrow> take (length n) (cmd_name c) = n"

lemma find_cmd_loop_spec:
  assumes n: "take len cmd = n" "length n = len" and temp: "n_found = 1 \<longrightarrow> temp \<noteq> None"
  shows "find_cmd_loop cmd len table temp n_found =
    (case List.find (\<lambda>c. cmd_name c = n) table of
       Some c \<Rightarrow> Some c
     | None \<Rightarrow>
         (case filter (abbr n) table of
            [] \<Rightarrow> if n_found = 1 then temp else None
          | cs' \<Rightarrow> if n_found + length cs' = 1 then Some (last cs') else None))"
  using temp
proof (induction table arbitrary: temp n_found)
  case (Cons c table)
  have e: "take len cmd = take len (cmd_name c) \<longleftrightarrow> abbr n c" using n by (auto simp: abbr_def)
  have f: "abbr n c \<Longrightarrow> len = length (cmd_name c) \<longleftrightarrow> cmd_name c = n" using n by (auto simp: abbr_def)
  have g: "cmd_name c = n \<Longrightarrow> abbr n c" using n by (simp add: abbr_def)
  show ?case
  proof (cases "abbr n c \<and> cmd_name c \<noteq> n")
    case True
    then show ?thesis using Cons.IH [of "Suc n_found" "Some c"] e f
      by (auto split: option.splits list.splits)
  next
    case False
    then show ?thesis using Cons e f g by (auto split: option.splits list.splits)
  qed
qed simp

text \<open>A command word, cut at its first dot, selects the first table entry with exactly that name; failing
  that, the entry it abbreviates if there is exactly one; otherwise nothing.\<close>

theorem find_cmd_meaning:
  "find_cmd table cmd =
    (let n = takeWhile (\<lambda>c. c \<noteq> ch CHR ''.'') cmd
     in case List.find (\<lambda>c. cmd_name c = n) table of
          Some c \<Rightarrow> Some c
        | None \<Rightarrow> (case filter (abbr n) table of [c] \<Rightarrow> Some c | _ \<Rightarrow> None))"
proof -
  let ?n = "takeWhile (\<lambda>c. c \<noteq> ch CHR ''.'') cmd"
  have "take (length ?n) cmd = ?n" by (rule takeWhile_eq_take [symmetric])
  from find_cmd_loop_spec [OF this refl, of 0 None table] show ?thesis
    by (auto simp: find_cmd_def Let_def split: option.splits list.splits)
qed

subsection \<open>Lines without separators, quotes and macros\<close>

lemma split_sep_plain:
  "\<forall>c \<in> set l. c \<noteq> ch CHR '';'' \<and> c \<noteq> ch CHR 0x27 \<Longrightarrow> split_sep prev False first l = (l, None)"
  by (induction l arbitrary: prev first) (simp_all add: Let_def)

lemma render_chr: "render (map Chr l) = l" "expand getv (map Chr l) = l"
  by (induction l) simp_all

lemma process_macros_plain:
  "\<forall>c \<in> set l. plain_char c \<Longrightarrow> length l < 256 \<Longrightarrow> process_macros getv l = l"
  using process_macros_render [of "map Chr l" getv] by (simp add: render_chr)

definition plain_line :: "cstr \<Rightarrow> bool" where
  "plain_line l \<longleftrightarrow> l \<noteq> [] \<and> length l < 256 \<and> (\<forall>c \<in> set l. plain_char c \<and> c \<noteq> ch CHR '';'')"

lemma run_command_plain:
  assumes "plain_line l" "fst (parse_line l) = argv" "argv \<noteq> []" "find_cmd table (hd argv) = Some c"
    "length argv \<le> maxargs c" "cmd_impl c \<noteq> DoBootd"
  shows "run_command call table before (Some l) flag s =
    (case call c flag argv (s\<lparr>sh_ctrlc := False\<rparr>) of
       None \<Rightarrow> None
     | Some (r, s') \<Rightarrow>
         Some (if sh_ctrlc s' \<or> r \<noteq> 0 then -1 else if cmd_repeatable c then 1 else 0, s'))"
proof -
  have l: "l \<noteq> []" "length l < 256" "\<forall>c \<in> set l. c \<noteq> ch CHR '';'' \<and> c \<noteq> ch CHR 0x27"
    "\<forall>c \<in> set l. plain_char c"
    using assms(1) by (auto simp: plain_line_def plain_char_def)
  have nil: "run_loop call table 0 [] flag rc rep s = Some (if rc \<noteq> 0 then rc else if rep then 1 else 0, s)"
    for rc rep s by (simp add: run_loop.simps)
  let ?s = "s\<lparr>sh_ctrlc := False\<rparr>"
  have "run_command call table before (Some l) flag s = run_loop call table before l flag 0 True ?s"
    using l(1,2) by (simp add: run_command_def Let_def)
  also have "next_cmd table before l flag ?s = ([], Some (c, flag, argv))"
    using assms(2-6) split_sep_plain [OF l(3)] process_macros_plain [OF l(4,2)]
    by (simp add: next_cmd_def Let_def)
  then have "run_loop call table before l flag 0 True ?s = (case call c flag argv ?s of None \<Rightarrow> None
      | Some (r, s') \<Rightarrow> if sh_ctrlc s' then Some (-1, s')
          else run_loop call table 0 [] flag (if r \<noteq> 0 then -1 else 0) (True \<and> cmd_repeatable c) s')"
    using l(1) by (subst run_loop.simps) simp
  finally show ?thesis by (auto simp: nil split: option.splits)
qed

subsection \<open>Nesting\<close>

text \<open>A command runner that returns whenever another one does, with the same result.\<close>

definition call_le :: "call \<Rightarrow> call \<Rightarrow> bool" where
  "call_le f g \<longleftrightarrow> (\<forall>c flag argv s r. f c flag argv s = Some r \<longrightarrow> g c flag argv s = Some r)"

lemma run_loop_mono:
  assumes "call_le f g"
  shows "run_loop f table prev str flag rc rep s = Some r \<Longrightarrow> run_loop g table prev str flag rc rep s = Some r"
  using assms
proof (induction f table prev str flag rc rep s rule: run_loop.induct)
  case (1 f table prev str flag rc rep s)
  show ?case
  proof (cases "str = []")
    case True
    then show ?thesis using "1.prems"(1) by (simp add: run_loop.simps)
  next
    case False
    obtain str' sel where n: "next_cmd table prev str flag s = (str', sel)" by fastforce
    show ?thesis
    proof (cases sel)
      case None
      then show ?thesis using "1.prems" "1.IH"(1) [OF False n [symmetric] None] False n
        by (simp add: run_loop.simps [of _ _ _ str])
    next
      case (Some a)
      obtain c flag' argv where a: "a = (c, flag', argv)" by (cases a) auto
      obtain q s' where q: "f c flag' argv s = Some (q, s')"
        using "1.prems"(1) False n Some a by (auto simp: run_loop.simps [of _ _ _ str] split: option.splits)
      then have "g c flag' argv s = Some (q, s')" using "1.prems"(2) by (auto simp: call_le_def)
      then show ?thesis
        using "1.prems" "1.IH"(2) [OF False n [symmetric] Some a [symmetric] refl q refl] False n Some a q
        by (auto simp: run_loop.simps [of _ _ _ str] split: if_splits)
    qed
  qed
qed

lemma run_command_mono:
  "call_le f g \<Longrightarrow> run_command f table before cmd flag s = Some r \<Longrightarrow>
     run_command g table before cmd flag s = Some r"
  by (auto simp: run_command_def Let_def run_loop_mono split: option.splits if_splits)

lemma do_run_loop_mono:
  "(\<And>cmd flag s r. f cmd flag s = Some r \<Longrightarrow> g cmd flag s = Some r) \<Longrightarrow>
     do_run_loop f flag names s = Some r \<Longrightarrow> do_run_loop g flag names s = Some r"
  by (induction f flag names s rule: do_run_loop.induct) (auto split: option.splits if_splits)

lemma do_run_mono:
  "(\<And>cmd flag s r. f cmd flag s = Some r \<Longrightarrow> g cmd flag s = Some r) \<Longrightarrow>
     do_run f flag argv s = Some r \<Longrightarrow> do_run g flag argv s = Some r"
  using do_run_loop_mono [of f g flag "tl argv" s r] by (auto simp: do_run_def split: if_splits)

lemma do_bootd_mono:
  "(\<And>cmd flag s r. f cmd flag s = Some r \<Longrightarrow> g cmd flag s = Some r) \<Longrightarrow>
     do_bootd f flag s = Some r \<Longrightarrow> do_bootd g flag s = Some r"
  by (auto simp: do_bootd_def split: bind_splits)

lemma exec_cmd_Suc: "call_le (exec_cmd ext table before depth) (exec_cmd ext table before (Suc depth))"
proof (induction depth)
  case 0
  then show ?case by (simp add: call_le_def)
next
  case (Suc depth)
  note mono = run_command_mono [OF Suc.IH]
  show ?case unfolding call_le_def
  proof (intro allI impI)
    fix c flag argv s r
    assume "exec_cmd ext table before (Suc depth) c flag argv s = Some r"
    then show "exec_cmd ext table before (Suc (Suc depth)) c flag argv s = Some r"
      using do_run_mono [OF mono [where table = table and before = before]]
        do_bootd_mono [OF mono [where table = table and before = before]]
      unfolding exec_cmd.simps(2) [of ext table before depth c flag argv s]
        exec_cmd.simps(2) [of ext table before "Suc depth" c flag argv s]
      by (cases "cmd_impl c") (simp_all only: cmd_fn.case)
  qed
qed

lemma call_le_trans: "call_le f g \<Longrightarrow> call_le g h \<Longrightarrow> call_le f h"
  by (simp add: call_le_def)

lemma exec_cmd_mono:
  "d \<le> e \<Longrightarrow> call_le (exec_cmd ext table before d) (exec_cmd ext table before e)"
proof (induction rule: dec_induct)
  case base
  then show ?case by (simp add: call_le_def)
next
  case (step n)
  show ?case by (rule call_le_trans [OF step.IH exec_cmd_Suc])
qed

text \<open>A line that completes within some nesting depth of \<^verbatim>\<open>run\<close> and \<^verbatim>\<open>bootd\<close> completes with the same result
  and state for every larger bound: the bound of the model does not influence results.\<close>

theorem shell_run_depth:
  assumes "shell_run ext table before d cmd flag s = Some r" and "d \<le> e"
  shows "shell_run ext table before e cmd flag s = Some r"
  using run_command_mono [OF exec_cmd_mono [OF assms(2)]] assms(1) by (simp add: shell_run_def)

abbreviation (input) run_cmd :: cmd_tbl where
  "run_cmd \<equiv> \<lparr>cmd_name = cs ''run'', maxargs = 16, cmd_repeatable = True, cmd_impl = DoRun\<rparr>"
abbreviation (input) setenv_cmd :: cmd_tbl where
  "setenv_cmd \<equiv> \<lparr>cmd_name = cs ''setenv'', maxargs = 16, cmd_repeatable = False, cmd_impl = DoSetenv\<rparr>"
abbreviation (input) boot_cmd :: cmd_tbl where
  "boot_cmd \<equiv> \<lparr>cmd_name = cs ''boot'', maxargs = 1, cmd_repeatable = True, cmd_impl = DoBootd\<rparr>"

theorem shell_run_depth_witness:
  "\<forall>s. shell_run (\<lambda>_ _ _ s. (0, s)) [] 0 7 (Some (cs ''x'')) 0 s = Some (-1, s\<lparr>sh_ctrlc := False\<rparr>)"
proof
  fix s
  have "shell_run (\<lambda>_ _ _ s. (0, s)) [] 0 0 (Some (cs ''x'')) 0 s = Some (-1, s\<lparr>sh_ctrlc := False\<rparr>)"
    by (simp add: shell_run_def run_command_def cs_def run_loop.simps next_cmd_def Let_def find_cmd_def
        split: if_splits)
  then show "shell_run (\<lambda>_ _ _ s. (0, s)) [] 0 7 (Some (cs ''x'')) 0 s = Some (-1, s\<lparr>sh_ctrlc := False\<rparr>)"
    by (rule shell_run_depth) simp
qed

lemma sh_getenv_Some: "sh_getenv s name = Some v \<Longrightarrow> getenv_str (sh_env s) name = Some (Some v)"
  by (simp add: sh_getenv_def split: option.splits)

lemma sh_getenv_ctrlc [simp]: "sh_getenv (s\<lparr>sh_ctrlc := b\<rparr>) = sh_getenv s"
  by (simp add: sh_getenv_def fun_eq_iff)

text \<open>A variable whose value runs itself makes \<^verbatim>\<open>run\<close> recurse without end: the line returns for no nesting
  depth.\<close>

theorem run_self_never_returns:
  assumes "find_cmd table (cs ''run'') = Some run_cmd" and "sh_getenv s (cs ''a'') = Some (cs ''run a'')"
  shows "shell_run ext table before d (Some (cs ''run a'')) flag s = None"
  using assms(2)
proof (induction d arbitrary: s)
  have p: "plain_line (cs ''run a'')" by (simp add: plain_line_def plain_char_def cs_def)
  have a: "fst (parse_line (cs ''run a'')) = [cs ''run'', cs ''a'']"
    using parse_args_lay [of "[([], cs ''run''), (cs '' '', cs ''a'')]" "[]" 0]
    by (simp add: parse_line_def lay_ok_def lay_def blanks_def word_def cs_def)
  note r = run_command_plain [OF p a, of table run_cmd]
  {
    case 0
    show ?case unfolding shell_run_def by (subst r) (simp_all add: assms(1))
  next
    case (Suc d)
    have "run_command (exec_cmd ext table before d) table before (Some (cs ''run a'')) flag (s\<lparr>sh_ctrlc := False\<rparr>) = None"
      using Suc.IH [of "s\<lparr>sh_ctrlc := False\<rparr>"] Suc.prems by (simp add: shell_run_def)
    then show ?case unfolding shell_run_def
      by (subst r) (simp_all add: assms(1) do_run_def sh_getenv_Some [OF Suc.prems])
  }
qed

lemma sh_getenv_ok: "env_ok (sh_env s) kvs \<Longrightarrow> is_name n \<Longrightarrow> sh_getenv s n = map_of kvs n"
  using getenv_map [of "sh_env s" kvs n] by (simp add: sh_getenv_def)

theorem run_self_never_returns_witness:
  "\<forall>d. shell_run (\<lambda>_ _ _ s. (0, s)) [run_cmd] 0 d (Some (cs ''run a'')) 0
     \<lparr>sh_env = sample_state [(cs ''a'', cs ''run a'')], sh_ctrlc = False\<rparr> = None"
proof
  fix d
  let ?s = "\<lparr>sh_env = sample_state [(cs ''a'', cs ''run a'')], sh_ctrlc = False\<rparr>"
  have "env_ok (sh_env ?s) [(cs ''a'', cs ''run a'')]"
    using sample_state_ok(1) [of "[(cs ''a'', cs ''run a'')]"]
    by (simp add: vars_ok_def is_name_def cs_def entry_def)
  from sh_getenv_ok [OF this, of "cs ''a''"] have g: "sh_getenv ?s (cs ''a'') = Some (cs ''run a'')"
    by (simp add: is_name_def cs_def)
  have f: "find_cmd [run_cmd] (cs ''run'') = Some run_cmd" by (simp add: find_cmd_def cs_def)
  show "shell_run (\<lambda>_ _ _ s. (0, s)) [run_cmd] 0 d (Some (cs ''run a'')) 0 ?s = None"
    by (rule run_self_never_returns [OF f g])
qed

text \<open>\<^verbatim>\<open>bootd\<close> inside the command line that \<^verbatim>\<open>bootd\<close> runs is refused, so a \<^verbatim>\<open>bootcmd\<close> of \<^verbatim>\<open>boot\<close> returns with -1
  instead of recursing.\<close>

theorem bootd_recursion_refused:
  assumes "find_cmd table (cs ''boot'') = Some boot_cmd" and "sh_getenv s (cs ''bootcmd'') = Some (cs ''boot'')"
  shows "shell_run ext table before (Suc d) (Some (cs ''boot'')) 0 s = Some (-1, s\<lparr>sh_ctrlc := False\<rparr>)"
proof -
  have pl: "\<forall>c \<in> set (cs ''boot''). c \<noteq> ch CHR '';'' \<and> c \<noteq> ch CHR 0x27" "\<forall>c \<in> set (cs ''boot''). plain_char c"
    "length (cs ''boot'') < 256" "cs ''boot'' \<noteq> []" by (simp_all add: plain_char_def cs_def)
  have a: "fst (parse_line (cs ''boot'')) = [cs ''boot'']"
    using parse_args_lay [of "[([], cs ''boot'')]" "[]" 0]
    by (simp add: parse_line_def lay_ok_def lay_def blanks_def word_def cs_def)
  have n: "next_cmd table before (cs ''boot'') flag t =
      ([], if flag AND CMD_FLAG_BOOTD \<noteq> 0 then None else Some (boot_cmd, flag OR CMD_FLAG_BOOTD, [cs ''boot'']))"
    for flag t
    using assms(1) split_sep_plain [OF pl(1)] process_macros_plain [OF pl(2,3)] a
    by (simp add: next_cmd_def Let_def)
  have nil: "run_loop call table 0 [] flag rc rep s = Some (if rc \<noteq> 0 then rc else if rep then 1 else 0, s)"
    for call flag rc rep s by (simp add: run_loop.simps)
  let ?s = "s\<lparr>sh_ctrlc := False\<rparr>"
  have inner: "run_command (exec_cmd ext table before d) table before (Some (cs ''boot'')) 2 ?s = Some (-1, ?s)"
    using pl(3,4) n [of 2] by (simp add: run_command_def Let_def run_loop.simps [of _ table before "cs ''boot''"] nil)
  show ?thesis
    using pl(3,4) n [of 0] inner sh_getenv_Some [OF assms(2)]
    by (simp add: shell_run_def run_command_def Let_def run_loop.simps [of _ table before "cs ''boot''"] nil
        do_bootd_def)
qed

theorem bootd_recursion_refused_witness:
  "shell_run (\<lambda>_ _ _ s. (0, s)) [boot_cmd] 0 1 (Some (cs ''boot'')) 0
     \<lparr>sh_env = sample_state [(cs ''bootcmd'', cs ''boot'')], sh_ctrlc = False\<rparr>
   = Some (-1, \<lparr>sh_env = sample_state [(cs ''bootcmd'', cs ''boot'')], sh_ctrlc = False\<rparr>)"
proof -
  let ?s = "\<lparr>sh_env = sample_state [(cs ''bootcmd'', cs ''boot'')], sh_ctrlc = False\<rparr>"
  have "env_ok (sh_env ?s) [(cs ''bootcmd'', cs ''boot'')]"
    using sample_state_ok(1) [of "[(cs ''bootcmd'', cs ''boot'')]"]
    by (simp add: vars_ok_def is_name_def cs_def entry_def)
  from sh_getenv_ok [OF this, of "cs ''bootcmd''"] have g: "sh_getenv ?s (cs ''bootcmd'') = Some (cs ''boot'')"
    by (simp add: is_name_def cs_def)
  have f: "find_cmd [boot_cmd] (cs ''boot'') = Some boot_cmd" by (simp add: find_cmd_def cs_def)
  show ?thesis using bootd_recursion_refused [OF f g, of "\<lambda>_ _ _ s. (0, s)" 0 0] by simp
qed

subsection \<open>From the typed line to the environment\<close>

text \<open>A command line of \<^verbatim>\<open>setenv\<close> commands separated by semicolons. Each command is given by the text of which it consists, with
  references to variables in it, and by the name and the values that its words are after the references have been replaced. What
  follows a semicolon sees the environment that the commands before it have left.\<close>

definition setenv_text :: "(cstr \<times> cstr) list \<Rightarrow> seg list \<Rightarrow> cstr \<Rightarrow> cstr list \<Rightarrow> bool" where
  "setenv_text kvs ss name vals \<longleftrightarrow>
     (\<forall>x \<in> set ss. seg_ok x \<and> (\<forall>n. x = Var n \<longrightarrow> is_name n)) \<and>
     (\<forall>c \<in> set (render ss). c \<noteq> ch CHR '';'' \<and> c \<noteq> ch CHR 0x27 \<and> c \<noteq> ch CHR 0x5C) \<and> length (expand (map_of kvs) ss) < 256 \<and>
     (\<exists>ps t. expand (map_of kvs) ss = lay ps @ t \<and> lay_ok ps \<and> blanks t \<and> map snd ps = cs ''setenv'' # name # vals) \<and>
     vals \<noteq> [] \<and> length vals \<le> 14 \<and> (\<forall>v \<in> set vals. nul_free v) \<and> is_name name \<and> name \<noteq> cs ''baudrate'' \<and>
     console_of name = None \<and> env_fits (put_var name (args_value vals) kvs)"

lemma setenv_textD:
  assumes "setenv_text kvs ss name vals"
  shows "\<forall>x \<in> set ss. seg_ok x" "\<forall>x \<in> set ss. \<forall>n. x = Var n \<longrightarrow> is_name n"
    "\<forall>c \<in> set (render ss). c \<noteq> ch CHR '';'' \<and> c \<noteq> ch CHR 0x27 \<and> c \<noteq> ch CHR 0x5C" "length (expand (map_of kvs) ss) < 256"
    "\<exists>ps t. expand (map_of kvs) ss = lay ps @ t \<and> lay_ok ps \<and> blanks t \<and> map snd ps = cs ''setenv'' # name # vals"
    "vals \<noteq> []" "length vals \<le> 14" "\<forall>v \<in> set vals. nul_free v" "is_name name" "name \<noteq> cs ''baudrate''" "console_of name = None"
    "env_fits (put_var name (args_value vals) kvs)"
  using assms unfolding setenv_text_def by (simp_all only: ball_simps conj_ac) blast+

primrec line_ok :: "(cstr \<times> cstr) list \<Rightarrow> (seg list \<times> cstr \<times> cstr list) list \<Rightarrow> bool" where
  "line_ok kvs [] \<longleftrightarrow> True"
| "line_ok kvs (x # xs) \<longleftrightarrow> (case x of (ss, name, vals) \<Rightarrow> setenv_text kvs ss name vals \<and> line_ok (put_var name (args_value vals) kvs) xs)"

fun setenv_line :: "(seg list \<times> cstr \<times> cstr list) list \<Rightarrow> cstr" where
  "setenv_line [] = []"
| "setenv_line [x] = render (fst x)"
| "setenv_line (x # xs) = render (fst x) @ ch CHR '';'' # setenv_line xs"

lemma split_sep_at:
  assumes "\<forall>c \<in> set l. c \<noteq> ch CHR '';'' \<and> c \<noteq> ch CHR 0x27 \<and> c \<noteq> ch CHR 0x5C" "l = [] \<longrightarrow> \<not> first \<and> prev \<noteq> ch CHR 0x5C"
  shows "split_sep prev False first (l @ ch CHR '';'' # r) = (l, Some r)"
  using assms by (induction l arbitrary: prev first) (simp_all add: Let_def)

lemma expand_names:
  assumes "env_ok (sh_env s) kvs" "\<forall>x \<in> set ss. \<forall>n. x = Var n \<longrightarrow> is_name n"
  shows "expand (sh_getenv s) ss = expand (map_of kvs) ss"
  using assms(2) by (induction ss rule: render.induct) (simp_all add: sh_getenv_ok [OF assms(1)])

lemma setenv_found:
  assumes "setenv_cmd \<in> set table" "\<forall>c \<in> set table. cmd_name c = cs ''setenv'' \<longrightarrow> c = setenv_cmd"
  shows "find_cmd table (cs ''setenv'') = Some setenv_cmd"
proof -
  have w: "takeWhile (\<lambda>c. c \<noteq> ch CHR ''.'') (cs ''setenv'') = cs ''setenv''" by (simp add: cs_def)
  have "List.find (\<lambda>c. cmd_name c = cs ''setenv'') table = Some setenv_cmd"
  proof (cases "List.find (\<lambda>c. cmd_name c = cs ''setenv'') table")
    case None
    then have "cmd_name setenv_cmd \<noteq> cs ''setenv''" using assms(1) unfolding find_None_iff by blast
    then show ?thesis by simp
  next
    case (Some c)
    then have "c \<in> set table" "cmd_name c = cs ''setenv''" unfolding find_Some_iff by auto
    then show ?thesis using assms(2) Some by blast
  qed
  then show ?thesis unfolding find_cmd_meaning w Let_def by simp
qed

lemma setenv_text_nonempty:
  assumes "setenv_text kvs ss name vals"
  shows "render ss \<noteq> []"
proof
  assume "render ss = []"
  then have "ss = []" by (cases ss rule: render.cases) simp_all
  moreover obtain ps u where "expand (map_of kvs) ss = lay ps @ u" "lay_ok ps" "map snd ps = cs ''setenv'' # name # vals"
    using setenv_textD(5) [OF assms] by metis
  ultimately show False by (cases ps) (auto simp: lay_def lay_ok_def word_def)
qed

text \<open>One pass of the loop, over a command at the end of the line or in front of a semicolon.\<close>

lemma setenv_pass:
  assumes e: "env_ok (sh_env s) kvs" and t: "setenv_text kvs ss name vals" and c: "\<not> sh_ctrlc s"
    and f: "find_cmd table (cs ''setenv'') = Some setenv_cmd" and r: "rest = [] \<and> str' = [] \<or> rest = ch CHR '';'' # str'"
  shows "\<exists>e'. run_loop (exec_cmd ext table before (Suc d)) table prev (render ss @ rest) flag 0 b s =
      run_loop (exec_cmd ext table before (Suc d)) table 0 str' flag 0 False (s\<lparr>sh_env := e'\<rparr>) \<and>
    env_ok e' (put_var name (args_value vals) kvs) \<and> crc_ok e'"
proof -
  let ?argv = "cs ''setenv'' # name # vals"
  note t' = setenv_textD [OF t]
  obtain ps u where p: "expand (map_of kvs) ss = lay ps @ u" "lay_ok ps" "blanks u" "map snd ps = ?argv" using t'(5) by metis
  note ne = setenv_text_nonempty [OF t]
  have sep: "split_sep prev False True (render ss @ rest) = (render ss, if rest = [] then None else Some str')"
    using r split_sep_at [of "render ss" True prev str'] split_sep_plain [of "render ss" prev True] t'(3) ne by auto
  have m: "process_macros (sh_getenv s) (render ss) = lay ps @ u"
  proof -
    have "\<forall>x \<in> set ss. seg_ok x" "\<forall>x \<in> set ss. \<forall>n. x = Var n \<longrightarrow> is_name n" "length (lay ps @ u) < 256" using t'(1,2,4) p(1) by simp_all
    then show ?thesis using process_macros_render [of ss "sh_getenv s"] expand_names [OF e, of ss] p(1) by simp
  qed
  have len: "length ?argv \<le> 16" using t'(7) by simp
  have a: "fst (parse_line (lay ps @ u)) = ?argv"
  proof -
    have "take 16 (map snd ps) = map snd ps" using len p(4) by (metis length_map take_all)
    then show ?thesis using parse_args_lay [OF p(2,3), of 0] p(4) by (simp only: parse_line_def) simp
  qed
  have n: "next_cmd table prev (render ss @ rest) flag s = (str', Some (setenv_cmd, flag, ?argv))"
    using r len by (auto simp: next_cmd_def sep m a f Let_def)
  obtain q e' where q: "do_setenv' ?argv (sh_env s) = Some (q, e')" "setenv_result ?argv kvs (sh_env s) q e'"
    using do_setenv_result [OF e, of ?argv] t'(8-11) by auto
  have e': "q = 0" "env_ok e' (put_var name (args_value vals) kvs)" "crc_ok e'"
    using q(2) t'(6,12) by (simp_all add: setenv_result_def)
  have "run_loop (exec_cmd ext table before (Suc d)) table prev (render ss @ rest) flag 0 b s =
      run_loop (exec_cmd ext table before (Suc d)) table 0 str' flag 0 False (s\<lparr>sh_env := e'\<rparr>)"
    using ne c by (subst run_loop.simps) (simp add: n do_setenv_def q(1) e'(1))
  with e' show ?thesis by blast
qed

lemma setenv_passes:
  assumes "env_ok (sh_env s) kvs" "line_ok kvs xs" "xs \<noteq> []" "\<not> sh_ctrlc s" and f: "find_cmd table (cs ''setenv'') = Some setenv_cmd"
  shows "\<exists>e'. run_loop (exec_cmd ext table before (Suc d)) table prev (setenv_line xs) flag 0 b s = Some (0, s\<lparr>sh_env := e'\<rparr>) \<and>
    env_ok e' (fold (\<lambda>(ss, name, vals). put_var name (args_value vals)) xs kvs) \<and> crc_ok e'"
  using assms(1-4)
proof (induction xs arbitrary: s kvs prev b rule: setenv_line.induct)
  case (2 x)
  obtain ss name vals where x: "x = (ss, name, vals)" by (cases x)
  have "setenv_text kvs ss name vals" using "2.prems"(2) x by simp
  from setenv_pass [OF "2.prems"(1) this "2.prems"(4) f, of "[]" "[]" ext before d prev flag b]
  show ?case by (auto simp: x run_loop.simps [of _ _ _ "[]"] simp del: exec_cmd.simps)
next
  case (3 x y ys)
  obtain ss name vals where x: "x = (ss, name, vals)" by (cases x)
  have "setenv_text kvs ss name vals" using "3.prems"(2) x by simp
  from setenv_pass [OF "3.prems"(1) this "3.prems"(4) f, of "ch CHR '';'' # setenv_line (y # ys)" "setenv_line (y # ys)" ext before d prev flag b]
  obtain e' where e': "run_loop (exec_cmd ext table before (Suc d)) table prev (setenv_line (x # y # ys)) flag 0 b s =
      run_loop (exec_cmd ext table before (Suc d)) table 0 (setenv_line (y # ys)) flag 0 False (s\<lparr>sh_env := e'\<rparr>)"
    "env_ok e' (put_var name (args_value vals) kvs)" by (auto simp: x simp del: exec_cmd.simps)
  show ?case
    using "3.IH" [of "s\<lparr>sh_env := e'\<rparr>" "put_var name (args_value vals) kvs" 0 False] "3.prems"(2,4) e' by (auto simp: x simp del: exec_cmd.simps)
qed simp

text \<open>C26: a line of one or more \<^verbatim>\<open>setenv\<close> commands, separated by semicolons, with references \<^verbatim>\<open>${name}\<close> to variables anywhere in
  them, and without quotes and backslashes: the line is split, the references are replaced by the values at that moment, the words
  become arguments, the table of commands (any table with exactly one entry \<^verbatim>\<open>setenv\<close>) is searched, and each variable is defined as
  its words joined by single blanks, in the order of the line, as long as the line and every expanded command are shorter than 256
  characters, every result fits the environment, and the names are not those with a side effect (\<^verbatim>\<open>baudrate\<close> and the console
  devices). The result is 0, and the stored CRC is right.\<close>

theorem shell_setenv:
  assumes "env_ok (sh_env s) kvs" and "xs \<noteq> []" and "line_ok kvs xs" and "length (setenv_line xs) < 256"
    and "setenv_cmd \<in> set table" and "\<forall>c \<in> set table. cmd_name c = cs ''setenv'' \<longrightarrow> c = setenv_cmd"
  shows "\<exists>s'. shell_run ext table before (Suc d) (Some (setenv_line xs)) flag s = Some (0, s') \<and>
    env_ok (sh_env s') (fold (\<lambda>(ss, name, vals). put_var name (args_value vals)) xs kvs) \<and> crc_ok (sh_env s')"
proof -
  have "env_ok (sh_env (s\<lparr>sh_ctrlc := False\<rparr>)) kvs" using assms(1) by simp
  from setenv_passes [OF this assms(3,2) _ setenv_found [OF assms(5,6)], of ext before d before flag True]
  obtain e where "run_loop (exec_cmd ext table before (Suc d)) table before (setenv_line xs) flag 0 True (s\<lparr>sh_ctrlc := False\<rparr>) =
      Some (0, s\<lparr>sh_ctrlc := False, sh_env := e\<rparr>)"
    "env_ok e (fold (\<lambda>(ss, name, vals). put_var name (args_value vals)) xs kvs)" "crc_ok e" by auto
  moreover have "setenv_line xs \<noteq> []"
    using assms(2,3) by (cases xs rule: setenv_line.cases) (auto dest: setenv_text_nonempty)
  ultimately show ?thesis using assms(4) by (simp add: shell_run_def run_command_def)
qed

text \<open>\<^verbatim>\<open>setenv x 1; setenv y ${x}2\<close> on a table with another command.\<close>

theorem shell_setenv_witness:
  "\<exists>s'. shell_run (\<lambda>_ _ _ s. (0, s)) [run_cmd, setenv_cmd] 0 1 (Some (cs ''setenv x 1; setenv y ${x}2'')) 0
     \<lparr>sh_env = sample_state sample_vars, sh_ctrlc = False\<rparr> = Some (0, s') \<and>
    env_lookup (sh_env s') (cs ''y'') = Some (cs ''12'')"
proof -
  let ?s = "\<lparr>sh_env = sample_state sample_vars, sh_ctrlc = False\<rparr>"
  let ?ss = "map Chr (cs ''setenv x 1'')" and ?tt = "map Chr (cs '' setenv y '') @ [Var (cs ''x''), Chr (ch CHR ''2'')]"
  let ?xs = "[(?ss, cs ''x'', [cs ''1'']), (?tt, cs ''y'', [cs ''12''])]"
  let ?kvs = "put_var (cs ''x'') (cs ''1'') sample_vars"
  have l: "setenv_line ?xs = cs ''setenv x 1; setenv y ${x}2''" by (simp add: cs_def)
  have a: "args_value [v] = v" for v by (simp add: args_value_def)
  have x: "expand (map_of sample_vars) ?ss = lay [([], cs ''setenv''), (cs '' '', cs ''x''), (cs '' '', cs ''1'')] @ []"
    by (simp add: cs_def lay_def)
  have y: "expand (map_of ?kvs) ?tt = lay [(cs '' '', cs ''setenv''), (cs '' '', cs ''y''), (cs '' '', cs ''12'')] @ []"
    by (simp add: cs_def lay_def map_of_put_var)
  have ok: "lay_ok [(b, cs ''setenv''), (cs '' '', cs n), (cs '' '', cs v)]" if "b \<in> {[], cs '' ''}" "(n, v) \<in> {(''x'', ''1''), (''y'', ''12'')}" for b n v
    using that by (auto simp: lay_ok_def blanks_def word_def cs_def)
  have "setenv_text sample_vars ?ss (cs ''x'') [cs ''1'']"
    unfolding setenv_text_def x
    by (intro conjI exI [of _ "[([], cs ''setenv''), (cs '' '', cs ''x''), (cs '' '', cs ''1'')]"] exI [of _ "[]"] refl ok)
      (simp_all add: cs_def plain_char_def lay_def blanks_def is_name_def console_of_def env_fits_def put_var_def del_var_def args_value_def entry_def nul_free_def)
  moreover have "setenv_text ?kvs ?tt (cs ''y'') [cs ''12'']"
    unfolding setenv_text_def y
    by (intro conjI exI [of _ "[(cs '' '', cs ''setenv''), (cs '' '', cs ''y''), (cs '' '', cs ''12'')]"] exI [of _ "[]"] refl ok)
      (simp_all add: cs_def plain_char_def name_char_def lay_def blanks_def is_name_def console_of_def env_fits_def put_var_def del_var_def args_value_def entry_def nul_free_def)
  ultimately have k: "line_ok sample_vars ?xs" by (simp add: a)
  have e: "env_ok (sh_env ?s) sample_vars" using sample_state_ok(1) [OF sample_vars_ok] by simp
  have "length (setenv_line ?xs) < 256" unfolding l by (simp add: cs_def)
  from shell_setenv [OF e _ k this, of "[run_cmd, setenv_cmd]" "\<lambda>_ _ _ s. (0, s)" 0 0 0]
  obtain s' where s': "shell_run (\<lambda>_ _ _ s. (0, s)) [run_cmd, setenv_cmd] 0 (Suc 0) (Some (setenv_line ?xs)) 0 ?s = Some (0, s')"
    "env_ok (sh_env s') (put_var (cs ''y'') (cs ''12'') ?kvs)" by (auto simp: a cs_def)
  moreover have "env_lookup (sh_env s') (cs ''y'') = Some (cs ''12'')" by (simp add: env_lookup_ok [OF s'(2)] map_of_put_var)
  ultimately show ?thesis unfolding l by auto
qed

text \<open>Whether a quote at the very start of a line opens a quoted part depends on the byte in memory before the command
  buffer: with a backslash there, the separator inside the quotes splits the line.\<close>

theorem quote_at_start_reads_before_buffer:
  "split_sep 0 False True (0x27 # cs ''a;b'') = (0x27 # cs ''a;b'', None) \<and>
   split_sep 0x5C False True (0x27 # cs ''a;b'') = (0x27 # cs ''a'', Some (cs ''b''))"
  by (simp add: cs_def)

end
