(* ===== verification/Lmb.thy ===== *)
theory Lmb
  imports Prelude
begin

text \<open>
  Logical memory blocks (\<^verbatim>\<open>lib/lmb.c\<close>): the tables of usable and reserved memory that the image loader allocates
  from. A table is a count and an array of nine slots; addresses and sizes are 32-bit words whose sums
  wrap. Slot accesses are checked: an operation returns \<open>None\<close> where the code would leave the array.
\<close>

abbreviation (input) MAX_LMB_REGIONS :: nat where "MAX_LMB_REGIONS \<equiv> 8"

record lmb_region =
  cnt :: nat
  region :: "(u32 \<times> u32) list"

record lmb =
  memory :: lmb_region
  reserved :: lmb_region

subsection \<open>Operations\<close>

definition lmb_addrs_overlap :: "u32 \<Rightarrow> u32 \<Rightarrow> u32 \<Rightarrow> u32 \<Rightarrow> bool" where
  "lmb_addrs_overlap base1 size1 base2 size2 \<longleftrightarrow> base1 < base2 + size2 \<and> base2 < base1 + size1"

definition lmb_addrs_adjacent :: "u32 \<Rightarrow> u32 \<Rightarrow> u32 \<Rightarrow> u32 \<Rightarrow> int" where
  "lmb_addrs_adjacent base1 size1 base2 size2 =
     (if base2 = base1 + size1 then 1 else if base1 = base2 + size2 then -1 else 0)"

definition slot :: "lmb_region \<Rightarrow> nat \<Rightarrow> (u32 \<times> u32) option" where
  "slot rgn i = (if i < length (region rgn) then Some (region rgn ! i) else None)"

definition lmb_regions_adjacent :: "lmb_region \<Rightarrow> nat \<Rightarrow> nat \<Rightarrow> int option" where
  "lmb_regions_adjacent rgn r1 r2 =
     (case (slot rgn r1, slot rgn r2) of
        (Some (base1, size1), Some (base2, size2)) \<Rightarrow> Some (lmb_addrs_adjacent base1 size1 base2 size2)
      | _ \<Rightarrow> None)"

text \<open>\<open>before_last i n\<close> is the unsigned comparison \<^verbatim>\<open>i < cnt - 1\<close>, true for every index when the count is 0.\<close>

definition before_last :: "nat \<Rightarrow> nat \<Rightarrow> bool" where
  "before_last i n \<longleftrightarrow> n = 0 \<or> i < n - 1"

function move_down :: "nat \<Rightarrow> (u32 \<times> u32) list \<Rightarrow> nat \<Rightarrow> (u32 \<times> u32) list option" where
  "move_down n rs i =
     (if before_last i n then
        if i + 1 < length rs then move_down n (rs[i := rs ! (i + 1)]) (i + 1) else None
      else Some rs)"
  by pat_completeness auto
termination by (relation "measure (\<lambda>(n, rs, i). length rs - i)") auto

declare move_down.simps [simp del]

definition lmb_remove_region :: "lmb_region \<Rightarrow> nat \<Rightarrow> lmb_region option" where
  "lmb_remove_region rgn r =
     map_option (\<lambda>rs. \<lparr>cnt = cnt rgn - 1, region = rs\<rparr>) (move_down (cnt rgn) (region rgn) r)"

definition lmb_coalesce_regions :: "lmb_region \<Rightarrow> nat \<Rightarrow> nat \<Rightarrow> lmb_region option" where
  "lmb_coalesce_regions rgn r1 r2 =
     (case (slot rgn r1, slot rgn r2) of
        (Some (b1, s1), Some (b2, s2)) \<Rightarrow>
          lmb_remove_region (rgn\<lparr>region := (region rgn)[r1 := (b1, s1 + s2)]\<rparr>) r2
      | _ \<Rightarrow> None)"

definition lmb_init :: "lmb \<Rightarrow> lmb" where
  "lmb_init l =
     \<lparr>memory = \<lparr>cnt = 1, region = (region (memory l))[0 := (0, 0)]\<rparr>,
      reserved = \<lparr>cnt = 1, region = (region (reserved l))[0 := (0, 0)]\<rparr>\<rparr>"

text \<open>The coalescing loop: \<open>Inl\<close> when the region is already there, otherwise the table, the index at which the
  loop stopped and whether it coalesced.\<close>

function coalesce_loop ::
  "lmb_region \<Rightarrow> u32 \<Rightarrow> u32 \<Rightarrow> nat \<Rightarrow> (unit + lmb_region \<times> nat \<times> bool) option" where
  "coalesce_loop rgn base sz i =
     (if i < cnt rgn then
        (case slot rgn i of
           None \<Rightarrow> None
         | Some (rgnbase, rgnsize) \<Rightarrow>
             if rgnbase = base \<and> rgnsize = sz then Some (Inl ())
             else
               let adjacent = lmb_addrs_adjacent base sz rgnbase rgnsize
               in if adjacent > 0 then
                    Some (Inr (rgn\<lparr>region := (region rgn)[i := (rgnbase - sz, rgnsize + sz)]\<rparr>, i, True))
                  else if adjacent < 0 then
                    Some (Inr (rgn\<lparr>region := (region rgn)[i := (rgnbase, rgnsize + sz)]\<rparr>, i, True))
                  else coalesce_loop rgn base sz (i + 1))
      else Some (Inr (rgn, i, False)))"
  by pat_completeness auto
termination by (relation "measure (\<lambda>(rgn, base, sz, i). cnt rgn - i)") auto

declare coalesce_loop.simps [simp del]

text \<open>The insertion loop, from index \<open>k - 1\<close> downwards.\<close>

fun insert_loop :: "(u32 \<times> u32) list \<Rightarrow> u32 \<Rightarrow> u32 \<Rightarrow> nat \<Rightarrow> (u32 \<times> u32) list option" where
  "insert_loop rs base sz 0 = Some rs"
| "insert_loop rs base sz (Suc i) =
     (if i + 1 < length rs then
        if base < fst (rs ! i) then insert_loop (rs[i + 1 := rs ! i]) base sz i
        else Some (rs[i + 1 := (base, sz)])
      else None)"

definition lmb_add_region :: "lmb_region \<Rightarrow> u32 \<Rightarrow> u32 \<Rightarrow> (int \<times> lmb_region) option" where
  "lmb_add_region rgn base sz =
     (if cnt rgn = 1 \<and> snd (region rgn ! 0) = 0 then
        Some (0, rgn\<lparr>region := (region rgn)[0 := (base, sz)]\<rparr>)
      else
        (case coalesce_loop rgn base sz 0 of
           None \<Rightarrow> None
         | Some (Inl _) \<Rightarrow> Some (0, rgn)
         | Some (Inr (rgn, i, c)) \<Rightarrow>
             Option.bind
               (if before_last i (cnt rgn) then
                  Option.bind (lmb_regions_adjacent rgn i (i + 1)) (\<lambda>a.
                    if a \<noteq> 0 then
                      map_option (\<lambda>rgn. (rgn, (if c then 1 else 0) + 1 :: int)) (lmb_coalesce_regions rgn i (i + 1))
                    else Some (rgn, if c then 1 else 0))
                else Some (rgn, if c then 1 else 0))
               (\<lambda>(rgn, coalesced).
                  if coalesced \<noteq> 0 then Some (coalesced, rgn)
                  else if cnt rgn \<ge> MAX_LMB_REGIONS then Some (-1, rgn)
                  else
                    map_option (\<lambda>rs.
                        (0, \<lparr>cnt = cnt rgn + 1,
                             region = (if base < fst (rs ! 0) then rs[0 := (base, sz)] else rs)\<rparr>))
                      (insert_loop (region rgn) base sz (cnt rgn)))))"

definition lmb_add :: "lmb \<Rightarrow> u32 \<Rightarrow> u32 \<Rightarrow> (int \<times> lmb) option" where
  "lmb_add l base sz = map_option (\<lambda>(r, m). (r, l\<lparr>memory := m\<rparr>)) (lmb_add_region (memory l) base sz)"

definition lmb_reserve :: "lmb \<Rightarrow> u32 \<Rightarrow> u32 \<Rightarrow> (int \<times> lmb) option" where
  "lmb_reserve l base sz = map_option (\<lambda>(r, m). (r, l\<lparr>reserved := m\<rparr>)) (lmb_add_region (reserved l) base sz)"

function find_containing :: "lmb_region \<Rightarrow> u32 \<Rightarrow> u32 \<Rightarrow> nat \<Rightarrow> nat option option" where
  "find_containing rgn base end' i =
     (if i < cnt rgn then
        (case slot rgn i of
           None \<Rightarrow> None
         | Some (b, s) \<Rightarrow>
             if b \<le> base \<and> end' \<le> b + s then Some (Some i) else find_containing rgn base end' (i + 1))
      else Some None)"
  by pat_completeness auto
termination by (relation "measure (\<lambda>(rgn, base, end', i). cnt rgn - i)") auto

declare find_containing.simps [simp del]

definition lmb_free :: "lmb \<Rightarrow> u32 \<Rightarrow> u32 \<Rightarrow> (int \<times> lmb) option" where
  "lmb_free l base sz =
     (let rgn = reserved l; end' = base + sz
      in case find_containing rgn base end' 0 of
           None \<Rightarrow> None
         | Some None \<Rightarrow> Some (-1, l)
         | Some (Some i) \<Rightarrow>
             let (rgnbegin, rsize) = region rgn ! i; rgnend = rgnbegin + rsize
             in if rgnbegin = base \<and> rgnend = end' then
                  map_option (\<lambda>rgn. (0, l\<lparr>reserved := rgn\<rparr>)) (lmb_remove_region rgn i)
                else if rgnbegin = base then
                  Some (0, l\<lparr>reserved := rgn\<lparr>region := (region rgn)[i := (end', rsize - sz)]\<rparr>\<rparr>)
                else if rgnend = end' then
                  Some (0, l\<lparr>reserved := rgn\<lparr>region := (region rgn)[i := (rgnbegin, rsize - sz)]\<rparr>\<rparr>)
                else
                  map_option (\<lambda>(r, rgn). (r, l\<lparr>reserved := rgn\<rparr>))
                    (lmb_add_region (rgn\<lparr>region := (region rgn)[i := (rgnbegin, base - rgnbegin)]\<rparr>)
                       end' (rgnend - end')))"

function overlaps_from :: "lmb_region \<Rightarrow> u32 \<Rightarrow> u32 \<Rightarrow> nat \<Rightarrow> nat option" where
  "overlaps_from rgn base sz i =
     (if i < cnt rgn \<and> i < length (region rgn) then
        if lmb_addrs_overlap base sz (fst (region rgn ! i)) (snd (region rgn ! i)) then Some i
        else overlaps_from rgn base sz (i + 1)
      else None)"
  by pat_completeness auto
termination by (relation "measure (\<lambda>(rgn, base, sz, i). cnt rgn - i)") auto

declare overlaps_from.simps [simp del]

text \<open>\<open>None\<close> stands for the result -1.\<close>

definition lmb_overlaps_region :: "lmb_region \<Rightarrow> u32 \<Rightarrow> u32 \<Rightarrow> nat option" where
  "lmb_overlaps_region rgn base sz = overlaps_from rgn base sz 0"

definition lmb_align_down :: "u32 \<Rightarrow> u32 \<Rightarrow> u32" where
  "lmb_align_down addr sz = addr AND NOT (sz - 1)"

definition lmb_align_up :: "u32 \<Rightarrow> u32 \<Rightarrow> u32" where
  "lmb_align_up addr sz = (addr + (sz - 1)) AND NOT (sz - 1)"

lemma overlaps_from_Some:
  "overlaps_from rgn base sz i = Some j \<Longrightarrow>
     i \<le> j \<and> j < cnt rgn \<and> j < length (region rgn) \<and>
     lmb_addrs_overlap base sz (fst (region rgn ! j)) (snd (region rgn ! j))"
proof (induction rgn base sz i rule: overlaps_from.induct)
  case (1 rgn base sz i)
  from 1(2) show ?case
    using 1(1) by (auto simp: overlaps_from.simps [of rgn base sz i] split: if_splits)
qed

lemma overlaps_from_None:
  "overlaps_from rgn base sz i = None \<Longrightarrow> i \<le> j \<Longrightarrow> j < cnt rgn \<Longrightarrow> j < length (region rgn) \<Longrightarrow>
     \<not> lmb_addrs_overlap base sz (fst (region rgn ! j)) (snd (region rgn ! j))"
proof (induction rgn base sz i rule: overlaps_from.induct)
  case (1 rgn base sz i)
  from 1(2) have "\<not> lmb_addrs_overlap base sz (fst (region rgn ! i)) (snd (region rgn ! i))"
    "overlaps_from rgn base sz (i + 1) = None"
    using 1(3-5) by (auto simp: overlaps_from.simps [of rgn base sz i] split: if_splits)
  then show ?case using 1(1) 1(3-5) by (cases "i = j") auto
qed

lemma align_down_le: "lmb_align_down a al \<le> a"
  unfolding lmb_align_down_def by (rule word_and_le2)

lemma unat_sub_le: "b \<le> a \<Longrightarrow> unat (a - b :: u32) = unat a - unat b"
  by (simp add: unat_sub)

lemma overlap_moves_down:
  assumes "lmb_addrs_overlap base sz b s" "\<not> b < sz"
  shows "unat (lmb_align_down (b - sz) al) < unat base"
proof -
  have "unat (lmb_align_down (b - sz) al) \<le> unat (b - sz)"
    using align_down_le [of "b - sz" al] by (simp add: word_le_nat_alt)
  also have "unat (b - sz) = unat b - unat sz" using assms(2) by (intro unat_sub_le) simp
  also have "\<dots> < unat base"
  proof -
    have "b < base + sz" using assms(1) by (simp add: lmb_addrs_overlap_def)
    then have "unat b < (unat base + unat sz) mod 2 ^ 32"
      by (simp add: word_less_nat_alt unat_word_ariths)
    also have "\<dots> \<le> unat base + unat sz" by (rule mod_less_eq_dividend)
    finally show ?thesis using assms(2) by (simp add: word_less_nat_alt not_less)
  qed
  finally show ?thesis .
qed

text \<open>The search below a start address in one memory block; \<open>None\<close> when it moves to the next block.\<close>

function alloc_while :: "lmb_region \<Rightarrow> u32 \<Rightarrow> u32 \<Rightarrow> u32 \<Rightarrow> u32 \<Rightarrow> u32 option" where
  "alloc_while res sz align lmbbase base =
     (if base \<noteq> 0 \<and> lmbbase \<le> base then
        (case lmb_overlaps_region res base sz of
           None \<Rightarrow> Some base
         | Some j \<Rightarrow>
             let res_base = fst (region res ! j)
             in if res_base < sz then None
                else alloc_while res sz align lmbbase (lmb_align_down (res_base - sz) align))
      else None)"
  by pat_completeness auto
termination
  by (relation "measure (\<lambda>(res, sz, align, lmbbase, base). unat base)")
     (auto simp: lmb_overlaps_region_def dest!: overlaps_from_Some intro: overlap_moves_down)

declare alloc_while.simps [simp del]

fun alloc_loop :: "lmb \<Rightarrow> u32 \<Rightarrow> u32 \<Rightarrow> u32 \<Rightarrow> nat \<Rightarrow> (u32 \<times> lmb) option" where
  "alloc_loop l sz align max_addr 0 = Some (0, l)"
| "alloc_loop l sz align max_addr (Suc i) =
     (case slot (memory l) i of
        None \<Rightarrow> None
      | Some (lmbbase, lmbsize) \<Rightarrow>
          if lmbsize < sz then alloc_loop l sz align max_addr i
          else if max_addr \<noteq> 0 \<and> \<not> lmbbase < max_addr then alloc_loop l sz align max_addr i
          else
            let base = (if max_addr = 0 then lmb_align_down (lmbbase + lmbsize - sz) align
                        else lmb_align_down (min (lmbbase + lmbsize) max_addr - sz) align)
            in (case alloc_while (reserved l) sz align lmbbase base of
                  None \<Rightarrow> alloc_loop l sz align max_addr i
                | Some base \<Rightarrow>
                    map_option (\<lambda>(r, res). (if r < 0 then 0 else base, l\<lparr>reserved := res\<rparr>))
                      (lmb_add_region (reserved l) base (lmb_align_up sz align))))"

definition lmb_alloc_base :: "lmb \<Rightarrow> u32 \<Rightarrow> u32 \<Rightarrow> u32 \<Rightarrow> (u32 \<times> lmb) option" where
  "lmb_alloc_base l sz align max_addr = alloc_loop l sz align max_addr (cnt (memory l))"

definition lmb_alloc :: "lmb \<Rightarrow> u32 \<Rightarrow> u32 \<Rightarrow> (u32 \<times> lmb) option" where
  "lmb_alloc l sz align = lmb_alloc_base l sz align 0"

definition lmb_is_reserved :: "lmb \<Rightarrow> u32 \<Rightarrow> bool" where
  "lmb_is_reserved l addr \<longleftrightarrow>
     list_ex (\<lambda>(b, s). b \<le> addr \<and> addr \<le> b + s - 1) (take (cnt (reserved l)) (region (reserved l)))"

subsection \<open>Tables as sets of addresses\<close>

abbreviation lo :: "u32 \<times> u32 \<Rightarrow> nat" where "lo r \<equiv> unat (fst r)"
abbreviation hi :: "u32 \<times> u32 \<Rightarrow> nat" where "hi r \<equiv> unat (fst r) + unat (snd r)"

definition reg_ok :: "u32 \<times> u32 \<Rightarrow> bool" where
  "reg_ok r \<longleftrightarrow> 0 < unat (snd r) \<and> hi r < 2 ^ 32"

definition chain :: "(u32 \<times> u32) list \<Rightarrow> bool" where
  "chain rs \<longleftrightarrow> sorted_wrt (\<lambda>r r'. hi r \<le> lo r') rs \<and> (\<forall>r \<in> set rs. reg_ok r)"

definition cov :: "(u32 \<times> u32) list \<Rightarrow> nat set" where
  "cov rs = (\<Union>r \<in> set rs. {lo r..<hi r})"

definition act :: "lmb_region \<Rightarrow> (u32 \<times> u32) list" where
  "act rgn = take (cnt rgn) (region rgn)"

definition table_ok :: "lmb_region \<Rightarrow> bool" where
  "table_ok rgn \<longleftrightarrow> length (region rgn) = MAX_LMB_REGIONS + 1 \<and> 1 \<le> cnt rgn \<and> cnt rgn \<le> MAX_LMB_REGIONS
     \<and> chain (act rgn)"

lemma cov_simps [simp]: "cov [] = {}" "cov (r # rs) = {lo r..<hi r} \<union> cov rs"
  "cov (rs @ rs') = cov rs \<union> cov rs'"
  by (auto simp: cov_def)

lemma chain_append: "chain (A @ B) \<longleftrightarrow> chain A \<and> chain B \<and> (\<forall>r \<in> set A. \<forall>r' \<in> set B. hi r \<le> lo r')"
  by (auto simp: chain_def sorted_wrt_append)

lemma chain_Cons: "chain (r # B) \<longleftrightarrow> reg_ok r \<and> chain B \<and> (\<forall>r' \<in> set B. hi r \<le> lo r')"
  by (auto simp: chain_def)

lemma chain_reg_ok: "chain rs \<Longrightarrow> r \<in> set rs \<Longrightarrow> reg_ok r"
  by (simp add: chain_def)

lemma chain_before: "chain (A @ r # B) \<Longrightarrow> x \<in> set A \<Longrightarrow> reg_ok x \<and> hi x \<le> lo r"
  by (auto simp: chain_append intro: chain_reg_ok)

lemma chain_after: "chain (A @ r # B) \<Longrightarrow> x \<in> set B \<Longrightarrow> reg_ok x \<and> hi r \<le> lo x"
  by (auto simp: chain_append chain_Cons intro: chain_reg_ok)

lemma chain_Nil [simp]: "chain []"
  by (simp add: chain_def)

lemma unat_end: "reg_ok r \<Longrightarrow> unat (fst r + snd r) = hi r"
  by (simp add: reg_ok_def unat_add_le)

lemma end_eq_iff: "reg_ok r \<Longrightarrow> fst r' = fst r + snd r \<longleftrightarrow> lo r' = hi r"
  using unat_end [of r] by (metis unsigned_word_eqI)

lemma chain_disjoint:
  assumes "chain (A @ r # B)" "x \<in> set A \<or> x \<in> set B"
  shows "{lo x..<hi x} \<inter> {lo r..<hi r} = {}"
  using assms by (auto simp: chain_append chain_Cons)

lemma interval_disjoint:
  fixes a b c d :: nat
  assumes "a < b" "c < d" "{a..<b} \<inter> {c..<d} = {}"
  shows "b \<le> c \<or> d \<le> a"
proof (rule ccontr)
  assume "\<not> (b \<le> c \<or> d \<le> a)"
  with assms(1,2) have "max a c \<in> {a..<b} \<inter> {c..<d}" by auto
  with assms(3) show False by blast
qed

lemma chain_member_before:
  assumes "chain (A @ r' # B)" "reg_ok n" "{lo n..<hi n} \<inter> cov (A @ r' # B) = {}"
  shows "x \<in> set A \<Longrightarrow> hi n \<le> lo x \<or> hi x \<le> lo n"
    and "x \<in> set B \<Longrightarrow> hi n \<le> lo x \<or> hi x \<le> lo n"
proof -
  have "hi n \<le> lo x \<or> hi x \<le> lo n" if "x \<in> set (A @ r' # B)"
  proof (rule interval_disjoint)
    show "lo n < hi n" using assms(2) by (simp add: reg_ok_def)
    show "lo x < hi x" using assms(1) that by (auto simp: chain_def reg_ok_def)
    show "{lo n..<hi n} \<inter> {lo x..<hi x} = {}" using assms(3) that unfolding cov_def by blast
  qed
  then show "x \<in> set A \<Longrightarrow> hi n \<le> lo x \<or> hi x \<le> lo n" "x \<in> set B \<Longrightarrow> hi n \<le> lo x \<or> hi x \<le> lo n"
    by simp_all
qed

text \<open>A new block that touches a member and is disjoint from the rest extends that member.\<close>

lemma extend_up:
  assumes c: "chain (A @ (b', s') # B)" and n: "reg_ok (b, s)" "hi (b, s) = lo (b', s')"
    and d: "{lo (b, s)..<hi (b, s)} \<inter> cov (A @ (b', s') # B) = {}"
  shows "chain (A @ (b' - s, s' + s) # B)"
    and "cov (A @ (b' - s, s' + s) # B) = cov (A @ (b', s') # B) \<union> {lo (b, s)..<hi (b, s)}"
proof -
  have ok: "reg_ok (b', s')" using c by (simp add: chain_append chain_Cons)
  have "b' = b + s" using end_eq_iff [OF n(1), of "(b', s')"] n(2) by simp
  then have b: "b' - s = b" by simp
  have s: "unat (s' + s) = unat s' + unat s" using ok n by (simp add: reg_ok_def unat_add_le)
  have A: "hi r \<le> unat b" if r: "r \<in> set A" for r
    using chain_member_before(1) [OF c n(1) d r] chain_before [OF c r] n by (auto simp: reg_ok_def)
  show "chain (A @ (b' - s, s' + s) # B)" using c ok n s A
    by (auto simp: chain_append chain_Cons b reg_ok_def)
  show "cov (A @ (b' - s, s' + s) # B) = cov (A @ (b', s') # B) \<union> {lo (b, s)..<hi (b, s)}"
    using n(2) s by (auto simp: b)
qed

lemma extend_down:
  assumes c: "chain (A @ (b', s') # B)" and n: "reg_ok (b, s)" "hi (b', s') = lo (b, s)"
    and d: "{lo (b, s)..<hi (b, s)} \<inter> cov (A @ (b', s') # B) = {}"
  shows "chain (A @ (b', s' + s) # B)"
    and "cov (A @ (b', s' + s) # B) = cov (A @ (b', s') # B) \<union> {lo (b, s)..<hi (b, s)}"
proof -
  have ok: "reg_ok (b', s')" using c by (simp add: chain_append chain_Cons)
  have s: "unat (s' + s) = unat s' + unat s" using ok n by (simp add: reg_ok_def unat_add_le)
  have B: "unat b + unat s \<le> lo r" if r: "r \<in> set B" for r
    using chain_member_before(2) [OF c n(1) d r] chain_after [OF c r] n by (auto simp: reg_ok_def)
  have h: "unat b' + unat (s' + s) = unat b + unat s" using n(2) s by simp
  have "reg_ok (b', s' + s)" using ok n s by (simp add: reg_ok_def)
  then show "chain (A @ (b', s' + s) # B)" using c B
    unfolding chain_append chain_Cons fst_conv snd_conv h by auto
  show "cov (A @ (b', s' + s) # B) = cov (A @ (b', s') # B) \<union> {lo (b, s)..<hi (b, s)}"
    using n(2) s by auto
qed

lemma merge_next:
  assumes c: "chain (A @ (b1, s1) # (b2, s2) # B)" and a: "lmb_addrs_adjacent b1 s1 b2 s2 \<noteq> 0"
  shows "chain (A @ (b1, s1 + s2) # B)"
    and "cov (A @ (b1, s1 + s2) # B) = cov (A @ (b1, s1) # (b2, s2) # B)"
proof -
  have ok: "reg_ok (b1, s1)" "reg_ok (b2, s2)" "hi (b1, s1) \<le> lo (b2, s2)"
    using c by (auto simp: chain_append chain_Cons)
  have "b2 = b1 + s1"
    using a end_eq_iff [OF ok(2), of "(b1, s1)"] ok by (auto simp: lmb_addrs_adjacent_def reg_ok_def split: if_splits)
  then have e: "lo (b2, s2) = hi (b1, s1)" using end_eq_iff [OF ok(1), of "(b2, s2)"] by simp
  have s: "unat (s1 + s2) = unat s1 + unat s2" using ok e by (simp add: reg_ok_def unat_add_le)
  show "chain (A @ (b1, s1 + s2) # B)" using c e s
    by (auto simp: chain_append chain_Cons reg_ok_def)
  show "cov (A @ (b1, s1 + s2) # B) = cov (A @ (b1, s1) # (b2, s2) # B)" using e s by auto
qed

text \<open>Insertion into the sorted table.\<close>

lemma insert_loop_split:
  assumes "\<forall>r \<in> set P. fst r \<le> b" "\<forall>r \<in> set Q. b < fst r"
  shows "insert_loop (P @ Q @ g # R) b s (length (P @ Q)) =
    Some (if P = [] then hd (Q @ [g]) # Q @ R else P @ (b, s) # Q @ R)"
  using assms(2)
proof (induction Q arbitrary: g R rule: rev_induct)
  case Nil
  show ?case
  proof (cases P rule: rev_cases)
    case (snoc P' p)
    then have "\<not> b < fst p" using assms(1) by auto
    then show ?thesis using list_update_length [of "P' @ [p]" g R "(b, s)"] by (simp add: snoc nth_append)
  qed simp
next
  case (snoc q Q)
  have l: "(P @ (Q @ [q]) @ g # R)[length (P @ Q) + 1 := q] = P @ Q @ q # q # R"
    using list_update_length [of "P @ Q @ [q]" g R q] by simp
  have n: "(P @ (Q @ [q]) @ g # R) ! length (P @ Q) = q"
    using nth_append_length [of "P @ Q" q "g # R"] by simp
  have "insert_loop (P @ (Q @ [q]) @ g # R) b s (length (P @ Q @ [q])) =
      insert_loop (P @ Q @ q # q # R) b s (length (P @ Q))"
    using snoc.prems l n by simp
  with snoc.IH [of q "q # R"] snoc.prems show ?case by (cases Q) auto
qed

lemma move_down_split:
  "n = length A + 1 + length B \<Longrightarrow>
     move_down n (A @ x # B @ R) (length A) = Some (A @ B @ last (x # B) # R)"
proof (induction B arbitrary: A x)
  case Nil
  then show ?case by (subst move_down.simps) (simp add: before_last_def)
next
  case (Cons y B)
  have "(A @ x # y # B @ R)[length A := y] = (A @ [y]) @ y # B @ R" by simp
  moreover have "move_down n ((A @ [y]) @ y # B @ R) (length (A @ [y])) = Some ((A @ [y]) @ B @ last (y # B) # R)"
    using Cons.prems by (intro Cons.IH) simp
  ultimately show ?case using Cons.prems
    by (subst move_down.simps) (simp add: before_last_def nth_append)
qed

lemma chain_insert:
  assumes c: "chain (P @ Q)" and n: "reg_ok (b, s)" and d: "{lo (b, s)..<hi (b, s)} \<inter> cov (P @ Q) = {}"
    and P: "\<forall>r \<in> set P. fst r \<le> b" and Q: "\<forall>r \<in> set Q. b < fst r"
  shows "chain (P @ (b, s) # Q)"
proof -
  have dj: "hi (b, s) \<le> lo x \<or> hi x \<le> lo (b, s)" if "x \<in> set (P @ Q)" for x
  proof (rule interval_disjoint)
    show "lo (b, s) < hi (b, s)" using n by (simp add: reg_ok_def)
    show "lo x < hi x" using c that by (auto simp: chain_def reg_ok_def)
    show "{lo (b, s)..<hi (b, s)} \<inter> {lo x..<hi x} = {}" using d that unfolding cov_def by blast
  qed
  have "hi x \<le> unat b" if "x \<in> set P" for x
    using dj [of x] P that n by (auto simp: word_le_nat_alt reg_ok_def)
  moreover have "unat b + unat s \<le> lo x" if "x \<in> set Q" for x
    using dj [of x] Q that c by (auto simp: word_less_nat_alt chain_def reg_ok_def)
  ultimately show ?thesis using c n by (auto simp: chain_append chain_Cons)
qed

subsection \<open>Adding a block\<close>

definition touches :: "u32 \<times> u32 \<Rightarrow> u32 \<times> u32 \<Rightarrow> bool" where
  "touches n r \<longleftrightarrow> hi n = lo r \<or> hi r = lo n"

lemma adjacent_cases:
  assumes "reg_ok (b, s)" "reg_ok (b', s')"
  shows "lmb_addrs_adjacent b s b' s' > 0 \<longleftrightarrow> hi (b, s) = lo (b', s')"
    and "lmb_addrs_adjacent b s b' s' < 0 \<longleftrightarrow> hi (b, s) \<noteq> lo (b', s') \<and> hi (b', s') = lo (b, s)"
  using end_eq_iff [OF assms(1), of "(b', s')"] end_eq_iff [OF assms(2), of "(b, s)"]
  by (auto simp: lmb_addrs_adjacent_def)

definition extended :: "u32 \<times> u32 \<Rightarrow> u32 \<times> u32 \<Rightarrow> u32 \<times> u32" where
  "extended n r = (if hi n = lo r then (fst r - snd n, snd r + snd n) else (fst r, snd r + snd n))"

lemma coalesce_loop_none:
  assumes "region rgn = A @ B @ R" "cnt rgn = length (A @ B)"
    and "reg_ok (b, s)" "\<forall>r \<in> set B. reg_ok r \<and> \<not> touches (b, s) r \<and> r \<noteq> (b, s)"
  shows "coalesce_loop rgn b s (length A) = Some (Inr (rgn, cnt rgn, False))"
  using assms
proof (induction B arbitrary: A)
  case Nil
  then show ?case by (subst coalesce_loop.simps) simp
next
  case (Cons r B)
  obtain b' s' where r: "r = (b', s')" by fastforce
  have ok: "reg_ok (b', s')" "\<not> touches (b, s) (b', s')" "(b', s') \<noteq> (b, s)" using Cons.prems(4) by (auto simp: r)
  have "slot rgn (length A) = Some (b', s')" using Cons.prems(1) by (simp add: slot_def r)
  moreover have "coalesce_loop rgn b s (length (A @ [r])) = Some (Inr (rgn, cnt rgn, False))"
    by (rule Cons.IH) (use Cons.prems in auto)
  ultimately show ?case using ok Cons.prems(2) adjacent_cases [OF assms(3) ok(1)]
    by (subst coalesce_loop.simps) (auto simp: touches_def)
qed

lemma coalesce_loop_hit:
  assumes "region rgn = A @ B @ (b', s') # R" "length (A @ B) < cnt rgn"
    and "reg_ok (b, s)" "\<forall>r \<in> set B. reg_ok r \<and> \<not> touches (b, s) r \<and> r \<noteq> (b, s)"
    and "reg_ok (b', s')" "touches (b, s) (b', s')" "(b', s') \<noteq> (b, s)"
  shows "coalesce_loop rgn b s (length A) =
    Some (Inr (rgn\<lparr>region := A @ B @ extended (b, s) (b', s') # R\<rparr>, length (A @ B), True))"
  using assms
proof (induction B arbitrary: A)
  case Nil
  have "slot rgn (length A) = Some (b', s')" using Nil.prems(1) by (simp add: slot_def)
  then show ?case using Nil.prems adjacent_cases [OF assms(3,5)]
    by (subst coalesce_loop.simps) (auto simp: touches_def extended_def)
next
  case (Cons r B)
  obtain b2 s2 where r: "r = (b2, s2)" by fastforce
  have ok: "reg_ok (b2, s2)" "\<not> touches (b, s) (b2, s2)" "(b2, s2) \<noteq> (b, s)" using Cons.prems(4) by (auto simp: r)
  have "slot rgn (length A) = Some (b2, s2)" using Cons.prems(1) by (simp add: slot_def r)
  moreover have "coalesce_loop rgn b s (length (A @ [r])) =
      Some (Inr (rgn\<lparr>region := (A @ [r]) @ B @ extended (b, s) (b', s') # R\<rparr>, length ((A @ [r]) @ B), True))"
    by (rule Cons.IH) (use Cons.prems in auto)
  ultimately show ?case using ok Cons.prems(2) adjacent_cases [OF assms(3) ok(1)]
    by (subst coalesce_loop.simps) (auto simp: touches_def)
qed

lemma extended_ok:
  assumes c: "chain (A @ r # B)" and n: "reg_ok n" "touches n r"
    and d: "{lo n..<hi n} \<inter> cov (A @ r # B) = {}"
  shows "chain (A @ extended n r # B)" "cov (A @ extended n r # B) = cov (A @ r # B) \<union> {lo n..<hi n}"
proof -
  obtain b s b' s' where p: "n = (b, s)" "r = (b', s')" by (metis prod.collapse)
  note a = assms [unfolded p]
  have "chain (A @ extended (b, s) (b', s') # B) \<and>
      cov (A @ extended (b, s) (b', s') # B) = cov (A @ (b', s') # B) \<union> {lo (b, s)..<hi (b, s)}"
  proof (cases "hi (b, s) = lo (b', s')")
    case True
    then have e: "extended (b, s) (b', s') = (b' - s, s' + s)" by (simp add: extended_def)
    show ?thesis unfolding e using extend_up [OF a(1,2) True a(4)] by blast
  next
    case False
    then have e: "extended (b, s) (b', s') = (b', s' + s)" and t: "hi (b', s') = lo (b, s)"
      using a(3) by (auto simp: extended_def touches_def)
    show ?thesis unfolding e using extend_down [OF a(1,2) t a(4)] by blast
  qed
  then show "chain (A @ extended n r # B)" "cov (A @ extended n r # B) = cov (A @ r # B) \<union> {lo n..<hi n}"
    unfolding p by blast+
qed

lemma table_split:
  assumes "table_ok rgn"
  obtains g R where "region rgn = act rgn @ g # R" "length (act rgn) = cnt rgn" "rgn = \<lparr>cnt = cnt rgn, region = region rgn\<rparr>"
proof -
  have l: "length (act rgn) = cnt rgn" "cnt rgn < length (region rgn)"
    using assms by (simp_all add: table_ok_def act_def)
  have "region rgn = act rgn @ region rgn ! cnt rgn # drop (Suc (cnt rgn)) (region rgn)"
    unfolding act_def by (rule id_take_nth_drop [OF l(2)])
  then show ?thesis using that l by simp
qed

lemma coalesce_regions_split:
  assumes "region rgn = A @ (b1, s1) # (b2, s2) # B @ R" "cnt rgn = length A + 2 + length B"
  shows "lmb_coalesce_regions rgn (length A) (length A + 1) =
    Some \<lparr>cnt = length A + 1 + length B, region = A @ (b1, s1 + s2) # B @ last ((b2, s2) # B) # R\<rparr>"
proof -
  have u: "(region rgn)[length A := (b1, s1 + s2)] = (A @ [(b1, s1 + s2)]) @ (b2, s2) # B @ R"
    by (simp add: assms(1))
  have "move_down (cnt rgn) ((A @ [(b1, s1 + s2)]) @ (b2, s2) # B @ R) (length (A @ [(b1, s1 + s2)])) =
      Some ((A @ [(b1, s1 + s2)]) @ B @ last ((b2, s2) # B) # R)"
    by (rule move_down_split) (simp add: assms(2))
  then have "lmb_remove_region (rgn\<lparr>region := (region rgn)[length A := (b1, s1 + s2)]\<rparr>) (length A + 1) =
      Some \<lparr>cnt = length A + 1 + length B, region = A @ (b1, s1 + s2) # B @ last ((b2, s2) # B) # R\<rparr>"
    unfolding lmb_remove_region_def u by (simp add: assms(2))
  then show ?thesis by (simp add: lmb_coalesce_regions_def slot_def assms(1) nth_append)
qed

text \<open>The step after the coalescing loop, on a table whose member at index \<open>length A\<close> was extended.\<close>

definition merge_step :: "lmb_region \<Rightarrow> nat \<Rightarrow> (lmb_region \<times> int) option" where
  "merge_step rgn i =
     (if before_last i (cnt rgn) then
        Option.bind (lmb_regions_adjacent rgn i (i + 1)) (\<lambda>a.
          if a \<noteq> 0 then map_option (\<lambda>rgn. (rgn, 2)) (lmb_coalesce_regions rgn i (i + 1)) else Some (rgn, 1))
      else Some (rgn, 1))"

lemma merge_step_ok:
  assumes r: "region rgn = (A @ x # B) @ R" "cnt rgn = length (A @ x # B)" and c: "chain (A @ x # B)"
    and l: "length (region rgn) = 9" "cnt rgn \<le> 8"
  shows "\<exists>rgn' k. merge_step rgn (length A) = Some (rgn', k) \<and> 0 < k \<and> table_ok rgn' \<and>
    cov (act rgn') = cov (A @ x # B)"
proof (cases B)
  case Nil
  then show ?thesis using assms by (auto simp: merge_step_def before_last_def table_ok_def act_def)
next
  case (Cons y B')
  obtain b1 s1 b2 s2 where p: "x = (b1, s1)" "y = (b2, s2)" by (metis prod.collapse)
  have reg: "region rgn = A @ (b1, s1) # (b2, s2) # B' @ R" using r(1) by (simp add: Cons p)
  have cn: "cnt rgn = length A + 2 + length B'" using r(2) by (simp add: Cons)
  have adj: "lmb_regions_adjacent rgn (length A) (length A + 1) = Some (lmb_addrs_adjacent b1 s1 b2 s2)"
    by (simp add: lmb_regions_adjacent_def slot_def reg nth_append)
  have bl: "before_last (length A) (cnt rgn)" by (simp add: before_last_def cn)
  show ?thesis
  proof (cases "lmb_addrs_adjacent b1 s1 b2 s2 = 0")
    case True
    then show ?thesis using adj bl assms by (auto simp: merge_step_def table_ok_def act_def)
  next
    case False
    let ?rgn = "\<lparr>cnt = length A + 1 + length B', region = A @ (b1, s1 + s2) # B' @ last ((b2, s2) # B') # R\<rparr>"
    have m: "merge_step rgn (length A) = Some (?rgn, 2)"
      using adj bl False coalesce_regions_split [OF reg cn] by (simp add: merge_step_def)
    have "act ?rgn = A @ (b1, s1 + s2) # B'" by (simp add: act_def)
    moreover note merge_next [OF c [unfolded Cons p] False]
    moreover have "length (region ?rgn) = 9" "cnt ?rgn \<le> 8" using l cn reg by simp_all
    ultimately show ?thesis using m by (simp add: table_ok_def Cons p)
  qed
qed

lemma add_region_unfold:
  assumes "snd (region rgn ! 0) \<noteq> 0"
  shows "coalesce_loop rgn b s 0 = Some (Inr (rgn1, i, True)) \<Longrightarrow>
      merge_step rgn1 i = Some (rgn', k) \<Longrightarrow> k \<noteq> 0 \<Longrightarrow> lmb_add_region rgn b s = Some (k, rgn')"
    and "coalesce_loop rgn b s 0 = Some (Inr (rgn, cnt rgn, False)) \<Longrightarrow> 0 < cnt rgn \<Longrightarrow>
      lmb_add_region rgn b s =
        (if cnt rgn \<ge> MAX_LMB_REGIONS then Some (-1, rgn)
         else map_option (\<lambda>rs. (0, \<lparr>cnt = cnt rgn + 1,
                region = (if b < fst (rs ! 0) then rs[0 := (b, s)] else rs)\<rparr>))
              (insert_loop (region rgn) b s (cnt rgn)))"
  using assms
  by (auto simp: lmb_add_region_def merge_step_def before_last_def split: if_splits Option.bind_splits)

lemma chain_split_at:
  assumes "chain xs"
  shows "\<exists>P Q. xs = P @ Q \<and> (\<forall>r \<in> set P. fst r \<le> b) \<and> (\<forall>r \<in> set Q. b < fst r)"
proof -
  let ?P = "takeWhile (\<lambda>r. fst r \<le> b) xs" and ?Q = "dropWhile (\<lambda>r. fst r \<le> b) xs"
  have "b < fst r" if r: "r \<in> set ?Q" for r
  proof -
    obtain q Q where Cons: "?Q = q # Q" 
      using r by (meson list.set_cases)
    have "\<not> fst q \<le> b" using hd_dropWhile [of "\<lambda>r. fst r \<le> b" xs] Cons by simp
    moreover have "chain (q # Q)" using assms Cons by (metis chain_append takeWhile_dropWhile_id)
    ultimately show ?thesis using r Cons
      by (auto simp: chain_Cons word_less_nat_alt word_le_nat_alt not_le)
  qed
  moreover have "\<forall>r \<in> set ?P. fst r \<le> b" by (auto dest: set_takeWhileD)
  moreover have "xs = ?P @ ?Q" by simp
  ultimately show ?thesis by blast
qed

lemma insert_ok:
  assumes t: "table_ok rgn" and n: "reg_ok (b, s)" and d: "{lo (b, s)..<hi (b, s)} \<inter> cov (act rgn) = {}"
    and c: "cnt rgn < 8"
  shows "\<exists>rs. insert_loop (region rgn) b s (cnt rgn) = Some rs \<and>
    (let rgn' = \<lparr>cnt = cnt rgn + 1, region = (if b < fst (rs ! 0) then rs[0 := (b, s)] else rs)\<rparr>
     in table_ok rgn' \<and> cov (act rgn') = cov (act rgn) \<union> {lo (b, s)..<hi (b, s)})"
proof -
  obtain g R where reg: "region rgn = act rgn @ g # R" and len: "length (act rgn) = cnt rgn"
    using t by (rule table_split)
  have ch: "chain (act rgn)" and l9: "length (region rgn) = 9" and c1: "1 \<le> cnt rgn"
    using t by (simp_all add: table_ok_def)
  obtain P Q where PQ: "act rgn = P @ Q" "\<forall>r \<in> set P. fst r \<le> b" "\<forall>r \<in> set Q. b < fst r"
    using chain_split_at [OF ch] by blast
  let ?rs = "if P = [] then hd (Q @ [g]) # Q @ R else P @ (b, s) # Q @ R"
  have il: "insert_loop (region rgn) b s (cnt rgn) = Some ?rs"
    using insert_loop_split [OF PQ(2,3), of g R s] by (simp add: reg len [symmetric] PQ(1))
  have fin: "(if b < fst (?rs ! 0) then ?rs[0 := (b, s)] else ?rs) = P @ (b, s) # Q @ R"
  proof (cases P)
    case Nil
    with c1 len PQ(1) have "Q \<noteq> []" by auto
    then show ?thesis using PQ(3) Nil by (cases Q) auto
  next
    case (Cons p P')
    then show ?thesis using PQ(2) by auto
  qed
  let ?rgn = "\<lparr>cnt = cnt rgn + 1, region = P @ (b, s) # Q @ R\<rparr>"
  have "cnt rgn = length P + length Q" using len PQ(1) by simp
  then have a: "act ?rgn = P @ (b, s) # Q" by (simp add: act_def)
  have "chain (P @ (b, s) # Q)" using chain_insert [OF ch [unfolded PQ(1)] n d [unfolded PQ(1)] PQ(2,3)] .
  then have "chain (act ?rgn)" by (simp only: a)
  then have "table_ok ?rgn" using c l9 reg PQ(1) by (simp add: table_ok_def)
  moreover have "cov (act ?rgn) = cov (act rgn) \<union> {lo (b, s)..<hi (b, s)}"
    unfolding a PQ(1) by auto
  ultimately show ?thesis unfolding il Let_def by (simp only: option.inject ex_simps simp_thms fin)
qed

lemma not_member:
  assumes "reg_ok n" "{lo n..<hi n} \<inter> cov xs = {}" "r \<in> set xs"
  shows "r \<noteq> n"
proof
  assume "r = n"
  with assms(3) have "{lo n..<hi n} \<subseteq> cov xs" by (auto simp: cov_def)
  moreover have "lo n \<in> {lo n..<hi n}" using assms(1) by (simp add: reg_ok_def)
  ultimately show False using assms(2) by blast
qed

lemma add_region_ok:
  assumes t: "table_ok rgn" and n: "reg_ok (b, s)" and d: "{lo (b, s)..<hi (b, s)} \<inter> cov (act rgn) = {}"
  shows "\<exists>r rgn'. lmb_add_region rgn b s = Some (r, rgn') \<and>
    (if r < 0 then r = -1 \<and> rgn' = rgn \<and> cnt rgn = MAX_LMB_REGIONS
     else table_ok rgn' \<and> cov (act rgn') = cov (act rgn) \<union> {lo (b, s)..<hi (b, s)})"
proof -
  obtain g R where reg: "region rgn = act rgn @ g # R" and len: "length (act rgn) = cnt rgn"
    using t by (rule table_split)
  have ch: "chain (act rgn)" and l9: "length (region rgn) = 9" and c1: "1 \<le> cnt rgn" "cnt rgn \<le> 8"
    using t by (simp_all add: table_ok_def)
  have "act rgn ! 0 \<in> set (act rgn)" using len c1 by (intro nth_mem) simp
  then have "reg_ok (act rgn ! 0)" by (rule chain_reg_ok [OF ch])
  then have z: "snd (region rgn ! 0) \<noteq> 0" using len c1 by (auto simp: reg nth_append reg_ok_def)
  show ?thesis
  proof (cases "\<exists>r \<in> set (act rgn). touches (b, s) r")
    case True
    then obtain A x B where x: "act rgn = A @ x # B" "touches (b, s) x" "\<forall>r \<in> set A. \<not> touches (b, s) r"
      using split_list_first_prop [of "act rgn" "touches (b, s)"] by blast
    have okA: "\<forall>r \<in> set A. reg_ok r \<and> \<not> touches (b, s) r \<and> r \<noteq> (b, s)"
      using x ch not_member [OF n d] by (auto simp: x(1) intro: chain_reg_ok)
    have okx: "reg_ok x" "x \<noteq> (b, s)" using ch not_member [OF n d] by (auto simp: x(1) intro: chain_reg_ok)
    obtain b' s' where p: "x = (b', s')" by fastforce
    let ?e = "extended (b, s) x"
    let ?rgn1 = "rgn\<lparr>region := A @ ?e # B @ g # R\<rparr>"
    have cl: "coalesce_loop rgn b s 0 = Some (Inr (?rgn1, length A, True))"
      using coalesce_loop_hit [of rgn "[]" A b' s' "B @ g # R" b s] reg x okA okx len n
      by (simp add: p)
    note e = extended_ok [OF ch [unfolded x(1)] n x(2) d [unfolded x(1)]]
    have "length (region ?rgn1) = 9" using l9 reg x(1) by simp
    from merge_step_ok [of ?rgn1 A ?e B "g # R", OF _ _ e(1) this]
    obtain rgn' k where m: "merge_step ?rgn1 (length A) = Some (rgn', k)" "0 < k" "table_ok rgn'"
      "cov (act rgn') = cov (A @ ?e # B)" using len x(1) c1 by auto
    have "lmb_add_region rgn b s = Some (k, rgn')" using add_region_unfold(1) [OF z cl m(1)] m(2) by simp
    then show ?thesis using m e(2) x(1) by simp
  next
    case False
    then have "\<forall>r \<in> set (act rgn). reg_ok r \<and> \<not> touches (b, s) r \<and> r \<noteq> (b, s)"
      using not_member [OF n d] chain_reg_ok [OF ch] by blast
    then have cl: "coalesce_loop rgn b s 0 = Some (Inr (rgn, cnt rgn, False))"
      using coalesce_loop_none [of rgn "[]" "act rgn" "g # R" b s] reg len n by simp
    have u: "lmb_add_region rgn b s =
        (if cnt rgn \<ge> MAX_LMB_REGIONS then Some (-1, rgn)
         else map_option (\<lambda>rs. (0, \<lparr>cnt = cnt rgn + 1,
                region = (if b < fst (rs ! 0) then rs[0 := (b, s)] else rs)\<rparr>))
              (insert_loop (region rgn) b s (cnt rgn)))"
      using add_region_unfold(2) [OF z cl] c1 by simp
    show ?thesis
    proof (cases "cnt rgn < 8")
      case True
      then obtain rs where rs: "insert_loop (region rgn) b s (cnt rgn) = Some rs"
        and ok: "let rgn' = \<lparr>cnt = cnt rgn + 1, region = (if b < fst (rs ! 0) then rs[0 := (b, s)] else rs)\<rparr>
          in table_ok rgn' \<and> cov (act rgn') = cov (act rgn) \<union> {lo (b, s)..<hi (b, s)}"
        using insert_ok [OF t n d] by blast
      have "lmb_add_region rgn b s = Some (0, \<lparr>cnt = cnt rgn + 1,
          region = (if b < fst (rs ! 0) then rs[0 := (b, s)] else rs)\<rparr>)"
        using True unfolding u rs by simp
      then show ?thesis using ok unfolding Let_def by (intro exI conjI) (assumption, simp)
    next
      case full: False
      then show ?thesis using c1 unfolding u by auto
    qed
  qed
qed





definition lmb_blank :: lmb where
  "lmb_blank = lmb_init
     \<lparr>memory = \<lparr>cnt = 0, region = replicate 9 (0, 0)\<rparr>, reserved = \<lparr>cnt = 0, region = replicate 9 (0, 0)\<rparr>\<rparr>"


subsection \<open>Allocation\<close>

lemma alloc_while_safe:
  "alloc_while res sz align lmbbase base = Some b \<Longrightarrow>
     b \<noteq> 0 \<and> lmbbase \<le> b \<and> b \<le> base \<and> lmb_overlaps_region res b sz = None \<and>
     (b = base \<or> (\<exists>x. b = lmb_align_down x align))"
proof (induction res sz align lmbbase base rule: alloc_while.induct)
  case (1 res sz align lmbbase base)
  show ?case
  proof (cases "lmb_overlaps_region res base sz")
    case None
    then show ?thesis using 1(2) by (auto simp: alloc_while.simps [of res sz align lmbbase base] split: if_splits)
  next
    case (Some j)
    let ?b = "fst (region res ! j)" and ?d = "lmb_align_down (fst (region res ! j) - sz) align"
    have c: "base \<noteq> 0 \<and> lmbbase \<le> base" "\<not> ?b < sz" "alloc_while res sz align lmbbase ?d = Some b"
      using 1(2) Some by (auto simp: alloc_while.simps [of res sz align lmbbase base] Let_def split: if_splits)
    have "lmb_addrs_overlap base sz ?b (snd (region res ! j))"
      using Some overlaps_from_Some by (fastforce simp: lmb_overlaps_region_def)
    then have "?d < base" using overlap_moves_down c(2) by (simp add: word_less_nat_alt)
    moreover have "b \<noteq> 0 \<and> lmbbase \<le> b \<and> b \<le> ?d \<and> lmb_overlaps_region res b sz = None \<and>
        (b = ?d \<or> (\<exists>x. b = lmb_align_down x align))"
      using 1(1) [OF c(1) Some refl c(2,3)] .
    ultimately show ?thesis by auto
  qed
qed

lemma align_down_aligned: "lmb_align_down x al AND (al - 1) = 0"
  unfolding lmb_align_down_def by (rule bit_word_eqI) (auto simp: bit_simps)

lemma no_overlap_nat:
  assumes "\<not> lmb_addrs_overlap b sz b' s'" "unat b + unat sz < 2 ^ 32" "unat b' + unat s' < 2 ^ 32"
  shows "{unat b..<unat b + unat sz} \<inter> {unat b'..<unat b' + unat s'} = {}"
  using assms by (auto simp: lmb_addrs_overlap_def word_less_nat_alt unat_add_le)

lemma overlaps_None_cov:
  assumes "lmb_overlaps_region rgn b sz = None" "unat b + unat sz < 2 ^ 32"
    "\<forall>r \<in> set (act rgn). hi r < 2 ^ 32"
  shows "{unat b..<unat b + unat sz} \<inter> cov (act rgn) = {}"
proof -
  have "{unat b..<unat b + unat sz} \<inter> {lo r..<hi r} = {}" if r: "r \<in> set (act rgn)" for r
  proof -
    obtain j where j: "r = region rgn ! j" "j < cnt rgn" "j < length (region rgn)"
      using r by (auto simp: act_def in_set_conv_nth)
    have "\<not> lmb_addrs_overlap b sz (fst r) (snd r)"
      using overlaps_from_None [of rgn b sz 0 j] assms(1) j by (simp add: lmb_overlaps_region_def)
    then show ?thesis using no_overlap_nat assms(2,3) r by blast
  qed
  then show ?thesis unfolding cov_def by blast
qed

definition alloc_ok :: "lmb \<Rightarrow> u32 \<Rightarrow> u32 \<Rightarrow> u32 \<Rightarrow> u32 \<Rightarrow> bool" where
  "alloc_ok l sz align max_addr b \<longleftrightarrow> b AND (align - 1) = 0
     \<and> (\<exists>r \<in> set (act (memory l)). lo r \<le> unat b \<and> unat b + unat sz \<le> hi r)
     \<and> (max_addr = 0 \<or> unat b + unat sz \<le> unat max_addr)
     \<and> {unat b..<unat b + unat sz} \<inter> cov (act (reserved l)) = {}"

text \<open>The start of the search in a block: the block's end or the limit, whichever is lower, minus the size.\<close>

lemma alloc_start:
  assumes "reg_ok (mb, ms)" "\<not> ms < sz" "max_addr = 0 \<or> sz \<le> max_addr"
    "base = (if max_addr = 0 then lmb_align_down (mb + ms - sz) align
             else lmb_align_down (min (mb + ms) max_addr - sz) align)"
  shows "unat base + unat sz \<le> hi (mb, ms) \<and> (max_addr = 0 \<or> unat base + unat sz \<le> unat max_addr)"
proof -
  have e: "unat (mb + ms) = hi (mb, ms)" using unat_end [OF assms(1)] by simp
  have le: "unat sz \<le> unat ms" using assms(2) by (simp add: word_less_nat_alt)
  show ?thesis
  proof (cases "max_addr = 0")
    case True
    have "unat base \<le> unat (mb + ms - sz)"
      using align_down_le [of "mb + ms - sz" align] True assms(4) by (simp add: word_le_nat_alt)
    also have "\<dots> = hi (mb, ms) - unat sz"
      using e le by (subst unat_sub_le) (auto simp: word_le_nat_alt)
    finally show ?thesis using le True by auto
  next
    case False
    let ?m = "min (mb + ms) max_addr"
    have m: "unat ?m \<le> hi (mb, ms)" "unat ?m \<le> unat max_addr"
      using e by (auto simp: min_def word_le_nat_alt)
    have "sz \<le> ?m" using e le False assms(3) by (auto simp: min_def word_le_nat_alt)
    moreover have "unat base \<le> unat (?m - sz)"
      using align_down_le [of "?m - sz" align] False assms(4) by (simp add: word_le_nat_alt)
    ultimately have "unat base + unat sz \<le> unat ?m"
      by (simp add: unat_sub_le word_le_nat_alt)
    then show ?thesis using m by linarith
  qed
qed

lemma alloc_loop_safe:
  assumes "alloc_loop l sz align max_addr k = Some (b, l')" "b \<noteq> 0" "k \<le> cnt (memory l)"
    "table_ok (memory l)" "\<forall>r \<in> set (act (reserved l)). hi r < 2 ^ 32" "max_addr = 0 \<or> sz \<le> max_addr"
  shows "alloc_ok l sz align max_addr b"
  using assms(1,3)
proof (induction k)
  case 0
  then show ?case using assms(2) by simp
next
  case (Suc i)
  have i: "i < cnt (memory l)" "i < length (region (memory l))"
    using Suc.prems(2) assms(4) by (auto simp: table_ok_def)
  obtain mb ms where m: "region (memory l) ! i = (mb, ms)" by fastforce
  have mem: "(mb, ms) \<in> set (act (memory l))" using i m by (force simp: act_def in_set_conv_nth)
  have ok: "reg_ok (mb, ms)" using assms(4) chain_reg_ok mem by (auto simp: table_ok_def)
  show ?case
  proof (cases "alloc_loop l sz align max_addr i = Some (b, l')")
    case True
    then show ?thesis using Suc.IH i by simp
  next
    case False
    let ?base = "if max_addr = 0 then lmb_align_down (mb + ms - sz) align
             else lmb_align_down (min (mb + ms) max_addr - sz) align"
    have sl: "slot (memory l) i = Some (mb, ms)" using i m by (simp add: slot_def)
    have w: "\<not> ms < sz" "alloc_while (reserved l) sz align mb ?base = Some b"
      using Suc.prems(1) False sl assms(2) by (auto simp: Let_def split: if_splits option.splits)
    note s = alloc_while_safe [OF w(2)]
    have base: "unat ?base + unat sz \<le> hi (mb, ms)" "max_addr = 0 \<or> unat ?base + unat sz \<le> unat max_addr"
      using alloc_start [OF ok w(1) assms(6) refl] by blast+
    have "unat b \<le> unat ?base" using s by (simp only: word_le_nat_alt)
    then have b: "unat b + unat sz \<le> hi (mb, ms)" "max_addr = 0 \<or> unat b + unat sz \<le> unat max_addr"
      using base by linarith+
    then have nw: "unat b + unat sz < 2 ^ 32" using ok by (simp add: reg_ok_def)
    have "\<exists>x. b = lmb_align_down x align" using s by metis
    then have "b AND (align - 1) = 0" using align_down_aligned by auto
    moreover have "\<exists>r \<in> set (act (memory l)). lo r \<le> unat b \<and> unat b + unat sz \<le> hi r"
      using s b(1) by (intro bexI [OF _ mem]) (simp add: word_le_nat_alt)
    ultimately show ?thesis using b(2) s overlaps_None_cov [OF _ nw assms(5)] by (simp add: alloc_ok_def)
  qed
qed

text \<open>C33: an address that \<^verbatim>\<open>lmb_alloc_base\<close> returns is aligned, the block lies inside one block of memory and below the limit, and
  no address of it was reserved, provided the limit is not smaller than the size.\<close>

theorem lmb_alloc_base_safe:
  assumes "lmb_alloc_base l sz align max_addr = Some (b, l')" and "b \<noteq> 0" and "table_ok (memory l)"
    and "\<forall>r \<in> set (act (reserved l)). hi r < 2 ^ 32" and "max_addr = 0 \<or> sz \<le> max_addr"
  shows "alloc_ok l sz align max_addr b"
  by (rule alloc_loop_safe [OF assms(1) [unfolded lmb_alloc_base_def] assms(2) le_refl assms(3-5)])

definition lmb_sample :: lmb where
  "lmb_sample =
     \<lparr>memory = \<lparr>cnt = 1, region = (0, 0x4000000) # replicate 8 (0, 0)\<rparr>,
      reserved = \<lparr>cnt = 1, region = (0x3F00000, 0x100000) # replicate 8 (0, 0)\<rparr>\<rparr>"

theorem lmb_alloc_base_safe_witness:
  "alloc_ok lmb_sample 0x2000 0x1000 0 0x3EFE000"
proof -
  have "map_option fst (lmb_alloc_base lmb_sample 0x2000 0x1000 0) = Some 0x3EFE000" by code_simp
  then obtain l' where "lmb_alloc_base lmb_sample 0x2000 0x1000 0 = Some (0x3EFE000, l')" by auto
  from lmb_alloc_base_safe [OF this] show ?thesis
    by (simp add: lmb_sample_def table_ok_def act_def chain_Cons reg_ok_def)
qed

text \<open>With a limit below the size the subtraction wraps and \<^verbatim>\<open>lmb_alloc_base\<close> returns an address near the top of the address
  space that is in no block of memory.\<close>

theorem lmb_alloc_base_limit_wraps:
  "map_option fst (lmb_alloc_base lmb_sample 0x1000 0x100 0x800) = Some 0xFFFFF800
    \<and> 0xFFFFF800 \<notin> cov (act (memory lmb_sample))"
proof
  show "map_option fst (lmb_alloc_base lmb_sample 0x1000 0x100 0x800) = Some 0xFFFFF800" by code_simp
  show "0xFFFFF800 \<notin> cov (act (memory lmb_sample))" by (simp add: lmb_sample_def act_def)
qed

subsection \<open>Release\<close>

definition inside :: "u32 \<times> u32 \<Rightarrow> u32 \<times> u32 \<Rightarrow> bool" where
  "inside n x \<longleftrightarrow> lo x \<le> lo n \<and> hi n \<le> hi x"

lemma find_containing_step:
  assumes "region rgn = A @ x # R" "length A < cnt rgn" "reg_ok x" "reg_ok (b, s)"
  shows "find_containing rgn b (b + s) (length A) =
    (if inside (b, s) x then Some (Some (length A)) else find_containing rgn b (b + s) (length (A @ [x])))"
proof -
  obtain b' s' where x: "x = (b', s')" by fastforce
  have "slot rgn (length A) = Some (b', s')" using assms(1) by (simp add: slot_def x)
  moreover have "b' \<le> b \<and> b + s \<le> b' + s' \<longleftrightarrow> inside (b, s) x"
    using unat_end [OF assms(3)] unat_end [OF assms(4)] by (simp add: x word_le_nat_alt inside_def)
  ultimately show ?thesis using assms(2) by (subst find_containing.simps) simp
qed

lemma find_containing_skip:
  assumes "region rgn = A @ B @ R" "length (A @ B) \<le> cnt rgn" "\<forall>x \<in> set B. reg_ok x \<and> \<not> inside (b, s) x"
    "reg_ok (b, s)"
  shows "find_containing rgn b (b + s) (length A) = find_containing rgn b (b + s) (length (A @ B))"
  using assms
proof (induction B arbitrary: A)
  case (Cons x B)
  have "find_containing rgn b (b + s) (length (A @ [x])) = find_containing rgn b (b + s) (length ((A @ [x]) @ B))"
    by (rule Cons.IH) (use Cons.prems in simp_all)
  then show ?case using Cons.prems find_containing_step [of rgn A x "B @ R" b s] by simp
qed simp

lemma cov_minus:
  assumes "chain (A @ x # B)" "lo x \<le> a" "a \<le> e" "e \<le> hi x"
  shows "cov (A @ x # B) - {a..<e} = cov A \<union> {lo x..<a} \<union> {e..<hi x} \<union> cov B"
proof -
  have out: "y \<notin> {lo x..<hi x}" if "y \<in> cov A \<union> cov B" for y
    using that chain_disjoint [OF assms(1)] by (fastforce simp: cov_def)
  have "y \<notin> {a..<e}" if "y \<in> cov A \<union> cov B" for y using out [OF that] assms(2,4) by auto
  then have "(cov A \<union> cov B) - {a..<e} = cov A \<union> cov B" by blast
  moreover have "{lo x..<hi x} - {a..<e} = {lo x..<a} \<union> {e..<hi x}" using assms(2-4) by auto
  ultimately show ?thesis by auto
qed

lemma chain_replace:
  assumes "chain (A @ x # B)" "reg_ok y" "lo x \<le> lo y" "hi y \<le> hi x"
  shows "chain (A @ y # B)"
  using assms by (auto simp: chain_append chain_Cons)

lemma chain_delete: "chain (A @ x # B) \<Longrightarrow> chain (A @ B)"
  by (simp add: chain_append chain_Cons)

text \<open>The four ways a block inside a reserved one is released, on the list of reserved blocks.\<close>

lemma free_split:
  assumes t: "table_ok (reserved l)" and n: "reg_ok (b, s)"
    and r: "region (reserved l) = A @ (rb, rs) # B @ g # R" "act (reserved l) = A @ (rb, rs) # B"
    and nA: "\<forall>x \<in> set A. \<not> inside (b, s) x" and ins: "inside (b, s) (rb, rs)"
  shows "lmb_free l b s =
    (if rb = b \<and> rb + rs = b + s then
       Some (0, l\<lparr>reserved := \<lparr>cnt = cnt (reserved l) - 1, region = A @ B @ last ((rb, rs) # B) # g # R\<rparr>\<rparr>)
     else if rb = b then
       Some (0, l\<lparr>reserved := (reserved l)\<lparr>region := A @ (b + s, rs - s) # B @ g # R\<rparr>\<rparr>)
     else if rb + rs = b + s then
       Some (0, l\<lparr>reserved := (reserved l)\<lparr>region := A @ (rb, rs - s) # B @ g # R\<rparr>\<rparr>)
     else map_option (\<lambda>(r, rgn). (r, l\<lparr>reserved := rgn\<rparr>))
       (lmb_add_region ((reserved l)\<lparr>region := A @ (rb, b - rb) # B @ g # R\<rparr>) (b + s) (rb + rs - (b + s))))"
proof -
  have ch: "chain (A @ (rb, rs) # B)" using t r(2) by (simp add: table_ok_def)
  have "length (act (reserved l)) = cnt (reserved l)" using t by (simp add: table_ok_def act_def)
  then have c: "cnt (reserved l) = length A + 1 + length B" by (simp add: r(2))
  have ok: "\<forall>x \<in> set A. reg_ok x \<and> \<not> inside (b, s) x" "reg_ok (rb, rs)"
    using ch nA chain_before [OF ch] by (auto simp: chain_append chain_Cons)
  have "find_containing (reserved l) b (b + s) (length ([] :: (u32 \<times> u32) list))
      = find_containing (reserved l) b (b + s) (length ([] @ A))"
    by (rule find_containing_skip [where R = "(rb, rs) # B @ g # R"]) (use r(1) c ok n in simp_all)
  also have "\<dots> = Some (Some (length A))"
    using find_containing_step [of "reserved l" A "(rb, rs)" "B @ g # R" b s] r(1) c ok n ins by simp
  finally have f: "find_containing (reserved l) b (b + s) 0 = Some (Some (length A))" by simp
  have m: "lmb_remove_region (reserved l) (length A) =
      Some \<lparr>cnt = cnt (reserved l) - 1, region = A @ B @ last ((rb, rs) # B) # g # R\<rparr>"
    using move_down_split [of "cnt (reserved l)" A B "(rb, rs)" "g # R"] c r(1)
    by (simp add: lmb_remove_region_def)
  show ?thesis by (simp add: lmb_free_def Let_def f m r(1) split: prod.splits)
qed

lemma act_replaced:
  assumes "length A + 1 + length B = cnt rgn"
  shows "act (rgn\<lparr>region := A @ y # B @ R\<rparr>) = A @ y # B"
proof -
  have "cnt rgn = length (A @ y # B)" using assms by simp
  then show ?thesis by (simp add: act_def)
qed

lemma table_ok_replaced:
  assumes "table_ok rgn" "region rgn = A @ x # B @ R" "act rgn = A @ x # B" "chain (A @ y # B)"
  shows "table_ok (rgn\<lparr>region := A @ y # B @ R\<rparr>)"
    and "act (rgn\<lparr>region := A @ y # B @ R\<rparr>) = A @ y # B"
proof -
  have "length (act rgn) = cnt rgn" using assms(1) by (simp add: table_ok_def act_def)
  then have "length A + 1 + length B = cnt rgn" by (simp add: assms(3))
  then show a: "act (rgn\<lparr>region := A @ y # B @ R\<rparr>) = A @ y # B" by (rule act_replaced)
  show "table_ok (rgn\<lparr>region := A @ y # B @ R\<rparr>)"
    using assms(1,2,4) a by (simp add: table_ok_def)
qed

lemma free_outside:
  assumes "table_ok (reserved l)" "reg_ok (b, s)" "\<forall>x \<in> set (act (reserved l)). \<not> inside (b, s) x"
  shows "lmb_free l b s = Some (-1, l)"
proof -
  obtain g R where reg: "region (reserved l) = act (reserved l) @ g # R"
    and len: "length (act (reserved l)) = cnt (reserved l)" using assms(1) by (rule table_split)
  have "chain (act (reserved l))" using assms(1) by (simp add: table_ok_def)
  then have "\<forall>x \<in> set (act (reserved l)). reg_ok x \<and> \<not> inside (b, s) x"
    using assms(3) chain_reg_ok by blast
  then have "find_containing (reserved l) b (b + s) 0 = find_containing (reserved l) b (b + s) (cnt (reserved l))"
    using find_containing_skip [of "reserved l" "[]" "act (reserved l)" "g # R" b s] reg len assms(2) by simp
  then show ?thesis by (simp add: lmb_free_def Let_def find_containing.simps [of _ _ _ "cnt (reserved l)"])
qed

definition free_ok :: "lmb \<Rightarrow> u32 \<times> u32 \<Rightarrow> u32 \<times> u32 \<Rightarrow> int \<Rightarrow> lmb \<Rightarrow> bool" where
  "free_ok l n x r l' \<longleftrightarrow> memory l' = memory l \<and> chain (act (reserved l')) \<and>
     (if r < 0 then cnt (reserved l) = MAX_LMB_REGIONS \<and>
        cov (act (reserved l')) = cov (act (reserved l)) - {lo n..<hi x}
      else cov (act (reserved l')) = cov (act (reserved l)) - {lo n..<hi n})"

lemma free_inside:
  assumes t: "table_ok (reserved l)" and n: "reg_ok (b, s)"
    and r: "region (reserved l) = A @ (rb, rs) # B @ g # R" "act (reserved l) = A @ (rb, rs) # B"
    and nA: "\<forall>x \<in> set A. \<not> inside (b, s) x" and ins: "inside (b, s) (rb, rs)"
  shows "\<exists>k l'. lmb_free l b s = Some (k, l') \<and> free_ok l (b, s) (rb, rs) k l'"
proof -
  have ch: "chain (A @ (rb, rs) # B)" using t r(2) by (simp add: table_ok_def)
  have okx: "reg_ok (rb, rs)" using ch by (simp add: chain_append chain_Cons)
  have "length (act (reserved l)) = cnt (reserved l)" using t by (simp add: table_ok_def act_def)
  then have len: "length A + 1 + length B = cnt (reserved l)" by (simp add: r(2))
  have le: "unat rb \<le> unat b" "unat b + unat s \<le> unat rb + unat rs" using ins by (simp_all add: inside_def)
  have e: "unat (b + s) = unat b + unat s" "unat (rb + rs) = unat rb + unat rs"
    using unat_end [OF n] unat_end [OF okx] by simp_all
  have eq: "rb + rs = b + s \<longleftrightarrow> unat rb + unat rs = unat b + unat s" using e by (metis unsigned_word_eqI)
  have eqb: "rb = b \<longleftrightarrow> unat rb = unat b" by (metis unsigned_word_eqI)
  have pos: "0 < unat s" "0 < unat rs" "unat rb + unat rs < 2 ^ 32" using n okx by (simp_all add: reg_ok_def)
  note fr = free_split [OF t n r nA ins]
  note rep = table_ok_replaced [OF t r]
  note cm = cov_minus [OF ch, unfolded fst_conv snd_conv]
  consider (whole) "rb = b" "rb + rs = b + s" | (front) "rb = b" "rb + rs \<noteq> b + s"
    | (rear) "rb \<noteq> b" "rb + rs = b + s" | (hole) "rb \<noteq> b" "rb + rs \<noteq> b + s" by blast
  then show ?thesis
  proof cases
    case whole
    let ?l = "l\<lparr>reserved := \<lparr>cnt = cnt (reserved l) - 1, region = A @ B @ last ((rb, rs) # B) # g # R\<rparr>\<rparr>"
    have a: "act (reserved ?l) = A @ B" using len [symmetric] by (simp add: act_def)
    have "cov (A @ B) = cov (A @ (rb, rs) # B) - {unat b..<unat b + unat s}"
      using cm [of "unat b" "unat b + unat s"] le whole eq eqb by simp
    then have "free_ok l (b, s) (rb, rs) 0 ?l" unfolding free_ok_def a
      using chain_delete [OF ch] by (simp add: r(2))
    then show ?thesis using fr whole by auto
  next
    case front
    let ?y = "(b + s, rs - s)"
    let ?l = "l\<lparr>reserved := (reserved l)\<lparr>region := A @ ?y # B @ g # R\<rparr>\<rparr>"
    have s: "unat (rs - s) = unat rs - unat s" using le front(1)
      by (intro unat_sub_le) (simp add: word_le_nat_alt)
    have lt: "unat s < unat rs" using front le eq by simp
    have y: "hi ?y = unat rb + unat rs" using s e lt front(1) by simp
    have "reg_ok ?y" using s lt y pos by (simp add: reg_ok_def)
    then have c: "chain (A @ ?y # B)" using chain_replace [OF ch, of ?y] e le y by simp
    have "cov (A @ (rb, rs) # B) - {unat b..<unat b + unat s}
        = cov A \<union> {unat b + unat s..<unat rb + unat rs} \<union> cov B"
      using cm [of "unat b" "unat b + unat s"] le front(1) by simp
    moreover have "cov (A @ ?y # B) = cov A \<union> ({unat b + unat s..<unat rb + unat rs} \<union> cov B)"
      unfolding cov_simps y by (simp add: e)
    ultimately have "cov (A @ ?y # B) = cov (A @ (rb, rs) # B) - {unat b..<unat b + unat s}"
      by (simp add: Un_assoc)
    then have "free_ok l (b, s) (rb, rs) 0 ?l" unfolding free_ok_def
      using rep(2) [OF c] c by (simp add: r(2))
    then show ?thesis using fr front by auto
  next
    case rear
    let ?y = "(rb, rs - s)"
    let ?l = "l\<lparr>reserved := (reserved l)\<lparr>region := A @ ?y # B @ g # R\<rparr>\<rparr>"
    have h: "unat rb + unat rs = unat b + unat s" using rear eq by simp
    have lt: "unat rb < unat b" using rear(1) eqb le by simp
    have s: "unat (rs - s) = unat rs - unat s" using h le by (intro unat_sub_le) (simp add: word_le_nat_alt)
    have y: "hi ?y = unat b" using s h lt by simp
    have "reg_ok ?y" using s lt y pos h by (simp add: reg_ok_def)
    then have c: "chain (A @ ?y # B)" using chain_replace [OF ch, of ?y] y h by simp
    have "cov (A @ ?y # B) = cov (A @ (rb, rs) # B) - {unat b..<unat b + unat s}"
      using cm [of "unat b" "unat b + unat s"] le h y by auto
    then have "free_ok l (b, s) (rb, rs) 0 ?l" unfolding free_ok_def
      using rep(2) [OF c] c by (simp add: r(2))
    then show ?thesis using fr rear by auto
  next
    case hole
    let ?y = "(rb, b - rb)" and ?z = "(b + s, rb + rs - (b + s))"
    let ?rgn = "(reserved l)\<lparr>region := A @ ?y # B @ g # R\<rparr>"
    have lt: "unat rb < unat b" "unat b + unat s < unat rb + unat rs" using hole eq eqb le by auto
    have y: "unat (b - rb) = unat b - unat rb" using lt by (intro unat_sub_le) (simp add: word_le_nat_alt)
    have z: "unat (rb + rs - (b + s)) = unat rb + unat rs - (unat b + unat s)"
      using lt e unat_sub_le [of "b + s" "rb + rs"] by (simp add: word_le_nat_alt)
    have hy: "hi ?y = unat b" using y lt by simp
    have hz: "lo ?z = unat b + unat s" "hi ?z = unat rb + unat rs" using z e lt by simp_all
    have iz: "{lo ?z..<hi ?z} = {unat b + unat s..<unat rb + unat rs}"
      unfolding hz(2) by (simp only: hz(1))
    have oky: "reg_ok ?y" using y lt pos by (simp add: reg_ok_def)
    have okz: "reg_ok ?z" unfolding reg_ok_def hz(2) using z lt pos by simp
    have c: "chain (A @ ?y # B)" using chain_replace [OF ch oky] hy lt by simp
    have cy: "cov (A @ ?y # B) = cov (A @ (rb, rs) # B) - {unat b..<unat rb + unat rs}"
      using cm [of "unat b" "unat rb + unat rs"] lt hy by auto
    then have "{lo ?z..<hi ?z} \<inter> cov (act ?rgn) = {}" unfolding rep(2) [OF c] iz using lt by auto
    from add_region_ok [OF rep(1) [OF c] okz this] obtain k rgn' where
      k: "lmb_add_region ?rgn (b + s) (rb + rs - (b + s)) = Some (k, rgn')"
      "if k < 0 then k = -1 \<and> rgn' = ?rgn \<and> cnt ?rgn = MAX_LMB_REGIONS
       else table_ok rgn' \<and> cov (act rgn') = cov (act ?rgn) \<union> {lo ?z..<hi ?z}" by blast
    have "cov (A @ ?y # B) \<union> {lo ?z..<hi ?z} = cov (A @ (rb, rs) # B) - {unat b..<unat b + unat s}"
      using cm [of "unat b" "unat b + unat s"] lt hy unfolding iz by auto
    then have "free_ok l (b, s) (rb, rs) k (l\<lparr>reserved := rgn'\<rparr>)"
      using k(2) c cy rep(2) [OF c] unfolding free_ok_def
      by (auto simp: r(2) table_ok_def split: if_splits)
    then show ?thesis using fr hole k(1) by auto
  qed
qed

text \<open>C32: releasing a range inside a reserved block removes exactly its addresses from the reserved ones, whether it is the whole
  block, its front, its end or a hole in the middle; releasing anything else returns -1 and changes nothing; if a hole needs
  a ninth slot, -1 is returned after everything from the hole to the end of the block was released.\<close>

theorem lmb_free_correct:
  assumes "table_ok (reserved l)" and "reg_ok (base, sz)"
  shows "(\<exists>x \<in> set (act (reserved l)). inside (base, sz) x \<and>
      (\<exists>r l'. lmb_free l base sz = Some (r, l') \<and> free_ok l (base, sz) x r l')) \<or>
    (\<forall>x \<in> set (act (reserved l)). \<not> inside (base, sz) x) \<and> lmb_free l base sz = Some (-1, l)"
proof (cases "\<exists>x \<in> set (act (reserved l)). inside (base, sz) x")
  case True
  then obtain A x B where x: "act (reserved l) = A @ x # B" "inside (base, sz) x"
    "\<forall>y \<in> set A. \<not> inside (base, sz) y"
    using split_list_first_prop [of "act (reserved l)" "inside (base, sz)"] by blast
  obtain g R where reg: "region (reserved l) = act (reserved l) @ g # R" using assms(1) by (rule table_split)
  obtain rb rs where p: "x = (rb, rs)" by fastforce
  have "region (reserved l) = A @ (rb, rs) # B @ g # R" using reg by (simp add: x(1) p)
  from free_inside [OF assms this x(1) [unfolded p] x(3) x(2) [unfolded p]] x(1,2) show ?thesis
    by (intro disjI1 bexI [of _ x]) (simp_all add: p)
next
  case False
  then show ?thesis using free_outside [OF assms] by blast
qed

theorem lmb_free_correct_witness:
  "\<exists>x r l'. lmb_free lmb_sample 0x3F10000 0x1000 = Some (r, l') \<and> free_ok lmb_sample (0x3F10000, 0x1000) x r l'"
proof -
  have a: "act (reserved lmb_sample) = [(0x3F00000, 0x100000)]" by (simp add: lmb_sample_def act_def)
  have t: "table_ok (reserved lmb_sample)" unfolding table_ok_def a
    by (simp add: lmb_sample_def chain_Cons reg_ok_def)
  have n: "reg_ok (0x3F10000, 0x1000)" by (simp add: reg_ok_def)
  show ?thesis using lmb_free_correct [OF t n] unfolding a by (auto simp: inside_def)
qed

text \<open>Freeing the last block leaves a count of zero, with which the next reservation compares stale slots; after a history of
  ordinary reservations and releases it runs off the end of the table.\<close>

theorem lmb_reserve_after_last_free_faults:
  "Option.bind (lmb_reserve lmb_blank 0x1000 0x1000) (\<lambda>(r1, l).
   Option.bind (lmb_reserve l 0x3000 0x1000) (\<lambda>(r2, l).
   Option.bind (lmb_reserve l 0x2000 0x1000) (\<lambda>(r3, l).
   Option.bind (lmb_free l 0x3000 0x1000) (\<lambda>(r4, l).
   Option.bind (lmb_free l 0x1000 0x2000) (\<lambda>(r5, l).
     Some ([r1, r2, r3, r4, r5], lmb_reserve l 0x8000 0x1000))))))
   = Some ([0, 0, 2, 0, 0], None)"
  by code_simp

end
