(* ===== verification/Date.thy ===== *)
theory Date
  imports Nvram
begin

text \<open>
  Calendar arithmetic (\<^verbatim>\<open>drivers/rtc/date.c\<close>) and the \<^verbatim>\<open>date\<close> command (\<^verbatim>\<open>common/cmd_date.c\<close>). Signed C
  integers of the date structure are \<open>int\<close> with C's truncating division; \<^verbatim>\<open>mktime\<close> computes on 32-bit words.
  \<open>None\<close> is a read outside the month tables.
\<close>

subsection \<open>Definitions\<close>

definition leapyear :: "int \<Rightarrow> bool" where
  "leapyear year \<longleftrightarrow> year smod 4 = 0"

definition days_in_year :: "int \<Rightarrow> int" where
  "days_in_year a = (if leapyear a then 366 else 365)"

definition month_days :: "int list" where
  "month_days = [31, 28, 31, 30, 31, 30, 31, 31, 30, 31, 30, 31]"

definition MonthOffset :: "int list" where
  "MonthOffset = [0, 31, 59, 90, 120, 151, 181, 212, 243, 273, 304, 334]"

definition GregorianDay :: "rtc_time \<Rightarrow> rtc_time option" where
  "GregorianDay tm =
     (let lastYear = tm_year tm - 1;
          leapsToDate = lastYear sdiv 4 - lastYear sdiv 100 + lastYear sdiv 400;
          day = (if tm_year tm smod 4 = 0 \<and> (tm_year tm smod 100 \<noteq> 0 \<or> tm_year tm smod 400 = 0) \<and> tm_mon tm > 2
                 then 1 else 0)
      in if 1 \<le> tm_mon tm \<and> tm_mon tm \<le> 12
         then Some (tm\<lparr>tm_wday := (day + lastYear * 365 + leapsToDate + MonthOffset ! nat (tm_mon tm - 1)
                                   + tm_mday tm) smod 7\<rparr>)
         else None)"

function year_loop :: "int \<Rightarrow> int \<Rightarrow> int \<times> int" where
  "year_loop i day =
     (if day \<ge> days_in_year i then year_loop (i + 1) (day - days_in_year i) else (i, day))"
  by pat_completeness auto
termination by (relation "measure (\<lambda>(i, day). nat day)") (auto simp: days_in_year_def split: if_splits)

declare year_loop.simps [simp del]

fun month_loop :: "int \<Rightarrow> int \<Rightarrow> int list \<Rightarrow> (int \<times> int) option" where
  "month_loop i day [] = None"
| "month_loop i day (d # ds) = (if day \<ge> d then month_loop (i + 1) (day - d) ds else Some (i, day))"

definition to_tm :: "int \<Rightarrow> rtc_time \<Rightarrow> rtc_time option" where
  "to_tm tim tm =
     (let day = tim sdiv 86400; hms = tim smod 86400;
          tm = tm\<lparr>tm_hour := hms sdiv 3600, tm_min := (hms smod 3600) sdiv 60, tm_sec := (hms smod 3600) smod 60\<rparr>;
          (year, day) = year_loop 1970 day;
          md = (if leapyear year then month_days[1 := 29] else month_days)
      in case month_loop 1 day md of
           None \<Rightarrow> None
         | Some (mon, day) \<Rightarrow> GregorianDay (tm\<lparr>tm_year := year, tm_mon := mon, tm_mday := day + 1\<rparr>))"

definition mktime :: "u32 \<Rightarrow> u32 \<Rightarrow> u32 \<Rightarrow> u32 \<Rightarrow> u32 \<Rightarrow> u32 \<Rightarrow> u32" where
  "mktime year mon day hour minute sec =
     (let mon = mon - 2;
          (mon, year) = (if 0 \<ge> sint mon then (mon + 12, year - 1) else (mon, year))
      in (((year div 4 - year div 100 + year div 400 + 367 * mon div 12 + day + year * 365 - 719499) * 24 + hour) * 60
          + minute) * 60 + sec)"

subsection \<open>The date command\<close>

definition cnvrt2 :: "cstr \<Rightarrow> int option" where
  "cnvrt2 str =
     (let c = peek str; d = peek (tl str)
      in if c < ch CHR ''0'' \<or> c > ch CHR ''9'' then None
         else if d < ch CHR ''0'' \<or> d > ch CHR ''9'' then None
         else Some (10 * (uint c - 0x30) + (uint d - 0x30)))"

text \<open>The result code, with the structure as it is left; the outer \<open>None\<close> is the read outside a table in
  \<^verbatim>\<open>GregorianDay\<close>.\<close>

definition mk_date_fields :: "cstr \<Rightarrow> rtc_time \<Rightarrow> (int \<times> rtc_time) option" where
  "mk_date_fields datestr tmp =
     (case cnvrt2 datestr of None \<Rightarrow> Some (-1, tmp) | Some val \<Rightarrow>
      if val > 12 then Some (-1, tmp) else
      let tmp = tmp\<lparr>tm_mon := val\<rparr> in
      case cnvrt2 (drop 2 datestr) of None \<Rightarrow> Some (-1, tmp) | Some val \<Rightarrow>
      if val > (if tm_mon tmp = 2 then 29 else 31) then Some (-1, tmp) else
      let tmp = tmp\<lparr>tm_mday := val\<rparr> in
      case cnvrt2 (drop 4 datestr) of None \<Rightarrow> Some (-1, tmp) | Some val \<Rightarrow>
      if val > 23 then Some (-1, tmp) else
      let tmp = tmp\<lparr>tm_hour := val\<rparr> in
      case cnvrt2 (drop 6 datestr) of None \<Rightarrow> Some (-1, tmp) | Some val \<Rightarrow>
      if val > 59 then Some (-1, tmp) else
      map_option (\<lambda>t. (0, t)) (GregorianDay (tmp\<lparr>tm_min := val\<rparr>)))"

definition mk_date_year :: "cstr \<Rightarrow> rtc_time \<Rightarrow> rtc_time option" where
  "mk_date_year datestr tmp =
     (if length datestr = 12 then
        case (cnvrt2 (drop 8 datestr), cnvrt2 (drop 10 datestr)) of
          (Some century, Some year) \<Rightarrow> Some (tmp\<lparr>tm_year := 100 * century + year\<rparr>)
        | _ \<Rightarrow> None
      else if length datestr = 10 then
        map_option (\<lambda>year. tmp\<lparr>tm_year := 100 * (tm_year tmp sdiv 100) + year\<rparr>) (cnvrt2 (drop 8 datestr))
      else Some tmp)"

definition mk_date :: "cstr \<Rightarrow> rtc_time \<Rightarrow> (int \<times> rtc_time) option" where
  "mk_date datestr tmp =
     (let head = takeWhile (\<lambda>c. c \<noteq> ch CHR ''.'') datestr;
          sec = (if head = datestr then Some 0
                 else let rest = drop (length head + 1) datestr
                      in if length rest = 2 then cnvrt2 rest else None)
      in case sec of None \<Rightarrow> Some (-1, tmp) | Some sec \<Rightarrow>
         let tmp = tmp\<lparr>tm_sec := sec\<rparr>
         in case mk_date_year head tmp of None \<Rightarrow> Some (-1, tmp) | Some tmp \<Rightarrow>
            if length head \<in> {8, 10, 12} then mk_date_fields head tmp else Some (-1, tmp))"

text \<open>The command: the result code, the date it prints, if any, and the state of the device.\<close>

definition do_date ::
  "'w out_port \<Rightarrow> 'w in_port \<Rightarrow> cstr list \<Rightarrow> 'w \<Rightarrow> (int \<times> rtc_time option \<times> 'w) option" where
  "do_date out8 in8 argv w =
     (let show_date = (\<lambda>w. let (tm, w) = rtc_get out8 in8 w in Some (0, Some tm, w))
      in if length argv = 2 then
           if argv ! 1 = cs ''reset'' then show_date (rtc_reset out8 in8 w)
           else
             let (tm, w) = rtc_get out8 in8 w
             in case mk_date (argv ! 1) tm of
                  None \<Rightarrow> None
                | Some (r, tm) \<Rightarrow>
                    if r \<noteq> 0 then Some (0, None, w) else show_date (rtc_set out8 in8 tm w)
         else if length argv = 1 then show_date w
         else Some (1, None, w))"

subsection \<open>The calendar\<close>

lemma sdivmod_nonneg:
  assumes "0 \<le> (a :: int)" "0 < b" shows "a sdiv b = a div b" "a smod b = a mod b"
  using assms by (cases "a = 0"; simp add: signed_divide_int_def signed_modulo_int_def)+

text \<open>The reference: the Gregorian leap year rule, and the days since 1970-01-01 counted year by year and month by
  month.\<close>

definition leap :: "int \<Rightarrow> bool" where
  "leap y \<longleftrightarrow> 4 dvd y \<and> (\<not> 100 dvd y \<or> 400 dvd y)"

definition month_len :: "int \<Rightarrow> int \<Rightarrow> int" where
  "month_len y m = (if m = 2 then if leap y then 29 else 28 else if m \<in> {4, 6, 9, 11} then 30 else 31)"

definition days_before_year :: "int \<Rightarrow> int" where
  "days_before_year y = (\<Sum>k \<in> {1970..<y}. if leap k then 366 else 365)"

definition days_before_month :: "int \<Rightarrow> int \<Rightarrow> int" where
  "days_before_month y m = (\<Sum>k \<in> {1..<m}. month_len y k)"

definition epoch_day :: "int \<Rightarrow> int \<Rightarrow> int \<Rightarrow> int" where
  "epoch_day y m d = days_before_year y + days_before_month y m + d - 1"

lemma days_before_year_Suc:
  "1970 \<le> y \<Longrightarrow> days_before_year (y + 1) = days_before_year y + (if leap y then 366 else 365)"
proof -
  assume "1970 \<le> y"
  then have "{1970..<y + 1} = insert y {1970..<y}" by auto
  then show ?thesis by (simp add: days_before_year_def)
qed

lemma div_pred:
  assumes "0 < n" shows "(y :: int) div n = (y - 1) div n + (if n dvd y then 1 else 0)"
proof (cases "n dvd y")
  case True
  then obtain k where "y = n * k" ..
  then have "y - 1 = n * (k - 1) + (n - 1)" by (simp add: algebra_simps)
  then have "(y - 1) div n = k - 1" using assms int_div_pos_eq [of "y - 1" n "k - 1" "n - 1"] by simp
  with True \<open>y = n * k\<close> assms show ?thesis by simp
next
  case False
  have "y mod n \<noteq> 0" using False by presburger
  then have "0 < y mod n" using assms by (simp add: order_less_le)
  moreover have "y mod n < n" using assms by simp
  moreover have "y - 1 = n * (y div n) + (y mod n - 1)" by (simp add: algebra_simps)
  ultimately have "(y - 1) div n = y div n" using int_div_pos_eq [of "y - 1" n "y div n" "y mod n - 1"] by simp
  with False show ?thesis by simp
qed

definition leaps :: "int \<Rightarrow> int" where
  "leaps n = n div 4 - n div 100 + n div 400"

lemma leap_step: "leaps y = leaps (y - 1) + (if leap y then 1 else 0)"
proof -
  have d: "400 dvd y \<longrightarrow> 100 dvd y" "100 dvd y \<longrightarrow> 4 dvd y"
    using dvd_trans [of 100 400 y] dvd_trans [of 4 100 y] by simp_all
  define q where "q n = (y - 1) div n" for n
  have "y div n = q n + (if n dvd y then 1 else 0)" if "0 < n" for n unfolding q_def by (rule div_pred [OF that])
  then have "leaps y =
      q 4 + (if 4 dvd y then 1 else 0) - (q 100 + (if 100 dvd y then 1 else 0)) + (q 400 + (if 400 dvd y then 1 else 0))"
    by (simp only: leaps_def zero_less_numeral)
  also have "\<dots> = q 4 - q 100 + q 400 + (if leap y then 1 else 0)" using d by (auto simp only: leap_def split: if_split)
  finally show ?thesis by (simp only: q_def leaps_def)
qed

lemma days_before_year_closed: "1970 \<le> y \<Longrightarrow> days_before_year y = 365 * (y - 1970) + leaps (y - 1) - 477"
proof (induction y rule: int_ge_induct)
  case base
  show ?case by (simp add: days_before_year_def leaps_def)
next
  case (step y)
  then show ?case using leap_step [of y] by (simp add: days_before_year_Suc)
qed

lemma days_before_month_Suc: "1 \<le> m \<Longrightarrow> days_before_month y (m + 1) = days_before_month y m + month_len y m"
proof -
  assume "1 \<le> m"
  then have "{1..<m + 1} = insert m {1..<m}" by auto
  then show ?thesis by (simp add: days_before_month_def)
qed

lemma days_before_month_simps:
  "days_before_month y 1 = 0" "days_before_month y 2 = 31"
  "days_before_month y 3 = (if leap y then 60 else 59)" "days_before_month y 4 = (if leap y then 91 else 90)"
  "days_before_month y 5 = (if leap y then 121 else 120)" "days_before_month y 6 = (if leap y then 152 else 151)"
  "days_before_month y 7 = (if leap y then 182 else 181)" "days_before_month y 8 = (if leap y then 213 else 212)"
  "days_before_month y 9 = (if leap y then 244 else 243)" "days_before_month y 10 = (if leap y then 274 else 273)"
  "days_before_month y 11 = (if leap y then 305 else 304)" "days_before_month y 12 = (if leap y then 335 else 334)"
  using days_before_month_Suc [of 1 y] days_before_month_Suc [of 2 y] days_before_month_Suc [of 3 y]
    days_before_month_Suc [of 4 y] days_before_month_Suc [of 5 y] days_before_month_Suc [of 6 y]
    days_before_month_Suc [of 7 y] days_before_month_Suc [of 8 y] days_before_month_Suc [of 9 y]
    days_before_month_Suc [of 10 y] days_before_month_Suc [of 11 y]
  by (simp_all add: month_len_def, simp_all add: days_before_month_def)

lemma month_cases:
  "1 \<le> (m :: int) \<Longrightarrow> m \<le> 12 \<Longrightarrow> m = 1 \<or> m = 2 \<or> m = 3 \<or> m = 4 \<or> m = 5 \<or> m = 6 \<or> m = 7 \<or> m = 8 \<or> m = 9 \<or>
     m = 10 \<or> m = 11 \<or> m = 12"
  by presburger

subsection \<open>Seconds since the epoch\<close>

lemma word_div_int:
  "0 \<le> x \<Longrightarrow> x < 2 ^ 32 \<Longrightarrow> uint k = n \<Longrightarrow> (word_of_int x :: u32) div k = word_of_int (x div n)"
  by (simp add: word_div_def uint_word_of_int)

lemma uint_of_int: "0 \<le> x \<Longrightarrow> x < 2 ^ 32 \<Longrightarrow> uint (word_of_int x :: u32) = x"
  by (simp add: uint_word_of_int)

text \<open>The day number of \<^verbatim>\<open>mktime\<close> on integers: months counted from March, the year from March on.\<close>

definition mk_days :: "int \<Rightarrow> int \<Rightarrow> int \<Rightarrow> int" where
  "mk_days year mon day = leaps year + 367 * mon div 12 + day + year * 365 - 719499"

lemma mk_days_word:
  assumes "0 \<le> year" "year < 10000" "0 \<le> mon" "mon \<le> 12"
  shows "(word_of_int year :: u32) div 4 - word_of_int year div 100 + word_of_int year div 400
      + 367 * word_of_int mon div 12 + word_of_int day + word_of_int year * 365 - 719499 = word_of_int (mk_days year mon day)"
proof -
  have "367 * (word_of_int mon :: u32) = word_of_int (367 * mon)" by simp
  moreover have "(word_of_int (367 * mon) :: u32) div 12 = word_of_int (367 * mon div 12)"
    using word_div_int [of "367 * mon" 12 12] assms by simp
  ultimately show ?thesis
    using assms word_div_int [of year 4 4] word_div_int [of year 100 100] word_div_int [of year 400 400]
    by (simp add: mk_days_def leaps_def)
qed

lemma mk_days_epoch:
  assumes "1970 \<le> y" "1 \<le> m" "m \<le> 12"
  shows "(if m \<le> 2 then mk_days (y - 1) (m + 10) d else mk_days y (m - 2) d) = epoch_day y m d"
  using month_cases [OF assms(2,3)] leap_step [of y]
  unfolding epoch_day_def days_before_year_closed [OF assms(1)] mk_days_def
  by (elim disjE) (simp_all add: days_before_month_simps)

lemma mktime_word:
  assumes "1970 \<le> y" "y < 10000" "1 \<le> m" "m \<le> 12"
  shows "mktime (word_of_int y) (word_of_int m) (word_of_int d) (word_of_int h) (word_of_int mi) (word_of_int s) =
    word_of_int (((epoch_day y m d * 24 + h) * 60 + mi) * 60 + s)"
proof -
  let ?mon = "word_of_int m - 2 :: u32"
  have sm: "sint ?mon = m - 2"
  proof -
    have "?mon = word_of_int (m - 2)" by simp
    then show ?thesis using assms(3,4) by (simp add: sint_word_ariths sint_sbintrunc' signed_take_bit_int_eq_self)
  qed
  show ?thesis
  proof (cases "m \<le> 2")
    case True
    have e: "?mon + 12 = word_of_int (m + 10)" "(word_of_int y :: u32) - 1 = word_of_int (y - 1)" by simp_all
    have c: "0 \<ge> sint ?mon" unfolding sm using True by simp
    note w = mk_days_word [of "y - 1" "m + 10" d] and d = mk_days_epoch [OF assms(1,3,4), of d]
    have "mktime (word_of_int y) (word_of_int m) (word_of_int d) (word_of_int h) (word_of_int mi) (word_of_int s) =
        ((word_of_int (mk_days (y - 1) (m + 10) d) * 24 + word_of_int h) * 60 + word_of_int mi) * 60 + word_of_int s"
      unfolding mktime_def Let_def if_P [OF c] prod.case unfolding e using w assms True by simp
    then show ?thesis using d True by simp
  next
    case False
    have e: "?mon = word_of_int (m - 2)" by simp
    have c: "\<not> 0 \<ge> sint ?mon" unfolding sm using False by simp
    note w = mk_days_word [of y "m - 2" d] and d = mk_days_epoch [OF assms(1,3,4), of d]
    have "mktime (word_of_int y) (word_of_int m) (word_of_int d) (word_of_int h) (word_of_int mi) (word_of_int s) =
        ((word_of_int (mk_days y (m - 2) d) * 24 + word_of_int h) * 60 + word_of_int mi) * 60 + word_of_int s"
      unfolding mktime_def Let_def if_not_P [OF c] prod.case unfolding e using w assms False by simp
    then show ?thesis using d False by simp
  qed
qed

lemma days_before_year_lower: "1970 \<le> y \<Longrightarrow> 365 * (y - 1970) \<le> days_before_year y"
  by (induction y rule: int_ge_induct) (simp_all add: days_before_year_Suc, simp add: days_before_year_def)

text \<open>Bounds of the reference on the years that 32 bits can hold.\<close>

lemma epoch_day_bounds:
  assumes "1970 \<le> y" "y \<le> Y" "1 \<le> m" "m \<le> 12" "1 \<le> d" "d \<le> 31"
  shows "0 \<le> epoch_day y m d" "epoch_day y m d < 365 * (Y - 1970) + Y div 4 - 111"
proof -
  have l: "0 \<le> (y - 1) div 400" "(y - 1) div 400 \<le> (y - 1) div 100" "(y - 1) div 4 \<le> Y div 4"
    using assms(1,2) by (simp_all add: zdiv_mono2 zdiv_mono1)
  have u: "leaps (y - 1) \<le> Y div 4" using l by (simp add: leaps_def)
  have p: "477 \<le> leaps (y - 1)"
    using days_before_year_lower [OF assms(1)] days_before_year_closed [OF assms(1)] by simp
  have dm: "0 \<le> days_before_month y m" "days_before_month y m \<le> 335"
    using month_cases [OF assms(3,4)] by (elim disjE; simp add: days_before_month_simps)+
  show "0 \<le> epoch_day y m d" "epoch_day y m d < 365 * (Y - 1970) + Y div 4 - 111"
    using u p dm assms days_before_year_closed [OF assms(1)] by (simp_all add: epoch_day_def)
qed

text \<open>For every valid date from 1970 to 2105 \<^verbatim>\<open>mktime\<close> returns the seconds since the epoch by the Gregorian
  calendar, without wrap-around of the result.\<close>

theorem mktime_correct:
  assumes "1970 \<le> y" "y \<le> 2105" "1 \<le> m" "m \<le> 12" "1 \<le> d" "d \<le> 31"
    and "0 \<le> h" "h < 24" "0 \<le> mi" "mi < 60" "0 \<le> s" "s < 60"
  shows "uint (mktime (word_of_int y) (word_of_int m) (word_of_int d) (word_of_int h) (word_of_int mi) (word_of_int s)) =
    ((epoch_day y m d * 24 + h) * 60 + mi) * 60 + s"
proof -
  have "0 \<le> epoch_day y m d" "epoch_day y m d < 49690"
    using epoch_day_bounds [OF assms(1-6)] by simp_all
  then have "0 \<le> ((epoch_day y m d * 24 + h) * 60 + mi) * 60 + s" "((epoch_day y m d * 24 + h) * 60 + mi) * 60 + s < 2 ^ 32"
    using assms by simp_all
  note b = this
  have "y < 10000" using assms(2) by simp
  show ?thesis unfolding mktime_word [OF assms(1) \<open>y < 10000\<close> assms(3,4)] by (rule uint_of_int [OF b])
qed

theorem mktime_correct_witness: "uint (mktime 2038 1 19 3 14 8) = 2147483648"
proof -
  have "epoch_day 2038 1 19 = 24855"
    by (simp add: epoch_day_def days_before_year_closed leaps_def days_before_month_simps)
  then show ?thesis using mktime_correct [of 2038 1 19 3 14 8] by simp
qed

subsection \<open>From seconds to a date\<close>

lemma leapyear_leap: "1970 \<le> y \<Longrightarrow> y < 2100 \<Longrightarrow> leapyear y = leap y"
proof -
  assume y: "1970 \<le> y" "y < 2100"
  have "100 dvd y \<Longrightarrow> y = 2000"
  proof -
    assume "100 dvd y"
    then obtain k where "y = 100 * k" ..
    with y show "y = 2000" by simp
  qed
  moreover have "y smod 4 = y mod 4" using y by (simp add: signed_modulo_int_def)
  ultimately show ?thesis using y by (auto simp: leapyear_def leap_def)
qed

lemma year_loop_spec:
  assumes "1970 \<le> i" "0 \<le> day" "days_before_year i + day < 365 * (2100 - 1970)"
  shows "case year_loop i day of (y, r) \<Rightarrow> i \<le> y \<and> y < 2100 \<and> 0 \<le> r \<and> r < (if leap y then 366 else 365) \<and>
    days_before_year y + r = days_before_year i + day"
  using assms
proof (induction i day rule: year_loop.induct)
  case (1 i day)
  have i: "i < 2100" using 1(2-4) days_before_year_lower [of i] by simp
  then have l: "days_in_year i = (if leap i then 366 else 365)"
    using 1(2) by (simp add: days_in_year_def leapyear_leap)
  show ?case
  proof (cases "day \<ge> days_in_year i")
    case True
    have s: "days_before_year (i + 1) = days_before_year i + days_in_year i" using 1(2) l by (simp add: days_before_year_Suc)
    show ?thesis using 1(1) [OF True] 1(2-4) True s by (subst year_loop.simps) (auto split: prod.splits)
  next
    case False
    then show ?thesis using 1(2,3) i l by (subst year_loop.simps) (auto split: if_splits)
  qed
qed

lemma month_len_pos: "0 < month_len y m"
  by (simp add: month_len_def)

lemma month_loop_spec:
  assumes "0 \<le> day" "1 \<le> i" "i \<le> 12" "days_before_month y i + day < days_before_month y 13"
  shows "\<exists>m r. month_loop i day (map (month_len y) [i..12]) = Some (m, r) \<and> i \<le> m \<and> m \<le> 12 \<and> 0 \<le> r \<and>
    r < month_len y m \<and> days_before_month y m + r = days_before_month y i + day"
  using assms
proof (induction "nat (12 - i)" arbitrary: i day rule: less_induct)
  case less
  have l: "[i..12] = i # [i + 1..12]" using less.prems(3) by (simp add: upto_rec1)
  show ?case
  proof (cases "day \<ge> month_len y i")
    case False
    with less.prems show ?thesis by (intro exI [of _ i] exI [of _ day]) (simp add: l)
  next
    case True
    have n: "days_before_month y (i + 1) = days_before_month y i + month_len y i"
      using less.prems(2) by (rule days_before_month_Suc)
    have "i \<noteq> 12" using less.prems True n by auto
    with less.prems True n have "\<exists>m r. month_loop (i + 1) (day - month_len y i) (map (month_len y) [i + 1..12]) = Some (m, r) \<and>
        i + 1 \<le> m \<and> m \<le> 12 \<and> 0 \<le> r \<and> r < month_len y m \<and>
        days_before_month y m + r = days_before_month y (i + 1) + (day - month_len y i)"
      by (intro less.hyps) auto
    with True n show ?thesis by (fastforce simp: l)
  qed
qed

lemma month_table: "(if leap y then month_days[1 := 29] else month_days) = map (month_len y) [1..12]"
  by (simp add: upto_rec1 month_len_def month_days_def)

lemma gregorian_weekday:
  assumes "1970 \<le> tm_year t" "1 \<le> tm_mon t" "tm_mon t \<le> 12" "1 \<le> tm_mday t"
  shows "GregorianDay t = Some (t\<lparr>tm_wday := (epoch_day (tm_year t) (tm_mon t) (tm_mday t) + 4) mod 7\<rparr>)"
proof -
  let ?y = "tm_year t" and ?m = "tm_mon t"
  have sm: "?y smod 4 = 0 \<longleftrightarrow> 4 dvd ?y" "?y smod 100 = 0 \<longleftrightarrow> 100 dvd ?y" "?y smod 400 = 0 \<longleftrightarrow> 400 dvd ?y"
    using assms(1) by (simp_all add: signed_modulo_int_def dvd_eq_mod_eq_0)
  have sd: "(?y - 1) sdiv 4 - (?y - 1) sdiv 100 + (?y - 1) sdiv 400 = leaps (?y - 1)"
    using assms(1) by (simp add: signed_divide_int_def leaps_def)
  let ?n = "(if leap ?y \<and> ?m > 2 then 1 else 0) + (?y - 1) * 365 + leaps (?y - 1) + MonthOffset ! nat (?m - 1) + tm_mday t"
  have n: "?n = epoch_day ?y ?m (tm_mday t) + 4 + 7 * 102737"
    using month_cases [OF assms(2,3)] unfolding epoch_day_def days_before_year_closed [OF assms(1)]
    by (elim disjE) (simp_all add: days_before_month_simps MonthOffset_def)
  have "0 \<le> epoch_day ?y ?m (tm_mday t)"
    using epoch_day_bounds(1) [OF assms(1) order_refl assms(2,3), of 1] assms(4) by (simp add: epoch_day_def)
  then have "?n smod 7 = (epoch_day ?y ?m (tm_mday t) + 4) mod 7"
    unfolding n using mod_mult_self2 [of "epoch_day ?y ?m (tm_mday t) + 4" 7 102737]
    by (simp add: signed_modulo_int_def del: mod_mult_self2)
  then show ?thesis
    using assms(2,3) unfolding GregorianDay_def Let_def sd by (simp add: sm leap_def conj_assoc)
qed

definition valid_date :: "rtc_time \<Rightarrow> bool" where
  "valid_date t \<longleftrightarrow> 1970 \<le> tm_year t \<and> 1 \<le> tm_mon t \<and> tm_mon t \<le> 12 \<and>
     1 \<le> tm_mday t \<and> tm_mday t \<le> month_len (tm_year t) (tm_mon t) \<and>
     0 \<le> tm_hour t \<and> tm_hour t < 24 \<and> 0 \<le> tm_min t \<and> tm_min t < 60 \<and> 0 \<le> tm_sec t \<and> tm_sec t < 60 \<and>
     tm_wday t = (epoch_day (tm_year t) (tm_mon t) (tm_mday t) + 4) mod 7"

definition seconds_of :: "rtc_time \<Rightarrow> int" where
  "seconds_of t = ((epoch_day (tm_year t) (tm_mon t) (tm_mday t) * 24 + tm_hour t) * 60 + tm_min t) * 60 + tm_sec t"

definition mktime_of :: "rtc_time \<Rightarrow> u32" where
  "mktime_of t = mktime (word_of_int (tm_year t)) (word_of_int (tm_mon t)) (word_of_int (tm_mday t))
     (word_of_int (tm_hour t)) (word_of_int (tm_min t)) (word_of_int (tm_sec t))"

lemma hms_sum:
  "D * 86400 + h = tim \<Longrightarrow> H * 3600 + R = h \<Longrightarrow> M * 60 + S = R \<Longrightarrow> ((D * 24 + H) * 60 + M) * 60 + S = (tim :: int)"
  by simp

lemma hms_bounds:
  "0 \<le> x \<Longrightarrow> x < 86400 \<Longrightarrow> 0 \<le> x div 3600 \<and> x div 3600 < (24 :: int)"
  "0 \<le> x \<Longrightarrow> x < 3600 \<Longrightarrow> 0 \<le> x div 60 \<and> x div 60 < (60 :: int)"
  by (simp_all add: pos_imp_zdiv_nonneg_iff)

lemma mktime_of_valid: "valid_date t \<Longrightarrow> tm_year t < 10000 \<Longrightarrow> mktime_of t = word_of_int (seconds_of t)"
  unfolding mktime_of_def seconds_of_def valid_date_def by (intro mktime_word) blast+

text \<open>C17: \<^verbatim>\<open>to_tm\<close> of any number of seconds that a signed 32-bit integer holds is the date of that second by the
  Gregorian calendar, with its day of the week, and \<^verbatim>\<open>mktime\<close> of it is the number of seconds again.\<close>

theorem to_tm_correct:
  assumes "0 \<le> tim" and "tim < 2 ^ 31"
  shows "\<exists>t'. to_tm tim t = Some t' \<and> valid_date t' \<and> seconds_of t' = tim \<and> uint (mktime_of t') = tim"
proof -
  let ?D = "tim div 86400" and ?h = "tim mod 86400"
  have sd: "tim sdiv 86400 = ?D" "tim smod 86400 = ?h" "?h sdiv 3600 = ?h div 3600" "?h smod 3600 = ?h mod 3600"
    "(?h mod 3600) sdiv 60 = ?h mod 3600 div 60" "(?h mod 3600) smod 60 = ?h mod 3600 mod 60"
    using assms(1) by (simp_all add: sdivmod_nonneg)
  have D: "0 \<le> ?D" "?D < 24856" using assms by simp_all
  obtain y r where yr: "year_loop 1970 ?D = (y, r)" by fastforce
  have y: "1970 \<le> y" "y < 2100" "0 \<le> r" "r < (if leap y then 366 else 365)" "days_before_year y + r = ?D"
    using year_loop_spec [of 1970 ?D] D yr by (simp_all add: days_before_year_def)
  have "days_before_month y 13 = (if leap y then 366 else 365)"
    using days_before_month_Suc [of 12 y] by (simp add: days_before_month_simps month_len_def)
  then obtain m k where m: "month_loop 1 r (map (month_len y) [1..12]) = Some (m, k)" "1 \<le> m" "m \<le> 12" "0 \<le> k"
      "k < month_len y m" "days_before_month y m + k = r"
    using month_loop_spec [of r 1 y] y(3,4) by (auto simp: days_before_month_simps)
  let ?t = "t\<lparr>tm_hour := ?h div 3600, tm_min := ?h mod 3600 div 60, tm_sec := ?h mod 3600 mod 60,
      tm_year := y, tm_mon := m, tm_mday := k + 1\<rparr>"
  have ed: "epoch_day y m (k + 1) = ?D" using y(5) m(6) by (simp add: epoch_day_def)
  have "to_tm tim t = GregorianDay ?t"
    unfolding to_tm_def Let_def sd yr prod.case leapyear_leap [OF y(1,2)] month_table m(1) by simp
  also have "\<dots> = Some (?t\<lparr>tm_wday := (?D + 4) mod 7\<rparr>)"
    using gregorian_weekday [of ?t] y m ed by simp
  finally have e: "to_tm tim t = Some (?t\<lparr>tm_wday := (?D + 4) mod 7\<rparr>)" .
  let ?u = "?t\<lparr>tm_wday := (?D + 4) mod 7\<rparr>"
  have s: "((?D * 24 + ?h div 3600) * 60 + ?h mod 3600 div 60) * 60 + ?h mod 3600 mod 60 = tim"
    by (rule hms_sum [OF div_mult_mod_eq div_mult_mod_eq div_mult_mod_eq])
  have "0 \<le> ?h div 3600 \<and> ?h div 3600 < 24" "0 \<le> ?h mod 3600 div 60 \<and> ?h mod 3600 div 60 < 60"
    by (intro hms_bounds; simp)+
  then have v: "valid_date ?u" using y m ed by (simp add: valid_date_def)
  have so: "seconds_of ?u = tim" using ed s by (simp add: seconds_of_def)
  have "tm_year ?u < 10000" using y(2) by simp
  from mktime_of_valid [OF v this] have "mktime_of ?u = word_of_int tim" unfolding so .
  then have "uint (mktime_of ?u) = tim" using assms by (simp add: uint_of_int)
  with e v so show ?thesis by blast
qed

theorem to_tm_correct_witness:
  "\<exists>t'. to_tm 951782400 \<lparr>tm_sec = 0, tm_min = 0, tm_hour = 0, tm_mday = 0, tm_mon = 0, tm_year = 0, tm_wday = 0,
      tm_yday = 0, tm_isdst = 0\<rparr> = Some t' \<and> seconds_of t' = 951782400"
  using to_tm_correct [of 951782400] by fastforce

subsection \<open>The date command\<close>

definition two_digits :: "int \<Rightarrow> cstr" where
  "two_digits n = [word_of_int (0x30 + n div 10), word_of_int (0x30 + n mod 10)]"

definition date_text :: "rtc_time \<Rightarrow> cstr" where
  "date_text t = two_digits (tm_mon t) @ two_digits (tm_mday t) @ two_digits (tm_hour t) @ two_digits (tm_min t) @
     two_digits (tm_year t div 100) @ two_digits (tm_year t mod 100) @ ch CHR ''.'' # two_digits (tm_sec t)"

lemma cnvrt2_digits:
  assumes "0 \<le> n" "n < 100" shows "cnvrt2 (two_digits n @ rest) = Some n"
proof -
  have "list_all (\<lambda>n. cnvrt2 (two_digits n) = Some n \<and> ch CHR ''.'' \<notin> set (two_digits n)) [0..99]" by code_simp
  then have "cnvrt2 (two_digits n) = Some n" using assms by (simp add: list_all_iff)
  then show ?thesis by (simp add: cnvrt2_def two_digits_def)
qed

lemma two_digits_no_dot: "0 \<le> n \<Longrightarrow> n < 100 \<Longrightarrow> ch CHR ''.'' \<notin> set (two_digits n)"
proof -
  have "list_all (\<lambda>n. ch CHR ''.'' \<notin> set (two_digits n)) [0..99]" by code_simp
  then show "0 \<le> n \<Longrightarrow> n < 100 \<Longrightarrow> ch CHR ''.'' \<notin> set (two_digits n)" by (simp add: list_all_iff)
qed

lemma length_two_digits [simp]: "length (two_digits n) = 2"
  by (simp add: two_digits_def)

lemma mk_date_text:
  assumes v: "valid_date t" "tm_year t < 10000"
  shows "mk_date (date_text t) t0 = Some (0, t\<lparr>tm_yday := tm_yday t0, tm_isdst := tm_isdst t0\<rparr>)"
proof -
  let ?h = "two_digits (tm_mon t) @ two_digits (tm_mday t) @ two_digits (tm_hour t) @ two_digits (tm_min t) @
     two_digits (tm_year t div 100) @ two_digits (tm_year t mod 100)"
  note v' = v [unfolded valid_date_def]
  have md: "tm_mday t \<le> 31" "tm_mon t = 2 \<longrightarrow> tm_mday t \<le> 29"
    using v' by (auto simp: month_len_def split: if_splits)
  have r: "0 \<le> tm_year t div 100" "tm_year t div 100 < 100" "0 \<le> tm_year t mod 100" "tm_year t mod 100 < 100"
    using v' by (simp_all add: pos_imp_zdiv_nonneg_iff)
  have dot: "\<forall>c \<in> set ?h. c \<noteq> ch CHR ''.''"
    using v' md r two_digits_no_dot [of "tm_mon t"] two_digits_no_dot [of "tm_mday t"] two_digits_no_dot [of "tm_hour t"]
      two_digits_no_dot [of "tm_min t"] two_digits_no_dot [of "tm_year t div 100"] two_digits_no_dot [of "tm_year t mod 100"]
    by auto
  have txt': "date_text t = ?h @ ch CHR ''.'' # two_digits (tm_sec t)" by (simp add: date_text_def)
  have tw: "takeWhile (\<lambda>c. c \<noteq> ch CHR ''.'') (date_text t) = ?h"
    unfolding txt' using dot by (subst takeWhile_append2) auto
  have dr: "drop (length ?h + 1) (date_text t) = two_digits (tm_sec t)" unfolding txt' by simp
  have ne: "?h \<noteq> date_text t" unfolding txt' by simp
  have sec: "cnvrt2 (two_digits (tm_sec t)) = Some (tm_sec t)" using cnvrt2_digits [of "tm_sec t" "[]"] v' by simp
  have yr: "mk_date_year ?h t1 = Some (t1\<lparr>tm_year := tm_year t\<rparr>)" for t1
    using cnvrt2_digits [of "tm_year t div 100" "two_digits (tm_year t mod 100)"] cnvrt2_digits [of "tm_year t mod 100" "[]"] r
    by (simp add: mk_date_year_def)
  have fl: "mk_date_fields ?h t1 = map_option (\<lambda>t. (0, t)) (GregorianDay
      (t1\<lparr>tm_mon := tm_mon t, tm_mday := tm_mday t, tm_hour := tm_hour t, tm_min := tm_min t\<rparr>))" for t1
    using v' md unfolding mk_date_fields_def by (cases "tm_mon t = 2") (simp_all add: cnvrt2_digits Let_def)
  have "mk_date (date_text t) t0 = map_option (\<lambda>t. (0, t)) (GregorianDay
      (t0\<lparr>tm_sec := tm_sec t, tm_year := tm_year t, tm_mon := tm_mon t, tm_mday := tm_mday t, tm_hour := tm_hour t,
         tm_min := tm_min t\<rparr>))"
    unfolding mk_date_def tw Let_def dr if_not_P [OF ne] using sec yr fl by simp
  then show ?thesis
    using v' by (cases t; cases t0) (simp add: gregorian_weekday)
qed

text \<open>\<^verbatim>\<open>date MMDDhhmmCCYY.ss\<close> with a valid date from 1970 to 2069 sets the clock, and prints the date with its
  day of the week as read back from the chip.\<close>

theorem date_command_sets:
  assumes "rtc_ports out8 in8 cell" and "valid_date t" and "tm_year t < 2070" and "tm_yday t = 0" and "tm_isdst t = 0"
  shows "\<exists>w'. do_date out8 in8 [name, date_text t] w = Some (0, Some t, w')"
proof -
  obtain t0 w1 where 1: "rtc_get out8 in8 w = (t0, w1)" by fastforce
  have 0: "tm_yday t0 = 0" "tm_isdst t0 = 0"
    using arg_cong [OF 1, of fst] by (auto simp: rtc_ports.rtc_get_fields [OF assms(1)])
  have "mk_date (date_text t) t0 = Some (0, t)"
    using mk_date_text [of t t0] assms 0 by simp
  moreover have "date_text t \<noteq> cs ''reset''"
  proof
    assume "date_text t = cs ''reset''"
    then have "length (date_text t) = length (cs ''reset'')" by (rule arg_cong)
    then show False by (simp add: date_text_def cs_def)
  qed
  moreover have "rtc_valid t" using assms by (auto simp: rtc_valid_def valid_date_def month_len_def split: if_splits)
  moreover obtain t2 w2 where 2: "rtc_get out8 in8 (rtc_set out8 in8 t w1) = (t2, w2)" by fastforce
  ultimately have "t2 = t" using rtc_get_set [OF assms(1), of t w1] by simp
  with 1 2 \<open>mk_date (date_text t) t0 = Some (0, t)\<close> \<open>date_text t \<noteq> cs ''reset''\<close> show ?thesis
    by (simp add: do_date_def)
qed

theorem date_command_sets_witness:
  "\<exists>t w'. do_date dev_out8 dev_in8 [cs ''date'', cs ''022912302024.59''] \<lparr>latch0 = 0, latch1 = 0, mem = \<lambda>_. 0\<rparr>
     = Some (0, Some t, w') \<and> tm_mon t = 2 \<and> tm_mday t = 29 \<and> tm_wday t = 4"
proof -
  let ?t = "\<lparr>tm_sec = 59, tm_min = 30, tm_hour = 12, tm_mday = 29, tm_mon = 2, tm_year = 2024, tm_wday = 4,
    tm_yday = 0, tm_isdst = 0\<rparr>"
  have e: "epoch_day 2024 2 29 = 19782" by (simp add: epoch_day_def days_before_year_closed leaps_def days_before_month_simps)
  have v: "valid_date ?t" by (simp add: valid_date_def month_len_def leap_def e)
  have t: "date_text ?t = cs ''022912302024.59''" by (simp add: date_text_def two_digits_def cs_def)
  obtain w' where "do_date dev_out8 dev_in8 [cs ''date'', date_text ?t] \<lparr>latch0 = 0, latch1 = 0, mem = \<lambda>_. 0\<rparr>
      = Some (0, Some ?t, w')"
    using date_command_sets [OF dev.rtc_ports_axioms v, of "cs ''date''"] by auto
  then show ?thesis unfolding t by (intro exI [of _ ?t] exI [of _ w'] conjI) simp_all
qed

text \<open>The month 00 passes the check of \<^verbatim>\<open>mk_date\<close> and makes \<^verbatim>\<open>GregorianDay\<close> read before its table; text that is
  no date at all is reported with a message but with the result code of success.\<close>

theorem date_command_bad_input:
  "mk_date (cs ''00010000'') t = None \<and>
   do_date out8 in8 [name, cs ''today''] w = Some (0, None, snd (rtc_get out8 in8 w))"
proof
  show "mk_date (cs ''00010000'') t = None"
    by (simp add: mk_date_def mk_date_year_def mk_date_fields_def GregorianDay_def cnvrt2_def cs_def Let_def)
  have "mk_date (cs ''today'') t0 = Some (-1, t0\<lparr>tm_sec := 0\<rparr>)" for t0
    by (simp add: mk_date_def mk_date_year_def cs_def)
  then show "do_date out8 in8 [name, cs ''today''] w = Some (0, None, snd (rtc_get out8 in8 w))"
    by (simp add: do_date_def cs_def split: prod.split)
qed

end
