(* ===== verification/Div64.thy ===== *)
theory Div64
  imports Prelude
begin

text \<open>
  64-by-32 bit division without hardware support: \<^verbatim>\<open>__div64_32\<close> of \<^verbatim>\<open>lib/div64.c\<close> and the
  macro \<^verbatim>\<open>do_div\<close> and the wrapper \<^verbatim>\<open>lldiv\<close> of \<^verbatim>\<open>include/div64.h\<close>. The shift-and-subtract
  loops are kept as loops; the main lemma shows that quotient and remainder are the ones of
  \<^verbatim>\<open>n / base\<close> and \<^verbatim>\<open>n % base\<close>. A zero base divides by zero in the code (a trap); the
  model has no result for it.
\<close>

subsection \<open>The loops\<close>

function div64_grow :: "u64 \<Rightarrow> u64 \<Rightarrow> u64 \<Rightarrow> u64 \<times> u64" where
  "div64_grow b rm d =
     (if 0 < sint b \<and> b < rm then div64_grow (b + b) rm (d + d) else (b, d))"
  by pat_completeness auto
termination
proof (relation "measure (\<lambda>(b, rm, d). 2 ^ 64 - unat b)")
  fix b rm d :: u64
  assume "0 < sint b \<and> b < rm"
  then have "0 < unat b" "unat b < 2 ^ 63" by (simp_all add: sint_pos_iff)
  then have "unat (b + b) = unat b + unat b" "unat b + unat b < 2 ^ 64" "0 < unat b"
    by (simp_all add: unat_word_ariths)
  then show "((b + b, rm, d + d), b, rm, d) \<in> measure (\<lambda>(b, rm, d). 2 ^ 64 - unat b)"
    by simp
qed simp

function div64_shrink :: "u64 \<Rightarrow> u64 \<Rightarrow> u64 \<Rightarrow> u64 \<Rightarrow> u64 \<times> u64" where
  "div64_shrink rm res b d =
     (let (rm, res) = (if b \<le> rm then (rm - b, res + d) else (rm, res));
          b = drop_bit 1 b; d = drop_bit 1 d
      in if d \<noteq> 0 then div64_shrink rm res b d else (res, rm))"
  by pat_completeness auto
termination
proof (relation "measure (\<lambda>(rm, res, b, d). unat d)", goal_cases)
  case (2 rm res b d x rm' res' b' d')
  then have "unat d' = unat d div 2" by (simp add: unat_drop_bit)
  moreover have "unat d' \<noteq> 0" using 2 by (simp add: unat_eq_0)
  ultimately show ?case by simp
qed simp

declare div64_grow.simps [simp del] div64_shrink.simps [simp del]

definition div64_32 :: "u64 \<Rightarrow> u32 \<Rightarrow> (u64 \<times> u32) option" where
  "div64_32 n base =
     (if base = 0 then None
      else let rm = n;
               high = (ucast (drop_bit 32 rm) :: u32);
               (res, rm) = (if base \<le> high
                  then (let h = high div base
                        in (push_bit 32 (ucast h), rm - push_bit 32 (ucast (h * base))))
                  else (0, rm));
               (b, d) = div64_grow (ucast base) rm 1;
               (res, rm) = div64_shrink rm res b d
           in Some (res, ucast rm))"

definition do_div :: "u64 \<Rightarrow> u32 \<Rightarrow> (u64 \<times> u32) option" where
  "do_div n base =
     (if drop_bit 32 n = 0
      then (if base = 0 then None
            else Some (ucast ((ucast n :: u32) div base), (ucast n :: u32) mod base))
      else div64_32 n base)"

definition lldiv :: "u64 \<Rightarrow> u32 \<Rightarrow> u64 option" where
  "lldiv dividend divisor = map_option fst (do_div dividend divisor)"

subsection \<open>Correctness of the loops\<close>

text \<open>\<open>grown base b d\<close>: \<open>b\<close> and \<open>d\<close> are \<open>base\<close> and 1 shifted left by the same amount.\<close>

definition grown :: "nat \<Rightarrow> u64 \<Rightarrow> u64 \<Rightarrow> bool" where
  "grown base b d \<longleftrightarrow> (\<exists>k. unat b = base * 2 ^ k \<and> unat d = 2 ^ k)"

lemma div64_grow_correct:
  assumes "grown base b d" "0 < base"
  shows "case div64_grow b rm d of (b', d') \<Rightarrow> grown base b' d' \<and> unat rm < 2 * unat b'"
  using assms
proof (induction b rm d rule: div64_grow.induct)
  case (1 b rm d)
  then obtain k where k: "unat b = base * 2 ^ k" "unat d = 2 ^ k"
    by (auto simp: grown_def)
  show ?case
  proof (cases "0 < sint b \<and> b < rm")
    case True
    then have b63: "unat b < 2 ^ 63" by (simp add: sint_pos_iff)
    then have bb: "unat (b + b) = base * 2 ^ Suc k" by (simp add: unat_word_ariths k)
    have "unat d \<le> unat b" using k \<open>0 < base\<close> by simp
    then have "unat d + unat d < 2 ^ LENGTH(64)" using b63 by simp
    then have "unat (d + d) = unat d + unat d" by (rule unat_add_le)
    then have "unat (d + d) = 2 ^ Suc k" using k by simp
    with bb have "grown base (b + b) (d + d)" by (auto simp: grown_def simp del: power_Suc)
    with 1 True show ?thesis by (simp add: div64_grow.simps [of b rm d])
  next
    case False
    have "0 < unat b" using k \<open>0 < base\<close> by simp
    have "unat rm < 2 * unat b"
    proof (cases "b < rm")
      case True
      with False \<open>0 < unat b\<close> have "2 ^ 63 \<le> unat b" by (simp add: sint_pos_iff)
      then show ?thesis using u64_less [of rm] by simp
    next
      case False
      then show ?thesis using \<open>0 < unat b\<close> by (simp add: word_less_nat_alt not_less)
    qed
    with 1 False show ?thesis by (auto simp: div64_grow.simps [of b rm d])
  qed
qed

lemma div64_shrink_correct:
  assumes "grown base b d" "0 < base" "unat rm < 2 * unat b"
    and "n = unat res * base + unat rm" "n < 2 ^ 64"
  shows "case div64_shrink rm res b d of (res', rm') \<Rightarrow>
      unat res' = n div base \<and> unat rm' = n mod base"
  using assms
proof (induction rm res b d rule: div64_shrink.induct)
  case (1 rm res b d)
  define rm' where "rm' = (if b \<le> rm then rm - b else rm)"
  define res' where "res' = (if b \<le> rm then res + d else res)"
  from 1 obtain k where k: "unat b = base * 2 ^ k" "unat d = 2 ^ k"
    by (auto simp: grown_def)
  have pair: "(if b \<le> rm then (rm - b, res + d) else (rm, res)) = (rm', res')"
    by (simp add: rm'_def res'_def)
  have rm'_less: "unat rm' < unat b"
    using 1 by (auto simp: rm'_def unat_sub word_le_nat_alt)
  have n': "n = unat res' * base + unat rm'"
  proof (cases "b \<le> rm")
    case True
    then have le: "unat b \<le> unat rm" by (simp add: word_le_nat_alt)
    have "(unat res + unat d) * base \<le> n"
      using le 1 k by (simp add: algebra_simps)
    moreover have "unat res + unat d \<le> (unat res + unat d) * base" using \<open>0 < base\<close> by simp
    ultimately have "unat res + unat d < 2 ^ 64" using \<open>n < 2 ^ 64\<close> by linarith
    then have "unat (res + d) = unat res + unat d" by (simp add: unat_add_le)
    with True le 1 k show ?thesis
      by (simp add: rm'_def res'_def unat_sub algebra_simps)
  qed (use 1 in \<open>simp add: rm'_def res'_def\<close>)
  show ?case
  proof (cases k)
    case 0
    then have "drop_bit 1 d = 0" using k by (simp add: unat_drop_bit flip: unat_eq_0)
    moreover have "n div base = unat res' \<and> n mod base = unat rm'"
      using n' rm'_less 0 k \<open>0 < base\<close> by simp
    ultimately show ?thesis
      by (simp add: div64_shrink.simps [of rm res b d] pair Let_def)
  next
    case (Suc j)
    then have hb: "unat (drop_bit 1 b) = base * 2 ^ j" and hd: "unat (drop_bit 1 d) = 2 ^ j"
      using k by (simp_all add: unat_drop_bit)
    then have nz: "drop_bit 1 d \<noteq> 0" by (auto simp flip: unat_eq_0)
    have g: "grown base (drop_bit 1 b) (drop_bit 1 d)" using hb hd by (auto simp: grown_def)
    have r: "unat rm' < 2 * unat (drop_bit 1 b)"
      using rm'_less hb k Suc by simp
    note IH = "1.IH" [OF pair [symmetric] refl refl refl nz g \<open>0 < base\<close> r n' \<open>n < 2 ^ 64\<close>]
    then show ?thesis
      using nz by (simp add: div64_shrink.simps [of rm res b d] pair Let_def)
  qed
qed


lemma div64_loops_correct:
  assumes "0 < base" "n = unat res * unat base + unat rm" "n < 2 ^ 64" "base \<noteq> (0 :: u32)"
    and "div64_grow (ucast base) rm 1 = (b, d)"
  shows "\<exists>res' rm'. div64_shrink rm res b d = (res', rm')
      \<and> unat res' = n div unat base \<and> unat rm' = n mod unat base"
proof -
  have b0: "0 < unat base" using assms(4) by (simp add: word_neq_0_conv unat_gt_0)
  have "unat (ucast base :: u64) = unat base" using u32_less [of base]
    by (simp add: unat_ucast_mod)
  then have "grown (unat base) (ucast base) 1" by (auto simp: grown_def intro: exI [of _ 0])
  from div64_grow_correct [OF this b0, of rm] assms(5)
  have "grown (unat base) b d" "unat rm < 2 * unat b" by auto
  from div64_shrink_correct [OF this(1) b0 this(2) assms(2,3)]
  show ?thesis by (cases "div64_shrink rm res b d") auto
qed

lemma div64_reduce:
  fixes n :: u64 and base :: u32
  assumes "base \<noteq> 0" and h: "h = (ucast (drop_bit 32 n) :: u32) div base"
  shows "unat n = unat (push_bit 32 (ucast h) :: u64) * unat base
      + unat (n - push_bit 32 (ucast (h * base)))"
proof -
  define H where "H = unat n div 2 ^ 32 div unat base"
  have n: "unat n < 2 ^ 64" using u64_less [of n] by simp
  have high: "unat (ucast (drop_bit 32 n) :: u32) = unat n div 2 ^ 32"
    using n by (simp add: unat_ucast_mod unat_drop_bit)
  then have hH: "unat h = H" by (simp add: h unat_div H_def)
  have le: "H * unat base \<le> unat n div 2 ^ 32" by (simp add: H_def)
  then have hb: "unat (h * base) = H * unat base"
    using n hH by (simp add: unat_word_ariths)
  have "H * 2 ^ 32 \<le> unat n"
    using le by (metis H_def div_le_dividend div_times_less_eq_dividend dual_order.trans mult_le_mono1)
  then have p1: "unat (push_bit 32 (ucast h) :: u64) = H * 2 ^ 32"
    using n hH u32_less [of h] by (simp add: unat_push_bit_mod unat_ucast_mod)
  have le2: "H * unat base * 2 ^ 32 \<le> unat n"
    using le by (metis div_times_less_eq_dividend dual_order.trans mult_le_mono1)
  then have p2: "unat (push_bit 32 (ucast (h * base)) :: u64) = H * unat base * 2 ^ 32"
    using n hb u32_less [of "h * base"] by (simp add: unat_push_bit_mod unat_ucast_mod)
  with le2 have "unat (n - push_bit 32 (ucast (h * base))) = unat n - H * unat base * 2 ^ 32"
    by (simp add: unat_sub word_le_nat_alt)
  with p1 le2 show ?thesis by (simp add: algebra_simps)
qed

text \<open>The division routine computes quotient and remainder for every nonzero base.\<close>

lemma div64_32_correct:
  assumes "base \<noteq> 0"
  shows "\<exists>q r. div64_32 n base = Some (q, r)
      \<and> unat q = unat n div unat base \<and> unat r = unat n mod unat base"
proof -
  define high where "high = (ucast (drop_bit 32 n) :: u32)"
  define res where "res = (if base \<le> high then push_bit 32 (ucast (high div base)) else (0 :: u64))"
  define rm where "rm = (if base \<le> high then n - push_bit 32 (ucast (high div base * base)) else n)"
  have inv: "unat n = unat res * unat base + unat rm"
    using div64_reduce [OF assms, of "high div base" n] by (simp add: res_def rm_def high_def)
  obtain b d where bd: "div64_grow (ucast base) rm 1 = (b, d)" by fastforce
  have "0 < base" using assms by (simp add: word_neq_0_conv)
  from div64_loops_correct [OF this inv _ assms bd] u64_less [of n]
  obtain res' rm' where s: "div64_shrink rm res b d = (res', rm')"
      "unat res' = unat n div unat base" "unat rm' = unat n mod unat base" by auto
  have "0 < unat base" using assms by (simp add: unat_gt_0)
  then have "unat rm' < unat base" unfolding s(3) by (rule mod_less_divisor)
  then have "unat rm' < 2 ^ 32" using u32_less [of base] by simp
  then have "unat (ucast rm' :: u32) = unat rm'" by (simp add: unat_ucast_mod)
  moreover have "div64_32 n base = Some (res', ucast rm')"
    by (cases "base \<le> high")
      (use bd s(1) assms in \<open>simp_all add: div64_32_def Let_def res_def rm_def flip: high_def\<close>)
  ultimately show ?thesis using s by simp
qed

lemma do_div_correct:
  assumes "base \<noteq> 0"
  shows "do_div n base = Some (of_nat (unat n div unat base), of_nat (unat n mod unat base))"
proof (cases "drop_bit 32 n = 0")
  case True
  then have "unat n div 2 ^ 32 = 0" by (metis unat_0 unat_drop_bit)
  then have n: "unat n < 2 ^ 32" by (simp add: div_eq_0_iff)
  then have u: "unat (ucast n :: u32) = unat n" by (simp add: unat_ucast_mod)
  have "unat n div unat base \<le> unat n" by simp
  with n have "unat n div unat base < 2 ^ 32" by linarith
  then have "unat (ucast ((ucast n :: u32) div base) :: u64) = unat n div unat base"
    using n by (simp add: unat_ucast_mod unat_div)
  then have "(ucast ((ucast n :: u32) div base) :: u64) = of_nat (unat n div unat base)"
    by (rule word_eq_of_natI)
  moreover have "(ucast n :: u32) mod base = of_nat (unat n mod unat base)"
    by (rule word_eq_of_natI) (simp add: unat_mod u)
  ultimately show ?thesis using True assms by (simp add: do_div_def)
next
  case False
  with div64_32_correct [OF assms, of n] show ?thesis
    by (auto simp: do_div_def dest!: word_eq_of_natI)
qed

end
