(* ===== verification/Vsprintf.thy ===== *)
theory Vsprintf
  imports Strtoul Div64
begin

text \<open>
  Formatted output: \<^verbatim>\<open>lib/vsprintf.c\<close>. Every routine that appends to \<^verbatim>\<open>char *buf\<close> returns the
  bytes it appends. The variable arguments are a list of values (\<open>va\<close>): a 32-bit word
  (\<^verbatim>\<open>int\<close>, \<^verbatim>\<open>long\<close>, \<^verbatim>\<open>size_t\<close> and pointers on this target), a 64-bit word, or the C
  string a \<^verbatim>\<open>char *\<close> points to (\<open>None\<close> is the null pointer). \<^verbatim>\<open>va_arg\<close> on a missing or
  differently typed argument is undefined behaviour and makes the result \<open>None\<close>. The memory that
  \<^verbatim>\<open>%pM\<close> and \<^verbatim>\<open>%pI\<close> dereference is a function \<open>mem\<close> from addresses to bytes, and the stores
  of \<^verbatim>\<open>%n\<close> are returned as a list of address and value.
\<close>

subsection \<open>Decimal conversion\<close>

definition put_dec_trunc :: "u32 \<Rightarrow> byte list" where
  "put_dec_trunc q =
     (let d1 = drop_bit 4 q AND 0xf; d2 = drop_bit 8 q AND 0xf; d3 = drop_bit 12 q;
          d0 = 6 * (d3 + d2 + d1) + (q AND 0xf);
          q = drop_bit 11 (d0 * 0xcd);
          d0 = d0 - 10 * q;
          buf = [ucast (d0 + 0x30)];
          d1 = q + 9 * d3 + 5 * d2 + d1
      in if d1 \<noteq> 0 then
           let q = drop_bit 11 (d1 * 0xcd);
               d1 = d1 - 10 * q;
               buf = buf @ [ucast (d1 + 0x30)];
               d2 = q + 2 * d2
           in if d2 \<noteq> 0 \<or> d3 \<noteq> 0 then
                let q = drop_bit 7 (d2 * 0xd);
                    d2 = d2 - 10 * q;
                    buf = buf @ [ucast (d2 + 0x30)];
                    d3 = q + 4 * d3
                in if d3 \<noteq> 0 then
                     let q = drop_bit 11 (d3 * 0xcd);
                         d3 = d3 - 10 * q;
                         buf = buf @ [ucast (d3 + 0x30)]
                     in if q \<noteq> 0 then buf @ [ucast (q + 0x30)] else buf
                   else buf
              else buf
         else buf)"

definition put_dec_full :: "u32 \<Rightarrow> byte list" where
  "put_dec_full q =
     (let d1 = drop_bit 4 q AND 0xf; d2 = drop_bit 8 q AND 0xf; d3 = drop_bit 12 q;
          d0 = 6 * (d3 + d2 + d1) + (q AND 0xf);
          q0 = drop_bit 11 (d0 * 0xcd);
          d1 = q0 + 9 * d3 + 5 * d2 + d1;
          q1 = drop_bit 11 (d1 * 0xcd);
          d2 = q1 + 2 * d2;
          q2 = drop_bit 7 (d2 * 0xd);
          d3 = q2 + 4 * d3;
          q3 = drop_bit 11 (d3 * 0xcd)
      in [ucast (d0 - 10 * q0 + 0x30), ucast (d1 - 10 * q1 + 0x30),
          ucast (d2 - 10 * q2 + 0x30), ucast (d3 - 10 * q3 + 0x30), ucast (q3 + 0x30)])"

function put_dec :: "u64 \<Rightarrow> byte list" where
  "put_dec num =
     (if num < 100000 then put_dec_trunc (ucast num)
      else case do_div num 100000 of
             None \<Rightarrow> []
           | Some (num, rm) \<Rightarrow> put_dec_full rm @ put_dec num)"
  by pat_completeness auto
termination
proof (relation "measure unat", goal_cases)
  case (2 num p num' rm)
  then have "unat num' = unat num div 100000 mod 2 ^ 64" by (auto simp: do_div_correct unat_of_nat)
  moreover have "100000 \<le> unat num" using 2 by (simp add: word_less_nat_alt not_less)
  ultimately show ?case using u64_less [of num] by simp
qed simp

declare put_dec.simps [simp del]

subsection \<open>Numbers\<close>

abbreviation (input) ZEROPAD :: u32 where "ZEROPAD \<equiv> 1"
abbreviation (input) SIGN :: u32 where "SIGN \<equiv> 2"
abbreviation (input) PLUS :: u32 where "PLUS \<equiv> 4"
abbreviation (input) SPACE :: u32 where "SPACE \<equiv> 8"
abbreviation (input) LEFT :: u32 where "LEFT \<equiv> 16"
abbreviation (input) SMALL :: u32 where "SMALL \<equiv> 32"
abbreviation (input) SPECIAL :: u32 where "SPECIAL \<equiv> 64"

abbreviation (input) has_flag :: "u32 \<Rightarrow> u32 \<Rightarrow> bool" where
  "has_flag type f \<equiv> type AND f \<noteq> 0"

definition number_digits :: "byte list" where
  "number_digits = cs ''0123456789ABCDEF''"

function number_pow2 :: "nat \<Rightarrow> byte \<Rightarrow> u64 \<Rightarrow> byte list" where
  "number_pow2 base locase num =
     (let mask = of_nat (base - 1); shift = (if base = 16 then 4 else 3);
          c = number_digits ! unat ((ucast num :: byte) AND mask) OR locase;
          num = drop_bit shift num
      in c # (if num \<noteq> 0 then number_pow2 base locase num else []))"
  by pat_completeness auto
termination
proof (relation "measure (\<lambda>(base, locase, num). unat num)", goal_cases)
  case (2 base locase num mask shift c num')
  then have "unat num' = unat num div 2 ^ shift" by (simp add: unat_drop_bit)
  moreover have "unat num' \<noteq> 0" using 2 by (simp add: unat_eq_0)
  moreover have "shift = 4 \<or> shift = 3" using 2 by auto
  ultimately show ?case by auto
qed simp

declare number_pow2.simps [simp del]

text \<open>The loop \<^verbatim>\<open>while (--size >= 0) *buf++ = c;\<close>: the bytes written and the value left in
  \<^verbatim>\<open>size\<close>.\<close>

definition pad_loop :: "int \<Rightarrow> byte \<Rightarrow> byte list \<times> int" where
  "pad_loop sz c = (replicate (nat sz) c, min sz 0 - 1)"

definition number_sign :: "u64 \<Rightarrow> u32 \<Rightarrow> int \<Rightarrow> byte \<times> u64 \<times> int" where
  "number_sign num type sz =
     (if has_flag type SIGN then
        if sint num < 0 then (ch CHR ''-'', - num, sz - 1)
        else if has_flag type PLUS then (ch CHR ''+'', num, sz - 1)
        else if has_flag type SPACE then (ch CHR '' '', num, sz - 1)
        else (0, num, sz)
      else (0, num, sz))"

definition number :: "u64 \<Rightarrow> nat \<Rightarrow> int \<Rightarrow> int \<Rightarrow> u32 \<Rightarrow> byte list" where
  "number num base sz precision type =
     (let need_pfx = has_flag type SPECIAL \<and> base \<noteq> 10;
          locase = (ucast (type AND SMALL) :: byte);
          type = (if has_flag type LEFT then type AND NOT ZEROPAD else type);
          (sign, num, sz) = number_sign num type sz;
          sz = (if need_pfx then if base = 16 then sz - 2 else sz - 1 else sz);
          tmp = (if num = 0 then [ch CHR ''0'']
                 else if base \<noteq> 10 then number_pow2 base locase num
                 else put_dec num);
          i = int (length tmp);
          precision = (if i > precision then i else precision);
          sz = sz - precision;
          (lead, sz) = (if \<not> has_flag type (ZEROPAD + LEFT)
                          then pad_loop sz (ch CHR '' '') else ([], sz));
          sgn = (if sign \<noteq> 0 then [sign] else []);
          pfx = (if need_pfx
                 then ch CHR ''0'' # (if base = 16 then [ch CHR ''X'' OR locase] else [])
                 else []);
          (mid, sz) = (if \<not> has_flag type LEFT
                         then pad_loop sz (if has_flag type ZEROPAD then ch CHR ''0'' else ch CHR '' '')
                         else ([], sz));
          zeros = replicate (nat (precision - i)) (ch CHR ''0'');
          (trail, sz) = pad_loop sz (ch CHR '' '')
      in lead @ sgn @ pfx @ mid @ zeros @ rev tmp @ trail)"

subsection \<open>Strings and addresses\<close>

text \<open>The loop \<^verbatim>\<open>while (len < field_width--) *buf++ = ' ';\<close>.\<close>

definition width_loop :: "int \<Rightarrow> int \<Rightarrow> byte list \<times> int" where
  "width_loop len fw = (replicate (nat (fw - len)) (ch CHR '' ''), min fw len - 1)"

definition string_fmt :: "cstr option \<Rightarrow> int \<Rightarrow> int \<Rightarrow> u32 \<Rightarrow> byte list" where
  "string_fmt s field_width precision flags =
     (let s = (case s of None \<Rightarrow> cs ''<NULL>'' | Some s \<Rightarrow> s);
          len = nat (min (int (length s)) (precision mod 2 ^ 32));
          (lead, field_width) = (if \<not> has_flag flags LEFT
                                 then width_loop (int len) field_width else ([], field_width));
          (trail, field_width) = width_loop (int len) field_width
      in lead @ take len s @ trail)"

definition hex_asc :: "byte list" where
  "hex_asc = cs ''0123456789abcdef''"

definition pack_hex_byte :: "byte \<Rightarrow> byte list" where
  "pack_hex_byte b = [hex_asc ! unat (drop_bit 4 (b AND 0xf0)), hex_asc ! unat (b AND 0x0f)]"

definition mac_address_string :: "(nat \<Rightarrow> byte) \<Rightarrow> int \<Rightarrow> int \<Rightarrow> u32 \<Rightarrow> byte list" where
  "mac_address_string addr field_width precision flags =
     (let mac_addr = concat (map (\<lambda>i. pack_hex_byte (addr i) @
            (if \<not> has_flag flags SPECIAL \<and> i \<noteq> 5 then [ch CHR '':''] else [])) [0..<6])
      in string_fmt (Some mac_addr) field_width precision (flags AND NOT SPECIAL))"

definition ip6_addr_string :: "(nat \<Rightarrow> byte) \<Rightarrow> int \<Rightarrow> int \<Rightarrow> u32 \<Rightarrow> byte list" where
  "ip6_addr_string addr field_width precision flags =
     (let ip6_addr = concat (map (\<lambda>i. pack_hex_byte (addr (2 * i)) @ pack_hex_byte (addr (2 * i + 1)) @
            (if \<not> has_flag flags SPECIAL \<and> i \<noteq> 7 then [ch CHR '':''] else [])) [0..<8])
      in string_fmt (Some ip6_addr) field_width precision (flags AND NOT SPECIAL))"

definition ip4_text :: "(nat \<Rightarrow> byte) \<Rightarrow> byte list" where
  "ip4_text addr = concat (map (\<lambda>i. rev (put_dec_trunc (ucast (addr i))) @
            (if i \<noteq> 3 then [ch CHR ''.''] else [])) [0..<4])"

definition ip4_addr_string :: "(nat \<Rightarrow> byte) \<Rightarrow> int \<Rightarrow> int \<Rightarrow> u32 \<Rightarrow> byte list" where
  "ip4_addr_string addr field_width precision flags =
     string_fmt (Some (ip4_text addr)) field_width precision (flags AND NOT SPECIAL)"

definition pointer :: "(u32 \<Rightarrow> byte) \<Rightarrow> cstr \<Rightarrow> u32 \<Rightarrow> int \<Rightarrow> int \<Rightarrow> u32 \<Rightarrow> byte list" where
  "pointer mem fmt ptr field_width precision flags =
     (let at = (\<lambda>i. mem (ptr + of_nat i)); c = peek fmt;
          default = (\<lambda>flags.
            let flags = flags OR SMALL
            in if field_width = -1
               then number (ucast ptr) 16 8 precision (flags OR ZEROPAD)
               else number (ucast ptr) 16 field_width precision flags)
      in if ptr = 0 then string_fmt (Some (cs ''(null)'')) field_width precision flags
         else if c = ch CHR ''m'' then mac_address_string at field_width precision (flags OR SPECIAL)
         else if c = ch CHR ''M'' then mac_address_string at field_width precision flags
         else if c = ch CHR ''i'' \<or> c = ch CHR ''I'' then
           (let flags = (if c = ch CHR ''i'' then flags OR SPECIAL else flags)
            in if peek (drop 1 fmt) = ch CHR ''6'' then ip6_addr_string at field_width precision flags
               else if peek (drop 1 fmt) = ch CHR ''4'' then ip4_addr_string at field_width precision flags
               else default (flags AND NOT SPECIAL))
         else default flags)"

subsection \<open>The format interpreter\<close>

datatype va = VA_word u32 | VA_quad u64 | VA_str "cstr option"

abbreviation is_digit :: "byte \<Rightarrow> bool" where
  "is_digit c \<equiv> ch CHR ''0'' \<le> c \<and> c \<le> ch CHR ''9''"

fun skip_atoi_loop :: "int \<Rightarrow> cstr \<Rightarrow> int \<times> cstr" where
  "skip_atoi_loop i [] = (i, [])"
| "skip_atoi_loop i (c # s) =
     (if is_digit c then skip_atoi_loop (i * 10 + uint c - 0x30) s else (i, c # s))"

definition skip_atoi :: "cstr \<Rightarrow> int \<times> cstr" where
  "skip_atoi s = skip_atoi_loop 0 s"

fun parse_flags :: "cstr \<Rightarrow> u32 \<Rightarrow> u32 \<times> cstr" where
  "parse_flags [] flags = (flags, [])"
| "parse_flags (c # fmt) flags =
     (if c = ch CHR ''-'' then parse_flags fmt (flags OR LEFT)
      else if c = ch CHR ''+'' then parse_flags fmt (flags OR PLUS)
      else if c = ch CHR '' '' then parse_flags fmt (flags OR SPACE)
      else if c = ch CHR ''#'' then parse_flags fmt (flags OR SPECIAL)
      else if c = ch CHR ''0'' then parse_flags fmt (flags OR ZEROPAD)
      else (flags, c # fmt))"

fun va_word :: "va list \<Rightarrow> (u32 \<times> va list) option" where
  "va_word (VA_word w # args) = Some (w, args)"
| "va_word _ = None"

fun va_quad :: "va list \<Rightarrow> (u64 \<times> va list) option" where
  "va_quad (VA_quad w # args) = Some (w, args)"
| "va_quad _ = None"

fun va_str :: "va list \<Rightarrow> (cstr option \<times> va list) option" where
  "va_str (VA_str s # args) = Some (s, args)"
| "va_str _ = None"

definition parse_width :: "cstr \<Rightarrow> va list \<Rightarrow> u32 \<Rightarrow> (int \<times> u32 \<times> cstr \<times> va list) option" where
  "parse_width fmt args flags =
     (if is_digit (peek fmt) then
        let (w, fmt) = skip_atoi fmt in Some (w, flags, fmt, args)
      else if peek fmt = ch CHR ''*'' then
        do { (w, args) \<leftarrow> va_word args;
             Some (if sint w < 0 then (- sint w, flags OR LEFT, tl fmt, args)
                   else (sint w, flags, tl fmt, args)) }
      else Some (-1, flags, fmt, args))"

definition parse_precision :: "cstr \<Rightarrow> va list \<Rightarrow> (int \<times> cstr \<times> va list) option" where
  "parse_precision fmt args =
     (if peek fmt = ch CHR ''.'' then
        let fmt = tl fmt in
        do { (p, fmt, args) \<leftarrow>
               (if is_digit (peek fmt) then let (p, fmt) = skip_atoi fmt in Some (p, fmt, args)
                else if peek fmt = ch CHR ''*'' then
                  do { (w, args) \<leftarrow> va_word args; Some (sint w, tl fmt, args) }
                else Some (-1, fmt, args));
             Some (if p < 0 then 0 else p, fmt, args) }
      else Some (-1, fmt, args))"

definition parse_qualifier :: "cstr \<Rightarrow> byte \<times> cstr" where
  "parse_qualifier fmt =
     (let c = peek fmt in
      if c = ch CHR ''h'' \<or> c = ch CHR ''l'' \<or> c = ch CHR ''L'' \<or>
         c = ch CHR ''Z'' \<or> c = ch CHR ''z'' \<or> c = ch CHR ''t''
      then if c = ch CHR ''l'' \<and> peek (tl fmt) = ch CHR ''l''
           then (ch CHR ''L'', tl (tl fmt)) else (c, tl fmt)
      else (-1, fmt))"

definition fetch_num :: "byte \<Rightarrow> u32 \<Rightarrow> va list \<Rightarrow> (u64 \<times> va list) option" where
  "fetch_num qualifier flags args =
     (if qualifier = ch CHR ''L'' then va_quad args
      else do { (w, args) \<leftarrow> va_word args;
        Some ((if qualifier = ch CHR ''l'' then
                 if has_flag flags SIGN then scast w else ucast w
               else if qualifier = ch CHR ''Z'' \<or> qualifier = ch CHR ''z'' then ucast w
               else if qualifier = ch CHR ''t'' then scast w
               else if qualifier = ch CHR ''h'' then
                 if has_flag flags SIGN then scast (ucast w :: u16) else ucast (ucast w :: u16)
               else if has_flag flags SIGN then scast w else ucast w), args) })"

text \<open>One conversion, from the conversion character on: the bytes appended, the stores of
  \<^verbatim>\<open>%n\<close>, the format after the conversion and the remaining arguments. \<open>pos\<close> is
  \<^verbatim>\<open>str - buf\<close>.\<close>

definition format_conv ::
  "(u32 \<Rightarrow> byte) \<Rightarrow> nat \<Rightarrow> u32 \<Rightarrow> int \<Rightarrow> int \<Rightarrow> byte \<Rightarrow> cstr \<Rightarrow> va list
     \<Rightarrow> (byte list \<times> (u32 \<times> u32) list \<times> cstr \<times> va list) option" where
  "format_conv mem pos flags field_width precision qualifier fmt args =
     (let c = peek fmt; rest = tl fmt;
          int_conv = (\<lambda>base flags.
            do { (num, args) \<leftarrow> fetch_num qualifier flags args;
                 Some (number num base field_width precision flags, [], rest, args) })
      in if c = ch CHR ''c'' then
           do { (w, args) \<leftarrow> va_word args;
                (let pad = replicate (nat (field_width - 1)) (ch CHR '' '')
                 in Some (if \<not> has_flag flags LEFT then pad @ [ucast w] else [ucast w] @ pad,
                          [], rest, args)) }
         else if c = ch CHR ''s'' then
           do { (s, args) \<leftarrow> va_str args;
                Some (string_fmt s field_width precision flags, [], rest, args) }
         else if c = ch CHR ''p'' then
           do { (p, args) \<leftarrow> va_word args;
                Some (pointer mem rest p field_width precision flags, [],
                      dropWhile isalnum rest, args) }
         else if c = ch CHR ''n'' then
           do { (p, args) \<leftarrow> va_word args; Some ([], [(p, of_nat pos)], rest, args) }
         else if c = ch CHR ''%'' then Some ([ch CHR ''%''], [], rest, args)
         else if c = ch CHR ''o'' then int_conv 8 flags
         else if c = ch CHR ''x'' then int_conv 16 (flags OR SMALL)
         else if c = ch CHR ''X'' then int_conv 16 flags
         else if c = ch CHR ''d'' \<or> c = ch CHR ''i'' then int_conv 10 (flags OR SIGN)
         else if c = ch CHR ''u'' then int_conv 10 flags
         else if c \<noteq> 0 then Some ([ch CHR ''%'', c], [], rest, args)
         else Some ([ch CHR ''%''], [], fmt, args))"

definition vsprintf_spec ::
  "(u32 \<Rightarrow> byte) \<Rightarrow> nat \<Rightarrow> cstr \<Rightarrow> va list
     \<Rightarrow> (byte list \<times> (u32 \<times> u32) list \<times> cstr \<times> va list) option" where
  "vsprintf_spec mem pos fmt args =
     (let (flags, fmt) = parse_flags fmt 0 in
      do { (field_width, flags, fmt, args) \<leftarrow> parse_width fmt args flags;
           (precision, fmt, args) \<leftarrow> parse_precision fmt args;
           (let (qualifier, fmt) = parse_qualifier fmt in
            format_conv mem pos flags field_width precision qualifier fmt args) })"

lemma skip_atoi_loop_len: "length (snd (skip_atoi_loop i s)) \<le> length s"
  by (induction i s rule: skip_atoi_loop.induct) auto

lemma parse_flags_len: "length (snd (parse_flags fmt flags)) \<le> length fmt"
  by (induction fmt flags rule: parse_flags.induct) auto

lemma skip_atoi_len: "skip_atoi s = (i, s') \<Longrightarrow> length s' \<le> length s"
  using skip_atoi_loop_len [of 0 s] by (simp add: skip_atoi_def)

lemma parse_width_len:
  "parse_width fmt args flags = Some (w, fl, fmt', args') \<Longrightarrow> length fmt' \<le> length fmt"
  by (auto simp: parse_width_def bind_eq_Some_conv dest: skip_atoi_len
      split: if_splits prod.splits)

lemma parse_precision_len:
  "parse_precision fmt args = Some (p, fmt', args') \<Longrightarrow> length fmt' \<le> length fmt"
  by (auto simp: parse_precision_def bind_eq_Some_conv Let_def dest!: skip_atoi_len
      split: if_splits prod.splits)

lemma parse_qualifier_len: "length (snd (parse_qualifier fmt)) \<le> length fmt"
  by (auto simp: parse_qualifier_def Let_def)

lemma format_conv_len:
  "format_conv mem pos fl w p q fmt args = Some (out, st, fmt', args') \<Longrightarrow> length fmt' \<le> length fmt"
  by (auto simp: format_conv_def bind_eq_Some_conv Let_def split: if_splits
      intro: le_trans [OF length_dropWhile_le])

lemma vsprintf_spec_len:
  assumes "vsprintf_spec mem pos fmt args = Some (out, st, fmt', args')"
  shows "length fmt' \<le> length fmt"
proof -
  obtain fl0 f0 where 0: "parse_flags fmt 0 = (fl0, f0)" by fastforce
  with assms obtain w fl f1 a1 p f2 a2 where 1: "parse_width f0 args fl0 = Some (w, fl, f1, a1)"
    and 2: "parse_precision f1 a1 = Some (p, f2, a2)"
    and c: "(case parse_qualifier f2 of (q, f3) \<Rightarrow> format_conv mem pos fl w p q f3 a2)
      = Some (out, st, fmt', args')"
    by (auto simp: vsprintf_spec_def bind_eq_Some_conv)
  obtain q f3 where 3: "parse_qualifier f2 = (q, f3)" by fastforce
  note 0 1 2 3 c [unfolded 3 prod.case]
  then show ?thesis
    using parse_flags_len [of fmt 0] parse_width_len [of f0 args fl0 w fl f1 a1]
      parse_precision_len [of f1 a1 p f2 a2] parse_qualifier_len [of f2]
      format_conv_len [of mem pos fl w p q f3 a2] by fastforce
qed

function vsprintf_loop ::
  "(u32 \<Rightarrow> byte) \<Rightarrow> byte list \<Rightarrow> (u32 \<times> u32) list \<Rightarrow> cstr \<Rightarrow> va list
     \<Rightarrow> (byte list \<times> (u32 \<times> u32) list) option" where
  "vsprintf_loop mem str st [] args = Some (str, st)"
| "vsprintf_loop mem str st (c # fmt) args =
     (if c \<noteq> ch CHR ''%'' then vsprintf_loop mem (str @ [c]) st fmt args
      else case vsprintf_spec mem (length str) fmt args of
             None \<Rightarrow> None
           | Some (out, w, fmt, args) \<Rightarrow> vsprintf_loop mem (str @ out) (st @ w) fmt args)"
  by pat_completeness auto
termination
  by (relation "measure (\<lambda>(mem, str, st, fmt, args). length fmt)")
    (auto dest!: vsprintf_spec_len)

text \<open>\<^verbatim>\<open>vsprintf\<close> returns the number of characters written; the buffer also receives the
  terminating NUL.\<close>

definition vsprintf ::
  "(u32 \<Rightarrow> byte) \<Rightarrow> cstr \<Rightarrow> va list \<Rightarrow> (byte list \<times> (u32 \<times> u32) list \<times> nat) option" where
  "vsprintf mem fmt args =
     do { (str, st) \<leftarrow> vsprintf_loop mem [] [] fmt args; Some (str @ [0], st, length str) }"


subsection \<open>Correctness of the decimal conversion\<close>

text \<open>The reference: the digits of a number in a base, least significant first.\<close>

fun base_digits :: "nat \<Rightarrow> nat \<Rightarrow> nat list" where
  "base_digits b n = (if b < 2 \<or> n < b then [n] else n mod b # base_digits b (n div b))"

declare base_digits.simps [simp del]

abbreviation dec_digits :: "nat \<Rightarrow> nat list" where
  "dec_digits \<equiv> base_digits 10"

lemma base_digits_small: "n < b \<Longrightarrow> base_digits b n = [n]"
  by (simp add: base_digits.simps)

lemma base_digits_step: "2 \<le> b \<Longrightarrow> b \<le> n \<Longrightarrow> base_digits b n = n mod b # base_digits b (n div b)"
  by (simp add: base_digits.simps [of b n])

lemmas dec_digits_small = base_digits_small [where b = 10]
lemmas dec_digits_step = base_digits_step [where b = 10, simplified]

lemma base_digits_not_Nil [simp]: "base_digits b n \<noteq> []"
  by (subst base_digits.simps) simp

lemma base_digits_less: "2 \<le> b \<Longrightarrow> \<forall>d \<in> set (base_digits b n). d < b"
  by (induction b n rule: base_digits.induct) (subst base_digits.simps, auto)

lemma digits_value_base_digits:
  assumes "2 \<le> b" shows "digits_value b (rev (base_digits b n)) = n"
  using assms
proof (induction b n rule: base_digits.induct)
  case (1 b n)
  show ?case
  proof (cases "n < b")
    case True
    then show ?thesis by (simp add: base_digits_small digits_value_def)
  next
    case False
    with 1 show ?thesis by (simp add: base_digits_step digits_value_snoc)
  qed
qed

lemma length_base_digits:
  assumes "2 \<le> b" "n < b ^ Suc k" shows "length (base_digits b n) \<le> Suc k"
  using assms(2)
proof (induction k arbitrary: n)
  case 0
  then show ?case by (simp add: base_digits_small)
next
  case (Suc k)
  show ?case
  proof (cases "n < b")
    case False
    have "n div b < b ^ Suc k"
      using Suc.prems by (simp add: less_mult_imp_div_less mult.commute)
    from Suc.IH [OF this] False assms(1) show ?thesis by (simp add: base_digits_step)
  qed (simp add: base_digits_small)
qed

text \<open>The reciprocal multiplications divide by ten exactly on the ranges that occur.\<close>

lemma div10_cd: "x < 400 \<Longrightarrow> x * 205 div 2048 = x div (10::nat)"
proof -
  assume "x < 400"
  define q r where "q = x div 10" and "r = x mod 10"
  have x: "x = 10 * q + r" by (simp add: q_def r_def)
  have "r \<le> 9" "q \<le> 39" using \<open>x < 400\<close> by (simp_all add: q_def r_def)
  then have "2 * q + 205 * r < 2048" by linarith
  moreover have "x * 205 = 2048 * q + (2 * q + 205 * r)" by (simp add: x)
  ultimately show ?thesis by (simp add: q_def)
qed

lemma div10_d: "x < 69 \<Longrightarrow> x * 13 div 128 = x div (10::nat)"
proof -
  assume "x < 69"
  define q r where "q = x div 10" and "r = x mod 10"
  have x: "x = 10 * q + r" by (simp add: q_def r_def)
  have "r \<le> 9" "q \<le> 6" using \<open>x < 69\<close> by (simp_all add: q_def r_def)
  moreover have "q < 6 \<or> r < 9" using x \<open>x < 69\<close> by linarith
  ultimately have "2 * q + 13 * r < 128" by linarith
  moreover have "x * 13 = 128 * q + (2 * q + 13 * r)" by (simp add: x)
  ultimately show ?thesis by (simp add: q_def)
qed

lemma unat_and_15 [bytes_simps]: "unat (w AND 0xf :: u32) = unat w mod 16"
proof -
  have "w AND 0xf = take_bit 4 w"
    unfolding take_bit_eq_mask by (simp add: mask_eq_exp_minus_1)
  then show ?thesis unfolding \<open>w AND 0xf = take_bit 4 w\<close> unsigned_take_bit_eq
    by (simp add: take_bit_eq_mod)
qed

lemma unat_div10_cd: "unat (x :: u32) < 400 \<Longrightarrow> unat (drop_bit 11 (x * 0xcd)) = unat x div 10"
  using div10_cd [of "unat x"] by (simp add: unat_drop_bit unat_word_ariths)

lemma unat_div10_d: "unat (x :: u32) < 69 \<Longrightarrow> unat (drop_bit 7 (x * 0xd)) = unat x div 10"
  using div10_d [of "unat x"] by (simp add: unat_drop_bit unat_word_ariths)

lemma unat_mod10:
  assumes "unat (x :: u32) < 400" "unat q = unat x div 10"
  shows "unat (x - 10 * q) = unat x mod 10"
proof -
  have "unat (10 * q) = 10 * (unat x div 10)" using assms by (simp add: unat_word_ariths)
  moreover have "10 * (unat x div 10) \<le> unat x" by simp
  ultimately have "unat (x - 10 * q) = unat x - 10 * (unat x div 10)"
    by (simp add: unat_sub word_le_nat_alt)
  then show ?thesis by (simp add: minus_mult_div_eq_mod)
qed

lemma digit_char_word:
  assumes "unat (x :: u32) < 10" shows "ucast (x + 0x30) = digit_char (unat x)"
proof -
  have "unat (ucast (x + 0x30) :: byte) = unat x + 0x30"
    using assms by (simp add: unat_ucast_mod unat_word_ariths)
  from word_eq_of_natI [OF this] show ?thesis using assms by (simp add: digit_char_def)
qed

text \<open>The arithmetic of both routines on natural numbers: \<open>n\<close> is split into hexadecimal digits
  \<open>e a b c\<close>, which are recombined into the decimal ones by carries \<open>s0\<close> to \<open>s3\<close>.\<close>

lemma hex_split: "n = 4096 * (n div 4096) + 256 * (n div 256 mod 16) + 16 * (n div 16 mod 16) + n mod (16::nat)"
proof -
  have "n div 16 = 16 * (n div 256) + n div 16 mod 16"
    "n div 256 = 16 * (n div 4096) + n div 256 mod 16" "n = 16 * (n div 16) + n mod 16"
    using div_mult2_eq [of n 16 16] div_mult2_eq [of n 256 16] by simp_all
  then show ?thesis by linarith
qed

lemma put_dec_arith:
  fixes n :: nat
  assumes n: "n < 100000" "n = 4096 * c + 256 * b + 16 * a + e" and s: "a \<le> 15" "b \<le> 15" "e \<le> 15"
    and s0: "s0 = 6 * (c + b + a) + e" and s1: "s1 = s0 div 10 + 9 * c + 5 * b + a"
    and s2: "s2 = s1 div 10 + 2 * b" and s3: "s3 = s2 div 10 + 4 * c"
  shows "c \<le> 24" "s0 < 400" "s1 < 400" "s2 < 69" "s3 < 400"
    "n mod 10 = s0 mod 10" "n div 10 = 10 * (40 * c + 2 * b) + s1" "n div 100 = 10 * (4 * c) + s2"
    "n div 1000 = s3" "n div 10000 = s3 div 10"
proof -
  show c: "c \<le> 24" using n by linarith
  then have "s0 \<le> 339" using s by (simp add: s0)
  then show "s0 < 400" by simp
  have "s0 div 10 \<le> 33" using \<open>s0 \<le> 339\<close> by simp
  then have "s1 \<le> 339" using c s by (simp add: s1)
  then show "s1 < 400" by simp
  have "s1 div 10 \<le> 33" using \<open>s1 \<le> 339\<close> by simp
  then show "s2 < 69" using s by (simp add: s2)
  then have "s2 div 10 \<le> 6" by simp
  then show "s3 < 400" using c by (simp add: s3)
  have n0: "n = 10 * (409 * c + 25 * b + a) + s0" by (simp add: n s0)
  show "n mod 10 = s0 mod 10" unfolding n0 by (rule mod_mult_self4)
  show n1: "n div 10 = 10 * (40 * c + 2 * b) + s1" unfolding n0 s1 by simp
  show n2: "n div 100 = 10 * (4 * c) + s2"
    using n1 div_mult2_eq [of n 10 10] by (simp add: s2)
  show n3: "n div 1000 = s3" using n2 div_mult2_eq [of n 100 10] by (simp add: s3)
  show "n div 10000 = s3 div 10" using n3 div_mult2_eq [of n 1000 10] by simp
qed

text \<open>The same on machine words, with the names of the code (\<open>e1\<close>, \<open>e2\<close>, \<open>e3\<close> are the
  reassigned \<open>d1\<close>, \<open>d2\<close>, \<open>d3\<close>).\<close>

lemma put_dec_steps:
  fixes q d0 d1 d2 d3 :: u32
  assumes q: "unat q < 100000"
    and d: "d1 = drop_bit 4 q AND 0xf" "d2 = drop_bit 8 q AND 0xf" "d3 = drop_bit 12 q"
    and d0: "d0 = 6 * (d3 + d2 + d1) + (q AND 0xf)"
    and q0: "q0 = drop_bit 11 (d0 * 0xcd)" and e1: "e1 = q0 + 9 * d3 + 5 * d2 + d1"
    and q1: "q1 = drop_bit 11 (e1 * 0xcd)" and e2: "e2 = q1 + 2 * d2"
    and q2: "q2 = drop_bit 7 (e2 * 0xd)" and e3: "e3 = q2 + 4 * d3"
    and q3: "q3 = drop_bit 11 (e3 * 0xcd)"
  shows "unat (d0 - 10 * q0) = unat q mod 10" "unat (e1 - 10 * q1) = unat q div 10 mod 10"
    "unat (e2 - 10 * q2) = unat q div 100 mod 10" "unat (e3 - 10 * q3) = unat q div 1000 mod 10"
    "unat q3 = unat q div 10000" "e1 = 0 \<longleftrightarrow> unat q < 10"
    "(e2 = 0 \<and> d3 = 0) \<longleftrightarrow> unat q < 100" "e3 = 0 \<longleftrightarrow> unat q < 1000"
proof -
  obtain a b c e where u: "unat d1 = a" "unat d2 = b" "unat d3 = c" "unat (q AND 0xf) = e" by blast
  have m15: "x mod 16 \<le> 15" for x :: nat using mod_less_divisor [of 16 x] by linarith
  have n: "unat q = 4096 * c + 256 * b + 16 * a + e" and s: "a \<le> 15" "b \<le> 15" "e \<le> 15"
    using hex_split [of "unat q"] m15 u by (simp_all add: d unat_and_15 unat_drop_bit)
  obtain s0 t0 s1 t1 s2 t2 s3 where s0: "s0 = 6 * (c + b + a) + e" and t0: "t0 = s0 div 10"
    and s1: "s1 = t0 + 9 * c + 5 * b + a" and t1: "t1 = s1 div 10" and s2: "s2 = t1 + 2 * b"
    and t2: "t2 = s2 div 10" and s3: "s3 = t2 + 4 * c" by blast
  note A = put_dec_arith [OF q n s s0 s1 [unfolded t0] s2 [unfolded t1] s3 [unfolded t2]]
  have u0: "unat d0 = s0" using A(1) s u by (simp add: d0 unat_word_ariths s0)
  have v0: "unat q0 = t0" using u0 A(2) by (simp add: q0 unat_div10_cd t0)
  have u1: "unat e1 = s1" using A(3) u v0 unfolding s1 by (simp add: e1 unat_word_ariths)
  have v1: "unat q1 = t1" using u1 A(3) by (simp add: q1 unat_div10_cd t1)
  have u2: "unat e2 = s2" using A(4) u v1 unfolding s2 by (simp add: e2 unat_word_ariths)
  have v2: "unat q2 = t2" using u2 A(4) by (simp add: q2 unat_div10_d t2)
  have u3: "unat e3 = s3" using A(5) u v2 unfolding s3 by (simp add: e3 unat_word_ariths)
  have v3: "unat q3 = s3 div 10" using u3 A(5) by (simp add: q3 unat_div10_cd)
  show "unat (d0 - 10 * q0) = unat q mod 10"
    using unat_mod10 [of d0 q0] u0 v0 t0 A(2,6) by simp
  show "unat (e1 - 10 * q1) = unat q div 10 mod 10"
    using unat_mod10 [of e1 q1] u1 v1 t1 A(3) unfolding A(7) mod_mult_self4 by simp
  show "unat (e2 - 10 * q2) = unat q div 100 mod 10"
    using unat_mod10 [of e2 q2] u2 v2 t2 A(4) unfolding A(8) mod_mult_self4 by simp
  show "unat (e3 - 10 * q3) = unat q div 1000 mod 10"
    using unat_mod10 [of e3 q3] u3 v3 A(5,9) by simp
  show "unat q3 = unat q div 10000" using v3 A(10) by simp
  have z: "w = 0 \<longleftrightarrow> unat w = 0" for w :: u32 by (simp add: unat_eq_0)
  have lt: "unat q < k \<longleftrightarrow> unat q div k = 0" if "0 < k" for k using that by (simp add: div_eq_0_iff)
  show "e1 = 0 \<longleftrightarrow> unat q < 10" using lt [of 10] u1 unfolding z A(7) s1 by auto
  show "(e2 = 0 \<and> d3 = 0) \<longleftrightarrow> unat q < 100" using lt [of 100] u2 u(3) unfolding z A(8) s2 by auto
  show "e3 = 0 \<longleftrightarrow> unat q < 1000" using lt [of 1000] u3 unfolding z A(9) by auto
qed

lemma div_powers_10:
  fixes n :: nat
  shows "n div 10 div 10 = n div 100" "n div 100 div 10 = n div 1000"
    "n div 1000 div 10 = n div 10000" "n div 10000 div 10 = n div 100000"
  by (simp_all flip: div_mult2_eq)

lemma dec_digits_5:
  assumes "n < 100000"
  shows "dec_digits n =
    (if n < 10 then [n mod 10]
     else if n < 100 then [n mod 10, n div 10 mod 10]
     else if n < 1000 then [n mod 10, n div 10 mod 10, n div 100 mod 10]
     else if n < 10000 then [n mod 10, n div 10 mod 10, n div 100 mod 10, n div 1000 mod 10]
     else [n mod 10, n div 10 mod 10, n div 100 mod 10, n div 1000 mod 10, n div 10000])"
proof -
  have ge: "10 \<le> n div k \<longleftrightarrow> 10 * k \<le> n" if "0 < k" for k
    using that by (simp add: less_eq_div_iff_mult_less_eq)
  show ?thesis
    using assms ge [of 10] ge [of 100] ge [of 1000]
    by (simp add: dec_digits_small dec_digits_step div_powers_10 not_less)
qed

lemma dec_digits_split:
  assumes "100000 \<le> n"
  shows "dec_digits n = [n mod 10, n div 10 mod 10, n div 100 mod 10, n div 1000 mod 10,
    n div 10000 mod 10] @ dec_digits (n div 100000)"
proof -
  have g: "10 \<le> n" "10 \<le> n div 10" "10 \<le> n div 100" "10 \<le> n div 1000" "10 \<le> n div 10000"
    using assms by simp_all
  show ?thesis using g by (simp add: dec_digits_step div_powers_10)
qed

lemma put_dec_trunc_unfold:
  assumes
    "d1 = drop_bit 4 q AND 0xf" "d2 = drop_bit 8 q AND 0xf" "d3 = drop_bit 12 q"
    "d0 = 6 * (d3 + d2 + d1) + (q AND 0xf)"
    "q0 = drop_bit 11 (d0 * 0xcd)" "e1 = q0 + 9 * d3 + 5 * d2 + d1"
    "q1 = drop_bit 11 (e1 * 0xcd)" "e2 = q1 + 2 * d2"
    "q2 = drop_bit 7 (e2 * 0xd)" "e3 = q2 + 4 * d3"
    "q3 = drop_bit 11 (e3 * 0xcd)"
  shows "put_dec_trunc q =
    ucast (d0 - 10 * q0 + 0x30) # (if e1 \<noteq> 0 then ucast (e1 - 10 * q1 + 0x30) #
      (if e2 \<noteq> 0 \<or> d3 \<noteq> 0 then ucast (e2 - 10 * q2 + 0x30) #
        (if e3 \<noteq> 0 then ucast (e3 - 10 * q3 + 0x30) #
          (if q3 \<noteq> 0 then [ucast (q3 + 0x30)] else []) else []) else []) else [])"
  unfolding put_dec_trunc_def Let_def assms
  by (simp only: append_Cons append_Nil if_distrib [of "\<lambda>x. _ # x"])

lemma put_dec_full_unfold:
  assumes
    "d1 = drop_bit 4 q AND 0xf" "d2 = drop_bit 8 q AND 0xf" "d3 = drop_bit 12 q"
    "d0 = 6 * (d3 + d2 + d1) + (q AND 0xf)"
    "q0 = drop_bit 11 (d0 * 0xcd)" "e1 = q0 + 9 * d3 + 5 * d2 + d1"
    "q1 = drop_bit 11 (e1 * 0xcd)" "e2 = q1 + 2 * d2"
    "q2 = drop_bit 7 (e2 * 0xd)" "e3 = q2 + 4 * d3"
    "q3 = drop_bit 11 (e3 * 0xcd)"
  shows "put_dec_full q = [ucast (d0 - 10 * q0 + 0x30), ucast (e1 - 10 * q1 + 0x30),
    ucast (e2 - 10 * q2 + 0x30), ucast (e3 - 10 * q3 + 0x30), ucast (q3 + 0x30)]"
  unfolding put_dec_full_def Let_def assms by (rule refl)

lemma put_dec_trunc_correct:
  assumes q: "unat q < 100000"
  shows "put_dec_trunc q = map digit_char (dec_digits (unat q))"
proof -
  note R = refl [of "drop_bit 4 q AND 0xf"] refl [of "drop_bit 8 q AND 0xf"] refl [of "drop_bit 12 q"]
    refl refl refl refl refl refl refl refl
  note S = put_dec_steps [OF q R] and U = put_dec_trunc_unfold [OF R]
  obtain x0 x1 x2 x3 x4 :: u32 and c1 c2 c3 :: bool where
    p: "put_dec_trunc q = ucast (x0 + 0x30) # (if c1 then ucast (x1 + 0x30) #
      (if c2 then ucast (x2 + 0x30) # (if c3 then ucast (x3 + 0x30) #
          (if x4 \<noteq> 0 then [ucast (x4 + 0x30)] else []) else []) else []) else [])"
    and x: "unat x0 = unat q mod 10" "unat x1 = unat q div 10 mod 10" "unat x2 = unat q div 100 mod 10"
      "unat x3 = unat q div 1000 mod 10" "unat x4 = unat q div 10000"
    and c: "c1 \<longleftrightarrow> 10 \<le> unat q" "c2 \<longleftrightarrow> 100 \<le> unat q" "c3 \<longleftrightarrow> 1000 \<le> unat q"
    using U S unfolding not_le [symmetric] by blast
  have "unat q div 10000 < 10" using q by simp
  moreover have "x4 \<noteq> 0 \<longleftrightarrow> 10000 \<le> unat q"
    using x(5) by (simp add: div_eq_0_iff not_less flip: unat_eq_0)
  ultimately show ?thesis
    unfolding p dec_digits_5 [OF q] using c x by (auto simp: digit_char_word)
qed

lemma put_dec_full_correct:
  assumes q: "unat q < 100000"
  shows "put_dec_full q = map digit_char [unat q mod 10, unat q div 10 mod 10,
    unat q div 100 mod 10, unat q div 1000 mod 10, unat q div 10000]"
proof -
  note R = refl [of "drop_bit 4 q AND 0xf"] refl [of "drop_bit 8 q AND 0xf"] refl [of "drop_bit 12 q"]
    refl refl refl refl refl refl refl refl
  obtain x0 x1 x2 x3 x4 :: u32 where
    p: "put_dec_full q = [ucast (x0 + 0x30), ucast (x1 + 0x30), ucast (x2 + 0x30),
      ucast (x3 + 0x30), ucast (x4 + 0x30)]"
    and x: "unat x0 = unat q mod 10" "unat x1 = unat q div 10 mod 10" "unat x2 = unat q div 100 mod 10"
      "unat x3 = unat q div 1000 mod 10" "unat x4 = unat q div 10000"
    using put_dec_full_unfold [OF R] put_dec_steps(1-5) [OF q R] by blast
  have "unat q div 10000 < 10" using q by simp
  then show ?thesis unfolding p using x by (simp add: digit_char_word)
qed

lemma mod_div_mod:
  fixes x k m :: nat
  assumes "k * b dvd m" "0 < k"
  shows "x mod m div k mod b = x div k mod b"
proof -
  from assms(1) obtain j where m: "m = k * (b * j)" by (auto simp: dvd_def algebra_simps)
  have "x mod m div k = x div k mod (b * j)"
    using assms(2) by (simp add: m mod_mult2_eq)
  then show ?thesis by (simp add: mod_mod_cancel)
qed

lemma put_dec_correct: "put_dec num = map digit_char (dec_digits (unat num))"
proof (induction num rule: put_dec.induct)
  case (1 num)
  show ?case
  proof (cases "num < 100000")
    case True
    then have lt: "unat num < 100000" by (simp add: word_less_nat_alt)
    then have "unat (ucast num :: u32) = unat num" by (simp add: unat_ucast_mod)
    with put_dec_trunc_correct [of "ucast num"] lt True show ?thesis
      by (simp add: put_dec.simps [of num])
  next
    case False
    then have ge: "100000 \<le> unat num" by (simp add: word_less_nat_alt)
    define q r where "q = (of_nat (unat num div 100000) :: u64)"
      and "r = (of_nat (unat num mod 100000) :: u32)"
    have dd: "do_div num 100000 = Some (q, r)"
      using do_div_correct [of 100000 num] by (simp add: q_def r_def)
    have r: "unat r = unat num mod 100000" by (simp add: r_def unat_of_nat)
    have "unat num div 100000 < 2 ^ 64" using u64_less [of num] by simp
    then have q: "unat q = unat num div 100000" by (simp add: q_def unat_of_nat)
    have top: "unat num mod 100000 div 10000 = unat num div 10000 mod 10"
      using mod_div_mod [of 10000 10 100000 "unat num"] by simp
    have "put_dec_full r = map digit_char [unat num mod 10, unat num div 10 mod 10,
        unat num div 100 mod 10, unat num div 1000 mod 10, unat num div 10000 mod 10]"
      using put_dec_full_correct [of r] mod_div_mod [of 10 10 100000 "unat num"]
        mod_div_mod [of 100 10 100000 "unat num"] mod_div_mod [of 1000 10 100000 "unat num"]
        mod_div_mod [of 1 10 100000 "unat num"] top
      unfolding r by simp
    with "1.IH" [OF False dd refl] dec_digits_split [OF ge] False dd q show ?thesis
      by (simp add: put_dec.simps [of num])
  qed
qed

lemma length_put_dec: "length (put_dec num) \<le> 20"
  using length_base_digits [of 10 "unat num" 19] u64_less [of num] by (simp add: put_dec_correct)

subsection \<open>Octal and hexadecimal conversion\<close>

definition hex_case :: "byte \<Rightarrow> nat \<Rightarrow> byte" where
  "hex_case locase d = number_digits ! d OR locase"

lemma hex_case_small: "d < 16 \<Longrightarrow> hex_case 0x20 d = digit_char d"
proof -
  assume "d < 16"
  moreover have "list_all (\<lambda>d. hex_case 0x20 d = digit_char d) [0..<16]" by code_simp
  ultimately show ?thesis by (simp add: list_all_iff)
qed

lemma unat_and_mask_byte:
  "unat ((ucast (num :: u64) :: byte) AND 7) = unat num mod 8"
  "unat ((ucast (num :: u64) :: byte) AND 15) = unat num mod 16"
proof -
  have m: "(w AND 7 :: byte) = take_bit 3 w" "(w AND 15 :: byte) = take_bit 4 w" for w
    unfolding take_bit_eq_mask by (simp_all add: mask_eq_exp_minus_1)
  show "unat ((ucast (num :: u64) :: byte) AND 7) = unat num mod 8"
    "unat ((ucast (num :: u64) :: byte) AND 15) = unat num mod 16"
    unfolding m unsigned_take_bit_eq
    by (simp_all add: take_bit_eq_mod unat_ucast_mod mod_mod_cancel)
qed

lemma number_pow2_correct:
  assumes "base = 8 \<or> base = 16"
  shows "number_pow2 base locase num = map (hex_case locase) (base_digits base (unat num))"
  using assms
proof (induction base locase num rule: number_pow2.induct)
  case (1 base locase num)
  define shift :: nat where "shift = (if base = 16 then 4 else 3)"
  have b: "base = 2 ^ shift" "2 \<le> base" using "1.prems" by (auto simp: shift_def)
  have idx: "unat ((ucast num :: byte) AND of_nat (base - 1)) = unat num mod base"
    using "1.prems" unat_and_mask_byte [of num] by auto
  have dv: "unat (drop_bit shift num) = unat num div base" by (simp add: unat_drop_bit b)
  then have z: "drop_bit shift num \<noteq> 0 \<longleftrightarrow> base \<le> unat num"
    using b by (simp add: div_eq_0_iff not_less flip: unat_eq_0)
  have eq: "number_pow2 base locase num = hex_case locase (unat num mod base) #
      (if drop_bit shift num \<noteq> 0 then number_pow2 base locase (drop_bit shift num) else [])"
    by (subst number_pow2.simps) (simp only: Let_def idx hex_case_def shift_def)
  show ?case
  proof (cases "base \<le> unat num")
    case True
    with "1.IH" [OF refl shift_def refl refl] z "1.prems" dv b(2) show ?thesis
      unfolding eq by (simp add: base_digits_step)
  next
    case False
    with z show ?thesis unfolding eq by (simp add: base_digits_small)
  qed
qed

lemma length_number_pow2:
  assumes "base = 8 \<or> base = 16" shows "length (number_pow2 base locase num) \<le> 22"
proof -
  have "unat num < 8 ^ Suc 21" "unat num < 16 ^ Suc 21"
    using u64_less [of num] by (simp_all add: order_less_trans [OF u64_less])
  with assms length_base_digits [of base "unat num" 21] show ?thesis
    by (auto simp: number_pow2_correct)
qed

lemma hex_small_digits:
  "map (hex_case 0x20) (base_digits 16 n) = map digit_char (base_digits 16 n)"
  using base_digits_less [of 16 n] by (auto simp: hex_case_small)

subsection \<open>The layout of a number\<close>

definition number_tmp :: "u64 \<Rightarrow> nat \<Rightarrow> byte \<Rightarrow> byte list" where
  "number_tmp num base locase =
     (if num = 0 then [ch CHR ''0''] else if base \<noteq> 10 then number_pow2 base locase num
      else put_dec num)"

text \<open>The scratch array \<^verbatim>\<open>char tmp[66]\<close> of \<^verbatim>\<open>number\<close> is never overrun.\<close>

lemma length_number_tmp:
  assumes "base \<in> {8, 10, 16}" shows "length (number_tmp num base locase) \<le> 22"
  using assms length_number_pow2 [of base locase num] length_put_dec [of num]
  by (auto simp: number_tmp_def)

lemma number_tmp_dec: "number_tmp num 10 locase = map digit_char (dec_digits (unat num))"
  by (simp add: number_tmp_def put_dec_correct base_digits_small unat_eq_0)

lemma number_tmp_hex: "number_tmp num 16 0x20 = map digit_char (base_digits 16 (unat num))"
  by (simp add: number_tmp_def number_pow2_correct base_digits_small hex_small_digits unat_eq_0)


end
