(* ===== verification/Roundtrip.thy ===== *)
theory Roundtrip
  imports Vsprintf
begin

text \<open>
  Laws of formatted output and its agreement with the parsers of theory \<open>Strtoul\<close>: the layout and
  the width of a formatted number, and the round trips print/parse for decimal and hexadecimal
  numbers and for dotted IPv4 addresses.
\<close>

lemma has_flag_zeropad_left:
  "has_flag type (ZEROPAD + LEFT) \<longleftrightarrow> has_flag type ZEROPAD \<or> has_flag type LEFT"
proof -
  have "type AND (ZEROPAD + LEFT) = (type AND ZEROPAD) OR (type AND LEFT)"
    by (simp flip: bit.conj_disj_distrib)
  then show ?thesis by (simp add: or_eq_0_iff)
qed

lemma number_unfold:
  assumes "number_sign num type' sz = (sign, num', sz')"
    and "type' = (if has_flag type LEFT then type AND NOT ZEROPAD else type)"
    and "tmp = number_tmp num' base (ucast (type AND SMALL))"
    and "pfx = (if has_flag type SPECIAL \<and> base \<noteq> 10
      then ch CHR ''0'' # (if base = 16 then [ch CHR ''X'' OR ucast (type AND SMALL)] else []) else [])"
    and "prec = max precision (int (length tmp))"
    and "room = sz' - int (length pfx) - prec"
  shows "number num base sz precision type =
    (if \<not> has_flag type' (ZEROPAD + LEFT) then replicate (nat room) 0x20 else []) @
    (if sign \<noteq> 0 then [sign] else []) @ pfx @
    (if \<not> has_flag type' LEFT \<and> has_flag type' ZEROPAD then replicate (nat room) 0x30 else []) @
    replicate (nat (prec - int (length tmp))) 0x30 @ rev tmp @
    (if has_flag type' LEFT then replicate (nat room) 0x20 else [])"
proof -
  note lz = has_flag_zeropad_left [of type']
  have p: "(if i > precision then i else precision) = max precision i" for i :: int by simp
  have szp: "(if has_flag type SPECIAL \<and> base \<noteq> 10 then if base = 16 then sz' - 2 else sz' - 1 else sz')
      = sz' - int (length pfx)"
    by (simp add: assms(4))
  have nz: "replicate (nat (min room 0 - 1)) c = []" "replicate (nat (min (min room 0 - 1) 0 - 1)) c = []"
    for c :: byte by simp_all
  show ?thesis
    unfolding number_def Let_def assms(2) [symmetric] assms(1) prod.case szp
      number_tmp_def [symmetric] assms(3) [symmetric] p assms(5,6) [symmetric] pad_loop_def
    using lz by (cases "has_flag type' LEFT"; cases "has_flag type' ZEROPAD")
      (simp_all add: nz assms(4))
qed


text \<open>The field width law: a formatted number is as long as the field width asks for, or as its
  sign, prefix and digits need if that is more.\<close>

definition number_core :: "u64 \<Rightarrow> nat \<Rightarrow> int \<Rightarrow> u32 \<Rightarrow> int" where
  "number_core num base precision type =
     (let (sign, num', _) = number_sign num type 0
      in (if sign \<noteq> 0 then 1 else 0)
       + (if has_flag type SPECIAL \<and> base \<noteq> 10 then if base = 16 then 2 else 1 else 0)
       + max precision (int (length (number_tmp num' base (ucast (type AND SMALL))))))"

lemma number_sign_sz:
  "number_sign num type sz = (case number_sign num type 0 of (s, n, d) \<Rightarrow> (s, n, sz + d))"
  "number_sign num type 0 = (s, n, d) \<Longrightarrow> d = - (if s \<noteq> 0 then 1 else 0)"
  by (auto simp: number_sign_def split: if_splits)

lemma number_sign_cong:
  assumes "type AND SIGN = type' AND SIGN" "type AND PLUS = type' AND PLUS"
    "type AND SPACE = type' AND SPACE"
  shows "number_sign num type sz = number_sign num type' sz"
  unfolding number_sign_def assms by (rule refl)

lemma length_number:
  "int (length (number num base sz precision type)) = max sz (number_core num base precision type)"
proof -
  define type' where "type' = (if has_flag type LEFT then type AND NOT ZEROPAD else type)"
  have "number_sign num type' sz = number_sign num type sz"
    by (rule number_sign_cong) (simp_all add: type'_def and.assoc)
  moreover obtain s n d where d: "number_sign num type 0 = (s, n, d)" by (metis prod_cases3)
  ultimately have sg: "number_sign num type' sz = (s, n, sz - (if s \<noteq> 0 then 1 else 0))"
    using number_sign_sz(1) [of num type sz] number_sign_sz(2) [OF d] by simp
  have zl: "has_flag type' LEFT \<Longrightarrow> \<not> has_flag type' ZEROPAD"
    by (auto simp: type'_def and.assoc split: if_splits)
  define tmp where "tmp = number_tmp n base (ucast (type AND SMALL))"
  define pfx where "pfx = (if has_flag type SPECIAL \<and> base \<noteq> 10
    then ch CHR ''0'' # (if base = 16 then [ch CHR ''X'' OR ucast (type AND SMALL)] else []) else [])"
  define prec where "prec = max precision (int (length tmp))"
  define room where "room = sz - (if s \<noteq> 0 then 1 else 0) - int (length pfx) - prec"
  have "int (length (number num base sz precision type)) =
      int (nat room) + (if s \<noteq> 0 then 1 else 0) + int (length pfx) + prec"
    unfolding number_unfold [OF sg type'_def tmp_def pfx_def prec_def room_def]
    using zl has_flag_zeropad_left [of type']
    by (cases "has_flag type' LEFT"; cases "has_flag type' ZEROPAD") (simp_all add: prec_def)
  moreover have "number_core num base precision type = (if s \<noteq> 0 then 1 else 0) + int (length pfx) + prec"
    by (simp add: number_core_def d pfx_def prec_def tmp_def)
  ultimately show ?thesis by (simp only: room_def)
qed

subsection \<open>Print and parse\<close>

lemma number_dec: "number num 10 (-1) (-1) 0 = rev (map digit_char (dec_digits (unat num)))"
  by (simp add: number_def number_sign_def pad_loop_def number_tmp_dec Let_def
      flip: number_tmp_def [where locase = 0])

lemma number_hex: "number num 16 (-1) (-1) SMALL = rev (map digit_char (base_digits 16 (unat num)))"
  by (simp add: number_def number_sign_def pad_loop_def number_tmp_hex Let_def
      flip: number_tmp_def)


lemma strtoul_print:
  assumes b: "b = 10 \<or> b = 16" and rest: "rest = [] \<or> peek rest = ch CHR ''.''"
  shows "simple_strtoul (rev (map digit_char (base_digits b n)) @ rest) (of_nat b) = (of_nat n, rest)"
proof -
  have b2: "2 \<le> b" "0 < b" "b \<le> 16" using b by auto
  have "stops_at (of_nat b :: u32) rest" "peek rest \<noteq> 0x78"
    using rest by (auto simp: stops_at_def isxdigit_iff split: list.splits)
  moreover have "\<forall>d \<in> set (rev (base_digits b n)). d < b"
    using base_digits_less [OF b2(1), of n] by simp
  ultimately show ?thesis
    using simple_strtoul_numeral [OF b2(2,3), of "rev (base_digits b n)" rest]
    by (simp add: digits_value_base_digits [OF b2(1)] flip: rev_map)
qed

lemma unat_ucast_u64 [simp]: "unat (ucast (w :: u32) :: u64) = unat w"
  using u32_less [of w] by (simp add: unat_ucast_mod)

lemma vsprintf_lu:
  "vsprintf mem (cs ''%lu'') [VA_word w] =
     Some (number (ucast w) 10 (-1) (-1) 0 @ [0], [], length (number (ucast w) 10 (-1) (-1) 0))"
  by (simp add: vsprintf_def cs_def vsprintf_spec_def parse_width_def parse_precision_def
      parse_qualifier_def format_conv_def fetch_num_def)

lemma vsprintf_lx:
  "vsprintf mem (cs ''%lx'') [VA_word w] =
     Some (number (ucast w) 16 (-1) (-1) SMALL @ [0], [], length (number (ucast w) 16 (-1) (-1) SMALL))"
  by (simp add: vsprintf_def cs_def vsprintf_spec_def parse_width_def parse_precision_def
      parse_qualifier_def format_conv_def fetch_num_def)

text \<open>What \<^verbatim>\<open>sprintf("%lu")\<close> and \<^verbatim>\<open>sprintf("%lx")\<close> print, \<^verbatim>\<open>simple_strtoul\<close> in base 10 or 16
  reads back as the same 32-bit value, to the end of the string.\<close>

theorem print_parse_u32:
  "(\<exists>out. vsprintf mem (cs ''%lu'') [VA_word w] = Some (out @ [0], [], length out)
       \<and> simple_strtoul out 10 = (w, []))
   \<and> (\<exists>out. vsprintf mem (cs ''%lx'') [VA_word w] = Some (out @ [0], [], length out)
       \<and> simple_strtoul out 16 = (w, []))"
  using strtoul_print [of 10 "[]" "unat w"] strtoul_print [of 16 "[]" "unat w"]
  by (simp add: vsprintf_lu vsprintf_lx number_dec number_hex)

subsection \<open>Dotted addresses\<close>

lemma strtoul_octet:
  assumes "rest = [] \<or> peek rest = ch CHR ''.''"
  shows "simple_strtoul (rev (put_dec_trunc (ucast (b :: byte))) @ rest) 10 = (ucast b, rest)"
proof -
  have u: "unat (ucast b :: u32) = unat b" using byte_less_256 [of b] by (simp add: unat_ucast_mod)
  then have "put_dec_trunc (ucast b) = map digit_char (dec_digits (unat b))"
    using put_dec_trunc_correct [of "ucast b"] byte_less_256 [of b] by simp
  moreover have "(of_nat (unat b) :: u32) = ucast b" using u word_eq_of_natI by metis
  ultimately show ?thesis using strtoul_print [OF _ assms, of 10 "unat b"] by simp
qed

lemma ucast_and_ff: "(ucast (b :: byte) :: u32) AND 0xFF = ucast b"
proof -
  have "(w AND 0xFF :: u32) = take_bit 8 w" for w
    unfolding take_bit_eq_mask by (simp add: mask_eq_exp_minus_1)
  then show ?thesis
    by (simp only:) (rule bit_word_eqI, auto simp: bit_simps dest: bit_imp_le_length)
qed

lemma string_to_ip_octet:
  assumes "rest = [] \<or> peek rest = ch CHR ''.''"
  shows "string_to_ip_loop (Suc n) a (rev (put_dec_trunc (ucast (b :: byte))) @ rest)
      = string_to_ip_loop n (push_bit 8 a OR ucast b) (tl rest)"
  unfolding string_to_ip_loop.simps strtoul_octet [OF assms] prod.case Let_def ucast_and_ff
  using assms by auto

lemma string_to_ip_last:
  "string_to_ip_loop (Suc n) a (rev (put_dec_trunc (ucast (b :: byte))))
      = string_to_ip_loop n (push_bit 8 a OR ucast b) []"
  using string_to_ip_octet [of "[]" n a b] by (simp del: string_to_ip_loop.simps)

text \<open>The address that \<^verbatim>\<open>%pI4\<close> prints is read back by \<^verbatim>\<open>string_to_ip\<close>.\<close>

theorem ip4_roundtrip:
  "string_to_ip (Some (ip4_text addr)) = be32_val (addr 0) (addr 1) (addr 2) (addr 3)"
proof -
  have t: "ip4_text addr = rev (put_dec_trunc (ucast (addr 0))) @ 0x2e #
      rev (put_dec_trunc (ucast (addr 1))) @ 0x2e # rev (put_dec_trunc (ucast (addr 2))) @ 0x2e #
      rev (put_dec_trunc (ucast (addr 3))) @ []"
    by (simp add: ip4_text_def upt_rec numeral_eq_Suc)
  have four: "(4::nat) = Suc (Suc (Suc (Suc 0)))" by simp
  have "string_to_ip_loop 4 0 (ip4_text addr) =
      push_bit 8 (push_bit 8 (push_bit 8 (push_bit 8 0 OR ucast (addr 0)) OR ucast (addr 1))
        OR ucast (addr 2)) OR (ucast (addr 3) :: u32)"
    unfolding t four by (simp add: string_to_ip_octet string_to_ip_last
        del: string_to_ip_loop.simps(2))
  also have "\<dots> = be32_val (addr 0) (addr 1) (addr 2) (addr 3)"
    by (simp add: be32_val_def push_bit_or push_bit_push_bit or.assoc)
  finally show ?thesis by (simp add: string_to_ip_def)
qed

end
