(* ===== verification/Eth.thy ===== *)
theory Eth
  imports EnvProps Roundtrip
begin

text \<open>
  Network devices: \<^verbatim>\<open>net/eth.c\<close>. The circular list of devices is a list with the index of the current one. The
  driver of a device is a parameter: \<open>drv\<close> gives the routines \<^verbatim>\<open>init\<close>, \<^verbatim>\<open>halt\<close>, \<^verbatim>\<open>send\<close> and
  \<^verbatim>\<open>write_hwaddr\<close>, which act on the state of the hardware. Environment accesses are those of theory \<open>Env\<close>;
  the result \<open>None\<close> is a fault in one of them.
\<close>

datatype eth_state = ETH_STATE_INIT | ETH_STATE_PASSIVE | ETH_STATE_ACTIVE

record eth_device =
  eth_name :: cstr
  enetaddr :: "byte list"
  eth_st :: eth_state
  has_write_hwaddr :: bool

record 'w eth_driver =
  drv_init :: "eth_device \<Rightarrow> 'w \<Rightarrow> int \<times> 'w"
  drv_halt :: "eth_device \<Rightarrow> 'w \<Rightarrow> 'w"
  drv_send :: "eth_device \<Rightarrow> byte list \<Rightarrow> 'w \<Rightarrow> int \<times> 'w"
  drv_write_hwaddr :: "eth_device \<Rightarrow> 'w \<Rightarrow> 'w"

record 'w eth =
  eth_devices :: "eth_device list"
  eth_current :: "nat option"
  first_failed :: "nat option"
  NetRestartWrap :: bool
  act_static :: "nat option"
  env_changed_id :: u32
  eth_env :: env_state
  eth_hw :: 'w

subsection \<open>Addresses\<close>

fun parse_enetaddr_loop :: "nat \<Rightarrow> cstr option \<Rightarrow> byte list" where
  "parse_enetaddr_loop 0 addr = []"
| "parse_enetaddr_loop (Suc n) None = 0 # parse_enetaddr_loop n None"
| "parse_enetaddr_loop (Suc n) (Some addr) =
     (let (v, endp) = simple_strtoul addr 16
      in ucast v # parse_enetaddr_loop n (Some (if peek endp \<noteq> 0 then tl endp else endp)))"

definition eth_parse_enetaddr :: "cstr option \<Rightarrow> byte list" where
  "eth_parse_enetaddr addr = parse_enetaddr_loop 6 addr"

definition is_zero_ether_addr :: "byte list \<Rightarrow> bool" where
  "is_zero_ether_addr a \<longleftrightarrow> a ! 0 OR a ! 1 OR a ! 2 OR a ! 3 OR a ! 4 OR a ! 5 = 0"

definition is_multicast_ether_addr :: "byte list \<Rightarrow> bool" where
  "is_multicast_ether_addr a \<longleftrightarrow> 0x01 AND a ! 0 \<noteq> 0"

definition is_valid_ether_addr :: "byte list \<Rightarrow> bool" where
  "is_valid_ether_addr a \<longleftrightarrow> \<not> is_multicast_ether_addr a \<and> \<not> is_zero_ether_addr a"

definition eth_getenv_enetaddr :: "env_state \<Rightarrow> cstr \<Rightarrow> (bool \<times> byte list) option" where
  "eth_getenv_enetaddr st name =
     map_option (\<lambda>v. let a = eth_parse_enetaddr v in (is_valid_ether_addr a, a)) (getenv_str st name)"

definition eth_setenv_enetaddr :: "cstr \<Rightarrow> byte list \<Rightarrow> env_state \<Rightarrow> (int \<times> env_state) option" where
  "eth_setenv_enetaddr name a st =
     do { (buf, _) \<leftarrow> vsprintf (\<lambda>p. a ! unat (p - 1)) (cs ''%pM'') [VA_word 1];
          setenv name (Some (butlast buf)) st }"

definition enetvar :: "string \<Rightarrow> nat \<Rightarrow> cstr option" where
  "enetvar suffix index =
     (if index \<noteq> 0
      then map_option (\<lambda>(s, _). butlast s) (vsprintf (\<lambda>_. 0) (cs (''eth%d'' @ suffix)) [VA_word (of_nat index)])
      else Some (cs (''eth'' @ suffix)))"

definition eth_getenv_enetaddr_by_index :: "env_state \<Rightarrow> nat \<Rightarrow> (bool \<times> byte list) option" where
  "eth_getenv_enetaddr_by_index st index = Option.bind (enetvar ''addr'' index) (eth_getenv_enetaddr st)"

definition eth_mac_skip :: "env_state \<Rightarrow> nat \<Rightarrow> bool option" where
  "eth_mac_skip st index = do { name \<leftarrow> enetvar ''macskip'' index; v \<leftarrow> getenv st name; Some (v \<noteq> None) }"

subsection \<open>The device list\<close>

definition next_dev :: "'w eth \<Rightarrow> nat \<Rightarrow> nat" where
  "next_dev s i = (i + 1) mod length (eth_devices s)"

definition eth_get_dev :: "'w eth \<Rightarrow> eth_device option" where
  "eth_get_dev s = map_option (\<lambda>i. eth_devices s ! i) (eth_current s)"

definition eth_get_dev_by_name :: "'w eth \<Rightarrow> cstr \<Rightarrow> eth_device option" where
  "eth_get_dev_by_name s name = List.find (\<lambda>dev. eth_name dev = name) (eth_devices s)"

definition eth_get_dev_by_index :: "'w eth \<Rightarrow> int \<Rightarrow> eth_device option" where
  "eth_get_dev_by_index s index =
     (if 0 \<le> index \<and> nat index < length (eth_devices s) then Some (eth_devices s ! nat index) else None)"

definition eth_get_name :: "'w eth \<Rightarrow> cstr" where
  "eth_get_name s = (case eth_current s of Some i \<Rightarrow> eth_name (eth_devices s ! i) | None \<Rightarrow> cs ''unknown'')"

text \<open>The update of \<^verbatim>\<open>ethact\<close> that four functions share; the result of \<^verbatim>\<open>setenv\<close> is ignored.\<close>

definition set_ethact :: "nat \<Rightarrow> 'w eth \<Rightarrow> 'w eth option" where
  "set_ethact cur s =
     map_option (\<lambda>(_, e). s\<lparr>eth_env := e\<rparr>)
       (setenv (cs ''ethact'') (Some (eth_name (eth_devices s ! cur))) (eth_env s))"

definition sync_ethact :: "nat \<Rightarrow> 'w eth \<Rightarrow> 'w eth option" where
  "sync_ethact cur s =
     do { act \<leftarrow> getenv_str (eth_env s) (cs ''ethact'');
          if act = None \<or> the act \<noteq> eth_name (eth_devices s ! cur) then set_ethact cur s else Some s }"

definition eth_register :: "eth_device \<Rightarrow> 'w eth \<Rightarrow> 'w eth option" where
  "eth_register dev s =
     (let first = (eth_devices s = []);
          s = s\<lparr>eth_devices := eth_devices s @ [dev\<lparr>eth_st := ETH_STATE_INIT\<rparr>]\<rparr>
      in if first then sync_ethact 0 (s\<lparr>eth_current := Some 0\<rparr>) else Some s)"

text \<open>One turn of the loop of \<^verbatim>\<open>eth_initialize\<close>: \<^verbatim>\<open>ethprime\<close>, the address of the environment, the address
  written to the device.\<close>

definition init_device :: "'w eth_driver \<Rightarrow> cstr option \<Rightarrow> nat \<Rightarrow> 'w eth \<Rightarrow> 'w eth option" where
  "init_device drv ethprime i s =
     (let dev = eth_devices s ! i;
          s = (if ethprime = Some (eth_name dev) then s\<lparr>eth_current := Some i\<rparr> else s)
      in do { (_, a) \<leftarrow> eth_getenv_enetaddr_by_index (eth_env s) i;
              let dev = (if a \<noteq> replicate 6 0 then dev\<lparr>enetaddr := a\<rparr> else dev);
              let s = s\<lparr>eth_devices := (eth_devices s)[i := dev]\<rparr>;
              if has_write_hwaddr dev then
                do { skip \<leftarrow> eth_mac_skip (eth_env s) i;
                     Some (if \<not> skip \<and> is_valid_ether_addr (enetaddr dev)
                           then s\<lparr>eth_hw := drv_write_hwaddr drv dev (eth_hw s)\<rparr> else s) }
              else Some s })"

primrec init_devices :: "'w eth_driver \<Rightarrow> cstr option \<Rightarrow> nat list \<Rightarrow> 'w eth \<Rightarrow> 'w eth option" where
  "init_devices drv ethprime [] s = Some s"
| "init_devices drv ethprime (i # is) s = Option.bind (init_device drv ethprime i s) (init_devices drv ethprime is)"

text \<open>\<open>probe\<close> stands for \<^verbatim>\<open>board_eth_init\<close> and \<^verbatim>\<open>cpu_eth_init\<close>, which register the devices they find.\<close>

definition eth_initialize :: "'w eth_driver \<Rightarrow> ('w eth \<Rightarrow> 'w eth option) \<Rightarrow> 'w eth \<Rightarrow> (nat \<times> 'w eth) option" where
  "eth_initialize drv probe s =
     do { s \<leftarrow> probe (s\<lparr>eth_devices := [], eth_current := None\<rparr>);
          if eth_devices s = [] then Some (0, s)
          else do { ethprime \<leftarrow> getenv_str (eth_env s) (cs ''ethprime'');
                    s \<leftarrow> init_devices drv ethprime [0..<length (eth_devices s)] s;
                    s \<leftarrow> (case eth_current s of
                            Some cur \<Rightarrow> sync_ethact cur s
                          | None \<Rightarrow> map_option (\<lambda>(_, e). s\<lparr>eth_env := e\<rparr>) (setenv (cs ''ethact'') None (eth_env s)));
                    Some (length (eth_devices s), s) } }"

subsection \<open>Use of the current device\<close>

definition eth_try_another :: "bool \<Rightarrow> 'w eth \<Rightarrow> 'w eth option" where
  "eth_try_another first_restart s =
     do { ethrotate \<leftarrow> getenv_str (eth_env s) (cs ''ethrotate'');
          if ethrotate = Some (cs ''no'') then Some s
          else case eth_current s of
                 None \<Rightarrow> Some s
               | Some cur \<Rightarrow>
                   let s = (if first_restart then s\<lparr>first_failed := Some cur\<rparr> else s);
                       nxt = next_dev s cur
                   in do { s \<leftarrow> sync_ethact nxt (s\<lparr>eth_current := Some nxt\<rparr>);
                           Some (if first_failed s = Some nxt then s\<lparr>NetRestartWrap := True\<rparr> else s) } }"

fun sync_addrs :: "env_state \<Rightarrow> nat \<Rightarrow> eth_device list \<Rightarrow> eth_device list option" where
  "sync_addrs st i [] = Some []"
| "sync_addrs st i (dev # ds) =
     do { (valid, a) \<leftarrow> eth_getenv_enetaddr_by_index st i;
          ds \<leftarrow> sync_addrs st (i + 1) ds;
          Some ((if valid then dev\<lparr>enetaddr := a\<rparr> else dev) # ds) }"

text \<open>The loop over the devices until one can be initialised. It ends when the rotation is back at the first one; the
  fuel is the number of devices, after which the result is the fault \<open>None\<close>.\<close>

fun eth_init_loop :: "'w eth_driver \<Rightarrow> nat \<Rightarrow> nat \<Rightarrow> 'w eth \<Rightarrow> (int \<times> 'w eth) option" where
  "eth_init_loop drv 0 old s = None"
| "eth_init_loop drv (Suc n) old s =
     (case eth_current s of
        None \<Rightarrow> None
      | Some cur \<Rightarrow>
          let (r, hw) = drv_init drv (eth_devices s ! cur) (eth_hw s);
              s = s\<lparr>eth_hw := hw\<rparr>
          in if r \<ge> 0
             then Some (0, s\<lparr>eth_devices := (eth_devices s)[cur := (eth_devices s ! cur)\<lparr>eth_st := ETH_STATE_ACTIVE\<rparr>]\<rparr>)
             else do { s \<leftarrow> eth_try_another False s;
                       if eth_current s \<noteq> Some old then eth_init_loop drv n old s else Some (-1, s) })"

definition eth_init :: "'w eth_driver \<Rightarrow> 'w eth \<Rightarrow> (int \<times> 'w eth) option" where
  "eth_init drv s =
     (case eth_current s of
        None \<Rightarrow> Some (-1, s)
      | Some old \<Rightarrow>
          do { ds \<leftarrow> sync_addrs (eth_env s) 0 (eth_devices s);
               eth_init_loop drv (length ds) old (s\<lparr>eth_devices := ds\<rparr>) })"

definition eth_halt :: "'w eth_driver \<Rightarrow> 'w eth \<Rightarrow> 'w eth" where
  "eth_halt drv s =
     (case eth_current s of
        None \<Rightarrow> s
      | Some cur \<Rightarrow>
          s\<lparr>eth_hw := drv_halt drv (eth_devices s ! cur) (eth_hw s),
            eth_devices := (eth_devices s)[cur := (eth_devices s ! cur)\<lparr>eth_st := ETH_STATE_PASSIVE\<rparr>]\<rparr>)"

definition eth_send :: "'w eth_driver \<Rightarrow> byte list \<Rightarrow> 'w eth \<Rightarrow> int \<times> 'w eth" where
  "eth_send drv packet s =
     (case eth_current s of
        None \<Rightarrow> (-1, s)
      | Some cur \<Rightarrow> let (r, hw) = drv_send drv (eth_devices s ! cur) packet (eth_hw s) in (r, s\<lparr>eth_hw := hw\<rparr>))"

text \<open>The search for the device named by \<^verbatim>\<open>ethact\<close>, once around the list from the current one.\<close>

fun find_act :: "nat \<Rightarrow> cstr \<Rightarrow> nat \<Rightarrow> 'w eth \<Rightarrow> nat option" where
  "find_act 0 act cur s = None"
| "find_act (Suc n) act cur s =
     (if eth_name (eth_devices s ! cur) = act then Some cur else find_act n act (next_dev s cur) s)"

definition eth_set_current :: "'w eth \<Rightarrow> 'w eth option" where
  "eth_set_current s =
     (case eth_current s of
        None \<Rightarrow> Some s
      | Some cur \<Rightarrow>
          do { s \<leftarrow> (if act_static s = None \<or> env_changed_id s \<noteq> env_id (eth_env s)
                     then do { p \<leftarrow> getenv (eth_env s) (cs ''ethact'');
                               Some (s\<lparr>act_static := p, env_changed_id := env_id (eth_env s)\<rparr>) }
                     else Some s);
               case Option.bind (act_static s)
                      (\<lambda>p. find_act (length (eth_devices s)) (str_at (env_get_addr (eth_env s)) p) cur s) of
                 Some i \<Rightarrow> Some (s\<lparr>eth_current := Some i\<rparr>)
               | None \<Rightarrow> set_ethact cur s })"

end
