(* ===== verification/EthProps.thy ===== *)
theory EthProps
  imports Eth
begin

text \<open>
  Laws of the network device layer: hardware addresses survive the environment, and \<^verbatim>\<open>eth_init\<close> tries the devices in
  turn from the current one.
\<close>

subsection \<open>Hardware addresses\<close>

lemma pack_hex_byte_digits: "pack_hex_byte b = map digit_char [unat b div 16, unat b mod 16]"
proof -
  have l: "unat (drop_bit 4 (b AND 0xf0)) = unat b div 16"
  proof -
    have "drop_bit 4 (b AND 0xf0) = drop_bit 4 b"
      by (rule bit_word_eqI) (auto simp: bit_simps bit_numeral_rec numeral_eq_Suc less_Suc_eq
          dest: bit_imp_le_length)
    then show ?thesis by (simp add: unat_div drop_bit_eq_div)
  qed
  have "b AND 0xf = take_bit 4 b" unfolding take_bit_eq_mask by (simp add: mask_eq_exp_minus_1)
  then have r: "unat (b AND 0xf) = unat b mod 16" by (simp add: take_bit_eq_mod unat_mod)
  have h: "hex_asc ! d = digit_char d" if "d < 16" for d
  proof -
    have "list_all (\<lambda>d. hex_asc ! d = digit_char d) [0..<16]" by code_simp
    with that show ?thesis by (auto simp: list_all_iff)
  qed
  have "unat b div 16 < 16" "unat b mod 16 < 16" using byte_less_256 [of b] by simp_all
  then show ?thesis unfolding pack_hex_byte_def l r by (simp add: h)
qed

lemma strtoul_hex_byte:
  assumes "rest = [] \<or> peek rest = ch CHR '':''"
  shows "simple_strtoul (pack_hex_byte b @ rest) 16 = (ucast b, rest)"
proof -
  have "stops_at (16 :: u32) rest" "peek rest \<noteq> 0x78"
    using assms by (auto simp: stops_at_def isxdigit_iff split: list.splits)
  moreover have "\<forall>d \<in> set [unat b div 16, unat b mod 16]. d < 16" using byte_less_256 [of b] by simp
  moreover have "(of_nat (unat b div 16 * 16 + unat b mod 16) :: u32) = ucast b"
    by (metis div_mult_mod_eq of_nat_unat)
  ultimately show ?thesis
    using simple_strtoul_numeral [of 16 "[unat b div 16, unat b mod 16]" rest]
    by (simp add: pack_hex_byte_digits digits_value_def)
qed

definition mac_text :: "byte list \<Rightarrow> cstr" where
  "mac_text a = concat (map (\<lambda>i. pack_hex_byte (a ! i) @ (if i \<noteq> 5 then [ch CHR '':''] else [])) [0..<6])"

lemma upt_6: "[0..<6] = [0, 1, 2, 3, 4, 5 :: nat]"
  by (simp add: upt_rec)

lemma mac_text_unfold:
  "mac_text a = pack_hex_byte (a ! 0) @ 0x3a # pack_hex_byte (a ! 1) @ 0x3a # pack_hex_byte (a ! 2) @ 0x3a #
    pack_hex_byte (a ! 3) @ 0x3a # pack_hex_byte (a ! 4) @ 0x3a # pack_hex_byte (a ! 5) @ []"
  by (simp add: mac_text_def upt_6)

lemma length_mac_text: "length (mac_text a) = 17"
  by (simp add: mac_text_unfold pack_hex_byte_digits)

lemma mac_text_nul_free: "nul_free (mac_text a)" "mac_text a \<noteq> []"
proof -
  have "nul_free (pack_hex_byte b)" for b
  proof -
    have "list_all (\<lambda>d. digit_char d \<noteq> 0) [0..<16]" by code_simp
    moreover have "unat b div 16 < 16" "unat b mod 16 < 16" using byte_less_256 [of b] by simp_all
    ultimately show ?thesis by (auto simp: pack_hex_byte_digits nul_free_def list_all_iff)
  qed
  then show "nul_free (mac_text a)" by (simp add: mac_text_unfold nul_free_def)
  show "mac_text a \<noteq> []" using length_mac_text [of a] by auto
qed

lemma parse_mac_text: "length a = 6 \<Longrightarrow> eth_parse_enetaddr (Some (mac_text a)) = a"
proof -
  assume a: "length a = 6"
  have six: "(6 :: nat) = Suc (Suc (Suc (Suc (Suc (Suc 0)))))" by simp
  have uc: "ucast (ucast b :: u32) = b" for b :: byte
    by (rule bit_word_eqI) (auto simp: bit_simps dest: bit_imp_le_length)
  have step: "parse_enetaddr_loop (Suc n) (Some (pack_hex_byte b @ 0x3a # rest)) =
      b # parse_enetaddr_loop n (Some rest)" for n b rest
    using strtoul_hex_byte [of "0x3a # rest" b] by (simp add: uc)
  have last: "parse_enetaddr_loop (Suc 0) (Some (pack_hex_byte b @ [])) = [b]" for b
    using strtoul_hex_byte [of "[]" b] by (simp add: uc)
  have "eth_parse_enetaddr (Some (mac_text a)) = [a ! 0, a ! 1, a ! 2, a ! 3, a ! 4, a ! 5]"
    unfolding eth_parse_enetaddr_def mac_text_unfold six step last by simp
  also have "\<dots> = a" using a by (intro nth_equalityI) (auto simp: less_Suc_eq numeral_eq_Suc)
  finally show ?thesis .
qed

lemma vsprintf_pM:
  "vsprintf (\<lambda>p. a ! unat (p - 1)) (cs ''%pM'') [VA_word 1] = Some (mac_text a @ [0], [], length (mac_text a))"
proof -
  have p: "concat (map (\<lambda>i. pack_hex_byte (a ! unat (of_nat i :: u32)) @
      (if i \<noteq> 5 then [ch CHR '':''] else [])) [0..<6]) = mac_text a" by (simp add: mac_text_unfold upt_6)
  have "isalnum 77" by code_simp
  then show ?thesis
    using length_mac_text [of a]
    by (simp add: p vsprintf_def cs_def vsprintf_spec_def parse_width_def parse_precision_def parse_qualifier_def
        format_conv_def pointer_def mac_address_string_def string_fmt_def width_loop_def Let_def)
qed


lemma setenv_plain:
  assumes ok: "env_ok st kvs" and "plain_var name val"
  shows "\<exists>r st'. setenv name (Some val) st = Some (r, st') \<and>
    (if env_fits (put_var name val kvs)
     then r = 0 \<and> env_ok st' (put_var name val kvs) \<and> crc_ok st'
     else r = 1 \<and> env_ok st' (del_var name kvs))"
proof -
  let ?argv = "[cs ''setenv'', name, val]"
  obtain r st1 where "do_setenv' ?argv st = Some (r, st1)" "setenv_result ?argv kvs st r st1"
    using do_setenv_result [OF ok, of ?argv] assms(2) by (auto simp: plain_var_def)
  then show ?thesis using assms(2)
    by (auto simp: setenv_def setenv_result_def args_value_def plain_var_def split: if_splits)
qed

text \<open>An address that \<^verbatim>\<open>eth_setenv_enetaddr\<close> stores in a variable with room for it is returned by
  \<^verbatim>\<open>eth_getenv_enetaddr\<close>, with the verdict of \<^verbatim>\<open>is_valid_ether_addr\<close>; the other variables keep their values.\<close>

theorem enetaddr_roundtrip:
  assumes "env_ok st kvs" and "length a = 6" and "is_name name" and "name \<noteq> cs ''baudrate''"
    and "console_of name = None" and "env_fits (put_var name (mac_text a) kvs)"
  shows "\<exists>st'. eth_setenv_enetaddr name a st = Some (0, st') \<and>
    eth_getenv_enetaddr st' name = Some (is_valid_ether_addr a, a) \<and>
    env_ok st' (put_var name (mac_text a) kvs) \<and> crc_ok st'"
proof -
  have "plain_var name (mac_text a)" using assms(3-5) mac_text_nul_free by (simp add: plain_var_def)
  with setenv_plain [OF assms(1)] assms(6) obtain st' where
    s: "setenv name (Some (mac_text a)) st = Some (0, st')" "env_ok st' (put_var name (mac_text a) kvs)" "crc_ok st'"
    by (metis (full_types))
  moreover have "getenv_str st' name = Some (Some (mac_text a))"
    using getenv_map [OF s(2) assms(3)] by (simp add: map_of_put_var)
  ultimately show ?thesis using assms(2)
    by (simp add: eth_setenv_enetaddr_def eth_getenv_enetaddr_def vsprintf_pM parse_mac_text Let_def)
qed

theorem enetaddr_roundtrip_witness:
  "\<exists>st'. eth_setenv_enetaddr (cs ''ethaddr'') [0, 0, 0x5b, 0xee, 0xde, 0xad] (sample_state sample_vars) = Some (0, st') \<and>
    eth_getenv_enetaddr st' (cs ''ethaddr'') = Some (True, [0, 0, 0x5b, 0xee, 0xde, 0xad])"
proof -
  have "is_valid_ether_addr [0, 0, 0x5b, 0xee, 0xde, 0xad]" by code_simp
  then show ?thesis
    using enetaddr_roundtrip [OF sample_state_ok(1) [OF sample_vars_ok], of "[0, 0, 0x5b, 0xee, 0xde, 0xad]" "cs ''ethaddr''"]
    by (auto simp: is_name_def cs_def console_of_def env_fits_def put_var_def del_var_def entry_def length_mac_text)
qed

subsection \<open>Device rotation\<close>

text \<open>The environment is well formed, the current device exists and every device has a name.\<close>

definition eth_ok :: "'w eth \<Rightarrow> bool" where
  "eth_ok s \<longleftrightarrow> env_inv (eth_env s) \<and> (\<forall>cur. eth_current s = Some cur \<longrightarrow> cur < length (eth_devices s)) \<and>
     (\<forall>dev \<in> set (eth_devices s). eth_name dev \<noteq> [] \<and> nul_free (eth_name dev)) \<and> length (eth_devices s) < 2 ^ 31"

definition rotating :: "env_state \<Rightarrow> bool" where
  "rotating e \<longleftrightarrow> env_lookup e (cs ''ethrotate'') \<noteq> Some (cs ''no'')"

lemma getenv_inv: "env_inv e \<Longrightarrow> is_name name \<Longrightarrow> getenv_str e name = Some (env_lookup e name)"
  unfolding env_inv_def using getenv_map env_lookup_ok by metis

lemma sync_ethact_ok:
  assumes "eth_ok s" "cur < length (eth_devices s)"
  shows "\<exists>e. sync_ethact cur s = Some (s\<lparr>eth_env := e\<rparr>) \<and> env_inv e \<and> rotating e = rotating (eth_env s)"
proof -
  let ?n = "eth_name (eth_devices s ! cur)"
  from assms obtain kvs where ok: "env_ok (eth_env s) kvs" by (auto simp: eth_ok_def env_inv_def)
  have name: "is_name (cs ''ethact'')" by (simp add: is_name_def cs_def)
  have pv: "plain_var (cs ''ethact'') ?n"
    using assms nth_mem [OF assms(2)] by (auto simp: eth_ok_def plain_var_def is_name_def console_of_def cs_def)
  obtain r e where e: "setenv (cs ''ethact'') (Some ?n) (eth_env s) = Some (r, e)"
    "env_ok e (put_var (cs ''ethact'') ?n kvs) \<or> env_ok e (del_var (cs ''ethact'') kvs)"
    using setenv_plain [OF ok pv] by metis
  have neq: "cs ''ethact'' \<noteq> cs ''ethrotate''" by (simp add: cs_def)
  have "rotating e = rotating (eth_env s)"
    using e(2) neq by (auto simp: rotating_def env_lookup_ok [OF ok] map_of_put_var map_of_del_var dest: env_lookup_ok)
  moreover have "env_inv e" using e(2) by (auto simp: env_inv_def)
  moreover have "sync_ethact cur s = Some s \<or> sync_ethact cur s = Some (s\<lparr>eth_env := e\<rparr>)"
    using getenv_map [OF ok name] e(1) by (auto simp: sync_ethact_def set_ethact_def)
  ultimately show ?thesis using assms(1) by (cases s) (auto simp: eth_ok_def)
qed

lemma eth_try_another_step:
  assumes ok: "eth_ok s" and cur: "eth_current s = Some cur" and rot: "rotating (eth_env s)"
  shows "\<exists>e w. eth_try_another False s = Some (s\<lparr>eth_current := Some ((cur + 1) mod length (eth_devices s)),
      NetRestartWrap := w, eth_env := e\<rparr>) \<and> env_inv e \<and> rotating e"
proof -
  let ?s = "s\<lparr>eth_current := Some (next_dev s cur)\<rparr>"
  have n: "next_dev s cur < length (eth_devices s)" using ok cur
    by (auto simp: next_dev_def eth_ok_def intro!: mod_less_divisor)
  have "eth_ok ?s" using ok n by (auto simp: eth_ok_def)
  from sync_ethact_ok [OF this, of "next_dev s cur"] n rot obtain e where
    e: "sync_ethact (next_dev s cur) ?s = Some (?s\<lparr>eth_env := e\<rparr>)" "env_inv e" "rotating e" by auto
  have g: "getenv_str (eth_env s) (cs ''ethrotate'') = Some (env_lookup (eth_env s) (cs ''ethrotate''))"
    using ok by (intro getenv_inv) (auto simp: eth_ok_def is_name_def cs_def)
  define w where "w = (first_failed s = Some (next_dev s cur) \<or> NetRestartWrap s)"
  have "eth_try_another False s = Some (?s\<lparr>NetRestartWrap := w, eth_env := e\<rparr>)"
    using rot e(1) cur unfolding eth_try_another_def g by (cases s) (auto simp: rotating_def w_def Let_def)
  with e(2,3) show ?thesis by (auto simp: next_dev_def)
qed

text \<open>The reference: the first device of a list of candidates whose driver comes up, and the hardware afterwards.\<close>

fun first_up :: "'w eth_driver \<Rightarrow> eth_device list \<Rightarrow> nat list \<Rightarrow> 'w \<Rightarrow> nat option \<times> 'w" where
  "first_up drv ds [] hw = (None, hw)"
| "first_up drv ds (i # is) hw =
     (let (r, hw) = drv_init drv (ds ! i) hw in if r \<ge> 0 then (Some i, hw) else first_up drv ds is hw)"

definition init_outcome ::
  "'w eth_driver \<Rightarrow> nat \<Rightarrow> nat list \<Rightarrow> eth_device list \<Rightarrow> 'w \<Rightarrow> (int \<times> 'w eth) option \<Rightarrow> bool" where
  "init_outcome drv old cands ds hw res \<longleftrightarrow>
     (\<exists>r s'. res = Some (r, s') \<and> env_inv (eth_env s') \<and>
       (case first_up drv ds cands hw of
          (Some i, hw) \<Rightarrow> r = 0 \<and> eth_current s' = Some i \<and> eth_hw s' = hw \<and>
            eth_devices s' = ds[i := (ds ! i)\<lparr>eth_st := ETH_STATE_ACTIVE\<rparr>]
        | (None, hw) \<Rightarrow> r = -1 \<and> eth_current s' = Some old \<and> eth_hw s' = hw \<and> eth_devices s' = ds))"

lemma eth_init_loop_rotates:
  assumes "eth_ok s" "rotating (eth_env s)" "eth_current s = Some ((old + k) mod length (eth_devices s))"
    and "k < length (eth_devices s)" "old < length (eth_devices s)"
  shows "init_outcome drv old (map (\<lambda>j. (old + j) mod length (eth_devices s)) [k..<length (eth_devices s)]) (eth_devices s) (eth_hw s)
    (eth_init_loop drv (length (eth_devices s) - k) old s)"
  using assms
proof (induction "length (eth_devices s) - k" arbitrary: s k)
  case 0
  then show ?case by simp
next
  case (Suc f)
  let ?n = "length (eth_devices s)" and ?cur = "(old + k) mod length (eth_devices s)"
  obtain r hw where i: "drv_init drv (eth_devices s ! ?cur) (eth_hw s) = (r, hw)" by fastforce
  have up: "map (\<lambda>j. (old + j) mod ?n) [k..<?n] = ?cur # map (\<lambda>j. (old + j) mod ?n) [Suc k..<?n]"
    using Suc.prems(4) by (simp add: upt_conv_Cons)
  let ?s = "s\<lparr>eth_hw := hw\<rparr>"
  have ok: "eth_ok ?s" "env_inv (eth_env s)" using Suc.prems(1) by (simp_all add: eth_ok_def)
  show ?case
  proof (cases "r \<ge> 0")
    case True
    then show ?thesis using Suc.prems(3) i ok(2) Suc.hyps(2) [symmetric] unfolding up init_outcome_def
      by simp
  next
    case False
    obtain e w where t: "eth_try_another False ?s = Some (?s\<lparr>eth_current := Some ((?cur + 1) mod ?n),
        NetRestartWrap := w, eth_env := e\<rparr>)" "env_inv e" "rotating e"
      using eth_try_another_step [OF ok(1), of ?cur] Suc.prems(2,3) by auto
    let ?t = "?s\<lparr>eth_current := Some ((?cur + 1) mod ?n), NetRestartWrap := w, eth_env := e\<rparr>"
    have nx: "(?cur + 1) mod ?n = (old + Suc k) mod ?n" by (simp add: mod_simps)
    show ?thesis
    proof (cases "Suc k < ?n")
      case True
      have ne: "(old + Suc k) mod ?n \<noteq> old"
        using True Suc.prems(5) by (cases "old + Suc k < ?n") (simp_all add: le_mod_geq)
      have "f = length (eth_devices ?t) - Suc k" using Suc.hyps(2) by simp
      moreover have "eth_ok ?t" using ok(1) t(2) True by (auto simp: eth_ok_def intro!: mod_less_divisor)
      ultimately have "init_outcome drv old (map (\<lambda>j. (old + j) mod ?n) [Suc k..<?n]) (eth_devices s) hw (eth_init_loop drv f old ?t)"
        using Suc.hyps(1) [of ?t "Suc k"] t(3) True Suc.prems(5) nx by simp
      then show ?thesis using Suc.prems(3) i False t(1) ne nx Suc.hyps(2) [symmetric]
        unfolding up init_outcome_def by simp
    next
      case False
      then have "Suc k = ?n" using Suc.prems(4) by simp
      then have old: "(?cur + 1) mod ?n = old" using nx Suc.prems(5) by simp
      have nil: "[Suc k..<?n] = []" using \<open>Suc k = ?n\<close> by simp
      show ?thesis using Suc.prems(3) i \<open>\<not> r \<ge> 0\<close> t(1,2) old Suc.hyps(2) [symmetric]
        unfolding up nil init_outcome_def by simp
    qed
  qed
qed

text \<open>The addresses of the environment: every device with a valid one takes it.\<close>

lemma number_signed:
  "number num 10 (-1) (-1) SIGN = (if sint num < 0 then [0x2d] else []) @
     rev (map digit_char (dec_digits (unat (if sint num < 0 then - num else num))))"
  by (simp add: number_def number_sign_def pad_loop_def number_tmp_dec Let_def flip: number_tmp_def [where locase = 0])

lemma enetvar_name: "\<exists>name. enetvar ''addr'' i = Some name \<and> is_name name"
proof -
  have "list_all (\<lambda>d. digit_char d \<noteq> 0 \<and> digit_char d \<noteq> 0x3d) [0..<10]" by code_simp
  then have "is_name (rev (map digit_char (dec_digits n)))" for n
    using base_digits_less [of 10 n] by (auto simp: is_name_def nul_free_def list_all_iff)
  then have n: "is_name (number num 10 (-1) (-1) SIGN)" for num
    by (auto simp: number_signed is_name_def nul_free_def)
  then show ?thesis
    by (auto simp: enetvar_def vsprintf_def cs_def vsprintf_spec_def parse_width_def parse_precision_def
      parse_qualifier_def format_conv_def fetch_num_def is_name_def nul_free_def butlast_append)
qed

lemma sync_addrs_ok:
  assumes "env_inv e"
  shows "\<exists>ds'. sync_addrs e i ds = Some ds' \<and> map eth_name ds' = map eth_name ds"
proof (induction ds arbitrary: i)
  case (Cons dev ds)
  from enetvar_name [of i] obtain name where "enetvar ''addr'' i = Some name" "is_name name" by blast
  with assms have "eth_getenv_enetaddr_by_index e i = Some (is_valid_ether_addr (eth_parse_enetaddr (env_lookup e name)),
      eth_parse_enetaddr (env_lookup e name))"
    by (simp add: eth_getenv_enetaddr_by_index_def eth_getenv_enetaddr_def getenv_inv Let_def)
  with Cons.IH [of "i + 1"] show ?case by auto
qed simp

text \<open>C31: with device rotation enabled \<^verbatim>\<open>eth_init\<close> always returns. It calls the drivers in the order of the list,
  starting at the current device and once around, until one comes up: that device becomes current and active and the
  result is 0. When none comes up the result is -1 and the current device is the one it was.\<close>

theorem eth_init_rotates:
  assumes "eth_ok s" and "eth_current s = Some old" and "rotating (eth_env s)"
  shows "\<exists>ds. sync_addrs (eth_env s) 0 (eth_devices s) = Some ds \<and>
    init_outcome drv old (map (\<lambda>j. (old + j) mod length ds) [0..<length ds]) ds (eth_hw s) (eth_init drv s)"
proof -
  have inv: "env_inv (eth_env s)" using assms(1) by (simp add: eth_ok_def)
  obtain ds where ds: "sync_addrs (eth_env s) 0 (eth_devices s) = Some ds" "map eth_name ds = map eth_name (eth_devices s)"
    using sync_addrs_ok [OF inv] by blast
  have len: "length ds = length (eth_devices s)" using ds(2) by (metis length_map)
  have "eth_name ` set ds = eth_name ` set (eth_devices s)" using ds(2) by (metis list.set_map)
  then have "\<forall>dev \<in> set ds. eth_name dev \<noteq> [] \<and> nul_free (eth_name dev)"
    using assms(1) unfolding eth_ok_def by (metis (no_types, lifting) image_iff)
  then have ok: "eth_ok (s\<lparr>eth_devices := ds\<rparr>)" using assms(1) len by (simp add: eth_ok_def)
  have "old < length ds" using assms(1,2) len by (simp add: eth_ok_def)
  then have "init_outcome drv old (map (\<lambda>j. (old + j) mod length ds) [0..<length ds]) ds (eth_hw s)
      (eth_init_loop drv (length ds) old (s\<lparr>eth_devices := ds\<rparr>))"
    using eth_init_loop_rotates [OF ok, of old 0 drv] assms(2,3) by (cases ds) simp_all
  then show ?thesis using ds(1) assms(2) by (simp add: eth_init_def)
qed

definition sample_eth :: "nat eth" where
  "sample_eth = \<lparr>eth_devices = map (\<lambda>n. \<lparr>eth_name = cs n, enetaddr = [], eth_st = ETH_STATE_INIT, has_write_hwaddr = False\<rparr>)
     [''dc0'', ''dc1'', ''dc2''], eth_current = Some 1, first_failed = None, NetRestartWrap = False, act_static = None,
     env_changed_id = 0, eth_env = sample_state sample_vars, eth_hw = 0\<rparr>"

text \<open>A driver that only brings up the device called \<^verbatim>\<open>dc0\<close>, and counts the attempts.\<close>

definition sample_driver :: "nat eth_driver" where
  "sample_driver = \<lparr>drv_init = \<lambda>dev w. (if eth_name dev = cs ''dc0'' then 0 else -1, w + 1), drv_halt = \<lambda>dev w. w,
     drv_send = \<lambda>dev p w. (0, w), drv_write_hwaddr = \<lambda>dev w. w\<rparr>"

theorem eth_init_rotates_witness:
  "\<exists>s'. eth_init sample_driver sample_eth = Some (0, s') \<and> eth_current s' = Some 0 \<and> eth_hw s' = 3"
proof -
  note ok = sample_state_ok(1) [OF sample_vars_ok]
  have e: "eth_ok sample_eth" "rotating (eth_env sample_eth)"
    using ok env_lookup_ok [OF ok]
    by (auto simp: eth_ok_def sample_eth_def env_inv_def nul_free_def cs_def rotating_def)
  have c: "eth_current sample_eth = Some 1" by (simp add: sample_eth_def)
  obtain ds where ds: "sync_addrs (eth_env sample_eth) 0 (eth_devices sample_eth) = Some ds"
    "init_outcome sample_driver 1 (map (\<lambda>j. (1 + j) mod length ds) [0..<length ds]) ds (eth_hw sample_eth)
       (eth_init sample_driver sample_eth)"
    using eth_init_rotates [OF e(1) c e(2)] by blast
  from sync_addrs_ok [of "eth_env sample_eth" 0 "eth_devices sample_eth"] ds(1) e(1)
  have m: "map eth_name ds = [cs ''dc0'', cs ''dc1'', cs ''dc2'']" by (simp add: eth_ok_def sample_eth_def)
  then have l: "length ds = 3" by (metis length_map length_Cons list.size(3) numeral_3_eq_3)
  have nm: "eth_name (ds ! 0) = cs ''dc0''" "eth_name (ds ! 1) = cs ''dc1''" "eth_name (ds ! 2) = cs ''dc2''"
    using arg_cong [OF m, of "\<lambda>l. l ! 0"] arg_cong [OF m, of "\<lambda>l. l ! 1"] arg_cong [OF m, of "\<lambda>l. l ! 2"] l by simp_all
  have cands: "map (\<lambda>j. (1 + j) mod length ds) [0..<length ds] = [1, 2, 0]" unfolding l by code_simp
  have "first_up sample_driver ds (map (\<lambda>j. (1 + j) mod length ds) [0..<length ds]) (eth_hw sample_eth) = (Some 0, 3)"
    unfolding cands using nm by (simp add: sample_driver_def sample_eth_def cs_def)
  with ds(2) show ?thesis unfolding init_outcome_def by auto
qed

end
