(* ===== verification/Memory.thy ===== *)
theory Memory
  imports Prelude
begin

text \<open>
  Byte-addressed memory as the routines that take an address see it: a function from 32-bit addresses to bytes,
  with \<^verbatim>\<open>memcpy\<close> as the store of a block and the laws of reading a block back. Address arithmetic wraps at
  \<open>2 ^ 32\<close>, as on the processor.
\<close>

type_synonym mem = "u32 \<Rightarrow> byte"

primrec mem_write :: "u32 \<Rightarrow> byte list \<Rightarrow> mem \<Rightarrow> mem" where
  "mem_write a [] m = m"
| "mem_write a (b # bs) m = mem_write (a + 1) bs (m(a := b))"

definition mem_read :: "u32 \<Rightarrow> nat \<Rightarrow> mem \<Rightarrow> byte list" where
  "mem_read a n m = map (\<lambda>i. m (a + of_nat i)) [0..<n]"

lemma length_mem_read [simp]: "length (mem_read a n m) = n"
  by (simp add: mem_read_def)

lemma mem_read_0 [simp]: "mem_read a 0 m = []"
  by (simp add: mem_read_def)

lemma nth_mem_read: "i < n \<Longrightarrow> mem_read a n m ! i = m (a + of_nat i)"
  by (simp add: mem_read_def)

lemma mem_read_Suc: "mem_read a (Suc n) m = mem_read a n m @ [m (a + of_nat n)]"
  by (simp add: mem_read_def)

lemma of_nat_u32_inj: "i < 4294967296 \<Longrightarrow> j < 4294967296 \<Longrightarrow> (of_nat i :: u32) = of_nat j \<longleftrightarrow> i = j"
  by (metis unat_of_nat_u32)

lemma mem_read_append: "mem_read a (k + n) m = mem_read a k m @ mem_read (a + of_nat k) n m"
  by (rule nth_equalityI) (auto simp: nth_mem_read nth_append add.assoc simp flip: of_nat_add)

lemma mem_write_append: "mem_write a (xs @ ys) m = mem_write (a + of_nat (length xs)) ys (mem_write a xs m)"
  by (induction xs arbitrary: a m) (simp_all add: add.assoc)

lemma mem_write_other:
  "\<forall>i < length bs. b \<noteq> a + of_nat i \<Longrightarrow> mem_write a bs m b = m b"
proof (induction bs arbitrary: a m)
  case (Cons x bs)
  have "b \<noteq> a" using Cons.prems by force
  moreover have "\<forall>i < length bs. b \<noteq> a + 1 + of_nat i"
    using Cons.prems by (metis Suc_less_eq add.assoc length_Cons of_nat_Suc)
  ultimately show ?case by (subst mem_write.simps) (simp add: Cons.IH)
qed simp

lemma mem_write_at:
  "i < length bs \<Longrightarrow> length bs \<le> 4294967296 \<Longrightarrow> mem_write a bs m (a + of_nat i) = bs ! i"
proof (induction bs arbitrary: a m i)
  case (Cons x bs)
  show ?case
  proof (cases i)
    case 0
    have "\<forall>j < length bs. a \<noteq> a + 1 + of_nat j"
      using of_nat_u32_inj [of 0 "Suc _"] Cons.prems(2) by (force simp: add.assoc)
    then show ?thesis using mem_write_other [of bs a "a + 1"] by (simp add: 0)
  next
    case (Suc j)
    have "a + of_nat i = a + 1 + of_nat j" by (simp add: Suc add.assoc)
    then show ?thesis using Cons.prems Suc by (simp only: mem_write.simps) (simp add: Cons.IH)
  qed
qed simp

lemma mem_read_write: "length bs \<le> 4294967296 \<Longrightarrow> mem_read a (length bs) (mem_write a bs m) = bs"
  by (rule nth_equalityI) (simp_all add: nth_mem_read mem_write_at)

text \<open>A block written below another one leaves it unchanged.\<close>

lemma mem_read_write_disjoint:
  assumes "length bs + k + n \<le> 4294967296"
  shows "mem_read (a + of_nat (length bs + k)) n (mem_write a bs m) = mem_read (a + of_nat (length bs + k)) n m"
proof (rule nth_equalityI)
  fix i assume "i < length (mem_read (a + of_nat (length bs + k)) n (mem_write a bs m))"
  then have i: "i < n" by simp
  have "a + of_nat (length bs + k) + of_nat i \<noteq> a + of_nat j" if "j < length bs" for j
    using of_nat_u32_inj [of "length bs + k + i" j] that i assms by (simp add: add.assoc)
  then show "mem_read (a + of_nat (length bs + k)) n (mem_write a bs m) ! i =
      mem_read (a + of_nat (length bs + k)) n m ! i"
    using i mem_write_other [of bs _ a m] by (simp add: nth_mem_read)
qed simp

text \<open>Consecutive blocks with their addresses.\<close>

fun spread :: "u32 \<Rightarrow> byte list list \<Rightarrow> (u32 \<times> byte list) list" where
  "spread a [] = []"
| "spread a (xs # xss) = (a, xs) # spread (a + of_nat (length xs)) xss"

end
