(* ===== verification/Net.thy ===== *)
theory Net
  imports EthProps Memory
begin

text \<open>
  The network core: \<^verbatim>\<open>net/net.c\<close>, in the board's configuration (several devices, no ping, CDP, DNS, SNTP,
  defragmentation or UDP checksums). A received frame is the list of its bytes; a field is read from it at its offset
  in the header structures of \<^verbatim>\<open>include/net.h\<close>. The processor is big endian, so \<^verbatim>\<open>htons\<close> and its relatives
  change nothing. The result \<open>None\<close> is a read or a write outside of a buffer. The handlers that \<^verbatim>\<open>NetReceive\<close> and
  the timer call are values of two datatypes, and the function that runs them is a parameter.
\<close>

datatype netstate = NETLOOP_CONTINUE | NETLOOP_RESTART | NETLOOP_SUCCESS | NETLOOP_FAIL
datatype rxhand = startAgainHandler | TftpHandler_f | BootpHandler_f | RarpHandler_f | NfsHandler_f
datatype thand = startAgainTimeout | TftpTimeout_f | BootpTimeout_f | RarpTimeout_f | NfsTimeout_f
datatype ether_ptr = NetServerEther_p | NetBcastAddr_p

record 'w net =
  net_eth :: "'w eth"
  NetOurIP :: u32
  NetServerIP :: u32
  NetOurSubnetMask :: u32
  NetOurGatewayIP :: u32
  NetOurEther :: "byte list"
  NetServerEther :: "byte list"
  NetIPID :: u32
  NetOurVLAN :: u16
  NetOurNativeVLAN :: u16
  NetState :: netstate
  NetTryCount :: u32
  NetRestarted :: bool
  NetDevExists :: bool
  NetBootFileXferSize :: u32
  NetRxPacket :: "byte list"
  packetHandler :: rxhand
  timeHandler :: "thand option"
  timeStart :: u32
  timeDelta :: u32
  NetArpWaitPacketIP :: u32
  NetArpWaitReplyIP :: u32
  NetArpWaitPacketMAC :: "ether_ptr option"
  NetArpWaitTxPacket :: "byte list"
  NetArpWaitTimerStart :: u32
  NetArpWaitTry :: int
  net_env_changed_id :: u32
  now :: u32

abbreviation net_env :: "('w, 'z) net_scheme \<Rightarrow> env_state" where
  "net_env s \<equiv> eth_env (net_eth s)"

abbreviation NetBcastAddr :: "byte list" where
  "NetBcastAddr \<equiv> replicate 6 0xFF"

definition VLAN_NONE :: u16 where "VLAN_NONE = 4095"
definition VLAN_IDMASK :: u16 where "VLAN_IDMASK = 0x0fff"

abbreviation "ETHER_HDR_SIZE \<equiv> 14 :: nat"
abbreviation "E802_HDR_SIZE \<equiv> 22 :: nat"
abbreviation "VLAN_ETHER_HDR_SIZE \<equiv> 18 :: nat"
abbreviation "ARP_HDR_SIZE \<equiv> 28 :: nat"
abbreviation "IP_HDR_SIZE \<equiv> 28 :: nat"
abbreviation "PROT_IP \<equiv> 0x0800 :: u16"
abbreviation "PROT_ARP \<equiv> 0x0806 :: u16"
abbreviation "PROT_RARP \<equiv> 0x8035 :: u16"
abbreviation "PROT_VLAN \<equiv> 0x8100 :: u16"

definition get16 :: "byte list \<Rightarrow> nat \<Rightarrow> u16" where
  "get16 p i = be16_val (p ! i) (p ! (i + 1))"

definition NetReadIP :: "byte list \<Rightarrow> nat \<Rightarrow> u32" where
  "NetReadIP p i = be32_val (p ! i) (p ! (i + 1)) (p ! (i + 2)) (p ! (i + 3))"

text \<open>A store of a block into a buffer, inside its bounds.\<close>

definition put :: "nat \<Rightarrow> byte list \<Rightarrow> byte list \<Rightarrow> byte list option" where
  "put i bs p = (if i + length bs \<le> length p then Some (take i p @ bs @ drop (i + length bs) p) else None)"

subsection \<open>Headers\<close>

text \<open>The sum of \<open>len\<close> halfwords, folded twice.\<close>

primrec cksum_loop :: "byte list \<Rightarrow> nat \<Rightarrow> u32 \<Rightarrow> u32" where
  "cksum_loop p 0 xsum = xsum"
| "cksum_loop p (Suc len) xsum = cksum_loop (drop 2 p) len (xsum + ucast (get16 p 0))"

definition NetCksum :: "byte list \<Rightarrow> nat \<Rightarrow> u32" where
  "NetCksum p len =
     (let xsum = cksum_loop p len 0;
          xsum = (xsum AND 0xffff) + drop_bit 16 xsum;
          xsum = (xsum AND 0xffff) + drop_bit 16 xsum
      in xsum AND 0xffff)"

definition NetCksumOk :: "byte list \<Rightarrow> nat \<Rightarrow> bool" where
  "NetCksumOk p len \<longleftrightarrow> (NetCksum p len + 1) AND 0xfffe = 0"

definition myvlan :: "u16 \<Rightarrow> u16" where
  "myvlan v = (if v = -1 then VLAN_NONE else v)"

definition NetEthHdrSize :: "('w, 'z) net_scheme \<Rightarrow> nat" where
  "NetEthHdrSize s =
     (if myvlan (NetOurVLAN s) AND VLAN_IDMASK = VLAN_NONE then ETHER_HDR_SIZE else VLAN_ETHER_HDR_SIZE)"

text \<open>The bytes that \<^verbatim>\<open>NetSetEther\<close> writes; their number is the value it returns.\<close>

definition NetSetEther :: "byte list \<Rightarrow> u16 \<Rightarrow> ('w, 'z) net_scheme \<Rightarrow> byte list" where
  "NetSetEther addr prot s =
     (let v = myvlan (NetOurVLAN s)
      in if v AND VLAN_IDMASK = VLAN_NONE then addr @ NetOurEther s @ be16_bytes prot
         else addr @ NetOurEther s @ be16_bytes PROT_VLAN @ be16_bytes (v AND VLAN_IDMASK) @ be16_bytes prot)"

definition ip_header :: "u32 \<Rightarrow> u32 \<Rightarrow> u16 \<Rightarrow> u16 \<Rightarrow> nat \<Rightarrow> u16 \<Rightarrow> u16 \<Rightarrow> byte list" where
  "ip_header src dest dport sport len ident xsum =
     [0x45, 0] @ be16_bytes (of_nat (IP_HDR_SIZE + len)) @ be16_bytes ident @ be16_bytes 0x4000 @ [255, 17] @
     be16_bytes xsum @ be32_bytes src @ be32_bytes dest @ be16_bytes sport @ be16_bytes dport @
     be16_bytes (of_nat (8 + len)) @ be16_bytes 0"

definition NetSetIP :: "u32 \<Rightarrow> u16 \<Rightarrow> u16 \<Rightarrow> nat \<Rightarrow> ('w, 'z) net_scheme \<Rightarrow> byte list \<times> ('w, 'z) net_scheme" where
  "NetSetIP dest dport sport len s =
     (let hdr = ip_header (NetOurIP s) dest dport sport len (ucast (NetIPID s)) 0
      in (ip_header (NetOurIP s) dest dport sport len (ucast (NetIPID s)) (ucast (NOT (NetCksum hdr 10))),
          s\<lparr>NetIPID := NetIPID s + 1\<rparr>))"

subsection \<open>Sending\<close>

definition net_send :: "'w eth_driver \<Rightarrow> byte list \<Rightarrow> ('w, 'z) net_scheme \<Rightarrow> ('w, 'z) net_scheme" where
  "net_send drv p s = s\<lparr>net_eth := snd (eth_send drv p (net_eth s))\<rparr>"

definition arp_body :: "u16 \<Rightarrow> byte list \<Rightarrow> u32 \<Rightarrow> byte list \<Rightarrow> u32 \<Rightarrow> byte list" where
  "arp_body opcode sha spa tha tpa =
     be16_bytes 1 @ be16_bytes PROT_IP @ [6, 4] @ be16_bytes opcode @ sha @ be32_bytes spa @ tha @ be32_bytes tpa"

definition ArpRequest :: "'w eth_driver \<Rightarrow> ('w, 'z) net_scheme \<Rightarrow> ('w, 'z) net_scheme" where
  "ArpRequest drv s =
     (let reply = (if NetArpWaitPacketIP s AND NetOurSubnetMask s \<noteq> NetOurIP s AND NetOurSubnetMask s
                   then if NetOurGatewayIP s = 0 then NetArpWaitPacketIP s else NetOurGatewayIP s
                   else NetArpWaitPacketIP s);
          s = s\<lparr>NetArpWaitReplyIP := reply\<rparr>
      in net_send drv (NetSetEther NetBcastAddr PROT_ARP s @ arp_body 1 (NetOurEther s) (NetOurIP s) (replicate 6 0) reply) s)"

definition ether_of :: "ether_ptr \<Rightarrow> ('w, 'z) net_scheme \<Rightarrow> byte list" where
  "ether_of p s = (case p of NetServerEther_p \<Rightarrow> NetServerEther s | NetBcastAddr_p \<Rightarrow> NetBcastAddr)"

text \<open>\<open>payload\<close> is what the caller has put into the transmit buffer behind the headers.\<close>

definition NetSendUDPPacket ::
  "'w eth_driver \<Rightarrow> ether_ptr \<Rightarrow> u32 \<Rightarrow> u16 \<Rightarrow> u16 \<Rightarrow> byte list \<Rightarrow> ('w, 'z) net_scheme \<Rightarrow> int \<times> ('w, 'z) net_scheme" where
  "NetSendUDPPacket drv ether dest dport sport payload s =
     (let dest = (if dest = 0 then 0xFFFFFFFF else dest);
          ether = (if dest = 0xFFFFFFFF then NetBcastAddr_p else ether)
      in if ether_of ether s = replicate 6 0 then
           let s = s\<lparr>NetArpWaitPacketIP := dest, NetArpWaitPacketMAC := Some ether\<rparr>;
               eth = NetSetEther (ether_of ether s) PROT_IP s;
               (hdr, s) = NetSetIP dest dport sport (length payload) s;
               s = s\<lparr>NetArpWaitTxPacket := eth @ hdr @ payload, NetArpWaitTry := 1, NetArpWaitTimerStart := now s\<rparr>
           in (1, ArpRequest drv s)
         else
           let eth = NetSetEther (ether_of ether s) PROT_IP s;
               (hdr, s) = NetSetIP dest dport sport (length payload) s
           in (0, net_send drv (eth @ hdr @ payload) s))"

subsection \<open>Control\<close>

definition NetSetHandler :: "rxhand \<Rightarrow> ('w, 'z) net_scheme \<Rightarrow> ('w, 'z) net_scheme" where
  "NetSetHandler f s = s\<lparr>packetHandler := f\<rparr>"

definition NetSetTimeout :: "u32 \<Rightarrow> thand \<Rightarrow> ('w, 'z) net_scheme \<Rightarrow> ('w, 'z) net_scheme" where
  "NetSetTimeout iv f s =
     (if iv = 0 then s\<lparr>timeHandler := None\<rparr> else s\<lparr>timeHandler := Some f, timeStart := now s, timeDelta := iv\<rparr>)"

definition net_halt :: "'w eth_driver \<Rightarrow> ('w, 'z) net_scheme \<Rightarrow> ('w, 'z) net_scheme" where
  "net_halt drv s = s\<lparr>net_eth := eth_halt drv (net_eth s)\<rparr>"

text \<open>The number of attempts that \<^verbatim>\<open>netretry\<close> allows; \<open>None\<close> is without limit.\<close>

definition retry_limit :: "cstr option \<Rightarrow> u32 option" where
  "retry_limit nretry =
     (case nretry of
        None \<Rightarrow> None
      | Some v \<Rightarrow>
          if v = cs ''yes'' then None
          else if v = cs ''no'' then Some 0
          else if v = cs ''once'' then Some 1
          else Some (fst (simple_strtoul v 0)))"

definition NetStartAgain :: "'w eth_driver \<Rightarrow> ('w, 'z) net_scheme \<Rightarrow> ('w, 'z) net_scheme option" where
  "NetStartAgain drv s =
     do { nretry \<leftarrow> getenv_str (net_env s) (cs ''netretry'');
          if case retry_limit nretry of None \<Rightarrow> False | Some retrycnt \<Rightarrow> NetTryCount s \<ge> retrycnt
          then Some ((net_halt drv s)\<lparr>NetState := NETLOOP_FAIL\<rparr>)
          else do { let s = net_halt drv (s\<lparr>NetTryCount := NetTryCount s + 1\<rparr>);
                    e \<leftarrow> eth_try_another (\<not> NetRestarted s) (net_eth s);
                    (_, e) \<leftarrow> eth_init drv e;
                    Some (if NetRestartWrap e then
                            let s = s\<lparr>net_eth := e\<lparr>NetRestartWrap := False\<rparr>\<rparr>
                            in if NetDevExists s then NetSetHandler startAgainHandler (NetSetTimeout 10000 startAgainTimeout s)
                               else s\<lparr>NetState := NETLOOP_FAIL\<rparr>
                          else s\<lparr>net_eth := e, NetState := NETLOOP_RESTART\<rparr>) } }"

abbreviation "ARP_TIMEOUT \<equiv> 5000 :: u32"
abbreviation "ARP_TIMEOUT_COUNT \<equiv> 5 :: int"

definition ArpTimeoutCheck :: "'w eth_driver \<Rightarrow> ('w, 'z) net_scheme \<Rightarrow> ('w, 'z) net_scheme option" where
  "ArpTimeoutCheck drv s =
     (if NetArpWaitPacketIP s = 0 then Some s
      else if now s - NetArpWaitTimerStart s > ARP_TIMEOUT then
        let s = s\<lparr>NetArpWaitTry := NetArpWaitTry s + 1\<rparr>
        in if NetArpWaitTry s \<ge> ARP_TIMEOUT_COUNT then NetStartAgain drv (s\<lparr>NetArpWaitTry := 0\<rparr>)
           else Some (ArpRequest drv (s\<lparr>NetArpWaitTimerStart := now s\<rparr>))
      else Some s)"

definition string_to_VLAN :: "cstr option \<Rightarrow> u16" where
  "string_to_VLAN v =
     (case v of
        None \<Rightarrow> VLAN_NONE
      | Some v \<Rightarrow> if peek v < ch CHR ''0'' \<or> peek v > ch CHR ''9'' then VLAN_NONE else ucast (fst (simple_strtoul v 10)))"

definition NetInitLoop :: "('w, 'z) net_scheme \<Rightarrow> ('w, 'z) net_scheme option" where
  "NetInitLoop s =
     (if net_env_changed_id s \<noteq> env_id (net_env s) then
        do { let s = s\<lparr>NetOurIP := bi_ip_addr (net_env s)\<rparr>;
             gw \<leftarrow> getenv_str (net_env s) (cs ''gatewayip'');
             mask \<leftarrow> getenv_str (net_env s) (cs ''netmask'');
             srv \<leftarrow> getenv_str (net_env s) (cs ''serverip'');
             nvlan \<leftarrow> getenv_str (net_env s) (cs ''nvlan'');
             vlan \<leftarrow> getenv_str (net_env s) (cs ''vlan'');
             Some (s\<lparr>NetOurGatewayIP := string_to_ip gw, NetOurSubnetMask := string_to_ip mask,
                     NetServerIP := string_to_ip srv, NetOurNativeVLAN := string_to_VLAN nvlan,
                     NetOurVLAN := string_to_VLAN vlan, net_env_changed_id := env_id (net_env s)\<rparr>) }
      else Some s)"

subsection \<open>Receiving\<close>

text \<open>The header of a received frame: the protocol, the VLAN and the packet behind the header; \<open>None\<close> when the frame is
  dropped. An 802 frame too short for its header is dropped by every continuation, whatever lies behind it.\<close>

definition ether_split :: "byte list \<Rightarrow> ('w, 'z) net_scheme \<Rightarrow> (u16 \<times> u16 \<times> byte list) option" where
  "ether_split inpkt s =
     (if length inpkt < ETHER_HDR_SIZE then None
      else
        let x = get16 inpkt 12
        in if x < 1514 then
             if length inpkt < E802_HDR_SIZE then None
             else Some (get16 inpkt 20, VLAN_NONE, drop E802_HDR_SIZE inpkt)
           else if x \<noteq> PROT_VLAN then Some (x, VLAN_NONE, drop ETHER_HDR_SIZE inpkt)
           else if length inpkt < VLAN_ETHER_HDR_SIZE then None
           else if NetOurVLAN s AND VLAN_IDMASK = VLAN_NONE then None
           else Some (get16 inpkt 16, get16 inpkt 14 AND VLAN_IDMASK, drop VLAN_ETHER_HDR_SIZE inpkt))"

definition vlan_match :: "u16 \<Rightarrow> ('w, 'z) net_scheme \<Rightarrow> bool" where
  "vlan_match vlanid s \<longleftrightarrow>
     (let my = myvlan (NetOurVLAN s) AND VLAN_IDMASK;
          vlanid = (if vlanid = VLAN_NONE then myvlan (NetOurNativeVLAN s) AND VLAN_IDMASK else vlanid)
      in my \<noteq> VLAN_NONE \<longrightarrow> vlanid = my)"

text \<open>The answer to an ARP request is built in the receive buffer: \<open>off\<close> is the offset of the ARP packet in the frame.\<close>

definition arp_answer :: "'w eth_driver \<Rightarrow> nat \<Rightarrow> byte list \<Rightarrow> ('w, 'z) net_scheme \<Rightarrow> ('w, 'z) net_scheme option" where
  "arp_answer drv off inpkt s =
     (let hdr = NetSetEther (take 6 (drop 6 inpkt)) PROT_ARP s
      in do { p \<leftarrow> put 0 hdr inpkt;
              p \<leftarrow> put (off + 6) (be16_bytes 2) p;
              p \<leftarrow> put (off + 18) (take 6 (drop (off + 8) p)) p;
              p \<leftarrow> put (off + 24) (take 4 (drop (off + 14) p)) p;
              p \<leftarrow> put (off + 8) (NetOurEther s) p;
              p \<leftarrow> put (off + 14) (be32_bytes (NetOurIP s)) p;
              if length hdr + ARP_HDR_SIZE \<le> length p then Some (net_send drv (take (length hdr + ARP_HDR_SIZE) p) s)
              else None })"

definition set_ether :: "ether_ptr \<Rightarrow> byte list \<Rightarrow> ('w, 'z) net_scheme \<Rightarrow> ('w, 'z) net_scheme" where
  "set_ether p a s = (case p of NetServerEther_p \<Rightarrow> s\<lparr>NetServerEther := a\<rparr> | NetBcastAddr_p \<Rightarrow> s)"

definition arp_reply :: "'w eth_driver \<Rightarrow> byte list \<Rightarrow> ('w, 'z) net_scheme \<Rightarrow> ('w, 'z) net_scheme" where
  "arp_reply drv arp s =
     (case NetArpWaitPacketMAC s of
        None \<Rightarrow> s
      | Some p \<Rightarrow>
          if NetArpWaitPacketIP s = 0 then s
          else if NetReadIP arp 14 = NetArpWaitReplyIP s then
            let s = set_ether p (take 6 (drop 8 arp)) s;
                s = s\<lparr>NetArpWaitTxPacket := ether_of p s @ drop 6 (NetArpWaitTxPacket s)\<rparr>;
                s = net_send drv (NetArpWaitTxPacket s) s
            in s\<lparr>NetArpWaitPacketIP := 0, NetArpWaitTxPacket := [], NetArpWaitPacketMAC := None\<rparr>
          else s)"

definition receive_arp :: "'w eth_driver \<Rightarrow> byte list \<Rightarrow> byte list \<Rightarrow> ('w, 'z) net_scheme \<Rightarrow> ('w, 'z) net_scheme option" where
  "receive_arp drv inpkt arp s =
     (if length arp < ARP_HDR_SIZE then Some s
      else if get16 arp 0 \<noteq> 1 \<or> get16 arp 2 \<noteq> PROT_IP \<or> arp ! 4 \<noteq> 6 \<or> arp ! 5 \<noteq> 4 then Some s
      else if NetOurIP s = 0 \<or> NetReadIP arp 24 \<noteq> NetOurIP s then Some s
      else if get16 arp 6 = 1 then arp_answer drv (length inpkt - length arp) inpkt s
      else if get16 arp 6 = 2 then Some (arp_reply drv arp s)
      else Some s)"

type_synonym ('w, 'z) rx_run =
  "rxhand \<Rightarrow> byte list \<Rightarrow> u16 \<Rightarrow> u16 \<Rightarrow> u32 \<Rightarrow> ('w, 'z) net_scheme \<Rightarrow> ('w, 'z) net_scheme option"

definition receive_rarp :: "('w, 'z) rx_run \<Rightarrow> byte list \<Rightarrow> ('w, 'z) net_scheme \<Rightarrow> ('w, 'z) net_scheme option" where
  "receive_rarp handle arp s =
     (if length arp < ARP_HDR_SIZE then Some s
      else if get16 arp 6 \<noteq> 4 \<or> get16 arp 0 \<noteq> 1 \<or> get16 arp 2 \<noteq> PROT_IP \<or> arp ! 4 \<noteq> 6 \<or> arp ! 5 \<noteq> 4 then Some s
      else
        let s = s\<lparr>NetOurIP := NetReadIP arp 24\<rparr>;
            s = (if NetServerIP s = 0 then s\<lparr>NetServerIP := NetReadIP arp 14\<rparr> else s);
            s = s\<lparr>NetServerEther := take 6 (drop 8 arp)\<rparr>
        in handle (packetHandler s) [] 0 0 0 s)"

text \<open>The handler gets the received bytes behind the UDP header, the two ports, and the length that the UDP header claims,
  less 8, as the unsigned number the call converts it to.\<close>

definition receive_ip :: "('w, 'z) rx_run \<Rightarrow> byte list \<Rightarrow> ('w, 'z) net_scheme \<Rightarrow> ('w, 'z) net_scheme option" where
  "receive_ip handle ip s =
     (if length ip < IP_HDR_SIZE then Some s
      else if length ip < unat (get16 ip 2) then Some s
      else if ip ! 0 AND 0xf0 \<noteq> 0x40 \<or> ip ! 0 AND 0x0f > 5 then Some s
      else if \<not> NetCksumOk ip 10 then Some s
      else if NetOurIP s \<noteq> 0 \<and> NetReadIP ip 16 \<noteq> NetOurIP s \<and> NetReadIP ip 16 \<noteq> 0xFFFFFFFF then Some s
      else if get16 ip 6 AND (0x1fff OR 0x2000) \<noteq> 0 then Some s
      else if ip ! 9 \<noteq> 17 then Some s
      else handle (packetHandler s) (drop IP_HDR_SIZE ip) (get16 ip 22) (get16 ip 20) (ucast (get16 ip 24) - 8) s)"

definition NetReceive ::
  "'w eth_driver \<Rightarrow> ('w, 'z) rx_run \<Rightarrow> byte list \<Rightarrow> ('w, 'z) net_scheme \<Rightarrow> ('w, 'z) net_scheme option" where
  "NetReceive drv handle inpkt s =
     (let s = s\<lparr>NetRxPacket := inpkt\<rparr>
      in case ether_split inpkt s of
           None \<Rightarrow> Some s
         | Some (x, vlanid, pkt) \<Rightarrow>
             if \<not> vlan_match vlanid s then Some s
             else if x = PROT_ARP then receive_arp drv inpkt pkt s
             else if x = PROT_RARP then receive_rarp handle pkt s
             else if x = PROT_IP then receive_ip handle pkt s
             else Some s)"

end
