(* ===== verification/Tftp.thy ===== *)
theory Tftp
  imports Net
begin

text \<open>
  The TFTP client: \<^verbatim>\<open>net/tftp.c\<close>, in the board's configuration (no multicast, no \<^verbatim>\<open>tsize\<close>, no flash as the
  destination). Its static variables extend the state of the network core; the progress output is left out. A read
  outside the received bytes gives \<open>None\<close>.
\<close>

datatype tftp_state = STATE_RRQ | STATE_DATA | STATE_TOO_LARGE | STATE_BAD_MAGIC | STATE_OACK

record 'w tftp = "'w net" +
  TftpTimeoutMSecs :: u32
  TftpTimeoutCountMax :: int
  TftpRRQTimeoutCountMax :: int
  TftpServerIP :: u32
  TftpServerPort :: u16
  TftpOurPort :: u16
  TftpTimeoutCount :: int
  TftpBlock :: u32
  TftpLastBlock :: u32
  TftpBlockWrap :: u32
  TftpBlockWrapOffset :: u32
  TftpState :: tftp_state
  TftpBlkSize :: u16
  TftpBlkSizeOption :: u16
  tftp_filename :: cstr
  net_mem :: mem

abbreviation "TIMEOUT_COUNT \<equiv> 10 :: int"
abbreviation "TFTP_SEQUENCE_SIZE \<equiv> 65536 :: u32"
abbreviation "TFTP_BLOCK_SIZE \<equiv> 512 :: u16"
abbreviation "MAX_LEN \<equiv> 128 :: nat"
abbreviation "WELL_KNOWN_PORT \<equiv> 69 :: u16"

text \<open>\<open>src\<close> are the received bytes from the source pointer on.\<close>

definition store_block :: "u32 \<Rightarrow> byte list \<Rightarrow> u32 \<Rightarrow> ('w, 'z) tftp_scheme \<Rightarrow> ('w, 'z) tftp_scheme option" where
  "store_block block src len s =
     (let offset = block * ucast (TftpBlkSize s) + TftpBlockWrapOffset s;
          newsize = offset + len
      in if length src < unat len then None
         else
           let s = s\<lparr>net_mem := mem_write (load_addr (net_env s) + offset) (take (unat len) src) (net_mem s)\<rparr>
           in Some (if NetBootFileXferSize s < newsize then s\<lparr>NetBootFileXferSize := newsize\<rparr> else s))"

definition tftp_request :: "('w, 'z) tftp_scheme \<Rightarrow> byte list option" where
  "tftp_request s =
     do { (t, _) \<leftarrow> vsprintf (\<lambda>_. 0) (cs ''%lu'') [VA_word (TftpTimeoutMSecs s div 1000)];
          (b, _, n) \<leftarrow> vsprintf (\<lambda>_. 0) (cs ''blksize%c%d%c'')
                        [VA_word 0, VA_word (ucast (TftpBlkSizeOption s)), VA_word 0];
          Some (be16_bytes 1 @ tftp_filename s @ [0] @ cs ''octet'' @ [0] @ cs ''timeout'' @ [0] @ t @ take n b) }"

definition tftp_packet :: "('w, 'z) tftp_scheme \<Rightarrow> byte list option" where
  "tftp_packet s =
     (case TftpState s of
        STATE_RRQ \<Rightarrow> tftp_request s
      | STATE_OACK \<Rightarrow> Some (be16_bytes 4 @ be16_bytes (ucast (TftpBlock s)))
      | STATE_DATA \<Rightarrow> Some (be16_bytes 4 @ be16_bytes (ucast (TftpBlock s)))
      | STATE_TOO_LARGE \<Rightarrow> Some (be16_bytes 5 @ be16_bytes 3 @ cs ''File too large'' @ [0])
      | STATE_BAD_MAGIC \<Rightarrow> Some (be16_bytes 5 @ be16_bytes 2 @ cs ''File has bad magic'' @ [0]))"

definition TftpSend :: "'w eth_driver \<Rightarrow> ('w, 'z) tftp_scheme \<Rightarrow> ('w, 'z) tftp_scheme option" where
  "TftpSend drv s =
     map_option (\<lambda>p. snd (NetSendUDPPacket drv NetServerEther_p (TftpServerIP s) (TftpServerPort s) (TftpOurPort s) p s))
       (tftp_packet s)"

subsection \<open>Received packets\<close>

text \<open>\<^verbatim>\<open>strcmp\<close> and \<^verbatim>\<open>simple_strtoul\<close> on text inside a packet.\<close>

fun strcmp_eq :: "byte list \<Rightarrow> cstr \<Rightarrow> bool option" where
  "strcmp_eq [] t = None"
| "strcmp_eq (c # p) [] = Some (c = 0)"
| "strcmp_eq (c # p) (x # t) = (if c = x then strcmp_eq p t else Some False)"

definition strtoul_in :: "byte list \<Rightarrow> u32 option" where
  "strtoul_in p =
     (let (v, endp) = simple_strtoul p 10
      in if endp = [] \<or> endp = [ch CHR ''x''] then None else Some v)"

text \<open>The search for the option \<^verbatim>\<open>blksize\<close> at every offset \<open>i\<close> with \<open>i + 8 < len\<close>; \<open>p\<close> are the bytes from
  offset \<open>i\<close> on.\<close>

fun oack_loop :: "nat \<Rightarrow> byte list \<Rightarrow> u16 \<Rightarrow> u16 option" where
  "oack_loop 0 p blk = Some blk"
| "oack_loop (Suc n) p blk =
     do { eq \<leftarrow> strcmp_eq p (cs ''blksize'');
          blk \<leftarrow> (if eq then map_option ucast (strtoul_in (drop 8 p)) else Some blk);
          oack_loop n (drop 1 p) blk }"

definition tftp_oack ::
  "'w eth_driver \<Rightarrow> byte list \<Rightarrow> u16 \<Rightarrow> u32 \<Rightarrow> ('w, 'z) tftp_scheme \<Rightarrow> ('w, 'z) tftp_scheme option" where
  "tftp_oack drv pkt src len s =
     (let s = s\<lparr>TftpState := STATE_OACK, TftpServerPort := src\<rparr>
      in do { blk \<leftarrow> oack_loop (unat len - 8) pkt (TftpBlkSize s);
              TftpSend drv (s\<lparr>TftpBlkSize := blk\<rparr>) })"

text \<open>A data packet: the outer result is a fault, the inner flag tells that the packet ended the processing early.\<close>

definition tftp_first ::
  "'w eth_driver \<Rightarrow> u16 \<Rightarrow> ('w, 'z) tftp_scheme \<Rightarrow> (bool \<times> ('w, 'z) tftp_scheme) option" where
  "tftp_first drv src s =
     (if TftpState s = STATE_RRQ \<or> TftpState s = STATE_OACK then
        let s = s\<lparr>TftpState := STATE_DATA, TftpServerPort := src, TftpLastBlock := 0, TftpBlockWrap := 0,
                  TftpBlockWrapOffset := 0\<rparr>
        in if TftpBlock s \<noteq> 1 then map_option (Pair True) (NetStartAgain drv s) else Some (False, s)
      else Some (False, s))"

definition tftp_data ::
  "'w eth_driver \<Rightarrow> byte list \<Rightarrow> u16 \<Rightarrow> u32 \<Rightarrow> ('w, 'z) tftp_scheme \<Rightarrow> ('w, 'z) tftp_scheme option" where
  "tftp_data drv pkt src len s =
     (if len < 2 then Some s
      else if length pkt < 2 then None
      else
        let len = len - 2;
            s = s\<lparr>TftpBlock := ucast (get16 pkt 0)\<rparr>;
            s = (if TftpBlock s = 0
                 then s\<lparr>TftpBlockWrap := TftpBlockWrap s + 1,
                        TftpBlockWrapOffset := TftpBlockWrapOffset s + ucast (TftpBlkSize s) * TFTP_SEQUENCE_SIZE\<rparr>
                 else s)
        in do { (stop, s) \<leftarrow> tftp_first drv src s;
                if stop then Some s
                else if TftpBlock s = TftpLastBlock s then Some s
                else do { let s = NetSetTimeout (TftpTimeoutMSecs s) TftpTimeout_f
                                    (s\<lparr>TftpLastBlock := TftpBlock s, TftpTimeoutCountMax := TIMEOUT_COUNT\<rparr>);
                          s \<leftarrow> store_block (TftpBlock s - 1) (drop 2 pkt) len s;
                          s \<leftarrow> TftpSend drv s;
                          Some (if len < ucast (TftpBlkSize s) then s\<lparr>NetState := NETLOOP_SUCCESS\<rparr> else s) } })"

definition tftp_error :: "'w eth_driver \<Rightarrow> byte list \<Rightarrow> ('w, 'z) tftp_scheme \<Rightarrow> ('w, 'z) tftp_scheme option" where
  "tftp_error drv pkt s =
     (if length pkt < 2 then None
      else if get16 pkt 0 = 1 \<or> get16 pkt 0 = 2 then Some ((net_halt drv s)\<lparr>NetState := NETLOOP_FAIL\<rparr>)
      else NetStartAgain drv s)"

definition TftpHandler ::
  "'w eth_driver \<Rightarrow> byte list \<Rightarrow> u16 \<Rightarrow> u16 \<Rightarrow> u32 \<Rightarrow> ('w, 'z) tftp_scheme \<Rightarrow> ('w, 'z) tftp_scheme option" where
  "TftpHandler drv pkt dest src len s =
     (if dest \<noteq> TftpOurPort s then Some s
      else if TftpState s \<noteq> STATE_RRQ \<and> src \<noteq> TftpServerPort s then Some s
      else if len < 2 then Some s
      else if length pkt < 2 then None
      else
        let len = len - 2; proto = get16 pkt 0; pkt = drop 2 pkt
        in if proto = 6 then tftp_oack drv pkt src len s
           else if proto = 3 then tftp_data drv pkt src len s
           else if proto = 5 then tftp_error drv pkt s
           else Some s)"

subsection \<open>Start and timeout\<close>

definition TftpTimeout :: "'w eth_driver \<Rightarrow> ('w, 'z) tftp_scheme \<Rightarrow> ('w, 'z) tftp_scheme option" where
  "TftpTimeout drv s =
     (let s = s\<lparr>TftpTimeoutCount := TftpTimeoutCount s + 1\<rparr>
      in if TftpTimeoutCount s > TftpTimeoutCountMax s then NetStartAgain drv s
         else TftpSend drv (NetSetTimeout (TftpTimeoutMSecs s) TftpTimeout_f s))"

text \<open>The name asked for: the boot file, the part of it behind a colon (then the part before is the server), or a name
  made from the own address.\<close>

definition default_filename :: "u32 \<Rightarrow> cstr option" where
  "default_filename ip =
     map_option (\<lambda>(buf, _). butlast buf)
       (vsprintf (\<lambda>_. 0) (cs ''%02lX%02lX%02lX%02lX.img'')
          [VA_word (ip AND 0xFF), VA_word (drop_bit 8 ip AND 0xFF), VA_word (drop_bit 16 ip AND 0xFF),
           VA_word (drop_bit 24 ip AND 0xFF)])"

definition tftp_name :: "('w, 'z) tftp_scheme \<Rightarrow> (cstr \<times> u32) option" where
  "tftp_name s =
     (let file = BootFile (net_env s)
      in if file = [] then map_option (\<lambda>n. (take (MAX_LEN - 1) n, NetServerIP s)) (default_filename (NetOurIP s))
         else if ch CHR '':'' \<in> set file
         then Some (take (MAX_LEN - 1) (tl (dropWhile (\<lambda>c. c \<noteq> ch CHR '':'') file)), string_to_ip (Some file))
         else Some (take (MAX_LEN - 1) file, NetServerIP s))"

definition TftpStart :: "'w eth_driver \<Rightarrow> ('w, 'z) tftp_scheme \<Rightarrow> ('w, 'z) tftp_scheme option" where
  "TftpStart drv s =
     do { ep \<leftarrow> getenv_str (net_env s) (cs ''tftpblocksize'');
          let s = (case ep of None \<Rightarrow> s | Some v \<Rightarrow> s\<lparr>TftpBlkSizeOption := ucast (fst (simple_strtol v 10))\<rparr>);
          ep \<leftarrow> getenv_str (net_env s) (cs ''tftptimeout'');
          let s = (case ep of None \<Rightarrow> s | Some v \<Rightarrow> s\<lparr>TftpTimeoutMSecs := fst (simple_strtol v 10)\<rparr>);
          let s = (if TftpTimeoutMSecs s < 1000 then s\<lparr>TftpTimeoutMSecs := 1000\<rparr> else s);
          (name, ip) \<leftarrow> tftp_name s;
          let s = s\<lparr>tftp_filename := name, TftpServerIP := ip, TftpTimeoutCountMax := TftpRRQTimeoutCountMax s\<rparr>;
          let s = NetSetHandler TftpHandler_f (NetSetTimeout (TftpTimeoutMSecs s) TftpTimeout_f s);
          TftpSend drv (s\<lparr>TftpServerPort := WELL_KNOWN_PORT, TftpTimeoutCount := 0, TftpState := STATE_RRQ,
                          TftpOurPort := ucast (1024 + now s mod 3072), TftpBlock := 0,
                          NetServerEther := replicate 6 0, TftpBlkSize := TFTP_BLOCK_SIZE\<rparr>) }"

end
