(* ===== verification/Bootp.thy ===== *)
theory Bootp
  imports Tftp
begin

text \<open>
  Address configuration from a server: BOOTP (\<^verbatim>\<open>net/bootp.c\<close>, without DHCP) and RARP (\<^verbatim>\<open>net/rarp.c\<close>). Both end by
  starting the load of the boot file. The state extends that of the TFTP client. \<^verbatim>\<open>NfsStart\<close> is a parameter.
\<close>

record 'w bootp = "'w tftp" +
  BootpID :: u32
  BootpTry :: int
  RarpTry :: int
  NetOurDNSIP :: u32
  NetOurHostName :: "byte list"
  NetOurRootPath :: "byte list"
  NetOurNISDomain :: "byte list"
  NetBootFileSize :: u16

abbreviation "PORT_BOOTPS \<equiv> 67 :: u16"
abbreviation "PORT_BOOTPC \<equiv> 68 :: u16"
abbreviation "BOOTP_TIMEOUT_COUNT \<equiv> 5 :: int"

subsection \<open>Received replies\<close>

text \<open>The reason for which a packet is filtered out, 0 for a good one.\<close>

definition BootpCheckPkt :: "byte list \<Rightarrow> u16 \<Rightarrow> u16 \<Rightarrow> u32 \<Rightarrow> ('w, 'z) bootp_scheme \<Rightarrow> int option" where
  "BootpCheckPkt pkt dest src len s =
     (if dest \<noteq> PORT_BOOTPC \<or> src \<noteq> PORT_BOOTPS then Some (-1)
      else if len < 236 then Some (-2)
      else if length pkt < 236 then None
      else if pkt ! 0 \<notin> {1, 2, 5, 6} then Some (-3)
      else if pkt ! 1 \<noteq> 1 then Some (-4)
      else if pkt ! 2 \<noteq> 6 then Some (-5)
      else if NetReadIP pkt 4 \<noteq> BootpID s then Some (-6)
      else Some 0)"

text \<open>The name in \<^verbatim>\<open>bp_file\<close> is a string; without a NUL behind it \<^verbatim>\<open>strlen\<close> runs out of the packet.\<close>

definition packet_str :: "byte list \<Rightarrow> nat \<Rightarrow> cstr option" where
  "packet_str pkt i = (if 0 \<in> set (drop i pkt) then Some (takeWhile (\<lambda>c. c \<noteq> 0) (drop i pkt)) else None)"

definition set_bootfile :: "cstr \<Rightarrow> ('w, 'z) net_scheme \<Rightarrow> ('w, 'z) net_scheme" where
  "set_bootfile f s = s\<lparr>net_eth := (net_eth s)\<lparr>eth_env := (net_env s)\<lparr>BootFile := f\<rparr>\<rparr>\<rparr>"

definition BootpCopyNetParams :: "byte list \<Rightarrow> ('w, 'z) net_scheme \<Rightarrow> ('w, 'z) net_scheme option" where
  "BootpCopyNetParams bp s =
     (let s = s\<lparr>NetOurIP := NetReadIP bp 16\<rparr>;
          s = (if NetReadIP bp 20 \<noteq> 0 then s\<lparr>NetServerIP := NetReadIP bp 20\<rparr> else s);
          s = s\<lparr>NetServerEther := take 6 (drop 6 (NetRxPacket s))\<rparr>
      in do { file \<leftarrow> packet_str bp 108;
              let s = (if file \<noteq> [] then set_bootfile (copy_filename file 128) s else s);
              if BootFile (net_env s) \<noteq> [] then
                map_option (\<lambda>(_, e). s\<lparr>net_eth := (net_eth s)\<lparr>eth_env := e\<rparr>\<rparr>)
                  (setenv (cs ''bootfile'') (Some (BootFile (net_env s))) (net_env s))
              else Some s })"

definition truncate_sz :: "nat \<Rightarrow> nat \<Rightarrow> nat" where
  "truncate_sz maxlen curlen = (if curlen \<ge> maxlen then maxlen - 1 else curlen)"

text \<open>\<open>ext\<close> are the bytes from the option's code on.\<close>

definition BootpVendorFieldProcess :: "byte list \<Rightarrow> ('w, 'z) bootp_scheme \<Rightarrow> ('w, 'z) bootp_scheme option" where
  "BootpVendorFieldProcess ext s =
     (let size = unat (ext ! 1);
          ip = (if length ext < 6 then None else Some (NetReadIP ext 2));
          text = (\<lambda>m. let n = truncate_sz m size in if length ext < 2 + n then None else Some (take n (drop 2 ext)));
          s = s\<lparr>NetBootFileSize := 0\<rparr>
      in if ext ! 0 = 1 then
           if NetOurSubnetMask s = 0 then map_option (\<lambda>a. s\<lparr>NetOurSubnetMask := a\<rparr>) ip else Some s
         else if ext ! 0 = 3 then
           if NetOurGatewayIP s = 0 then map_option (\<lambda>a. s\<lparr>NetOurGatewayIP := a\<rparr>) ip else Some s
         else if ext ! 0 = 6 then
           if NetOurDNSIP s = 0 then map_option (\<lambda>a. s\<lparr>NetOurDNSIP := a\<rparr>) ip else Some s
         else if ext ! 0 = 12 then
           if peek (NetOurHostName s) = 0 then map_option (\<lambda>t. s\<lparr>NetOurHostName := t\<rparr>) (text 32) else Some s
         else if ext ! 0 = 13 then
           if size = 2 then if length ext < 4 then None else Some (s\<lparr>NetBootFileSize := get16 ext 2\<rparr>)
           else if size = 4 then map_option (\<lambda>a. s\<lparr>NetBootFileSize := ucast a\<rparr>) ip
           else Some s
         else if ext ! 0 = 17 then
           if peek (NetOurRootPath s) = 0 then map_option (\<lambda>t. s\<lparr>NetOurRootPath := t\<rparr>) (text 64) else Some s
         else if ext ! 0 = 40 then
           if peek (NetOurNISDomain s) = 0 then map_option (\<lambda>t. s\<lparr>NetOurNISDomain := t\<rparr>) (text 32) else Some s
         else Some s)"

text \<open>\<open>n\<close> is \<^verbatim>\<open>end - ext\<close>.\<close>

function BootpVendorProcess :: "byte list \<Rightarrow> nat \<Rightarrow> ('w, 'z) bootp_scheme \<Rightarrow> ('w, 'z) bootp_scheme option" where
  "BootpVendorProcess ext n s =
     (if n = 0 then Some s
      else case ext of
             [] \<Rightarrow> None
           | c # ext' \<Rightarrow>
               if c = 0xff then Some s
               else if c = 0 then BootpVendorProcess ext' (n - 1) s
               else case ext' of
                      [] \<Rightarrow> None
                    | len # _ \<Rightarrow>
                        let step = unat len + 2
                        in Option.bind (if step \<le> n then BootpVendorFieldProcess ext s else Some s)
                             (BootpVendorProcess (drop step ext) (n - step)))"
  by pat_completeness auto
termination by (relation "measure (\<lambda>(ext, n, s). n)") auto

declare BootpVendorProcess.simps [simp del]

text \<open>After the configuration: \<^verbatim>\<open>autoload\<close> decides whether and how the boot file is loaded.\<close>

definition auto_load ::
  "'w eth_driver \<Rightarrow> (('w, 'z) tftp_scheme \<Rightarrow> ('w, 'z) tftp_scheme option) \<Rightarrow> ('w, 'z) tftp_scheme \<Rightarrow> ('w, 'z) tftp_scheme option" where
  "auto_load drv NfsStart s =
     do { v \<leftarrow> getenv_str (net_env s) (cs ''autoload'');
          case v of
            None \<Rightarrow> TftpStart drv s
          | Some v \<Rightarrow>
              if peek v = ch CHR ''n'' then Some (s\<lparr>NetState := NETLOOP_SUCCESS\<rparr>)
              else if v = cs ''NFS'' then NfsStart s
              else TftpStart drv s }"

definition BootpHandler ::
  "'w eth_driver \<Rightarrow> (('w, 'z) bootp_scheme \<Rightarrow> ('w, 'z) bootp_scheme option) \<Rightarrow>
     byte list \<Rightarrow> u16 \<Rightarrow> u16 \<Rightarrow> u32 \<Rightarrow> ('w, 'z) bootp_scheme \<Rightarrow> ('w, 'z) bootp_scheme option" where
  "BootpHandler drv NfsStart pkt dest src len s =
     do { bad \<leftarrow> BootpCheckPkt pkt dest src len s;
          if bad \<noteq> 0 then Some s
          else do { s \<leftarrow> BootpCopyNetParams pkt s;
                    if length pkt < 240 then None
                    else do { s \<leftarrow> (if NetReadIP pkt 236 = 0x63825363
                                    then BootpVendorProcess (drop 240 pkt) (unat len) s else Some s);
                              auto_load drv NfsStart (NetSetTimeout 0 BootpTimeout_f s) } } }"

definition RarpHandler ::
  "'w eth_driver \<Rightarrow> (('w, 'z) bootp_scheme \<Rightarrow> ('w, 'z) bootp_scheme option) \<Rightarrow> ('w, 'z) bootp_scheme \<Rightarrow>
     ('w, 'z) bootp_scheme option" where
  "RarpHandler drv NfsStart s = auto_load drv NfsStart s"

subsection \<open>Requests\<close>

definition BootpExtended :: "byte list" where
  "BootpExtended =
     [99, 130, 83, 99] @ [1, 4] @ replicate 4 0 @ [3, 4] @ replicate 4 0 @ [12, 32] @ replicate 32 0 @
     [13, 2] @ replicate 2 0 @ [17, 32] @ replicate 32 0 @ [255]"

text \<open>A string in a field of the zeroed packet.\<close>

definition field :: "nat \<Rightarrow> byte list \<Rightarrow> byte list" where
  "field n v = v @ replicate (n - length v) 0"

definition bootp_packet :: "u32 \<Rightarrow> ('w, 'z) bootp_scheme \<Rightarrow> byte list" where
  "bootp_packet ident s =
     [1, 1, 6, 0] @ be32_bytes ident @ be16_bytes (ucast (now s div 1000)) @ [0, 0] @ replicate 16 0 @
     field 16 (NetOurEther s) @ replicate 64 0 @ field 128 (copy_filename (BootFile (net_env s)) 128) @ BootpExtended"

definition BootpRequest :: "'w eth_driver \<Rightarrow> ('w, 'z) bootp_scheme \<Rightarrow> ('w, 'z) bootp_scheme" where
  "BootpRequest drv s =
     (let s = s\<lparr>BootpTry := BootpTry s + 1\<rparr>;
          e = NetOurEther s;
          ident = be32_val (e ! 2) (e ! 3) (e ! 4) (e ! 5) + now s;
          s = s\<lparr>BootpID := ident\<rparr>;
          p = bootp_packet ident s;
          eth = NetSetEther NetBcastAddr PROT_IP s;
          (hdr, s) = NetSetIP 0xFFFFFFFF PORT_BOOTPS PORT_BOOTPC (length p) s;
          s = NetSetHandler BootpHandler_f (NetSetTimeout 3000 BootpTimeout_f s)
      in net_send drv (eth @ hdr @ p) s)"

definition BootpTimeout :: "'w eth_driver \<Rightarrow> ('w, 'z) bootp_scheme \<Rightarrow> ('w, 'z) bootp_scheme option" where
  "BootpTimeout drv s =
     (if BootpTry s \<ge> BOOTP_TIMEOUT_COUNT then NetStartAgain drv s
      else Some (BootpRequest drv (NetSetTimeout 5000 BootpTimeout_f s)))"

definition RarpRequest :: "'w eth_driver \<Rightarrow> ('w, 'z) bootp_scheme \<Rightarrow> ('w, 'z) bootp_scheme" where
  "RarpRequest drv s =
     (let s = s\<lparr>RarpTry := RarpTry s + 1\<rparr>;
          s = net_send drv (NetSetEther NetBcastAddr PROT_RARP s @
                 arp_body 3 (NetOurEther s) (NetOurIP s) (NetOurEther s) 0xFFFFFFFF) s
      in NetSetHandler RarpHandler_f (NetSetTimeout 5000 RarpTimeout_f s))"

definition RarpTimeout :: "'w eth_driver \<Rightarrow> ('w, 'z) bootp_scheme \<Rightarrow> ('w, 'z) bootp_scheme option" where
  "RarpTimeout drv s =
     (if RarpTry s \<ge> BOOTP_TIMEOUT_COUNT then NetStartAgain drv s
      else Some (RarpRequest drv (NetSetTimeout 5000 RarpTimeout_f s)))"

end
