(* ===== verification/NetLoop.thy ===== *)
theory NetLoop
  imports Bootp
begin

text \<open>
  The main loop of the network code: \<^verbatim>\<open>NetLoop\<close> and \<^verbatim>\<open>net_check_prereq\<close> of \<^verbatim>\<open>net/net.c\<close>. An iteration of
  the loop sees the frames that the driver's receive routine hands to \<^verbatim>\<open>NetReceive\<close>, the state of the ctrl-c key and
  the time; a run of the loop is a function of the list of what its iterations see. The NFS client is a parameter.
\<close>

datatype proto = BOOTP | RARP | ARP | TFTP | DHCP | PING | DNS | NFS | CDP | NETCONS | SNTP

type_synonym ('w, 'z) st = "('w, 'z) bootp_scheme"

record ('w, 'z) nfs =
  NfsStart :: "('w, 'z) st \<Rightarrow> ('w, 'z) st option"
  NfsHandler :: "byte list \<Rightarrow> u16 \<Rightarrow> u16 \<Rightarrow> u32 \<Rightarrow> ('w, 'z) st \<Rightarrow> ('w, 'z) st option"
  NfsTimeout :: "('w, 'z) st \<Rightarrow> ('w, 'z) st option"

record event =
  ev_frames :: "byte list list"
  ev_ctrlc :: bool
  ev_time :: u32

definition run_rx ::
  "'w eth_driver \<Rightarrow> ('w, 'z) nfs \<Rightarrow> rxhand \<Rightarrow> byte list \<Rightarrow> u16 \<Rightarrow> u16 \<Rightarrow> u32 \<Rightarrow> ('w, 'z) st \<Rightarrow> ('w, 'z) st option" where
  "run_rx drv nfs f pkt dest src len s =
     (case f of
        startAgainHandler \<Rightarrow> Some s
      | TftpHandler_f \<Rightarrow> TftpHandler drv pkt dest src len s
      | BootpHandler_f \<Rightarrow> BootpHandler drv (NfsStart nfs) pkt dest src len s
      | RarpHandler_f \<Rightarrow> RarpHandler drv (NfsStart nfs) s
      | NfsHandler_f \<Rightarrow> NfsHandler nfs pkt dest src len s)"

definition run_timer :: "'w eth_driver \<Rightarrow> ('w, 'z) nfs \<Rightarrow> thand \<Rightarrow> ('w, 'z) st \<Rightarrow> ('w, 'z) st option" where
  "run_timer drv nfs f s =
     (case f of
        startAgainTimeout \<Rightarrow> Some (s\<lparr>NetState := NETLOOP_RESTART\<rparr>)
      | TftpTimeout_f \<Rightarrow> TftpTimeout drv s
      | BootpTimeout_f \<Rightarrow> BootpTimeout drv s
      | RarpTimeout_f \<Rightarrow> RarpTimeout drv s
      | NfsTimeout_f \<Rightarrow> NfsTimeout nfs s)"

subsection \<open>Start\<close>

definition net_check_prereq :: "'w eth_driver \<Rightarrow> proto \<Rightarrow> ('w, 'z) net_scheme \<Rightarrow> (int \<times> ('w, 'z) net_scheme) option" where
  "net_check_prereq drv protocol s =
     (if protocol \<in> {NFS, NETCONS, TFTP} \<and> (NetServerIP s = 0 \<or> NetOurIP s = 0) then Some (1, s)
      else if protocol \<in> {NFS, NETCONS, TFTP, DHCP, RARP, BOOTP, CDP} \<and> NetOurEther s = replicate 6 0 then
        if eth_devices (net_eth s) = [] then Some (1, s)
        else map_option (Pair 2) (NetStartAgain drv s)
      else Some (0, s))"

definition start_protocol :: "'w eth_driver \<Rightarrow> ('w, 'z) nfs \<Rightarrow> proto \<Rightarrow> ('w, 'z) st \<Rightarrow> ('w, 'z) st option" where
  "start_protocol drv nfs protocol s =
     (case protocol of
        TFTP \<Rightarrow> TftpStart drv s
      | BOOTP \<Rightarrow> Some (BootpRequest drv (s\<lparr>BootpTry := 0, NetOurIP := 0\<rparr>))
      | RARP \<Rightarrow> Some (RarpRequest drv (s\<lparr>RarpTry := 0, NetOurIP := 0\<rparr>))
      | NFS \<Rightarrow> NfsStart nfs s
      | _ \<Rightarrow> Some s)"

text \<open>From the label \<^verbatim>\<open>restart\<close> to the loop: the first component is the value returned at once, if there is one.\<close>

definition net_restart :: "'w eth_driver \<Rightarrow> ('w, 'z) nfs \<Rightarrow> proto \<Rightarrow> ('w, 'z) st \<Rightarrow> (int option \<times> ('w, 'z) st) option" where
  "net_restart drv nfs protocol s =
     do { dev \<leftarrow> eth_get_dev (net_eth s);
          s \<leftarrow> NetInitLoop (s\<lparr>NetOurEther := enetaddr dev, NetState := NETLOOP_CONTINUE\<rparr>);
          (r, s) \<leftarrow> net_check_prereq drv protocol s;
          if r = 1 then Some (Some (-1), net_halt drv s)
          else if r = 2 then Some (None, s)
          else do { s \<leftarrow> start_protocol drv nfs protocol (s\<lparr>NetDevExists := True\<rparr>);
                    Some (None, s\<lparr>NetBootFileXferSize := 0\<rparr>) } }"

subsection \<open>The loop\<close>

primrec receive_all :: "'w eth_driver \<Rightarrow> ('w, 'z) nfs \<Rightarrow> byte list list \<Rightarrow> ('w, 'z) st \<Rightarrow> ('w, 'z) st option" where
  "receive_all drv nfs [] s = Some s"
| "receive_all drv nfs (p # ps) s = Option.bind (NetReceive drv (run_rx drv nfs) p s) (receive_all drv nfs ps)"

definition check_timer :: "'w eth_driver \<Rightarrow> ('w, 'z) nfs \<Rightarrow> ('w, 'z) st \<Rightarrow> ('w, 'z) st option" where
  "check_timer drv nfs s =
     (case timeHandler s of
        None \<Rightarrow> Some s
      | Some x \<Rightarrow>
          if now s - timeStart s > timeDelta s then run_timer drv nfs x (s\<lparr>timeHandler := None\<rparr>) else Some s)"

definition set_hex :: "string \<Rightarrow> u32 \<Rightarrow> env_state \<Rightarrow> env_state option" where
  "set_hex name v e =
     do { (buf, _) \<leftarrow> vsprintf (\<lambda>_. 0) (cs ''%lX'') [VA_word v];
          map_option snd (setenv (cs name) (Some (butlast buf)) e) }"

definition net_success :: "'w eth_driver \<Rightarrow> ('w, 'z) net_scheme \<Rightarrow> (int option \<times> ('w, 'z) net_scheme) option" where
  "net_success drv s =
     do { e \<leftarrow> (if NetBootFileXferSize s > 0
                then Option.bind (set_hex ''filesize'' (NetBootFileXferSize s) (net_env s))
                       (\<lambda>e. set_hex ''fileaddr'' (load_addr e) e)
                else Some (net_env s));
          Some (Some (sint (NetBootFileXferSize s)), net_halt drv (s\<lparr>net_eth := (net_eth s)\<lparr>eth_env := e\<rparr>\<rparr>)) }"

definition net_iteration ::
  "'w eth_driver \<Rightarrow> ('w, 'z) nfs \<Rightarrow> proto \<Rightarrow> event \<Rightarrow> ('w, 'z) st \<Rightarrow> (int option \<times> ('w, 'z) st) option" where
  "net_iteration drv nfs protocol ev s =
     do { s \<leftarrow> receive_all drv nfs (ev_frames ev) (s\<lparr>now := ev_time ev\<rparr>);
          if ev_ctrlc ev then Some (Some (-1), net_halt drv s)
          else do { s \<leftarrow> ArpTimeoutCheck drv s;
                    s \<leftarrow> check_timer drv nfs s;
                    case NetState s of
                      NETLOOP_RESTART \<Rightarrow> net_restart drv nfs protocol (s\<lparr>NetRestarted := True\<rparr>)
                    | NETLOOP_SUCCESS \<Rightarrow> net_success drv s
                    | NETLOOP_FAIL \<Rightarrow> Some (Some (-1), s)
                    | NETLOOP_CONTINUE \<Rightarrow> Some (None, s) } }"

text \<open>The iterations for a list of events; \<open>Some (None, s)\<close> means that the loop is still running after them.\<close>

primrec net_iterations ::
  "'w eth_driver \<Rightarrow> ('w, 'z) nfs \<Rightarrow> proto \<Rightarrow> event list \<Rightarrow> ('w, 'z) st \<Rightarrow> (int option \<times> ('w, 'z) st) option" where
  "net_iterations drv nfs protocol [] s = Some (None, s)"
| "net_iterations drv nfs protocol (ev # evs) s =
     do { (r, s) \<leftarrow> net_iteration drv nfs protocol ev s;
          case r of None \<Rightarrow> net_iterations drv nfs protocol evs s | Some v \<Rightarrow> Some (Some v, s) }"

definition NetLoop ::
  "'w eth_driver \<Rightarrow> ('w, 'z) nfs \<Rightarrow> proto \<Rightarrow> event list \<Rightarrow> ('w, 'z) st \<Rightarrow> (int option \<times> ('w, 'z) st) option" where
  "NetLoop drv nfs protocol evs s =
     do { let s = s\<lparr>NetRestarted := False, NetDevExists := False, NetArpWaitPacketMAC := None, NetArpWaitTxPacket := [],
                    NetArpWaitPacketIP := 0, NetArpWaitReplyIP := 0, NetTryCount := 1\<rparr>;
          e \<leftarrow> eth_set_current (eth_halt drv (net_eth s));
          (r, e) \<leftarrow> eth_init drv e;
          let s = s\<lparr>net_eth := e\<rparr>;
          if r < 0 then Some (Some (-1), net_halt drv s)
          else do { (r, s) \<leftarrow> net_restart drv nfs protocol s;
                    case r of None \<Rightarrow> net_iterations drv nfs protocol evs s | Some v \<Rightarrow> Some (Some v, s) } }"

end
