(* ===== verification/NetProps.thy ===== *)
theory NetProps
  imports Net
begin

text \<open>
  Laws of the network core: the headers that are built pass the checks of the receiver, a datagram sent arrives at the
  handler of the peer, and a packet that waits for an ARP reply leaves with the address of the reply.
\<close>

subsection \<open>The Internet checksum\<close>

primrec halfsum :: "byte list \<Rightarrow> nat \<Rightarrow> nat" where
  "halfsum p 0 = 0"
| "halfsum p (Suc n) = unat (get16 p 0) + halfsum (drop 2 p) n"

definition fold16 :: "nat \<Rightarrow> nat" where
  "fold16 x = x mod 65536 + x div 65536"

lemmas u16_unat_less [simp] = u16_less

lemma halfsum_bound: "halfsum p n \<le> n * 65535"
proof (induction n arbitrary: p)
  case (Suc n)
  have "unat (get16 p 0) \<le> 65535" using u16_unat_less [of "get16 p 0"] by linarith
  then show ?case using Suc [of "drop 2 p"] by simp
qed simp

lemma cksum_loop_halfsum:
  "unat x + halfsum p n < 2 ^ 32 \<Longrightarrow> unat (cksum_loop p n x) = unat x + halfsum p n"
proof (induction n arbitrary: p x)
  case (Suc n)
  have "unat (x + ucast (get16 p 0)) = unat x + unat (get16 p 0)"
    using Suc.prems u16_unat_less [of "get16 p 0"] by (subst unat_add_le) (simp_all add: unat_ucast_mod)
  then show ?case using Suc.IH [of "x + ucast (get16 p 0)" "drop 2 p"] Suc.prems by simp
qed simp

lemma unat_fold:
  fixes x :: u32
  shows "unat ((x AND 0xffff) + drop_bit 16 x) = fold16 (unat x)"
proof -
  have "x AND 0xffff = take_bit 16 x" unfolding take_bit_eq_mask by (simp add: mask_eq_exp_minus_1)
  then have l: "unat (x AND 0xffff) = unat x mod 65536" by (simp add: take_bit_eq_mod unat_mod)
  have "unat x div 65536 < 65536" using u32_less [of x] by (simp add: less_mult_imp_div_less)
  then show ?thesis using l by (subst unat_add_le) (simp_all add: unat_drop_bit fold16_def)
qed

lemma fold16_cases: obtains q r where "x = q * 65536 + r" "r < 65536" "fold16 x = r + q"
proof
  show "x = x div 65536 * 65536 + x mod 65536" by simp
qed (simp_all add: fold16_def)

lemma fold16_small: "y \<le> 131070 \<Longrightarrow> fold16 y \<le> 65535"
  by (rule fold16_cases [of y]) linarith

lemma fold16_le: "x < 2 ^ 32 \<Longrightarrow> fold16 (fold16 x) \<le> 65535"
  by (rule fold16_cases [of x], rule fold16_small) simp

lemma fold16_mod: "fold16 x mod 65535 = x mod 65535"
proof (rule fold16_cases [of x])
  fix q r assume "x = q * 65536 + r" "fold16 x = r + q"
  then have "x = fold16 x + 65535 * q" by simp
  then show ?thesis by (metis mod_mult_self2)
qed

lemma fold16_pos: "0 < x \<Longrightarrow> 0 < fold16 x"
  by (rule fold16_cases [of x]) auto

lemma NetCksum_fold:
  assumes "n \<le> 65536" shows "unat (NetCksum p n) = fold16 (fold16 (halfsum p n))"
proof -
  have b: "halfsum p n < 2 ^ 32" using halfsum_bound [of p n] assms by simp
  then have u: "unat (cksum_loop p n 0) = halfsum p n" using cksum_loop_halfsum [of 0 p n] by simp
  have "unat (w AND 0xffff :: u32) = unat w" if "unat w \<le> 65535" for w :: u32
  proof -
    have "w AND 0xffff = take_bit 16 w" unfolding take_bit_eq_mask by (simp add: mask_eq_exp_minus_1)
    then show ?thesis using that by (simp add: take_bit_eq_mod unat_mod)
  qed
  then show ?thesis unfolding NetCksum_def Let_def using fold16_le [OF b] by (simp add: unat_fold u)
qed

lemma get16_be16 [simp]: "get16 (be16_bytes w @ p) 0 = w"
  by (simp add: get16_def be16_bytes_def be16_val_bytes)

lemma drop2_be16 [simp]: "drop 2 (be16_bytes w @ p) = p"
  by simp

lemma be32_split: "be32_bytes w = be16_bytes (ucast (drop_bit 16 w)) @ be16_bytes (ucast w)"
proof -
  have "(ucast (drop_bit 24 w) :: byte) = ucast (drop_bit 8 (ucast (drop_bit 16 w) :: u16))"
    "(ucast (drop_bit 16 w) :: byte) = ucast (ucast (drop_bit 16 w) :: u16)"
    "(ucast (drop_bit 8 w) :: byte) = ucast (drop_bit 8 (ucast w :: u16))"
    "(ucast w :: byte) = ucast (ucast w :: u16)"
    by (rule bit_word_eqI; auto simp: bit_simps)+
  then show ?thesis by (simp add: be32_bytes_def be16_bytes_def)
qed

lemma be16_pair: "[a, b] = be16_bytes (be16_val a b)"
  by (simp add: be16_bytes_val)

text \<open>The header as ten halfwords, the checksum the sixth, and the four of the UDP header.\<close>

lemma ip_header_words:
  "\<exists>ws us. length ws = 9 \<and> length us = 4 \<and> (\<forall>xsum. ip_header src dest dport sport len ident xsum =
     concat (map be16_bytes (take 5 ws @ [xsum] @ drop 5 ws @ us)))"
proof -
  let ?ws = "[be16_val 0x45 0, of_nat (IP_HDR_SIZE + len), ident, 0x4000, be16_val 255 17,
    ucast (drop_bit 16 src), ucast src, ucast (drop_bit 16 dest), ucast dest]"
  let ?us = "[sport, dport, of_nat (8 + len), 0 :: u16]"
  have "ip_header src dest dport sport len ident xsum = concat (map be16_bytes (take 5 ?ws @ [xsum] @ drop 5 ?ws @ ?us))" for xsum
    by (simp add: ip_header_def be32_split be16_bytes_val)
  moreover have "length ?ws = 9" "length ?us = 4" by simp_all
  ultimately show ?thesis by blast
qed

lemma halfsum_words:
  "halfsum (concat (map be16_bytes (ws @ us))) (length ws) = sum_list (map unat ws)"
  by (induction ws) simp_all

lemma halfsum_header:
  "halfsum (ip_header src dest dport sport len ident xsum) 10 =
     unat xsum + halfsum (ip_header src dest dport sport len ident 0) 10"
proof -
  obtain ws us where w: "length ws = 9" "length us = (4 :: nat)"
    "\<And>xsum. ip_header src dest dport sport len ident xsum = concat (map be16_bytes ((take 5 ws @ [xsum] @ drop 5 ws) @ us))"
    using ip_header_words [of src dest dport sport len ident] by auto
  have "halfsum (concat (map be16_bytes ((take 5 ws @ [x] @ drop 5 ws) @ us))) 10 =
      unat x + (sum_list (map unat (take 5 ws)) + sum_list (map unat (drop 5 ws)))" for x
    using halfsum_words [of "take 5 ws @ [x] @ drop 5 ws" us] w(1) by simp
  from this [of xsum] this [of 0] show ?thesis unfolding w(3) by simp
qed

lemma unat_NOT_u16: "unat (NOT d :: u16) = 65535 - unat d"
proof -
  have "unat (d + NOT d) = (unat d + unat (NOT d)) mod 2 ^ LENGTH(16)" by (rule unat_word_ariths(1))
  moreover have "unat (d + NOT d) = 65535" 
    by (simp add: unsigned_minus_1_eq_mask mask_eq_exp_minus_1)
  ultimately have "(unat d + unat (NOT d)) mod 65536 = 65535" by simp
  moreover have "unat d \<le> 65535" "unat (NOT d) \<le> 65535" using u16_unat_less [of d] u16_unat_less [of "NOT d"] by linarith+
  ultimately show ?thesis by (cases "unat d + unat (NOT d) < 65536") (auto simp: le_mod_geq)
qed

text \<open>A header that \<^verbatim>\<open>NetSetIP\<close> builds always passes \<^verbatim>\<open>NetCksumOk\<close>.\<close>

lemma NetSetIP_cksum: "NetCksumOk (fst (NetSetIP dest dport sport len s)) 10"
proof -
  let ?h = "ip_header (NetOurIP s) dest dport sport len (ucast (NetIPID s))"
  let ?S = "halfsum (?h 0) 10" and ?c = "NetCksum (?h 0) 10"
  have b: "?S < 2 ^ 32" using halfsum_bound [of "?h 0" 10] by simp
  have c: "unat ?c = fold16 (fold16 ?S)" "unat ?c \<le> 65535" using NetCksum_fold [of 10 "?h 0"] fold16_le [OF b] by simp_all
  have n: "unat (ucast (NOT ?c) :: u16) = 65535 - unat ?c"
  proof -
    have "ucast (NOT ?c) = (NOT (ucast ?c) :: u16)" by (rule bit_word_eqI) (auto simp: bit_simps)
    moreover have "unat (ucast ?c :: u16) = unat ?c" using c(2) by (simp add: unat_ucast_mod)
    ultimately show ?thesis using unat_NOT_u16 [of "ucast ?c"] by simp
  qed
  have sum: "halfsum (?h (ucast (NOT ?c))) 10 = 65535 - unat ?c + ?S" unfolding halfsum_header [of _ _ _ _ _ _ "ucast _"] n ..
  let ?T = "65535 - unat ?c + ?S"
  have "get16 (?h 0) 0 = be16_val 0x45 0" by (simp add: ip_header_def get16_def)
  moreover have "unat (be16_val 0x45 0) = 0x4500" by code_simp
  moreover have "?S = unat (get16 (?h 0) 0) + halfsum (drop 2 (?h 0)) 9" using halfsum.simps(2) [of "?h 0" 9] by simp
  ultimately have S0: "0 < ?S" by simp
  have "?T mod 65535 = 0"
  proof -
    have "unat ?c mod 65535 = ?S mod 65535" unfolding c(1) fold16_mod ..
    then have "(65535 - unat ?c + ?S) mod 65535 = (65535 - unat ?c + unat ?c) mod 65535"
      by (intro mod_add_cong refl) simp
    then show ?thesis using c(2) by simp
  qed
  then have "fold16 (fold16 ?T) mod 65535 = 0" by (simp add: fold16_mod)
  moreover have "0 < fold16 (fold16 ?T)" using S0 by (intro fold16_pos) simp
  moreover have "fold16 (fold16 ?T) \<le> 65535" using b c(2) halfsum_bound [of "?h 0" 10] by (intro fold16_le) simp
  ultimately have f: "fold16 (fold16 ?T) = 65535" by (metis dual_order.order_iff_strict mod_less not_less_zero)
  have "unat (NetCksum (?h (ucast (NOT ?c))) 10) = 65535"
    using NetCksum_fold [of 10 "?h (ucast (NOT ?c))"] f unfolding sum by simp
  then have "NetCksum (?h (ucast (NOT ?c))) 10 = 65535" using word_eq_of_natI [of _ 65535] by simp
  then show ?thesis by (simp add: NetSetIP_def NetCksumOk_def Let_def)
qed


subsection \<open>Datagrams\<close>

text \<open>Everything fits an Ethernet frame and no VLAN is configured.\<close>

definition untagged :: "('w, 'z) net_scheme \<Rightarrow> bool" where
  "untagged s \<longleftrightarrow> myvlan (NetOurVLAN s) AND VLAN_IDMASK = VLAN_NONE"

definition udp_frame :: "byte list \<Rightarrow> u32 \<Rightarrow> u16 \<Rightarrow> u16 \<Rightarrow> byte list \<Rightarrow> ('w, 'z) net_scheme \<Rightarrow> byte list" where
  "udp_frame ether dest dport sport payload s =
     NetSetEther ether PROT_IP s @ fst (NetSetIP dest dport sport (length payload) s) @ payload"

lemma be16_val_lit [simp]: "be16_val 8 2048 = 0x0800" "be16_val 8 2054 = 0x0806" "be16_val 64 16384 = 0x4000"
  "be16_val 0 1 = 1"
  by code_simp+

lemma length_ip_header [simp]: "length (ip_header src dest dport sport len ident xsum) = 28"
  by (simp add: ip_header_def)

lemma NetCksum_append: "2 * n \<le> length p \<Longrightarrow> NetCksum (p @ q) n = NetCksum p n"
proof -
  have "2 * n \<le> length p \<Longrightarrow> cksum_loop (p @ q) n x = cksum_loop p n x" for x
  proof (induction n arbitrary: p x)
    case (Suc n)
    then have "get16 (p @ q) 0 = get16 p 0" by (cases p) (auto simp: get16_def nth_append)
    then show ?case using Suc by simp
  qed simp
  then show "2 * n \<le> length p \<Longrightarrow> ?thesis" by (simp add: NetCksum_def)
qed

lemma ip_header_fields:
  assumes "h = ip_header src dest dport sport len ident xsum" "len \<le> 65507"
  shows "unat (get16 (h @ p) 2) = 28 + len" "(h @ p) ! 0 = 0x45" "NetReadIP (h @ p) 16 = dest" "NetReadIP (h @ p) 12 = src"
    "get16 (h @ p) 6 = 0x4000" "(h @ p) ! 9 = 17" "get16 (h @ p) 20 = sport" "get16 (h @ p) 22 = dport"
    "get16 (h @ p) 24 = of_nat (8 + len)"
  using assms(2) unfolding assms(1)
  by (simp_all add: ip_header_def get16_def NetReadIP_def be16_bytes_def be32_bytes_def be16_val_bytes be32_val_bytes
      unat_of_nat del: of_nat_add of_nat_Suc)

lemma receive_udp_frame:
  fixes dport sport :: u16
  assumes "length payload \<le> 65507" and "length ether = 6" and "length (NetOurEther s) = 6"
    and "untagged s" and "untagged r" and "NetOurIP r = 0 \<or> NetOurIP r = dest \<or> dest = 0xFFFFFFFF"
  defines "frame \<equiv> udp_frame ether dest dport sport payload s"
  shows "NetReceive drv handle frame r =
    handle (packetHandler r) payload dport sport (of_nat (length payload)) (r\<lparr>NetRxPacket := frame\<rparr>)"
proof -
  obtain h where h: "h = ip_header (NetOurIP s) dest dport sport (length payload) (ucast (NetIPID s))
      (ucast (NOT (NetCksum (ip_header (NetOurIP s) dest dport sport (length payload) (ucast (NetIPID s)) 0) 10)))"
    by blast
  have fst: "fst (NetSetIP dest dport sport (length payload) s) = h" by (simp add: NetSetIP_def h Let_def)
  have lh: "length h = 28" by (simp add: h)
  have e: "NetSetEther ether PROT_IP s = ether @ NetOurEther s @ be16_bytes PROT_IP"
    using assms(4) by (simp add: NetSetEther_def untagged_def Let_def)
  have split: "ether_split frame r' = Some (PROT_IP, VLAN_NONE, h @ payload)" for r' :: "('x, 'y) net_scheme"
  proof -
    let ?f = "ether @ NetOurEther s @ be16_bytes PROT_IP @ h @ payload"
    have "get16 ?f 12 = PROT_IP" using assms(2,3)
      by (simp add: get16_def nth_append be16_bytes_def be16_val_bytes)
    moreover have "drop 14 ?f = h @ payload" using assms(2,3) by simp
    ultimately show ?thesis unfolding frame_def udp_frame_def fst e ether_split_def using assms(2,3) lh
      by simp
  qed
  have ck: "NetCksumOk (h @ payload) 10"
    using NetSetIP_cksum [of dest dport sport "length payload" s] NetCksum_append [of 10 h payload] lh
    unfolding fst NetCksumOk_def by simp
  note f = ip_header_fields [OF h assms(1), of payload]
  have len: "(ucast (of_nat (8 + length payload) :: u16) :: u32) - 8 = of_nat (length payload)"
  proof -
    have "(ucast (of_nat (8 + length payload) :: u16) :: u32) = of_nat (8 + length payload)"
      by (rule word_eq_of_natI) (use assms(1) in \<open>simp add: unat_ucast_mod unat_of_nat del: of_nat_add\<close>)
    then show ?thesis by simp
  qed
  have "receive_ip handle (h @ payload) (r\<lparr>NetRxPacket := frame\<rparr>) =
      handle (packetHandler r) payload dport sport (of_nat (length payload)) (r\<lparr>NetRxPacket := frame\<rparr>)"
    unfolding receive_ip_def f(1-3,5-) len using assms(6) lh ck by auto
  moreover have "vlan_match VLAN_NONE (r\<lparr>NetRxPacket := frame\<rparr>)" using assms(5) by (simp add: vlan_match_def untagged_def Let_def)
  ultimately show ?thesis unfolding NetReceive_def split Let_def by simp
qed

text \<open>C23: a datagram that \<^verbatim>\<open>NetSendUDPPacket\<close> sends to a known address, or as a broadcast, passes all checks of
  \<^verbatim>\<open>NetReceive\<close> on the machine with that IP address, and its handler gets exactly the payload, the ports and the
  length.\<close>

theorem udp_send_receive:
  assumes "length payload \<le> 65507" and "length (NetServerEther s) = 6" and "length (NetOurEther s) = 6"
    and "untagged s" and "untagged r" and "dest' = (if dest = 0 then 0xFFFFFFFF else dest)"
    and "dest' = 0xFFFFFFFF \<or> NetServerEther s \<noteq> replicate 6 0"
    and "NetOurIP r = 0 \<or> NetOurIP r = dest' \<or> dest' = 0xFFFFFFFF"
  shows "\<exists>frame. NetSendUDPPacket drv NetServerEther_p dest dport sport payload s =
      (0, net_send drv frame (s\<lparr>NetIPID := NetIPID s + 1\<rparr>)) \<and>
    NetReceive drv' handle frame r =
      handle (packetHandler r) payload dport sport (of_nat (length payload)) (r\<lparr>NetRxPacket := frame\<rparr>)"
proof -
  let ?p = "if dest' = 0xFFFFFFFF then NetBcastAddr_p else NetServerEther_p"
  have six: "length (ether_of ?p s) = 6" using assms(2) by (simp add: ether_of_def)
  have nz: "ether_of ?p s \<noteq> replicate 6 0" using assms(7) by (auto simp: ether_of_def)
  have "NetSendUDPPacket drv NetServerEther_p dest dport sport payload s =
      (0, net_send drv (udp_frame (ether_of ?p s) dest' dport sport payload s) (s\<lparr>NetIPID := NetIPID s + 1\<rparr>))"
    unfolding NetSendUDPPacket_def Let_def assms(6) [symmetric] using nz
    by (simp add: udp_frame_def NetSetIP_def Let_def)
  then show ?thesis using receive_udp_frame [OF assms(1) six assms(3,4,5,8)] by blast
qed

lemma replicate_6: "replicate 6 x = [x, x, x, x, x, x]"
  by (simp add: numeral_eq_Suc)

definition sample_net :: "u32 \<Rightarrow> byte list \<Rightarrow> byte list \<Rightarrow> nat net" where
  "sample_net ip our server = \<lparr>net_eth = sample_eth, NetOurIP = ip, NetServerIP = 0, NetOurSubnetMask = 0xFFFFFF00,
     NetOurGatewayIP = 0, NetOurEther = our, NetServerEther = server, NetIPID = 0, NetOurVLAN = -1, NetOurNativeVLAN = -1,
     NetState = NETLOOP_CONTINUE, NetTryCount = 1, NetRestarted = False, NetDevExists = True, NetBootFileXferSize = 0,
     NetRxPacket = [], packetHandler = TftpHandler_f, timeHandler = None, timeStart = 0, timeDelta = 0, NetArpWaitPacketIP = 0,
     NetArpWaitReplyIP = 0, NetArpWaitPacketMAC = None, NetArpWaitTxPacket = [], NetArpWaitTimerStart = 0, NetArpWaitTry = 0,
     net_env_changed_id = 0, now = 0\<rparr>"

lemma sample_net_simps [simp]:
  "NetOurIP (sample_net ip our server) = ip" "NetOurEther (sample_net ip our server) = our"
  "NetServerEther (sample_net ip our server) = server" "packetHandler (sample_net ip our server) = TftpHandler_f"
  "untagged (sample_net ip our server)" "NetIPID (sample_net ip our server) = 0"
  "NetOurSubnetMask (sample_net ip our server) = 0xFFFFFF00" "NetArpWaitPacketMAC (sample_net ip our server) = None"
  by (simp_all add: sample_net_def untagged_def myvlan_def VLAN_NONE_def VLAN_IDMASK_def)

theorem udp_send_receive_witness:
  "\<exists>frame. NetSendUDPPacket sample_driver NetServerEther_p 0x0A000002 69 1024 [1, 2, 3]
      (sample_net 0x0A000001 [0, 0, 0x5b, 0, 0, 1] [0, 0, 0x5b, 0, 0, 2]) =
      (0, net_send sample_driver frame ((sample_net 0x0A000001 [0, 0, 0x5b, 0, 0, 1] [0, 0, 0x5b, 0, 0, 2])\<lparr>NetIPID := 1\<rparr>)) \<and>
    NetReceive sample_driver (\<lambda>f p dport sport len r. if p = [1, 2, 3] \<and> dport = 69 \<and> len = 3 then Some r else None) frame
      (sample_net 0x0A000002 [0, 0, 0x5b, 0, 0, 2] []) =
        Some ((sample_net 0x0A000002 [0, 0, 0x5b, 0, 0, 2] [])\<lparr>NetRxPacket := frame\<rparr>)"
  using udp_send_receive [of "[1, 2, 3]" "sample_net 0x0A000001 [0, 0, 0x5b, 0, 0, 1] [0, 0, 0x5b, 0, 0, 2]"
      "sample_net 0x0A000002 [0, 0, 0x5b, 0, 0, 2] []" "0x0A000002" "0x0A000002" sample_driver 69 1024 sample_driver
      "\<lambda>f p dport sport len r. if p = [1, 2, 3] \<and> dport = 69 \<and> len = 3 then Some r else None"]
  by (simp add: replicate_6)

subsection \<open>Address resolution\<close>

definition arp_frame :: "byte list \<Rightarrow> byte list \<Rightarrow> byte list \<Rightarrow> byte list" where
  "arp_frame dst src body = dst @ src @ be16_bytes PROT_ARP @ body"

lemma length_6E: assumes "length a = 6" obtains a0 a1 a2 a3 a4 a5 where "a = [a0, a1, a2, a3, a4, a5]"
  using assms by (auto simp: length_Suc_conv numeral_eq_Suc)

lemma arp_body_fields:
  fixes spa tpa :: u32 and opc :: u16
  assumes "length sha = 6" "length tha = 6"
  defines "b \<equiv> arp_body opc sha spa tha tpa"
  shows "get16 b 0 = 1" "get16 b 2 = PROT_IP" "b ! 4 = 6" "b ! 5 = 4" "get16 b 6 = opc" "NetReadIP b 14 = spa"
    "NetReadIP b 24 = tpa" "take 6 (drop 8 b) = sha"
proof -
  obtain h0 h1 h2 h3 h4 h5 where sha: "sha = [h0, h1, h2, h3, h4, h5]" using assms(1) by (rule length_6E)
  obtain t0 t1 t2 t3 t4 t5 where tha: "tha = [t0, t1, t2, t3, t4, t5]" using assms(2) by (rule length_6E)
  note defs = b_def arp_body_def sha tha get16_def NetReadIP_def be16_bytes_def be32_bytes_def
  show "get16 b 0 = 1" "get16 b 2 = PROT_IP" "b ! 4 = 6" "b ! 5 = 4" "take 6 (drop 8 b) = sha" by (simp_all add: defs)
  show "get16 b 6 = opc" by (simp add: defs be16_val_bytes)
  show "NetReadIP b 14 = spa" "NetReadIP b 24 = tpa" by (simp_all add: defs be32_val_bytes)
qed

lemma NetReceive_arp:
  fixes opc :: u16 and spa tpa :: u32
  assumes "length dst = 6" "length src = 6" "untagged r" "length sha = 6" "length tha = 6"
  defines "rx \<equiv> r\<lparr>NetRxPacket := arp_frame dst src (arp_body opc sha spa tha tpa)\<rparr>"
  shows "NetReceive drv handle (arp_frame dst src (arp_body opc sha spa tha tpa)) r =
    (if NetOurIP r = 0 \<or> tpa \<noteq> NetOurIP r then Some rx
     else if opc = 1 then arp_answer drv 14 (arp_frame dst src (arp_body opc sha spa tha tpa)) rx
     else if opc = 2 then Some (arp_reply drv (arp_body opc sha spa tha tpa) rx)
     else Some rx)"
proof -
  let ?b = "arp_body opc sha spa tha tpa"
  have split: "ether_split (arp_frame dst src ?b) rx = Some (PROT_ARP, VLAN_NONE, ?b)"
    using assms(1,2) by (simp add: ether_split_def arp_frame_def get16_def nth_append be16_bytes_def arp_body_def)
  have vm: "vlan_match VLAN_NONE rx" using assms(3) by (simp add: rx_def vlan_match_def untagged_def Let_def)
  have len: "length ?b = 28" "length (arp_frame dst src ?b) = 42" using assms by (simp_all add: arp_body_def arp_frame_def)
  note f = arp_body_fields [OF assms(4,5), of opc spa tpa]
  have "NetOurIP rx = NetOurIP r" by (simp add: rx_def)
  then have "receive_arp drv (arp_frame dst src ?b) ?b rx = (if NetOurIP r = 0 \<or> tpa \<noteq> NetOurIP r then Some rx
     else if opc = 1 then arp_answer drv 14 (arp_frame dst src ?b) rx
     else if opc = 2 then Some (arp_reply drv ?b rx)
     else Some rx)"
    unfolding receive_arp_def f(1-5,7) len by simp
  moreover have "NetReceive drv handle (arp_frame dst src ?b) r = receive_arp drv (arp_frame dst src ?b) ?b rx"
    unfolding NetReceive_def Let_def rx_def [symmetric] split using vm by simp
  ultimately show ?thesis by simp
qed

lemma arp_answer_frame:
  assumes "length dst = 6" "length src = 6" "untagged r" "length sha = 6" "length tha = 6" "length (NetOurEther r) = 6"
  shows "arp_answer drv 14 (arp_frame dst src (arp_body 1 sha spa tha tpa)) r =
    Some (net_send drv (arp_frame src (NetOurEther r) (arp_body 2 (NetOurEther r) (NetOurIP r) sha spa)) r)"
proof -
  have e: "NetSetEther a PROT_ARP r = a @ NetOurEther r @ be16_bytes PROT_ARP" for a
    using assms(3) by (simp add: NetSetEther_def untagged_def Let_def)
  obtain s0 s1 s2 s3 s4 s5 where src: "src = [s0, s1, s2, s3, s4, s5]" using assms(2) by (rule length_6E)
  obtain d0 d1 d2 d3 d4 d5 where dst: "dst = [d0, d1, d2, d3, d4, d5]" using assms(1) by (rule length_6E)
  obtain h0 h1 h2 h3 h4 h5 where sha: "sha = [h0, h1, h2, h3, h4, h5]" using assms(4) by (rule length_6E)
  obtain t0 t1 t2 t3 t4 t5 where tha: "tha = [t0, t1, t2, t3, t4, t5]" using assms(5) by (rule length_6E)
  obtain o0 o1 o2 o3 o4 o5 where our: "NetOurEther r = [o0, o1, o2, o3, o4, o5]" using assms(6) by (rule length_6E)
  show ?thesis
    by (simp add: arp_answer_def e arp_frame_def arp_body_def src dst sha tha our put_def be16_bytes_def be32_bytes_def Let_def)
qed

lemma net_send_done:
  "(net_send drv p (s\<lparr>NetArpWaitTxPacket := x\<rparr>))\<lparr>NetArpWaitPacketIP := a, NetArpWaitTxPacket := b, NetArpWaitPacketMAC := c\<rparr> =
     net_send drv p (s\<lparr>NetArpWaitPacketIP := a, NetArpWaitTxPacket := b, NetArpWaitPacketMAC := c\<rparr>)"
  by (cases s) (simp add: net_send_def)

text \<open>The packet that waits, and the state of the sender while it waits.\<close>

lemma NetSendUDPPacket_waits:
  assumes "NetServerEther s = replicate 6 0" and "dest \<noteq> 0" and "dest \<noteq> 0xFFFFFFFF" and "untagged s"
    and "target = (if dest AND NetOurSubnetMask s \<noteq> NetOurIP s AND NetOurSubnetMask s \<and> NetOurGatewayIP s \<noteq> 0
                   then NetOurGatewayIP s else dest)"
  shows "NetSendUDPPacket drv NetServerEther_p dest dport sport payload s =
    (1, net_send drv (arp_frame NetBcastAddr (NetOurEther s) (arp_body 1 (NetOurEther s) (NetOurIP s) (replicate 6 0) target))
       (s\<lparr>NetArpWaitPacketIP := dest, NetArpWaitPacketMAC := Some NetServerEther_p, NetIPID := NetIPID s + 1,
          NetArpWaitTxPacket := udp_frame (replicate 6 0) dest dport sport payload s,
          NetArpWaitTry := 1, NetArpWaitTimerStart := now s, NetArpWaitReplyIP := target\<rparr>))"
  using assms(1-3) assms(4) [unfolded untagged_def] unfolding assms(5)
  by (simp add: NetSendUDPPacket_def ether_of_def ArpRequest_def NetSetIP_def udp_frame_def NetSetEther_def
      arp_frame_def Let_def)

text \<open>C22: address resolution end to end. A datagram to a server whose hardware address is unknown is kept, and an ARP request
  for the server (or the gateway, when the server is on another network) is broadcast. The machine with that address
  answers it, and on the answer the datagram leaves with the answering machine's hardware address, which is remembered;
  nothing waits any more.\<close>

theorem arp_resolution:
  assumes "NetServerEther s = replicate 6 0" and "dest \<noteq> 0" and "dest \<noteq> 0xFFFFFFFF" and "untagged s" and "untagged r"
    and "length (NetOurEther s) = 6" and "length (NetOurEther r) = 6" and "NetOurIP s \<noteq> 0" and "NetOurIP r \<noteq> 0"
    and "NetOurIP r = (if dest AND NetOurSubnetMask s \<noteq> NetOurIP s AND NetOurSubnetMask s \<and> NetOurGatewayIP s \<noteq> 0
                       then NetOurGatewayIP s else dest)"
  shows "\<exists>request reply w. NetSendUDPPacket drv NetServerEther_p dest dport sport payload s = (1, net_send drv request w) \<and>
    NetReceive drv' handle' request r = Some (net_send drv' reply (r\<lparr>NetRxPacket := request\<rparr>)) \<and>
    (\<forall>t. \<exists>t'. NetReceive drv handle reply (w\<lparr>net_eth := t\<rparr>) =
       Some (net_send drv (udp_frame (NetOurEther r) dest dport sport payload s) t') \<and> net_eth t' = t \<and>
       NetServerEther t' = NetOurEther r \<and> NetArpWaitPacketIP t' = 0 \<and> NetArpWaitPacketMAC t' = None)"
proof -
  let ?q = "arp_frame NetBcastAddr (NetOurEther s) (arp_body 1 (NetOurEther s) (NetOurIP s) (replicate 6 0) (NetOurIP r))"
  let ?a = "arp_frame (NetOurEther s) (NetOurEther r) (arp_body 2 (NetOurEther r) (NetOurIP r) (NetOurEther s) (NetOurIP s))"
  let ?u = "udp_frame (replicate 6 0) dest dport sport payload s"
  let ?w = "s\<lparr>NetArpWaitPacketIP := dest, NetArpWaitPacketMAC := Some NetServerEther_p, NetIPID := NetIPID s + 1,
    NetArpWaitTxPacket := ?u, NetArpWaitTry := 1, NetArpWaitTimerStart := now s, NetArpWaitReplyIP := NetOurIP r\<rparr>"
  have six: "length (replicate 6 x) = 6" for x :: byte by simp
  have 1: "NetSendUDPPacket drv NetServerEther_p dest dport sport payload s = (1, net_send drv ?q ?w)"
    by (rule NetSendUDPPacket_waits [OF assms(1-4,10)])
  have 2: "NetReceive drv' handle' ?q r = Some (net_send drv' ?a (r\<lparr>NetRxPacket := ?q\<rparr>))"
    using assms(9) NetReceive_arp [OF six assms(6,5,6) six]
      arp_answer_frame [of NetBcastAddr "NetOurEther s" "r\<lparr>NetRxPacket := ?q\<rparr>", OF six assms(6) _ assms(6) six] assms(5,7)
    by (simp add: untagged_def)
  have u: "NetOurEther r @ drop 6 ?u = udp_frame (NetOurEther r) dest dport sport payload s"
    using assms(4) by (simp add: udp_frame_def NetSetEther_def untagged_def Let_def)
  have 3: "\<exists>t'. NetReceive drv handle ?a (?w\<lparr>net_eth := t\<rparr>) =
       Some (net_send drv (udp_frame (NetOurEther r) dest dport sport payload s) t') \<and> net_eth t' = t \<and>
       NetServerEther t' = NetOurEther r \<and> NetArpWaitPacketIP t' = 0 \<and> NetArpWaitPacketMAC t' = None" for t
  proof -
    have un: "untagged (?w\<lparr>net_eth := t\<rparr>)" using assms(4) by (simp add: untagged_def)
    let ?t = "?w\<lparr>net_eth := t, NetRxPacket := ?a\<rparr>"
    have "arp_reply drv (arp_body 2 (NetOurEther r) (NetOurIP r) (NetOurEther s) (NetOurIP s)) ?t =
        net_send drv (udp_frame (NetOurEther r) dest dport sport payload s)
          (?t\<lparr>NetServerEther := NetOurEther r, NetArpWaitPacketIP := 0, NetArpWaitTxPacket := [], NetArpWaitPacketMAC := None\<rparr>)"
      using assms(2) by (simp add: arp_reply_def arp_body_fields [OF assms(7,6)] set_ether_def ether_of_def u net_send_done Let_def)
    then show ?thesis using NetReceive_arp [OF assms(6,7) un assms(7,6), of drv handle 2 "NetOurIP r" "NetOurIP s"] assms(8)
      by (intro exI [of _ "?t\<lparr>NetServerEther := NetOurEther r, NetArpWaitPacketIP := 0, NetArpWaitTxPacket := [],
            NetArpWaitPacketMAC := None\<rparr>"]) simp
  qed
  from 1 2 3 show ?thesis by blast
qed

theorem arp_resolution_witness:
  "\<exists>request w. NetSendUDPPacket sample_driver NetServerEther_p 0x0A000002 69 1024 [1, 2, 3]
      (sample_net 0x0A000001 [0, 0, 0x5b, 0, 0, 1] [0, 0, 0, 0, 0, 0]) = (1, net_send sample_driver request w)"
  using arp_resolution [of "sample_net 0x0A000001 [0, 0, 0x5b, 0, 0, 1] [0, 0, 0, 0, 0, 0]" "0x0A000002"
      "sample_net 0x0A000002 [0, 0, 0x5b, 0, 0, 2] []" sample_driver 69 1024 "[1, 2, 3]" sample_driver "\<lambda>f p d e l r. None"
      "\<lambda>f p d e l r. None"]
  by (auto simp: replicate_6)

end
