(* ===== verification/TftpProps.thy ===== *)
theory TftpProps
  imports Tftp NetProps
begin

text \<open>
  The TFTP transfer as a state machine: the steps are the packets and timer events the client may see, in any order, and
  every reachable state has stored exactly the blocks received so far.
\<close>

subsection \<open>What sending leaves unchanged\<close>

lemmas send_defs = NetSendUDPPacket_def NetSetIP_def ArpRequest_def net_send_def Let_def

lemma eth_send_env [simp]:
  "eth_env (snd (eth_send drv p e)) = eth_env e"
  by (simp add: eth_send_def split: option.split prod.split)

lemma send_net [simp]:
  "net_env (snd (NetSendUDPPacket drv p d dp sp pl s)) = net_env s"
  "NetState (snd (NetSendUDPPacket drv p d dp sp pl s)) = NetState s"
  "NetBootFileXferSize (snd (NetSendUDPPacket drv p d dp sp pl s)) = NetBootFileXferSize s"
  by (simp_all add: send_defs)

lemma send_tftp [simp]:
  fixes s :: "('w, 'z) tftp_scheme"
  shows "TftpState (snd (NetSendUDPPacket drv p d dp sp pl s)) = TftpState s"
    "TftpBlkSize (snd (NetSendUDPPacket drv p d dp sp pl s)) = TftpBlkSize s"
    "TftpLastBlock (snd (NetSendUDPPacket drv p d dp sp pl s)) = TftpLastBlock s"
    "TftpBlockWrapOffset (snd (NetSendUDPPacket drv p d dp sp pl s)) = TftpBlockWrapOffset s"
    "TftpServerPort (snd (NetSendUDPPacket drv p d dp sp pl s)) = TftpServerPort s"
    "TftpOurPort (snd (NetSendUDPPacket drv p d dp sp pl s)) = TftpOurPort s"
    "net_mem (snd (NetSendUDPPacket drv p d dp sp pl s)) = net_mem s"
  by (simp_all add: send_defs)

subsection \<open>The server's file\<close>

lemma of_nat_less_u32: "m < 2 ^ 32 \<Longrightarrow> n < 2 ^ 32 \<Longrightarrow> (of_nat m :: u32) < of_nat n \<longleftrightarrow> m < n"
  by (simp add: word_less_nat_alt unat_of_nat_u32)

definition blk :: "byte list \<Rightarrow> nat \<Rightarrow> nat \<Rightarrow> byte list" where
  "blk f b k = take b (drop ((k - 1) * b) f)"

text \<open>The last block is the first one shorter than the block size, possibly empty.\<close>

definition nblocks :: "byte list \<Rightarrow> nat \<Rightarrow> nat" where
  "nblocks f b = length f div b + 1"

definition data_pkt :: "byte list \<Rightarrow> nat \<Rightarrow> nat \<Rightarrow> byte list" where
  "data_pkt f b k = be16_bytes 3 @ be16_bytes (of_nat k) @ blk f b k"

lemma blk_bounds:
  assumes "0 < b" "k < nblocks f b"
  shows "k * b \<le> length f" "take (k * b) f @ blk f b (Suc k) = take (Suc k * b) f"
    "length (blk f b (Suc k)) = min b (length f - k * b)" "length (blk f b (Suc k)) < b \<longleftrightarrow> Suc k = nblocks f b"
proof -
  have "k \<le> length f div b" using assms(2) by (simp add: nblocks_def)
  then show l: "k * b \<le> length f" using div_times_less_eq_dividend le_trans mult_le_mono1 by metis
  show "take (k * b) f @ blk f b (Suc k) = take (Suc k * b) f"
    using take_add [of "k * b" b f] by (simp add: blk_def add.commute)
  show len: "length (blk f b (Suc k)) = min b (length f - k * b)" by (simp add: blk_def)
  have "length f - k * b < b \<longleftrightarrow> length f div b = k"
  proof
    assume "length f - k * b < b"
    then show "length f div b = k" using l assms(1) by (intro div_nat_eqI) (auto simp: mult.commute)
  next
    assume "length f div b = k"
    then show "length f - k * b < b" using assms(1) by (metis minus_div_mult_eq_mod mod_less_divisor)
  qed
  then show "length (blk f b (Suc k)) < b \<longleftrightarrow> Suc k = nblocks f b" unfolding len nblocks_def by auto
qed

text \<open>The block number on the wire and the wrap offset together give the position in the file.\<close>

lemma block_offset:
  "(of_nat (Suc k mod 65536) - 1) * of_nat b + of_nat (Suc k div 65536 * 65536 * b) = (of_nat (k * b) :: u32)"
proof -
  have "(of_nat (Suc k) :: u32) = of_nat (Suc k div 65536 * 65536) + of_nat (Suc k mod 65536)"
    by (metis div_mult_mod_eq of_nat_add)
  then have "of_nat (Suc k mod 65536) - 1 = (of_nat k :: u32) - of_nat (Suc k div 65536 * 65536)" by (simp add: algebra_simps)
  then show ?thesis by (simp only: of_nat_mult left_diff_distrib) (simp add: algebra_simps)
qed

definition tftp_inv :: "byte list \<Rightarrow> nat \<Rightarrow> u16 \<Rightarrow> u32 \<Rightarrow> mem \<Rightarrow> nat \<Rightarrow> ('w, 'z) tftp_scheme \<Rightarrow> bool" where
  "tftp_inv f b q la m k s \<longleftrightarrow>
     k \<le> nblocks f b \<and> TftpBlkSize s = of_nat b \<and> load_addr (net_env s) = la \<and>
     NetState s = (if k = nblocks f b then NETLOOP_SUCCESS else NETLOOP_CONTINUE) \<and>
     net_mem s = mem_write la (take (k * b) f) m \<and> NetBootFileXferSize s = of_nat (min (k * b) (length f)) \<and>
     (if k = 0 then TftpState s = STATE_RRQ \<or> TftpState s = STATE_OACK \<and> TftpServerPort s = q
      else TftpState s = STATE_DATA \<and> TftpServerPort s = q \<and> TftpLastBlock s = of_nat (k mod 65536) \<and>
        TftpBlockWrapOffset s = of_nat (k div 65536 * 65536 * b))"

abbreviation tftp_rx ::
  "'w eth_driver \<Rightarrow> byte list \<Rightarrow> u16 \<Rightarrow> ('w, 'z) tftp_scheme \<Rightarrow> ('w, 'z) tftp_scheme option" where
  "tftp_rx drv p q s \<equiv> TftpHandler drv p (TftpOurPort s) q (of_nat (length p)) s"

lemma TftpSend_data: "TftpState s = STATE_DATA \<or> TftpState s = STATE_OACK \<Longrightarrow> TftpSend drv s =
   Some (snd (NetSendUDPPacket drv NetServerEther_p (TftpServerIP s) (TftpServerPort s) (TftpOurPort s)
     (be16_bytes 4 @ be16_bytes (ucast (TftpBlock s))) s))"
  by (auto simp: TftpSend_def tftp_packet_def)

text \<open>The handler on a data packet, up to the first-block logic.\<close>

lemma rx_data:
  assumes "0 < b" "b < 65536" "length (blk f b j) \<le> b" "src = TftpServerPort s \<or> TftpState s = STATE_RRQ"
  shows "tftp_rx drv (data_pkt f b j) src s =
    tftp_data drv (be16_bytes (of_nat j) @ blk f b j) src (of_nat (2 + length (blk f b j))) s"
proof -
  have "length (data_pkt f b j) = 4 + length (blk f b j)" by (simp add: data_pkt_def)
  moreover have "\<not> (of_nat (4 + length (blk f b j)) :: u32) < 2"
    using assms(2,3) of_nat_less_u32 [of "4 + length (blk f b j)" 2] by simp
  moreover have "(of_nat (4 + length (blk f b j)) :: u32) - 2 = of_nat (2 + length (blk f b j))" by simp
  moreover have "get16 (data_pkt f b j) 0 = 3" "drop 2 (data_pkt f b j) = be16_bytes (of_nat j) @ blk f b j"
    by (simp_all add: data_pkt_def)
  ultimately show ?thesis using assms(4) unfolding TftpHandler_def Let_def by auto
qed

text \<open>The block number, the wrap-around and the first block.\<close>

definition data_hdr :: "u32 \<Rightarrow> ('w, 'z) tftp_scheme \<Rightarrow> ('w, 'z) tftp_scheme" where
  "data_hdr n s =
     (let s = s\<lparr>TftpBlock := n\<rparr>
      in if TftpBlock s = 0
         then s\<lparr>TftpBlockWrap := TftpBlockWrap s + 1,
                TftpBlockWrapOffset := TftpBlockWrapOffset s + ucast (TftpBlkSize s) * TFTP_SEQUENCE_SIZE\<rparr>
         else s)"

lemma ucast_blk: "b < 65536 \<Longrightarrow> (ucast (of_nat b :: u16) :: u32) = of_nat b"
  by (rule word_eq_of_natI) (simp add: unat_ucast_mod unat_of_nat)

lemma block_zero: "(of_nat (j mod 65536) :: u32) = 0 \<longleftrightarrow> j mod 65536 = 0"
  using of_nat_u32_inj [of "j mod 65536" 0] by simp

lemma first_block:
  assumes inv: "tftp_inv f b q la m k s" and k: "k < nblocks f b" and b: "b < 65536"
  shows "\<exists>s'. tftp_first drv q (data_hdr (of_nat (Suc k mod 65536)) s) = Some (False, s') \<and> TftpState s' = STATE_DATA \<and>
    TftpServerPort s' = q \<and> TftpBlock s' = of_nat (Suc k mod 65536) \<and> TftpLastBlock s' = of_nat (k mod 65536) \<and>
    TftpBlockWrapOffset s' = of_nat (Suc k div 65536 * 65536 * b) \<and> TftpBlkSize s' = of_nat b \<and>
    net_env s' = net_env s \<and> NetState s' = NETLOOP_CONTINUE \<and> net_mem s' = net_mem s \<and>
    NetBootFileXferSize s' = NetBootFileXferSize s"
proof (cases k)
  case 0
  then show ?thesis using inv k by (auto simp: tftp_inv_def data_hdr_def tftp_first_def Let_def)
next
  case (Suc k')
  then have "TftpBlockWrapOffset (data_hdr (of_nat (Suc k mod 65536)) s) = of_nat (Suc k div 65536 * 65536 * b)"
    using inv block_zero [of "Suc k"] by (auto simp: data_hdr_def tftp_inv_def Let_def ucast_blk [OF b] div_Suc algebra_simps)
  then show ?thesis using Suc inv k by (auto simp: data_hdr_def tftp_inv_def tftp_first_def Let_def)
qed

definition data_store :: "'w eth_driver \<Rightarrow> byte list \<Rightarrow> ('w, 'z) tftp_scheme \<Rightarrow> ('w, 'z) tftp_scheme option" where
  "data_store drv d s =
     do { let s = NetSetTimeout (TftpTimeoutMSecs s) TftpTimeout_f
                    (s\<lparr>TftpLastBlock := TftpBlock s, TftpTimeoutCountMax := TIMEOUT_COUNT\<rparr>);
          s \<leftarrow> store_block (TftpBlock s - 1) d (of_nat (length d)) s;
          s \<leftarrow> TftpSend drv s;
          Some (if of_nat (length d) < (ucast (TftpBlkSize s) :: u32) then s\<lparr>NetState := NETLOOP_SUCCESS\<rparr> else s) }"

lemma tftp_data_parts:
  assumes "length d < 65536"
  shows "tftp_data drv (be16_bytes w @ d) q (of_nat (2 + length d)) s =
    do { (stop, s) \<leftarrow> tftp_first drv q (data_hdr (ucast w) s);
         if stop \<or> TftpBlock s = TftpLastBlock s then Some s else data_store drv d s }"
proof -
  have "\<not> (of_nat (2 + length d) :: u32) < 2" using assms of_nat_less_u32 [of "2 + length d" 2] by simp
  moreover have l: "(of_nat (2 + length d) :: u32) - 2 = of_nat (length d)" by simp
  ultimately have "tftp_data drv (be16_bytes w @ d) q (of_nat (2 + length d)) s =
      Option.bind (tftp_first drv q (data_hdr (ucast w) s))
        (\<lambda>(stop, s). if stop then Some s else if TftpBlock s = TftpLastBlock s then Some s else data_store drv d s)"
    unfolding tftp_data_def data_store_def data_hdr_def Let_def l drop2_be16 get16_be16 by simp
  then show ?thesis by (cases "tftp_first drv q (data_hdr (ucast w) s)") auto
qed

lemma NetSetTimeout_tftp [simp]:
  fixes s :: "('w, 'z) tftp_scheme"
  shows "TftpState (NetSetTimeout iv t s) = TftpState s" "TftpBlkSize (NetSetTimeout iv t s) = TftpBlkSize s"
    "TftpLastBlock (NetSetTimeout iv t s) = TftpLastBlock s" "TftpBlock (NetSetTimeout iv t s) = TftpBlock s"
    "TftpBlockWrapOffset (NetSetTimeout iv t s) = TftpBlockWrapOffset s"
    "TftpServerPort (NetSetTimeout iv t s) = TftpServerPort s" "net_mem (NetSetTimeout iv t s) = net_mem s"
    "net_env (NetSetTimeout iv t s) = net_env s" "NetState (NetSetTimeout iv t s) = NetState s"
    "NetBootFileXferSize (NetSetTimeout iv t s) = NetBootFileXferSize s" "TftpOurPort (NetSetTimeout iv t s) = TftpOurPort s"
  by (simp_all add: NetSetTimeout_def)

lemma data_store_ok:
  assumes d: "length d < 65536" and st: "TftpState s = STATE_DATA" and b: "TftpBlkSize s = of_nat b" "b < 65536"
    and off: "(TftpBlock s - 1) * of_nat b + TftpBlockWrapOffset s = off"
  shows "\<exists>s'. data_store drv d s = Some s' \<and> TftpState s' = STATE_DATA \<and> TftpServerPort s' = TftpServerPort s \<and>
    TftpLastBlock s' = TftpBlock s \<and> TftpBlockWrapOffset s' = TftpBlockWrapOffset s \<and> TftpBlkSize s' = TftpBlkSize s \<and>
    net_env s' = net_env s \<and> NetState s' = (if length d < b then NETLOOP_SUCCESS else NetState s) \<and>
    net_mem s' = mem_write (load_addr (net_env s) + off) d (net_mem s) \<and>
    NetBootFileXferSize s' = (if NetBootFileXferSize s < off + of_nat (length d) then off + of_nat (length d)
                              else NetBootFileXferSize s)"
proof -
  have u: "unat (of_nat (length d) :: u32) = length d" using d by (simp add: unat_of_nat_u32)
  have lt: "(of_nat (length d) :: u32) < of_nat b \<longleftrightarrow> length d < b" using d b(2) by (intro of_nat_less_u32) simp_all
  let ?t = "NetSetTimeout (TftpTimeoutMSecs s) TftpTimeout_f (s\<lparr>TftpLastBlock := TftpBlock s, TftpTimeoutCountMax := TIMEOUT_COUNT\<rparr>)"
  obtain t where t: "store_block (TftpBlock s - 1) d (of_nat (length d)) ?t = Some t" "TftpState t = STATE_DATA"
    "TftpServerPort t = TftpServerPort s" "TftpLastBlock t = TftpBlock s" "TftpBlockWrapOffset t = TftpBlockWrapOffset s"
    "TftpBlkSize t = of_nat b" "net_env t = net_env s" "NetState t = NetState s"
    "net_mem t = mem_write (load_addr (net_env s) + off) d (net_mem s)"
    "NetBootFileXferSize t = (if NetBootFileXferSize s < off + of_nat (length d) then off + of_nat (length d)
                              else NetBootFileXferSize s)"
    using st b(1) by (simp add: store_block_def Let_def u off ucast_blk [OF b(2)])
  show ?thesis
    using t TftpSend_data [of t drv] b(1) by (simp add: data_store_def Let_def lt ucast_blk [OF b(2)])
qed

text \<open>The next block in order is stored, acknowledged and counted.\<close>

lemma tftp_next:
  assumes inv: "tftp_inv f b q la m k s" and k: "k < nblocks f b" and b: "0 < b" "b < 65536" and f: "length f < 2 ^ 32"
  shows "\<exists>s'. tftp_rx drv (data_pkt f b (Suc k)) q s = Some s' \<and> tftp_inv f b q la m (Suc k) s'"
proof -
  let ?d = "blk f b (Suc k)"
  note bb = blk_bounds [OF b(1) k]
  have ld: "length ?d \<le> b" using bb(3) by simp
  then have d16: "length ?d < 65536" using b(2) by simp
  have wire: "ucast (of_nat (Suc k) :: u16) = (of_nat (Suc k mod 65536) :: u32)"
    by (rule word_eq_of_natI) (simp add: unat_ucast_mod unat_of_nat del: of_nat_Suc)
  obtain t where t: "tftp_first drv q (data_hdr (of_nat (Suc k mod 65536)) s) = Some (False, t)" "TftpState t = STATE_DATA"
    "TftpServerPort t = q" "TftpBlock t = of_nat (Suc k mod 65536)" "TftpLastBlock t = of_nat (k mod 65536)"
    "TftpBlockWrapOffset t = of_nat (Suc k div 65536 * 65536 * b)" "TftpBlkSize t = of_nat b" "net_env t = net_env s"
    "NetState t = NETLOOP_CONTINUE" "net_mem t = net_mem s" "NetBootFileXferSize t = NetBootFileXferSize s"
    using first_block [OF inv k b(2)] by metis
  have ne: "TftpBlock t \<noteq> TftpLastBlock t"
    unfolding t(4,5) using of_nat_u32_inj [of "Suc k mod 65536" "k mod 65536"] by (simp add: mod_Suc)
  obtain s' where s': "data_store drv ?d t = Some s'" "TftpState s' = STATE_DATA" "TftpServerPort s' = q"
    "TftpLastBlock s' = of_nat (Suc k mod 65536)" "TftpBlockWrapOffset s' = of_nat (Suc k div 65536 * 65536 * b)"
    "TftpBlkSize s' = of_nat b" "net_env s' = net_env s"
    "NetState s' = (if length ?d < b then NETLOOP_SUCCESS else NETLOOP_CONTINUE)"
    "net_mem s' = mem_write (load_addr (net_env s) + of_nat (k * b)) ?d (net_mem s)"
    "NetBootFileXferSize s' = (if NetBootFileXferSize s < of_nat (k * b) + of_nat (length ?d)
       then of_nat (k * b) + of_nat (length ?d) else NetBootFileXferSize s)"
    using data_store_ok [OF d16 t(2,7) b(2), of "of_nat (k * b)" drv] block_offset [of k b] unfolding t by metis
  have "TftpServerPort s = q \<or> TftpState s = STATE_RRQ" using inv by (auto simp: tftp_inv_def split: if_splits)
  then have rx: "tftp_rx drv (data_pkt f b (Suc k)) q s = Some s'"
    using rx_data [OF b ld, of q s drv] tftp_data_parts [OF d16, of drv "of_nat (Suc k)" q s] t(1) ne s'(1)
    unfolding wire by auto
  have mem: "net_mem s' = mem_write la (take (Suc k * b) f) m"
    using inv s'(9) bb(1) unfolding bb(2) [symmetric] mem_write_append by (simp add: tftp_inv_def min_absorb2)
  have size: "NetBootFileXferSize s' = of_nat (min (Suc k * b) (length f))"
  proof -
    have x: "NetBootFileXferSize s = of_nat (k * b)" using inv bb(1) by (simp add: tftp_inv_def min_absorb1)
    have m: "k * b + length ?d = min (Suc k * b) (length f)" using bb(1,3) by auto
    have "(of_nat (k * b) :: u32) < of_nat (k * b + length ?d) \<longleftrightarrow> k * b < k * b + length ?d"
      using f bb(1) m by (intro of_nat_less_u32) auto
    moreover have "NetBootFileXferSize s' = (if (of_nat (k * b) :: u32) < of_nat (k * b + length ?d)
        then of_nat (k * b + length ?d) else of_nat (k * b))" using s'(10) unfolding x of_nat_add .
    ultimately show ?thesis unfolding m [symmetric] by (cases "length ?d = 0") (simp_all del: of_nat_add of_nat_mult)
  qed
  have "tftp_inv f b q la m (Suc k) s'"
    using inv k s' mem size bb(4) by (simp add: tftp_inv_def)
  with rx show ?thesis by blast
qed

text \<open>The part of the state the invariant speaks about.\<close>

definition view :: "('w, 'z) tftp_scheme \<Rightarrow> _" where
  "view s = (TftpBlkSize s, load_addr (net_env s), NetState s, net_mem s, NetBootFileXferSize s, TftpState s,
     TftpServerPort s, TftpLastBlock s, TftpBlockWrapOffset s)"

lemma inv_view: "tftp_inv f b q la m k s \<Longrightarrow> view s' = view s \<Longrightarrow> tftp_inv f b q la m k s'"
  by (simp add: tftp_inv_def view_def)

lemma view_send [simp]:
  fixes s :: "('w, 'z) tftp_scheme"
  shows "view (snd (NetSendUDPPacket drv p d dp sp pl s)) = view s" "view (NetSetTimeout iv t s) = view s"
    "view (s\<lparr>TftpTimeoutCount := c\<rparr>) = view s" "view (s\<lparr>TftpBlock := n\<rparr>) = view s" "view (net_send drv pk s) = view s"
  by (simp_all add: view_def) (simp add: net_send_def)

lemma view_TftpSend: "TftpSend drv s = Some s' \<Longrightarrow> view s' = view s"
  by (auto simp: TftpSend_def)

lemma view_receive_arp:
  fixes s :: "('w, 'z) tftp_scheme"
  assumes "receive_arp drv p a s = Some s'"
  shows "view s' = view s"
proof -
  have "view (arp_reply drv a s) = view s"
    by (auto simp: arp_reply_def view_def set_ether_def net_send_def Let_def split: option.split ether_ptr.split)
  moreover have "arp_answer drv n p s = Some t \<Longrightarrow> view t = view s" for n t
    by (auto simp: arp_answer_def Let_def split: if_splits bind_splits)
  ultimately show ?thesis using assms by (auto simp: receive_arp_def split: if_splits)
qed

lemma tftp_dup:
  assumes inv: "tftp_inv f b q la m k s" and k: "k mod 65536 \<noteq> 0" and b: "0 < b" "b < 65536"
  shows "\<exists>s'. tftp_rx drv (data_pkt f b k) q s = Some s' \<and> view s' = view s"
proof -
  have ld: "length (blk f b k) \<le> b" by (simp add: blk_def)
  then have d16: "length (blk f b k) < 65536" using b(2) by simp
  have k0: "k \<noteq> 0" using k by auto
  have wire: "ucast (of_nat k :: u16) = (of_nat (k mod 65536) :: u32)"
    by (rule word_eq_of_natI) (simp add: unat_ucast_mod unat_of_nat)
  have nz: "(of_nat (k mod 65536) :: u32) \<noteq> 0" using k block_zero [of k] by simp
  have q: "q = TftpServerPort s \<or> TftpState s = STATE_RRQ" using inv k0 by (simp add: tftp_inv_def)
  have "tftp_rx drv (data_pkt f b k) q s = Some (s\<lparr>TftpBlock := of_nat (k mod 65536)\<rparr>)"
    unfolding rx_data [OF b ld q] tftp_data_parts [OF d16] wire
    using inv k0 nz by (simp add: data_hdr_def tftp_first_def tftp_inv_def Let_def)
  then show ?thesis by simp
qed

subsection \<open>Transfers\<close>

text \<open>What may happen while the client waits: the next data block, the last one again (unless its number on the wire is
  0), a packet for another port or from another one, a timeout as long as the retries last, ARP traffic, and the passing
  of time and other activity of the hardware.\<close>

inductive tftp_step ::
  "'w eth_driver \<Rightarrow> byte list \<Rightarrow> nat \<Rightarrow> u16 \<Rightarrow> nat \<times> ('w, 'z) tftp_scheme \<Rightarrow> nat \<times> ('w, 'z) tftp_scheme \<Rightarrow> bool"
  for drv f b q where
  next_block: "k < nblocks f b \<Longrightarrow> tftp_rx drv (data_pkt f b (Suc k)) q s = Some s' \<Longrightarrow> tftp_step drv f b q (k, s) (Suc k, s')"
| same_block: "k mod 65536 \<noteq> 0 \<Longrightarrow> tftp_rx drv (data_pkt f b k) q s = Some s' \<Longrightarrow> tftp_step drv f b q (k, s) (k, s')"
| stray: "dest \<noteq> TftpOurPort s \<or> TftpState s \<noteq> STATE_RRQ \<and> src \<noteq> TftpServerPort s \<Longrightarrow>
    TftpHandler drv p dest src len s = Some s' \<Longrightarrow> tftp_step drv f b q (k, s) (k, s')"
| timeout: "TftpTimeoutCount s < TftpTimeoutCountMax s \<Longrightarrow> TftpTimeout drv s = Some s' \<Longrightarrow> tftp_step drv f b q (k, s) (k, s')"
| arp: "receive_arp drv p a s = Some s' \<Longrightarrow> tftp_step drv f b q (k, s) (k, s')"
| elapse: "tftp_step drv f b q (k, s) (k, s\<lparr>now := t, net_eth := (net_eth s)\<lparr>eth_hw := w\<rparr>\<rparr>)"

lemma tftp_step_inv:
  assumes "tftp_step drv f b q (k, s) (k', s')" and inv: "tftp_inv f b q la m k s"
    and b: "0 < b" "b < 65536" and f: "length f < 2 ^ 32"
  shows "tftp_inv f b q la m k' s'"
  using assms(1)
proof cases
  case next_block
  then show ?thesis using tftp_next [OF inv _ b f, of drv] by auto
next
  case same_block
  then show ?thesis using tftp_dup [OF inv _ b, of drv] inv_view [OF inv] by auto
next
  case stray
  then show ?thesis using inv by (auto simp: TftpHandler_def split: if_splits)
next
  case timeout
  then have "view s' = view s" by (auto simp: TftpTimeout_def Let_def dest!: view_TftpSend split: if_splits)
  with timeout show ?thesis using inv_view [OF inv] by simp
next
  case arp
  then show ?thesis using view_receive_arp inv_view [OF inv] by blast
next
  case elapse
  then have "view s' = view s" by (auto simp: view_def)
  with elapse show ?thesis using inv_view [OF inv] by simp
qed

lemma tftp_reachable_inv:
  assumes "(tftp_step drv f b q)\<^sup>*\<^sup>* c c'" and "tftp_inv f b q la m (fst c) (snd c)"
    and "0 < b" "b < 65536" and "length f < 2 ^ 32"
  shows "tftp_inv f b q la m (fst c') (snd c')"
  using assms by (induction rule: rtranclp_induct) (auto intro: tftp_step_inv)

text \<open>C10: a TFTP transfer delivers the file. Start with the request sent (or its options acknowledged by port \<open>q\<close>) and the
  block size \<open>b\<close> agreed. After any sequence of steps in which \<open>k\<close> blocks arrived in order, mixed with repetitions of the
  latest block (unless its number on the wire is 0), packets of others, timeouts while retries are left, and ARP traffic, memory holds exactly the first \<open>k * b\<close> bytes of the file at the load
  address and is unchanged elsewhere, and the size counter agrees, through any number of wrap-arounds of the 16-bit block
  number. The client reports success exactly when the last block has arrived, and until then it always accepts the next one.\<close>

theorem tftp_transfer:
  assumes "0 < b" and "b < 65536" and "length f < 2 ^ 32" and "TftpBlkSize s = of_nat b"
    and "TftpState s = STATE_RRQ \<or> TftpState s = STATE_OACK \<and> TftpServerPort s = q"
    and "NetState s = NETLOOP_CONTINUE" and "NetBootFileXferSize s = 0"
    and "(tftp_step drv f b q)\<^sup>*\<^sup>* (0, s) (k, s')"
  shows "net_mem s' = mem_write (load_addr (net_env s)) (take (k * b) f) (net_mem s) \<and>
    NetBootFileXferSize s' = of_nat (min (k * b) (length f)) \<and>
    (if k < nblocks f b
     then NetState s' = NETLOOP_CONTINUE \<and> (\<exists>s''. tftp_step drv f b q (k, s') (Suc k, s''))
     else NetState s' = NETLOOP_SUCCESS \<and> k = nblocks f b \<and>
       mem_read (load_addr (net_env s)) (length f) (net_mem s') = f \<and> NetBootFileXferSize s' = of_nat (length f))"
proof -
  let ?la = "load_addr (net_env s)" and ?m = "net_mem s"
  have "tftp_inv f b q ?la ?m 0 s" using assms(4-7) by (auto simp: tftp_inv_def nblocks_def)
  then have inv: "tftp_inv f b q ?la ?m k s'" using tftp_reachable_inv [OF assms(8) _ assms(1-3)] by simp
  have full: "take (nblocks f b * b) f = f \<and> min (nblocks f b * b) (length f) = length f"
  proof -
    have "length f \<le> nblocks f b * b" using assms(1) dividend_less_div_times [of b "length f"] by (simp add: nblocks_def add.commute)
    then show ?thesis by simp
  qed
  have "\<exists>s''. tftp_step drv f b q (k, s') (Suc k, s'')" if "k < nblocks f b"
    using tftp_next [OF inv that assms(1-3), of drv] next_block [OF that] by blast
  then show ?thesis using inv full mem_read_write [of f ?la ?m] assms(3) by (auto simp: tftp_inv_def)
qed

definition sample_tftp :: "nat tftp" where
  "sample_tftp = net.extend (sample_net 0x0A000001 [0, 0, 0x5b, 0, 0, 1] [0, 0, 0x5b, 0, 0, 2])
     (tftp.fields 5000 10 10 0x0A000002 69 1024 0 0 0 0 0 STATE_RRQ 512 1468 (cs ''uImage'') (\<lambda>_. 0))"

lemmas sample_tftp_simps = sample_tftp_def sample_net_def net.defs tftp.defs

theorem tftp_transfer_witness:
  "\<exists>s'. (tftp_step sample_driver [1, 2, 3] 512 4000)\<^sup>*\<^sup>* (0, sample_tftp) (1, s') \<and> NetState s' = NETLOOP_SUCCESS \<and>
     mem_read (load_addr (net_env sample_tftp)) 3 (net_mem s') = [1, 2, 3]"
proof -
  have h: "TftpBlkSize sample_tftp = of_nat 512" "TftpState sample_tftp = STATE_RRQ" "NetState sample_tftp = NETLOOP_CONTINUE"
    "NetBootFileXferSize sample_tftp = 0" by (simp_all add: sample_tftp_simps)
  note t = tftp_transfer [of 512 "[1, 2, 3]" sample_tftp 4000 sample_driver, OF _ _ _ h(1) disjI1 [OF h(2)] h(3,4)]
  have n: "nblocks [1, 2, 3 :: byte] 512 = 1" by (simp add: nblocks_def)
  obtain s' where s': "tftp_step sample_driver [1, 2, 3] 512 4000 (0, sample_tftp) (Suc 0, s')"
    using t [OF _ _ _ rtranclp.rtrancl_refl] by (auto simp: n)
  have three: "length [1, 2, 3 :: byte] = 3" by simp
  have r: "(tftp_step sample_driver [1, 2, 3] 512 4000)\<^sup>*\<^sup>* (0, sample_tftp) (1, s')" using s' by auto
  show ?thesis using t [OF _ _ _ r, unfolded n three] r by auto
qed

subsection \<open>Faults\<close>

text \<open>When the block whose number wrapped to 0 is received twice, the offset of the wrap-around is added twice before the
  packet is recognised as a repetition, so the rest of the file is stored one cycle of blocks too far.\<close>

theorem repeated_block_zero:
  "tftp_rx drv (be16_bytes 3 @ be16_bytes 0 @ take 512 d) q (s\<lparr>TftpServerPort := q, TftpLastBlock := 0, TftpState := STATE_DATA\<rparr>) =
     Some (s\<lparr>TftpServerPort := q, TftpBlock := 0, TftpLastBlock := 0, TftpBlockWrap := TftpBlockWrap s + 1,
             TftpBlockWrapOffset := TftpBlockWrapOffset s + ucast (TftpBlkSize s) * 65536, TftpState := STATE_DATA\<rparr>)"
proof -
  let ?s = "s\<lparr>TftpServerPort := q, TftpLastBlock := 0, TftpState := STATE_DATA\<rparr>" and ?d = "take 512 d"
  have e: "data_pkt ?d 512 0 = be16_bytes 3 @ be16_bytes 0 @ ?d" "blk ?d 512 0 = ?d" by (simp_all add: data_pkt_def blk_def)
  have "tftp_rx drv (data_pkt ?d 512 0) q ?s = tftp_data drv (be16_bytes 0 @ ?d) q (of_nat (2 + length ?d)) ?s"
    using rx_data [of 512 ?d 0 q ?s drv] by (simp add: e)
  also have "\<dots> = do { (stop, s) \<leftarrow> tftp_first drv q (data_hdr (ucast (0 :: u16)) ?s);
         if stop \<or> TftpBlock s = TftpLastBlock s then Some s else data_store drv ?d s }"
    by (rule tftp_data_parts) simp
  also have "\<dots> = Some (s\<lparr>TftpServerPort := q, TftpBlock := 0, TftpLastBlock := 0, TftpBlockWrap := TftpBlockWrap s + 1,
             TftpBlockWrapOffset := TftpBlockWrapOffset s + ucast (TftpBlkSize s) * 65536, TftpState := STATE_DATA\<rparr>)"
    by (cases s) (simp add: data_hdr_def tftp_first_def Let_def)
  finally show ?thesis unfolding e .
qed

text \<open>The length in the UDP header is not checked. A data packet whose header claims the length 0 is handed to the handler
  with the length \<open>2 ^ 32 - 8\<close>, and storing it reads far beyond the packet.\<close>

theorem short_udp_length_faults:
  "(ucast (0 :: u16) :: u32) - 8 = 0xFFFFFFF8 \<and>
   TftpHandler drv (be16_bytes 3 @ be16_bytes 1 @ take 1468 d) (TftpOurPort s) q 0xFFFFFFF8
     (s\<lparr>TftpServerPort := q, TftpLastBlock := 0, TftpState := STATE_DATA\<rparr>) = None"
proof
  show "(ucast (0 :: u16) :: u32) - 8 = 0xFFFFFFF8" by simp
  have "length (take 1468 d) < unat (0xFFFFFFF4 :: u32)" by simp
  then have st: "store_block n (take 1468 d) 0xFFFFFFF4 t = None" for n and t :: "('a, 'b) tftp_scheme"
    by (simp add: store_block_def Let_def)
  have g: "get16 (be16_bytes 3 @ be16_bytes 1 @ take 1468 d) 0 = 3" "get16 (be16_bytes 1 @ take 1468 d) 0 = 1"
    "drop 2 (be16_bytes 3 @ be16_bytes 1 @ take 1468 d) = be16_bytes 1 @ take 1468 d"
    "drop 2 (be16_bytes 1 @ take 1468 d) = take 1468 d" by simp_all
  have l: "\<not> (0xFFFFFFF8 :: u32) < 2" "(0xFFFFFFF8 :: u32) - 2 = 0xFFFFFFF6" "\<not> (0xFFFFFFF6 :: u32) < 2"
    "(0xFFFFFFF6 :: u32) - 2 = 0xFFFFFFF4" by simp_all
  show "TftpHandler drv (be16_bytes 3 @ be16_bytes 1 @ take 1468 d) (TftpOurPort s) q 0xFFFFFFF8
     (s\<lparr>TftpServerPort := q, TftpLastBlock := 0, TftpState := STATE_DATA\<rparr>) = None"
    unfolding TftpHandler_def tftp_data_def Let_def g l by (simp add: tftp_first_def st)
qed

end
