(* ===== verification/BootpProps.thy ===== *)
theory BootpProps
  imports Bootp TftpProps
begin

text \<open>
  The options of a BOOTP reply: which values the client takes.
\<close>

text \<open>The wire format: code, length, value; the list ends with the byte 255.\<close>

definition opt_bytes :: "byte \<times> byte list \<Rightarrow> byte list" where
  "opt_bytes x = fst x # of_nat (length (snd x)) # snd x"

definition opt_ok :: "byte \<times> byte list \<Rightarrow> bool" where
  "opt_ok x \<longleftrightarrow> fst x \<noteq> 0 \<and> fst x \<noteq> 0xff \<and> length (snd x) < 256 \<and>
     (fst x \<in> {1, 3, 6} \<longrightarrow> length (snd x) = 4) \<and> (fst x = 13 \<longrightarrow> length (snd x) = 2)"

text \<open>The values of all options with a code, and the first of several values that is not empty.\<close>

definition opts_with :: "byte \<Rightarrow> (byte \<times> byte list) list \<Rightarrow> byte list list" where
  "opts_with c xs = map snd (filter (\<lambda>x. fst x = c) xs)"

fun first_of :: "('a \<Rightarrow> bool) \<Rightarrow> 'a \<Rightarrow> 'a list \<Rightarrow> 'a" where
  "first_of unset x [] = x"
| "first_of unset x (y # ys) = (if unset x then first_of unset y ys else x)"

abbreviation ip_value :: "byte list \<Rightarrow> u32" where
  "ip_value v \<equiv> be32_val (v ! 0) (v ! 1) (v ! 2) (v ! 3)"


text \<open>The effect of the options on the client's configuration; the boot file size is that of the last option, if it is one.\<close>

definition configured :: "(byte \<times> byte list) list \<Rightarrow> ('w, 'z) bootp_scheme \<Rightarrow> ('w, 'z) bootp_scheme \<Rightarrow> bool" where
  "configured xs s s' \<longleftrightarrow>
     NetOurSubnetMask s' = first_of (\<lambda>m. m = 0) (NetOurSubnetMask s) (map ip_value (opts_with 1 xs)) \<and>
     NetOurGatewayIP s' = first_of (\<lambda>m. m = 0) (NetOurGatewayIP s) (map ip_value (opts_with 3 xs)) \<and>
     NetOurDNSIP s' = first_of (\<lambda>m. m = 0) (NetOurDNSIP s) (map ip_value (opts_with 6 xs)) \<and>
     NetOurHostName s' = first_of (\<lambda>t. peek t = 0) (NetOurHostName s) (map (take 31) (opts_with 12 xs)) \<and>
     NetOurRootPath s' = first_of (\<lambda>t. peek t = 0) (NetOurRootPath s) (map (take 63) (opts_with 17 xs)) \<and>
     NetBootFileSize s' = (if xs = [] then NetBootFileSize s
       else if fst (last xs) = 13 then be16_val (snd (last xs) ! 0) (snd (last xs) ! 1) else 0)"

definition same_host :: "('w, 'z) bootp_scheme \<Rightarrow> ('w, 'z) bootp_scheme \<Rightarrow> bool" where
  "same_host s s' \<longleftrightarrow> NetOurIP s' = NetOurIP s \<and> NetServerIP s' = NetServerIP s \<and> NetServerEther s' = NetServerEther s \<and>
     net_env s' = net_env s"

lemma truncate_take: "length v < 256 \<Longrightarrow> take (truncate_sz m (length v)) (v @ t) = take (m - 1) v" if "0 < m"
  using that by (auto simp: truncate_sz_def)

lemma field_process:
  assumes "opt_ok x"
  shows "\<exists>s'. BootpVendorFieldProcess (opt_bytes x @ t) s = Some s' \<and> configured [x] s s' \<and> same_host s s'"
proof -
  obtain c v where x: "x = (c, v)" by fastforce
  have v: "length v < 256" "unat (of_nat (length v) :: byte) = length v"
    using assms by (simp_all add: opt_ok_def x unat_of_nat_byte)
  have tr: "truncate_sz m (length v) \<le> length v" if "0 < m" for m using that by (auto simp: truncate_sz_def)
  have four: "c \<in> {1, 3, 6} \<Longrightarrow> \<exists>a0 a1 a2 a3. v = [a0, a1, a2, a3]"
    using assms by (auto simp: opt_ok_def x length_Suc_conv numeral_eq_Suc)
  have two: "c = 13 \<Longrightarrow> \<exists>a0 a1. v = [a0, a1]" using assms by (auto simp: opt_ok_def x length_Suc_conv numeral_eq_Suc)
  note defs = same_host_def BootpVendorFieldProcess_def opt_bytes_def configured_def opts_with_def x Let_def NetReadIP_def get16_def v
  consider "c \<in> {1, 3, 6}" | "c = 13" | "c = 12" | "c = 17" | "c = 40" | "c \<notin> {1, 3, 6, 12, 13, 17, 40}" by blast
  then show ?thesis
  proof cases
    case 1
    then obtain a0 a1 a2 a3 where "v = [a0, a1, a2, a3]" using four by blast
    with 1 show ?thesis by (auto simp: defs)
  next
    case 2
    then obtain a0 a1 where "v = [a0, a1]" using two by blast
    with 2 show ?thesis by (simp add: defs)
  next
    case 3
    then show ?thesis using tr [of 32] truncate_take [of 32 v t] v(1) by (auto simp: defs)
  next
    case 4
    then show ?thesis using tr [of 64] truncate_take [of 64 v t] v(1) by (auto simp: defs)
  next
    case 5
    then show ?thesis using tr [of 32] truncate_take [of 32 v t] v(1) by (auto simp: defs)
  next
    case 6
    then show ?thesis by (auto simp: defs)
  qed
qed

lemma first_of_append: "first_of u x (ys @ zs) = first_of u (first_of u x ys) zs"
  by (induction ys arbitrary: x) (auto, cases zs, auto)

lemma configured_trans:
  assumes "configured [x] s t" "configured xs t s'"
  shows "configured (x # xs) s s'"
proof -
  have o: "opts_with c (x # xs) = opts_with c [x] @ opts_with c xs" for c by (simp add: opts_with_def)
  show ?thesis using assms unfolding configured_def o map_append first_of_append by auto
qed

lemma vendor_process:
  assumes "\<forall>x \<in> set xs. opt_ok x" and "length (concat (map opt_bytes xs)) \<le> n"
  shows "\<exists>s'. BootpVendorProcess (concat (map opt_bytes xs) @ 0xff # rest) n s = Some s' \<and> configured xs s s' \<and> same_host s s'"
  using assms
proof (induction xs arbitrary: n s)
  case Nil
  then show ?case by (subst BootpVendorProcess.simps) (simp add: configured_def opts_with_def same_host_def)
next
  case (Cons x xs)
  obtain c v where x: "x = (c, v)" by fastforce
  have ok: "opt_ok x" "c \<noteq> 0" "c \<noteq> 0xff" "unat (of_nat (length v) :: byte) = length v"
    using Cons.prems(1) by (simp_all add: opt_ok_def x unat_of_nat_byte)
  let ?t = "concat (map opt_bytes xs) @ 0xff # rest"
  obtain t where t: "BootpVendorFieldProcess (opt_bytes x @ ?t) s = Some t" "configured [x] s t" "same_host s t"
    using field_process [OF ok(1)] by blast
  have len: "length (opt_bytes x) = length v + 2" by (simp add: opt_bytes_def x)
  have n: "length v + 2 \<le> n" "length (concat (map opt_bytes xs)) \<le> n - (length v + 2)"
    using Cons.prems(2) len by simp_all
  have "BootpVendorProcess (opt_bytes x @ ?t) n s = BootpVendorProcess ?t (n - (length v + 2)) t"
    using ok n(1) t(1) by (subst BootpVendorProcess.simps) (simp add: opt_bytes_def x Let_def)
  then show ?case using Cons.IH [OF _ n(2), of t] Cons.prems(1) configured_trans [OF t(2)] t(3) by (auto simp: same_host_def)
qed

lemma copy_params:
  assumes inv: "env_inv (net_env s)" and bf: "nul_free (BootFile (net_env s))" and nul: "0 \<in> set (drop 108 bp)"
  shows "\<exists>e. BootpCopyNetParams bp s = Some (s\<lparr>net_eth := (net_eth s)\<lparr>eth_env := e\<rparr>, NetOurIP := NetReadIP bp 16,
      NetServerIP := (if NetReadIP bp 20 \<noteq> 0 then NetReadIP bp 20 else NetServerIP s),
      NetServerEther := take 6 (drop 6 (NetRxPacket s))\<rparr>) \<and> env_inv e"
proof -
  let ?file = "takeWhile (\<lambda>c. c \<noteq> 0) (drop 108 bp)"
  let ?bf = "if ?file \<noteq> [] then copy_filename ?file 128 else BootFile (net_env s)"
  let ?e = "(net_env s)\<lparr>BootFile := ?bf\<rparr>"
  have "nul_free ?file" by (auto simp: nul_free_def dest: set_takeWhileD)
  then have nf: "nul_free ?bf"
    using bf by (auto simp: copy_filename_def nul_free_def Let_def dest!: set_takeWhileD in_set_takeD split: if_splits)
      (metis list.set_sel(2) list.sel(2) tl_Nil)+
  from inv obtain kvs where ok: "env_ok (net_env s) kvs" by (auto simp: env_inv_def)
  then have ok': "env_ok ?e kvs" by (simp add: env_ok_def)
  obtain e where e: "(if ?bf \<noteq> [] then map_option snd (setenv (cs ''bootfile'') (Some ?bf) ?e) else Some ?e) = Some e" "env_inv e"
  proof (cases "?bf = []")
    case False
    then have "plain_var (cs ''bootfile'') ?bf" using nf by (simp add: plain_var_def is_name_def console_of_def cs_def nul_free_def)
    from setenv_plain [OF ok' this] obtain r e where "setenv (cs ''bootfile'') (Some ?bf) ?e = Some (r, e)" "env_inv e"
      unfolding env_inv_def by metis
    then show ?thesis using that False by auto
  qed (use ok' that in \<open>auto simp: env_inv_def\<close>)
  show ?thesis
    using e nul
    by (cases s; cases "net_eth s"; cases "net_env s"; cases "?file = []")
      (auto simp: BootpCopyNetParams_def packet_str_def set_bootfile_def Let_def split: if_splits)
qed

text \<open>C27: a good BOOTP reply configures the client and then the boot file is loaded. The own address is the one of the reply; the
  server's address is taken when the reply has one, its hardware address is the source of the frame; subnet mask,
  gateway, host name and root path are the first ones offered unless they are set already; the size of the boot file
  counts only when it is the last option. The request timer is stopped.\<close>

theorem bootp_reply_configures:
  assumes "env_inv (net_env s)" and "nul_free (BootFile (net_env s))" and "0 \<in> set (drop 108 pkt)"
    and "BootpCheckPkt pkt dest src (of_nat (length pkt)) s = Some 0" and "length pkt < 2 ^ 32"
    and "pkt = hdr @ [99, 130, 83, 99] @ concat (map opt_bytes xs) @ 0xff # rest" and "length hdr = 236"
    and "\<forall>x \<in> set xs. opt_ok x"
  shows "\<exists>u. BootpHandler drv NfsStart pkt dest src (of_nat (length pkt)) s = auto_load drv NfsStart u \<and>
    NetOurIP u = NetReadIP pkt 16 \<and> NetServerIP u = (if NetReadIP pkt 20 \<noteq> 0 then NetReadIP pkt 20 else NetServerIP s) \<and>
    NetServerEther u = take 6 (drop 6 (NetRxPacket s)) \<and> configured xs s u \<and> timeHandler u = None \<and> env_inv (net_env u)"
proof -
  obtain t e where t: "BootpCopyNetParams pkt s = Some t" "t = s\<lparr>net_eth := (net_eth s)\<lparr>eth_env := e\<rparr>, NetOurIP := NetReadIP pkt 16,
      NetServerIP := (if NetReadIP pkt 20 \<noteq> 0 then NetReadIP pkt 20 else NetServerIP s),
      NetServerEther := take 6 (drop 6 (NetRxPacket s))\<rparr>" "env_inv e"
    using copy_params [OF assms(1-3)] by blast
  have len: "unat (of_nat (length pkt) :: u32) = length pkt" using assms(5) by (simp add: unat_of_nat_u32)
  have "length (concat (map opt_bytes xs)) \<le> length pkt" using assms(6) by simp
  from vendor_process [OF assms(8) this, of rest t] obtain v where
    v: "BootpVendorProcess (concat (map opt_bytes xs) @ 0xff # rest) (length pkt) t = Some v" "configured xs t v" "same_host t v" by blast
  have magic: "NetReadIP pkt 236 = 0x63825363"
  proof -
    have "NetReadIP pkt 236 = be32_val 99 130 83 99" using assms(6,7) by (simp add: NetReadIP_def nth_append)
    also have "\<dots> = 0x63825363" by code_simp
    finally show ?thesis .
  qed
  have d: "drop 240 pkt = concat (map opt_bytes xs) @ 0xff # rest" "\<not> length pkt < 240" using assms(6,7) by simp_all
  let ?u = "NetSetTimeout 0 BootpTimeout_f v"
  have "BootpHandler drv NfsStart pkt dest src (of_nat (length pkt)) s = auto_load drv NfsStart ?u"
    unfolding BootpHandler_def assms(4) using t(1) magic d v(1) len by simp
  moreover have "configured xs s ?u" using v(2) t(2) by (simp add: configured_def NetSetTimeout_def)
  ultimately show ?thesis using v(3) t(2,3) by (intro exI [of _ ?u]) (simp add: same_host_def NetSetTimeout_def)
qed

definition sample_bootp :: "nat bootp" where
  "sample_bootp = tftp.extend sample_tftp (bootp.fields 0 0 0 0 [] [] [] 0)"

lemmas sample_bootp_simps = sample_bootp_def sample_tftp_simps bootp.defs

theorem bootp_reply_configures_witness:
  "\<exists>u. BootpHandler sample_driver Some ([2, 1, 6, 0] @ replicate 12 0 @ [10, 0, 0, 7, 10, 0, 0, 2] @ replicate 212 0 @
      [99, 130, 83, 99] @ [3, 4, 10, 0, 0, 254] @ [0xff]) 68 67 247 sample_bootp = auto_load sample_driver Some u \<and>
    NetOurIP u = 0x0A000007 \<and> NetOurGatewayIP u = 0x0A0000FE"
proof -
  let ?hdr = "[2, 1, 6, 0] @ replicate 12 0 @ [10, 0, 0, 7, 10, 0, 0, 2] @ replicate 212 (0 :: byte)"
  let ?pkt = "?hdr @ [99, 130, 83, 99] @ concat (map opt_bytes [(3, [10, 0, 0, 254])]) @ 0xff # []"
  note ok = sample_state_ok(1) [OF sample_vars_ok]
  have e: "net_env sample_bootp = sample_state sample_vars" by (simp add: sample_bootp_simps sample_eth_def)
  have o: "concat (map opt_bytes [(3, [10, 0, 0, 254])]) = [3, 4, 10, 0, 0, 254]" by (simp add: opt_bytes_def)
  have len: "length ?pkt = 247" unfolding o by simp
  have h: "env_inv (net_env sample_bootp)" "nul_free (BootFile (net_env sample_bootp))"
    unfolding e using ok by (auto simp: env_inv_def sample_state_def nul_free_def Let_def)
  have z: "0 \<in> set (drop 108 ?pkt)" by simp
  have ip: "be32_val 10 0 0 7 = 0x0A000007" "be32_val 10 0 0 254 = 0x0A0000FE" "be32_val 0 0 0 0 = 0" by code_simp+
  have n: "?pkt ! 0 = 2" "?pkt ! 1 = 1" "?pkt ! 2 = 6" "NetReadIP ?pkt 4 = 0" "NetReadIP ?pkt 16 = 0x0A000007"
    by (simp_all add: NetReadIP_def nth_append ip)
  have c: "BootpCheckPkt ?pkt 68 67 (of_nat (length ?pkt)) sample_bootp = Some 0"
    unfolding BootpCheckPkt_def n len by (simp add: sample_bootp_simps)
  have g: "NetOurGatewayIP sample_bootp = 0" by (simp add: sample_bootp_simps)
  obtain u where u: "BootpHandler sample_driver Some ?pkt 68 67 (of_nat (length ?pkt)) sample_bootp = auto_load sample_driver Some u"
    "NetOurIP u = NetReadIP ?pkt 16" "configured [(3, [10, 0, 0, 254])] sample_bootp u"
    using bootp_reply_configures [OF h z c _ refl, of sample_driver Some] len by (auto simp: opt_ok_def)
  have "NetOurGatewayIP u = 0x0A0000FE" using u(3) g by (simp add: configured_def opts_with_def ip)
  moreover have "NetOurIP u = 0x0A000007" using u(2) unfolding n .
  ultimately show ?thesis using u(1) unfolding len o by (intro exI [of _ u]) simp
qed

end
