(* ===== verification/Srec.thy ===== *)
theory Srec
  imports Memory Roundtrip EnvProps
begin

text \<open>
  S-records: the decoder of \<^verbatim>\<open>common/s_record.c\<close> and the serial download and upload of \<^verbatim>\<open>common/cmd_load.c\<close>.
  Console input is the list \<open>con_in\<close> of bytes still to come; a routine that waits for more gives \<open>None\<close>, as does
  one that leaves a buffer. Progress messages and the echo are not modelled.
\<close>

abbreviation (input) SREC_EMPTY :: int where "SREC_EMPTY \<equiv> 10"
abbreviation (input) SREC_E_BADTYPE :: int where "SREC_E_BADTYPE \<equiv> -1"
abbreviation (input) SREC_E_NOSREC :: int where "SREC_E_NOSREC \<equiv> -2"
abbreviation (input) SREC_E_BADCHKS :: int where "SREC_E_BADCHKS \<equiv> -3"
abbreviation (input) SREC_MAXRECLEN :: nat where "SREC_MAXRECLEN \<equiv> 516"
abbreviation (input) SREC_MAXBINLEN :: nat where "SREC_MAXBINLEN \<equiv> 255"
abbreviation (input) SREC_BYTES_PER_RECORD :: nat where "SREC_BYTES_PER_RECORD \<equiv> 16"

subsection \<open>The decoder\<close>

definition hex1_bin :: "byte \<Rightarrow> int" where
  "hex1_bin c =
     (if c \<ge> ch CHR ''0'' \<and> c \<le> ch CHR ''9'' then uint c - 0x30
      else if c \<ge> ch CHR ''a'' \<and> c \<le> ch CHR ''f'' then uint c + 10 - 0x61
      else if c \<ge> ch CHR ''A'' \<and> c \<le> ch CHR ''F'' then uint c + 10 - 0x41
      else -1)"

definition hex2_bin :: "cstr \<Rightarrow> int" where
  "hex2_bin s =
     (let i = hex1_bin (peek s)
      in if i < 0 then -1
         else let j = hex1_bin (peek (tl s)) in if j < 0 then -1 else i * 16 + j)"

text \<open>What the caller's variables hold after the call: \<^verbatim>\<open>*count\<close>, \<^verbatim>\<open>*addr\<close> and the bytes stored to \<^verbatim>\<open>data\<close>.\<close>

record srec =
  sr_count :: int
  sr_addr :: u32
  sr_data :: "byte list"

text \<open>The record types: result code, bytes of the address field, and what is taken off the count.\<close>

definition srec_kind :: "byte \<Rightarrow> (int \<times> nat) option" where
  "srec_kind v =
     (if v = ch CHR ''0'' then Some (0, 2) else if v = ch CHR ''1'' then Some (1, 2)
      else if v = ch CHR ''2'' then Some (2, 3) else if v = ch CHR ''3'' then Some (3, 4)
      else if v = ch CHR ''5'' then Some (5, 2) else if v = ch CHR ''7'' then Some (7, 4)
      else if v = ch CHR ''8'' then Some (8, 3) else if v = ch CHR ''9'' then Some (9, 2)
      else None)"

fun srec_addr :: "nat \<Rightarrow> cstr \<Rightarrow> u32 \<Rightarrow> byte \<Rightarrow> bool \<times> u32 \<times> byte \<times> cstr" where
  "srec_addr 0 input addr chksum = (True, addr, chksum, input)"
| "srec_addr (Suc n) input addr chksum =
     (let v = hex2_bin input
      in if v < 0 then (False, addr, chksum, input)
         else srec_addr n (drop 2 input) (push_bit 8 addr + of_int v) (chksum + of_int v))"

fun srec_data :: "nat \<Rightarrow> cstr \<Rightarrow> byte \<Rightarrow> byte list \<Rightarrow> bool \<times> byte list \<times> byte \<times> cstr" where
  "srec_data 0 input chksum data = (True, data, chksum, input)"
| "srec_data (Suc n) input chksum data =
     (let v = hex2_bin input
      in if v < 0 then (False, data, chksum, input)
         else srec_data n (drop 2 input) (chksum + of_int v) (data @ [of_int v]))"

definition srec_decode :: "cstr \<Rightarrow> srec \<Rightarrow> int \<times> srec" where
  "srec_decode input r =
     (let input = tl (dropWhile (\<lambda>c. c \<noteq> ch CHR ''S'') input)
      in if input = [] then (SREC_EMPTY, r)
         else
           let v = hd input; input = tl input; count = hex2_bin input; r = r\<lparr>sr_count := count\<rparr>
           in if count < 0 then (SREC_E_NOSREC, r)
              else
                case srec_kind v of
                  None \<Rightarrow> (SREC_E_BADTYPE, r)
                | Some (srec_type, n) \<Rightarrow>
                    let cnt = (if v = ch CHR ''5'' then 0 else count - int (n + 1));
                        (ok, addr, chksum, input) = srec_addr n (drop 2 input) 0 (of_int count);
                        r = r\<lparr>sr_count := cnt, sr_addr := addr\<rparr>
                    in if \<not> ok then (SREC_E_NOSREC, r)
                       else
                         let (ok, data, chksum, input) = srec_data (nat cnt) input chksum [];
                             r = r\<lparr>sr_data := data\<rparr>; v = hex2_bin input
                         in if \<not> ok \<or> v < 0 then (SREC_E_NOSREC, r)
                            else if (of_int v :: byte) \<noteq> NOT chksum then (SREC_E_BADCHKS, r)
                            else (srec_type, r))"

subsection \<open>Download\<close>

datatype rec_result = Record cstr | Abort

text \<open>\<open>hangup\<close> is the Control-C test after a character, asked only while another console device is selected; it is given
  the number of characters still to come. \<open>n\<close> is the room left in the buffer.\<close>

fun read_record :: "(nat \<Rightarrow> bool) \<Rightarrow> nat \<Rightarrow> cstr \<Rightarrow> byte list \<Rightarrow> (rec_result \<times> byte list) option" where
  "read_record hangup 0 buf inp = Some (Record buf, inp)"
| "read_record hangup (Suc n) buf [] = None"
| "read_record hangup (Suc n) buf (c # inp) =
     (if c = 13 \<or> c = 10 then Some (Record buf, inp)
      else if c = 0 \<or> c = 3 then Some (Abort, inp)
      else if hangup (length inp) then Some (Abort, inp)
      else read_record hangup n (buf @ [c]) inp)"

lemma read_record_shorter:
  "read_record hangup n buf inp = Some (res, inp') \<Longrightarrow> 0 < n \<Longrightarrow> length inp' < length inp"
proof (induction hangup n buf inp rule: read_record.induct)
  case (3 hangup n buf c inp)
  then show ?case by (cases n) (auto split: if_splits intro: less_SucI)
qed simp_all

record dl =
  dl_mem :: mem
  dl_env :: env_state

text \<open>Flash memory as the loader sees it: \<open>addr2info\<close> tells whether an address is in a flash bank, \<open>flash_write\<close>
  programs a block of a given length there and returns 0 or an error code. A negative
  count makes \<^verbatim>\<open>memcpy\<close> run over both buffers.\<close>

type_synonym flash_fn = "byte list \<Rightarrow> u32 \<Rightarrow> u32 \<Rightarrow> mem \<Rightarrow> int \<times> mem"

definition store_record ::
  "(u32 \<Rightarrow> bool) \<Rightarrow> flash_fn \<Rightarrow> srec \<Rightarrow> u32 \<Rightarrow> dl \<Rightarrow> (bool \<times> dl) option" where
  "store_record addr2info flash_write r store_addr s =
     (if addr2info store_addr then
        let (rc, m) = flash_write (sr_data r) store_addr (of_int (sr_count r)) (dl_mem s)
        in Some (rc = 0, s\<lparr>dl_mem := m\<rparr>)
      else if sr_count r < 0 then None
      else Some (True, s\<lparr>dl_mem := mem_write store_addr (sr_data r) (dl_mem s)\<rparr>))"

definition set_filesize :: "u32 \<Rightarrow> env_state \<Rightarrow> env_state option" where
  "set_filesize sz st =
     Option.bind (vsprintf (\<lambda>_. 0) (cs ''%lX'') [VA_word sz])
       (\<lambda>(buf, _). map_option snd (setenv (cs ''filesize'') (Some (butlast buf)) st))"

function load_loop ::
  "(nat \<Rightarrow> bool) \<Rightarrow> (u32 \<Rightarrow> bool) \<Rightarrow> flash_fn \<Rightarrow> u32 \<Rightarrow> srec \<Rightarrow> u32 \<Rightarrow> u32 \<Rightarrow>
     byte list \<Rightarrow> dl \<Rightarrow> (u32 \<times> byte list \<times> dl) option" where
  "load_loop hangup addr2info flash_write offset r start_addr end_addr inp s =
     (case read_record hangup SREC_MAXRECLEN [] inp of
        None \<Rightarrow> None
      | Some (Abort, inp) \<Rightarrow> Some (0xFFFFFFFF, inp, s)
      | Some (Record rec, inp) \<Rightarrow>
          let (type, r) = srec_decode rec r
          in if type < 0 then Some (0xFFFFFFFF, inp, s)
             else if type = 1 \<or> type = 2 \<or> type = 3 then
               let store_addr = sr_addr r + offset
               in case store_record addr2info flash_write r store_addr s of
                    None \<Rightarrow> None
                  | Some (ok, s) \<Rightarrow>
                      if \<not> ok then Some (0xFFFFFFFF, inp, s)
                      else
                        let last = store_addr + of_int (sr_count r) - 1
                        in load_loop hangup addr2info flash_write offset r
                             (if store_addr < start_addr then store_addr else start_addr)
                             (if last > end_addr then last else end_addr) inp s
             else if type = 7 \<or> type = 8 \<or> type = 9 then
               map_option (\<lambda>e. (sr_addr r, inp, s\<lparr>dl_env := e\<rparr>))
                 (set_filesize (end_addr - start_addr + 1) (dl_env s))
             else load_loop hangup addr2info flash_write offset r start_addr end_addr inp s)"
  by pat_completeness auto
termination
  by (relation "measure (\<lambda>(hangup, addr2info, flash_write, offset, r, start_addr, end_addr, inp, s). length inp)")
     (auto dest!: read_record_shorter)

declare load_loop.simps [simp del]

text \<open>\<open>garbage\<close> is what the uninitialised variables of the caller hold.\<close>

definition load_serial ::
  "srec \<Rightarrow> (nat \<Rightarrow> bool) \<Rightarrow> (u32 \<Rightarrow> bool) \<Rightarrow> flash_fn \<Rightarrow> u32 \<Rightarrow> byte list \<Rightarrow> dl \<Rightarrow>
     (u32 \<times> byte list \<times> dl) option" where
  "load_serial garbage hangup addr2info flash_write offset inp s =
     load_loop hangup addr2info flash_write offset garbage 0xFFFFFFFF 0 inp s"

text \<open>The \<^verbatim>\<open>loads\<close> command. \<open>avail\<close> tells at which of the hundred polls after the download a character has arrived.\<close>

fun wait_esc :: "byte list \<Rightarrow> byte list option" where
  "wait_esc [] = None"
| "wait_esc (c # inp) = (if c = 0x1B then Some inp else wait_esc inp)"

fun gather :: "(nat \<Rightarrow> bool) \<Rightarrow> nat \<Rightarrow> byte list \<Rightarrow> byte list" where
  "gather avail 0 inp = inp"
| "gather avail (Suc n) inp = gather avail n (if avail n \<and> inp \<noteq> [] then tl inp else inp)"

definition do_load_serial ::
  "srec \<Rightarrow> (nat \<Rightarrow> bool) \<Rightarrow> (nat \<Rightarrow> bool) \<Rightarrow> (u32 \<Rightarrow> bool) \<Rightarrow> flash_fn \<Rightarrow> cstr list \<Rightarrow> dl \<Rightarrow> (int \<times> dl) option"
where
  "do_load_serial garbage hangup avail addr2info flash_write argv s =
     (let current_baudrate = gd_baudrate (dl_env s);
          offset = (if 2 \<le> length argv then fst (simple_strtol (argv ! 1) 16) else 0);
          load_baudrate = (if length argv = 3
             then let b = fst (simple_strtoul (argv ! 2) 10) in if b = 0 then current_baudrate else b
             else current_baudrate);
          inp = con_in (dl_env s)
      in Option.bind (if load_baudrate \<noteq> current_baudrate then wait_cr inp else Some inp) (\<lambda>inp.
         Option.bind (load_serial garbage hangup addr2info flash_write offset inp
                        (s\<lparr>dl_env := (dl_env s)\<lparr>gd_baudrate := load_baudrate\<rparr>\<rparr>)) (\<lambda>(addr, inp, s).
           let inp = gather avail 100 inp;
               (rcode, e) = (if addr = 0xFFFFFFFF then (1, dl_env s) else (0, (dl_env s)\<lparr>load_addr := addr\<rparr>))
           in map_option (\<lambda>inp. (rcode, s\<lparr>dl_env := e\<lparr>gd_baudrate := current_baudrate, con_in := inp\<rparr>\<rparr>))
                (if load_baudrate \<noteq> current_baudrate then wait_esc inp else Some inp))))"

subsection \<open>Upload\<close>

text \<open>\<open>intr\<close> is the Control-C test after each record, numbered from 0; the output is the list of bytes sent.\<close>

definition hex_upper :: "byte list" where
  "hex_upper = cs ''0123456789ABCDEF''"

definition srec3_record :: "u32 \<Rightarrow> u32 \<Rightarrow> byte list \<Rightarrow> u32 \<Rightarrow> byte list option" where
  "srec3_record len address data checksum =
     map_option (\<lambda>(s, _). butlast s)
       (vsprintf (\<lambda>_. 0) (cs ''S3%02X%08lX%s%02X'' @ [10]) [VA_word len, VA_word address, VA_str (Some data), VA_word checksum])"

definition save_flush :: "u32 \<Rightarrow> nat \<Rightarrow> u32 \<Rightarrow> byte list \<Rightarrow> byte list option" where
  "save_flush address reclen checksum data =
     (let len = of_nat (4 + reclen + 1);
          checksum = checksum + (len AND 0xff) + (drop_bit 8 len AND 0xff);
          checksum = checksum + (address AND 0xff) + (drop_bit 8 address AND 0xff)
            + (drop_bit 16 address AND 0xff) + (drop_bit 24 address AND 0xff)
      in srec3_record len address data (NOT checksum AND 0xff))"

function save_loop ::
  "mem \<Rightarrow> (nat \<Rightarrow> bool) \<Rightarrow> u32 \<Rightarrow> u32 \<Rightarrow> nat \<Rightarrow> u32 \<Rightarrow> byte list \<Rightarrow> nat \<Rightarrow> byte list \<Rightarrow>
     (int \<times> nat \<times> byte list) option" where
  "save_loop m intr address count reclen checksum data k out =
     (let (count', reclen, checksum, data) =
        (if count \<noteq> 0 then
           let c = m (address + of_nat reclen)
           in (count - 1, reclen + 1, checksum + ucast c,
               data @ [hex_upper ! unat (drop_bit 4 c AND 0x0f), hex_upper ! unat (c AND 0x0f)])
         else (count, reclen, checksum, data))
      in if reclen = SREC_BYTES_PER_RECORD \<or> count' = 0 then
           (if reclen \<noteq> 0 then
              case save_flush address reclen checksum data of
                None \<Rightarrow> None
              | Some rec \<Rightarrow>
                  if intr k then Some (-1, k + 1, out @ rec)
                  else if count' \<noteq> 0 then save_loop m intr (address + of_nat reclen) count' 0 0 [] (k + 1) (out @ rec)
                  else Some (0, k + 1, out @ rec)
            else Some (0, k, out))
         else save_loop m intr address count' reclen checksum data k out)"
  by pat_completeness auto
termination
  by (relation "measure (\<lambda>(m, intr, address, count, _). unat count)")
     (auto simp: Let_def unat_minus_one unat_gt_0 split: if_splits)

declare save_loop.simps [simp del]

definition save_serial :: "mem \<Rightarrow> (nat \<Rightarrow> bool) \<Rightarrow> u32 \<Rightarrow> u32 \<Rightarrow> (int \<times> byte list) option" where
  "save_serial m intr address count =
     (let out = cs ''S0030000FC'' @ [10]
      in if intr 0 then Some (-1, out)
         else case save_loop m intr address count 0 0 [] 1 out of
                None \<Rightarrow> None
              | Some (rc, k, out) \<Rightarrow>
                  if rc \<noteq> 0 then Some (-1, out)
                  else Some (if intr k then -1 else 0, out @ cs ''S70500000000FA'' @ [10]))"

end
