(* ===== verification/SrecProps.thy ===== *)
theory SrecProps
  imports Srec
begin

text \<open>
  Properties of the S-record code: the decoder inverts the record format and rejects a record with a changed byte;
  what the upload sends is what the download stores, for any block of memory.
\<close>

subsection \<open>The record format\<close>

definition hex_byte :: "byte \<Rightarrow> cstr" where
  "hex_byte b = [hex_upper ! (unat b div 16), hex_upper ! (unat b mod 16)]"

definition hex_bytes :: "byte list \<Rightarrow> cstr" where
  "hex_bytes bs = concat (map hex_byte bs)"

lemma hex_bytes_simps [simp]:
  "hex_bytes [] = []" "hex_bytes (b # bs) = hex_byte b @ hex_bytes bs"
  "hex_bytes (bs @ bs') = hex_bytes bs @ hex_bytes bs'"
  by (simp_all add: hex_bytes_def)

lemma length_hex_byte [simp]: "length (hex_byte b) = 2"
  by (simp add: hex_byte_def)

lemma length_hex_bytes [simp]: "length (hex_bytes bs) = 2 * length bs"
  by (induction bs) simp_all

lemma hex_upper_digit:
  assumes "d < 16"
  shows "hex1_bin (hex_upper ! d) = int d" "hex_upper ! d \<notin> {0, 3, 10, 13, ch CHR ''S''}"
proof -
  have "list_all (\<lambda>d. hex1_bin (hex_upper ! d) = int d \<and> hex_upper ! d \<notin> {0, 3, 10, 13, ch CHR ''S''}) [0..<16]"
    by code_simp
  then show "hex1_bin (hex_upper ! d) = int d" "hex_upper ! d \<notin> {0, 3, 10, 13, ch CHR ''S''}"
    using assms by (simp_all add: list_all_iff)
qed

lemma byte_nibbles: "unat (b :: byte) div 16 < 16" "unat b mod 16 < 16"
  using byte_less_256 [of b] by simp_all

lemma hex2_bin_hex_byte [simp]: "hex2_bin (hex_byte b @ rest) = uint b"
proof -
  have "int (unat b div 16) * 16 + int (unat b mod 16) = int (unat b)" by presburger
  then show ?thesis
    using byte_nibbles [of b] by (simp add: hex_byte_def hex2_bin_def Let_def hex_upper_digit)
qed

lemma hex_byte_plain: "\<forall>c \<in> set (hex_byte b). c \<notin> {0, 3, 10, 13, ch CHR ''S''}"
  using byte_nibbles [of b] hex_upper_digit(2) by (auto simp: hex_byte_def)

lemma hex_bytes_plain: "c \<in> set (hex_bytes bs) \<Longrightarrow> c \<notin> {0, 3, 10, 13, ch CHR ''S''}"
  using hex_byte_plain by (fastforce simp: hex_bytes_def)

lemma drop2_hex_byte [simp]: "drop 2 (hex_byte b @ rest) = rest"
  by simp

lemma srec_addr_hex:
  "srec_addr (length bs) (hex_bytes bs @ rest) a c =
     (True, foldl (\<lambda>a b. push_bit 8 a + ucast b) a bs, c + sum_list bs, rest)"
  by (induction bs arbitrary: a c)
     (simp_all add: Let_def add.assoc flip: unsigned_ucast_eq)

lemma srec_data_hex:
  "srec_data (length bs) (hex_bytes bs @ rest) c d = (True, d @ bs, c + sum_list bs, rest)"
  by (induction bs arbitrary: c d) (simp_all add: Let_def add.assoc)

definition addr_val :: "byte list \<Rightarrow> u32" where
  "addr_val bs = foldl (\<lambda>a b. push_bit 8 a + ucast b) 0 bs"

lemma addr_val_be32: "addr_val (be32_bytes w) = w"
proof -
  have "push_bit 8 a + ucast (b :: byte) = push_bit 8 a OR (ucast b :: u32)" for a b
    by (rule disjunctive_add) (auto simp: bit_simps dest: bit_imp_le_length)
  then have "addr_val (be32_bytes w) =
      be32_val (ucast (drop_bit 24 w)) (ucast (drop_bit 16 w)) (ucast (drop_bit 8 w)) (ucast w)"
    by (simp add: addr_val_def be32_bytes_def be32_val_def push_bit_or or.assoc)
  then show ?thesis by (simp add: be32_val_bytes)
qed

text \<open>A record whose count field is right: type, count, address, data and check byte. Characters before the \<^verbatim>\<open>S\<close>
  and after the check byte are ignored.\<close>

definition srec_line :: "cstr \<Rightarrow> byte \<Rightarrow> byte list \<Rightarrow> byte list \<Rightarrow> byte \<Rightarrow> cstr \<Rightarrow> cstr" where
  "srec_line pre v addr data chk post =
     pre @ ch CHR ''S'' # v # hex_bytes (of_nat (length addr + length data + 1) # addr @ data @ [chk]) @ post"

lemma dropWhile_line: "x \<notin> set pre \<Longrightarrow> dropWhile (\<lambda>c. c \<noteq> x) (pre @ x # rest) = x # rest"
  by (simp add: dropWhile_append3) (induction pre, auto)

lemma srec_decode_line:
  assumes "ch CHR ''S'' \<notin> set pre" and k: "srec_kind v = Some (t, length addr)"
    and v: "v \<noteq> ch CHR ''5''" and len: "length addr + length data + 1 < 256"
  shows "srec_decode (srec_line pre v addr data chk post) r =
    (if chk = NOT (of_nat (length addr + length data + 1) + sum_list addr + sum_list data) then t else SREC_E_BADCHKS,
     r\<lparr>sr_count := int (length data), sr_addr := addr_val addr, sr_data := data\<rparr>)"
proof -
  let ?len = "length addr + length data + 1"
  have u: "uint (of_nat ?len :: byte) = int ?len"
    using len unat_of_nat_byte [of ?len] by (metis of_nat_unat)
  have d: "tl (dropWhile (\<lambda>c. c \<noteq> ch CHR ''S'') (srec_line pre v addr data chk post)) =
      v # hex_byte (of_nat ?len) @ hex_bytes addr @ hex_bytes data @ hex_byte chk @ post"
    unfolding srec_line_def by (subst dropWhile_line [OF assms(1)]) simp
  have n: "int ?len - int (length addr + 1) = int (length data)" by simp
  have c: "(of_int (int ?len) :: byte) = of_nat ?len" by (rule of_int_of_nat_eq)
  show ?thesis
    unfolding srec_decode_def d Let_def list.sel hex2_bin_hex_byte u k option.case prod.case n c
    using v by (simp add: srec_addr_hex srec_data_hex addr_val_def add.assoc del: of_nat_add of_nat_Suc)
qed

text \<open>A record of any type but 5, whatever precedes its \<^verbatim>\<open>S\<close> and follows its check byte, is decoded to its type,
  data length, address and data exactly if the check byte is the complement of the sum of the other
  bytes; otherwise the result is the checksum error.\<close>

theorem srec_decode_correct:
  assumes "ch CHR ''S'' \<notin> set pre" and "srec_kind v = Some (t, length addr)"
    and "v \<noteq> ch CHR ''5''" and "length addr + length data + 1 < 256"
  shows "srec_decode (srec_line pre v addr data chk post) r =
    (if chk = NOT (of_nat (length addr + length data + 1) + sum_list addr + sum_list data) then t else SREC_E_BADCHKS,
     r\<lparr>sr_count := int (length data), sr_addr := addr_val addr, sr_data := data\<rparr>)"
  by (rule srec_decode_line [OF assms])

theorem srec_decode_correct_witness:
  "srec_decode (cs ''  S30700000440AB0108..'') \<lparr>sr_count = 0, sr_addr = 0, sr_data = []\<rparr>
     = (3, \<lparr>sr_count = 2, sr_addr = 0x440, sr_data = [0xAB, 1]\<rparr>)"
proof -
  let ?r = "\<lparr>sr_count = 0, sr_addr = 0, sr_data = []\<rparr>"
  have "srec_decode (srec_line (cs ''  '') (ch CHR ''3'') [0, 0, 4, 0x40] [0xAB, 1] 8 (cs ''..'')) ?r
      = (3, \<lparr>sr_count = 2, sr_addr = 0x440, sr_data = [0xAB, 1]\<rparr>)"
    by (subst srec_decode_correct [where t = 3]) (simp_all add: cs_def srec_kind_def addr_val_def)
  then show ?thesis by (simp add: srec_line_def hex_byte_def hex_upper_def cs_def)
qed

subsection \<open>Printing of records\<close>

text \<open>The hexadecimal digits of a number in a field of fixed width, least significant first.\<close>

primrec hexd :: "nat \<Rightarrow> nat \<Rightarrow> nat list" where
  "hexd 0 n = []"
| "hexd (Suc w) n = n mod 16 # hexd w (n div 16)"

lemma hexd_0: "hexd w 0 = replicate w 0"
  by (induction w) simp_all

lemma base_digits_pad:
  "n < 16 ^ Suc w \<Longrightarrow> base_digits 16 n @ replicate (Suc w - length (base_digits 16 n)) 0 = hexd (Suc w) n"
proof (induction w arbitrary: n)
  case 0
  then show ?case by (simp add: base_digits_small)
next
  case (Suc w)
  show ?case
  proof (cases "n < 16")
    case True
    then show ?thesis by (simp add: base_digits_small hexd_0)
  next
    case False
    have "n div 16 < 16 ^ Suc w" using Suc.prems by (simp add: less_mult_imp_div_less mult.commute)
    from Suc.IH [OF this] False show ?thesis by (simp add: base_digits_step)
  qed
qed

lemma hex_case_0: "hex_case 0 d = hex_upper ! d"
  by (simp add: hex_case_def hex_upper_def number_digits_def)

lemma number_tmp_upper: "number_tmp num 16 0 = map ((!) hex_upper) (base_digits 16 (unat num))"
  by (auto simp: number_tmp_def number_pow2_correct base_digits_small unat_eq_0 hex_case_0 hex_upper_def cs_def)

lemma number_zeropad_hex:
  assumes "unat num < 16 ^ Suc w"
  shows "number num 16 (int (Suc w)) (-1) ZEROPAD = rev (map ((!) hex_upper) (hexd (Suc w) (unat num)))"
proof -
  let ?d = "base_digits 16 (unat num)"
  have sg: "number_sign num ZEROPAD (int (Suc w)) = (0, num, int (Suc w))" by (simp add: number_sign_def)
  have l: "length ?d \<le> Suc w" using length_base_digits [OF _ assms] by simp
  have "number num 16 (int (Suc w)) (-1) ZEROPAD =
      replicate (Suc w - length ?d) 0x30 @ rev (map ((!) hex_upper) ?d)"
    by (subst number_unfold [OF sg _ refl refl refl refl])
       (simp_all add: number_tmp_upper nat_diff_distrib del: of_nat_Suc)
  also have "\<dots> = rev (map ((!) hex_upper) (?d @ replicate (Suc w - length ?d) 0))"
    by (simp add: hex_upper_def cs_def)
  finally show ?thesis unfolding base_digits_pad [OF assms] .
qed

lemma hexd_2: "hexd 2 n = [n mod 16, n div 16 mod 16]"
proof -
  have two: "(2 :: nat) = Suc (Suc 0)" by simp
  show ?thesis unfolding two hexd.simps ..
qed

lemma hexd_add: "hexd (w + w') n = hexd w n @ hexd w' (n div 16 ^ w)"
  by (induction w arbitrary: n) (simp_all add: div_mult2_eq)

lemma hexd_8_split: "hexd 8 n = hexd 2 n @ hexd 2 (n div 256) @ hexd 2 (n div 65536) @ hexd 2 (n div 16777216)"
  using hexd_add [of 2 6 n] hexd_add [of 2 4 "n div 256"] hexd_add [of 2 2 "n div 65536"]
  by (simp flip: div_mult2_eq)

lemma hex_byte_mod:
  assumes "unat b = n mod 256"
  shows "hex_byte b = [hex_upper ! (n div 16 mod 16), hex_upper ! (n mod 16)]"
proof -
  have "n mod 256 div 16 = n div 16 mod 16" using mod_mult2_eq [of n 16 16] by simp
  moreover have "n mod 256 mod 16 = n mod 16" by (simp add: mod_mod_cancel)
  ultimately show ?thesis by (simp add: hex_byte_def assms)
qed

lemma hexd_8: "rev (map ((!) hex_upper) (hexd 8 (unat w))) = hex_bytes (be32_bytes w)"
proof -
  have b: "unat (ucast (drop_bit k w) :: byte) = unat w div 2 ^ k mod 256" for k
    by (simp add: unat_ucast_mod unat_drop_bit)
  have "hex_bytes (be32_bytes w) = hex_byte (ucast (drop_bit 24 w)) @ hex_byte (ucast (drop_bit 16 w)) @
      hex_byte (ucast (drop_bit 8 w)) @ hex_byte (ucast (drop_bit 0 w))" by (simp add: be32_bytes_def)
  then show ?thesis unfolding hex_byte_mod [OF b] hexd_8_split hexd_2 by simp
qed

lemma number_hex_byte: "number (ucast w) 16 2 (-1) ZEROPAD = hex_byte (ucast (w :: u32))" if "unat w < 256"
proof -
  have "unat (ucast w :: byte) = unat w mod 256" by (simp add: unat_ucast_mod)
  note h = hex_byte_mod [OF this]
  have "number (ucast w) 16 2 (-1) ZEROPAD = rev (map ((!) hex_upper) (hexd 2 (unat w)))"
    using number_zeropad_hex [of "ucast w" 1] that by (simp add: hexd_2)
  then show ?thesis unfolding h hexd_2 by simp
qed

lemma number_hex_u32: "number (ucast w) 16 8 (-1) ZEROPAD = hex_bytes (be32_bytes (w :: u32))"
  using number_zeropad_hex [of "ucast w" 7] u32_less [of w] hexd_8 [of w] by simp

lemma srec3_record_text:
  assumes "unat len < 256" "unat chk < 256" "length data < 2 ^ 32"
  shows "srec3_record len address data chk =
    Some (cs ''S3'' @ hex_byte (ucast len) @ hex_bytes (be32_bytes address) @ data @ hex_byte (ucast chk) @ [10])"
proof -
  have st: "string_fmt (Some data) (-1) (-1) 0 = data"
    using assms(3) by (simp add: string_fmt_def width_loop_def)
  show ?thesis
    unfolding srec3_record_def
    by (simp add: vsprintf_def cs_def vsprintf_spec_def parse_width_def parse_precision_def skip_atoi_def
        parse_qualifier_def format_conv_def fetch_num_def st number_hex_byte number_hex_u32 assms
        butlast_append)
qed

subsection \<open>Upload\<close>

text \<open>The data record of a block of at most 16 bytes, without its line end.\<close>

definition data_record :: "u32 \<times> byte list \<Rightarrow> cstr" where
  "data_record ab =
     srec_line [] (ch CHR ''3'') (be32_bytes (fst ab)) (snd ab)
       (NOT (of_nat (5 + length (snd ab)) + sum_list (be32_bytes (fst ab)) + sum_list (snd ab))) []"

lemma ucast_byte_add: "(ucast (x + y :: u32) :: byte) = ucast x + ucast y"
  by (rule word_unat_eq_iff [THEN iffD2]) (simp add: unat_ucast_mod unat_word_ariths mod_mod_cancel mod_simps)

lemma ucast_u32_byte: "(ucast (ucast b :: u32) :: byte) = b"
  by (rule bit_word_eqI) (auto simp: bit_simps)

lemma ucast_sum_list: "(ucast (sum_list (map ucast (bs :: byte list)) :: u32) :: byte) = sum_list bs"
  by (induction bs) (simp_all add: ucast_byte_add ucast_u32_byte)

lemma and_ff_take: "(w AND 0xff :: u32) = take_bit 8 w"
  unfolding take_bit_eq_mask by (simp add: mask_eq_exp_minus_1)

lemma ucast_and_byte: "(ucast (w AND 0xff :: u32) :: byte) = ucast w"
  unfolding and_ff_take by (rule bit_word_eqI) (auto simp: bit_simps)

lemma unat_and_ff: "unat (w AND 0xff :: u32) < 256"
  unfolding and_ff_take unsigned_take_bit_eq by (simp add: take_bit_eq_mod)

lemma ucast_not_byte: "(ucast (NOT w :: u32) :: byte) = NOT (ucast w)"
  by (rule bit_word_eqI) (auto simp: bit_simps)

lemma save_flush_record:
  assumes "length bs \<le> 16" "chk = sum_list (map ucast bs)"
  shows "save_flush address (length bs) chk (hex_bytes bs) = Some (data_record (address, bs) @ [10])"
proof -
  let ?len = "of_nat (4 + length bs + 1) :: u32"
  have l: "unat ?len = 5 + length bs" using assms(1) unat_of_nat_u32 [of "4 + length bs + 1"] by simp
  have lu: "(ucast ?len :: byte) = of_nat (5 + length bs)"
    by (rule word_unat_eq_iff [THEN iffD2]) (use l assms(1) unat_of_nat_byte [of "5 + length bs"] in
          \<open>simp add: unat_ucast_mod del: of_nat_add\<close>)
  have hi: "drop_bit 8 ?len = 0"
    by (rule word_unat_eq_iff [THEN iffD2]) (use l assms(1) in \<open>simp add: unat_drop_bit\<close>)
  let ?c = "chk + (?len AND 0xff) + (drop_bit 8 ?len AND 0xff) + (address AND 0xff) + (drop_bit 8 address AND 0xff)
            + (drop_bit 16 address AND 0xff) + (drop_bit 24 address AND 0xff)"
  have c: "(ucast (NOT ?c AND 0xff) :: byte) =
      NOT (of_nat (5 + length bs) + sum_list (be32_bytes address) + sum_list bs)"
    unfolding hi ucast_and_byte ucast_not_byte ucast_byte_add lu assms(2) ucast_sum_list be32_bytes_def
    by (simp add: ac_simps)
  have "save_flush address (length bs) chk (hex_bytes bs) = srec3_record ?len address (hex_bytes bs) (NOT ?c AND 0xff)"
    by (simp only: save_flush_def Let_def add.assoc)
  also have "\<dots> = Some (data_record (address, bs) @ [10])"
    using srec3_record_text [of ?len "NOT ?c AND 0xff" "hex_bytes bs" address] assms(1) l unat_and_ff
    unfolding c lu by (simp add: data_record_def srec_line_def cs_def)
  finally show ?thesis .
qed

function chunks :: "byte list \<Rightarrow> byte list list" where
  "chunks xs = (if xs = [] then [] else take 16 xs # chunks (drop 16 xs))"
  by pat_completeness auto
termination by (relation "measure length") auto

declare chunks.simps [simp del]

lemma chunks_short: "xs \<noteq> [] \<Longrightarrow> length xs \<le> 16 \<Longrightarrow> chunks xs = [xs]"
  by (simp add: chunks.simps)

lemma chunks_16: "length xs = 16 \<Longrightarrow> chunks (xs @ ys) = xs # chunks ys"
  by (subst chunks.simps) auto

lemma concat_chunks [simp]: "concat (chunks xs) = xs"
  by (induction xs rule: chunks.induct) (subst chunks.simps, simp)

lemma length_chunks: "xs \<in> set (chunks ys) \<Longrightarrow> xs \<noteq> [] \<and> length xs \<le> 16"
proof (induction ys rule: chunks.induct)
  case (1 ys)
  then show ?case by (subst (asm) chunks.simps) (auto split: if_splits)
qed

lemma hex_byte_code: "[hex_upper ! unat (drop_bit 4 c AND 0x0f), hex_upper ! unat (c AND 0x0f)] = hex_byte c"
proof -
  have m: "(w AND 0x0f :: byte) = take_bit 4 w" for w
    unfolding take_bit_eq_mask by (simp add: mask_eq_exp_minus_1)
  show ?thesis
    using byte_less_256 [of c]
    unfolding m unsigned_take_bit_eq hex_byte_def unat_drop_bit by (simp add: take_bit_eq_mod)
qed

abbreviation (input) data_lines :: "(u32 \<times> byte list) list \<Rightarrow> byte list" where
  "data_lines rs \<equiv> concat (map (\<lambda>ab. data_record ab @ [10]) rs)"

lemma save_step:
  assumes "count \<noteq> 0" "length bs < 16" "c = m (a + of_nat (length bs))"
  shows "save_loop m intr a count (length bs) (sum_list (map ucast bs)) (hex_bytes bs) k out =
    (if Suc (length bs) = 16 \<or> count - 1 = 0 then
       if intr k then Some (-1, k + 1, out @ data_record (a, bs @ [c]) @ [10])
       else if count - 1 \<noteq> 0 then
         save_loop m intr (a + of_nat (Suc (length bs))) (count - 1) 0 0 [] (k + 1) (out @ data_record (a, bs @ [c]) @ [10])
       else Some (0, k + 1, out @ data_record (a, bs @ [c]) @ [10])
     else save_loop m intr a (count - 1) (length (bs @ [c])) (sum_list (map ucast (bs @ [c])))
            (hex_bytes (bs @ [c])) k out)"
  using assms save_flush_record [of "bs @ [c]" _ a]
  by (subst save_loop.simps) (simp add: Let_def hex_byte_code)

lemma save_loop_lines:
  assumes "\<forall>k. \<not> intr k"
  shows "length bs < 16 \<Longrightarrow> bs = mem_read a (length bs) m \<Longrightarrow> count \<noteq> 0 \<Longrightarrow>
    \<exists>k'. save_loop m intr a count (length bs) (sum_list (map ucast bs)) (hex_bytes bs) k out =
      Some (0, k', out @ data_lines (spread a (chunks (mem_read a (length bs + unat count) m))))"
proof (induction "unat count" arbitrary: count bs a k out rule: less_induct)
  case less
  let ?c = "m (a + of_nat (length bs))"
  have c1: "unat (count - 1) = unat count - 1" "0 < unat count"
    using less.prems(3) by (simp_all add: unat_minus_one unat_gt_0)
  then have lt: "unat (count - 1) < unat count" by simp
  have bs': "bs @ [?c] = mem_read a (length (bs @ [?c])) m"
    using less.prems(2) by (simp add: mem_read_Suc)
  note st = save_step [OF less.prems(3,1) refl]
  have len: "length bs + unat count = length (bs @ [?c]) + unat (count - 1)" using c1 by simp
  have rd: "mem_read a (length bs + unat count) m =
      (bs @ [?c]) @ mem_read (a + of_nat (length (bs @ [?c]))) (unat (count - 1)) m"
    unfolding len mem_read_append using bs' by simp
  show ?case
  proof (cases "count - 1 = 0")
    case True
    then show ?thesis using less.prems assms unfolding st rd by (simp add: chunks_short)
  next
    case False
    show ?thesis
    proof (cases "Suc (length bs) = 16")
      case True
      obtain k' where "save_loop m intr (a + of_nat 16) (count - 1) 0 0 [] (k + 1) (out @ data_record (a, bs @ [?c]) @ [10])
          = Some (0, k', (out @ data_record (a, bs @ [?c]) @ [10]) @
              data_lines (spread (a + of_nat 16) (chunks (mem_read (a + of_nat 16) (unat (count - 1)) m))))"
        using less.hyps [OF lt, of "[]" "a + of_nat 16" "k + 1" "out @ data_record (a, bs @ [?c]) @ [10]"] False by auto
      moreover have "chunks ((bs @ [?c]) @ ys) = (bs @ [?c]) # chunks ys" for ys using True by (intro chunks_16) simp
      ultimately show ?thesis using True False assms unfolding st rd by simp
    next
      case ne: False
      have "length (bs @ [?c]) < 16" using ne less.prems(1) by simp
      from less.hyps [OF lt this bs' False] show ?thesis
        using ne False unfolding st len by simp
    qed
  qed
qed

subsection \<open>Download\<close>

lemma read_record_line:
  assumes "\<forall>k. \<not> hangup k"
  shows "\<forall>c \<in> set l. c \<notin> {0, 3, 10, 13} \<Longrightarrow> length l < n \<Longrightarrow>
    read_record hangup n buf (l @ 10 # rest) = Some (Record (buf @ l), rest)"
proof (induction l arbitrary: n buf)
  case Nil
  then show ?case by (cases n) simp_all
next
  case (Cons c l)
  then show ?case using assms by (cases n) simp_all
qed

lemma srec_line_plain:
  "v \<notin> {0, 3, 10, 13} \<Longrightarrow> \<forall>c \<in> set (srec_line [] v addr data chk []). c \<notin> {0, 3, 10, 13}"
  using hex_bytes_plain by (fastforce simp: srec_line_def simp del: hex_bytes_simps(2,3))

lemma load_line:
  assumes h: "\<forall>k. \<not> hangup k" and k: "srec_kind v = Some (t, length addr)" and v: "v \<notin> {0, 3, 10, 13, ch CHR ''5''}"
    and len: "length addr + length data + 1 < 256"
    and chk: "chk = NOT (of_nat (length addr + length data + 1) + sum_list addr + sum_list data)"
    and r': "r' = r\<lparr>sr_count := int (length data), sr_addr := addr_val addr, sr_data := data\<rparr>"
  shows "load_loop hangup addr2info flash_write offset r st en (srec_line [] v addr data chk [] @ 10 # rest) s =
    (if t = 1 \<or> t = 2 \<or> t = 3 then
       let store_addr = sr_addr r' + offset
       in case store_record addr2info flash_write r' store_addr s of
            None \<Rightarrow> None
          | Some (ok, s) \<Rightarrow>
              if \<not> ok then Some (0xFFFFFFFF, rest, s)
              else load_loop hangup addr2info flash_write offset r' (min store_addr st)
                     (max (store_addr + of_int (sr_count r') - 1) en) rest s
     else if t = 7 \<or> t = 8 \<or> t = 9 then
       map_option (\<lambda>e. (sr_addr r', rest, s\<lparr>dl_env := e\<rparr>)) (set_filesize (en - st + 1) (dl_env s))
     else load_loop hangup addr2info flash_write offset r' st en rest s)"
proof -
  let ?l = "srec_line [] v addr data chk []"
  have rr: "read_record hangup SREC_MAXRECLEN [] (?l @ 10 # rest) = Some (Record ?l, rest)"
  proof -
    have "length ?l < SREC_MAXRECLEN" using len by (simp add: srec_line_def)
    moreover have "\<forall>c \<in> set ?l. c \<notin> {0, 3, 10, 13}" using v by (intro srec_line_plain) blast
    ultimately show ?thesis using read_record_line [OF h, of ?l SREC_MAXRECLEN "[]" rest] by (simp only: append_Nil)
  qed
  have d: "srec_decode ?l r = (t, r')"
    using srec_decode_line [of "[]" v t addr data chk "[]" r] k v len chk r' by simp
  have t: "\<not> t < 0" using k by (auto simp: srec_kind_def split: if_splits)
  have mm: "(if x < y then x else y) = min x y" "(if x > y then x else y) = max x y" for x y :: u32
    by (auto simp: min_def max_def)
  show ?thesis
    unfolding load_loop.simps [of hangup addr2info flash_write offset r st en] rr d Let_def
    using t by (simp only: option.case rec_result.case prod.case mm if_False d)
qed

lemma load_data_record:
  assumes h: "\<forall>k. \<not> hangup k" and "length bs \<le> 16" and f: "\<not> addr2info (a + offset)"
  shows "\<exists>r'. load_loop hangup addr2info flash_write offset r st en (data_record (a, bs) @ 10 # rest) s =
    load_loop hangup addr2info flash_write offset r' (min (a + offset) st)
      (max (a + offset + of_nat (length bs) - 1) en) rest (s\<lparr>dl_mem := mem_write (a + offset) bs (dl_mem s)\<rparr>)"
proof -
  let ?chk = "NOT (of_nat (5 + length bs) + sum_list (be32_bytes a) + sum_list bs)"
  have k: "srec_kind (ch CHR ''3'') = Some (3, length (be32_bytes a))" by (simp add: srec_kind_def)
  have c: "?chk = NOT (of_nat (length (be32_bytes a) + length bs + 1) + sum_list (be32_bytes a) + sum_list bs)"
    by (simp add: ac_simps)
  have l: "length (be32_bytes a) + length bs + 1 < 256" using assms(2) by simp
  have v: "ch CHR ''3'' \<notin> {0, 3, 10, 13, ch CHR ''5''}" by simp
  let ?r = "r\<lparr>sr_count := int (length bs), sr_addr := a, sr_data := bs\<rparr>"
  have "load_loop hangup addr2info flash_write offset r st en (data_record (a, bs) @ 10 # rest) s =
    load_loop hangup addr2info flash_write offset ?r (min (a + offset) st)
      (max (a + offset + of_nat (length bs) - 1) en) rest (s\<lparr>dl_mem := mem_write (a + offset) bs (dl_mem s)\<rparr>)"
    unfolding data_record_def fst_conv snd_conv load_line [OF h k v l c refl] addr_val_be32
    using f by (simp add: store_record_def Let_def)
  then show ?thesis ..
qed

lemma unat_last:
  assumes "unat b + n \<le> 4294967296" "0 < n"
  shows "unat (b + of_nat n - 1 :: u32) = unat b + n - 1"
proof -
  have e: "b + of_nat n - 1 = b + of_nat (n - 1)" using assms(2) by (cases n) simp_all
  have u: "unat (of_nat (n - 1) :: u32) = n - 1" using assms by (intro unat_of_nat_u32) simp
  then have "unat (b + of_nat (n - 1)) = unat b + unat (of_nat (n - 1) :: u32)"
    using assms by (intro unat_add_le) simp
  then show ?thesis unfolding e u using assms(2) by simp
qed

lemma min_skip: "x \<le> y \<Longrightarrow> min y (min x z) = min x (z :: 'a :: linorder)"
  by (auto simp: min_def)

lemma max_skip: "x \<le> y \<Longrightarrow> max y (max x z) = max y (z :: 'a :: linorder)"
  by (auto simp: max_def)

lemma load_lines:
  assumes h: "\<forall>k. \<not> hangup k"
  shows "\<forall>xs \<in> set xss. xs \<noteq> [] \<and> length xs \<le> 16 \<Longrightarrow> \<forall>i < length (concat xss). \<not> addr2info (a + offset + of_nat i) \<Longrightarrow>
    unat (a + offset) + length (concat xss) \<le> 4294967296 \<Longrightarrow>
    \<exists>r'. load_loop hangup addr2info flash_write offset r st en (data_lines (spread a xss) @ rest) s =
      load_loop hangup addr2info flash_write offset r'
        (if xss = [] then st else min (a + offset) st)
        (if xss = [] then en else max (a + offset + of_nat (length (concat xss)) - 1) en) rest
        (s\<lparr>dl_mem := mem_write (a + offset) (concat xss) (dl_mem s)\<rparr>)"
proof (induction xss arbitrary: a r st en s)
  case Nil
  then show ?case by (cases s) auto
next
  case (Cons xs xss)
  let ?b = "a + offset" and ?a' = "a + of_nat (length xs)"
  let ?n = "length xs" and ?t = "length (concat xss)"
  have x: "xs \<noteq> []" "?n \<le> 16" using Cons.prems(1) by auto
  then have "0 < ?n" by simp
  have f0: "\<not> addr2info ?b" using Cons.prems(2) \<open>0 < ?n\<close> by force
  have b': "?a' + offset = ?b + of_nat ?n" by (simp add: ac_simps)
  obtain r1 where 1: "load_loop hangup addr2info flash_write offset r st en
      (data_record (a, xs) @ 10 # data_lines (spread ?a' xss) @ rest) s =
    load_loop hangup addr2info flash_write offset r1 (min ?b st) (max (?b + of_nat ?n - 1) en)
      (data_lines (spread ?a' xss) @ rest) (s\<lparr>dl_mem := mem_write ?b xs (dl_mem s)\<rparr>)"
    using load_data_record [OF h x(2), of addr2info a offset] f0 by blast
  show ?case
  proof (cases "xss = []")
    case True
    with 1 show ?thesis by auto
  next
    case False
    have t0: "0 < ?t" using False Cons.prems(1) by (cases xss) auto
    have ub: "unat (?b + of_nat ?n) = unat ?b + ?n"
    proof -
      have "unat ?b + ?n < 4294967296" using Cons.prems(3) t0 by (simp del: length_concat length_0_conv length_greater_0_conv)
      then show ?thesis using x(2) by (subst unat_add_le) (simp_all add: unat_of_nat_u32)
    qed
    have f': "\<forall>i < ?t. \<not> addr2info (?a' + offset + of_nat i)"
    proof (intro allI impI)
      fix i assume "i < ?t"
      then have "?n + i < length (concat (xs # xss))" by simp
      then have "\<not> addr2info (?b + of_nat (?n + i))" using Cons.prems(2) by blast
      then show "\<not> addr2info (?a' + offset + of_nat i)" by (simp add: ac_simps)
    qed
    obtain r2 where 2: "load_loop hangup addr2info flash_write offset r1 (min ?b st) (max (?b + of_nat ?n - 1) en)
        (data_lines (spread ?a' xss) @ rest) (s\<lparr>dl_mem := mem_write ?b xs (dl_mem s)\<rparr>) =
      load_loop hangup addr2info flash_write offset r2 (min (?a' + offset) (min ?b st))
        (max (?a' + offset + of_nat ?t - 1) (max (?b + of_nat ?n - 1) en)) rest
        (s\<lparr>dl_mem := mem_write (?a' + offset) (concat xss) (mem_write ?b xs (dl_mem s))\<rparr>)"
      using Cons.IH [of ?a' r1 "min ?b st" "max (?b + of_nat ?n - 1) en" "s\<lparr>dl_mem := mem_write ?b xs (dl_mem s)\<rparr>"]
        Cons.prems False f' ub b' by auto
    have le: "?b \<le> ?a' + offset" using ub unfolding b' by (simp add: word_le_nat_alt)
    have u1: "unat (?b + of_nat ?n - 1) = unat ?b + ?n - 1"
      using ub \<open>0 < ?n\<close> by (subst unat_minus_one) auto
    have "unat (?b + of_nat ?n + of_nat ?t - 1) = unat ?b + ?n + ?t - 1"
    proof -
      have "unat ?b + (?n + ?t) \<le> 4294967296" "0 < ?n + ?t" using Cons.prems(3) \<open>0 < ?n\<close> by simp_all
      from unat_last [OF this] show ?thesis by (simp only: of_nat_add add.assoc)
    qed
    then have le2: "?b + of_nat ?n - 1 \<le> ?a' + offset + of_nat ?t - 1"
      using u1 unfolding b' by (simp add: word_le_nat_alt)
    have mn: "min (?b + of_nat ?n) (min ?b st) = min ?b st" using le unfolding b' by (rule min_skip)
    have mx: "max (?b + of_nat ?n + of_nat ?t - 1) (max (?b + of_nat ?n - 1) en) = max (?b + of_nat ?n + of_nat ?t - 1) en"
      using le2 unfolding b' by (rule max_skip)
    have tot: "?b + of_nat (length (concat (xs # xss))) = ?b + of_nat ?n + of_nat ?t" by (simp add: add.assoc)
    have "data_lines (spread a (xs # xss)) @ rest = data_record (a, xs) @ 10 # data_lines (spread ?a' xss) @ rest" by simp
    note this [unfolded append_assoc]
    moreover have "mem_write ?b (concat (xs # xss)) (dl_mem s) = mem_write (?b + of_nat ?n) (concat xss) (mem_write ?b xs (dl_mem s))"
      by (simp only: concat.simps mem_write_append)
    ultimately show ?thesis
      unfolding tot using 1 2 [unfolded b' mn mx] by (intro exI [of _ r2]) (simp only: list.simps if_False)
  qed
qed

subsection \<open>The file size variable\<close>

definition hex_text :: "u32 \<Rightarrow> cstr" where
  "hex_text w = rev (map ((!) hex_upper) (base_digits 16 (unat w)))"

lemma vsprintf_lX: "vsprintf mm (cs ''%lX'') [VA_word w] = Some (hex_text w @ [0], [], length (hex_text w))"
proof -
  have "number (ucast w) 16 (-1) (-1) 0 = hex_text w"
    using number_unfold [of "ucast w" 0 "-1" 0 "ucast w" "-1", OF _ _ refl refl refl refl, of 0 16 "-1"]
    by (simp add: number_sign_def number_tmp_upper hex_text_def)
  then show ?thesis
    by (simp add: vsprintf_def cs_def vsprintf_spec_def parse_width_def parse_precision_def
        parse_qualifier_def format_conv_def fetch_num_def)
qed

lemma hex_text_plain: "hex_text w \<noteq> []" "nul_free (hex_text w)"
proof -
  have "c \<noteq> 0" if c: "c \<in> set (hex_text w)" for c
  proof -
    from c obtain d where "d \<in> set (base_digits 16 (unat w))" "c = hex_upper ! d" by (auto simp: hex_text_def)
    then show ?thesis using base_digits_less [of 16 "unat w"] hex_upper_digit(2) [of d] by auto
  qed
  then show "nul_free (hex_text w)" by (auto simp: nul_free_def)
qed (simp add: hex_text_def)

lemma set_filesize_ok:
  assumes "env_ok st kvs"
  shows "\<exists>st'. set_filesize sz st = Some st' \<and>
    (if env_fits (put_var (cs ''filesize'') (hex_text sz) kvs)
     then env_ok st' (put_var (cs ''filesize'') (hex_text sz) kvs) \<and> crc_ok st'
     else env_ok st' (del_var (cs ''filesize'') kvs))"
proof -
  let ?argv = "[cs ''setenv'', cs ''filesize'', hex_text sz]"
  have "is_name (cs ''filesize'')" "cs ''filesize'' \<noteq> cs ''baudrate''" "console_of (cs ''filesize'') = None"
    by (simp_all add: is_name_def console_of_def cs_def)
  then obtain r st' where r: "do_setenv' ?argv st = Some (r, st')" "setenv_result ?argv kvs st r st'"
    using do_setenv_result [OF assms, of ?argv] hex_text_plain(2) [of sz] by auto
  have "set_filesize sz st = Some st'"
    using r(1) hex_text_plain(1) [of sz] by (simp add: set_filesize_def vsprintf_lX butlast_append setenv_def)
  with r(2) show ?thesis by (auto simp: setenv_result_def args_value_def split: if_splits)
qed

subsection \<open>Round trip\<close>

lemma first_record: "cs ''S0030000FC'' = srec_line [] (ch CHR ''0'') [0, 0] [] 0xFC []"
  by (simp add: srec_line_def hex_byte_def hex_upper_def cs_def)

lemma last_record: "cs ''S70500000000FA'' = srec_line [] (ch CHR ''7'') [0, 0, 0, 0] [] 0xFA []"
  by (simp add: srec_line_def hex_byte_def hex_upper_def cs_def)

lemma save_serial_lines:
  assumes "\<forall>k. \<not> intr k" "count \<noteq> 0"
  shows "save_serial m intr address count = Some (0,
    (cs ''S0030000FC'' @ [10]) @ data_lines (spread address (chunks (mem_read address (unat count) m))) @
    cs ''S70500000000FA'' @ [10])"
proof -
  obtain k' where "save_loop m intr address count 0 0 [] 1 (cs ''S0030000FC'' @ [10]) = Some (0, k',
      (cs ''S0030000FC'' @ [10]) @ data_lines (spread address (chunks (mem_read address (unat count) m))))"
    using save_loop_lines [OF assms(1), of "[]" address m count 1 "cs ''S0030000FC'' @ [10]"] assms(2)
    unfolding list.size map_idI sum_list.Nil list.map hex_bytes_simps(1) by auto
  then show ?thesis using assms(1) unfolding save_serial_def Let_def by simp
qed

lemma load_first:
  assumes "\<forall>k. \<not> hangup k"
  shows "\<exists>r'. load_loop hangup addr2info flash_write offset r st en (cs ''S0030000FC'' @ 10 # rest) s =
    load_loop hangup addr2info flash_write offset r' st en rest s"
proof -
  have "srec_kind (ch CHR ''0'') = Some (0, length [0, 0 :: byte])" by (simp add: srec_kind_def)
  from load_line [OF assms this, of "[]" "0xFC" _ r] show ?thesis unfolding first_record by auto
qed

lemma load_last:
  assumes "\<forall>k. \<not> hangup k"
  shows "load_loop hangup addr2info flash_write offset r st en (cs ''S70500000000FA'' @ 10 # rest) s =
    map_option (\<lambda>e. (0, rest, s\<lparr>dl_env := e\<rparr>)) (set_filesize (en - st + 1) (dl_env s))"
proof -
  have k: "srec_kind (ch CHR ''7'') = Some (7, length [0, 0, 0, 0 :: byte])" by (simp add: srec_kind_def)
  from load_line [OF assms k, of "[]" "0xFA" _ r] show ?thesis
    unfolding last_record by (simp add: addr_val_def)
qed

text \<open>C11: what \<^verbatim>\<open>save_serial\<close> sends for a block of memory, \<^verbatim>\<open>load_serial\<close> stores at the same address plus the offset,
  unchanged and nowhere else; it returns the start address 0 of the end record, leaves the rest of the input and
  sets the variable \<^verbatim>\<open>filesize\<close> to the size of the block.\<close>

theorem save_load_roundtrip:
  assumes "count \<noteq> 0" and "unat (address + offset) + unat count \<le> 2 ^ 32"
    and "\<forall>k. \<not> intr k" and "\<forall>k. \<not> hangup k"
    and "\<forall>i < unat count. \<not> addr2info (address + offset + of_nat i)"
    and "env_ok (dl_env s) kvs" and "env_fits (put_var (cs ''filesize'') (hex_text count) kvs)"
  shows "\<exists>out e. save_serial m intr address count = Some (0, out) \<and>
    load_serial garbage hangup addr2info flash_write offset (out @ rest) s =
      Some (0, rest, s\<lparr>dl_mem := mem_write (address + offset) (mem_read address (unat count) m) (dl_mem s),
                       dl_env := e\<rparr>) \<and>
    env_ok e (put_var (cs ''filesize'') (hex_text count) kvs) \<and> crc_ok e"
proof -
  let ?D = "mem_read address (unat count) m" and ?b = "address + offset"
  let ?xss = "chunks ?D"
  have n0: "0 < unat count" using assms(1) by (simp add: unat_gt_0)
  then have ne: "?xss \<noteq> []" by (metis concat.simps(1) concat_chunks length_mem_read less_irrefl list.size(3))
  obtain r1 where 1: "load_loop hangup addr2info flash_write offset garbage 0xFFFFFFFF 0
      (cs ''S0030000FC'' @ 10 # data_lines (spread address ?xss) @ cs ''S70500000000FA'' @ 10 # rest) s =
    load_loop hangup addr2info flash_write offset r1 0xFFFFFFFF 0
      (data_lines (spread address ?xss) @ cs ''S70500000000FA'' @ 10 # rest) s"
    using load_first [OF assms(4)] by blast
  have "\<forall>xs \<in> set ?xss. xs \<noteq> [] \<and> length xs \<le> 16" using length_chunks by blast
  moreover have "\<forall>i < length (concat ?xss). \<not> addr2info (?b + of_nat i)" using assms(5) by simp
  moreover have "unat ?b + length (concat ?xss) \<le> 4294967296" using assms(2) by simp
  ultimately obtain r2 where 2: "load_loop hangup addr2info flash_write offset r1 0xFFFFFFFF 0
      (data_lines (spread address ?xss) @ cs ''S70500000000FA'' @ 10 # rest) s =
    load_loop hangup addr2info flash_write offset r2 (min ?b 0xFFFFFFFF) (max (?b + of_nat (unat count) - 1) 0)
      (cs ''S70500000000FA'' @ 10 # rest) (s\<lparr>dl_mem := mem_write ?b ?D (dl_mem s)\<rparr>)"
    using load_lines [OF assms(4), where xss = ?xss and a = address and offset = offset and r = r1 and s = s
        and addr2info = addr2info and flash_write = flash_write and st = "0xFFFFFFFF" and en = 0
        and rest = "cs ''S70500000000FA'' @ 10 # rest"] ne by auto
  have "x \<le> 0xFFFFFFFF" for x :: u32 using u32_less [of x] by (simp add: word_le_nat_alt)
  then have "min ?b 0xFFFFFFFF = ?b" "max (?b + of_nat (unat count) - 1) 0 = ?b + count - 1"
    by (simp_all add: min_def max_def word_order.extremum)
  then have sz: "max (?b + of_nat (unat count) - 1) 0 - min ?b 0xFFFFFFFF + 1 = count" by simp
  from set_filesize_ok [OF assms(6), of count] assms(7) obtain e where
    e: "set_filesize count (dl_env s) = Some e" "env_ok e (put_var (cs ''filesize'') (hex_text count) kvs)" "crc_ok e"
    by auto
  have "load_serial garbage hangup addr2info flash_write offset
      (cs ''S0030000FC'' @ 10 # data_lines (spread address ?xss) @ cs ''S70500000000FA'' @ 10 # rest) s =
    Some (0, rest, s\<lparr>dl_mem := mem_write ?b ?D (dl_mem s), dl_env := e\<rparr>)"
    unfolding load_serial_def 1 2 load_last [OF assms(4)] sz using e(1) by simp
  moreover have "cs ''S0030000FC'' @ 10 # data_lines (spread address ?xss) @ cs ''S70500000000FA'' @ 10 # rest =
      ((cs ''S0030000FC'' @ [10]) @ data_lines (spread address ?xss) @ cs ''S70500000000FA'' @ [10]) @ rest" by simp
  ultimately show ?thesis
    unfolding save_serial_lines [OF assms(3,1)] using e(2,3) by (intro exI conjI) (simp_all only:)
qed

definition dl_sample :: dl where
  "dl_sample = \<lparr>dl_mem = \<lambda>_. 0, dl_env = sample_state sample_vars\<rparr>"

theorem save_load_roundtrip_witness:
  "\<exists>out e. save_serial ucast (\<lambda>_. False) 0x100 3 = Some (0, out) \<and>
    load_serial \<lparr>sr_count = 0, sr_addr = 0, sr_data = []\<rparr> (\<lambda>_. False) (\<lambda>_. False) (\<lambda>_ _ _ m. (0, m)) 0x1000 out dl_sample =
      Some (0, [], dl_sample\<lparr>dl_mem := mem_write 0x1100 [0, 1, 2] (\<lambda>_. 0), dl_env := e\<rparr>) \<and>
    env_lookup e (cs ''filesize'') = Some (cs ''3'')"
proof -
  have t: "hex_text 3 = cs ''3''" by (simp add: hex_text_def base_digits_small hex_upper_def cs_def)
  have fit: "env_fits (put_var (cs ''filesize'') (hex_text 3) sample_vars)"
    unfolding t by (simp add: env_fits_def put_var_def del_var_def entry_def cs_def)
  have ok: "env_ok (dl_env dl_sample) sample_vars"
    using sample_state_ok(1) [OF sample_vars_ok] by (simp add: dl_sample_def)
  have "mem_read 0x100 3 ucast = [0, 1, 2]" by code_simp
  then show ?thesis
    using save_load_roundtrip [of 3 "0x100" "0x1000" "\<lambda>_. False" "\<lambda>_. False" "\<lambda>_. False" dl_sample sample_vars ucast
        "\<lparr>sr_count = 0, sr_addr = 0, sr_data = []\<rparr>" "\<lambda>_ _ _ m. (0, m)" "[]"] ok fit
    by (auto simp: env_lookup_ok map_of_put_var t dl_sample_def)
qed

text \<open>A data record whose count field is smaller than its address and check bytes is accepted with a negative data
  length, with which the copy to memory runs over both buffers.\<close>

theorem short_record_faults:
  "srec_decode (cs ''S1010000FE'') r = (1, r\<lparr>sr_count := -2, sr_addr := 0, sr_data := []\<rparr>) \<and>
   load_serial r (\<lambda>_. False) (\<lambda>_. False) flash_write offset (cs ''S1010000FE'' @ [10]) s = None"
proof
  show d: "srec_decode (cs ''S1010000FE'') r = (1, r\<lparr>sr_count := -2, sr_addr := 0, sr_data := []\<rparr>)"
  proof -
    have t: "tl (dropWhile (\<lambda>c. c \<noteq> ch CHR ''S'') (cs ''S1010000FE'')) =
        ch CHR ''1'' # hex_byte 1 @ hex_bytes [0, 0] @ hex_byte 0xFE @ []"
      by (simp add: hex_byte_def hex_upper_def cs_def)
    have k: "srec_kind (ch CHR ''1'') = Some (1, length [0, 0 :: byte])" by (simp add: srec_kind_def)
    show ?thesis
      unfolding srec_decode_def t Let_def list.sel hex2_bin_hex_byte k option.case prod.case drop2_hex_byte srec_addr_hex
      using hex2_bin_hex_byte [of "0xFE" "[]"] by simp
  qed
  have rr: "read_record (\<lambda>_. False) SREC_MAXRECLEN [] (cs ''S1010000FE'' @ 10 # []) = Some (Record ([] @ cs ''S1010000FE''), [])"
    by (rule read_record_line) (simp_all add: cs_def)
  show "load_serial r (\<lambda>_. False) (\<lambda>_. False) flash_write offset (cs ''S1010000FE'' @ [10]) s = None"
    unfolding load_serial_def by (subst load_loop.simps, subst rr) (simp add: d store_record_def Let_def)
qed


text \<open>A download without any data record sets \<^verbatim>\<open>filesize\<close> to 2, the difference of the initial bounds.\<close>

theorem empty_download_size:
  "load_serial r (\<lambda>_. False) addr2info flash_write offset (cs ''S70500000000FA'' @ 10 # rest) s =
     map_option (\<lambda>e. (0, rest, s\<lparr>dl_env := e\<rparr>)) (set_filesize 2 (dl_env s))"
proof -
  have "0 - 0xFFFFFFFF + 1 = (2 :: u32)" by simp
  then show ?thesis unfolding load_serial_def by (subst load_last) (simp_all only:, simp)
qed

end
