(* ===== verification/NetLoopProps.thy ===== *)
theory NetLoopProps
  imports NetLoop BootpProps SrecProps
begin

text \<open>
  The network stack as a whole: a file sent by a TFTP server in Ethernet frames is loaded by the main loop.
\<close>

subsection \<open>What a data block leaves unchanged\<close>

definition nview :: "('w, 'z) tftp_scheme \<Rightarrow> _" where
  "nview s = (packetHandler s, NetArpWaitPacketIP s, NetServerEther s, NetOurIP s, NetOurEther s, NetOurVLAN s,
     TftpOurPort s, now s, net_env s)"

text \<open>The timer was set just now, or is off.\<close>

definition quiet :: "('w, 'z) net_scheme \<Rightarrow> bool" where
  "quiet s \<longleftrightarrow> (timeHandler s \<noteq> None \<longrightarrow> timeStart s = now s)"

lemma send_nview:
  fixes s :: "('w, 'z) tftp_scheme"
  assumes "NetServerEther s \<noteq> replicate 6 0"
  shows "nview (snd (NetSendUDPPacket drv NetServerEther_p d dp sp pl s)) = nview s"
    and "quiet (snd (NetSendUDPPacket drv NetServerEther_p d dp sp pl s)) = quiet s"
  using assms by (simp_all add: nview_def quiet_def send_defs ether_of_def)

lemma data_store_nview:
  assumes "data_store drv d s = Some s'" "TftpState s = STATE_DATA" "NetServerEther s \<noteq> replicate 6 0"
  shows "nview s' = nview s \<and> quiet s'"
proof -
  let ?t = "NetSetTimeout (TftpTimeoutMSecs s) TftpTimeout_f (s\<lparr>TftpLastBlock := TftpBlock s, TftpTimeoutCountMax := TIMEOUT_COUNT\<rparr>)"
  obtain t where t: "store_block (TftpBlock ?t - 1) d (of_nat (length d)) ?t = Some t"
    using assms(1) by (auto simp: data_store_def Let_def split: bind_splits)
  then have tv: "nview t = nview s" "quiet t" "TftpState t = STATE_DATA"
    using assms(2) by (auto simp: store_block_def Let_def nview_def quiet_def NetSetTimeout_def split: if_splits)
  then have nz: "NetServerEther t \<noteq> replicate 6 0" using assms(3) by (simp add: nview_def)
  let ?u = "snd (NetSendUDPPacket drv NetServerEther_p (TftpServerIP t) (TftpServerPort t) (TftpOurPort t)
     (be16_bytes 4 @ be16_bytes (ucast (TftpBlock t))) t)"
  have "s' = ?u \<or> s' = ?u\<lparr>NetState := NETLOOP_SUCCESS\<rparr>"
    using assms(1) t TftpSend_data [of t drv] tv(3) by (auto simp: data_store_def Let_def split: if_splits)
  moreover have "nview ?u = nview s" "quiet ?u" using send_nview [OF nz] tv by simp_all
  moreover have "nview (?u\<lparr>NetState := NETLOOP_SUCCESS\<rparr>) = nview ?u" "quiet (?u\<lparr>NetState := NETLOOP_SUCCESS\<rparr>) = quiet ?u"
    by (simp_all add: nview_def quiet_def)
  ultimately show ?thesis by metis
qed

lemma data_hdr_nview: "nview (data_hdr n s) = nview s"
  by (simp add: data_hdr_def nview_def Let_def)

lemma first_nview: "tftp_first drv q s = Some (False, t) \<Longrightarrow> nview t = nview s"
  by (auto simp: tftp_first_def nview_def Let_def split: if_splits)

lemma next_nview:
  assumes inv: "tftp_inv f b q la m k s" and k: "k < nblocks f b" and b: "0 < b" "b < 65536" and f: "length f < 2 ^ 32"
    and nz: "NetServerEther s \<noteq> replicate 6 0" and rx: "tftp_rx drv (data_pkt f b (Suc k)) q s = Some s'"
  shows "nview s' = nview s \<and> quiet s'"
proof -
  let ?d = "blk f b (Suc k)"
  have ld: "length ?d \<le> b" using blk_bounds(3) [OF b(1) k] by simp
  then have d16: "length ?d < 65536" using b(2) by simp
  have wire: "ucast (of_nat (Suc k) :: u16) = (of_nat (Suc k mod 65536) :: u32)"
    by (rule word_eq_of_natI) (simp add: unat_ucast_mod unat_of_nat del: of_nat_Suc)
  obtain t where t: "tftp_first drv q (data_hdr (of_nat (Suc k mod 65536)) s) = Some (False, t)" "TftpState t = STATE_DATA"
    "TftpBlock t = of_nat (Suc k mod 65536)" "TftpLastBlock t = of_nat (k mod 65536)"
    using first_block [OF inv k b(2)] by metis
  have ne: "TftpBlock t \<noteq> TftpLastBlock t"
    unfolding t(3,4) using of_nat_u32_inj [of "Suc k mod 65536" "k mod 65536"] by (simp add: mod_Suc)
  have nt: "nview t = nview s"
    using first_nview [OF t(1)] by (simp add: data_hdr_nview)
  have "q = TftpServerPort s \<or> TftpState s = STATE_RRQ" using inv by (auto simp: tftp_inv_def split: if_splits)
  then have "data_store drv ?d t = Some s'"
    using rx rx_data [OF b ld, of q s drv] tftp_data_parts [OF d16, of drv "of_nat (Suc k)" q s] t(1) ne
    unfolding wire by auto
  moreover have "NetServerEther t \<noteq> replicate 6 0" using nt nz by (simp add: nview_def)
  ultimately show ?thesis using data_store_nview [of drv ?d t s'] t(2) nt by simp
qed

subsection \<open>The run of the loop\<close>

text \<open>The client while it loads: the invariant of the transfer, the server's hardware address known, nothing waiting.\<close>

definition loading :: "byte list \<Rightarrow> nat \<Rightarrow> u16 \<Rightarrow> u32 \<Rightarrow> mem \<Rightarrow> u32 \<Rightarrow> u16 \<Rightarrow> env_state \<Rightarrow> nat \<Rightarrow> ('w, 'z) tftp_scheme \<Rightarrow> bool" where
  "loading f b q la m ip port e k s \<longleftrightarrow> tftp_inv f b q la m k s \<and> packetHandler s = TftpHandler_f \<and>
     NetArpWaitPacketIP s = 0 \<and> NetServerEther s \<noteq> replicate 6 0 \<and> NetOurIP s = ip \<and> TftpOurPort s = port \<and>
     net_env s = e \<and> untagged s"

text \<open>What a server sends: block \<open>k\<close> in a frame that its own copy of the network code builds.\<close>

definition server_event :: "byte list \<Rightarrow> nat \<Rightarrow> u16 \<Rightarrow> byte list \<Rightarrow> u32 \<Rightarrow> u16 \<Rightarrow> (nat \<Rightarrow> 'v net) \<Rightarrow> (nat \<Rightarrow> u32) \<Rightarrow> nat \<Rightarrow> event" where
  "server_event f b q ether ip port srv time k =
     \<lparr>ev_frames = [udp_frame ether ip port q (data_pkt f b k) (srv k)], ev_ctrlc = False, ev_time = time k\<rparr>"

definition server_ok :: "'v net \<Rightarrow> bool" where
  "server_ok v \<longleftrightarrow> untagged v \<and> length (NetOurEther v) = 6"

lemma loading_step:
  assumes ld: "loading f b q la m ip port e k s" and k: "k < nblocks f b" and b: "0 < b" "b \<le> 65503" and f: "length f < 2 ^ 32"
    and srv: "server_ok (srv (Suc k))" and ether: "length ether = 6"
  shows "\<exists>s'. net_iteration drv nfs TFTP (server_event f b q ether ip port srv time (Suc k)) s =
      (if Suc k = nblocks f b then net_success drv s' else Some (None, s')) \<and> loading f b q la m ip port e (Suc k) s'"
proof -
  let ?p = "data_pkt f b (Suc k)" and ?fr = "udp_frame ether ip port q (data_pkt f b (Suc k)) (srv (Suc k))"
  let ?s = "s\<lparr>now := time (Suc k), NetRxPacket := ?fr\<rparr>"
  have lp: "length ?p \<le> 65507" using b(2) blk_bounds(3) [OF b(1) k] by (simp add: data_pkt_def)
  have b16: "b < 65536" using b(2) by simp
  have "view ?s = view s" by (simp add: view_def)
  then have inv: "tftp_inv f b q la m k ?s" using ld inv_view by (auto simp: loading_def)
  obtain s' where s': "tftp_rx drv ?p q ?s = Some s'" "tftp_inv f b q la m (Suc k) s'"
    using tftp_next [OF inv k b(1) b16 f] by blast
  have nv: "nview s' = nview ?s" "quiet s'"
    using next_nview [OF inv k b(1) b16 f _ s'(1)] ld by (auto simp: loading_def)
  have ld': "loading f b q la m ip port e (Suc k) s'"
    using ld nv(1) s'(2) by (auto simp: loading_def nview_def untagged_def)
  have "NetReceive drv (run_rx drv nfs) ?fr (s\<lparr>now := time (Suc k)\<rparr>) =
      run_rx drv nfs TftpHandler_f ?p port q (of_nat (length ?p)) ?s"
    using receive_udp_frame [OF lp ether, of "srv (Suc k)" "s\<lparr>now := time (Suc k)\<rparr>" ip drv "run_rx drv nfs" port q] srv ld
    by (simp add: server_ok_def loading_def untagged_def)
  then have rx: "receive_all drv nfs [?fr] (s\<lparr>now := time (Suc k)\<rparr>) = Some s'"
    using s'(1) ld by (simp add: run_rx_def loading_def)
  have arp: "ArpTimeoutCheck drv s' = Some s'" using ld' by (simp add: ArpTimeoutCheck_def loading_def)
  have tm: "check_timer drv nfs s' = Some s'" using nv(2) by (simp add: check_timer_def quiet_def split: option.split)
  have "net_iteration drv nfs TFTP (server_event f b q ether ip port srv time (Suc k)) s =
      (if Suc k = nblocks f b then net_success drv s' else Some (None, s'))"
    using rx arp tm s'(2) by (simp add: net_iteration_def server_event_def tftp_inv_def)
  with ld' show ?thesis by blast
qed

lemma net_success_stop:
  "Option.bind (net_success drv s) (\<lambda>(r, s). case r of None \<Rightarrow> X s | Some v \<Rightarrow> Some (Some v, s)) = net_success drv s"
  by (auto simp: net_success_def split: bind_splits)

lemma loading_run:
  assumes "loading f b q la m ip port e k s" "k < nblocks f b" "0 < b" "b \<le> 65503" "length f < 2 ^ 32"
    "\<forall>j. server_ok (srv j)" "length ether = 6"
  shows "\<exists>s'. net_iterations drv nfs TFTP (map (server_event f b q ether ip port srv time) [Suc k..<Suc (nblocks f b)]) s =
      net_success drv s' \<and>
    loading f b q la m ip port e (nblocks f b) s'"
  using assms(1,2)
proof (induction "nblocks f b - k" arbitrary: k s)
  case (Suc n)
  have srv: "server_ok (srv (Suc k))" using assms(6) by blast
  from loading_step [OF Suc.prems assms(3,4,5), of srv, OF srv assms(7)] obtain s' where
    s': "net_iteration drv nfs TFTP (server_event f b q ether ip port srv time (Suc k)) s =
      (if Suc k = nblocks f b then net_success drv s' else Some (None, s'))" "loading f b q la m ip port e (Suc k) s'" by blast
  have up: "[Suc k..<Suc (nblocks f b)] = Suc k # [Suc (Suc k)..<Suc (nblocks f b)]"
    using Suc.prems(2) by (simp add: upt_conv_Cons)
  show ?case
  proof (cases "Suc k = nblocks f b")
    case True
    then show ?thesis using s' net_success_stop [of drv s'] unfolding up by (intro exI [of _ s']) auto
  next
    case False
    then have "Suc k < nblocks f b" using Suc.prems(2) by simp
    from Suc.hyps(1) [OF _ s'(2) this] Suc.hyps(2) show ?thesis using False s'(1) unfolding up by simp
  qed
qed simp

lemma set_hex_ok:
  assumes "env_ok e kvs" "plain_var (cs name) (hex_text v)" "env_fits (put_var (cs name) (hex_text v) kvs)"
  shows "\<exists>e'. set_hex name v e = Some e' \<and> env_ok e' (put_var (cs name) (hex_text v) kvs)"
proof -
  obtain e' where "setenv (cs name) (Some (hex_text v)) e = Some (0, e')" "env_ok e' (put_var (cs name) (hex_text v) kvs)"
    using setenv_plain [OF assms(1,2)] assms(3) by (metis (full_types))
  then show ?thesis by (simp add: set_hex_def vsprintf_lX)
qed

lemma eth_halt_env [simp]: "eth_env (eth_halt drv e) = eth_env e"
  by (simp add: eth_halt_def split: option.split)

lemma tail_load_addr:
  "do_setenv_tail argv st = Some (r, st') \<Longrightarrow> argv ! 1 \<noteq> cs ''loadaddr'' \<Longrightarrow> load_addr st' = load_addr st"
  by (auto simp: do_setenv_tail_def setenv_effects_def env_crc_update_def split: if_splits option.splits)

lemma setenv_load_addr:
  assumes "setenv name (Some v) e = Some (r, e')" "plain_var name v" "name \<noteq> cs ''loadaddr''"
  shows "load_addr e' = load_addr e"
proof -
  let ?argv = "[cs ''setenv'', name, v]" and ?e = "e\<lparr>env_id := env_id e + 1\<rparr>"
  have r: "do_setenv' ?argv e = Some (r, e')" using assms(1,2) by (simp add: setenv_def plain_var_def)
  have nb: "?argv ! 1 \<noteq> cs ''baudrate''" using assms(2) by (simp add: plain_var_def)
  have "do_setenv' ?argv e = Option.bind (search_delete (env_ptr_data ?e) (?argv ! 1))
      (\<lambda>d. do_setenv_tail ?argv (?e\<lparr>env_ptr_data := d\<rparr>))" if "gd_reloc e \<and> env_valid e"
    using that assms(2) do_setenv_core [of ?argv ?e] nb by (simp add: do_setenv'_def plain_var_def is_name_def Let_def)
  moreover have "gd_reloc e \<and> env_valid e" using r by (auto simp: do_setenv'_def split: if_splits)
  ultimately obtain d where "do_setenv_tail ?argv (?e\<lparr>env_ptr_data := d\<rparr>) = Some (r, e')"
    using r by (auto split: bind_splits)
  from tail_load_addr [OF this] assms(3) show ?thesis by simp
qed

lemma set_hex_load_addr:
  assumes "set_hex name v e = Some e'" "plain_var (cs name) (hex_text v)" "cs name \<noteq> cs ''loadaddr''"
  shows "load_addr e' = load_addr e"
  using assms setenv_load_addr [of "cs name" "hex_text v" e _ e'] by (auto simp: set_hex_def vsprintf_lX)

lemma file_vars_plain: "plain_var (cs ''filesize'') (hex_text v)" "plain_var (cs ''fileaddr'') (hex_text v)"
  using hex_text_plain [of v] by (simp_all add: plain_var_def is_name_def console_of_def cs_def nul_free_def)

text \<open>C6: the network stack end to end. While the client loads a file of less than 2 GB, a server's data blocks, each in an
  Ethernet frame of its own and at any times, make \<^verbatim>\<open>NetLoop\<close> return the size of the file, with the file in memory at the
  load address, memory unchanged elsewhere, and \<^verbatim>\<open>filesize\<close> set to the size in hexadecimal.\<close>

theorem netloop_loads_file:
  assumes "loading f b q la m ip port e 0 s" and "0 < b" and "b \<le> 65503" and "f \<noteq> []" and "length f < 2 ^ 31"
    and "\<forall>j. server_ok (srv j)" and "length ether = 6" and "env_ok e kvs"
    and "env_fits (put_var (cs ''filesize'') (hex_text (of_nat (length f))) kvs)"
    and "env_fits (put_var (cs ''fileaddr'') (hex_text la) (put_var (cs ''filesize'') (hex_text (of_nat (length f))) kvs))"
  shows "\<exists>s'. net_iterations drv nfs TFTP (map (server_event f b q ether ip port srv time) [1..<Suc (nblocks f b)]) s =
      Some (Some (int (length f)), s') \<and> net_mem s' = mem_write la f m \<and> mem_read la (length f) (net_mem s') = f \<and>
    getenv_str (net_env s') (cs ''filesize'') = Some (Some (hex_text (of_nat (length f))))"
proof -
  let ?n = "of_nat (length f) :: u32" and ?size = "cs ''filesize''" and ?addr = "cs ''fileaddr''"
  have f32: "length f < 2 ^ 32" using assms(5) by simp
  have "0 < nblocks f b" by (simp add: nblocks_def)
  from loading_run [OF assms(1) this assms(2,3) f32 assms(6,7), of drv nfs time] obtain t where
    t: "net_iterations drv nfs TFTP (map (server_event f b q ether ip port srv time) [1..<Suc (nblocks f b)]) s = net_success drv t"
      "loading f b q la m ip port e (nblocks f b) t" by (auto simp only: One_nat_def)
  obtain e1 where e1: "set_hex ''filesize'' ?n e = Some e1" "env_ok e1 (put_var ?size (hex_text ?n) kvs)"
    using set_hex_ok [OF assms(8) file_vars_plain(1) assms(9)] by blast
  have la: "load_addr e1 = la"
    using set_hex_load_addr [OF e1(1) file_vars_plain(1)] t(2) by (auto simp: loading_def tftp_inv_def cs_def)
  obtain e2 where e2: "set_hex ''fileaddr'' la e1 = Some e2" "env_ok e2 (put_var ?addr (hex_text la) (put_var ?size (hex_text ?n) kvs))"
    using set_hex_ok [OF e1(2) file_vars_plain(2) assms(10)] by blast
  have len: "length f \<le> nblocks f b * b"
    using assms(2) dividend_less_div_times [of b "length f"] by (simp add: nblocks_def add.commute)
  have sz: "NetBootFileXferSize t = ?n" "net_mem t = mem_write la f m" "net_env t = e"
    using t(2) len by (simp_all add: loading_def tftp_inv_def)
  have n: "unat ?n = length f" using f32 by (simp add: unat_of_nat_u32)
  then have n0: "?n > 0" using assms(4) by (simp add: word_greater_zero_iff) (metis length_0_conv unat_0)
  have si: "sint ?n = int (length f)"
  proof -
    have "uint ?n = int (length f)" using n by (simp add: uint_nat)
    then show ?thesis unfolding sint_uint using assms(5) by (simp add: signed_take_bit_int_eq_self)
  qed
  have ns: "net_success drv t = Some (Some (int (length f)), net_halt drv (t\<lparr>net_eth := (net_eth t)\<lparr>eth_env := e2\<rparr>\<rparr>))"
    using n0 e1(1) e2(1) la by (simp add: net_success_def sz si)
  moreover have "getenv_str e2 ?size = Some (Some (hex_text ?n))"
    using getenv_map [OF e2(2), of ?size] by (simp add: map_of_put_var is_name_def cs_def)
  ultimately show ?thesis using t(1) mem_read_write [of f la m] f32 sz(2) by (simp add: net_halt_def)
qed

definition no_nfs :: "(nat, unit) nfs" where
  "no_nfs = \<lparr>NfsStart = Some, NfsHandler = \<lambda>p d r l s. Some s, NfsTimeout = Some\<rparr>"

definition sample_server :: "nat \<Rightarrow> nat net" where
  "sample_server j = (sample_net 0x0A000002 [0, 0, 0x5b, 0, 0, 2] [])\<lparr>NetIPID := of_nat j\<rparr>"

theorem netloop_loads_file_witness:
  "\<exists>s'. net_iterations sample_driver no_nfs TFTP
      (map (server_event [1, 2, 3] 512 4000 [0, 0, 0x5b, 0, 0, 1] 0x0A000001 1024 sample_server (\<lambda>_. 0)) [1..<2]) sample_bootp =
      Some (Some 3, s') \<and> mem_read 0x1000000 3 (net_mem s') = [1, 2, 3] \<and>
    getenv_str (net_env s') (cs ''filesize'') = Some (Some (hex_text 3))"
proof -
  note ok = sample_state_ok(1) [OF sample_vars_ok]
  have e: "net_env sample_bootp = sample_state sample_vars" by (simp add: sample_bootp_simps sample_eth_def)
  have inv: "tftp_inv [1, 2, 3] 512 4000 0x1000000 (\<lambda>_. 0) 0 sample_bootp"
    by (simp add: tftp_inv_def nblocks_def e) (simp add: sample_bootp_simps sample_state_def Let_def)
  have ld: "loading [1, 2, 3] 512 4000 0x1000000 (\<lambda>_. 0) 0x0A000001 1024 (sample_state sample_vars) 0 sample_bootp"
    unfolding loading_def e
    by (simp add: inv) (simp add: sample_bootp_simps untagged_def myvlan_def VLAN_NONE_def VLAN_IDMASK_def replicate_6)
  have srv: "\<forall>j. server_ok (sample_server j)"
    by (simp add: server_ok_def sample_server_def sample_net_def untagged_def myvlan_def VLAN_NONE_def VLAN_IDMASK_def)
  have l: "length (hex_text 3) = 1" "length (hex_text 0x1000000) = 7" by (simp_all add: hex_text_def base_digits.simps)
  have fit: "env_fits (put_var (cs ''filesize'') (hex_text (of_nat (length [1, 2, 3 :: byte]))) sample_vars)"
    "env_fits (put_var (cs ''fileaddr'') (hex_text 0x1000000)
       (put_var (cs ''filesize'') (hex_text (of_nat (length [1, 2, 3 :: byte]))) sample_vars))"
    using l by (simp_all add: env_fits_def put_var_def del_var_def entry_def cs_def)
  have n: "nblocks [1, 2, 3 :: byte] 512 = 1" by (simp add: nblocks_def)
  have two: "Suc 1 = 2" by simp
  show ?thesis
    using netloop_loads_file [OF ld _ _ _ _ srv _ ok fit, of "[0, 0, 0x5b, 0, 0, 1]" sample_driver no_nfs "\<lambda>_. 0"]
    unfolding n two by (auto simp: numeral_3_eq_3)
qed

end
