(* ===== verification/Image.thy ===== *)
theory Image
  imports Memory Env Date Vsprintf
begin

text \<open>
  Legacy boot images: the header of \<^verbatim>\<open>include/image.h\<close> and the routines of \<^verbatim>\<open>common/image.c\<close> that check, take apart
  and print an image in memory, with the environment variables that control the boot memory.

  The header is a record of the decoded fields; \<open>hdr_bytes\<close> is its layout in memory, in network byte order, which is
  the processor's own. Routines that get a pointer to a header take its address and the memory.
\<close>

subsection \<open>The header (include/image.h)\<close>

abbreviation (input) IH_MAGIC :: u32 where "IH_MAGIC \<equiv> 0x27051956"
abbreviation (input) IH_NMLEN :: nat where "IH_NMLEN \<equiv> 32"

abbreviation (input) IH_OS_LINUX :: byte where "IH_OS_LINUX \<equiv> 5"
abbreviation (input) IH_ARCH_PPC :: byte where "IH_ARCH_PPC \<equiv> 7"

abbreviation (input) IH_TYPE_STANDALONE :: byte where "IH_TYPE_STANDALONE \<equiv> 1"
abbreviation (input) IH_TYPE_KERNEL :: byte where "IH_TYPE_KERNEL \<equiv> 2"
abbreviation (input) IH_TYPE_RAMDISK :: byte where "IH_TYPE_RAMDISK \<equiv> 3"
abbreviation (input) IH_TYPE_MULTI :: byte where "IH_TYPE_MULTI \<equiv> 4"
abbreviation (input) IH_TYPE_SCRIPT :: byte where "IH_TYPE_SCRIPT \<equiv> 6"

abbreviation (input) IH_COMP_NONE :: byte where "IH_COMP_NONE \<equiv> 0"
abbreviation (input) IH_COMP_GZIP :: byte where "IH_COMP_GZIP \<equiv> 1"

record image_header =
  ih_magic :: u32
  ih_hcrc :: u32
  ih_time :: u32
  ih_size :: u32
  ih_load :: u32
  ih_ep :: u32
  ih_dcrc :: u32
  ih_os :: byte
  ih_arch :: byte
  ih_type :: byte
  ih_comp :: byte
  ih_name :: "byte list"

definition hdr_bytes :: "image_header \<Rightarrow> byte list" where
  "hdr_bytes h =
     concat (map be32_bytes [ih_magic h, ih_hcrc h, ih_time h, ih_size h, ih_load h, ih_ep h, ih_dcrc h]) @
     [ih_os h, ih_arch h, ih_type h, ih_comp h] @ ih_name h"

definition word32 :: "mem \<Rightarrow> u32 \<Rightarrow> u32" where
  "word32 m a = be32_val (m a) (m (a + 1)) (m (a + 2)) (m (a + 3))"

definition hdr_at :: "mem \<Rightarrow> u32 \<Rightarrow> image_header" where
  "hdr_at m a =
     \<lparr>ih_magic = word32 m a, ih_hcrc = word32 m (a + 4), ih_time = word32 m (a + 8), ih_size = word32 m (a + 12),
      ih_load = word32 m (a + 16), ih_ep = word32 m (a + 20), ih_dcrc = word32 m (a + 24),
      ih_os = m (a + 28), ih_arch = m (a + 29), ih_type = m (a + 30), ih_comp = m (a + 31),
      ih_name = mem_read (a + 32) IH_NMLEN m\<rparr>"

definition image_get_header_size :: u32 where
  "image_get_header_size = 64"

definition image_get_data :: "u32 \<Rightarrow> u32" where
  "image_get_data hdr = hdr + image_get_header_size"

definition image_get_image_size :: "image_header \<Rightarrow> u32" where
  "image_get_image_size h = ih_size h + image_get_header_size"

definition image_get_image_end :: "mem \<Rightarrow> u32 \<Rightarrow> u32" where
  "image_get_image_end m hdr = hdr + image_get_image_size (hdr_at m hdr)"

definition image_check_magic :: "mem \<Rightarrow> u32 \<Rightarrow> bool" where
  "image_check_magic m hdr \<longleftrightarrow> ih_magic (hdr_at m hdr) = IH_MAGIC"

definition image_check_target_arch :: "image_header \<Rightarrow> bool" where
  "image_check_target_arch h \<longleftrightarrow> ih_arch h = IH_ARCH_PPC"

subsection \<open>Checksums and components (common/image.c)\<close>

definition image_check_hcrc :: "image_header \<Rightarrow> bool" where
  "image_check_hcrc hdr \<longleftrightarrow> crc32 0 0 (hdr_bytes (hdr\<lparr>ih_hcrc := 0\<rparr>)) = ih_hcrc hdr"

abbreviation (input) CHUNKSZ_CRC32 :: nat where "CHUNKSZ_CRC32 \<equiv> 64 * 1024"

definition image_check_dcrc :: "mem \<Rightarrow> u32 \<Rightarrow> bool" where
  "image_check_dcrc m hdr =
     (let h = hdr_at m hdr; data = image_get_data hdr; len = ih_size h
      in crc32_wd data 0 (mem_read data (unat len) m) CHUNKSZ_CRC32 = ih_dcrc h)"

text \<open>The search for the first index with a property, from \<open>i\<close> on and below \<open>n\<close>: a scan of memory ends there because
  \<open>n\<close> steps visit the whole address space.\<close>

function scan_for :: "(nat \<Rightarrow> bool) \<Rightarrow> nat \<Rightarrow> nat \<Rightarrow> nat option" where
  "scan_for P n i = (if i < n then if P i then Some i else scan_for P n (i + 1) else None)"
  by pat_completeness auto
termination by (relation "measure (\<lambda>(P, n, i). n - i)") auto

declare scan_for.simps [simp del]

text \<open>\<open>None\<close> when there is no zero word at all, so that the loop never ends.\<close>

definition image_multi_count :: "mem \<Rightarrow> u32 \<Rightarrow> nat option" where
  "image_multi_count m hdr = scan_for (\<lambda>i. word32 m (image_get_data hdr + 4 * of_nat i) = 0) (2 ^ 30) 0"

definition align4 :: "u32 \<Rightarrow> u32" where
  "align4 w = (w + 3) AND NOT 3"

text \<open>The address and the size of a component; both 0 when the index is out of range.\<close>

definition image_multi_getimg :: "mem \<Rightarrow> u32 \<Rightarrow> nat \<Rightarrow> (u32 \<times> u32) option" where
  "image_multi_getimg m hdr idx =
     do { count \<leftarrow> image_multi_count m hdr;
          let size = (\<lambda>i. word32 m (image_get_data hdr + 4 * of_nat i));
          let img_data = image_get_data hdr + (of_nat count + 1) * 4;
          Some (if idx < count then
                  (img_data + foldl (\<lambda>off i. off + align4 (size i)) 0 [0..<idx], size idx)
                else (0, 0)) }"

subsection \<open>Names\<close>

type_synonym table_entry = "int \<times> string option \<times> string"

definition uimage_arch :: "table_entry list" where
  "uimage_arch =
     [(0, None, ''Invalid ARCH''), (1, Some ''alpha'', ''Alpha''), (2, Some ''arm'', ''ARM''),
      (3, Some ''x86'', ''Intel x86''), (4, Some ''ia64'', ''IA64''), (12, Some ''m68k'', ''M68K''),
      (14, Some ''microblaze'', ''MicroBlaze''), (5, Some ''mips'', ''MIPS''), (6, Some ''mips64'', ''MIPS 64 Bit''),
      (15, Some ''nios2'', ''NIOS II''), (7, Some ''powerpc'', ''PowerPC''), (7, Some ''ppc'', ''PowerPC''),
      (8, Some ''s390'', ''IBM S390''), (9, Some ''sh'', ''SuperH''), (10, Some ''sparc'', ''SPARC''),
      (11, Some ''sparc64'', ''SPARC 64 Bit''), (16, Some ''blackfin'', ''Blackfin''), (17, Some ''avr32'', ''AVR32''),
      (-1, Some '''', '''')]"

definition uimage_os :: "table_entry list" where
  "uimage_os =
     [(0, None, ''Invalid OS''), (5, Some ''linux'', ''Linux''), (2, Some ''netbsd'', ''NetBSD''),
      (18, Some ''rtems'', ''RTEMS''), (17, Some ''u-boot'', ''U-Boot''), (16, Some ''qnx'', ''QNX''),
      (14, Some ''vxworks'', ''VxWorks''), (-1, Some '''', '''')]"

definition uimage_type :: "table_entry list" where
  "uimage_type =
     [(0, None, ''Invalid Image''), (7, Some ''filesystem'', ''Filesystem Image''), (5, Some ''firmware'', ''Firmware''),
      (2, Some ''kernel'', ''Kernel Image''), (4, Some ''multi'', ''Multi-File Image''),
      (3, Some ''ramdisk'', ''RAMDisk Image''), (6, Some ''script'', ''Script''),
      (1, Some ''standalone'', ''Standalone Program''), (8, Some ''flat_dt'', ''Flat Device Tree''),
      (9, Some ''kwbimage'', ''Kirkwood Boot Image''), (10, Some ''imximage'', ''Freescale i.MX Boot Image''),
      (-1, Some '''', '''')]"

definition uimage_comp :: "table_entry list" where
  "uimage_comp =
     [(0, Some ''none'', ''uncompressed''), (2, Some ''bzip2'', ''bzip2 compressed''),
      (1, Some ''gzip'', ''gzip compressed''), (3, Some ''lzma'', ''lzma compressed''), (4, Some ''lzo'', ''lzo compressed''),
      (-1, Some '''', '''')]"

fun get_table_entry_name :: "table_entry list \<Rightarrow> string \<Rightarrow> int \<Rightarrow> string" where
  "get_table_entry_name [] msg i = msg"
| "get_table_entry_name ((tid, sname, lname) # table) msg i =
     (if tid < 0 then msg else if tid = i then lname else get_table_entry_name table msg i)"

fun get_table_entry_id :: "table_entry list \<Rightarrow> string \<Rightarrow> int" where
  "get_table_entry_id [] name = -1"
| "get_table_entry_id ((tid, sname, lname) # table) name =
     (if tid < 0 then -1 else if sname = Some name then tid else get_table_entry_id table name)"

definition genimg_get_os_name :: "byte \<Rightarrow> string" where
  "genimg_get_os_name i = get_table_entry_name uimage_os ''Unknown OS'' (uint i)"

definition genimg_get_arch_name :: "byte \<Rightarrow> string" where
  "genimg_get_arch_name i = get_table_entry_name uimage_arch ''Unknown Architecture'' (uint i)"

definition genimg_get_type_name :: "byte \<Rightarrow> string" where
  "genimg_get_type_name i = get_table_entry_name uimage_type ''Unknown Image'' (uint i)"

definition genimg_get_comp_name :: "byte \<Rightarrow> string" where
  "genimg_get_comp_name i = get_table_entry_name uimage_comp ''Unknown Compression'' (uint i)"

definition genimg_get_os_id :: "string \<Rightarrow> int" where
  "genimg_get_os_id = get_table_entry_id uimage_os"

definition genimg_get_arch_id :: "string \<Rightarrow> int" where
  "genimg_get_arch_id = get_table_entry_id uimage_arch"

definition genimg_get_type_id :: "string \<Rightarrow> int" where
  "genimg_get_type_id = get_table_entry_id uimage_type"

definition genimg_get_comp_id :: "string \<Rightarrow> int" where
  "genimg_get_comp_id = get_table_entry_id uimage_comp"

subsection \<open>Printing\<close>

definition printf :: "string \<Rightarrow> va list \<Rightarrow> byte list option" where
  "printf fmt args = map_option (\<lambda>(buf, _, n). take n buf) (vsprintf (\<lambda>_. 0) (cs fmt) args)"

definition print_size :: "u64 \<Rightarrow> string \<Rightarrow> byte list option" where
  "print_size sz s =
     (case List.find (\<lambda>(c, d). drop_bit d sz \<noteq> 0) (zip ''EPTGMK'' [60, 50, 40, 30, 20, 10]) of
        None \<Rightarrow> do { t \<leftarrow> printf ''%llu Bytes'' [VA_quad sz]; Some (t @ cs s) }
      | Some (c, d) \<Rightarrow>
          let n = ucast (drop_bit d sz) :: u32; f = sz AND (push_bit d 1 - 1);
              m = (if f \<noteq> 0 then ucast (drop_bit d (10 * f + push_bit (d - 1) 1)) else 0) :: u32;
              (m, n) = (if f \<noteq> 0 \<and> m \<ge> 10 then (m - 10, n + 1) else (m, n))
          in do { t \<leftarrow> printf ''%lu'' [VA_word n];
                  u \<leftarrow> (if m \<noteq> 0 then printf ''.%ld'' [VA_word m] else Some []);
                  Some (t @ u @ cs '' '' @ cs [c] @ cs ''iB'' @ cs s) })"

definition newline :: string where
  "newline = [CHR 0x0A]"

definition genimg_print_size :: "u32 \<Rightarrow> byte list option" where
  "genimg_print_size sz =
     do { t \<leftarrow> printf ''%d Bytes = '' [VA_word sz]; u \<leftarrow> print_size (ucast sz) newline; Some (t @ u) }"

definition genimg_print_time :: "u32 \<Rightarrow> byte list option" where
  "genimg_print_time timestamp =
     do { tm \<leftarrow> to_tm (sint timestamp) \<lparr>tm_sec = 0, tm_min = 0, tm_hour = 0, tm_mday = 0, tm_mon = 0, tm_year = 0,
                 tm_wday = 0, tm_yday = 0, tm_isdst = 0\<rparr>;
          printf (''%4d-%02d-%02d  %2d:%02d:%02d UTC'' @ newline)
            (map (VA_word \<circ> word_of_int) [tm_year tm, tm_mon tm, tm_mday tm, tm_hour tm, tm_min tm, tm_sec tm]) }"

definition image_print_type :: "image_header \<Rightarrow> byte list" where
  "image_print_type h =
     cs (genimg_get_arch_name (ih_arch h) @ '' '' @ genimg_get_os_name (ih_os h) @ '' '' @
         genimg_get_type_name (ih_type h) @ '' ('' @ genimg_get_comp_name (ih_comp h) @ '')'' @ newline)"

fun print_components :: "mem \<Rightarrow> u32 \<Rightarrow> nat \<Rightarrow> nat \<Rightarrow> byte list option" where
  "print_components m hdr i 0 = Some []"
| "print_components m hdr i (Suc k) =
     do { (data, len) \<leftarrow> image_multi_getimg m hdr i;
          t \<leftarrow> printf ''      Image %d: '' [VA_word (of_nat i)];
          u \<leftarrow> genimg_print_size len;
          v \<leftarrow> (if ih_type (hdr_at m hdr) = IH_TYPE_SCRIPT \<and> i > 0
               then printf (''       Offset = 0x%08lx'' @ newline) [VA_word data] else Some []);
          w \<leftarrow> print_components m hdr (i + 1) k;
          Some (t @ u @ v @ w) }"

definition image_print_contents :: "mem \<Rightarrow> u32 \<Rightarrow> byte list option" where
  "image_print_contents m hdr =
     (let h = hdr_at m hdr
      in do { n \<leftarrow> printf (''   Image Name:   %.*s'' @ newline)
                  [VA_word (of_nat IH_NMLEN), VA_str (Some (takeWhile (\<lambda>c. c \<noteq> 0) (ih_name h)))];
              t \<leftarrow> genimg_print_time (ih_time h);
              z \<leftarrow> genimg_print_size (ih_size h);
              l \<leftarrow> printf (''   Load Address: %08x'' @ newline) [VA_word (ih_load h)];
              e \<leftarrow> printf (''   Entry Point:  %08x'' @ newline) [VA_word (ih_ep h)];
              c \<leftarrow> (if ih_type h = IH_TYPE_MULTI \<or> ih_type h = IH_TYPE_SCRIPT then
                     do { count \<leftarrow> image_multi_count m hdr;
                          p \<leftarrow> print_components m hdr 0 count;
                          Some (cs (''   Contents:'' @ newline) @ p) }
                   else Some []);
              Some (n @ cs ''   Created:      '' @ t @ cs ''   Image Type:   '' @ image_print_type h @
                    cs ''   Data Size:    '' @ z @ l @ e @ c) })"

subsection \<open>Formats\<close>

datatype image_format = IMAGE_FORMAT_INVALID | IMAGE_FORMAT_LEGACY

definition genimg_get_format :: "mem \<Rightarrow> u32 \<Rightarrow> image_format" where
  "genimg_get_format m img_addr = (if image_check_magic m img_addr then IMAGE_FORMAT_LEGACY else IMAGE_FORMAT_INVALID)"

definition genimg_get_image :: "u32 \<Rightarrow> u32" where
  "genimg_get_image img_addr = img_addr"

subsection \<open>Environment variables of the boot commands\<close>

definition getenv_yesno :: "env_state \<Rightarrow> string \<Rightarrow> bool option" where
  "getenv_yesno e var =
     map_option (\<lambda>s. case s of None \<Rightarrow> True | Some s \<Rightarrow> peek s \<noteq> ch CHR ''n'') (getenv_str e (cs var))"

abbreviation (input) CONFIG_SYS_SDRAM_BASE :: u32 where "CONFIG_SYS_SDRAM_BASE \<equiv> 0"

definition getenv_bootm_low :: "env_state \<Rightarrow> u32 option" where
  "getenv_bootm_low e =
     map_option (\<lambda>s. case s of None \<Rightarrow> CONFIG_SYS_SDRAM_BASE | Some s \<Rightarrow> fst (simple_strtoul s 16))
       (getenv_str e (cs ''bootm_low''))"

definition getenv_bootm_size :: "env_state \<Rightarrow> u32 \<Rightarrow> u32 option" where
  "getenv_bootm_size e bi_memsize =
     do { s \<leftarrow> getenv_str e (cs ''bootm_size'');
          case s of
            Some s \<Rightarrow> Some (ucast (fst (simple_strtoull s 16)))
          | None \<Rightarrow>
              do { s \<leftarrow> getenv_str e (cs ''bootm_low'');
                   Some (bi_memsize - (case s of None \<Rightarrow> 0 | Some s \<Rightarrow> ucast (fst (simple_strtoull s 16)))) } }"

definition memmove_wd :: "u32 \<Rightarrow> u32 \<Rightarrow> u32 \<Rightarrow> mem \<Rightarrow> mem" where
  "memmove_wd dst src len m = (if dst = src then m else mem_write dst (mem_read src (unat len) m) m)"

end
