(* ===== verification/Bootm.thy ===== *)
theory Bootm
  imports Image Lmb Cmdline
begin

text \<open>
  Booting an image: \<^verbatim>\<open>common/cmd_bootm.c\<close>, the routines of \<^verbatim>\<open>common/image.c\<close> that place ramdisk, command line and
  board information, the hand-over to Linux of \<^verbatim>\<open>arch/powerpc/lib/bootm.c\<close>, and the gzip header of \<^verbatim>\<open>lib/gunzip.c\<close>.

  The state is the environment, the memory, the structure \<^verbatim>\<open>images\<close> and the board's data. A command ends by
  returning, by a reset, or by giving control to a program; what that program does is outside of the model, as are the
  start routines of operating systems other than Linux. The inflate routine of zlib is a parameter.
\<close>

subsection \<open>State\<close>

record image_info_t =
  img_start :: u32
  img_end :: u32
  image_start :: u32
  image_len :: u32
  img_load :: u32
  img_comp :: byte
  img_type :: byte
  img_os :: byte

record bootm_headers =
  legacy_hdr_os :: u32
  legacy_hdr_os_copy :: image_header
  legacy_hdr_valid :: bool
  im_os :: image_info_t
  im_ep :: u32
  rd_start :: u32
  rd_end :: u32
  ft_len :: u32
  initrd_start :: u32
  initrd_end :: u32
  cmdline_start :: u32
  cmdline_end :: u32
  im_kbd :: u32
  im_verify :: bool
  im_state :: nat
  im_lmb :: lmb

text \<open>The board information, less the fields \<^verbatim>\<open>bi_ip_addr\<close> and \<^verbatim>\<open>bi_baudrate\<close>: \<^verbatim>\<open>setenv\<close> changes them, and they are kept with the
  state of the environment.\<close>

record bd_info =
  bi_memstart :: u32
  bi_memsize :: u32
  bi_flashstart :: u32
  bi_flashsize :: u32
  bi_flashoffset :: u32
  bi_sramstart :: u32
  bi_sramsize :: u32
  bi_bootflags :: u32
  bi_enetaddr :: "byte list"
  bi_ethspeed :: u16
  bi_intfreq :: u32
  bi_busfreq :: u32

definition bd_bytes :: "env_state \<Rightarrow> bd_info \<Rightarrow> byte list" where
  "bd_bytes e b =
     concat (map be32_bytes [bi_memstart b, bi_memsize b, bi_flashstart b, bi_flashsize b, bi_flashoffset b,
       bi_sramstart b, bi_sramsize b, bi_bootflags b, bi_ip_addr e]) @ bi_enetaddr b @ be16_bytes (bi_ethspeed b) @
     concat (map be32_bytes [bi_intfreq b, bi_busfreq b, gd_baudrate e])"

abbreviation (input) sizeof_bd_t :: u32 where "sizeof_bd_t \<equiv> 56"

record boot =
  bm_env :: env_state
  bm_mem :: mem
  images :: bootm_headers
  gd_bd :: bd_info
  gd_ram_size :: u32
  stack_pointer :: u32
  interrupts :: bool

datatype boot_end = Return int | Reset | Standalone u32 "cstr list" | Kernel u32 "u32 list" | Other_OS byte

subsection \<open>Memory for the boot (arch/powerpc/lib/bootm.c)\<close>

definition arch_lmb_reserve :: "boot \<Rightarrow> lmb \<Rightarrow> lmb option" where
  "arch_lmb_reserve s l =
     do { bootmap_base \<leftarrow> getenv_bootm_low (bm_env s);
          bootm_size \<leftarrow> getenv_bootm_size (bm_env s) (bi_memsize (gd_bd s));
          let size = min (min bootm_size (gd_ram_size s)) 0x30000000;
          l \<leftarrow> (if size < bootm_size then map_option snd (lmb_reserve l (bootmap_base + size) (bootm_size - size))
               else Some l);
          let sp = stack_pointer s - 4096;
          map_option snd (lmb_reserve l sp (CONFIG_SYS_SDRAM_BASE + gd_ram_size s - sp)) }"

definition zero_lmb :: lmb where
  "zero_lmb = \<lparr>memory = \<lparr>cnt = 0, region = replicate 9 (0, 0)\<rparr>, reserved = \<lparr>cnt = 0, region = replicate 9 (0, 0)\<rparr>\<rparr>"

definition bootm_start_lmb :: "boot \<Rightarrow> lmb option" where
  "bootm_start_lmb s =
     do { let l = lmb_init (im_lmb (images s));
          mem_start \<leftarrow> getenv_bootm_low (bm_env s);
          mem_size \<leftarrow> getenv_bootm_size (bm_env s) (bi_memsize (gd_bd s));
          l \<leftarrow> map_option snd (lmb_add l mem_start mem_size);
          arch_lmb_reserve s l }"

subsection \<open>Finding the images\<close>

definition image_get_kernel :: "mem \<Rightarrow> u32 \<Rightarrow> bool \<Rightarrow> bool option" where
  "image_get_kernel m img_addr verify =
     (if \<not> image_check_magic m img_addr then Some False
      else if \<not> image_check_hcrc (hdr_at m img_addr) then Some False
      else do { _ \<leftarrow> image_print_contents m img_addr;
                if verify \<and> \<not> image_check_dcrc m img_addr then Some False
                else Some (image_check_target_arch (hdr_at m img_addr)) })"

text \<open>The address of the header or \<open>None\<close> for NULL.\<close>

definition boot_get_kernel :: "cstr list \<Rightarrow> boot \<Rightarrow> (u32 option \<times> boot) option" where
  "boot_get_kernel argv s =
     (let img_addr = genimg_get_image (if length argv < 2 then load_addr (bm_env s) else fst (simple_strtoul (argv ! 1) 16));
          im = images s; m = bm_mem s;
          none = s\<lparr>images := im\<lparr>im_os := (im_os im)\<lparr>image_start := 0, image_len := 0\<rparr>\<rparr>\<rparr>
      in case genimg_get_format m img_addr of
           IMAGE_FORMAT_INVALID \<Rightarrow> Some (None, none)
         | IMAGE_FORMAT_LEGACY \<Rightarrow>
             do { ok \<leftarrow> image_get_kernel m img_addr (im_verify im);
                  let h = hdr_at m img_addr;
                  if \<not> ok then Some (None, none)
                  else if ih_type h = IH_TYPE_KERNEL \<or> ih_type h = IH_TYPE_MULTI \<or> ih_type h = IH_TYPE_STANDALONE then
                    do { (os_data, os_len) \<leftarrow>
                           (if ih_type h = IH_TYPE_MULTI then image_multi_getimg m img_addr 0
                            else Some (image_get_data img_addr, ih_size h));
                         Some (Some img_addr,
                           s\<lparr>images := im\<lparr>im_os := (im_os im)\<lparr>image_start := os_data, image_len := os_len\<rparr>,
                             legacy_hdr_os_copy := h, legacy_hdr_os := img_addr, legacy_hdr_valid := True\<rparr>\<rparr>) }
                  else Some (None, none) })"

definition image_get_ramdisk :: "mem \<Rightarrow> u32 \<Rightarrow> byte \<Rightarrow> bool \<Rightarrow> bool option" where
  "image_get_ramdisk m rd_addr arch verify =
     (if \<not> image_check_magic m rd_addr then Some False
      else if \<not> image_check_hcrc (hdr_at m rd_addr) then Some False
      else do { _ \<leftarrow> image_print_contents m rd_addr;
                let h = hdr_at m rd_addr;
                if verify \<and> \<not> image_check_dcrc m rd_addr then Some False
                else Some (ih_os h = IH_OS_LINUX \<and> ih_arch h = arch \<and> ih_type h = IH_TYPE_RAMDISK) })"

text \<open>The return value, the start and the end of the ramdisk.\<close>

definition boot_get_ramdisk :: "cstr list \<Rightarrow> bootm_headers \<Rightarrow> byte \<Rightarrow> mem \<Rightarrow> (int \<times> u32 \<times> u32) option" where
  "boot_get_ramdisk argv im arch m =
     (let found = (\<lambda>(rd_data, rd_len). (0, if rd_data = 0 then (0, 0) else (rd_data, rd_data + rd_len)))
      in if length argv \<ge> 3 \<and> argv ! 2 = cs ''-'' then Some (found (0, 0))
         else if length argv \<ge> 3 then
           let rd_addr = genimg_get_image (fst (simple_strtoul (argv ! 2) 16))
           in case genimg_get_format m rd_addr of
                IMAGE_FORMAT_INVALID \<Rightarrow> Some (1, 0, 0)
              | IMAGE_FORMAT_LEGACY \<Rightarrow>
                  do { ok \<leftarrow> image_get_ramdisk m rd_addr arch (im_verify im);
                       Some (if ok then found (image_get_data rd_addr, ih_size (hdr_at m rd_addr)) else (1, 0, 0)) }
         else if legacy_hdr_valid im \<and> ih_type (legacy_hdr_os_copy im) = IH_TYPE_MULTI then
           map_option found (image_multi_getimg m (legacy_hdr_os im) 1)
         else Some (found (0, 0)))"

subsection \<open>The start of the boot (common/cmd_bootm.c)\<close>

definition zero_headers :: bootm_headers where
  "zero_headers =
     \<lparr>legacy_hdr_os = 0,
      legacy_hdr_os_copy = \<lparr>ih_magic = 0, ih_hcrc = 0, ih_time = 0, ih_size = 0, ih_load = 0, ih_ep = 0, ih_dcrc = 0,
        ih_os = 0, ih_arch = 0, ih_type = 0, ih_comp = 0, ih_name = replicate 32 0\<rparr>,
      legacy_hdr_valid = False,
      im_os = \<lparr>img_start = 0, img_end = 0, image_start = 0, image_len = 0, img_load = 0, img_comp = 0, img_type = 0, img_os = 0\<rparr>,
      im_ep = 0, rd_start = 0, rd_end = 0, ft_len = 0, initrd_start = 0, initrd_end = 0, cmdline_start = 0, cmdline_end = 0,
      im_kbd = 0, im_verify = False, im_state = 0, im_lmb = zero_lmb\<rparr>"

abbreviation (input) BOOTM_STATE_START :: nat where "BOOTM_STATE_START \<equiv> 1"
abbreviation (input) BOOTM_STATE_LOADOS :: nat where "BOOTM_STATE_LOADOS \<equiv> 2"
abbreviation (input) BOOTM_STATE_RAMDISK :: nat where "BOOTM_STATE_RAMDISK \<equiv> 4"
abbreviation (input) BOOTM_STATE_OS_CMDLINE :: nat where "BOOTM_STATE_OS_CMDLINE \<equiv> 16"
abbreviation (input) BOOTM_STATE_OS_BD_T :: nat where "BOOTM_STATE_OS_BD_T \<equiv> 32"
abbreviation (input) BOOTM_STATE_OS_PREP :: nat where "BOOTM_STATE_OS_PREP \<equiv> 64"
abbreviation (input) BOOTM_STATE_OS_GO :: nat where "BOOTM_STATE_OS_GO \<equiv> 128"

definition bootm_start :: "cstr list \<Rightarrow> boot \<Rightarrow> (int \<times> boot) option" where
  "bootm_start argv s =
     do { let s = s\<lparr>images := zero_headers\<rparr>;
          verify \<leftarrow> getenv_yesno (bm_env s) ''verify'';
          let s = s\<lparr>images := (images s)\<lparr>im_verify := verify\<rparr>\<rparr>;
          l \<leftarrow> bootm_start_lmb s;
          let s = s\<lparr>images := (images s)\<lparr>im_lmb := l\<rparr>\<rparr>;
          (os_hdr, s) \<leftarrow> boot_get_kernel argv s;
          if image_len (im_os (images s)) = 0 then Some (1, s)
          else do {
            os_hdr \<leftarrow> os_hdr;
            case genimg_get_format (bm_mem s) os_hdr of
              IMAGE_FORMAT_INVALID \<Rightarrow> Some (1, s)
            | IMAGE_FORMAT_LEGACY \<Rightarrow>
                do { let h = hdr_at (bm_mem s) os_hdr;
                     let im = images s;
                     let os = (im_os im)\<lparr>img_type := ih_type h, img_comp := ih_comp h, img_os := ih_os h,
                                 img_end := image_get_image_end (bm_mem s) os_hdr, img_load := ih_load h\<rparr>;
                     let im = im\<lparr>im_os := os\<rparr>;
                     if \<not> legacy_hdr_valid im then Some (1, s\<lparr>images := im\<rparr>)
                     else do {
                       let im = im\<lparr>im_ep := ih_ep (legacy_hdr_os_copy im)\<rparr>;
                       (ret, a, b) \<leftarrow>
                         (if (img_type os = IH_TYPE_KERNEL \<or> img_type os = IH_TYPE_MULTI) \<and> img_os os = IH_OS_LINUX
                          then boot_get_ramdisk argv im IH_ARCH_PPC (bm_mem s) else Some (0, rd_start im, rd_end im));
                       let im = im\<lparr>rd_start := a, rd_end := b\<rparr>;
                       if ret \<noteq> 0 then Some (1, s\<lparr>images := im\<rparr>)
                       else Some (0, s\<lparr>images := im\<lparr>im_os := os\<lparr>img_start := os_hdr\<rparr>, im_state := BOOTM_STATE_START\<rparr>\<rparr>) } } } }"

subsection \<open>Loading (lib/gunzip.c, common/cmd_bootm.c)\<close>

text \<open>The inflate routine: the result of \<^verbatim>\<open>inflateInit2\<close>, and for memory, input, input length, output and output length
  the result of \<^verbatim>\<open>inflate\<close>, the final output pointer and the memory.\<close>

record zlib =
  inflateInit2 :: int
  inflate :: "mem \<Rightarrow> u32 \<Rightarrow> u32 \<Rightarrow> u32 \<Rightarrow> u32 \<Rightarrow> int \<times> u32 \<times> mem"

abbreviation (input) Z_OK :: int where "Z_OK \<equiv> 0"
abbreviation (input) Z_STREAM_END :: int where "Z_STREAM_END \<equiv> 1"

definition zunzip :: "zlib \<Rightarrow> u32 \<Rightarrow> u32 \<Rightarrow> u32 \<Rightarrow> u32 \<Rightarrow> u32 \<Rightarrow> mem \<Rightarrow> int \<times> u32 \<times> mem" where
  "zunzip z dst dstlen src len offset m =
     (if inflateInit2 z \<noteq> Z_OK then (-1, len, m)
      else
        let (r, next_out, m) = inflate z m (src + offset) (len - offset) dst dstlen
        in if r \<noteq> Z_STREAM_END then (-1, len, m) else (0, next_out - dst, m))"

text \<open>The index behind a string in the gzip header.\<close>

definition skip_string :: "mem \<Rightarrow> u32 \<Rightarrow> nat \<Rightarrow> nat option" where
  "skip_string m src i = map_option Suc (scan_for (\<lambda>i. m (src + of_nat i) = 0) (2 ^ 31 - 1) i)"

definition gunzip :: "zlib \<Rightarrow> u32 \<Rightarrow> u32 \<Rightarrow> u32 \<Rightarrow> u32 \<Rightarrow> mem \<Rightarrow> (int \<times> u32 \<times> mem) option" where
  "gunzip z dst dstlen src len m =
     (let flags = m (src + 3)
      in if m (src + 2) \<noteq> 8 \<or> flags AND 0xe0 \<noteq> 0 then Some (-1, len, m)
         else do {
           let i = (if flags AND 4 \<noteq> 0 then 12 + unat (m (src + 10)) + unat (m (src + 11)) * 256 else 10);
           i \<leftarrow> (if flags AND 8 \<noteq> 0 then skip_string m src i else Some i);
           i \<leftarrow> (if flags AND 0x10 \<noteq> 0 then skip_string m src i else Some i);
           let i = (if flags AND 2 \<noteq> 0 then i + 2 else i);
           if i \<ge> unat len then Some (-1, len, m) else Some (zunzip z dst dstlen src len (of_nat i) m) })"

abbreviation (input) CONFIG_SYS_BOOTM_LEN :: u32 where "CONFIG_SYS_BOOTM_LEN \<equiv> 0x800000"
abbreviation (input) BOOTM_ERR_RESET :: int where "BOOTM_ERR_RESET \<equiv> -1"
abbreviation (input) BOOTM_ERR_OVERLAP :: int where "BOOTM_ERR_OVERLAP \<equiv> -2"
abbreviation (input) BOOTM_ERR_UNIMPLEMENTED :: int where "BOOTM_ERR_UNIMPLEMENTED \<equiv> -3"

text \<open>The return value, the end of the loaded image (0 if not set) and the memory.\<close>

definition bootm_load_os :: "zlib \<Rightarrow> image_info_t \<Rightarrow> mem \<Rightarrow> (int \<times> u32 \<times> mem) option" where
  "bootm_load_os z os m =
     do { let overlap = (\<lambda>load_end. if img_load os < img_end os \<and> load_end > img_start os then BOOTM_ERR_OVERLAP else 0);
          if img_comp os = IH_COMP_NONE then
            do { let m = (if img_load os = img_start os then m
                          else memmove_wd (img_load os) (image_start os) (image_len os) m);
                 let load_end = img_load os + image_len os;
                 Some (overlap load_end, load_end, m) }
          else if img_comp os = IH_COMP_GZIP then
            do { (r, len, m) \<leftarrow> gunzip z (img_load os) CONFIG_SYS_BOOTM_LEN (image_start os) (image_len os) m;
                 if r \<noteq> 0 then Some (BOOTM_ERR_RESET, 0, m)
                 else Some (overlap (img_load os + len), img_load os + len, m) }
          else Some (BOOTM_ERR_UNIMPLEMENTED, 0, m) }"

subsection \<open>Ramdisk, command line and board information\<close>

definition boot_ramdisk_high :: "lmb \<Rightarrow> u32 \<Rightarrow> u32 \<Rightarrow> boot \<Rightarrow> (int \<times> u32 \<times> u32 \<times> lmb \<times> mem) option" where
  "boot_ramdisk_high l rd_data rd_len s =
     do { v \<leftarrow> getenv_str (bm_env s) (cs ''initrd_high'');
          let initrd_high = (case v of Some v \<Rightarrow> fst (simple_strtoul v 16) | None \<Rightarrow> 0xffffffff);
          let copy_to_ram = (v = None \<or> initrd_high \<noteq> 0xffffffff);
          if rd_data = 0 then Some (0, 0, 0, l, bm_mem s)
          else if \<not> copy_to_ram then
            do { (_, l) \<leftarrow> lmb_reserve l rd_data rd_len; Some (0, rd_data, rd_data + rd_len, l, bm_mem s) }
          else
            do { (start, l) \<leftarrow> (if initrd_high \<noteq> 0 then lmb_alloc_base l rd_len 0x1000 initrd_high
                               else lmb_alloc l rd_len 0x1000);
                 if start = 0 then Some (-1, 0, initrd_end (images s), l, bm_mem s)
                 else Some (0, start, start + rd_len, l, memmove_wd start rd_data rd_len (bm_mem s)) } }"

abbreviation (input) CONFIG_SYS_BARGSIZE :: u32 where "CONFIG_SYS_BARGSIZE \<equiv> 256"
abbreviation (input) CONFIG_SYS_BOOTMAPSZ :: u32 where "CONFIG_SYS_BOOTMAPSZ \<equiv> 0x800000"

definition boot_get_cmdline :: "u32 \<Rightarrow> boot \<Rightarrow> (int \<times> boot) option" where
  "boot_get_cmdline bootmap_base s =
     do { (cmdline, l) \<leftarrow> lmb_alloc_base (im_lmb (images s)) CONFIG_SYS_BARGSIZE 0xf (CONFIG_SYS_BOOTMAPSZ + bootmap_base);
          let s = s\<lparr>images := (images s)\<lparr>im_lmb := l\<rparr>\<rparr>;
          if cmdline = 0 then Some (-1, s)
          else do { v \<leftarrow> getenv_str (bm_env s) (cs ''bootargs'');
                    let str = (case v of None \<Rightarrow> [] | Some v \<Rightarrow> v);
                    Some (0, s\<lparr>bm_mem := mem_write cmdline (str @ [0]) (bm_mem s),
                               images := (images s)\<lparr>cmdline_start := cmdline,
                                                    cmdline_end := cmdline + of_nat (length str)\<rparr>\<rparr>) } }"

definition boot_get_kbd :: "u32 \<Rightarrow> boot \<Rightarrow> (int \<times> boot) option" where
  "boot_get_kbd bootmap_base s =
     do { (kbd, l) \<leftarrow> lmb_alloc_base (im_lmb (images s)) sizeof_bd_t 0xf (CONFIG_SYS_BOOTMAPSZ + bootmap_base);
          let s = s\<lparr>images := (images s)\<lparr>im_lmb := l, im_kbd := kbd\<rparr>\<rparr>;
          if kbd = 0 then Some (-1, s)
          else Some (0, s\<lparr>bm_mem := mem_write kbd (bd_bytes (bm_env s) (gd_bd s)) (bm_mem s)\<rparr>) }"

text \<open>The clock rates of the kernel's copy in MHz: the words at 44 and 48.\<close>

definition set_clocks_in_mhz :: "u32 \<Rightarrow> boot \<Rightarrow> boot option" where
  "set_clocks_in_mhz kbd s =
     do { v \<leftarrow> getenv_str (bm_env s) (cs ''clocks_in_mhz'');
          Some (if v = None then s
                else
                  let m = bm_mem s;
                      m = mem_write (kbd + 44) (be32_bytes (word32 m (kbd + 44) div 1000000)) m
                  in s\<lparr>bm_mem := mem_write (kbd + 48) (be32_bytes (word32 m (kbd + 48) div 1000000)) m\<rparr>) }"

subsection \<open>Linux (arch/powerpc/lib/bootm.c)\<close>

definition boot_cmdline_linux :: "boot \<Rightarrow> (int \<times> boot) option" where
  "boot_cmdline_linux s =
     do { bootmap_base \<leftarrow> getenv_bootm_low (bm_env s);
          if ft_len (images s) = 0 then boot_get_cmdline bootmap_base s else Some (0, s) }"

definition boot_bd_t_linux :: "boot \<Rightarrow> (int \<times> boot) option" where
  "boot_bd_t_linux s =
     do { bootmap_base \<leftarrow> getenv_bootm_low (bm_env s);
          if ft_len (images s) = 0 then
            do { (ret, s) \<leftarrow> boot_get_kbd bootmap_base s;
                 if ret \<noteq> 0 then Some (ret, s)
                 else map_option (Pair 0) (set_clocks_in_mhz (im_kbd (images s)) s) }
          else Some (0, s) }"

definition boot_body_linux :: "boot \<Rightarrow> (int \<times> boot) option" where
  "boot_body_linux s =
     do { (ret, s) \<leftarrow> boot_cmdline_linux s;
          if ret \<noteq> 0 then Some (ret, s)
          else do {
            (ret, s) \<leftarrow> boot_bd_t_linux s;
            if ret \<noteq> 0 then Some (ret, s)
            else do {
              let im = images s;
              (ret, a, b, l, m) \<leftarrow> boot_ramdisk_high (im_lmb im) (rd_start im) (rd_end im - rd_start im) s;
              Some (ret, s\<lparr>bm_mem := m, images := im\<lparr>im_lmb := l, initrd_start := a, initrd_end := b\<rparr>\<rparr>) } } }"

definition boot_jump_linux :: "boot \<Rightarrow> boot_end" where
  "boot_jump_linux s =
     (let im = images s
      in Kernel (im_ep im) [im_kbd im, initrd_start im, initrd_end im, cmdline_start im, cmdline_end im, 0, 0])"

definition do_bootm_linux :: "nat \<Rightarrow> boot \<Rightarrow> (boot_end \<times> boot) option" where
  "do_bootm_linux flag s =
     (if flag = BOOTM_STATE_OS_CMDLINE then map_option (\<lambda>(_, s). (Return 0, s)) (boot_cmdline_linux s)
      else if flag = BOOTM_STATE_OS_BD_T then map_option (\<lambda>(_, s). (Return 0, s)) (boot_bd_t_linux s)
      else if flag = BOOTM_STATE_OS_PREP then Some (Return 0, s)
      else if flag = BOOTM_STATE_OS_GO then Some (boot_jump_linux s, s)
      else do { (ret, s) \<leftarrow> boot_body_linux s;
                Some (if ret \<noteq> 0 then Return ret else boot_jump_linux s, s) })"

text \<open>The table of start routines has 19 entries; \<open>Some None\<close> is a null pointer in it, and \<open>None\<close> a read behind it.\<close>

type_synonym boot_os_fn = "nat \<Rightarrow> boot \<Rightarrow> (boot_end \<times> boot) option"

definition other_os :: "byte \<Rightarrow> boot_os_fn" where
  "other_os os flag s = Some (if flag \<noteq> 0 \<and> flag \<noteq> BOOTM_STATE_OS_GO then Return 1 else Other_OS os, s)"

definition boot_os :: "byte \<Rightarrow> boot_os_fn option option" where
  "boot_os os =
     (if unat os < 19 then
        Some (if os = IH_OS_LINUX then Some do_bootm_linux
              else if os \<in> {2, 14, 16, 18} then Some (other_os os) else None)
      else None)"

subsection \<open>The command (common/cmd_bootm.c)\<close>

definition set_hex_var :: "string \<Rightarrow> string \<Rightarrow> u32 \<Rightarrow> env_state \<Rightarrow> env_state option" where
  "set_hex_var fmt name v e =
     do { buf \<leftarrow> printf fmt [VA_word v]; map_option snd (setenv (cs name) (Some buf) e) }"

definition bootm_start_standalone :: "cstr list \<Rightarrow> boot \<Rightarrow> (boot_end \<times> boot) option" where
  "bootm_start_standalone argv s =
     do { v \<leftarrow> getenv_str (bm_env s) (cs ''autostart'');
          if v = Some (cs ''no'') then
            do { e \<leftarrow> set_hex_var ''%lX'' ''filesize'' (image_len (im_os (images s))) (bm_env s);
                 Some (Return 0, s\<lparr>bm_env := e\<rparr>) }
          else Some (Standalone (im_ep (images s)) (tl argv), s) }"

definition cmd_bootm_sub :: "cmd_tbl list" where
  "cmd_bootm_sub =
     map (\<lambda>(n, k). \<lparr>cmd_name = cs n, maxargs = 0, cmd_repeatable = True, cmd_impl = DoOther k\<rparr>)
       [(''start'', BOOTM_STATE_START), (''loados'', BOOTM_STATE_LOADOS), (''ramdisk'', BOOTM_STATE_RAMDISK),
        (''cmdline'', BOOTM_STATE_OS_CMDLINE), (''bdt'', BOOTM_STATE_OS_BD_T), (''prep'', BOOTM_STATE_OS_PREP),
        (''go'', BOOTM_STATE_OS_GO)]"

definition sub_state :: "cmd_tbl \<Rightarrow> nat" where
  "sub_state c = (case cmd_impl c of DoOther k \<Rightarrow> k | _ \<Rightarrow> 0)"

definition call_boot_fn :: "boot_os_fn option \<Rightarrow> nat \<Rightarrow> boot \<Rightarrow> (boot_end \<times> boot) option" where
  "call_boot_fn f flag s = Option.bind f (\<lambda>f. f flag s)"

definition sub_ramdisk :: "boot \<Rightarrow> (boot_end \<times> boot) option" where
  "sub_ramdisk s =
     do { let im = images s;
          (ret, a, b, l, m) \<leftarrow> boot_ramdisk_high (im_lmb im) (rd_start im) (rd_end im - rd_start im) s;
          let s = s\<lparr>bm_mem := m, images := im\<lparr>im_lmb := l, initrd_start := a, initrd_end := b\<rparr>\<rparr>;
          if ret \<noteq> 0 then Some (Return ret, s)
          else do { e \<leftarrow> set_hex_var ''%lx'' ''initrd_start'' a (bm_env s);
                    e \<leftarrow> set_hex_var ''%lx'' ''initrd_end'' b e;
                    Some (Return 0, s\<lparr>bm_env := e\<rparr>) } }"

definition do_bootm_subcommand :: "zlib \<Rightarrow> cstr list \<Rightarrow> boot \<Rightarrow> (boot_end \<times> boot) option" where
  "do_bootm_subcommand z argv s =
     (case find_cmd cmd_bootm_sub (argv ! 1) of
        None \<Rightarrow> Some (Return 1, s)
      | Some c \<Rightarrow>
          let state = sub_state c
          in if state = BOOTM_STATE_START then map_option (\<lambda>(r, s). (Return r, s)) (bootm_start (tl argv) s)
             else if im_state (images s) \<ge> state then Some (Return 1, s)
             else do {
               let s = s\<lparr>images := (images s)\<lparr>im_state := im_state (images s) OR state\<rparr>\<rparr>;
               boot_fn \<leftarrow> boot_os (img_os (im_os (images s)));
               if state = BOOTM_STATE_LOADOS then
                 do { let os = im_os (images s);
                      (ret, load_end, m) \<leftarrow> bootm_load_os z os (bm_mem s);
                      let s = s\<lparr>bm_mem := m\<rparr>;
                      if ret \<noteq> 0 then Some (Return ret, s)
                      else do { (_, l) \<leftarrow> lmb_reserve (im_lmb (images s)) (img_load os) (load_end - img_load os);
                                Some (Return 0, s\<lparr>images := (images s)\<lparr>im_lmb := l\<rparr>\<rparr>) } }
               else if state = BOOTM_STATE_RAMDISK then sub_ramdisk s
               else if state = BOOTM_STATE_OS_GO then
                 map_option (\<lambda>(r, s). (case r of Return _ \<Rightarrow> Return 0 | _ \<Rightarrow> r, s))
                   (call_boot_fn boot_fn state (s\<lparr>interrupts := False\<rparr>))
               else call_boot_fn boot_fn state s })"

definition do_bootm :: "zlib \<Rightarrow> cstr list \<Rightarrow> boot \<Rightarrow> (boot_end \<times> boot) option" where
  "do_bootm z argv s =
     (if length argv > 1 \<and> peek (snd (simple_strtoul (argv ! 1) 16)) \<notin> {0, ch CHR '':'', ch CHR ''#''}
      then do_bootm_subcommand z argv s
      else do {
        (r, s) \<leftarrow> bootm_start argv s;
        if r \<noteq> 0 then Some (Return 1, s)
        else do {
          let iflag = interrupts s;
          let s = s\<lparr>interrupts := False\<rparr>;
          let os = im_os (images s);
          (ret, load_end, m) \<leftarrow> bootm_load_os z os (bm_mem s);
          let s = s\<lparr>bm_mem := m\<rparr>;
          if ret = BOOTM_ERR_RESET \<or> ret = BOOTM_ERR_OVERLAP \<and> \<not> legacy_hdr_valid (images s) then Some (Reset, s)
          else if ret = BOOTM_ERR_UNIMPLEMENTED then Some (Return 1, s\<lparr>interrupts := iflag\<rparr>)
          else do {
            (_, l) \<leftarrow> lmb_reserve (im_lmb (images s)) (img_load os) (load_end - img_load os);
            let s = s\<lparr>images := (images s)\<lparr>im_lmb := l\<rparr>\<rparr>;
            if img_type os = IH_TYPE_STANDALONE then
              bootm_start_standalone argv (s\<lparr>interrupts := iflag\<rparr>)
            else do {
              boot_fn \<leftarrow> boot_os (img_os os);
              case boot_fn of
                None \<Rightarrow> Some (Return 1, s\<lparr>interrupts := iflag\<rparr>)
              | Some f \<Rightarrow>
                  do { (r, s) \<leftarrow> f 0 s;
                       Some (case r of Return _ \<Rightarrow> Reset | _ \<Rightarrow> r, s) } } } } })"

subsection \<open>Listing images (do_iminfo)\<close>

definition image_info :: "mem \<Rightarrow> u32 \<Rightarrow> (int \<times> byte list) option" where
  "image_info m addr =
     do { t \<leftarrow> printf (newline @ ''## Checking Image at %08lx ...'' @ newline) [VA_word addr];
          case genimg_get_format m addr of
            IMAGE_FORMAT_INVALID \<Rightarrow> Some (1, t @ cs (''Unknown image format!'' @ newline))
          | IMAGE_FORMAT_LEGACY \<Rightarrow>
              do { let t = t @ cs (''   Legacy image found'' @ newline);
                   if \<not> image_check_magic m addr then Some (1, t @ cs (''   Bad Magic Number'' @ newline))
                   else if \<not> image_check_hcrc (hdr_at m addr) then Some (1, t @ cs (''   Bad Header Checksum'' @ newline))
                   else do {
                     c \<leftarrow> image_print_contents m addr;
                     let t = t @ c @ cs ''   Verifying Checksum ... '';
                     Some (if image_check_dcrc m addr then (0, t @ cs (''OK'' @ newline))
                           else (1, t @ cs (''   Bad Data CRC'' @ newline))) } } }"

fun iminfo_args :: "mem \<Rightarrow> cstr list \<Rightarrow> (int \<times> byte list) option" where
  "iminfo_args m [] = Some (0, [])"
| "iminfo_args m (a # as) =
     do { (r, t) \<leftarrow> image_info m (fst (simple_strtoul a 16));
          (q, u) \<leftarrow> iminfo_args m as;
          Some (if r \<noteq> 0 then 1 else q, t @ u) }"

definition do_iminfo :: "cstr list \<Rightarrow> boot \<Rightarrow> (int \<times> byte list) option" where
  "do_iminfo argv s =
     (if length argv < 2 then image_info (bm_mem s) (load_addr (bm_env s)) else iminfo_args (bm_mem s) (tl argv))"

end
