(* ===== verification/Netboot.thy ===== *)
theory Netboot
  imports NetLoopProps Bootm
begin

text \<open>
  The network boot commands of \<^verbatim>\<open>common/cmd_net.c\<close>: they set load address and file name, run the main loop of the network
  code, publish the configuration in the environment, and boot the loaded image when \<^verbatim>\<open>autostart\<close> asks for it. The state
  is that of the network code together with the part of the boot state that is not shared with it.
\<close>

definition ip_to_string :: "u32 \<Rightarrow> cstr option" where
  "ip_to_string x =
     printf ''%d.%d.%d.%d''
       [VA_word (drop_bit 24 x AND 0xff), VA_word (drop_bit 16 x AND 0xff), VA_word (drop_bit 8 x AND 0xff), VA_word (x AND 0xff)]"

definition set_net_var :: "string \<Rightarrow> cstr \<Rightarrow> ('w, 'z) net_scheme \<Rightarrow> ('w, 'z) net_scheme option" where
  "set_net_var name v s =
     map_option (\<lambda>(_, e). s\<lparr>net_eth := (net_eth s)\<lparr>eth_env := e\<rparr>\<rparr>) (setenv (cs name) (Some v) (net_env s))"

definition set_net_ip :: "string \<Rightarrow> u32 \<Rightarrow> ('w, 'z) net_scheme \<Rightarrow> ('w, 'z) net_scheme option" where
  "set_net_ip name ip s = (if ip \<noteq> 0 then do { t \<leftarrow> ip_to_string ip; set_net_var name t s } else Some s)"

definition set_net_str :: "string \<Rightarrow> byte list \<Rightarrow> ('w, 'z) net_scheme \<Rightarrow> ('w, 'z) net_scheme option" where
  "set_net_str name buf s = (if peek buf \<noteq> 0 then set_net_var name (takeWhile (\<lambda>c. c \<noteq> 0) buf) s else Some s)"

definition netboot_update_env :: "('w, 'z) st \<Rightarrow> ('w, 'z) st option" where
  "netboot_update_env s =
     do { s \<leftarrow> set_net_ip ''gatewayip'' (NetOurGatewayIP s) s;
          s \<leftarrow> set_net_ip ''netmask'' (NetOurSubnetMask s) s;
          s \<leftarrow> set_net_str ''hostname'' (NetOurHostName s) s;
          s \<leftarrow> set_net_str ''rootpath'' (NetOurRootPath s) s;
          s \<leftarrow> set_net_ip ''ipaddr'' (NetOurIP s) s;
          s \<leftarrow> set_net_ip ''serverip'' (NetServerIP s) s;
          s \<leftarrow> set_net_ip ''dnsip'' (NetOurDNSIP s) s;
          set_net_str ''domain'' (NetOurNISDomain s) s }"

text \<open>Load address and file name from the variable \<^verbatim>\<open>loadaddr\<close> and the arguments; the first component is false for the usage message.\<close>

definition netboot_args :: "cstr list \<Rightarrow> env_state \<Rightarrow> (bool \<times> env_state) option" where
  "netboot_args argv e =
     do { v \<leftarrow> getenv_str e (cs ''loadaddr'');
          let e = (case v of None \<Rightarrow> e | Some v \<Rightarrow> e\<lparr>load_addr := fst (simple_strtoul v 16)\<rparr>);
          Some (if length argv = 1 then (True, e)
                else if length argv = 2 then
                  (let (addr, rest) = simple_strtoul (argv ! 1) 16
                   in if rest = [] then (True, e\<lparr>load_addr := addr\<rparr>)
                      else (True, e\<lparr>BootFile := copy_filename (argv ! 1) 128\<rparr>))
                else if length argv = 3 then
                  (True, e\<lparr>load_addr := fst (simple_strtoul (argv ! 1) 16), BootFile := copy_filename (argv ! 2) 128\<rparr>)
                else (False, e)) }"

definition with_env :: "env_state \<Rightarrow> ('w, 'z) net_scheme \<Rightarrow> ('w, 'z) net_scheme" where
  "with_env e s = s\<lparr>net_eth := (net_eth s)\<lparr>eth_env := e\<rparr>\<rparr>"

text \<open>What follows a load of \<open>n\<close> bytes: the configuration is published and the image is booted if \<^verbatim>\<open>autostart\<close> asks for it.\<close>

definition netboot_done :: "zlib \<Rightarrow> cstr list \<Rightarrow> int \<Rightarrow> ('w, 'z) st \<Rightarrow> boot \<Rightarrow> (boot_end \<times> ('w, 'z) st \<times> boot) option" where
  "netboot_done z argv n s b =
     do { s \<leftarrow> netboot_update_env s;
          if n = 0 then Some (Return 0, s, b)
          else do {
            v \<leftarrow> getenv_str (net_env s) (cs ''autostart'');
            if v = Some (cs ''yes'') then
              do { (r, b) \<leftarrow> do_bootm z [argv ! 0] (b\<lparr>bm_env := net_env s, bm_mem := net_mem s\<rparr>);
                   Some (r, (with_env (bm_env b) s)\<lparr>net_mem := bm_mem b\<rparr>, b) }
            else Some (Return 0, s, b) } }"

text \<open>The result has no end while the main loop is still running after the events.\<close>

definition netboot_common ::
  "'w eth_driver \<Rightarrow> ('w, 'z) nfs \<Rightarrow> zlib \<Rightarrow> proto \<Rightarrow> cstr list \<Rightarrow> event list \<Rightarrow> ('w, 'z) st \<Rightarrow> boot
     \<Rightarrow> (boot_end option \<times> ('w, 'z) st \<times> boot) option" where
  "netboot_common drv nfs z protocol argv evs s b =
     do { (ok, e) \<leftarrow> netboot_args argv (net_env s);
          if \<not> ok then Some (Some (Return 1), with_env e s, b)
          else do {
            (n, s) \<leftarrow> NetLoop drv nfs protocol evs (with_env e s);
            case n of
              None \<Rightarrow> Some (None, s, b)
            | Some n \<Rightarrow>
                if n < 0 then Some (Some (Return 1), s, b)
                else map_option (\<lambda>(r, s, b). (Some r, s, b)) (netboot_done z argv n s b) } }"

definition do_bootp :: "'w eth_driver \<Rightarrow> ('w, 'z) nfs \<Rightarrow> zlib \<Rightarrow> cstr list \<Rightarrow> event list \<Rightarrow> ('w, 'z) st \<Rightarrow> boot
     \<Rightarrow> (boot_end option \<times> ('w, 'z) st \<times> boot) option" where
  "do_bootp drv nfs z = netboot_common drv nfs z BOOTP"

definition do_tftpb :: "'w eth_driver \<Rightarrow> ('w, 'z) nfs \<Rightarrow> zlib \<Rightarrow> cstr list \<Rightarrow> event list \<Rightarrow> ('w, 'z) st \<Rightarrow> boot
     \<Rightarrow> (boot_end option \<times> ('w, 'z) st \<times> boot) option" where
  "do_tftpb drv nfs z = netboot_common drv nfs z TFTP"

definition do_rarpb :: "'w eth_driver \<Rightarrow> ('w, 'z) nfs \<Rightarrow> zlib \<Rightarrow> cstr list \<Rightarrow> event list \<Rightarrow> ('w, 'z) st \<Rightarrow> boot
     \<Rightarrow> (boot_end option \<times> ('w, 'z) st \<times> boot) option" where
  "do_rarpb drv nfs z = netboot_common drv nfs z RARP"

definition do_nfs :: "'w eth_driver \<Rightarrow> ('w, 'z) nfs \<Rightarrow> zlib \<Rightarrow> cstr list \<Rightarrow> event list \<Rightarrow> ('w, 'z) st \<Rightarrow> boot
     \<Rightarrow> (boot_end option \<times> ('w, 'z) st \<times> boot) option" where
  "do_nfs drv nfs z = netboot_common drv nfs z NFS"

end
