(* ===== verification/Mkimage.thy ===== *)
theory Mkimage
  imports Image
begin

text \<open>
  The host tool that makes boot images: \<^verbatim>\<open>tools/mkimage.c\<close> in its writing mode and the default image type of
  \<^verbatim>\<open>tools/default_image.c\<close>. Files are byte lists; \<open>None\<close> stands for an exit with an error. Options are given in the
  record of the parameters, and the data files by their contents.
\<close>

record mkimage_params =
  p_addr :: u32
  p_ep :: u32
  p_os :: byte
  p_arch :: byte
  p_type :: byte
  p_comp :: byte
  p_imagename :: cstr
  p_eflag :: bool
  p_xflag :: bool

definition image_check_image_types :: "byte \<Rightarrow> bool" where
  "image_check_image_types type \<longleftrightarrow> type > 0 \<and> type < 8"

text \<open>A file as the memory it is mapped to.\<close>

definition bytes_mem :: "byte list \<Rightarrow> mem" where
  "bytes_mem f a = (if unat a < length f then f ! unat a else 0)"

definition image_verify_header :: "byte list \<Rightarrow> int" where
  "image_verify_header ptr =
     (let hdr = hdr_at (bytes_mem ptr) 0
      in if ih_magic hdr \<noteq> IH_MAGIC then -9
         else if crc32 0 0 (hdr_bytes (hdr\<lparr>ih_hcrc := 0\<rparr>)) \<noteq> ih_hcrc hdr then -7
         else if crc32 64 0 (drop 64 ptr) \<noteq> ih_dcrc hdr then -11
         else 0)"

definition strncpy_name :: "cstr \<Rightarrow> byte list" where
  "strncpy_name name = take IH_NMLEN name @ replicate (IH_NMLEN - length name) 0"

definition image_set_header :: "byte list \<Rightarrow> u32 \<Rightarrow> mkimage_params \<Rightarrow> byte list" where
  "image_set_header ptr st_mtime params =
     (let checksum = crc32 64 0 (drop 64 ptr);
          hdr = (hdr_at (bytes_mem ptr) 0)
            \<lparr>ih_magic := IH_MAGIC, ih_time := st_mtime, ih_size := of_nat (length ptr - 64), ih_load := p_addr params,
             ih_ep := p_ep params, ih_dcrc := checksum, ih_os := p_os params, ih_arch := p_arch params,
             ih_type := p_type params, ih_comp := p_comp params, ih_name := strncpy_name (p_imagename params)\<rparr>;
          checksum = crc32 0 0 (hdr_bytes hdr)
      in hdr_bytes (hdr\<lparr>ih_hcrc := checksum\<rparr>) @ drop 64 ptr)"

text \<open>An empty file cannot be mapped, and the tool gives up.\<close>

definition copy_file :: "bool \<Rightarrow> byte list \<Rightarrow> bool \<Rightarrow> byte list option" where
  "copy_file xflag data pad =
     (if data = [] then None
      else if xflag \<and> (length data < 64 \<or> take 64 data \<noteq> replicate 64 0xff) then None
      else
        let data = (if xflag then drop 64 data else data); tail = length data mod 4
        in Some (data @ (if pad \<and> tail \<noteq> 0 then replicate (4 - tail) 0 else [])))"

fun copy_files :: "bool \<Rightarrow> byte list list \<Rightarrow> byte list option" where
  "copy_files xflag [] = None"
| "copy_files xflag [f] = copy_file xflag f False"
| "copy_files xflag (f # fs) =
     do { a \<leftarrow> copy_file xflag f True; b \<leftarrow> copy_files xflag fs; Some (a @ b) }"

definition write_sizes :: "byte list list \<Rightarrow> byte list" where
  "write_sizes files = concat (map (\<lambda>f. be32_bytes (of_nat (length f))) files) @ be32_bytes 0"

definition mkimage :: "mkimage_params \<Rightarrow> u32 \<Rightarrow> byte list list \<Rightarrow> byte list option" where
  "mkimage params st_mtime files =
     (if \<not> image_check_image_types (p_type params) then None
      else
        let params = (if p_eflag params then params
                      else params\<lparr>p_ep := p_addr params + (if p_xflag params then 64 else 0)\<rparr>)
        in do { body \<leftarrow> (if p_type params = IH_TYPE_MULTI \<or> p_type params = IH_TYPE_SCRIPT then
                          map_option (\<lambda>b. write_sizes files @ b) (copy_files (p_xflag params) files)
                        else case files of [f] \<Rightarrow> copy_file (p_xflag params) f False | _ \<Rightarrow> None);
                Some (image_set_header (replicate 64 0 @ body) st_mtime params) })"

subsection \<open>The header in memory\<close>

lemma length_hdr_bytes [simp]: "length (hdr_bytes h) = 32 + length (ih_name h)"
  by (simp add: hdr_bytes_def)

lemma length_strncpy_name [simp]: "length (strncpy_name s) = 32"
  by (simp add: strncpy_name_def)

lemma word32_read: "word32 m a = (case mem_read a 4 m of [p, q, r, s] \<Rightarrow> be32_val p q r s | _ \<Rightarrow> 0)"
  by (simp add: word32_def mem_read_def upt_rec)

lemma word32_block:
  assumes "mem_read a (length f) m = f" "f = xs @ be32_bytes w @ ys"
  shows "word32 m (a + of_nat (length xs)) = w"
proof -
  have "f = mem_read a (length xs) m @ mem_read (a + of_nat (length xs)) 4 m @ mem_read (a + of_nat (length xs + 4)) (length ys) m"
    using assms mem_read_append [of a "length xs" "4 + length ys" m]
      mem_read_append [of "a + of_nat (length xs)" 4 "length ys" m] by (simp add: add.assoc)
  then have "mem_read (a + of_nat (length xs)) 4 m = be32_bytes w"
    using assms(2) by (simp add: append_eq_append_conv)
  then show ?thesis by (simp add: word32_read be32_bytes_def be32_val_bytes)
qed

lemma byte_block:
  assumes "mem_read a (length f) m = f" "i < length f"
  shows "m (a + of_nat i) = f ! i"
  using assms nth_mem_read [of i "length f" a m] by simp

lemma mem_read_block:
  assumes "mem_read a (length f) m = f" "f = xs @ b @ ys"
  shows "mem_read (a + of_nat (length xs)) (length b) m = b"
  using assms mem_read_append [of a "length xs" "length b + length ys" m]
    mem_read_append [of "a + of_nat (length xs)" "length b" "length ys" m] by (simp add: append_eq_append_conv)

text \<open>Where the bytes of a header stand in memory, the header is read.\<close>

lemma hdr_at_bytes:
  assumes f: "mem_read a (length f) m = f" "f = hdr_bytes h @ body" and n: "length (ih_name h) = 32"
  shows "hdr_at m a = h"
proof -
  define w where "w = [ih_magic h, ih_hcrc h, ih_time h, ih_size h, ih_load h, ih_ep h, ih_dcrc h]"
  define t where "t = [ih_os h, ih_arch h, ih_type h, ih_comp h] @ ih_name h @ body"
  have fe: "f = concat (map be32_bytes w) @ t" using f(2) by (simp add: hdr_bytes_def w_def t_def)
  have len: "length (concat (map be32_bytes ws)) = 4 * length ws" for ws by (induction ws) auto
  have lw: "length w = 7" by (simp add: w_def)
  have word: "word32 m (a + of_nat (4 * i)) = w ! i" if "i < 7" for i
  proof -
    have "w = take i w @ w ! i # drop (Suc i) w" using that lw by (simp add: id_take_nth_drop)
    then have "f = concat (map be32_bytes (take i w)) @ be32_bytes (w ! i) @ concat (map be32_bytes (drop (Suc i) w)) @ t"
      unfolding fe by (metis append.assoc concat.simps(2) concat_append list.simps(9) map_append)
    from word32_block [OF f(1) this] show ?thesis using that lw by (simp add: len)
  qed
  have byt: "m (a + of_nat (28 + i)) = t ! i" if "i < 4" for i
    using byte_block [OF f(1), of "28 + i"] that unfolding fe by (simp add: nth_append len lw t_def)
  have nm: "mem_read (a + of_nat 32) 32 m = ih_name h"
    using mem_read_block [OF f(1), of "concat (map be32_bytes w) @ take 4 t" "ih_name h" body] n
    unfolding fe by (simp add: len lw t_def)
  show ?thesis
    unfolding hdr_at_def
    using word [of 0] word [of 1] word [of 2] word [of 3] word [of 4] word [of 5] word [of 6]
      byt [of 0] byt [of 1] byt [of 2] byt [of 3] nm
    by (cases h) (simp add: w_def t_def)
qed

lemma mem_read_bytes_mem: "length f < 2 ^ 32 \<Longrightarrow> mem_read 0 (length f) (bytes_mem f) = f"
  by (rule nth_equalityI) (simp_all add: nth_mem_read bytes_mem_def unat_of_nat_u32)

lemma hdr_at_bytes_mem: "length f < 2 ^ 32 \<Longrightarrow> f = hdr_bytes h @ body \<Longrightarrow> length (ih_name h) = 32 \<Longrightarrow> hdr_at (bytes_mem f) 0 = h"
  using hdr_at_bytes [OF mem_read_bytes_mem] by blast

subsection \<open>What the tool writes\<close>

lemma zero_hcrc: "ih_hcrc (hdr_at (bytes_mem (replicate 64 0 @ body)) 0) = 0"
  by (simp add: hdr_at_def word32_def bytes_mem_def nth_append be32_val_def)

text \<open>The header before its checksum is set.\<close>

definition plain_header :: "byte list \<Rightarrow> u32 \<Rightarrow> mkimage_params \<Rightarrow> image_header" where
  "plain_header body t params = (hdr_at (bytes_mem (replicate 64 0 @ body)) 0)
     \<lparr>ih_magic := IH_MAGIC, ih_time := t, ih_size := of_nat (length body), ih_load := p_addr params,
      ih_ep := p_ep params, ih_dcrc := crc32 64 0 body, ih_os := p_os params, ih_arch := p_arch params,
      ih_type := p_type params, ih_comp := p_comp params, ih_name := strncpy_name (p_imagename params)\<rparr>"

lemma image_set_header_layout:
  "image_set_header (replicate 64 0 @ body) t params =
     hdr_bytes ((plain_header body t params)\<lparr>ih_hcrc := crc32 0 0 (hdr_bytes (plain_header body t params))\<rparr>) @ body"
  by (simp add: image_set_header_def plain_header_def Let_def)

lemma plain_header_hcrc:
  "image_check_hcrc ((plain_header body t params)\<lparr>ih_hcrc := crc32 0 0 (hdr_bytes (plain_header body t params))\<rparr>)"
proof -
  have "(plain_header body t params)\<lparr>ih_hcrc := 0\<rparr> = plain_header body t params"
    unfolding plain_header_def using zero_hcrc [of body]
    by (cases "hdr_at (bytes_mem (replicate 64 0 @ body)) 0") simp
  then show ?thesis by (simp add: image_check_hcrc_def)
qed

definition entry_point :: "mkimage_params \<Rightarrow> u32" where
  "entry_point p = (if p_eflag p then p_ep p else p_addr p + (if p_xflag p then 64 else 0))"

definition payload :: "mkimage_params \<Rightarrow> byte list list \<Rightarrow> byte list option" where
  "payload p files =
     (if p_type p = IH_TYPE_MULTI \<or> p_type p = IH_TYPE_SCRIPT
      then map_option (\<lambda>b. write_sizes files @ b) (copy_files (p_xflag p) files)
      else case files of [f] \<Rightarrow> copy_file (p_xflag p) f False | _ \<Rightarrow> None)"

text \<open>An image of the tool: a header with the parameters and a correct checksum, followed by the payload.\<close>

lemma mkimage_layout:
  assumes "mkimage p t files = Some f"
  obtains h body where "f = hdr_bytes h @ body" "length (ih_name h) = 32" "payload p files = Some body"
    "ih_magic h = IH_MAGIC" "image_check_hcrc h" "ih_dcrc h = crc32 64 0 body" "ih_size h = of_nat (length body)"
    "ih_load h = p_addr p" "ih_ep h = entry_point p" "ih_os h = p_os p" "ih_arch h = p_arch p" "ih_type h = p_type p"
    "ih_comp h = p_comp p" "ih_time h = t" "ih_name h = strncpy_name (p_imagename p)"
proof -
  let ?p = "if p_eflag p then p else p\<lparr>p_ep := p_addr p + (if p_xflag p then 64 else 0)\<rparr>"
  have same: "payload ?p files = payload p files" by (auto simp: payload_def split: list.split)
  from assms obtain body where b: "payload ?p files = Some body" "f = image_set_header (replicate 64 0 @ body) t ?p"
    by (auto simp: mkimage_def payload_def Let_def split: if_splits bind_splits)
  show ?thesis
    by (rule that [OF b(2) [unfolded image_set_header_layout]])
      (use b(1) same plain_header_hcrc [of body t ?p] in \<open>simp_all add: entry_point_def plain_header_def\<close>)
qed

lemma image_checks:
  assumes f: "mem_read a (length f) m = f" "f = hdr_bytes h @ body" "length (ih_name h) = 32" "length f < 2 ^ 32"
    and h: "ih_dcrc h = crc32 64 0 body" "ih_size h = of_nat (length body)"
  shows "hdr_at m a = h" and "mem_read (image_get_data a) (length body) m = body" and "image_check_dcrc m a"
proof -
  show hdr: "hdr_at m a = h" by (rule hdr_at_bytes [OF f(1,2,3)])
  show data: "mem_read (image_get_data a) (length body) m = body"
    using mem_read_block [OF f(1), of "hdr_bytes h" body "[]"] f(2,3)
    by (simp add: image_get_data_def image_get_header_size_def)
  have "unat (ih_size h) = length body" using f(2,4) h(2) by (simp add: unat_of_nat_u32)
  then show "image_check_dcrc m a"
    using data h(1) crc32_addr [of "image_get_data a" 0 body 64] by (simp add: image_check_dcrc_def Let_def hdr crc32_wd_def)
qed

subsection \<open>Components\<close>

lemma scan_for_first:
  assumes "i \<le> j" "j < n" "P j" "\<forall>k. i \<le> k \<and> k < j \<longrightarrow> \<not> P k"
  shows "scan_for P n i = Some j"
  using assms
proof (induction P n i rule: scan_for.induct)
  case (1 P n i)
  show ?case
  proof (cases "P i")
    case True
    then have "i = j" using 1(2,5) by (metis le_less order_refl)
    then show ?thesis using 1(3,4) by (simp add: scan_for.simps [of P n j])
  next
    case False
    then have "i \<noteq> j" using 1(4) by blast
    then show ?thesis using 1 False by (auto simp: scan_for.simps [of P n i])
  qed
qed

definition pad4 :: "byte list \<Rightarrow> byte list" where
  "pad4 f = f @ (if length f mod 4 \<noteq> 0 then replicate (4 - length f mod 4) 0 else [])"

lemma length_pad4: "length (pad4 f) = 4 * ((length f + 3) div 4)"
  by (simp add: pad4_def) arith

lemma align4_of_nat:
  assumes "n + 3 < 2 ^ 32"
  shows "align4 (of_nat n) = of_nat (4 * ((n + 3) div 4))"
proof -
  have "(w :: u32) AND NOT 3 = push_bit 2 (drop_bit 2 w)" for w
  proof (rule bit_word_eqI)
    fix i
    have three: "(3 :: u32) = mask 2" by (simp add: mask_eq_exp_minus_1)
    have two: "bit w (Suc (Suc (i - 2))) = bit w i" if "2 \<le> i"
    proof -
      have "Suc (Suc (i - 2)) = i" using that by arith
      then show ?thesis by simp
    qed
    show "bit (w AND NOT 3) i = bit (push_bit 2 (drop_bit 2 w)) i" if "i < LENGTH(32)"
      unfolding three using that two by (auto simp: bit_simps not_less)
  qed
  moreover have "unat (of_nat n + 3 :: u32) = n + 3"
    using assms unat_of_nat_u32 [of "n + 3"] by (simp add: of_nat_add)
  ultimately have "unat (align4 (of_nat n)) = (n + 3) div 4 * 4 mod 2 ^ 32"
    by (simp add: align4_def unat_push_bit_mod unat_drop_bit)
  also have "\<dots> = 4 * ((n + 3) div 4)" using assms by simp
  finally show ?thesis by (rule word_eq_of_natI)
qed

lemma copy_files_layout:
  assumes "copy_files False files = Some b"
  shows "files \<noteq> []" "\<forall>d \<in> set files. d \<noteq> []" "b = concat (map pad4 (butlast files)) @ last files"
proof -
  have "files \<noteq> [] \<and> (\<forall>d \<in> set files. d \<noteq> []) \<and> b = concat (map pad4 (butlast files)) @ last files"
    using assms
  proof (induction "False" files arbitrary: b rule: copy_files.induct)
    case (3 f g fs)
    obtain a c where c: "copy_file False f True = Some a" "copy_files False (g # fs) = Some c" "f \<noteq> []" "b = pad4 f @ c"
      using "3.prems" that by (auto simp: copy_file_def pad4_def Let_def split: bind_splits if_splits)
    show ?case using "3.hyps" [OF c(1,2)] c(3,4) by simp
  qed (auto simp: copy_file_def split: if_splits)
  then show "files \<noteq> []" "\<forall>d \<in> set files. d \<noteq> []" "b = concat (map pad4 (butlast files)) @ last files" by simp_all
qed

lemma concat_split: "i < length xs \<Longrightarrow> concat xs = concat (take i xs) @ xs ! i @ concat (drop (Suc i) xs)"
  by (metis concat.simps(2) concat_append id_take_nth_drop)

text \<open>A component between those in front of it and those behind it.\<close>

lemma component_split:
  assumes "i < length files"
  shows "\<exists>ys. concat (map pad4 (butlast files)) @ last files = concat (map pad4 (take i files)) @ files ! i @ ys"
proof (cases "i < length files - 1")
  case True
  have "butlast files ! i = files ! i" "take i (butlast files) = take i files"
    using True by (simp_all add: nth_butlast take_butlast)
  then show ?thesis
    using concat_split [of i "map pad4 (butlast files)"] True by (auto simp: pad4_def take_map)
next
  case False
  then have "i = length files - 1" "files \<noteq> []" using assms by auto
  then show ?thesis by (simp add: last_conv_nth butlast_conv_take)
qed

lemma sizes_word:
  assumes "mem_read a (length f) m = f" "f = write_sizes files @ ys" "i \<le> length files"
  shows "word32 m (a + 4 * of_nat i) = (if i < length files then of_nat (length (files ! i)) else 0)"
proof -
  let ?w = "\<lambda>f. be32_bytes (of_nat (length f))"
  have len: "length (concat (map ?w fs)) = 4 * length fs" for fs :: "byte list list" by (induction fs) auto
  show ?thesis
  proof (cases "i < length files")
    case True
    then show ?thesis
      using word32_block [OF assms(1), of "concat (map ?w (take i files))" "of_nat (length (files ! i))"] assms(2)
        concat_split [of i "map ?w files"] by (simp add: write_sizes_def len take_map)
  next
    case False
    then have "i = length files" using assms(3) by simp
    then show ?thesis
      using word32_block [OF assms(1), of "concat (map ?w files)" 0] assms(2) by (simp add: write_sizes_def len)
  qed
qed

lemma offset_sum:
  assumes "i \<le> length files" "\<forall>f \<in> set (take i files). length f + 3 < 2 ^ 32"
  shows "foldl (\<lambda>off j. off + align4 (of_nat (length (files ! j)))) 0 [0..<i] = of_nat (length (concat (map pad4 (take i files))))"
  using assms
proof (induction i)
  case (Suc i)
  then have "length (files ! i) + 3 < 2 ^ 32" by (simp add: take_Suc_conv_app_nth)
  from align4_of_nat [OF this] have "align4 (of_nat (length (files ! i))) = of_nat (length (pad4 (files ! i)))"
    by (simp add: length_pad4)
  then show ?case using Suc by (simp add: take_Suc_conv_app_nth)
qed simp

text \<open>In memory that holds a table of sizes and the padded files behind it, the components are found.\<close>

lemma multi_found:
  assumes f: "mem_read (image_get_data a) (length b) m = b"
      "b = write_sizes files @ concat (map pad4 (butlast files)) @ last files"
    and l: "length b + 3 < 2 ^ 32" and ne: "\<forall>f \<in> set files. f \<noteq> []" "files \<noteq> []"
  shows "image_multi_count m a = Some (length files)"
    and "i < length files \<Longrightarrow> \<exists>d. image_multi_getimg m a i = Some (d, of_nat (length (files ! i))) \<and>
      mem_read d (length (files ! i)) m = files ! i"
proof -
  let ?d = "image_get_data a"
  have lt: "length (write_sizes files) = 4 * length files + 4"
  proof -
    have "length (concat (map (\<lambda>f. be32_bytes (of_nat (length f))) fs)) = 4 * length fs" for fs :: "byte list list"
      by (induction fs) auto
    then show ?thesis by (simp add: write_sizes_def)
  qed
  have small: "length (files ! j) + 3 < 2 ^ 32" if "j < length files" for j
  proof -
    from component_split [OF that] f(2) have "length (files ! j) \<le> length b" by (auto dest: arg_cong [of _ _ length])
    then show ?thesis using l by simp
  qed
  note w = sizes_word [OF f]
  have nz: "word32 m (?d + 4 * of_nat j) \<noteq> 0" if "j < length files" for j
  proof -
    have "0 < length (files ! j)" using ne(1) that by simp
    then have "unat (of_nat (length (files ! j)) :: u32) \<noteq> 0" using small [OF that] by (simp add: unat_of_nat_u32)
    then show ?thesis using w [of j] that by auto
  qed
  have "length files < 2 ^ 30" using l lt f(2) by simp
  then show cnt: "image_multi_count m a = Some (length files)"
    unfolding image_multi_count_def using w [of "length files"] nz by (intro scan_for_first) auto
  assume i: "i < length files"
  obtain ys where ys: "concat (map pad4 (butlast files)) @ last files = concat (map pad4 (take i files)) @ files ! i @ ys"
    using component_split [OF i] by blast
  let ?o = "of_nat (length (concat (map pad4 (take i files)))) :: u32"
  have "mem_read (?d + of_nat (length (write_sizes files @ concat (map pad4 (take i files))))) (length (files ! i)) m = files ! i"
    by (rule mem_read_block [OF f(1), where ys = ys]) (simp add: f(2) ys)
  then have rd: "mem_read (?d + (of_nat (length files) + 1) * 4 + ?o) (length (files ! i)) m = files ! i"
    by (simp add: lt algebra_simps)
  have "foldl (\<lambda>off j. off + align4 (word32 m (?d + 4 * of_nat j))) 0 [0..<i] =
      foldl (\<lambda>off j. off + align4 (of_nat (length (files ! j)))) 0 [0..<i]"
    by (rule foldl_cong) (use i w in auto)
  also have "\<dots> = ?o" using i small by (intro offset_sum) (auto simp: in_set_conv_nth)
  finally show "\<exists>d. image_multi_getimg m a i = Some (d, of_nat (length (files ! i))) \<and>
      mem_read d (length (files ! i)) m = files ! i"
    using rd i w [of i] by (intro exI) (auto simp: image_multi_getimg_def cnt Let_def)
qed

subsection \<open>Images of the tool on the board\<close>

text \<open>C8: an image of the tool, loaded at any address, passes every check of the boot loader: magic number, header
  checksum and data checksum; the header has the parameters given to the tool, and behind it stands the payload. The tool's
  own verification accepts it, too.\<close>

theorem mkimage_accepted:
  assumes "mkimage p t files = Some f" and "length f < 2 ^ 32"
  shows "image_check_magic (mem_write a f m) a \<and> image_check_hcrc (hdr_at (mem_write a f m) a) \<and>
    image_check_dcrc (mem_write a f m) a \<and> image_verify_header f = 0 \<and>
    (let h = hdr_at (mem_write a f m) a in
       ih_load h = p_addr p \<and> ih_ep h = entry_point p \<and> ih_os h = p_os p \<and> ih_arch h = p_arch p \<and>
       ih_type h = p_type p \<and> ih_comp h = p_comp p \<and> unat (ih_size h) = length f - 64) \<and>
    payload p files = Some (mem_read (image_get_data a) (length f - 64) (mem_write a f m))"
proof -
  let ?m = "mem_write a f m"
  obtain h body where h: "f = hdr_bytes h @ body" "length (ih_name h) = 32" "payload p files = Some body"
    "ih_magic h = IH_MAGIC" "image_check_hcrc h" "ih_dcrc h = crc32 64 0 body" "ih_size h = of_nat (length body)"
    "ih_load h = p_addr p" "ih_ep h = entry_point p" "ih_os h = p_os p" "ih_arch h = p_arch p" "ih_type h = p_type p"
    "ih_comp h = p_comp p" "ih_time h = t" "ih_name h = strncpy_name (p_imagename p)"
    by (rule mkimage_layout [OF assms(1)])
  have rd: "mem_read a (length f) ?m = f" using assms(2) by (simp add: mem_read_write)
  note c = image_checks [OF rd h(1,2) assms(2) h(6,7)] and v = hdr_at_bytes_mem [OF assms(2) h(1,2)]
  have len: "length body = length f - 64" "drop 64 f = body" using h(1,2) by simp_all
  have "unat (ih_size h) = length f - 64" using assms(2) h(7) len(1) by (simp add: unat_of_nat_u32)
  moreover have "image_verify_header f = 0"
    using v h(4,5,6) len(2) by (simp add: image_verify_header_def image_check_hcrc_def)
  ultimately show ?thesis using c h(3-13) len(1) by (simp add: image_check_magic_def)
qed

definition sample_params :: mkimage_params where
  "sample_params = \<lparr>p_addr = 0, p_ep = 4, p_os = IH_OS_LINUX, p_arch = IH_ARCH_PPC, p_type = IH_TYPE_KERNEL,
     p_comp = IH_COMP_NONE, p_imagename = cs ''Linux'', p_eflag = True, p_xflag = False\<rparr>"

lemma mkimage_kernel:
  "d \<noteq> [] \<Longrightarrow> mkimage sample_params t [d] = Some (image_set_header (replicate 64 0 @ d) t sample_params)"
  by (simp add: mkimage_def sample_params_def image_check_image_types_def copy_file_def)

lemma length_image_set_header [simp]: "length (image_set_header (replicate 64 0 @ d) t p) = 64 + length d"
  by (simp add: image_set_header_layout plain_header_def)

theorem mkimage_accepted_witness:
  "image_check_dcrc (mem_write 0x1000000 (image_set_header (replicate 64 0 @ [1, 2, 3]) 7 sample_params) (\<lambda>_. 0)) 0x1000000 \<and>
   mem_read (image_get_data 0x1000000) 3
     (mem_write 0x1000000 (image_set_header (replicate 64 0 @ [1, 2, 3]) 7 sample_params) (\<lambda>_. 0)) = [1, 2, 3]"
  using mkimage_accepted [OF mkimage_kernel [of "[1, 2, 3]" 7], of "0x1000000" "\<lambda>_. 0"]
  by (simp add: payload_def sample_params_def copy_file_def)

text \<open>C9: a multi-component image of the tool, built without \<^verbatim>\<open>-x\<close> and shorter than 4 GB, loaded at any address, is taken apart
  again by the boot loader: it counts as many components as there were files, finds each file byte for byte, and none behind the
  last. (The tool refuses empty files.)\<close>

theorem mkimage_components:
  assumes "mkimage p t files = Some f" and "length f + 3 < 2 ^ 32" and "p_type p = IH_TYPE_MULTI" and "\<not> p_xflag p"
  shows "image_multi_count (mem_write a f m) a = Some (length files) \<and>
    (\<forall>i < length files. \<exists>d. image_multi_getimg (mem_write a f m) a i = Some (d, of_nat (length (files ! i))) \<and>
       mem_read d (length (files ! i)) (mem_write a f m) = files ! i) \<and>
    image_multi_getimg (mem_write a f m) a (length files) = Some (0, 0)"
proof -
  let ?m = "mem_write a f m"
  obtain h body where h: "f = hdr_bytes h @ body" "length (ih_name h) = 32" "payload p files = Some body"
    "ih_dcrc h = crc32 64 0 body" "ih_size h = of_nat (length body)" by (rule mkimage_layout [OF assms(1)])
  obtain c where c: "copy_files False files = Some c" "body = write_sizes files @ c"
    using h(3) assms(3,4) by (auto simp: payload_def)
  note lay = copy_files_layout [OF c(1)]
  have b: "body = write_sizes files @ concat (map pad4 (butlast files)) @ last files" using c(2) lay(3) by simp
  have "mem_read a (length f) ?m = f" using assms(2) by (simp add: mem_read_write)
  from image_checks(2) [OF this h(1,2) _ h(4,5)] assms(2)
  have rd: "mem_read (image_get_data a) (length body) ?m = body" by simp
  have l: "length body + 3 < 2 ^ 32" using assms(2) h(1) by simp
  note found = multi_found [OF rd b l lay(2,1)]
  have "image_multi_getimg ?m a (length files) = Some (0, 0)" by (simp add: image_multi_getimg_def found(1))
  then show ?thesis using found by blast
qed

theorem mkimage_components_witness:
  "\<exists>f d. mkimage (sample_params\<lparr>p_type := IH_TYPE_MULTI\<rparr>) 7 [[1, 2, 3], [4, 5]] = Some f \<and>
     image_multi_getimg (mem_write 0x1000000 f (\<lambda>_. 0)) 0x1000000 1 = Some (d, 2) \<and>
     mem_read d 2 (mem_write 0x1000000 f (\<lambda>_. 0)) = [4, 5]"
proof -
  let ?p = "sample_params\<lparr>p_type := IH_TYPE_MULTI\<rparr>"
  have "\<exists>f. mkimage ?p 7 [[1, 2, 3], [4, 5]] = Some f \<and> length f + 3 < 2 ^ 32"
    by (simp add: mkimage_def sample_params_def image_check_image_types_def copy_file_def write_sizes_def)
  then obtain f where f: "mkimage ?p 7 [[1, 2, 3], [4, 5]] = Some f" "length f + 3 < 2 ^ 32" by blast
  show ?thesis
    using mkimage_components [OF f, of "0x1000000" "\<lambda>_. 0"] f(1) by (auto simp: sample_params_def numeral_2_eq_2 dest!: spec [of _ 1])
qed

end
