(* ===== verification/BootmProps.thy ===== *)
theory BootmProps
  imports Bootm Mkimage EnvProps
begin

text \<open>
  Booting an image: what \<^verbatim>\<open>bootm\<close> accepts, what it leaves in memory and which arguments the kernel gets.
\<close>

subsection \<open>Printing always returns\<close>

lemmas printf_defs = printf_def vsprintf_def vsprintf_spec_def parse_width_def parse_precision_def parse_qualifier_def
  format_conv_def fetch_num_def

lemma printf_name: "\<exists>t. printf (''   Image Name:   %.*s'' @ newline) [VA_word w, VA_str (Some s)] = Some t"
  by (simp add: printf_defs newline_def cs_def)

lemma printf_time: "\<exists>t. printf (''%4d-%02d-%02d  %2d:%02d:%02d UTC'' @ newline)
    [VA_word a, VA_word b, VA_word c, VA_word d, VA_word e, VA_word f] = Some t"
  by (simp add: printf_defs newline_def cs_def skip_atoi_def)

lemma printf_bytes: "\<exists>t. printf ''%d Bytes = '' [VA_word w] = Some t" "\<exists>t. printf ''%llu Bytes'' [VA_quad q] = Some t"
  "\<exists>t. printf ''%lu'' [VA_word w] = Some t" "\<exists>t. printf ''.%ld'' [VA_word w] = Some t"
  by (simp_all add: printf_defs cs_def)

lemma printf_addresses: "\<exists>t. printf (''   Load Address: %08x'' @ newline) [VA_word w] = Some t"
  "\<exists>t. printf (''   Entry Point:  %08x'' @ newline) [VA_word w] = Some t"
  "\<exists>t. printf ''      Image %d: '' [VA_word w] = Some t"
  "\<exists>t. printf (''       Offset = 0x%08lx'' @ newline) [VA_word w] = Some t"
  by (simp_all add: printf_defs newline_def cs_def skip_atoi_def)

lemma bind_returns: "\<exists>x. f = Some x \<Longrightarrow> (\<And>x. \<exists>y. g x = Some y) \<Longrightarrow> \<exists>y. Option.bind f g = Some y"
  by auto

lemma if_returns: "\<exists>x. f = Some x \<Longrightarrow> \<exists>x. (if c then f else Some y) = Some x"
  by auto

lemma print_size_returns: "\<exists>t. print_size w s = Some t"
  unfolding print_size_def Let_def
  by (cases "List.find (\<lambda>(c, d). drop_bit d w \<noteq> 0) (zip ''EPTGMK'' [60, 50, 40, 30, 20, 10])")
    (simp_all only: option.case prod.case_eq_if bind_returns if_returns printf_bytes option.inject simp_thms)

lemma genimg_print_size_returns: "\<exists>t. genimg_print_size w = Some t"
  unfolding genimg_print_size_def by (intro bind_returns printf_bytes print_size_returns) simp

lemma year_loop_rest: "snd (year_loop i day) < days_in_year (fst (year_loop i day))"
  by (induction i day rule: year_loop.induct) (subst (1 2) year_loop.simps, auto)

lemma month_loop_returns:
  "day < sum_list ds \<Longrightarrow> ds \<noteq> [] \<Longrightarrow> \<exists>k r. month_loop i day ds = Some (i + int k, r) \<and> k < length ds"
proof (induction i day ds rule: month_loop.induct)
  case (2 i day d ds)
  show ?case
  proof (cases "day \<ge> d")
    case True
    then have "ds \<noteq> []" using 2(2) by auto
    then obtain k r where "month_loop (i + 1) (day - d) ds = Some (i + 1 + int k, r)" "k < length ds"
      using 2 True by force
    then show ?thesis using True by (intro exI [of _ "Suc k"]) simp
  qed (use 2 in simp)
qed simp

lemma to_tm_returns: "\<exists>t'. to_tm tim t = Some t'"
proof -
  obtain y d where yd: "year_loop 1970 (tim sdiv 86400) = (y, d)" by fastforce
  let ?md = "if leapyear y then month_days[1 := 29] else month_days"
  have "d < sum_list ?md"
    using year_loop_rest [of 1970 "tim sdiv 86400"] yd by (auto simp: days_in_year_def month_days_def split: if_splits)
  moreover have "?md \<noteq> []" by (simp add: month_days_def)
  ultimately obtain k r where k: "month_loop 1 d ?md = Some (1 + int k, r)" "k < length ?md"
    using month_loop_returns [of d ?md 1] by blast
  have "k < 12" using k(2) by (simp add: month_days_def split: if_splits)
  then show ?thesis using k(1) by (simp add: to_tm_def Let_def yd GregorianDay_def)
qed

lemma print_components_returns:
  "image_multi_count m a \<noteq> None \<Longrightarrow> \<exists>t. print_components m a i k = Some t"
proof (induction k arbitrary: i)
  case (Suc k)
  obtain d l where g: "image_multi_getimg m a i = Some (d, l)"
    using Suc.prems by (cases "image_multi_getimg m a i") (auto simp: image_multi_getimg_def Let_def)
  then show ?case
    unfolding print_components.simps g bind.bind_lunit prod.case
    by (intro bind_returns if_returns printf_addresses genimg_print_size_returns Suc.IH Suc.prems) simp
qed simp

lemma image_print_contents_returns:
  assumes "ih_type (hdr_at m a) \<notin> {IH_TYPE_MULTI, IH_TYPE_SCRIPT} \<or> image_multi_count m a \<noteq> None"
  shows "\<exists>t. image_print_contents m a = Some t"
proof -
  let ?h = "hdr_at m a"
  obtain tm where "to_tm (sint (ih_time ?h)) \<lparr>tm_sec = 0, tm_min = 0, tm_hour = 0, tm_mday = 0, tm_mon = 0, tm_year = 0,
                 tm_wday = 0, tm_yday = 0, tm_isdst = 0\<rparr> = Some tm" using to_tm_returns by blast
  then have t: "\<exists>t. genimg_print_time (ih_time ?h) = Some t"
    using printf_time by (simp add: genimg_print_time_def)
  have "\<exists>t. (if ih_type ?h = IH_TYPE_MULTI \<or> ih_type ?h = IH_TYPE_SCRIPT then
       do { count \<leftarrow> image_multi_count m a; p \<leftarrow> print_components m a 0 count; Some (cs (''   Contents:'' @ newline) @ p) }
       else Some []) = Some t"
  proof (cases "image_multi_count m a")
    case (Some n)
    then obtain t where "print_components m a 0 n = Some t" using print_components_returns [of m a 0 n] by auto
    with Some show ?thesis by (simp del: append.simps)
  qed (use assms in auto)
  then obtain u v w x y z where f: "printf (''   Image Name:   %.*s'' @ newline)
      [VA_word (of_nat IH_NMLEN), VA_str (Some (takeWhile (\<lambda>c. c \<noteq> 0) (ih_name ?h)))] = Some u"
    "genimg_print_time (ih_time ?h) = Some v" "genimg_print_size (ih_size ?h) = Some w"
    "printf (''   Load Address: %08x'' @ newline) [VA_word (ih_load ?h)] = Some x"
    "printf (''   Entry Point:  %08x'' @ newline) [VA_word (ih_ep ?h)] = Some y"
    "(if ih_type ?h = IH_TYPE_MULTI \<or> ih_type ?h = IH_TYPE_SCRIPT then
       do { count \<leftarrow> image_multi_count m a; p \<leftarrow> print_components m a 0 count; Some (cs (''   Contents:'' @ newline) @ p) }
       else Some []) = Some z"
    using printf_name t genimg_print_size_returns printf_addresses(1,2) by metis
  show ?thesis unfolding image_print_contents_def Let_def f by simp
qed

subsection \<open>Memory of the boot\<close>

text \<open>A board with at most 768 MB and its stack above the boot map, whose environment does not move the boot memory.\<close>

definition unset :: "string \<Rightarrow> (cstr \<times> cstr) list \<Rightarrow> bool" where
  "unset name kvs \<longleftrightarrow> map_of kvs (cs name) = None"

definition board_ok :: "boot \<Rightarrow> (cstr \<times> cstr) list \<Rightarrow> bool" where
  "board_ok s kvs \<longleftrightarrow> env_ok (bm_env s) kvs \<and> unset ''bootm_low'' kvs \<and> unset ''bootm_size'' kvs \<and>
     bi_memsize (gd_bd s) = gd_ram_size s \<and> length (bi_enetaddr (gd_bd s)) = 6 \<and> unat (gd_ram_size s) \<le> 0x30000000 \<and>
     0x801000 < unat (stack_pointer s) \<and> unat (stack_pointer s) \<le> unat (gd_ram_size s)"

lemma boot_names [simp]: "is_name (cs ''bootm_low'')" "is_name (cs ''bootm_size'')" "is_name (cs ''verify'')"
  "is_name (cs ''initrd_high'')" "is_name (cs ''bootargs'')" "is_name (cs ''clocks_in_mhz'')" "is_name (cs ''autostart'')"
  by (simp_all add: is_name_def cs_def)

lemma board_env:
  assumes "board_ok s kvs"
  shows "getenv_bootm_low (bm_env s) = Some 0" and "getenv_bootm_size (bm_env s) (bi_memsize (gd_bd s)) = Some (gd_ram_size s)"
proof -
  have e: "env_ok (bm_env s) kvs" using assms by (simp add: board_ok_def)
  show "getenv_bootm_low (bm_env s) = Some 0" "getenv_bootm_size (bm_env s) (bi_memsize (gd_bd s)) = Some (gd_ram_size s)"
    using assms by (simp_all add: board_ok_def unset_def getenv_bootm_low_def getenv_bootm_size_def getenv_map [OF e])
qed

definition table1 :: "u32 \<times> u32 \<Rightarrow> lmb_region" where
  "table1 a = \<lparr>cnt = 1, region = a # replicate 8 (0, 0)\<rparr>"

lemma replicate_9: "replicate 9 x = x # replicate 8 x"
  by (simp add: numeral_eq_Suc)

definition boot_lmb :: "boot \<Rightarrow> lmb" where
  "boot_lmb s = \<lparr>memory = table1 (0, gd_ram_size s),
     reserved = table1 (stack_pointer s - 4096, gd_ram_size s - (stack_pointer s - 4096))\<rparr>"

lemma start_lmb:
  assumes "board_ok s kvs" "im_lmb (images s) = zero_lmb"
  shows "bootm_start_lmb s = Some (boot_lmb s)"
proof -
  have "gd_ram_size s \<le> 0x30000000" using assms(1) by (simp add: board_ok_def word_le_nat_alt)
  then have "\<not> min (min (gd_ram_size s) (gd_ram_size s)) 0x30000000 < gd_ram_size s" by (simp add: min_def)
  then show ?thesis
    using board_env [OF assms(1)] assms(2)
    by (simp add: bootm_start_lmb_def arch_lmb_reserve_def lmb_init_def lmb_add_def lmb_reserve_def lmb_add_region_def
        zero_lmb_def boot_lmb_def table1_def replicate_9 Let_def)
qed

subsection \<open>Kernel images\<close>

text \<open>A kernel image of the tool at an address in memory.\<close>

definition kernel_at :: "mem \<Rightarrow> u32 \<Rightarrow> mkimage_params \<Rightarrow> byte list \<Rightarrow> bool" where
  "kernel_at m a p d \<longleftrightarrow> (\<exists>t f. mkimage p t [d] = Some f \<and> length f < 2 ^ 32 \<and> mem_read a (length f) m = f) \<and>
     p_type p = IH_TYPE_KERNEL \<and> p_arch p = IH_ARCH_PPC \<and> \<not> p_xflag p \<and> d \<noteq> []"

lemma kernel_header:
  assumes "kernel_at m a p d"
  shows "image_check_magic m a" "image_check_hcrc (hdr_at m a)" "image_check_dcrc m a"
    and "ih_type (hdr_at m a) = IH_TYPE_KERNEL" "ih_arch (hdr_at m a) = IH_ARCH_PPC" "ih_os (hdr_at m a) = p_os p"
    and "ih_comp (hdr_at m a) = p_comp p" "ih_load (hdr_at m a) = p_addr p" "ih_ep (hdr_at m a) = entry_point p"
    and "ih_size (hdr_at m a) = of_nat (length d)" "length d < 2 ^ 32" "mem_read (image_get_data a) (length d) m = d"
proof -
  from assms obtain t f where f: "mkimage p t [d] = Some f" "length f < 2 ^ 32" "mem_read a (length f) m = f"
    and p: "p_type p = IH_TYPE_KERNEL" "p_arch p = IH_ARCH_PPC" "\<not> p_xflag p" by (auto simp: kernel_at_def)
  obtain h body where h: "f = hdr_bytes h @ body" "length (ih_name h) = 32" "payload p [d] = Some body"
    "ih_magic h = IH_MAGIC" "image_check_hcrc h" "ih_dcrc h = crc32 64 0 body" "ih_size h = of_nat (length body)"
    "ih_load h = p_addr p" "ih_ep h = entry_point p" "ih_os h = p_os p" "ih_arch h = p_arch p" "ih_type h = p_type p"
    "ih_comp h = p_comp p" "ih_time h = t" "ih_name h = strncpy_name (p_imagename p)"
    by (rule mkimage_layout [OF f(1)])
  note c = image_checks [OF f(3) h(1,2) f(2) h(6,7)]
  have b: "body = d" using h(3) p by (simp add: payload_def copy_file_def split: if_splits)
  show "image_check_magic m a" "image_check_hcrc (hdr_at m a)" "image_check_dcrc m a"
    "ih_type (hdr_at m a) = IH_TYPE_KERNEL" "ih_arch (hdr_at m a) = IH_ARCH_PPC" "ih_os (hdr_at m a) = p_os p"
    "ih_comp (hdr_at m a) = p_comp p" "ih_load (hdr_at m a) = p_addr p" "ih_ep (hdr_at m a) = entry_point p"
    "ih_size (hdr_at m a) = of_nat (length d)" "length d < 2 ^ 32" "mem_read (image_get_data a) (length d) m = d"
    using c h(4-13) f(2) h(1) b p by (simp_all add: image_check_magic_def)
qed

definition kernel_info :: "u32 \<Rightarrow> mkimage_params \<Rightarrow> byte list \<Rightarrow> image_info_t" where
  "kernel_info a p d = \<lparr>img_start = a, img_end = a + (of_nat (length d) + 64), image_start = a + 64,
     image_len = of_nat (length d), img_load = p_addr p, img_comp = p_comp p, img_type = IH_TYPE_KERNEL, img_os = p_os p\<rparr>"

text \<open>The structure \<^verbatim>\<open>images\<close> after the start.\<close>

definition kernel_images :: "boot \<Rightarrow> mkimage_params \<Rightarrow> byte list \<Rightarrow> bool \<Rightarrow> bootm_headers" where
  "kernel_images s p d v =
     (let a = load_addr (bm_env s)
      in zero_headers\<lparr>legacy_hdr_os := a, legacy_hdr_os_copy := hdr_at (bm_mem s) a, legacy_hdr_valid := True,
           im_os := kernel_info a p d, im_ep := entry_point p, im_verify := v, im_state := BOOTM_STATE_START,
           im_lmb := boot_lmb s\<rparr>)"

lemma kernel_start:
  assumes b: "board_ok s kvs" and k: "kernel_at (bm_mem s) (load_addr (bm_env s)) p d"
  shows "\<exists>v. bootm_start [cmd] s = Some (0, s\<lparr>images := kernel_images s p d v\<rparr>)"
proof -
  let ?a = "load_addr (bm_env s)" and ?m = "bm_mem s"
  note h = kernel_header [OF k]
  obtain t where t: "image_print_contents ?m ?a = Some t" using image_print_contents_returns [of ?m ?a] h(4) by auto
  obtain v where v: "getenv_yesno (bm_env s) ''verify'' = Some v"
    using b getenv_map [of "bm_env s" kvs "cs ''verify''"] by (simp add: getenv_yesno_def board_ok_def)
  have len: "(of_nat (length d) :: u32) \<noteq> 0"
    using k h(11) unat_of_nat_u32 [of "length d"] by (auto simp: kernel_at_def)
  let ?s = "s\<lparr>images := zero_headers\<lparr>im_verify := v\<rparr>\<rparr>"
  have l: "bootm_start_lmb ?s = Some (boot_lmb s)"
    using start_lmb [of ?s kvs] b by (simp add: board_ok_def zero_headers_def boot_lmb_def)
  have g: "image_get_kernel ?m ?a w = Some True" for w
    using h t by (simp add: image_get_kernel_def image_check_target_arch_def)
  have "bootm_start [cmd] s = Some (0, s\<lparr>images := kernel_images s p d v\<rparr>)"
    using l h len
    by (simp add: bootm_start_def v kernel_images_def boot_get_kernel_def genimg_get_image_def genimg_get_format_def g
        boot_get_ramdisk_def kernel_info_def image_get_data_def image_get_image_end_def image_get_image_size_def
        image_get_header_size_def zero_headers_def Let_def)
  then show ?thesis ..
qed

subsection \<open>Allocation for the kernel\<close>

lemma overlap_nat:
  assumes "unat b1 + unat s1 < 2 ^ 32" "unat b2 + unat s2 < 2 ^ 32"
  shows "lmb_addrs_overlap b1 s1 b2 s2 \<longleftrightarrow> unat b1 < unat b2 + unat s2 \<and> unat b2 < unat b1 + unat s1"
  using assms by (simp add: lmb_addrs_overlap_def word_less_nat_alt unat_add_le)

lemma adjacent_nat:
  assumes "unat b1 + unat s1 < 2 ^ 32" "unat b2 + unat s2 < 2 ^ 32"
  shows "lmb_addrs_adjacent b1 s1 b2 s2 =
    (if unat b2 = unat b1 + unat s1 then 1 else if unat b1 = unat b2 + unat s2 then -1 else 0)"
  using assms by (simp add: lmb_addrs_adjacent_def word_unat_eq_iff unat_add_le)

text \<open>The reserved blocks after the kernel was loaded below the boot map: the kernel and the stack. The command line
  and the board information are placed at the end of the boot map.\<close>

definition low_kernel :: "u32 \<Rightarrow> u32 \<Rightarrow> u32 \<Rightarrow> u32 \<Rightarrow> bool" where
  "low_kernel load len sp n \<longleftrightarrow> unat load + unat len \<le> 0x700000 \<and> 0 < unat len \<and>
     0x800000 < unat sp \<and> unat sp + unat n < 2 ^ 32 \<and> 0 < unat n"

definition table2 :: "u32 \<times> u32 \<Rightarrow> u32 \<times> u32 \<Rightarrow> lmb_region" where
  "table2 a b = \<lparr>cnt = 2, region = a # b # replicate 7 (0, 0)\<rparr>"

definition table3 :: "u32 \<times> u32 \<Rightarrow> u32 \<times> u32 \<Rightarrow> u32 \<times> u32 \<Rightarrow> lmb_region" where
  "table3 a b c = \<lparr>cnt = 3, region = a # b # c # replicate 6 (0, 0)\<rparr>"

lemma spare: "replicate 8 x = x # replicate 7 x" "replicate 7 x = x # replicate 6 x"
  by (simp_all add: numeral_eq_Suc)

lemma reserve_kernel:
  assumes "low_kernel load len sp n"
  shows "lmb_add_region (table1 (sp, n)) load len = Some (0, table2 (load, len) (sp, n))"
proof -
  have ne: "sp \<noteq> load" "load < sp" "n \<noteq> 0" using assms by (auto simp: low_kernel_def word_less_nat_alt)
  have a: "lmb_addrs_adjacent load len sp n = 0" using assms by (subst adjacent_nat) (auto simp: low_kernel_def)
  show ?thesis
    using ne a by (simp add: lmb_add_region_def table1_def table2_def spare(1) coalesce_loop.simps slot_def before_last_def)
qed

lemma reserve_cmdline:
  assumes "low_kernel load len sp n"
  shows "lmb_add_region (table2 (load, len) (sp, n)) 0x7FFF00 256 = Some (0, table3 (load, len) (0x7FFF00, 256) (sp, n))"
proof -
  have ne: "sp \<noteq> 0x7FFF00" "load \<noteq> 0x7FFF00" "0x7FFF00 < sp" "\<not> 0x7FFF00 < load" "len \<noteq> 0"
    using assms by (auto simp: low_kernel_def word_less_nat_alt)
  have a: "lmb_addrs_adjacent 0x7FFF00 256 load len = 0" "lmb_addrs_adjacent 0x7FFF00 256 sp n = 0"
    using assms by (subst adjacent_nat; auto simp: low_kernel_def)+
  show ?thesis
    using ne a by (simp add: lmb_add_region_def table2_def table3_def spare(2) coalesce_loop.simps slot_def before_last_def
        numeral_2_eq_2 numeral_3_eq_3)
qed

lemma reserve_kbd:
  assumes "low_kernel load len sp n"
  shows "lmb_add_region (table3 (load, len) (0x7FFF00, 256) (sp, n)) 0x7FFEC0 64 = Some (1, table3 (load, len) (0x7FFEC0, 320) (sp, n))"
proof -
  have ne: "load \<noteq> 0x7FFEC0" "len \<noteq> 0" using assms by (auto simp: low_kernel_def)
  have a: "lmb_addrs_adjacent 0x7FFEC0 64 load len = 0" "lmb_addrs_adjacent 0x7FFEC0 64 0x7FFF00 256 = 1"
    "lmb_addrs_adjacent 0x7FFEC0 320 sp n = 0"
    using assms by (subst adjacent_nat; auto simp: low_kernel_def)+
  show ?thesis
    using ne a by (simp add: lmb_add_region_def table3_def coalesce_loop.simps slot_def before_last_def
        lmb_regions_adjacent_def)
qed

lemma no_overlap:
  assumes "low_kernel load len sp n" "0x700000 \<le> unat b" "unat b + unat s \<le> 0x800000"
  shows "\<not> lmb_addrs_overlap b s load len" "\<not> lmb_addrs_overlap b s sp n"
  using assms by (subst overlap_nat; simp add: low_kernel_def)+

lemma align_cmdline: "lmb_align_down 0x7FFF00 0xf = 0x7FFF00" "lmb_align_up 256 0xf = 256"
  "lmb_align_down 0x7FFFC8 0xf = 0x7FFFC0" "lmb_align_down 0x7FFEC8 0xf = 0x7FFEC0" "lmb_align_up 56 0xf = 64"
  by (simp_all add: lmb_align_down_def lmb_align_up_def)

lemma alloc_cmdline:
  assumes "low_kernel load len sp n" "0x800000 \<le> unat ram"
  shows "lmb_alloc_base \<lparr>memory = table1 (0, ram), reserved = table2 (load, len) (sp, n)\<rparr> 256 0xf 0x800000 =
    Some (0x7FFF00, \<lparr>memory = table1 (0, ram), reserved = table3 (load, len) (0x7FFF00, 256) (sp, n)\<rparr>)"
proof -
  have "0x800000 \<le> ram" using assms(2) by (simp add: word_le_nat_alt)
  then have ram: "min ram 0x800000 = 0x800000" "\<not> ram < 256" using assms(2) by (simp_all add: min.absorb2 word_less_nat_alt)
  have "overlaps_from (table2 (load, len) (sp, n)) 0x7FFF00 256 0 = None"
    using no_overlap [OF assms(1), of "0x7FFF00" 256] by (simp add: overlaps_from.simps table2_def)
  then have "alloc_while (table2 (load, len) (sp, n)) 256 0xf 0 0x7FFF00 = Some 0x7FFF00"
    by (simp add: alloc_while.simps lmb_overlaps_region_def)
  then show ?thesis
    using ram reserve_cmdline [OF assms(1)] align_cmdline
    by (simp add: lmb_alloc_base_def table1_def slot_def Let_def)
qed

lemma alloc_kbd:
  assumes "low_kernel load len sp n" "0x800000 \<le> unat ram"
  shows "lmb_alloc_base \<lparr>memory = table1 (0, ram), reserved = table3 (load, len) (0x7FFF00, 256) (sp, n)\<rparr> 56 0xf 0x800000 =
    Some (0x7FFEC0, \<lparr>memory = table1 (0, ram), reserved = table3 (load, len) (0x7FFEC0, 320) (sp, n)\<rparr>)"
proof -
  let ?t = "table3 (load, len) (0x7FFF00, 256) (sp, n)"
  have "0x800000 \<le> ram" using assms(2) by (simp add: word_le_nat_alt)
  then have ram: "min ram 0x800000 = 0x800000" "\<not> ram < 56" using assms(2) by (simp_all add: min.absorb2 word_less_nat_alt)
  have o: "lmb_addrs_overlap 0x7FFFC0 56 0x7FFF00 256" "\<not> lmb_addrs_overlap 0x7FFEC0 56 0x7FFF00 256"
    by (simp_all add: lmb_addrs_overlap_def)
  have "overlaps_from ?t 0x7FFFC0 56 0 = Some 1" "overlaps_from ?t 0x7FFEC0 56 0 = None"
    using o no_overlap [OF assms(1), of "0x7FFFC0" 56] no_overlap [OF assms(1), of "0x7FFEC0" 56]
    by (simp_all add: overlaps_from.simps table3_def)
  then have "alloc_while ?t 56 0xf 0 0x7FFFC0 = Some 0x7FFEC0"
    using align_cmdline by (simp add: alloc_while.simps lmb_overlaps_region_def table3_def Let_def)
  then show ?thesis
    using ram reserve_kbd [OF assms(1)] align_cmdline
    by (simp add: lmb_alloc_base_def table1_def slot_def Let_def)
qed

subsection \<open>A kernel boots\<close>

lemma mem_read_other:
  assumes "unat a + n \<le> unat b \<and> unat b + length bs \<le> 2 ^ 32 \<or> unat b + length bs \<le> unat a \<and> unat a + n \<le> 2 ^ 32"
  shows "mem_read a n (mem_write b bs m) = mem_read a n m"
proof (rule nth_equalityI)
  fix i assume "i < length (mem_read a n (mem_write b bs m))"
  then have i: "i < n" by simp
  have "a + of_nat i \<noteq> b + of_nat j" if "j < length bs" for j
  proof -
    have "unat (a + of_nat i) = unat a + i" "unat (b + of_nat j) = unat b + j"
      using assms i that u32_less [of a] u32_less [of b] by (simp_all add: unat_word_ariths unat_of_nat) auto
    then show ?thesis using assms i that by auto
  qed
  then show "mem_read a n (mem_write b bs m) ! i = mem_read a n m ! i"
    using i mem_write_other [of bs "a + of_nat i" b m] by (simp add: nth_mem_read)
qed simp

lemma memmove_read:
  assumes "mem_read src (length d) m = d" "length d < 2 ^ 32"
  shows "mem_read dst (length d) (memmove_wd dst src (of_nat (length d)) m) = d"
  using assms by (simp add: memmove_wd_def unat_of_nat_u32 mem_read_write)

lemma length_bd_bytes [simp]: "length (bi_enetaddr b) = 6 \<Longrightarrow> length (bd_bytes e b) = 56"
  by (simp add: bd_bytes_def)

definition boot_args :: "(cstr \<times> cstr) list \<Rightarrow> cstr" where
  "boot_args kvs = (case map_of kvs (cs ''bootargs'') of None \<Rightarrow> [] | Some v \<Rightarrow> v)"

lemma linux_body:
  assumes b: "board_ok s kvs" "unset ''clocks_in_mhz'' kvs" and k: "low_kernel load len sp n" "0x800000 \<le> unat (gd_ram_size s)"
    and im: "im_lmb (images s) = \<lparr>memory = table1 (0, gd_ram_size s), reserved = table2 (load, len) (sp, n)\<rparr>"
      "ft_len (images s) = 0" "rd_start (images s) = 0" "rd_end (images s) = 0"
  shows "\<exists>l. boot_body_linux s = Some (0, s\<lparr>bm_mem := mem_write 0x7FFEC0 (bd_bytes (bm_env s) (gd_bd s)) (mem_write 0x7FFF00 (boot_args kvs @ [0]) (bm_mem s)),
    images := (images s)\<lparr>im_lmb := l, cmdline_start := 0x7FFF00, cmdline_end := 0x7FFF00 + of_nat (length (boot_args kvs)),
      im_kbd := 0x7FFEC0, initrd_start := 0, initrd_end := 0\<rparr>\<rparr>)"
proof -
  have e: "env_ok (bm_env s) kvs" using b(1) by (simp add: board_ok_def)
  note g = getenv_map [OF e] and low = board_env(1) [OF b(1)]
  let ?l1 = "\<lparr>memory = table1 (0, gd_ram_size s), reserved = table3 (load, len) (0x7FFF00, 256) (sp, n)\<rparr>"
  let ?s1 = "s\<lparr>bm_mem := mem_write 0x7FFF00 (boot_args kvs @ [0]) (bm_mem s),
    images := (images s)\<lparr>im_lmb := ?l1, cmdline_start := 0x7FFF00, cmdline_end := 0x7FFF00 + of_nat (length (boot_args kvs))\<rparr>\<rparr>"
  have c: "boot_cmdline_linux s = Some (0, ?s1)"
    using alloc_cmdline [OF k] im g low
    by (simp add: boot_cmdline_linux_def boot_get_cmdline_def boot_args_def Let_def split: option.split)
  let ?l2 = "\<lparr>memory = table1 (0, gd_ram_size s), reserved = table3 (load, len) (0x7FFEC0, 320) (sp, n)\<rparr>"
  let ?s2 = "?s1\<lparr>bm_mem := mem_write 0x7FFEC0 (bd_bytes (bm_env s) (gd_bd s)) (bm_mem ?s1),
    images := (images ?s1)\<lparr>im_lmb := ?l2, im_kbd := 0x7FFEC0\<rparr>\<rparr>"
  have d: "boot_bd_t_linux ?s1 = Some (0, ?s2)"
    using alloc_kbd [OF k] im g low b(2)
    by (simp add: boot_bd_t_linux_def boot_get_kbd_def set_clocks_in_mhz_def unset_def Let_def)
  have r: "boot_ramdisk_high ?l2 0 0 ?s2 = Some (0, 0, 0, ?l2, bm_mem ?s2)"
    using g by (simp add: boot_ramdisk_high_def)
  show ?thesis
    unfolding boot_body_linux_def c bind.bind_lunit prod.case
    using d r im by (intro exI [of _ ?l2]) (simp add: Let_def)
qed

text \<open>The state in which the start routine of the operating system is called.\<close>

definition loaded :: "boot \<Rightarrow> mkimage_params \<Rightarrow> byte list \<Rightarrow> bool \<Rightarrow> boot" where
  "loaded s p d v =
     s\<lparr>interrupts := False,
       bm_mem := memmove_wd (p_addr p) (load_addr (bm_env s) + 64) (of_nat (length d)) (bm_mem s),
       images := (kernel_images s p d v)\<lparr>im_lmb := \<lparr>memory = table1 (0, gd_ram_size s),
         reserved = table2 (p_addr p, of_nat (length d)) (stack_pointer s - 4096, gd_ram_size s - (stack_pointer s - 4096))\<rparr>\<rparr>\<rparr>"

lemma board_stack:
  assumes "board_ok s kvs"
  shows "unat (stack_pointer s - 4096) = unat (stack_pointer s) - 4096"
    and "unat (gd_ram_size s - (stack_pointer s - 4096)) = unat (gd_ram_size s) - (unat (stack_pointer s) - 4096)"
proof -
  show 1: "unat (stack_pointer s - 4096) = unat (stack_pointer s) - 4096"
    using assms unat_sub_le [of 4096 "stack_pointer s"] by (simp add: board_ok_def word_le_nat_alt)
  show "unat (gd_ram_size s - (stack_pointer s - 4096)) = unat (gd_ram_size s) - (unat (stack_pointer s) - 4096)"
    using assms unat_sub_le [of "stack_pointer s - 4096" "gd_ram_size s"] 1 by (auto simp: board_ok_def word_le_nat_alt)
qed

lemma board_low_kernel:
  assumes "board_ok s kvs" "unat (p_addr p) + length d \<le> 0x700000" "d \<noteq> []"
  shows "low_kernel (p_addr p) (of_nat (length d)) (stack_pointer s - 4096) (gd_ram_size s - (stack_pointer s - 4096))"
proof -
  have "unat (of_nat (length d) :: u32) = length d" using assms(2) by (simp add: unat_of_nat_u32)
  then show ?thesis
    using assms board_stack [OF assms(1)] by (auto simp: low_kernel_def board_ok_def)
qed

lemma do_bootm_kernel:
  assumes b: "board_ok s kvs" and k: "kernel_at (bm_mem s) (load_addr (bm_env s)) p d" and c: "p_comp p = IH_COMP_NONE"
    and l: "unat (p_addr p) + length d \<le> 0x700000" "p_addr p \<noteq> load_addr (bm_env s)"
  shows "\<exists>v. do_bootm z [cmd] s =
    Option.bind (boot_os (p_os p)) (\<lambda>boot_fn. case boot_fn of
        None \<Rightarrow> Some (Return 1, (loaded s p d v)\<lparr>interrupts := interrupts s\<rparr>)
      | Some f \<Rightarrow> do { (r, s) \<leftarrow> f 0 (loaded s p d v); Some (case r of Return _ \<Rightarrow> Reset | _ \<Rightarrow> r, s) })"
proof -
  obtain v where v: "bootm_start [cmd] s = Some (0, s\<lparr>images := kernel_images s p d v\<rparr>)"
    using kernel_start [OF b k] by blast
  have d: "d \<noteq> []" using k by (simp add: kernel_at_def)
  have r: "lmb_reserve (boot_lmb s) (p_addr p) (of_nat (length d)) = Some (0, \<lparr>memory = table1 (0, gd_ram_size s),
     reserved = table2 (p_addr p, of_nat (length d)) (stack_pointer s - 4096, gd_ram_size s - (stack_pointer s - 4096))\<rparr>)"
    using reserve_kernel [OF board_low_kernel [OF b l(1) d]] by (simp add: lmb_reserve_def boot_lmb_def)
  have "do_bootm z [cmd] s =
    Option.bind (boot_os (p_os p)) (\<lambda>boot_fn. case boot_fn of
        None \<Rightarrow> Some (Return 1, (loaded s p d v)\<lparr>interrupts := interrupts s\<rparr>)
      | Some f \<Rightarrow> do { (r, s) \<leftarrow> f 0 (loaded s p d v); Some (case r of Return _ \<Rightarrow> Reset | _ \<Rightarrow> r, s) })"
    using r c l(2)
    by (simp add: do_bootm_def v bootm_load_os_def kernel_images_def kernel_info_def loaded_def Let_def
        cong: option.case_cong)
  then show ?thesis ..
qed

lemma kernel_handover:
  assumes "board_ok s kvs" and "unset ''clocks_in_mhz'' kvs" and "length (boot_args kvs) < 256"
    and "kernel_at (bm_mem s) (load_addr (bm_env s)) p d" and "p_comp p = IH_COMP_NONE" and "p_os p = IH_OS_LINUX"
    and "unat (p_addr p) + length d \<le> 0x700000" and "p_addr p \<noteq> load_addr (bm_env s)"
  shows "\<exists>s'. do_bootm z [cmd] s =
      Some (Kernel (entry_point p) [0x7FFEC0, 0, 0, 0x7FFF00, 0x7FFF00 + of_nat (length (boot_args kvs)), 0, 0], s') \<and>
    mem_read (p_addr p) (length d) (bm_mem s') = d \<and>
    mem_read 0x7FFF00 (length (boot_args kvs) + 1) (bm_mem s') = boot_args kvs @ [0] \<and>
    mem_read 0x7FFEC0 56 (bm_mem s') = bd_bytes (bm_env s) (gd_bd s) \<and> bm_env s' = bm_env s \<and> \<not> interrupts s'"
proof -
  obtain v where v: "do_bootm z [cmd] s = Option.bind (boot_os (p_os p)) (\<lambda>boot_fn. case boot_fn of
        None \<Rightarrow> Some (Return 1, (loaded s p d v)\<lparr>interrupts := interrupts s\<rparr>)
      | Some f \<Rightarrow> do { (r, s) \<leftarrow> f 0 (loaded s p d v); Some (case r of Return _ \<Rightarrow> Reset | _ \<Rightarrow> r, s) })"
    using do_bootm_kernel [OF assms(1,4,5,7,8)] by blast
  let ?t = "loaded s p d v" and ?x = "mem_write 0x7FFF00 (boot_args kvs @ [0])" and ?y = "mem_write 0x7FFEC0 (bd_bytes (bm_env s) (gd_bd s))"
  have d: "d \<noteq> []" "mem_read (load_addr (bm_env s) + 64) (length d) (bm_mem s) = d"
    using assms(4) kernel_header(12) [OF assms(4)] by (simp_all add: kernel_at_def image_get_data_def image_get_header_size_def)
  have bo: "board_ok ?t kvs" using assms(1) by (simp add: board_ok_def loaded_def)
  have len: "length (bd_bytes (bm_env s) (gd_bd s)) = 56" using assms(1) by (simp add: board_ok_def)
  obtain l where l: "boot_body_linux ?t = Some (0, ?t\<lparr>bm_mem := ?y (?x (bm_mem ?t)),
    images := (images ?t)\<lparr>im_lmb := l, cmdline_start := 0x7FFF00, cmdline_end := 0x7FFF00 + of_nat (length (boot_args kvs)),
      im_kbd := 0x7FFEC0, initrd_start := 0, initrd_end := 0\<rparr>\<rparr>)"
    using linux_body [OF bo assms(2) board_low_kernel [OF assms(1,7) d(1)]] assms(1)
    by (auto simp: loaded_def kernel_images_def zero_headers_def Let_def board_ok_def)
  have "mem_read (p_addr p) (length d) (?y (?x (bm_mem ?t))) = d"
    using assms(3,7) len memmove_read [OF d(2)] by (simp add: mem_read_other loaded_def)
  moreover have "mem_read 0x7FFF00 (length (boot_args kvs) + 1) (?y (?x (bm_mem ?t))) = boot_args kvs @ [0]"
    using assms(3) len mem_read_write [of "boot_args kvs @ [0]" "0x7FFF00" "bm_mem ?t"] by (simp add: mem_read_other)
  moreover have "mem_read 0x7FFEC0 56 (?y (?x (bm_mem ?t))) = bd_bytes (bm_env s) (gd_bd s)"
    using len mem_read_write [of "bd_bytes (bm_env s) (gd_bd s)" "0x7FFEC0"] by simp
  ultimately show ?thesis
    using v l assms(6)
    by (simp add: boot_os_def do_bootm_linux_def boot_jump_linux_def) (simp add: loaded_def kernel_images_def Let_def)
qed

text \<open>C3: an uncompressed Linux kernel image of the tool boots. If the image, built for PowerPC without \<^verbatim>\<open>-x\<close>, lies at the load
  address of a board whose environment does not move the boot memory or set \<^verbatim>\<open>clocks_in_mhz\<close>, the kernel belongs below 7 MB and not
  where the image lies, and \<^verbatim>\<open>bootargs\<close> is shorter than 256 characters, then \<^verbatim>\<open>bootm\<close> accepts it, copies the kernel to its load
  address, puts the value of \<^verbatim>\<open>bootargs\<close> and the board information at the end of the boot map, and jumps to the entry point with
  the addresses of both, interrupts off.\<close>

theorem bootm_boots_kernel:
  assumes "board_ok s kvs" and "unset ''clocks_in_mhz'' kvs" and "length (boot_args kvs) < 256"
    and "kernel_at (bm_mem s) (load_addr (bm_env s)) p d" and "p_comp p = IH_COMP_NONE" and "p_os p = IH_OS_LINUX"
    and "unat (p_addr p) + length d \<le> 0x700000" and "p_addr p \<noteq> load_addr (bm_env s)"
  shows "\<exists>s'. do_bootm z [cs ''bootm''] s =
      Some (Kernel (entry_point p) [0x7FFEC0, 0, 0, 0x7FFF00, 0x7FFF00 + of_nat (length (boot_args kvs)), 0, 0], s') \<and>
    mem_read (p_addr p) (length d) (bm_mem s') = d \<and>
    mem_read 0x7FFF00 (length (boot_args kvs) + 1) (bm_mem s') = boot_args kvs @ [0] \<and>
    mem_read 0x7FFEC0 56 (bm_mem s') = bd_bytes (bm_env s) (gd_bd s) \<and> \<not> interrupts s'"
  using kernel_handover [OF assms] by blast

definition no_zlib :: zlib where
  "no_zlib = \<lparr>inflateInit2 = -2, inflate = \<lambda>m src len dst dlen. (-2, dst, m)\<rparr>"

definition sample_board :: "mem \<Rightarrow> boot" where
  "sample_board m =
     \<lparr>bm_env = sample_state sample_vars, bm_mem = m, images = zero_headers,
      gd_bd = \<lparr>bi_memstart = 0, bi_memsize = 0x4000000, bi_flashstart = 0xff800000, bi_flashsize = 0x800000, bi_flashoffset = 0,
        bi_sramstart = 0, bi_sramsize = 0, bi_bootflags = 0, bi_enetaddr = [0, 0, 0x5b, 0, 0, 1],
        bi_ethspeed = 0, bi_intfreq = 400000000, bi_busfreq = 100000000\<rparr>,
      gd_ram_size = 0x4000000, stack_pointer = 0x3F00000, interrupts = True\<rparr>"

lemma sample_board_ok: "board_ok (sample_board m) sample_vars" "load_addr (bm_env (sample_board m)) = 0x1000000"
  "bm_mem (sample_board m) = m" "getenv_yesno (bm_env (sample_board m)) ''verify'' = Some True"
proof -
  note e = sample_state_ok(1) [OF sample_vars_ok]
  show "board_ok (sample_board m) sample_vars" using e by (simp add: board_ok_def sample_board_def unset_def cs_def)
  show "getenv_yesno (bm_env (sample_board m)) ''verify'' = Some True"
    using getenv_map [OF e, of "cs ''verify''"] by (simp add: getenv_yesno_def sample_board_def) (simp add: cs_def)
qed (simp_all add: sample_board_def sample_state_def Let_def)

abbreviation (input) sample_image :: "byte list \<Rightarrow> mkimage_params \<Rightarrow> byte list" where
  "sample_image d p \<equiv> image_set_header (replicate 64 0 @ d) 7 p"

lemma sample_kernel_at:
  assumes "d \<noteq> []" "length d < 1000" "p = sample_params\<lparr>p_os := os\<rparr>"
  shows "kernel_at (mem_write a (sample_image d p) m) a p d"
proof -
  have "mkimage p 7 [d] = Some (sample_image d p)"
    using assms(1,3) by (simp add: mkimage_def sample_params_def image_check_image_types_def copy_file_def)
  moreover have "mem_read a (length (sample_image d p)) (mem_write a (sample_image d p) m) = sample_image d p"
    using assms(2) by (intro mem_read_write) simp
  ultimately show ?thesis
    unfolding kernel_at_def using assms by (intro conjI exI [of _ 7] exI [of _ "sample_image d p"]) (simp_all add: sample_params_def)
qed

theorem bootm_boots_kernel_witness:
  "\<exists>s'. do_bootm no_zlib [cs ''bootm'']
      (sample_board (mem_write 0x1000000 (sample_image [1, 2, 3] (sample_params\<lparr>p_os := IH_OS_LINUX\<rparr>)) (\<lambda>_. 0))) =
      Some (Kernel 4 [0x7FFEC0, 0, 0, 0x7FFF00, 0x7FFF00, 0, 0], s') \<and> mem_read 0 3 (bm_mem s') = [1, 2, 3]"
proof -
  let ?p = "sample_params\<lparr>p_os := IH_OS_LINUX\<rparr>"
  let ?s = "sample_board (mem_write 0x1000000 (sample_image [1, 2, 3] ?p) (\<lambda>_. 0))"
  have p: "p_addr ?p = 0" "p_comp ?p = 0" "p_os ?p = 5" "entry_point ?p = 4" by (simp_all add: sample_params_def entry_point_def)
  have k: "kernel_at (bm_mem ?s) (load_addr (bm_env ?s)) ?p [1, 2, 3]"
    unfolding sample_board_ok by (rule sample_kernel_at) simp_all
  have a: "boot_args sample_vars = []" "unset ''clocks_in_mhz'' sample_vars" by (simp_all add: boot_args_def unset_def cs_def)
  show ?thesis
    using bootm_boots_kernel [OF sample_board_ok(1) a(2) _ k p(2,3), of no_zlib] p sample_board_ok(2) a(1)
    by (auto simp: numeral_3_eq_3)
qed

subsection \<open>A damaged image does not boot\<close>

lemma hdr_bytes_at: "hdr_bytes (hdr_at m a) = mem_read a 64 m"
proof -
  have w: "be32_bytes (word32 m b) = mem_read b 4 m" for b
    by (simp add: word32_def be32_bytes_val mem_read_def upt_rec)
  have "mem_read a 64 m = mem_read a 4 m @ mem_read (a + 4) 4 m @ mem_read (a + 8) 4 m @ mem_read (a + 12) 4 m @
      mem_read (a + 16) 4 m @ mem_read (a + 20) 4 m @ mem_read (a + 24) 4 m @ mem_read (a + 28) 4 m @ mem_read (a + 32) 32 m"
    using mem_read_append [of a 4 60 m] mem_read_append [of "a + 4" 4 56 m] mem_read_append [of "a + 8" 4 52 m]
      mem_read_append [of "a + 12" 4 48 m] mem_read_append [of "a + 16" 4 44 m] mem_read_append [of "a + 20" 4 40 m]
      mem_read_append [of "a + 24" 4 36 m] mem_read_append [of "a + 28" 4 32 m] by (simp add: add.assoc)
  also have "mem_read (a + 28) 4 m = [m (a + 28), m (a + 29), m (a + 30), m (a + 31)]"
    by (simp add: mem_read_def upt_rec add.assoc)
  finally show ?thesis by (simp add: hdr_bytes_def hdr_at_def w)
qed

lemma hdr_bytes_hcrc:
  "hdr_bytes (h\<lparr>ih_hcrc := 0\<rparr>) = take 4 (hdr_bytes h) @ replicate 4 0 @ drop 8 (hdr_bytes h)"
  "be32_bytes (ih_hcrc h) = take 4 (drop 4 (hdr_bytes h))"
  by (simp_all add: hdr_bytes_def be32_bytes_def numeral_eq_Suc)

lemma be32_bytes_inj:
  assumes "be32_bytes v = be32_bytes w"
  shows "v = w"
proof -
  have "be32_val (be32_bytes x ! 0) (be32_bytes x ! 1) (be32_bytes x ! 2) (be32_bytes x ! 3) = x" for x
    by (simp add: be32_bytes_def be32_val_bytes)
  then show ?thesis using assms by metis
qed

text \<open>A change of one byte of the header is seen in its checksum.\<close>

lemma header_damaged:
  assumes "image_check_hcrc h" "length (ih_name h) = 32" "hdr_bytes h' = (hdr_bytes h)[i := x]" "i < 64" "x \<noteq> hdr_bytes h ! i"
  shows "\<not> image_check_hcrc h'"
proof -
  let ?b = "hdr_bytes h"
  have l: "length ?b = 64" using assms(2) by simp
  let ?z = "\<lambda>b. take 4 b @ replicate 4 0 @ drop 8 b"
  show ?thesis
  proof (cases "4 \<le> i \<and> i < 8")
    case True
    then have "?z (?b[i := x]) = ?z ?b" by simp
    moreover have "ih_hcrc h' \<noteq> ih_hcrc h"
    proof
      assume "ih_hcrc h' = ih_hcrc h"
      then have "take 4 (drop 4 (?b[i := x])) = take 4 (drop 4 ?b)" using hdr_bytes_hcrc(2) [of h] hdr_bytes_hcrc(2) [of h'] assms(3) by simp
      then have "take 4 (drop 4 (?b[i := x])) ! (i - 4) = take 4 (drop 4 ?b) ! (i - 4)" by simp
      moreover have "i - 4 < 4" "4 + (i - 4) = i" using True by auto
      ultimately show False using l assms(4,5) by simp
    qed
    ultimately show ?thesis using assms(1,3) by (simp add: image_check_hcrc_def hdr_bytes_hcrc(1))
  next
    case False
    have "?z (?b[i := x]) = (?z ?b)[i := x]"
      by (rule nth_equalityI) (use False l assms(4) in \<open>auto simp: nth_append nth_list_update min_def\<close>)
    moreover have "x \<noteq> ?z ?b ! i" using False l assms(4,5) by (auto simp: nth_append min_def)
    ultimately have "crc32 0 0 (?z (?b[i := x])) \<noteq> crc32 0 0 (?z ?b)"
      using crc32_detects_byte [of i "?z ?b" x 0 0 0] l assms(4) by simp
    moreover have "ih_hcrc h' = ih_hcrc h"
    proof -
      have "take 4 (drop 4 (?b[i := x])) = take 4 (drop 4 ?b)"
        by (rule nth_equalityI) (use False l assms(4) in \<open>auto simp: nth_list_update\<close>)
      then have "be32_bytes (ih_hcrc h') = be32_bytes (ih_hcrc h)" using hdr_bytes_hcrc(2) [of h] hdr_bytes_hcrc(2) [of h'] assms(3) by simp
      then show ?thesis by (rule be32_bytes_inj)
    qed
    ultimately show ?thesis using assms(1,3) by (simp add: image_check_hcrc_def hdr_bytes_hcrc(1))
  qed
qed

lemma damaged_image:
  assumes f: "f = hdr_bytes h @ body" "length (ih_name h) = 32" "length f < 2 ^ 32" "image_check_hcrc h" "ih_dcrc h = crc32 64 0 body"
      "ih_size h = of_nat (length body)" and m: "mem_read a (length f) m = f[i := x]" and i: "i < length f" "x \<noteq> f ! i"
  shows "\<not> image_check_hcrc (hdr_at m a) \<or> hdr_at m a = h \<and> \<not> image_check_dcrc m a"
proof (cases "i < 64")
  case True
  have lh: "length (hdr_bytes h) = 64" using f(2) by simp
  have "mem_read a 64 m = take 64 (mem_read a (length f) m)"
    using mem_read_append [of a 64 "length body" m] f(1) lh by simp
  then have "hdr_bytes (hdr_at m a) = (hdr_bytes h)[i := x]"
    using m f(1) lh True by (simp add: hdr_bytes_at list_update_append)
  from header_damaged [OF f(4,2) this True] show ?thesis using i f(1) lh True by (simp add: nth_append)
next
  case False
  have lh: "length (hdr_bytes h) = 64" using f(2) by simp
  define b where "b = body[i - 64 := x]"
  have g: "f[i := x] = hdr_bytes h @ b" using f(1) lh False by (simp add: b_def list_update_append)
  have rd: "mem_read a (length (f[i := x])) m = f[i := x]" using m by simp
  have hdr: "hdr_at m a = h" by (rule hdr_at_bytes [OF rd g f(2)])
  have "mem_read (a + of_nat (length (hdr_bytes h))) (length b) m = b"
    by (rule mem_read_block [OF rd]) (use g in simp)
  then have data: "mem_read (image_get_data a) (length body) m = b"
    using lh by (simp add: image_get_data_def image_get_header_size_def b_def)
  have "crc32 (image_get_data a) 0 b \<noteq> crc32 64 0 body"
    unfolding b_def using crc32_detects_byte [of "i - 64" body x "image_get_data a" 0 64] i f(1) lh False
    by (auto simp: nth_append)
  moreover have "unat (ih_size h) = length body" using f(1,3,6) by (simp add: unat_of_nat_u32)
  ultimately have "\<not> image_check_dcrc m a"
    using data f(5) by (simp add: image_check_dcrc_def Let_def hdr crc32_wd_def)
  with hdr show ?thesis by simp
qed

lemma kernel_refused:
  assumes b: "board_ok s kvs"
    and k: "\<And>v. getenv_yesno (bm_env s) ''verify'' = Some v \<Longrightarrow>
      image_check_magic (bm_mem s) (load_addr (bm_env s)) \<Longrightarrow> image_get_kernel (bm_mem s) (load_addr (bm_env s)) v = Some False"
  shows "\<exists>im. bootm_start [cs ''bootm''] s = Some (1, s\<lparr>images := im\<rparr>)"
proof -
  let ?a = "load_addr (bm_env s)"
  obtain v where v: "getenv_yesno (bm_env s) ''verify'' = Some v"
    using b getenv_map [of "bm_env s" kvs "cs ''verify''"] by (simp add: getenv_yesno_def board_ok_def)
  let ?s = "s\<lparr>images := zero_headers\<lparr>im_verify := v\<rparr>\<rparr>"
  have l: "bootm_start_lmb ?s = Some (boot_lmb s)"
    using start_lmb [of ?s kvs] b by (simp add: board_ok_def zero_headers_def boot_lmb_def)
  show ?thesis
    using l k [OF v]
    by (cases "image_check_magic (bm_mem s) ?a")
      (auto simp: bootm_start_def v boot_get_kernel_def genimg_get_image_def genimg_get_format_def zero_headers_def Let_def)
qed

text \<open>C4: a kernel image of the tool in which any one byte was changed does not boot: unless the variable \<^verbatim>\<open>verify\<close> turns the
  check off, \<^verbatim>\<open>bootm\<close> returns 1 and leaves memory and environment as they were.\<close>

theorem bootm_rejects_damaged:
  assumes "board_ok s kvs" and "getenv_yesno (bm_env s) ''verify'' = Some True" and "mkimage p t [d] = Some f"
    and "length f < 2 ^ 32" and "p_type p = IH_TYPE_KERNEL" and "i < length f" and "x \<noteq> f ! i"
    and "mem_read (load_addr (bm_env s)) (length f) (bm_mem s) = f[i := x]"
  shows "\<exists>s'. do_bootm z [cs ''bootm''] s = Some (Return 1, s') \<and> bm_mem s' = bm_mem s \<and> bm_env s' = bm_env s \<and>
    interrupts s' = interrupts s"
proof -
  let ?m = "bm_mem s" and ?a = "load_addr (bm_env s)"
  obtain h body where h: "f = hdr_bytes h @ body" "length (ih_name h) = 32" "image_check_hcrc h"
    "ih_dcrc h = crc32 64 0 body" "ih_size h = of_nat (length body)" "ih_type h = p_type p"
    by (rule mkimage_layout [OF assms(3)])
  note dam = damaged_image [OF h(1,2) assms(4) h(3-5) assms(8,6,7)]
  have "image_get_kernel ?m ?a True = Some False" if mg: "image_check_magic ?m ?a"
  proof (cases "image_check_hcrc (hdr_at ?m ?a)")
    case True
    with dam have "hdr_at ?m ?a = h" "\<not> image_check_dcrc ?m ?a" by simp_all
    moreover obtain t where "image_print_contents ?m ?a = Some t"
      using image_print_contents_returns [of ?m ?a] \<open>hdr_at ?m ?a = h\<close> h(6) assms(5) by auto
    ultimately show ?thesis using mg True by (simp add: image_get_kernel_def)
  qed (simp add: image_get_kernel_def mg)
  then obtain im where "bootm_start [cs ''bootm''] s = Some (1, s\<lparr>images := im\<rparr>)"
    using kernel_refused [OF assms(1)] assms(2) by auto
  then show ?thesis by (simp add: do_bootm_def)
qed

theorem bootm_rejects_damaged_witness:
  "\<exists>s'. do_bootm no_zlib [cs ''bootm'']
      (sample_board (mem_write 0x1000000 ((sample_image [1, 2, 3] sample_params)[65 := 7]) (\<lambda>_. 0))) = Some (Return 1, s')"
proof -
  let ?f = "sample_image [1, 2, 3] sample_params"
  let ?s = "sample_board (mem_write 0x1000000 (?f[65 := 7]) (\<lambda>_. 0))"
  have n: "?f ! 65 = 2"
    unfolding image_set_header_layout by (simp add: nth_append plain_header_def)
  have m: "mem_read (load_addr (bm_env ?s)) (length ?f) (bm_mem ?s) = ?f[65 := 7]"
    using mem_read_write [of "?f[65 := 7]" "0x1000000" "\<lambda>_. 0"] by (simp add: sample_board_ok)
  have "p_type sample_params = IH_TYPE_KERNEL" by (simp add: sample_params_def)
  moreover have "mkimage sample_params 7 [[1, 2, 3]] = Some ?f" by (rule mkimage_kernel) simp
  ultimately show ?thesis using bootm_rejects_damaged [OF sample_board_ok(1,4), of sample_params 7 "[1, 2, 3]" ?f 65 7, OF _ _ _ _ _ m, of no_zlib] n
    by auto
qed

text \<open>The table of start routines ends at the code of RTEMS, and its index is not checked: a good kernel image for an
  operating system with a larger code, such as INTEGRITY, which the tool offers, makes \<^verbatim>\<open>bootm\<close> call through a pointer
  read behind the table.\<close>

theorem bootm_os_table_overrun:
  assumes "board_ok s kvs" and "kernel_at (bm_mem s) (load_addr (bm_env s)) p d" and "p_comp p = IH_COMP_NONE"
    and "unat (p_addr p) + length d \<le> 0x700000" and "p_addr p \<noteq> load_addr (bm_env s)" and "18 < unat (p_os p)"
  shows "do_bootm z [cs ''bootm''] s = None"
  using do_bootm_kernel [OF assms(1-5), of z] assms(6) by (auto simp: boot_os_def)

theorem bootm_os_table_overrun_witness:
  "do_bootm no_zlib [cs ''bootm'']
     (sample_board (mem_write 0x1000000 (sample_image [1, 2, 3] (sample_params\<lparr>p_os := 21\<rparr>)) (\<lambda>_. 0))) = None"
proof -
  let ?p = "sample_params\<lparr>p_os := 21\<rparr>"
  let ?s = "sample_board (mem_write 0x1000000 (sample_image [1, 2, 3] ?p) (\<lambda>_. 0))"
  have k: "kernel_at (bm_mem ?s) (load_addr (bm_env ?s)) ?p [1, 2, 3]"
    unfolding sample_board_ok by (rule sample_kernel_at) simp_all
  show ?thesis
    by (rule bootm_os_table_overrun [OF sample_board_ok(1) k]) (simp_all add: sample_board_ok sample_params_def)
qed

subsection \<open>Subcommands\<close>

lemma cmdline_state: "boot_cmdline_linux s = Some (r, s') \<Longrightarrow> im_state (images s') = im_state (images s)"
  by (auto simp: boot_cmdline_linux_def boot_get_cmdline_def Let_def split: bind_splits if_splits)

lemma bd_t_state: "boot_bd_t_linux s = Some (r, s') \<Longrightarrow> im_state (images s') = im_state (images s)"
  by (auto simp: boot_bd_t_linux_def boot_get_kbd_def set_clocks_in_mhz_def Let_def split: bind_splits if_splits)

lemma body_state: "boot_body_linux s = Some (r, s') \<Longrightarrow> im_state (images s') = im_state (images s)"
  by (auto simp: boot_body_linux_def Let_def split: bind_splits if_splits dest!: cmdline_state bd_t_state)

lemma boot_os_state:
  assumes "boot_os i = Some f" "call_boot_fn f flag s = Some (r, s')"
  shows "im_state (images s') = im_state (images s)"
proof -
  from assms obtain g where g: "f = Some g" "g flag s = Some (r, s')" by (auto simp: call_boot_fn_def split: bind_splits)
  then have "g = do_bootm_linux \<or> g = other_os i" using assms(1) by (auto simp: boot_os_def split: if_splits)
  then show ?thesis
  proof
    assume "g = do_bootm_linux"
    then show ?thesis using g(2)
      by (auto simp: do_bootm_linux_def split: if_splits bind_splits dest: cmdline_state bd_t_state body_state)
  qed (use g(2) in \<open>auto simp: other_os_def\<close>)
qed

lemma sub_step:
  assumes c: "find_cmd cmd_bootm_sub (argv ! 1) = Some c" "sub_state c \<noteq> BOOTM_STATE_START"
    and r: "do_bootm_subcommand z argv s = Some (r, s')"
  shows "if im_state (images s) < sub_state c then im_state (images s') = (im_state (images s) OR sub_state c)
    else r = Return 1 \<and> s' = s"
proof (cases "im_state (images s) < sub_state c")
  case True
  let ?t = "s\<lparr>images := (images s)\<lparr>im_state := im_state (images s) OR sub_state c\<rparr>\<rparr>"
  obtain f where f: "boot_os (img_os (im_os (images s))) = Some f"
    using r c True by (auto simp: do_bootm_subcommand_def Let_def split: bind_splits)
  note call = boot_os_state [OF f]
  have "im_state (images s') = im_state (images ?t)"
    using r c True f
    by (auto simp: do_bootm_subcommand_def sub_ramdisk_def Let_def split: bind_splits if_splits dest!: call)
  then show ?thesis using True by simp
qed (use r c in \<open>simp add: do_bootm_subcommand_def Let_def\<close>)

text \<open>What a caller sees of a subcommand that was carried out: a return value other than 1, or a change of the state. \<open>sub_run\<close> is a
  sequence of subcommands with the codes of those.\<close>

definition carried_out :: "boot \<Rightarrow> boot_end \<Rightarrow> boot \<Rightarrow> bool" where
  "carried_out s r t \<longleftrightarrow> r \<noteq> Return 1 \<or> im_state (images t) \<noteq> im_state (images s)"

fun sub_run :: "zlib \<Rightarrow> cstr list list \<Rightarrow> boot \<Rightarrow> (nat list \<times> boot) option" where
  "sub_run z [] s = Some ([], s)"
| "sub_run z (argv # argvs) s =
     do { (r, t) \<leftarrow> do_bootm_subcommand z argv s;
          (codes, u) \<leftarrow> sub_run z argvs t;
          Some (if carried_out s r t then (case find_cmd cmd_bootm_sub (argv ! 1) of None \<Rightarrow> 0 | Some c \<Rightarrow> sub_state c) # codes else codes, u) }"

definition no_start :: "cstr list \<Rightarrow> bool" where
  "no_start argv \<longleftrightarrow> (case find_cmd cmd_bootm_sub (argv ! 1) of None \<Rightarrow> True | Some c \<Rightarrow> sub_state c \<noteq> BOOTM_STATE_START)"

lemma nat_or_ge: "(k :: nat) \<le> k OR n" "n \<le> k OR n"
proof -
  have a: "int k \<le> int k OR int n" "int n \<le> int n OR int k" by (simp_all add: or_greater_eq)
  show "k \<le> k OR n" "n \<le> k OR n" using a by (simp_all add: or.commute flip: of_nat_or_eq)
qed

text \<open>Either a subcommand comes later than everything done so far and is recorded in the state, or nothing changes.\<close>

lemma sub_cases:
  assumes "no_start argv" "do_bootm_subcommand z argv s = Some (r, t)"
  obtains c where "find_cmd cmd_bootm_sub (argv ! 1) = Some c" "carried_out s r t" "im_state (images s) < sub_state c"
      "im_state (images t) = (im_state (images s) OR sub_state c)"
  | "\<not> carried_out s r t" "t = s"
proof (cases "find_cmd cmd_bootm_sub (argv ! 1)")
  case None
  then show thesis using assms(2) by (intro that(2)) (auto simp: do_bootm_subcommand_def carried_out_def)
next
  case (Some c)
  have "sub_state c \<noteq> BOOTM_STATE_START" using assms(1) Some by (simp add: no_start_def)
  note st = sub_step [OF Some this assms(2)]
  show thesis
  proof (cases "im_state (images s) < sub_state c")
    case True
    then have "im_state (images t) = (im_state (images s) OR sub_state c)" using st by simp
    moreover from this have "im_state (images t) \<noteq> im_state (images s)"
      using nat_or_ge(2) [of "sub_state c" "im_state (images s)"] True by linarith
    ultimately show thesis using Some True by (intro that(1)) (simp_all add: carried_out_def)
  qed (use st in \<open>auto intro!: that(2) simp: carried_out_def\<close>)
qed

text \<open>C28: the subcommands of \<^verbatim>\<open>bootm\<close> form a state machine. In any sequence of subcommands without a new start, those that have
  an effect or a result other than the return value 1 have strictly increasing codes, above the state at the beginning, so each
  stage of the boot is carried out at most once and in the order of the table; the state at the end is the one at the beginning
  with their codes added, and if there are none nothing has changed at all.\<close>

theorem bootm_stages_in_order:
  assumes "sub_run z argvs s = Some (codes, t)" and "\<forall>argv \<in> set argvs. no_start argv"
  shows "sorted_wrt (<) codes \<and> (\<forall>c \<in> set codes. im_state (images s) < c) \<and>
    im_state (images t) = fold (\<lambda>c k. k OR c) codes (im_state (images s)) \<and> (codes = [] \<longrightarrow> t = s)"
  using assms
proof (induction argvs arbitrary: s codes)
  case (Cons argv argvs)
  then obtain r u ks where u: "do_bootm_subcommand z argv s = Some (r, u)" "sub_run z argvs u = Some (ks, t)"
    "codes = (if carried_out s r u then (case find_cmd cmd_bootm_sub (argv ! 1) of None \<Rightarrow> 0 | Some c \<Rightarrow> sub_state c) # ks else ks)"
    by (auto split: bind_splits)
  have ih: "sorted_wrt (<) ks" "\<forall>c \<in> set ks. im_state (images u) < c"
    "im_state (images t) = fold (\<lambda>c k. k OR c) ks (im_state (images u))" "ks = [] \<longrightarrow> t = u"
    using Cons.IH [OF u(2)] Cons.prems(2) by simp_all
  have "no_start argv" using Cons.prems(2) by simp
  then show ?case using u(1)
  proof (cases rule: sub_cases)
    case (1 c)
    have "im_state (images s) \<le> im_state (images u)" "sub_state c \<le> im_state (images u)"
      unfolding 1(4) by (rule nat_or_ge)+
    then show ?thesis using 1 u(3) ih by fastforce
  next
    case 2
    then show ?thesis using u(3) ih by simp
  qed
qed simp

theorem bootm_stages_in_order_witness:
  "\<exists>t. sub_run no_zlib [[cs ''bootm'', cs ''prep''], [cs ''bootm'', cs ''loados''], [cs ''bootm'', cs ''prep'']]
      ((sample_board (\<lambda>_. 0))\<lparr>images := zero_headers\<lparr>im_state := 1, im_os := (im_os zero_headers)\<lparr>img_os := IH_OS_LINUX\<rparr>\<rparr>\<rparr>) =
      Some ([64], t) \<and> im_state (images t) = 65"
proof -
  let ?s = "(sample_board (\<lambda>_. 0))\<lparr>images := zero_headers\<lparr>im_state := 1, im_os := (im_os zero_headers)\<lparr>img_os := IH_OS_LINUX\<rparr>\<rparr>\<rparr>"
  let ?as = "[[cs ''bootm'', cs ''prep''], [cs ''bootm'', cs ''loados''], [cs ''bootm'', cs ''prep'']]"
  have f: "map_option sub_state (find_cmd cmd_bootm_sub (cs ''prep'')) = Some 64"
    "map_option sub_state (find_cmd cmd_bootm_sub (cs ''loados'')) = Some 2" by code_simp+
  then obtain c d where c: "find_cmd cmd_bootm_sub (cs ''prep'') = Some c" "sub_state c = 64"
    "find_cmd cmd_bootm_sub (cs ''loados'') = Some d" "sub_state d = 2" by auto
  have or: "(1 :: nat) OR 64 = 65" by code_simp
  have "\<exists>t. sub_run no_zlib ?as ?s = Some ([64], t)"
    using c or by (simp add: do_bootm_subcommand_def carried_out_def boot_os_def call_boot_fn_def do_bootm_linux_def)
  then obtain t where t: "sub_run no_zlib ?as ?s = Some ([64], t)" ..
  have "\<forall>argv \<in> set ?as. no_start argv" using c by (simp add: no_start_def)
  from bootm_stages_in_order [OF t this] t or show ?thesis by (simp add: zero_headers_def)
qed

subsection \<open>What is started was checked\<close>

lemma boot_get_kernel_checked:
  assumes "boot_get_kernel argv s = Some (h, t)" "image_len (im_os (images t)) \<noteq> 0"
    and a: "a = (if length argv < 2 then load_addr (bm_env s) else fst (simple_strtoul (argv ! 1) 16))"
  shows "h = Some a" "image_check_magic (bm_mem s) a" "image_check_hcrc (hdr_at (bm_mem s) a)"
    "image_check_target_arch (hdr_at (bm_mem s) a)" "im_verify (images s) \<longrightarrow> image_check_dcrc (bm_mem s) a"
    "legacy_hdr_os_copy (images t) = hdr_at (bm_mem s) a" "bm_mem t = bm_mem s"
proof -
  note assms(1) [unfolded boot_get_kernel_def genimg_get_image_def Let_def, folded a]
  then have "h = Some a \<and> image_get_kernel (bm_mem s) a (im_verify (images s)) = Some True \<and>
      legacy_hdr_os_copy (images t) = hdr_at (bm_mem s) a \<and> bm_mem t = bm_mem s"
    using assms(2) by (auto split: bind_splits if_splits image_format.splits)
  then show "h = Some a" "image_check_magic (bm_mem s) a" "image_check_hcrc (hdr_at (bm_mem s) a)"
    "image_check_target_arch (hdr_at (bm_mem s) a)" "im_verify (images s) \<longrightarrow> image_check_dcrc (bm_mem s) a"
    "legacy_hdr_os_copy (images t) = hdr_at (bm_mem s) a" "bm_mem t = bm_mem s"
    by (auto simp: image_get_kernel_def split: bind_splits if_splits)
qed

lemma bootm_start_checked:
  assumes "bootm_start argv s = Some (0, t)"
    and a: "a = (if length argv < 2 then load_addr (bm_env s) else fst (simple_strtoul (argv ! 1) 16))"
  shows "image_check_magic (bm_mem s) a \<and> image_check_hcrc (hdr_at (bm_mem s) a) \<and> image_check_target_arch (hdr_at (bm_mem s) a) \<and>
    (getenv_yesno (bm_env s) ''verify'' = Some True \<longrightarrow> image_check_dcrc (bm_mem s) a) \<and> im_ep (images t) = ih_ep (hdr_at (bm_mem s) a)"
proof -
  obtain v l where v: "getenv_yesno (bm_env s) ''verify'' = Some v"
    "bootm_start_lmb (s\<lparr>images := zero_headers\<lparr>im_verify := v\<rparr>\<rparr>) = Some l"
    using assms(1) by (auto simp: bootm_start_def split: bind_splits)
  let ?s = "s\<lparr>images := zero_headers\<lparr>im_verify := v, im_lmb := l\<rparr>\<rparr>"
  obtain h u where u: "boot_get_kernel argv ?s = Some (h, u)" "image_len (im_os (images u)) \<noteq> 0"
    "im_ep (images t) = ih_ep (legacy_hdr_os_copy (images u))"
    using assms(1) v by (auto simp: bootm_start_def Let_def split: bind_splits if_splits image_format.splits)
  have "a = (if length argv < 2 then load_addr (bm_env ?s) else fst (simple_strtoul (argv ! 1) 16))" using a by simp
  from boot_get_kernel_checked [OF u(1,2) this] u(3) v(1) show ?thesis by simp
qed

lemma cmdline_ep: "boot_cmdline_linux s = Some (r, s') \<Longrightarrow> im_ep (images s') = im_ep (images s)"
  by (auto simp: boot_cmdline_linux_def boot_get_cmdline_def Let_def split: bind_splits if_splits)

lemma bd_t_ep: "boot_bd_t_linux s = Some (r, s') \<Longrightarrow> im_ep (images s') = im_ep (images s)"
  by (auto simp: boot_bd_t_linux_def boot_get_kbd_def set_clocks_in_mhz_def Let_def split: bind_splits if_splits)

lemma body_ep: "boot_body_linux s = Some (r, s') \<Longrightarrow> im_ep (images s') = im_ep (images s)"
  by (auto simp: boot_body_linux_def Let_def split: bind_splits if_splits dest!: cmdline_ep bd_t_ep)

lemma linux_ep: "do_bootm_linux 0 s = Some (Kernel ep args, s') \<Longrightarrow> ep = im_ep (images s)"
  by (auto simp: do_bootm_linux_def boot_jump_linux_def Let_def split: bind_splits if_splits dest!: body_ep)

lemma do_bootm_started:
  assumes "do_bootm z argv s = Some (r, s')" "\<forall>n. r \<noteq> Return n" "r \<noteq> Reset"
    and "length argv < 2 \<or> peek (snd (simple_strtoul (argv ! 1) 16)) = 0"
  obtains t where "bootm_start argv s = Some (0, t)" "\<And>ep args. r = Kernel ep args \<Longrightarrow> ep = im_ep (images t)"
proof -
  have n: "\<not> (length argv > 1 \<and> peek (snd (simple_strtoul (argv ! 1) 16)) \<notin> {0, ch CHR '':'', ch CHR ''#''})" using assms(4) by auto
  note d = assms(1) [unfolded do_bootm_def if_not_P [OF n]]
  then obtain q t where t: "bootm_start argv s = Some (q, t)" by (auto split: bind_splits)
  with d assms(2) have q: "q = 0" by (auto split: if_splits)
  have "ep = im_ep (images t)" if k: "r = Kernel ep args" for ep args
  proof -
    obtain ret e m where m: "bootm_load_os z (im_os (images t)) (bm_mem t) = Some (ret, e, m)"
      using d t q by (auto simp: Let_def split: bind_splits)
    obtain c l where l: "lmb_reserve (im_lmb (images t)) (img_load (im_os (images t))) (e - img_load (im_os (images t))) = Some (c, l)"
      using d t q m k by (auto simp: Let_def split: bind_splits if_splits)
    let ?u = "t\<lparr>interrupts := False, bm_mem := m, images := (images t)\<lparr>im_lmb := l\<rparr>\<rparr>"
    have "\<exists>f. boot_os (img_os (im_os (images t))) = Some (Some f) \<and> f 0 ?u = Some (Kernel ep args, s')"
      using d t q k m l
      by (auto simp: Let_def bootm_start_standalone_def split: bind_splits if_splits option.splits boot_end.splits)
    then obtain f where u: "f 0 ?u = Some (Kernel ep args, s')" "boot_os (img_os (im_os (images t))) = Some (Some f)" by blast
    then have "f = do_bootm_linux" using u(1,2) by (auto simp: boot_os_def other_os_def split: if_splits)
    then show ?thesis using linux_ep [of ?u ep args s'] u(1) by simp
  qed
  then show thesis using that t q by blast
qed

text \<open>C5: \<^verbatim>\<open>bootm\<close> starts only what it has checked. Whatever memory and environment hold, whenever the command, other than as a
  subcommand, ends in a start of a kernel, of a standalone program or of another operating system, the image at its address has the
  magic number, a correct header checksum and the architecture of the board, and, unless the variable \<^verbatim>\<open>verify\<close> turns the check
  off, a correct data checksum; a Linux kernel is entered at the entry point of that header.\<close>

theorem bootm_starts_checked:
  assumes "do_bootm z argv s = Some (r, s')" and "\<forall>n. r \<noteq> Return n" and "r \<noteq> Reset"
    and "length argv < 2 \<or> peek (snd (simple_strtoul (argv ! 1) 16)) = 0"
    and "a = (if length argv < 2 then load_addr (bm_env s) else fst (simple_strtoul (argv ! 1) 16))"
  shows "image_check_magic (bm_mem s) a \<and> image_check_hcrc (hdr_at (bm_mem s) a) \<and> image_check_target_arch (hdr_at (bm_mem s) a) \<and>
    (getenv_yesno (bm_env s) ''verify'' = Some True \<longrightarrow> image_check_dcrc (bm_mem s) a) \<and>
    (\<forall>ep args. r = Kernel ep args \<longrightarrow> ep = ih_ep (hdr_at (bm_mem s) a))"
proof -
  obtain t where t: "bootm_start argv s = Some (0, t)" "\<And>ep args. r = Kernel ep args \<Longrightarrow> ep = im_ep (images t)"
    using do_bootm_started [OF assms(1-4)] by blast
  from bootm_start_checked [OF t(1) assms(5)] t(2) show ?thesis by simp
qed

theorem bootm_starts_checked_witness:
  "image_check_dcrc (mem_write 0x1000000 (sample_image [1, 2, 3] (sample_params\<lparr>p_os := IH_OS_LINUX\<rparr>)) (\<lambda>_. 0)) 0x1000000"
proof -
  let ?p = "sample_params\<lparr>p_os := IH_OS_LINUX\<rparr>"
  let ?s = "sample_board (mem_write 0x1000000 (sample_image [1, 2, 3] ?p) (\<lambda>_. 0))"
  have p: "p_addr ?p = 0" "p_comp ?p = 0" "p_os ?p = 5" by (simp_all add: sample_params_def)
  have k: "kernel_at (bm_mem ?s) (load_addr (bm_env ?s)) ?p [1, 2, 3]"
    unfolding sample_board_ok by (rule sample_kernel_at) simp_all
  have a: "boot_args sample_vars = []" "unset ''clocks_in_mhz'' sample_vars" by (simp_all add: boot_args_def unset_def cs_def)
  obtain ep args s' where "do_bootm no_zlib [cs ''bootm''] ?s = Some (Kernel ep args, s')"
    using kernel_handover [OF sample_board_ok(1) a(2) _ k p(2,3), of no_zlib "cs ''bootm''"] p(1) sample_board_ok(2) a(1) by auto
  from bootm_starts_checked [OF this _ _ _ refl] sample_board_ok(2-4) show ?thesis by simp
qed

end
