(* ===== verification/NetbootProps.thy ===== *)
theory NetbootProps
  imports Netboot BootmProps
begin

text \<open>
  The network boot commands: what they publish in the environment, and the boot of a loaded kernel.
\<close>

subsection \<open>Addresses as text\<close>

lemma number_octet: "number (scast (ucast (b :: byte) :: u32)) 10 (-1) (-1) SIGN = rev (put_dec_trunc (ucast b))"
proof -
  have "scast (ucast b :: u32) = (ucast b :: u64)"
    by (rule bit_word_eqI) (auto simp: bit_simps min_def dest: bit_imp_le_length split: if_splits)
  then have u: "unat (scast (ucast b :: u32) :: u64) = unat b"
    using byte_less_256 [of b] by (simp add: unat_ucast_mod)
  have "\<not> sint (scast (ucast b :: u32) :: u64) < 0"
    using u byte_less_256 [of b] by (simp add: sint_neg_iff)
  then show ?thesis
    using u byte_less_256 [of b] by (simp add: number_signed put_dec_trunc_correct rev_map)
qed

lemma octets: "drop_bit 24 x AND 0xff = ucast (ucast (drop_bit 24 x) :: byte)" "drop_bit 16 x AND 0xff = ucast (ucast (drop_bit 16 x) :: byte)"
  "drop_bit 8 x AND 0xff = ucast (ucast (drop_bit 8 x) :: byte)" "x AND 0xff = ucast (ucast x :: byte)" for x :: u32
proof -
  have m: "(0xff :: u32) = mask 8" by (simp add: mask_eq_exp_minus_1)
  have "w AND 0xff = ucast (ucast w :: byte)" for w :: u32
    unfolding m by (rule bit_word_eqI) (auto simp: bit_simps)
  then show "drop_bit 24 x AND 0xff = ucast (ucast (drop_bit 24 x) :: byte)" "drop_bit 16 x AND 0xff = ucast (ucast (drop_bit 16 x) :: byte)"
    "drop_bit 8 x AND 0xff = ucast (ucast (drop_bit 8 x) :: byte)" "x AND 0xff = ucast (ucast x :: byte)" by simp_all
qed

lemma printf_loop: "printf fmt args = map_option fst (vsprintf_loop (\<lambda>_. 0) [] [] (cs fmt) args)"
  by (cases "vsprintf_loop (\<lambda>_. 0) [] [] (cs fmt) args") (auto simp: printf_def vsprintf_def)

lemma ip_to_string_text: "ip_to_string x = Some (ip4_text (nth (be32_bytes x)))"
  unfolding ip_to_string_def octets
  by (simp add: printf_loop vsprintf_spec_def parse_width_def parse_precision_def parse_qualifier_def format_conv_def
      fetch_num_def cs_def number_octet ip4_text_def be32_bytes_def upt_rec)

lemma ip_text_roundtrip: "string_to_ip (Some (ip4_text (nth (be32_bytes x)))) = x"
  by (simp add: ip4_roundtrip be32_bytes_def be32_val_bytes)

lemma ip_text_plain: "ip4_text a \<noteq> [] \<and> nul_free (ip4_text a)"
proof -
  have "nul_free (put_dec_trunc (ucast b))" for b :: byte
  proof -
    have "digit_char d \<noteq> 0" if "d < 10" for d
    proof -
      have "unat (digit_char d) = 0x30 + d" using that by (simp add: digit_char_def unat_word_ariths unat_of_nat)
      then show ?thesis by auto
    qed
    moreover have "\<forall>d \<in> set (dec_digits (unat b)). d < 10" using base_digits_less [of 10 "unat b"] by simp
    ultimately show ?thesis
      using byte_less_256 [of b] by (auto simp: nul_free_def put_dec_trunc_correct)
  qed
  then show ?thesis by (simp add: ip4_text_def upt_rec nul_free_def)
qed

subsection \<open>The configuration in the environment\<close>

primrec set_vars :: "(cstr \<times> cstr) list \<Rightarrow> env_state \<Rightarrow> env_state option" where
  "set_vars [] e = Some e"
| "set_vars (u # us) e = Option.bind (setenv (fst u) (Some (snd u)) e) (\<lambda>(_, e). set_vars us e)"

lemma set_vars_append: "set_vars (a @ b) e = Option.bind (set_vars a e) (set_vars b)"
  by (induction a arbitrary: e) (auto split: bind_splits)

abbreviation put_vars :: "(cstr \<times> cstr) list \<Rightarrow> (cstr \<times> cstr) list \<Rightarrow> (cstr \<times> cstr) list" where
  "put_vars \<equiv> foldl (\<lambda>kvs (n, v). put_var n v kvs)"

text \<open>There is room for every one of the updates.\<close>

primrec room :: "(cstr \<times> cstr) list \<Rightarrow> (cstr \<times> cstr) list \<Rightarrow> bool" where
  "room kvs [] \<longleftrightarrow> env_fits kvs"
| "room kvs (u # us) \<longleftrightarrow> env_fits kvs \<and> room (put_var (fst u) (snd u) kvs) us"

lemma room_fits: "room kvs us \<Longrightarrow> env_fits kvs"
  by (cases us) simp_all

lemma set_vars_ok:
  assumes "env_ok e kvs" "\<forall>(n, v) \<in> set us. plain_var n v" "room kvs us"
  shows "\<exists>e'. set_vars us e = Some e' \<and> env_ok e' (put_vars kvs us)"
  using assms
proof (induction us arbitrary: e kvs)
  case (Cons u us)
  obtain n v where u: "u = (n, v)" by fastforce
  have r: "room (put_var n v kvs) us" using Cons.prems(3) u by simp
  moreover have "plain_var n v" using Cons.prems(2) u by simp
  ultimately obtain e1 where e1: "setenv n (Some v) e = Some (0, e1)" "env_ok e1 (put_var n v kvs)"
    using setenv_plain [OF Cons.prems(1), of n v] room_fits by (metis (full_types))
  from Cons.IH [OF e1(2) _ r] Cons.prems(2) show ?case using e1(1) u by simp
qed simp

lemma map_of_put_vars: "map_of (put_vars kvs us) = map_of kvs ++ map_of (rev us)"
proof (induction us arbitrary: kvs)
  case (Cons u us)
  then show ?case by (cases u) (simp add: map_of_put_var map_add_def fun_eq_iff split: option.split)
qed simp

definition ip_var :: "string \<Rightarrow> u32 \<Rightarrow> (cstr \<times> cstr) list" where
  "ip_var name ip = (if ip \<noteq> 0 then [(cs name, ip4_text (nth (be32_bytes ip)))] else [])"

definition str_var :: "string \<Rightarrow> byte list \<Rightarrow> (cstr \<times> cstr) list" where
  "str_var name buf = (if peek buf \<noteq> 0 then [(cs name, takeWhile (\<lambda>c. c \<noteq> 0) buf)] else [])"

text \<open>What a configuration publishes.\<close>

definition net_updates :: "('w, 'z) st \<Rightarrow> (cstr \<times> cstr) list" where
  "net_updates s =
     ip_var ''gatewayip'' (NetOurGatewayIP s) @ ip_var ''netmask'' (NetOurSubnetMask s) @
     str_var ''hostname'' (NetOurHostName s) @ str_var ''rootpath'' (NetOurRootPath s) @ ip_var ''ipaddr'' (NetOurIP s) @
     ip_var ''serverip'' (NetServerIP s) @ ip_var ''dnsip'' (NetOurDNSIP s) @ str_var ''domain'' (NetOurNISDomain s)"

lemma set_net_vars:
  "set_net_ip name ip (with_env e s) = map_option (\<lambda>e. with_env e s) (set_vars (ip_var name ip) e)"
  "set_net_str name buf (with_env e s) = map_option (\<lambda>e. with_env e s) (set_vars (str_var name buf) e)"
proof -
  have one: "set_net_var name v (with_env e s) = map_option (\<lambda>e. with_env e s) (set_vars [(cs name, v)] e)" for v
    by (cases "setenv (cs name) (Some v) e") (auto simp: set_net_var_def with_env_def)
  show "set_net_ip name ip (with_env e s) = map_option (\<lambda>e. with_env e s) (set_vars (ip_var name ip) e)"
    "set_net_str name buf (with_env e s) = map_option (\<lambda>e. with_env e s) (set_vars (str_var name buf) e)"
    by (simp_all add: set_net_ip_def set_net_str_def ip_to_string_text ip_var_def str_var_def one del: set_vars.simps(2))
qed

lemma with_env_fields [simp]:
  "NetOurGatewayIP (with_env e s) = NetOurGatewayIP s" "NetOurSubnetMask (with_env e s) = NetOurSubnetMask s"
  "NetOurIP (with_env e s) = NetOurIP s" "NetServerIP (with_env e s) = NetServerIP s" "net_env (with_env e s) = e"
  by (simp_all add: with_env_def)

lemma with_env_names [simp]:
  fixes s :: "('w, 'z) st"
  shows "NetOurHostName (with_env e s) = NetOurHostName s" "NetOurRootPath (with_env e s) = NetOurRootPath s"
    "NetOurDNSIP (with_env e s) = NetOurDNSIP s" "NetOurNISDomain (with_env e s) = NetOurNISDomain s"
  by (simp_all add: with_env_def)

lemma bind_map_option: "Option.bind (map_option f x) g = Option.bind x (\<lambda>y. g (f y))"
  by (cases x) auto

lemma netboot_update_vars:
  "netboot_update_env s = map_option (\<lambda>e. with_env e s) (set_vars (net_updates s) (net_env s))"
proof -
  have s: "s = with_env (net_env s) s" by (simp add: with_env_def)
  have "netboot_update_env (with_env e s) = map_option (\<lambda>e. with_env e s) (set_vars (net_updates s) e)" for e
    unfolding netboot_update_env_def
    by (simp add: set_net_vars bind_map_option net_updates_def set_vars_append map_option_bind bind_assoc comp_def)
  then show ?thesis using s by metis
qed

lemma is_name_cs [simp]: "is_name (cs ''gatewayip'')" "is_name (cs ''netmask'')" "is_name (cs ''hostname'')" "is_name (cs ''rootpath'')"
  "is_name (cs ''ipaddr'')" "is_name (cs ''serverip'')" "is_name (cs ''dnsip'')" "is_name (cs ''domain'')"
  by (simp_all add: is_name_def cs_def)

lemma net_updates_plain: "\<forall>(n, v) \<in> set (net_updates s). plain_var n v"
proof -
  have a: "plain_var n v" if "(n, v) \<in> set (ip_var name ip)" "is_name (cs name)" "cs name \<noteq> cs ''baudrate''" "console_of (cs name) = None"
    for name ip n v
    using that ip_text_plain by (auto simp: ip_var_def plain_var_def split: if_splits)
  have b: "plain_var n v" if "(n, v) \<in> set (str_var name buf)" "is_name (cs name)" "cs name \<noteq> cs ''baudrate''" "console_of (cs name) = None"
    for name buf n v
    using that by (cases buf) (auto simp: str_var_def plain_var_def nul_free_def peek_def dest: set_takeWhileD split: if_splits)
  have c: "console_of (cs name) = None \<and> cs name \<noteq> cs ''baudrate''"
    if "name \<in> {''gatewayip'', ''netmask'', ''hostname'', ''rootpath'', ''ipaddr'', ''serverip'', ''dnsip'', ''domain''}" for name
    using that by (auto simp: console_of_def cs_def)
  show ?thesis unfolding net_updates_def
    by (auto dest!: a b simp: c)
qed

lemma net_updates_names:
  "fst ` set (net_updates s) \<subseteq> cs ` {''gatewayip'', ''netmask'', ''hostname'', ''rootpath'', ''ipaddr'', ''serverip'', ''dnsip'', ''domain''}"
  by (auto simp: net_updates_def ip_var_def str_var_def split: if_splits)

lemma cs_eq: "cs a = cs b \<longleftrightarrow> a = b"
proof -
  have "inj (of_char :: char \<Rightarrow> byte)"
  proof (rule injI)
    fix c d :: char assume "(of_char c :: byte) = of_char d"
    then have "unat (of_nat (of_char c) :: byte) = unat (of_nat (of_char d) :: byte)" by (simp add: of_nat_of_char)
    then show "c = d" by (simp add: unat_of_nat of_char_eq_iff [where 'a = nat])
  qed
  then show ?thesis by (simp add: cs_def inj_map_eq_map)
qed

lemma update_maps:
  "map_of (rev (ip_var name ip)) x = (if ip \<noteq> 0 \<and> x = cs name then Some (ip4_text (nth (be32_bytes ip))) else None)"
  "map_of (rev (str_var name buf)) x = (if peek buf \<noteq> 0 \<and> x = cs name then Some (takeWhile (\<lambda>c. c \<noteq> 0) buf) else None)"
  by (auto simp: ip_var_def str_var_def)

lemma net_updates_other:
  assumes "name \<notin> {''gatewayip'', ''netmask'', ''hostname'', ''rootpath'', ''ipaddr'', ''serverip'', ''dnsip'', ''domain''}"
  shows "map_of (put_vars kvs (net_updates s)) (cs name) = map_of kvs (cs name)"
proof -
  have "cs name \<notin> fst ` set (net_updates s)" using net_updates_names [of s] assms by (auto simp: cs_eq)
  then have "map_of (rev (net_updates s)) (cs name) = None" by (simp add: map_of_eq_None_iff)
  then show ?thesis by (simp add: map_of_put_vars map_add_def)
qed

lemma set_vars_load_addr:
  "set_vars us e = Some e' \<Longrightarrow> \<forall>(n, v) \<in> set us. plain_var n v \<and> n \<noteq> cs ''loadaddr'' \<Longrightarrow> load_addr e' = load_addr e"
  by (induction us arbitrary: e) (auto dest!: setenv_load_addr split: bind_splits)

lemma netboot_update_returns:
  assumes "env_ok (net_env s) kvs" "room kvs (net_updates s)"
  shows "\<exists>e. netboot_update_env s = Some (with_env e s) \<and> env_ok e (put_vars kvs (net_updates s)) \<and> load_addr e = load_addr (net_env s)"
proof -
  obtain e where e: "set_vars (net_updates s) (net_env s) = Some e" "env_ok e (put_vars kvs (net_updates s))"
    using set_vars_ok [OF assms(1) net_updates_plain] assms(2) by (auto simp: room_def)
  have "\<forall>(n, v) \<in> set (net_updates s). plain_var n v \<and> n \<noteq> cs ''loadaddr''"
    using net_updates_plain [of s] net_updates_names [of s] by (fastforce simp: cs_def)
  then have "load_addr e = load_addr (net_env s)" using set_vars_load_addr [OF e(1)] by blast
  then show ?thesis using e by (auto simp: netboot_update_vars)
qed

lemma published_ip:
  assumes "ip \<noteq> 0"
    and "(name, ip) \<in> {(''gatewayip'', NetOurGatewayIP s), (''netmask'', NetOurSubnetMask s), (''ipaddr'', NetOurIP s),
           (''serverip'', NetServerIP s), (''dnsip'', NetOurDNSIP s)}"
  shows "map_of (put_vars kvs (net_updates s)) (cs name) = Some (ip4_text (nth (be32_bytes ip)))"
  using assms unfolding map_of_put_vars net_updates_def
  by (elim insertE emptyE Pair_inject) (simp_all add: map_add_def update_maps cs_eq)

lemma published_str:
  assumes "peek buf \<noteq> 0"
    and "(name, buf) \<in> {(''hostname'', NetOurHostName s), (''rootpath'', NetOurRootPath s), (''domain'', NetOurNISDomain s)}"
  shows "map_of (put_vars kvs (net_updates s)) (cs name) = Some (takeWhile (\<lambda>c. c \<noteq> 0) buf)"
  using assms unfolding map_of_put_vars net_updates_def
  by (elim insertE emptyE Pair_inject) (simp_all add: map_add_def update_maps cs_eq)

lemma published:
  assumes "env_ok (net_env s') (put_vars kvs (net_updates s))"
  shows "(\<forall>(name, ip) \<in> {(''gatewayip'', NetOurGatewayIP s), (''netmask'', NetOurSubnetMask s), (''ipaddr'', NetOurIP s),
        (''serverip'', NetServerIP s), (''dnsip'', NetOurDNSIP s)}.
       ip \<noteq> 0 \<longrightarrow> Option.bind (getenv_str (net_env s') (cs name)) (\<lambda>v. Some (string_to_ip v)) = Some ip)"
    "(\<forall>(name, buf) \<in> {(''hostname'', NetOurHostName s), (''rootpath'', NetOurRootPath s), (''domain'', NetOurNISDomain s)}.
       peek buf \<noteq> 0 \<longrightarrow> getenv_str (net_env s') (cs name) = Some (Some (takeWhile (\<lambda>c. c \<noteq> 0) buf)))"
proof -
  have i: "Option.bind (getenv_str (net_env s') (cs name)) (\<lambda>v. Some (string_to_ip v)) = Some ip"
    if "ip \<noteq> 0" "is_name (cs name)" "(name, ip) \<in> {(''gatewayip'', NetOurGatewayIP s), (''netmask'', NetOurSubnetMask s),
      (''ipaddr'', NetOurIP s), (''serverip'', NetServerIP s), (''dnsip'', NetOurDNSIP s)}" for name ip
    using getenv_map [OF assms that(2)] published_ip [OF that(1,3)] by (simp add: ip_text_roundtrip)
  have t: "getenv_str (net_env s') (cs name) = Some (Some (takeWhile (\<lambda>c. c \<noteq> 0) buf))"
    if "peek buf \<noteq> 0" "is_name (cs name)" "(name, buf) \<in> {(''hostname'', NetOurHostName s), (''rootpath'', NetOurRootPath s),
      (''domain'', NetOurNISDomain s)}" for name buf
    using getenv_map [OF assms that(2)] published_str [OF that(1,3)] by simp
  show "(\<forall>(name, ip) \<in> {(''gatewayip'', NetOurGatewayIP s), (''netmask'', NetOurSubnetMask s), (''ipaddr'', NetOurIP s),
        (''serverip'', NetServerIP s), (''dnsip'', NetOurDNSIP s)}.
       ip \<noteq> 0 \<longrightarrow> Option.bind (getenv_str (net_env s') (cs name)) (\<lambda>v. Some (string_to_ip v)) = Some ip)"
    "(\<forall>(name, buf) \<in> {(''hostname'', NetOurHostName s), (''rootpath'', NetOurRootPath s), (''domain'', NetOurNISDomain s)}.
       peek buf \<noteq> 0 \<longrightarrow> getenv_str (net_env s') (cs name) = Some (Some (takeWhile (\<lambda>c. c \<noteq> 0) buf)))"
    by (auto intro!: i t)
qed

lemma sample_updates:
  "net_updates sample_bootp = [(cs ''netmask'', cs ''255.255.255.0''), (cs ''ipaddr'', cs ''10.0.0.1'')]"
proof -
  have t: "ip4_text (nth (be32_bytes 0xFFFFFF00)) = cs ''255.255.255.0''" "ip4_text (nth (be32_bytes 0x0A000001)) = cs ''10.0.0.1''"
    by code_simp+
  have f: "NetOurGatewayIP sample_bootp = 0" "NetOurSubnetMask sample_bootp = 0xFFFFFF00" "NetOurIP sample_bootp = 0x0A000001"
    "NetServerIP sample_bootp = 0" "NetOurHostName sample_bootp = []" "NetOurRootPath sample_bootp = []"
    "NetOurDNSIP sample_bootp = 0" "NetOurNISDomain sample_bootp = []"
    by (simp_all add: sample_bootp_simps)
  show ?thesis unfolding net_updates_def f ip_var_def str_var_def t by simp
qed

text \<open>C29: what a network boot publishes. After a load the addresses of the configuration that are set, own address, server,
  gateway, netmask and name server, can be read from the environment variables of these names and denote the same
  addresses again, host name, root path and domain are their strings, and every other variable is unchanged.\<close>

theorem netboot_publishes:
  assumes "env_ok (net_env s) kvs" and "room kvs (net_updates s)"
  shows "\<exists>s'. netboot_update_env s = Some s' \<and>
    (\<forall>(name, ip) \<in> {(''gatewayip'', NetOurGatewayIP s), (''netmask'', NetOurSubnetMask s), (''ipaddr'', NetOurIP s),
        (''serverip'', NetServerIP s), (''dnsip'', NetOurDNSIP s)}.
       ip \<noteq> 0 \<longrightarrow> Option.bind (getenv_str (net_env s') (cs name)) (\<lambda>v. Some (string_to_ip v)) = Some ip) \<and>
    (\<forall>(name, buf) \<in> {(''hostname'', NetOurHostName s), (''rootpath'', NetOurRootPath s), (''domain'', NetOurNISDomain s)}.
       peek buf \<noteq> 0 \<longrightarrow> getenv_str (net_env s') (cs name) = Some (Some (takeWhile (\<lambda>c. c \<noteq> 0) buf))) \<and>
    (\<forall>name. is_name (cs name) \<and>
       name \<notin> {''gatewayip'', ''netmask'', ''hostname'', ''rootpath'', ''ipaddr'', ''serverip'', ''dnsip'', ''domain''} \<longrightarrow>
       getenv_str (net_env s') (cs name) = getenv_str (net_env s) (cs name))"
proof -
  obtain e where e: "netboot_update_env s = Some (with_env e s)" "env_ok e (put_vars kvs (net_updates s))"
    using netboot_update_returns [OF assms] by blast
  have p: "env_ok (net_env (with_env e s)) (put_vars kvs (net_updates s))" using e(2) by simp
  have r: "getenv_str e (cs name) = getenv_str (net_env s) (cs name)" if "is_name (cs name)"
    "name \<notin> {''gatewayip'', ''netmask'', ''hostname'', ''rootpath'', ''ipaddr'', ''serverip'', ''dnsip'', ''domain''}" for name
    using getenv_map [OF e(2) that(1)] getenv_map [OF assms(1) that(1)] net_updates_other [OF that(2)] by simp
  show ?thesis using e(1) published [OF p] by (intro exI [of _ "with_env e s"] conjI) (simp_all add: r)
qed

theorem netboot_publishes_witness:
  "\<exists>s'. netboot_update_env sample_bootp = Some s' \<and>
    Option.bind (getenv_str (net_env s') (cs ''netmask'')) (\<lambda>v. Some (string_to_ip v)) = Some 0xFFFFFF00 \<and>
    getenv_str (net_env s') (cs ''bootdelay'') = getenv_str (net_env sample_bootp) (cs ''bootdelay'')"
proof -
  have ok: "env_ok (net_env sample_bootp) sample_vars"
    using sample_state_ok(1) [OF sample_vars_ok] by (simp add: sample_bootp_simps sample_eth_def)
  have r: "room sample_vars (net_updates sample_bootp)"
    by (simp add: sample_updates env_fits_def put_var_def del_var_def entry_def cs_def)
  have "NetOurSubnetMask sample_bootp = 0xFFFFFF00" by (simp add: sample_bootp_simps)
  moreover have "is_name (cs ''bootdelay'')" by (simp add: is_name_def cs_def)
  ultimately show ?thesis using netboot_publishes [OF ok r] by auto
qed

subsection \<open>The automatic boot\<close>

lemma board_updates:
  assumes "board_ok (b\<lparr>bm_env := net_env s, bm_mem := m\<rparr>) kvs" "env_ok e (put_vars kvs (net_updates s))"
  shows "board_ok (b\<lparr>bm_env := e, bm_mem := m\<rparr>) (put_vars kvs (net_updates s))"
  using assms by (simp add: board_ok_def unset_def net_updates_other)

lemma boot_args_updates: "boot_args (put_vars kvs (net_updates s)) = boot_args kvs"
  "unset ''clocks_in_mhz'' (put_vars kvs (net_updates s)) = unset ''clocks_in_mhz'' kvs"
  by (simp_all add: boot_args_def unset_def net_updates_other)

text \<open>C7: the automatic boot. After a load of a file with an uncompressed Linux kernel image of the tool to the load address, with
  \<^verbatim>\<open>autostart\<close> set to yes, room for the configuration in the environment, and board and kernel as required for \<^verbatim>\<open>bootm\<close> alone, the
  network boot commands publish the configuration, so that every address that is set, host name, root path and domain can be read from the
  environment, copy the kernel to its load address and jump to its entry point, with the value of \<^verbatim>\<open>bootargs\<close> and the board
  information in memory.\<close>

theorem netboot_boots:
  assumes "0 < n" and "board_ok (b\<lparr>bm_env := net_env s, bm_mem := net_mem s\<rparr>) kvs" and "room kvs (net_updates s)"
    and "map_of kvs (cs ''autostart'') = Some (cs ''yes'')" and "unset ''clocks_in_mhz'' kvs" and "length (boot_args kvs) < 256"
    and "kernel_at (net_mem s) (load_addr (net_env s)) p d" and "p_comp p = IH_COMP_NONE" and "p_os p = IH_OS_LINUX"
    and "unat (p_addr p) + length d \<le> 0x700000" and "p_addr p \<noteq> load_addr (net_env s)"
  shows "\<exists>s' b'. netboot_done z argv n s b =
      Some (Kernel (entry_point p) [0x7FFEC0, 0, 0, 0x7FFF00, 0x7FFF00 + of_nat (length (boot_args kvs)), 0, 0], s', b') \<and>
    mem_read (p_addr p) (length d) (net_mem s') = d \<and>
    mem_read 0x7FFF00 (length (boot_args kvs) + 1) (net_mem s') = boot_args kvs @ [0] \<and>
    mem_read 0x7FFEC0 56 (net_mem s') = bd_bytes (net_env s') (gd_bd b) \<and>
    (\<forall>(name, ip) \<in> {(''gatewayip'', NetOurGatewayIP s), (''netmask'', NetOurSubnetMask s), (''ipaddr'', NetOurIP s),
        (''serverip'', NetServerIP s), (''dnsip'', NetOurDNSIP s)}.
       ip \<noteq> 0 \<longrightarrow> Option.bind (getenv_str (net_env s') (cs name)) (\<lambda>v. Some (string_to_ip v)) = Some ip) \<and>
    (\<forall>(name, buf) \<in> {(''hostname'', NetOurHostName s), (''rootpath'', NetOurRootPath s), (''domain'', NetOurNISDomain s)}.
       peek buf \<noteq> 0 \<longrightarrow> getenv_str (net_env s') (cs name) = Some (Some (takeWhile (\<lambda>c. c \<noteq> 0) buf)))"
proof -
  let ?kvs = "put_vars kvs (net_updates s)"
  have ok: "env_ok (net_env s) kvs" using assms(2) by (simp add: board_ok_def)
  obtain e where e: "netboot_update_env s = Some (with_env e s)" "env_ok e ?kvs" "load_addr e = load_addr (net_env s)"
    using netboot_update_returns [OF ok assms(3)] by blast
  let ?b = "b\<lparr>bm_env := e, bm_mem := net_mem s\<rparr>"
  have a: "getenv_str e (cs ''autostart'') = Some (Some (cs ''yes''))"
    using getenv_map [OF e(2), of "cs ''autostart''"] assms(4) by (simp add: net_updates_other)
  have "\<exists>s'. do_bootm z [argv ! 0] ?b =
      Some (Kernel (entry_point p) [0x7FFEC0, 0, 0, 0x7FFF00, 0x7FFF00 + of_nat (length (boot_args ?kvs)), 0, 0], s') \<and>
    mem_read (p_addr p) (length d) (bm_mem s') = d \<and>
    mem_read 0x7FFF00 (length (boot_args ?kvs) + 1) (bm_mem s') = boot_args ?kvs @ [0] \<and>
    mem_read 0x7FFEC0 56 (bm_mem s') = bd_bytes (bm_env ?b) (gd_bd ?b) \<and> bm_env s' = bm_env ?b \<and> \<not> interrupts s'"
    by (rule kernel_handover [OF board_updates [OF assms(2) e(2)]]) (use assms(5-11) e(3) in \<open>simp_all add: boot_args_updates\<close>)
  then obtain t where t: "do_bootm z [argv ! 0] ?b =
      Some (Kernel (entry_point p) [0x7FFEC0, 0, 0, 0x7FFF00, 0x7FFF00 + of_nat (length (boot_args kvs)), 0, 0], t)"
    "mem_read (p_addr p) (length d) (bm_mem t) = d" "mem_read 0x7FFF00 (length (boot_args kvs) + 1) (bm_mem t) = boot_args kvs @ [0]"
    "mem_read 0x7FFEC0 56 (bm_mem t) = bd_bytes e (gd_bd b)" "bm_env t = e" by (auto simp: boot_args_updates)
  let ?t = "(with_env e s)\<lparr>net_mem := bm_mem t\<rparr>"
  have "env_ok (net_env ?t) ?kvs" using e(2) by (simp add: with_env_def)
  moreover have "netboot_done z argv n s b =
      Some (Kernel (entry_point p) [0x7FFEC0, 0, 0, 0x7FFF00, 0x7FFF00 + of_nat (length (boot_args kvs)), 0, 0], ?t, t)"
    using assms(1) e(1) a t(1,5) by (simp add: netboot_done_def with_env_def)
  moreover have "net_mem ?t = bm_mem t" "net_env ?t = e" by (simp_all add: with_env_def)
  ultimately show ?thesis using t(2-4) published [of ?t kvs s] by (intro exI [of _ ?t] exI [of _ t]) simp
qed

text \<open>A board that has loaded an image of a three byte kernel and starts it automatically.\<close>

abbreviation (input) auto_vars :: "(cstr \<times> cstr) list" where
  "auto_vars \<equiv> [(cs ''autostart'', cs ''yes'')]"

definition auto_net :: "byte list \<Rightarrow> nat bootp" where
  "auto_net f = (with_env (sample_state auto_vars) sample_bootp)\<lparr>net_mem := mem_write 0x1000000 f (\<lambda>_. 0)\<rparr>"

theorem netboot_boots_witness:
  "\<exists>s' b'. netboot_done no_zlib [cs ''tftpboot''] 67
      (auto_net (sample_image [1, 2, 3] (sample_params\<lparr>p_os := IH_OS_LINUX\<rparr>))) (sample_board (\<lambda>_. 0)) =
      Some (Kernel 4 [0x7FFEC0, 0, 0, 0x7FFF00, 0x7FFF00, 0, 0], s', b') \<and> mem_read 0 3 (net_mem s') = [1, 2, 3]"
proof -
  let ?p = "sample_params\<lparr>p_os := IH_OS_LINUX\<rparr>" and ?b = "sample_board (\<lambda>_. 0)"
  let ?s = "auto_net (sample_image [1, 2, 3] ?p)"
  have v: "vars_ok auto_vars" "length (ents auto_vars) + 2 \<le> ENV_SIZE"
    by (simp_all add: vars_ok_def is_name_def nul_free_def cs_def entry_def)
  have e: "net_env ?s = sample_state auto_vars" "load_addr (net_env ?s) = 0x1000000"
    "net_mem ?s = mem_write 0x1000000 (sample_image [1, 2, 3] ?p) (\<lambda>_. 0)"
    by (simp_all add: auto_net_def with_env_def sample_state_def Let_def)
  have u: "net_updates ?s = net_updates sample_bootp" by (simp add: net_updates_def auto_net_def with_env_def)
  have r: "room auto_vars (net_updates ?s)"
    by (simp add: u sample_updates env_fits_def put_var_def del_var_def entry_def cs_def)
  have b: "board_ok (?b\<lparr>bm_env := net_env ?s, bm_mem := net_mem ?s\<rparr>) auto_vars"
    using sample_state_ok(1) [OF v] unfolding e by (simp add: board_ok_def sample_board_def unset_def cs_def)
  have p: "p_addr ?p = 0" "p_comp ?p = 0" "p_os ?p = 5" "entry_point ?p = 4" by (simp_all add: sample_params_def entry_point_def)
  have k: "kernel_at (net_mem ?s) (load_addr (net_env ?s)) ?p [1, 2, 3]"
    unfolding e(2,3) by (rule sample_kernel_at) simp_all
  have a: "boot_args auto_vars = []" "unset ''clocks_in_mhz'' auto_vars" "map_of auto_vars (cs ''autostart'') = Some (cs ''yes'')"
    by (simp_all add: boot_args_def unset_def cs_def)
  show ?thesis
    using netboot_boots [OF _ b r a(3,2) _ k p(2,3), of 67 no_zlib "[cs ''tftpboot'']"] p e(2) a(1)
    by (auto simp: numeral_3_eq_3)
qed

end
