(* ===== verification/GunzipProps.thy ===== *)
theory GunzipProps
  imports Bootm Mkimage
begin

text \<open>
  The gzip header: \<^verbatim>\<open>gunzip\<close> skips the header of a gzip file, whatever optional parts it has, and hands the rest to the
  inflate routine.
\<close>

text \<open>A header by RFC 1952: the fixed part with six bytes of time, flags and system, then the optional parts.\<close>

definition gz_flags :: "byte list option \<Rightarrow> cstr option \<Rightarrow> cstr option \<Rightarrow> (byte \<times> byte) option \<Rightarrow> byte" where
  "gz_flags extra name comment hcrc =
     (if hcrc \<noteq> None then 2 else 0) + (if extra \<noteq> None then 4 else 0) + (if name \<noteq> None then 8 else 0) +
     (if comment \<noteq> None then 16 else 0)"

definition gz_extra :: "byte list option \<Rightarrow> byte list" where
  "gz_extra extra = (case extra of None \<Rightarrow> [] | Some e \<Rightarrow> [of_nat (length e mod 256), of_nat (length e div 256)] @ e)"

definition gz_string :: "cstr option \<Rightarrow> byte list" where
  "gz_string s = (case s of None \<Rightarrow> [] | Some s \<Rightarrow> s @ [0])"

definition gz_hcrc :: "(byte \<times> byte) option \<Rightarrow> byte list" where
  "gz_hcrc c = (case c of None \<Rightarrow> [] | Some (x, y) \<Rightarrow> [x, y])"

definition gz_fixed :: "byte \<Rightarrow> byte list \<Rightarrow> byte list" where
  "gz_fixed flags six = [0x1f, 0x8b, 8, flags] @ six"

definition gz_ok :: "byte list option \<Rightarrow> cstr option \<Rightarrow> cstr option \<Rightarrow> bool" where
  "gz_ok extra name comment \<longleftrightarrow> pred_option (\<lambda>e. length e < 65536) extra \<and> pred_option nul_free name \<and> pred_option nul_free comment"

lemma skip_string_at:
  assumes f: "mem_read src (length f) m = f" "f = xs @ s @ [0] @ ys" and s: "nul_free s" and l: "length f < 2 ^ 31"
  shows "skip_string m src (length xs) = Some (length (xs @ s @ [0]))"
proof -
  have b: "m (src + of_nat i) = f ! i" if "i < length f" for i by (rule byte_block [OF f(1) that])
  have "m (src + of_nat (length xs + length s)) = 0"
    using b [of "length xs + length s"] f(2) by (simp add: nth_append)
  moreover have "m (src + of_nat k) \<noteq> 0" if "length xs \<le> k" "k < length xs + length s" for k
  proof -
    have k: "k - length xs < length s" using that by linarith
    then have "f ! k = s ! (k - length xs)" using f(2) that by (simp add: nth_append)
    moreover have "s ! (k - length xs) \<noteq> 0" using s nth_mem [OF k] by (metis nul_free_def)
    ultimately show ?thesis using b [of k] f(2) that by simp
  qed
  ultimately have "scan_for (\<lambda>i. m (src + of_nat i) = 0) (2 ^ 31 - 1) (length xs) = Some (length xs + length s)"
    using l f(2) by (intro scan_for_first) auto
  then show ?thesis by (simp add: skip_string_def)
qed

lemma gz_flag_bits:
  "gz_flags e n c h AND 0xe0 = 0" "gz_flags e n c h AND 4 \<noteq> 0 \<longleftrightarrow> e \<noteq> None" "gz_flags e n c h AND 8 \<noteq> 0 \<longleftrightarrow> n \<noteq> None"
  "gz_flags e n c h AND 0x10 \<noteq> 0 \<longleftrightarrow> c \<noteq> None" "gz_flags e n c h AND 2 \<noteq> 0 \<longleftrightarrow> h \<noteq> None"
  unfolding gz_flags_def by (cases "e = None"; cases "n = None"; cases "c = None"; cases "h = None"; simp)+

text \<open>C30: a gzip file in memory: \<^verbatim>\<open>gunzip\<close> skips the header, with or without extra field, name, comment and header
  checksum, and starts the inflate routine exactly at the compressed data.\<close>

theorem gunzip_skips_header:
  assumes "f = gz_fixed (gz_flags extra name comment hcrc) six @ gz_extra extra @ gz_string name @ gz_string comment @
      gz_hcrc hcrc @ data"
    and "length six = 6" and "gz_ok extra name comment" and "data \<noteq> []" and "length f < 2 ^ 31"
    and "mem_read src (length f) m = f"
  shows "gunzip z dst dstlen src (of_nat (length f)) m =
    Some (zunzip z dst dstlen src (of_nat (length f)) (of_nat (length f - length data)) m)"
proof -
  let ?fl = "gz_flags extra name comment hcrc"
  define a where "a = gz_fixed ?fl six @ gz_extra extra"
  define b where "b = a @ gz_string name"
  define c where "c = b @ gz_string comment"
  have byt: "m (src + of_nat i) = f ! i" if "i < length f" for i by (rule byte_block [OF assms(6) that])
  have l10: "length (gz_fixed ?fl six) = 10" using assms(2) by (simp add: gz_fixed_def)
  have m: "m (src + 2) = 8" "m (src + 3) = ?fl"
    using byt [of 2] byt [of 3] assms(1) by (simp_all add: gz_fixed_def numeral_2_eq_2 numeral_3_eq_3)
  have i1: "(if ?fl AND 4 \<noteq> 0 then 12 + unat (m (src + 10)) + unat (m (src + 11)) * 256 else 10) = length a"
  proof (cases extra)
    case (Some e)
    have e: "length e < 65536" using assms(3) Some by (simp add: gz_ok_def)
    have "f ! 10 = of_nat (length e mod 256)" "f ! 11 = of_nat (length e div 256)"
      using assms(1) l10 Some by (simp_all add: nth_append gz_extra_def)
    then have "m (src + 10) = of_nat (length e mod 256)" "m (src + 11) = of_nat (length e div 256)"
      using byt [of 10] byt [of 11] assms(1) l10 Some by (simp_all add: gz_extra_def)
    moreover have "length e div 256 < 256" using e by simp
    ultimately have "unat (m (src + 10)) = length e mod 256" "unat (m (src + 11)) = length e div 256"
      by (simp_all add: unat_of_nat_byte)
    moreover have "length a = 12 + length e" using l10 Some by (simp add: a_def gz_extra_def)
    ultimately show ?thesis using gz_flag_bits(2) [of extra name comment hcrc] Some
      by (simp add: mod_mult_div_eq add.assoc)
  qed (use gz_flag_bits(2) [of extra name comment hcrc] l10 in \<open>simp add: a_def gz_extra_def\<close>)
  have i2: "(if ?fl AND 8 \<noteq> 0 then skip_string m src (length a) else Some (length a)) = Some (length b)"
  proof (cases name)
    case (Some n)
    then show ?thesis
      using skip_string_at [OF assms(6), of a n "gz_string comment @ gz_hcrc hcrc @ data"] assms(1,3,5) gz_flag_bits(3)
      by (simp add: a_def b_def gz_string_def gz_ok_def)
  qed (use gz_flag_bits(3) in \<open>simp add: b_def gz_string_def\<close>)
  have i3: "(if ?fl AND 0x10 \<noteq> 0 then skip_string m src (length b) else Some (length b)) = Some (length c)"
  proof (cases comment)
    case (Some n)
    then show ?thesis
      using skip_string_at [OF assms(6), of b n "gz_hcrc hcrc @ data"] assms(1,3,5) gz_flag_bits(4)
      by (simp add: a_def b_def c_def gz_string_def gz_ok_def)
  qed (use gz_flag_bits(4) in \<open>simp add: c_def gz_string_def\<close>)
  have i4: "(if ?fl AND 2 \<noteq> 0 then length c + 2 else length c) = length f - length data"
    using assms(1) gz_flag_bits(5) by (cases hcrc) (auto simp: a_def b_def c_def gz_hcrc_def)
  have "unat (of_nat (length f) :: u32) = length f" using assms(5) by (simp add: unat_of_nat_u32)
  moreover have "length f - length data < length f" using assms(1,4) l10 by simp
  ultimately show ?thesis
    unfolding gunzip_def m Let_def i1 using i2 i3 i4 gz_flag_bits(1) by simp
qed

theorem gunzip_skips_header_witness:
  "gunzip \<lparr>inflateInit2 = 0, inflate = \<lambda>m src len dst dlen. (1, dst + 1, mem_write dst [m src] m)\<rparr> 0x100 16 0
      15 (mem_write 0 ([0x1f, 0x8b, 8, 8, 0, 0, 0, 0, 0, 3] @ cs ''abc'' @ [0] @ [42]) (\<lambda>_. 0)) =
     Some (zunzip \<lparr>inflateInit2 = 0, inflate = \<lambda>m src len dst dlen. (1, dst + 1, mem_write dst [m src] m)\<rparr> 0x100 16 0
       15 14 (mem_write 0 ([0x1f, 0x8b, 8, 8, 0, 0, 0, 0, 0, 3] @ cs ''abc'' @ [0] @ [42]) (\<lambda>_. 0)))"
proof -
  let ?f = "[0x1f, 0x8b, 8, 8, 0, 0, 0, 0, 0, 3] @ cs ''abc'' @ [0] @ [42 :: byte]"
  have f: "?f = gz_fixed (gz_flags None (Some (cs ''abc'')) None None) [0, 0, 0, 0, 0, 3] @ gz_extra None @
      gz_string (Some (cs ''abc'')) @ gz_string None @ gz_hcrc None @ [42]"
    by (simp add: gz_fixed_def gz_flags_def gz_extra_def gz_string_def gz_hcrc_def)
  have ok: "gz_ok None (Some (cs ''abc'')) None" by (simp add: gz_ok_def cs_def)
  have l: "length ?f = 15" by (simp add: cs_def)
  have m: "mem_read 0 (length ?f) (mem_write 0 ?f (\<lambda>_. 0)) = ?f" by (rule mem_read_write) (simp add: cs_def)
  show ?thesis using gunzip_skips_header [OF f _ ok _ _ m] unfolding l by simp
qed

end
