(* ===== verification/Flash.thy ===== *)
theory Flash
  imports Memory "HOL-Library.Monad_Syntax"
begin

text \<open>
  Flash memory: the driver of the board (\<^verbatim>\<open>board/eltec/bab7xx/flash.c\<close>) and the layer above it that finds banks, protects
  sectors and splits writes (\<^verbatim>\<open>common/flash.c\<close>). The chips are a parameter of the driver: byte accesses, which may change
  the state of a chip, and the millisecond timer.
\<close>

abbreviation (input) FLASH_UNKNOWN :: u32 where "FLASH_UNKNOWN \<equiv> 0xFFFF"
abbreviation (input) MAX_FLASH_SECT :: nat where "MAX_FLASH_SECT \<equiv> 67"
abbreviation (input) ERR_OK :: int where "ERR_OK \<equiv> 0"
abbreviation (input) ERR_TIMOUT :: int where "ERR_TIMOUT \<equiv> 1"
abbreviation (input) ERR_NOT_ERASED :: int where "ERR_NOT_ERASED \<equiv> 2"
abbreviation (input) ERR_PROTECTED :: int where "ERR_PROTECTED \<equiv> 4"
abbreviation (input) ERR_INVAL :: int where "ERR_INVAL \<equiv> 8"

text \<open>The arrays \<^verbatim>\<open>start\<close> and \<^verbatim>\<open>protect\<close> have \<open>MAX_FLASH_SECT\<close> entries; an access behind them is a fault.\<close>

record flash_info =
  fi_size :: u32
  sector_count :: nat
  flash_id :: u32
  fi_start :: "nat \<Rightarrow> u32"
  fi_protect :: "nat \<Rightarrow> byte"

record 'w flash_hw =
  hw_read :: "u32 \<Rightarrow> 'w \<Rightarrow> byte \<times> 'w"
  hw_write :: "u32 \<Rightarrow> byte \<Rightarrow> 'w \<Rightarrow> 'w"
  hw_timer :: "'w \<Rightarrow> u32 \<times> 'w"

subsection \<open>The driver\<close>

abbreviation (input) WRITE_TOUT :: u32 where "WRITE_TOUT \<equiv> 500"
abbreviation (input) ERASE_TOUT :: u32 where "ERASE_TOUT \<equiv> 120000"

text \<open>Waiting for bit 7 of the byte at an address: true when it has the value of bit 7 of \<open>d\<close>, false after the time limit.
  There is no value when neither ever happens.\<close>

partial_function (option) poll_d7 :: "'w flash_hw \<Rightarrow> u32 \<Rightarrow> u32 \<Rightarrow> byte \<Rightarrow> u32 \<Rightarrow> 'w \<Rightarrow> (bool \<times> 'w) option" where
  "poll_d7 hw tout a d start w =
     (let (v, w) = hw_read hw a w
      in if v AND 0x80 = d AND 0x80 then Some (True, w)
         else let (now, w) = hw_timer hw w
              in if now - start > tout then Some (False, w) else poll_d7 hw tout a d start w)"

definition unlock :: "'w flash_hw \<Rightarrow> u32 \<Rightarrow> 'w \<Rightarrow> 'w" where
  "unlock hw base w = hw_write hw (base + 0x2AA) 0x55 (hw_write hw (base + 0x555) 0xAA w)"

definition command :: "'w flash_hw \<Rightarrow> u32 \<Rightarrow> byte \<Rightarrow> 'w \<Rightarrow> 'w" where
  "command hw base cmd w = hw_write hw (base + 0x555) cmd (unlock hw base w)"

primrec program_bytes :: "'w flash_hw \<Rightarrow> u32 \<Rightarrow> u32 \<Rightarrow> byte list \<Rightarrow> 'w \<Rightarrow> (int \<times> 'w) option" where
  "program_bytes hw base a [] w = Some (0, w)"
| "program_bytes hw base a (d # ds) w =
     (let w = hw_write hw a d (command hw base 0xA0 w);
          (start, w) = hw_timer hw w
      in do { (done, w) \<leftarrow> poll_d7 hw WRITE_TOUT a d start w;
              if done then program_bytes hw base (a + 1) ds w else Some (1, w) })"

text \<open>The check that the word is erased looks at one byte: \<^verbatim>\<open>FLASH_WORD_SIZE\<close> is \<^verbatim>\<open>unsigned char\<close>.\<close>

definition write_word :: "'w flash_hw \<Rightarrow> flash_info \<Rightarrow> u32 \<Rightarrow> u32 \<Rightarrow> 'w \<Rightarrow> (int \<times> 'w) option" where
  "write_word hw info dest data w =
     (let (b, w) = hw_read hw dest w
      in if b AND ucast data \<noteq> ucast data then Some (2, w)
         else program_bytes hw (fi_start info 0) dest (be32_bytes data) w)"

primrec read_bytes :: "'w flash_hw \<Rightarrow> u32 \<Rightarrow> nat \<Rightarrow> 'w \<Rightarrow> byte list \<times> 'w" where
  "read_bytes hw a 0 w = ([], w)"
| "read_bytes hw a (Suc n) w =
     (let (b, w) = hw_read hw a w; (bs, w) = read_bytes hw (a + 1) n w in (b # bs, w))"

definition shift_in :: "byte list \<Rightarrow> u32" where
  "shift_in bs = foldl (\<lambda>data b. push_bit 8 data OR ucast b) 0 bs"

fun write_words :: "'w flash_hw \<Rightarrow> flash_info \<Rightarrow> byte list \<Rightarrow> u32 \<Rightarrow> 'w \<Rightarrow> (int \<times> 'w) option" where
  "write_words hw info (a # b # c # d # src) wp w =
     do { (rc, w) \<leftarrow> write_word hw info wp (shift_in [a, b, c, d]) w;
          if rc \<noteq> 0 then Some (rc, w) else write_words hw info src (wp + 4) w }"
| "write_words hw info [] wp w = Some (0, w)"
| "write_words hw info src wp w =
     (let (old, w) = read_bytes hw (wp + of_nat (length src)) (4 - length src) w
      in write_word hw info wp (shift_in (src @ old)) w)"

text \<open>\<open>src\<close> are the bytes to write; their number is \<^verbatim>\<open>cnt\<close>.\<close>

definition write_buff :: "'w flash_hw \<Rightarrow> flash_info \<Rightarrow> byte list \<Rightarrow> u32 \<Rightarrow> 'w \<Rightarrow> (int \<times> 'w) option" where
  "write_buff hw info src addr w =
     (let wp = addr AND NOT 3; l = unat (addr - wp)
      in if l \<noteq> 0 then
           let (old, w) = read_bytes hw wp l w;
               new = take (4 - l) src;
               (rest, w) = read_bytes hw (addr + of_nat (length new)) (4 - l - length new) w
           in do { (rc, w) \<leftarrow> write_word hw info wp (shift_in (old @ new @ rest)) w;
                   if rc \<noteq> 0 then Some (rc, w) else write_words hw info (drop (4 - l) src) (wp + 4) w }
         else write_words hw info src wp w)"

subsection \<open>Erasing\<close>

abbreviation (input) FLASH_AMD_COMP :: u32 where "FLASH_AMD_COMP \<equiv> 0x000FFFFF"
abbreviation (input) FLASH_MAN_SST :: u32 where "FLASH_MAN_SST \<equiv> 0x00100000"

text \<open>The erase commands for a list of sectors, and the last sector they were given to.\<close>

primrec erase_cmds :: "'w flash_hw \<Rightarrow> flash_info \<Rightarrow> nat list \<Rightarrow> 'w \<times> nat option \<Rightarrow> ('w \<times> nat option) option" where
  "erase_cmds hw info [] s = Some s"
| "erase_cmds hw info (sect # sects) s =
     (if MAX_FLASH_SECT \<le> sect then None
      else if fi_protect info sect = 0 then
        let a = fi_start info sect
        in erase_cmds hw info sects
             (if flash_id info AND FLASH_MAN_SST \<noteq> 0
              then hw_write hw a 0x50 (unlock hw a (command hw a 0x80 (fst s)))
              else hw_write hw a 0x30 (fst s), Some sect)
      else erase_cmds hw info sects s)"

definition flash_erase :: "'w flash_hw \<Rightarrow> flash_info \<Rightarrow> int \<Rightarrow> int \<Rightarrow> 'w \<Rightarrow> (int \<times> 'w) option" where
  "flash_erase hw info s_first s_last w =
     (if s_first < 0 \<or> s_first > s_last then Some (1, w)
      else if flash_id info = FLASH_UNKNOWN \<or> flash_id info > FLASH_AMD_COMP then Some (1, w)
      else
        let base = fi_start info 0;
            w = unlock hw base (command hw base 0x80 w)
        in do { (w, l_sect) \<leftarrow> erase_cmds hw info [nat s_first..<nat (s_last + 1)] (w, None);
                (done, w) \<leftarrow> (case l_sect of
                   None \<Rightarrow> Some (True, w)
                 | Some l \<Rightarrow> let (start, w) = hw_timer hw w in poll_d7 hw ERASE_TOUT (fi_start info l) 0x80 start w);
                Some (if done then (0, hw_write hw base 0xF0 w) else (1, w)) })"

subsection \<open>Identification\<close>

abbreviation (input) AMD_MANUFACT :: byte where "AMD_MANUFACT \<equiv> 0x01"
abbreviation (input) AMD_ID_F040B :: byte where "AMD_ID_F040B \<equiv> 0xA4"
abbreviation (input) AMD_ID_F016D :: byte where "AMD_ID_F016D \<equiv> 0xAD"
abbreviation (input) AMD_ID_F032B :: byte where "AMD_ID_F032B \<equiv> 0x41"

text \<open>Identifier, number of sectors and size of the three chips that are accepted.\<close>

definition amd_devices :: "byte \<Rightarrow> (u32 \<times> nat \<times> u32) option" where
  "amd_devices devid =
     (if devid = AMD_ID_F040B then Some (0xA4, 8, 0x00080000)
      else if devid = AMD_ID_F016D then Some (0xAD, 32, 0x00200000)
      else if devid = AMD_ID_F032B then Some (0x41, 64, 0x00400000)
      else None)"

primrec read_sectors :: "'w flash_hw \<Rightarrow> u32 \<Rightarrow> nat list \<Rightarrow> flash_info \<times> 'w \<Rightarrow> flash_info \<times> 'w" where
  "read_sectors hw base [] s = s"
| "read_sectors hw base (i # is) s =
     (let (info, w) = s;
          a = base + of_nat i * (fi_size info div of_nat (sector_count info));
          (b, w) = hw_read hw (a + 2) w
      in read_sectors hw base is (info\<lparr>fi_start := (fi_start info)(i := a), fi_protect := (fi_protect info)(i := b AND 1)\<rparr>, w))"

definition flash_get_size :: "'w flash_hw \<Rightarrow> u32 \<Rightarrow> flash_info \<Rightarrow> 'w \<Rightarrow> u32 \<times> flash_info \<times> 'w" where
  "flash_get_size hw base info w =
     (let w = command hw base 0x90 (hw_write hw base 0xF0 w);
          (vendor, w) = hw_read hw base w;
          (devid, w) = hw_read hw (base + 1) w
      in if vendor \<noteq> AMD_MANUFACT then (0, info\<lparr>flash_id := FLASH_UNKNOWN, sector_count := 0, fi_size := 0\<rparr>, w)
         else case amd_devices devid of
             None \<Rightarrow> (0, info\<lparr>flash_id := FLASH_UNKNOWN\<rparr>, w)
           | Some (typ, n, sz) \<Rightarrow>
               let (info, w) = read_sectors hw base [0..<n] (info\<lparr>flash_id := typ, sector_count := n, fi_size := sz\<rparr>, w)
               in (sz, info, hw_write hw (fi_start info 0) 0xF0 w))"

subsection \<open>Banks and protection\<close>

abbreviation (input) FLAG_PROTECT_SET :: byte where "FLAG_PROTECT_SET \<equiv> 1"
abbreviation (input) FLAG_PROTECT_CLEAR :: byte where "FLAG_PROTECT_CLEAR \<equiv> 2"

definition bank_last :: "flash_info \<Rightarrow> u32" where
  "bank_last info = fi_start info 0 + fi_size info - 1"

text \<open>The last address of a sector.\<close>

definition sector_last :: "flash_info \<Rightarrow> nat \<Rightarrow> u32 option" where
  "sector_last info i =
     (if Suc i = sector_count info then Some (bank_last info)
      else if Suc i < MAX_FLASH_SECT then Some (fi_start info (Suc i) - 1) else None)"

primrec protect_loop :: "byte \<Rightarrow> u32 \<Rightarrow> u32 \<Rightarrow> nat list \<Rightarrow> flash_info \<Rightarrow> flash_info option" where
  "protect_loop flag from to [] info = Some info"
| "protect_loop flag from to (i # is) info =
     do { lst \<leftarrow> sector_last info i;
          if MAX_FLASH_SECT \<le> i then None
          else protect_loop flag from to is
            (if from \<le> lst \<and> fi_start info i \<le> to then
               if flag AND FLAG_PROTECT_CLEAR \<noteq> 0 then info\<lparr>fi_protect := (fi_protect info)(i := 0)\<rparr>
               else if flag AND FLAG_PROTECT_SET \<noteq> 0 then info\<lparr>fi_protect := (fi_protect info)(i := 1)\<rparr>
               else info
             else info) }"

definition flash_protect :: "byte \<Rightarrow> u32 \<Rightarrow> u32 \<Rightarrow> flash_info \<Rightarrow> flash_info option" where
  "flash_protect flag from to info =
     (if sector_count info = 0 \<or> fi_size info = 0 \<or> to < from then Some info
      else if flash_id info = FLASH_UNKNOWN \<or> to < fi_start info 0 \<or> from > bank_last info then Some info
      else protect_loop flag from to [0..<sector_count info] info)"

primrec find_bank :: "nat \<Rightarrow> flash_info list \<Rightarrow> u32 \<Rightarrow> nat option" where
  "find_bank i [] addr = None"
| "find_bank i (info # banks) addr =
     (if flash_id info \<noteq> FLASH_UNKNOWN \<and> fi_start info 0 \<le> addr \<and> addr \<le> bank_last info then Some i
      else find_bank (Suc i) banks addr)"

definition addr2info :: "flash_info list \<Rightarrow> u32 \<Rightarrow> nat option" where
  "addr2info banks addr = find_bank 0 banks addr"

text \<open>Whether a protected sector of a bank is hit.\<close>

primrec hits_protected :: "flash_info \<Rightarrow> u32 \<Rightarrow> u32 \<Rightarrow> nat list \<Rightarrow> bool option" where
  "hits_protected info addr lst [] = Some False"
| "hits_protected info addr lst (i # is) =
     (if MAX_FLASH_SECT \<le> i then None
      else do {
        e_addr \<leftarrow> (if Suc i = sector_count info then Some (fi_start info 0 + fi_size info)
                   else if Suc i < MAX_FLASH_SECT then Some (fi_start info (Suc i)) else None);
        if fi_start info i \<le> lst \<and> addr < e_addr \<and> fi_protect info i \<noteq> 0 then Some True
        else hits_protected info addr lst is })"

primrec banks_protected :: "flash_info list \<Rightarrow> u32 \<Rightarrow> u32 \<Rightarrow> bool option" where
  "banks_protected [] addr lst = Some False"
| "banks_protected (info # banks) addr lst =
     do { hit \<leftarrow> hits_protected info addr lst [0..<sector_count info];
          if hit then Some True else banks_protected banks addr lst }"

primrec write_banks :: "'w flash_hw \<Rightarrow> flash_info list \<Rightarrow> byte list \<Rightarrow> u32 \<Rightarrow> 'w \<Rightarrow> (int \<times> 'w) option" where
  "write_banks hw [] src addr w = Some (ERR_OK, w)"
| "write_banks hw (info # banks) src addr w =
     (if src = [] then Some (ERR_OK, w)
      else
        let room = unat (fi_start info 0 + fi_size info - addr)
        in do { (rc, w) \<leftarrow> write_buff hw info (take room src) addr w;
                if rc \<noteq> 0 then Some (rc, w)
                else write_banks hw banks (drop room src) (addr + of_nat (length (take room src))) w })"

definition flash_write :: "'w flash_hw \<Rightarrow> flash_info list \<Rightarrow> byte list \<Rightarrow> u32 \<Rightarrow> 'w \<Rightarrow> (int \<times> 'w) option" where
  "flash_write hw banks src addr w =
     (let lst = addr + of_nat (length src) - 1
      in if src = [] then Some (ERR_OK, w)
         else case (addr2info banks addr, addr2info banks lst) of
           (Some i, Some j) \<Rightarrow>
             let range = drop i (take (Suc j) banks)
             in do { hit \<leftarrow> banks_protected range addr lst;
                     if hit then Some (ERR_PROTECTED, w) else write_banks hw range src addr w }
         | _ \<Rightarrow> Some (ERR_INVAL, w))"

text \<open>The banks at start-up. The sectors of the monitor are protected; its length is a parameter, which the linker
  determines.\<close>

abbreviation (input) FLASH_BASE0_PRELIM :: u32 where "FLASH_BASE0_PRELIM \<equiv> 0xFF800000"
abbreviation (input) FLASH_BASE1_PRELIM :: u32 where "FLASH_BASE1_PRELIM \<equiv> 0xFFC00000"
abbreviation (input) FLASH_BASE :: u32 where "FLASH_BASE \<equiv> 0xFFF00000"

definition flash_init :: "'w flash_hw \<Rightarrow> u32 \<Rightarrow> flash_info \<Rightarrow> flash_info \<Rightarrow> 'w \<Rightarrow> (u32 \<times> flash_info list \<times> 'w) option" where
  "flash_init hw monitor_flash_len info0 info1 w =
     (let (size1, info0, w) = flash_get_size hw FLASH_BASE0_PRELIM (info0\<lparr>flash_id := FLASH_UNKNOWN\<rparr>) w;
          (size2, info1, w) = flash_get_size hw FLASH_BASE1_PRELIM (info1\<lparr>flash_id := FLASH_UNKNOWN\<rparr>) w
      in do {
        info0 \<leftarrow> (if size1 = 512 * 1024
                  then flash_protect FLAG_PROTECT_SET FLASH_BASE0_PRELIM (FLASH_BASE0_PRELIM + monitor_flash_len - 1) info0
                  else Some info0);
        info1 \<leftarrow> (if size2 = 512 * 1024
                  then flash_protect FLAG_PROTECT_SET FLASH_BASE1_PRELIM (FLASH_BASE1_PRELIM + monitor_flash_len - 1) info1
                  else Some info1);
        info1 \<leftarrow> (if size2 = 4 * 1024 * 1024
                  then flash_protect FLAG_PROTECT_SET FLASH_BASE (FLASH_BASE + monitor_flash_len - 1) info1
                  else Some info1);
        Some (size1 + size2, [info0, info1], w) })"

end
