(* ===== verification/FlashCmd.thy ===== *)
theory FlashCmd
  imports Flash Image
begin

text \<open>
  The commands \<^verbatim>\<open>flinfo\<close>, \<^verbatim>\<open>erase\<close> and \<^verbatim>\<open>protect\<close> of \<^verbatim>\<open>common/cmd_flash.c\<close>: sector specifications, address ranges and their
  rounding, and the sectors of every bank that a range selects. The lookup of a partition by name, in the partition code, is
  a parameter.
\<close>

subsection \<open>Sector specifications\<close>

text \<open>The part before the first character \<open>c\<close> and the part behind it.\<close>

definition split_at :: "byte \<Rightarrow> cstr \<Rightarrow> (cstr \<times> cstr) option" where
  "split_at c s = (if c \<in> set s then Some (takeWhile (\<lambda>x. x \<noteq> c) s, tl (dropWhile (\<lambda>x. x \<noteq> c) s)) else None)"

text \<open>A decimal number that is the whole string, as an \<^verbatim>\<open>int\<close>.\<close>

definition whole_number :: "cstr \<Rightarrow> int option" where
  "whole_number s = (let (v, rest) = simple_strtoul s 10 in if rest = s \<or> rest \<noteq> [] then None else Some (sint v))"

datatype spec = No_spec | Bad_spec | Sectors nat int int

definition abbrev_spec :: "flash_info list \<Rightarrow> cstr \<Rightarrow> spec" where
  "abbrev_spec banks str =
     (case split_at (ch CHR '':'') str of
        None \<Rightarrow> No_spec
      | Some (b, rest) \<Rightarrow>
          (case whole_number b of
             None \<Rightarrow> Bad_spec
           | Some bank \<Rightarrow>
               if bank < 1 \<or> int (length banks) < bank then Bad_spec
               else
                 let info = banks ! nat (bank - 1);
                     (f, l) = (case split_at (ch CHR ''-'') rest of None \<Rightarrow> (rest, None) | Some (f, l) \<Rightarrow> (f, Some l))
                 in if flash_id info = FLASH_UNKNOWN then Bad_spec
                    else case whole_number f of
                      None \<Rightarrow> Bad_spec
                    | Some first \<Rightarrow>
                        if int (sector_count info) \<le> first then Bad_spec
                        else case l of
                          None \<Rightarrow> Sectors (nat (bank - 1)) first first
                        | Some l \<Rightarrow>
                            (case whole_number l of
                               None \<Rightarrow> Bad_spec
                             | Some lst \<Rightarrow>
                                 if lst < first \<or> int (sector_count info) \<le> lst then Bad_spec
                                 else Sectors (nat (bank - 1)) first lst)))"

subsection \<open>Address ranges\<close>

text \<open>The end of the sector in which an address lies.\<close>

primrec round_sector :: "flash_info \<Rightarrow> nat list \<Rightarrow> u32 \<Rightarrow> u32 option option" where
  "round_sector info [] addr = Some None"
| "round_sector info (i # is) addr =
     (if MAX_FLASH_SECT \<le> i then None
      else do { e \<leftarrow> sector_last info i;
                if addr \<le> e \<and> fi_start info i \<le> addr then Some (Some e) else round_sector info is addr })"

primrec flash_sect_roundb :: "flash_info list \<Rightarrow> u32 \<Rightarrow> u32 option option" where
  "flash_sect_roundb [] addr = Some None"
| "flash_sect_roundb (info # banks) addr =
     do { r \<leftarrow> round_sector info [0..<sector_count info] addr;
          case r of None \<Rightarrow> flash_sect_roundb banks addr | Some e \<Rightarrow> Some (Some e) }"

definition addr_spec :: "flash_info list \<Rightarrow> cstr \<Rightarrow> cstr \<Rightarrow> (u32 \<times> u32) option option" where
  "addr_spec banks arg1 arg2 =
     (let (first, rest) = simple_strtoul arg1 16
      in if rest = arg1 \<or> rest \<noteq> [] then Some None
         else
           let len_used = (peek arg2 = ch CHR ''+'');
               arg2 = (if len_used then tl arg2 else arg2);
               (lst, rest) = simple_strtoul arg2 16
           in if rest = arg2 \<or> rest \<noteq> [] then Some None
              else if len_used then map_option (map_option (Pair first)) (flash_sect_roundb banks (first + lst - 1))
              else Some (Some (first, lst)))"

text \<open>The first and the last sector of one bank that the range selects, -1 for none.\<close>

primrec fill_sectors :: "flash_info \<Rightarrow> u32 \<Rightarrow> u32 \<Rightarrow> nat list \<Rightarrow> int \<times> int \<Rightarrow> (int \<times> int) option" where
  "fill_sectors info first lst [] s = Some s"
| "fill_sectors info first lst (i # is) s =
     (if MAX_FLASH_SECT \<le> i then None
      else do { e \<leftarrow> sector_last info i;
                fill_sectors info first lst is
                  (if first > e \<or> lst < fi_start info i then s
                   else (if first = fi_start info i then int i else fst s, if lst = e then int i else snd s)) })"

text \<open>The result code, the sectors of every bank, and their number.\<close>

primrec fill_banks :: "flash_info list \<Rightarrow> u32 \<Rightarrow> u32 \<Rightarrow> (int \<times> (int \<times> int) list \<times> int) option" where
  "fill_banks [] first lst = Some (0, [], 0)"
| "fill_banks (info # banks) first lst =
     (let none = map (\<lambda>_. (-1, -1)) banks
      in if lst < first then Some (0, (-1, -1) # none, 0)
         else if flash_id info = FLASH_UNKNOWN then
           map_option (\<lambda>(rc, r, n). (rc, (-1, -1) # r, n)) (fill_banks banks first lst)
         else do {
           (sf, sl) \<leftarrow> fill_sectors info first lst [0..<sector_count info] (-1, -1);
           let s_end = int (sector_count info) - 1;
           if 0 \<le> sf then
             if sl < 0 \<and> \<not> lst > bank_last info then Some (1, (sf, sl) # none, 0)
             else
               let sl = (if sl < 0 then s_end else sl)
               in if sl < sf then Some (1, (sf, sl) # none, 0)
                  else do {
                    next \<leftarrow> (if sl = s_end then Some (bank_last info + 1)
                             else if Suc (nat sl) < MAX_FLASH_SECT then Some (fi_start info (Suc (nat sl))) else None);
                    map_option (\<lambda>(rc, r, n). (rc, (sf, sl) # r, n + (sl - sf + 1))) (fill_banks banks next lst) }
           else if fi_start info 0 \<le> first \<and> first < bank_last info then Some (1, (sf, sl) # none, 0)
           else if 0 \<le> sl then Some (1, (sf, sl) # none, 0)
           else map_option (\<lambda>(rc, r, n). (rc, (sf, sl) # r, n)) (fill_banks banks first lst) })"

definition flash_fill_sect_ranges :: "flash_info list \<Rightarrow> u32 \<Rightarrow> u32 \<Rightarrow> (int \<times> (int \<times> int) list \<times> int) option" where
  "flash_fill_sect_ranges banks first lst = fill_banks banks first lst"

subsection \<open>Erase\<close>

primrec erase_ranges :: "'w flash_hw \<Rightarrow> (flash_info \<times> int \<times> int) list \<Rightarrow> 'w \<Rightarrow> (int \<times> 'w) option" where
  "erase_ranges hw [] w = Some (0, w)"
| "erase_ranges hw (b # bs) w =
     (case b of (info, sf, sl) \<Rightarrow>
        if 0 \<le> sf then
          do { (rc, w) \<leftarrow> flash_erase hw info sf sl w;
               if rc = 0 then erase_ranges hw bs w else Some (rc, w) }
        else erase_ranges hw bs w)"

definition flash_sect_erase :: "'w flash_hw \<Rightarrow> flash_info list \<Rightarrow> u32 \<Rightarrow> u32 \<Rightarrow> 'w \<Rightarrow> (int \<times> 'w) option" where
  "flash_sect_erase hw banks first lst w =
     do { (rc, ranges, planned) \<leftarrow> flash_fill_sect_ranges banks first lst;
          if planned \<noteq> 0 \<and> rc = 0 then erase_ranges hw (zip banks ranges) w
          else Some (if rc = 0 then 1 else rc, w) }"

primrec erase_banks :: "'w flash_hw \<Rightarrow> flash_info list \<Rightarrow> int \<Rightarrow> 'w \<Rightarrow> (int \<times> 'w) option" where
  "erase_banks hw [] rc w = Some (rc, w)"
| "erase_banks hw (info # banks) rc w =
     do { (rc, w) \<leftarrow> flash_erase hw info 0 (int (sector_count info) - 1) w; erase_banks hw banks rc w }"

text \<open>What the partition code finds for a name: nothing, a partition that is not in NOR flash, or bank, offset and size.\<close>

datatype mtd = No_part | Not_nor | Nor nat u32 u32

definition do_flerase :: "'w flash_hw \<Rightarrow> (cstr \<Rightarrow> mtd) \<Rightarrow> flash_info list \<Rightarrow> cstr list \<Rightarrow> 'w \<Rightarrow> (int \<times> 'w) option" where
  "do_flerase hw mtdpart banks argv w =
     (if length argv < 2 then Some (1, w)
      else if argv ! 1 = cs ''all'' then erase_banks hw banks 0 w
      else case abbrev_spec banks (argv ! 1) of
        Bad_spec \<Rightarrow> Some (1, w)
      | Sectors b sf sl \<Rightarrow> flash_erase hw (banks ! b) sf sl w
      | No_spec \<Rightarrow>
          let part = (if length argv = 2 then mtdpart (argv ! 1) else No_part)
          in case part of
            Nor b offset sz \<Rightarrow>
              if length banks \<le> b then None
              else let first = offset + fi_start (banks ! b) 0 in flash_sect_erase hw banks first (first + sz - 1) w
          | Not_nor \<Rightarrow> Some (1, w)
          | No_part \<Rightarrow>
              if length argv \<noteq> 3 then Some (1, w)
              else if argv ! 1 = cs ''bank'' then
                let bank = fst (simple_strtoul (argv ! 2) 16)
                in if bank < 1 \<or> of_nat (length banks) < bank then Some (1, w)
                   else let info = banks ! (unat bank - 1) in flash_erase hw info 0 (int (sector_count info) - 1) w
              else do {
                r \<leftarrow> addr_spec banks (argv ! 1) (argv ! 2);
                case r of
                  None \<Rightarrow> Some (1, w)
                | Some (first, lst) \<Rightarrow> if lst \<le> first then Some (1, w) else flash_sect_erase hw banks first lst w })"

subsection \<open>Protect\<close>

text \<open>Setting the protection of a run of sectors; outside of the array it is a fault.\<close>

definition set_protect :: "byte \<Rightarrow> int \<Rightarrow> int \<Rightarrow> flash_info \<Rightarrow> flash_info option" where
  "set_protect p sf sl info =
     (if sl < sf then Some info
      else if sf < 0 \<or> int MAX_FLASH_SECT \<le> sl then None
      else Some (info\<lparr>fi_protect := \<lambda>i. if nat sf \<le> i \<and> i \<le> nat sl then p else fi_protect info i\<rparr>))"

primrec protect_ranges :: "byte \<Rightarrow> (flash_info \<times> int \<times> int) list \<Rightarrow> flash_info list option" where
  "protect_ranges p [] = Some []"
| "protect_ranges p (b # bs) =
     (case b of (info, sf, sl) \<Rightarrow>
        do { info \<leftarrow> (if flash_id info \<noteq> FLASH_UNKNOWN \<and> 0 \<le> sf \<and> sf \<le> sl then set_protect p sf sl info else Some info);
             bs \<leftarrow> protect_ranges p bs;
             Some (info # bs) })"

definition flash_sect_protect :: "byte \<Rightarrow> flash_info list \<Rightarrow> u32 \<Rightarrow> u32 \<Rightarrow> (int \<times> flash_info list) option" where
  "flash_sect_protect p banks first lst =
     do { (rc, ranges, planned) \<leftarrow> flash_fill_sect_ranges banks first lst;
          if planned \<noteq> 0 \<and> rc = 0 then map_option (Pair 0) (protect_ranges p (zip banks ranges))
          else Some (if rc = 0 then 1 else rc, banks) }"

definition protect_bank :: "byte \<Rightarrow> flash_info \<Rightarrow> flash_info option" where
  "protect_bank p info = set_protect p 0 (int (sector_count info) - 1) info"

primrec protect_all :: "byte \<Rightarrow> flash_info list \<Rightarrow> flash_info list option" where
  "protect_all p [] = Some []"
| "protect_all p (info # banks) =
     do { info \<leftarrow> (if flash_id info = FLASH_UNKNOWN then Some info else protect_bank p info);
          banks \<leftarrow> protect_all p banks;
          Some (info # banks) }"

definition do_protect :: "(cstr \<Rightarrow> mtd) \<Rightarrow> flash_info list \<Rightarrow> cstr list \<Rightarrow> (int \<times> flash_info list) option" where
  "do_protect mtdpart banks argv =
     (if length argv < 3 then Some (1, banks)
      else if argv ! 1 \<noteq> cs ''off'' \<and> argv ! 1 \<noteq> cs ''on'' then Some (1, banks)
      else
        let p = (if argv ! 1 = cs ''off'' then 0 else 1)
        in if argv ! 2 = cs ''all'' then map_option (Pair 0) (protect_all p banks)
           else case abbrev_spec banks (argv ! 2) of
             Bad_spec \<Rightarrow> Some (1, banks)
           | Sectors b sf sl \<Rightarrow> map_option (\<lambda>i. (0, banks[b := i])) (set_protect p sf sl (banks ! b))
           | No_spec \<Rightarrow>
               let part = (if length argv = 3 then mtdpart (argv ! 2) else No_part)
               in case part of
                 Nor b offset sz \<Rightarrow>
                   if length banks \<le> b then None
                   else let first = offset + fi_start (banks ! b) 0 in flash_sect_protect p banks first (first + sz - 1)
               | Not_nor \<Rightarrow> Some (1, banks)
               | No_part \<Rightarrow>
                   if length argv \<noteq> 4 then Some (1, banks)
                   else if argv ! 2 = cs ''bank'' then
                     let bank = fst (simple_strtoul (argv ! 3) 16)
                     in if bank < 1 \<or> of_nat (length banks) < bank then Some (1, banks)
                        else let info = banks ! (unat bank - 1)
                             in if flash_id info = FLASH_UNKNOWN then Some (1, banks)
                                else map_option (\<lambda>i. (0, banks[unat bank - 1 := i])) (protect_bank p info)
                   else do {
                     r \<leftarrow> addr_spec banks (argv ! 2) (argv ! 3);
                     case r of
                       None \<Rightarrow> Some (1, banks)
                     | Some (first, lst) \<Rightarrow>
                         if lst \<le> first then Some (1, banks) else flash_sect_protect p banks first lst })"

subsection \<open>Display\<close>

text \<open>Whether \<open>n\<close> words read as erased; the loop stops at the first that does not.\<close>

primrec words_erased :: "'w flash_hw \<Rightarrow> nat \<Rightarrow> u32 \<Rightarrow> 'w \<Rightarrow> bool \<times> 'w" where
  "words_erased hw 0 a w = (True, w)"
| "words_erased hw (Suc n) a w =
     (let (bs, w) = read_bytes hw a 4 w in if bs \<noteq> replicate 4 0xFF then (False, w) else words_erased hw n (a + 4) w)"

primrec print_sectors :: "'w flash_hw \<Rightarrow> flash_info \<Rightarrow> nat list \<Rightarrow> 'w \<Rightarrow> (byte list \<times> 'w) option" where
  "print_sectors hw info [] w = Some ([], w)"
| "print_sectors hw info (i # is) w =
     (if MAX_FLASH_SECT \<le> i then None
      else do {
        sz \<leftarrow> (if Suc i = sector_count info then Some (fi_start info 0 + fi_size info - fi_start info i)
               else if Suc i < MAX_FLASH_SECT then Some (fi_start info (Suc i) - fi_start info i) else None);
        let (erased, w) = words_erased hw (nat (sint sz div 4)) (fi_start info i) w;
        t \<leftarrow> printf '' %08lX%s%s''
               [VA_word (fi_start info i), VA_str (Some (cs (if erased then '' E'' else ''  ''))),
                VA_str (Some (cs (if fi_protect info i \<noteq> 0 then ''RO '' else ''   '')))];
        (u, w) \<leftarrow> print_sectors hw info is w;
        Some ((if i mod 5 = 0 then cs (newline @ ''   '') else []) @ t @ u, w) })"

definition print_type :: "flash_info \<Rightarrow> byte list" where
  "print_type info =
     cs (if flash_id info AND 0xFFFF0000 = 0 then ''AMD '' else ''Unknown Vendor '') @
     cs ((let t = flash_id info AND 0xFFFF
          in if t = 0xA4 then ''AM29F040B (4 Mbit)'' else if t = 0xAD then ''AM29F016D (16 Mbit)''
             else if t = 0x41 then ''AM29F032B (32 Mbit)'' else ''Unknown Chip Type'') @ newline)"

text \<open>A bank without a known chip is looked for again.\<close>

definition flash_print_info ::
  "'w flash_hw \<Rightarrow> u32 \<Rightarrow> flash_info list \<Rightarrow> nat \<Rightarrow> 'w \<Rightarrow> (byte list \<times> flash_info list \<times> 'w) option" where
  "flash_print_info hw monitor_flash_len banks b w =
     do { let missing = cs (''missing or unknown FLASH type'' @ newline);
          (t, banks, w) \<leftarrow> (if flash_id (banks ! b) = FLASH_UNKNOWN
             then map_option (\<lambda>(_, banks, w). (missing, banks, w)) (flash_init hw monitor_flash_len (banks ! 0) (banks ! 1) w)
             else Some ([], banks, w));
          let info = banks ! b;
          if flash_id info = FLASH_UNKNOWN then Some (t @ missing, banks, w)
          else do {
            u \<leftarrow> (if fi_size info \<ge> 0x100000
                  then printf (''  Size: %ld MB in %d Sectors'' @ newline) [VA_word (drop_bit 20 (fi_size info)), VA_word (of_nat (sector_count info))]
                  else printf (''  Size: %ld kB in %d Sectors'' @ newline) [VA_word (drop_bit 10 (fi_size info)), VA_word (of_nat (sector_count info))]);
            (v, w) \<leftarrow> print_sectors hw info [0..<sector_count info] w;
            Some (t @ print_type info @ u @ cs ''  Sector Start Addresses:'' @ v @ cs newline, banks, w) } }"

primrec print_banks ::
  "'w flash_hw \<Rightarrow> u32 \<Rightarrow> nat list \<Rightarrow> flash_info list \<times> 'w \<Rightarrow> (byte list \<times> flash_info list \<times> 'w) option" where
  "print_banks hw len [] s = Some ([], s)"
| "print_banks hw len (b # bs) s =
     do { t \<leftarrow> printf (newline @ ''Bank # %ld: '') [VA_word (of_nat (Suc b))];
          (u, s) \<leftarrow> flash_print_info hw len (fst s) b (snd s);
          (v, s) \<leftarrow> print_banks hw len bs s;
          Some (t @ u @ v, s) }"

definition do_flinfo ::
  "'w flash_hw \<Rightarrow> u32 \<Rightarrow> flash_info list \<Rightarrow> cstr list \<Rightarrow> 'w \<Rightarrow> (int \<times> byte list \<times> flash_info list \<times> 'w) option" where
  "do_flinfo hw len banks argv w =
     (if length argv = 1 then map_option (Pair 0) (print_banks hw len [0..<length banks] (banks, w))
      else
        let bank = fst (simple_strtoul (argv ! 1) 16)
        in if bank < 1 \<or> of_nat (length banks) < bank
           then map_option (\<lambda>t. (1, t, banks, w))
                  (printf (''Only FLASH Banks # 1 ... # %d supported'' @ newline) [VA_word (of_nat (length banks))])
           else map_option (Pair 0) (print_banks hw len [unat bank - 1] (banks, w)))"

end
