(* ===== verification/FlashProps.thy ===== *)
theory FlashProps
  imports Flash
begin

text \<open>
  The flash driver on a chip with the command set of the AMD 29F family: programming, erasing, and the layers above.
\<close>

subsection \<open>The chip\<close>

text \<open>The chip executes a command after the unlock cycles. Programming can only clear bits, and never ends if it would have to
  set one; while a command is executed a read shows the complement of bit 7, for a number of reads that the chip chooses
  (\<open>pt\<close> for programming, \<open>et\<close> for erasing). Sectors have 64 KB. The clock advances with every look at the timer.\<close>

datatype amd_mode = Array | Unlocked1 | Unlocked2 | Program | Programming byte nat | Stuck byte | Autoselect
  | EraseSetup | EraseUnlocked1 | EraseUnlocked2 | Erasing nat

record amd =
  am_cells :: mem
  am_mode :: amd_mode
  am_clock :: u32

definition same_sector :: "u32 \<Rightarrow> u32 \<Rightarrow> bool" where
  "same_sector a b \<longleftrightarrow> drop_bit 16 a = drop_bit 16 b"

definition erase_sector :: "u32 \<Rightarrow> mem \<Rightarrow> mem" where
  "erase_sector a m = (\<lambda>x. if same_sector x a then 0xFF else m x)"

definition amd_write :: "u32 \<Rightarrow> (u32 \<Rightarrow> nat) \<Rightarrow> nat \<Rightarrow> u32 \<Rightarrow> byte \<Rightarrow> amd \<Rightarrow> amd" where
  "amd_write base pt et a v c =
     (case am_mode c of
        Array \<Rightarrow> if a = base + 0x555 \<and> v = 0xAA then c\<lparr>am_mode := Unlocked1\<rparr> else c
      | Unlocked1 \<Rightarrow> c\<lparr>am_mode := if a = base + 0x2AA \<and> v = 0x55 then Unlocked2 else Array\<rparr>
      | Unlocked2 \<Rightarrow> c\<lparr>am_mode := if a \<noteq> base + 0x555 then Array else if v = 0xA0 then Program
                       else if v = 0x90 then Autoselect else if v = 0x80 then EraseSetup else Array\<rparr>
      | Program \<Rightarrow> c\<lparr>am_cells := (am_cells c)(a := am_cells c a AND v),
                     am_mode := if am_cells c a AND v = v then Programming v (pt a) else Stuck v\<rparr>
      | EraseSetup \<Rightarrow> c\<lparr>am_mode := if a = base + 0x555 \<and> v = 0xAA then EraseUnlocked1 else Array\<rparr>
      | EraseUnlocked1 \<Rightarrow> c\<lparr>am_mode := if a = base + 0x2AA \<and> v = 0x55 then EraseUnlocked2 else Array\<rparr>
      | EraseUnlocked2 \<Rightarrow> if v = 0x30 then c\<lparr>am_cells := erase_sector a (am_cells c), am_mode := Erasing et\<rparr>
                          else c\<lparr>am_mode := Array\<rparr>
      | Erasing n \<Rightarrow> if v = 0x30 then c\<lparr>am_cells := erase_sector a (am_cells c)\<rparr> else c
      | Programming d n \<Rightarrow> c
      | _ \<Rightarrow> if v = 0xF0 then c\<lparr>am_mode := Array\<rparr> else c)"

definition amd_read :: "u32 \<Rightarrow> byte \<Rightarrow> (u32 \<Rightarrow> byte) \<Rightarrow> u32 \<Rightarrow> amd \<Rightarrow> byte \<times> amd" where
  "amd_read base dev prot a c =
     (case am_mode c of
        Programming d 0 \<Rightarrow> (am_cells c a, c\<lparr>am_mode := Array\<rparr>)
      | Programming d (Suc n) \<Rightarrow> (NOT d, c\<lparr>am_mode := Programming d n\<rparr>)
      | Stuck d \<Rightarrow> (NOT d, c)
      | Erasing 0 \<Rightarrow> (am_cells c a, c\<lparr>am_mode := Array\<rparr>)
      | Erasing (Suc n) \<Rightarrow> (0, c\<lparr>am_mode := Erasing n\<rparr>)
      | Autoselect \<Rightarrow> (if a = base then 1 else if a = base + 1 then dev else prot a, c)
      | _ \<Rightarrow> (am_cells c a, c))"

record amd_type =
  ch_base :: u32
  ch_dev :: byte
  ch_prot :: "u32 \<Rightarrow> byte"
  ch_pt :: "u32 \<Rightarrow> nat"
  ch_et :: nat

definition amd_hw :: "amd_type \<Rightarrow> amd flash_hw" where
  "amd_hw t =
     \<lparr>hw_read = amd_read (ch_base t) (ch_dev t) (ch_prot t), hw_write = amd_write (ch_base t) (ch_pt t) (ch_et t),
      hw_timer = \<lambda>c. (am_clock c, c\<lparr>am_clock := am_clock c + 1\<rparr>)\<rparr>"

definition fast_enough :: "amd_type \<Rightarrow> bool" where
  "fast_enough t \<longleftrightarrow> (\<forall>a. ch_pt t a < 500) \<and> ch_et t < 120000"

lemmas chip_defs = amd_hw_def amd_read_def amd_write_def

lemma idle_read: "am_mode c = Array \<Longrightarrow> hw_read (amd_hw t) a c = (am_cells c a, c)"
  by (simp add: chip_defs)

lemma command_modes:
  "am_mode c = Array \<Longrightarrow> command (amd_hw t) (ch_base t) 0xA0 c = c\<lparr>am_mode := Program\<rparr>"
  "am_mode c = Array \<Longrightarrow> command (amd_hw t) (ch_base t) 0x90 c = c\<lparr>am_mode := Autoselect\<rparr>"
  "am_mode c = Array \<Longrightarrow> unlock (amd_hw t) (ch_base t) (command (amd_hw t) (ch_base t) 0x80 c) = c\<lparr>am_mode := EraseUnlocked2\<rparr>"
  by (simp_all add: command_def unlock_def chip_defs)

text \<open>Waiting ends after as many looks as the chip is busy, unless the time is over.\<close>

lemma not_d7: "NOT d AND 0x80 \<noteq> d AND (0x80 :: byte)"
proof
  assume "NOT d AND 0x80 = d AND 0x80"
  then have "bit (NOT d AND 0x80) 7 = bit (d AND 0x80) 7" by simp
  moreover have "bit (0x80 :: byte) 7" by code_simp
  ultimately show False by (simp add: bit_and_iff bit_not_iff)
qed

lemma clock_step:
  fixes k s :: u32
  assumes "unat (k - s) + Suc n \<le> m" "m < 2 ^ 32"
  shows "unat (k + 1 - s) + n \<le> m"
proof -
  have e: "k + 1 - s = (k - s) + 1" by simp
  have "unat ((k - s) + 1) \<le> unat (k - s) + 1" by (simp add: unat_word_ariths)
  then show ?thesis unfolding e using assms by linarith
qed

lemma poll_programming:
  assumes "am_mode c = Programming d n" "am_cells c a = d" "unat (am_clock c - start) + n \<le> 500"
  shows "\<exists>k. poll_d7 (amd_hw t) 500 a d start c = Some (True, c\<lparr>am_mode := Array, am_clock := k\<rparr>)"
  using assms
proof (induction n arbitrary: c)
  case 0
  then show ?case by (subst poll_d7.simps) (simp add: chip_defs, rule exI [of _ "am_clock c"], simp)
next
  case (Suc n)
  let ?c = "c\<lparr>am_mode := Programming d n, am_clock := am_clock c + 1\<rparr>"
  have "\<not> am_clock c - start > 500" using Suc.prems(3) by (simp add: word_less_nat_alt)
  then have "poll_d7 (amd_hw t) 500 a d start c = poll_d7 (amd_hw t) 500 a d start ?c"
    using Suc.prems not_d7 [of d] by (subst poll_d7.simps) (simp add: chip_defs)
  moreover have "\<exists>k. poll_d7 (amd_hw t) 500 a d start ?c = Some (True, ?c\<lparr>am_mode := Array, am_clock := k\<rparr>)"
    by (rule Suc.IH) (use Suc.prems clock_step [of "am_clock c" start n 500] in simp_all)
  ultimately show ?case by simp
qed

lemma poll_erasing:
  assumes "am_mode c = Erasing n" "am_cells c a = 0xFF" "unat (am_clock c - start) + n \<le> 120000"
  shows "\<exists>k. poll_d7 (amd_hw t) 120000 a 0x80 start c = Some (True, c\<lparr>am_mode := Array, am_clock := k\<rparr>)"
  using assms
proof (induction n arbitrary: c)
  case 0
  then show ?case by (subst poll_d7.simps) (simp add: chip_defs, rule exI [of _ "am_clock c"], simp)
next
  case (Suc n)
  let ?c = "c\<lparr>am_mode := Erasing n, am_clock := am_clock c + 1\<rparr>"
  have "\<not> am_clock c - start > 120000" using Suc.prems(3) by (simp add: word_less_nat_alt)
  then have "poll_d7 (amd_hw t) 120000 a 0x80 start c = poll_d7 (amd_hw t) 120000 a 0x80 start ?c"
    using Suc.prems by (subst poll_d7.simps) (simp add: chip_defs)
  moreover have "\<exists>k. poll_d7 (amd_hw t) 120000 a 0x80 start ?c = Some (True, ?c\<lparr>am_mode := Array, am_clock := k\<rparr>)"
    by (rule Suc.IH) (use Suc.prems clock_step [of "am_clock c" start n 120000] in simp_all)
  ultimately show ?case by simp
qed

subsection \<open>Programming\<close>

lemma program_bytes_ok:
  assumes "am_mode c = Array" "fast_enough t" "length ds \<le> 4" "\<forall>i < length ds. am_cells c (a + of_nat i) AND ds ! i = ds ! i"
  shows "\<exists>k. program_bytes (amd_hw t) (ch_base t) a ds c = Some (0, c\<lparr>am_cells := mem_write a ds (am_cells c), am_clock := k\<rparr>)"
  using assms
proof (induction ds arbitrary: a c)
  case Nil
  then show ?case by (simp, intro exI [of _ "am_clock c"]) simp
next
  case (Cons d ds)
  have d: "am_cells c a AND d = d" using Cons.prems(4) [rule_format, of 0] by simp
  let ?c1 = "c\<lparr>am_mode := Programming d (ch_pt t a), am_cells := (am_cells c)(a := d), am_clock := am_clock c + 1\<rparr>"
  have "ch_pt t a < 500" using Cons.prems(2) by (simp add: fast_enough_def)
  then obtain k where "poll_d7 (amd_hw t) 500 a d (am_clock c) ?c1 = Some (True, ?c1\<lparr>am_mode := Array, am_clock := k\<rparr>)"
    using poll_programming [of ?c1 d "ch_pt t a" a "am_clock c" t] by auto
  then have p: "poll_d7 (amd_hw t) 500 a d (am_clock c) ?c1 =
      Some (True, c\<lparr>am_cells := (am_cells c)(a := d), am_clock := k\<rparr>)" using Cons.prems(1) by (cases c) simp
  let ?c2 = "c\<lparr>am_cells := (am_cells c)(a := d), am_clock := k\<rparr>"
  have "am_cells ?c2 (a + 1 + of_nat i) AND ds ! i = ds ! i" if "i < length ds" for i
  proof -
    have "a + of_nat (Suc i) \<noteq> a" using of_nat_u32_inj [of "Suc i" 0] that Cons.prems(3) by simp
    then show ?thesis using Cons.prems(4) [rule_format, of "Suc i"] that by (simp add: add.assoc)
  qed
  then have "\<exists>k. program_bytes (amd_hw t) (ch_base t) (a + 1) ds ?c2 =
      Some (0, ?c2\<lparr>am_cells := mem_write (a + 1) ds (am_cells ?c2), am_clock := k\<rparr>)"
    using Cons.prems by (intro Cons.IH) simp_all
  moreover have "hw_write (amd_hw t) a d (command (amd_hw t) (ch_base t) 0xA0 c) =
      c\<lparr>am_mode := Programming d (ch_pt t a), am_cells := (am_cells c)(a := d)\<rparr>"
    using Cons.prems(1) d by (simp add: command_modes) (simp add: chip_defs)
  ultimately show ?case using p by (auto simp: amd_hw_def)
qed

lemma shift_in_word: "be32_bytes (shift_in [a, b, c, d]) = [a, b, c, d]" "ucast (shift_in [a, b, c, d]) = d"
proof -
  have s: "shift_in [a, b, c, d] = be32_val a b c d"
    by (rule bit_word_eqI) (auto simp: shift_in_def be32_val_def bit_simps)
  show "be32_bytes (shift_in [a, b, c, d]) = [a, b, c, d]" unfolding s by (simp add: be32_bytes_val)
  show "ucast (shift_in [a, b, c, d]) = d"
    unfolding s by (rule bit_word_eqI) (auto simp: be32_val_def bit_simps)
qed

lemma write_word_ok:
  assumes "am_mode w = Array" "fast_enough t" "fi_start info 0 = ch_base t" "am_cells w dest AND d = d"
    "\<forall>i < 4. am_cells w (dest + of_nat i) AND [a, b, c, d] ! i = [a, b, c, d] ! i"
  shows "\<exists>k. write_word (amd_hw t) info dest (shift_in [a, b, c, d]) w =
    Some (0, w\<lparr>am_cells := mem_write dest [a, b, c, d] (am_cells w), am_clock := k\<rparr>)"
  using program_bytes_ok [OF assms(1,2), of "[a, b, c, d]" dest] assms
  by (simp add: write_word_def shift_in_word idle_read)

lemma read_bytes_idle: "am_mode w = Array \<Longrightarrow> read_bytes (amd_hw t) a n w = (mem_read a n (am_cells w), w)"
proof (induction n arbitrary: a)
  case (Suc n)
  have "mem_read a (Suc n) (am_cells w) = am_cells w a # mem_read (a + 1) n (am_cells w)"
    using mem_read_append [of a 1 n "am_cells w"] by (simp add: mem_read_def)
  then show ?case using Suc by (simp add: idle_read)
qed simp

lemma mem_write_self: "mem_write a (mem_read a n m) m = m"
proof (induction n)
  case (Suc n)
  have "mem_write a (mem_read a (Suc n) m) m = mem_write (a + of_nat n) [m (a + of_nat n)] (mem_write a (mem_read a n m) m)"
    by (simp add: mem_read_Suc mem_write_append)
  then show ?case using Suc by simp
qed simp

lemma erased_and [simp]: "(0xFF :: byte) AND x = x"
proof -
  have m: "(0xFF :: byte) = mask 8" by (simp add: mask_eq_exp_minus_1)
  show ?thesis unfolding m by (intro bit_word_eqI) (auto simp: bit_simps)
qed

text \<open>An erased block is programmed word by word; the bytes behind the last word are programmed with their own values.\<close>

lemma length_4E: "length xs = 4 \<Longrightarrow> \<exists>a b c d. xs = [a, b, c, d]"
  by (auto simp: length_Suc_conv numeral_eq_Suc)

lemma write_tail:
  assumes "am_mode w = Array" "fast_enough t" "fi_start info 0 = ch_base t" "0 < length src" "length src < 4"
    "\<forall>i < length src. am_cells w (wp + of_nat i) = 0xFF"
  shows "\<exists>k. write_words (amd_hw t) info src wp w = Some (0, w\<lparr>am_cells := mem_write wp src (am_cells w), am_clock := k\<rparr>)"
proof -
  let ?old = "mem_read (wp + of_nat (length src)) (4 - length src) (am_cells w)"
  have u: "write_words (amd_hw t) info src wp w = write_word (amd_hw t) info wp (shift_in (src @ ?old)) w"
    using assms(4,5) read_bytes_idle [OF assms(1)]
    by (cases "(amd_hw t, info, src, wp, w)" rule: write_words.cases) (auto simp: Let_def simp del: read_bytes.simps)
  obtain a b c d where bs: "src @ ?old = [a, b, c, d]"
    using length_4E [of "src @ ?old"] assms(5) by auto
  have w: "am_cells w (wp + of_nat i) AND (src @ ?old) ! i = (src @ ?old) ! i" if "i < 4" for i
    using that assms(6) by (cases "i < length src") (simp_all add: nth_append nth_mem_read add.assoc flip: of_nat_add)
  have "am_cells w wp = 0xFF" using assms(4,6) by force
  then have "\<exists>k. write_word (amd_hw t) info wp (shift_in [a, b, c, d]) w =
      Some (0, w\<lparr>am_cells := mem_write wp [a, b, c, d] (am_cells w), am_clock := k\<rparr>)"
    using w unfolding bs by (intro write_word_ok [OF assms(1-3)]) simp_all
  moreover have "mem_write wp [a, b, c, d] (am_cells w) = mem_write wp src (am_cells w)"
  proof -
    have "mem_read (wp + of_nat (length src)) (4 - length src) (mem_write wp src (am_cells w)) = ?old"
      using mem_read_write_disjoint [of src 0 "4 - length src" wp "am_cells w"] assms(5) by simp
    then have "mem_write (wp + of_nat (length src)) ?old (mem_write wp src (am_cells w)) = mem_write wp src (am_cells w)"
      by (metis mem_write_self)
    then show ?thesis unfolding bs [symmetric] by (simp add: mem_write_append)
  qed
  ultimately show ?thesis unfolding u bs by simp
qed

lemma write_words_ok:
  assumes "am_mode w = Array" "fast_enough t" "fi_start info 0 = ch_base t" "length src < 2 ^ 31"
    "\<forall>i < length src. am_cells w (wp + of_nat i) = 0xFF"
  shows "\<exists>k. write_words (amd_hw t) info src wp w = Some (0, w\<lparr>am_cells := mem_write wp src (am_cells w), am_clock := k\<rparr>)"
  using assms
proof (induction "amd_hw t" info src wp w rule: write_words.induct)
  case (1 info a b c d src wp w)
  let ?ds = "[a, b, c, d]"
  have e: "am_cells w (wp + of_nat i) = 0xFF" if "i < 4 + length src" for i using 1(6) that by simp
  have "am_cells w wp AND d = d" using e [of 0] by simp
  moreover have "\<forall>i < 4. am_cells w (wp + of_nat i) AND ?ds ! i = ?ds ! i" using e by simp
  ultimately obtain k where k: "write_word (amd_hw t) info wp (shift_in ?ds) w =
      Some (0, w\<lparr>am_cells := mem_write wp ?ds (am_cells w), am_clock := k\<rparr>)"
    using write_word_ok [OF 1(2-4)] by blast
  let ?w = "w\<lparr>am_cells := mem_write wp ?ds (am_cells w), am_clock := k\<rparr>"
  have "mem_write wp ?ds (am_cells w) (wp + 4 + of_nat i) = 0xFF" if "i < length src" for i
  proof -
    have "wp + 4 + of_nat i \<noteq> wp + of_nat j" if "j < 4" for j
      using of_nat_u32_inj [of "4 + i" j] that \<open>i < length src\<close> 1(5) by (simp add: add.assoc)
    then have "mem_write wp ?ds (am_cells w) (wp + 4 + of_nat i) = am_cells w (wp + 4 + of_nat i)"
      by (intro mem_write_other) simp
    then show ?thesis using e [of "4 + i"] that by (simp add: add.assoc)
  qed
  then have "\<exists>k. write_words (amd_hw t) info src (wp + 4) ?w =
      Some (0, ?w\<lparr>am_cells := mem_write (wp + 4) src (am_cells ?w), am_clock := k\<rparr>)"
    by (intro 1(1) [OF k refl]) (use 1(2-5) in simp_all)
  moreover have "mem_write wp (a # b # c # d # src) m = mem_write (wp + 4) src (mem_write wp ?ds m)" for m
    using mem_write_append [of wp ?ds src m] by simp
  ultimately show ?case using k by (auto simp del: mem_write.simps)
next
  case (2 info wp w)
  then show ?case by (simp, intro exI [of _ "am_clock w"]) simp
qed (rule write_tail; simp)+

lemma and_not_disjoint: "a AND m = 0 \<Longrightarrow> a AND NOT m = (a :: u32)"
proof (rule bit_word_eqI)
  fix n assume "n < LENGTH(32)" "a AND m = 0"
  then have "\<not> bit (a AND m) n" by simp
  then show "bit (a AND NOT m) n = bit a n" using \<open>n < LENGTH(32)\<close> by (auto simp: bit_and_iff bit_not_iff)
qed

lemma write_buff_ok:
  assumes "am_mode w = Array" "fast_enough t" "fi_start info 0 = ch_base t" "length src < 2 ^ 31" "addr AND 3 = 0"
    "\<forall>i < length src. am_cells w (addr + of_nat i) = 0xFF"
  shows "\<exists>k. write_buff (amd_hw t) info src addr w = Some (0, w\<lparr>am_cells := mem_write addr src (am_cells w), am_clock := k\<rparr>)"
proof -
  have "addr AND NOT 3 = addr" by (rule and_not_disjoint [OF assms(5)])
  then show ?thesis using write_words_ok [OF assms(1-4,6)] by (simp add: write_buff_def)
qed

subsection \<open>Erasing\<close>

definition unprotected :: "flash_info \<Rightarrow> nat list \<Rightarrow> nat list" where
  "unprotected info sects = filter (\<lambda>s. fi_protect info s = 0) sects"

definition erase_sectors :: "flash_info \<Rightarrow> nat list \<Rightarrow> mem \<Rightarrow> mem" where
  "erase_sectors info sects m = fold (\<lambda>s. erase_sector (fi_start info s)) sects m"

lemma erase_sectors_at:
  "erase_sectors info sects m x = (if \<exists>s \<in> set sects. same_sector x (fi_start info s) then 0xFF else m x)"
  unfolding erase_sectors_def by (induction sects arbitrary: m) (auto simp: erase_sector_def)

lemma erase_cmds_erasing:
  assumes "flash_id info AND FLASH_MAN_SST = 0" "\<forall>s \<in> set sects. s < MAX_FLASH_SECT" "am_mode c = Erasing n"
  shows "erase_cmds (amd_hw t) info sects (c, l) =
    Some (c\<lparr>am_cells := erase_sectors info (unprotected info sects) (am_cells c)\<rparr>,
      if unprotected info sects = [] then l else Some (last (unprotected info sects)))"
  using assms
proof (induction sects arbitrary: c l)
  case (Cons s sects)
  have "hw_write (amd_hw t) (fi_start info s) 0x30 c = c\<lparr>am_cells := erase_sector (fi_start info s) (am_cells c)\<rparr>"
    using Cons.prems(3) by (simp add: chip_defs)
  then show ?case using Cons by (auto simp: unprotected_def erase_sectors_def Let_def)
qed (simp add: unprotected_def erase_sectors_def)

lemma erase_cmds_start:
  assumes "flash_id info AND FLASH_MAN_SST = 0" "\<forall>s \<in> set sects. s < MAX_FLASH_SECT" "am_mode c = EraseUnlocked2"
  shows "erase_cmds (amd_hw t) info sects (c, None) =
    Some (if unprotected info sects = [] then (c, None)
      else (c\<lparr>am_cells := erase_sectors info (unprotected info sects) (am_cells c), am_mode := Erasing (ch_et t)\<rparr>,
        Some (last (unprotected info sects))))"
  using assms
proof (induction sects)
  case (Cons s sects)
  let ?c = "c\<lparr>am_cells := erase_sector (fi_start info s) (am_cells c), am_mode := Erasing (ch_et t)\<rparr>"
  have "hw_write (amd_hw t) (fi_start info s) 0x30 c = ?c" using Cons.prems(3) by (simp add: chip_defs)
  moreover have "erase_cmds (amd_hw t) info sects (?c, Some s) =
    Some (?c\<lparr>am_cells := erase_sectors info (unprotected info sects) (am_cells ?c)\<rparr>,
      if unprotected info sects = [] then Some s else Some (last (unprotected info sects)))"
    by (rule erase_cmds_erasing) (use Cons.prems in simp_all)
  ultimately show ?case using Cons by (auto simp: unprotected_def erase_sectors_def Let_def)
qed (simp add: unprotected_def)

definition amd_chip :: "flash_info \<Rightarrow> bool" where
  "amd_chip info \<longleftrightarrow> flash_id info \<in> {0xA4, 0xAD, 0x41}"

lemma flash_erase_ok:
  assumes "am_mode c = Array" "fast_enough t" "fi_start info 0 = ch_base t" "amd_chip info"
    "0 \<le> first" "first \<le> lst" "lst < 67"
  shows "\<exists>k. flash_erase (amd_hw t) info first lst c =
    Some (0, c\<lparr>am_cells := erase_sectors info (unprotected info [nat first..<nat (lst + 1)]) (am_cells c), am_clock := k\<rparr>)"
proof -
  let ?sects = "[nat first..<nat (lst + 1)]" and ?b = "ch_base t" and ?hw = "amd_hw t"
  let ?u = "unprotected info ?sects" and ?c = "c\<lparr>am_mode := EraseUnlocked2\<rparr>"
  let ?m = "erase_sectors info ?u (am_cells c)"
  have id: "flash_id info AND FLASH_MAN_SST = 0" "flash_id info \<noteq> FLASH_UNKNOWN" "\<not> FLASH_AMD_COMP < flash_id info"
    using assms(4) by (auto simp: amd_chip_def)
  have "nat (lst + 1) \<le> 67" using assms(7) by simp
  then have b: "\<forall>s \<in> set ?sects. s < 67" by auto
  have start: "unlock ?hw ?b (command ?hw ?b 0x80 c) = ?c" using assms(1) by (rule command_modes(3))
  have cmds: "erase_cmds ?hw info ?sects (?c, None) =
    Some (if ?u = [] then (?c, None) else (?c\<lparr>am_cells := ?m, am_mode := Erasing (ch_et t)\<rparr>, Some (last ?u)))"
    using erase_cmds_start [OF id(1) b, of ?c t] by auto
  show ?thesis
  proof (cases "?u = []")
    case True
    have "hw_write ?hw ?b 0xF0 ?c = c" using assms(1) by (cases c) (simp add: chip_defs)
    then have "flash_erase ?hw info first lst c = Some (0, c)"
      using assms(3,5,6) id cmds True by (simp add: flash_erase_def start Let_def)
    then show ?thesis using True by (intro exI [of _ "am_clock c"]) (simp add: erase_sectors_def)
  next
    case False
    let ?e = "?c\<lparr>am_cells := ?m, am_mode := Erasing (ch_et t)\<rparr>"
    let ?f = "?e\<lparr>am_clock := am_clock c + 1\<rparr>"
    have "same_sector (fi_start info (last ?u)) (fi_start info (last ?u))" by (simp add: same_sector_def)
    then have "am_cells ?f (fi_start info (last ?u)) = 0xFF" using False last_in_set [OF False] by (auto simp: erase_sectors_at)
    moreover have "ch_et t < 120000" using assms(2) by (simp add: fast_enough_def)
    ultimately obtain k where "poll_d7 ?hw 120000 (fi_start info (last ?u)) 0x80 (am_clock c) ?f = Some (True, ?f\<lparr>am_mode := Array, am_clock := k\<rparr>)"
      using poll_erasing [of ?f "ch_et t" "fi_start info (last ?u)" "am_clock c" t] by auto
    moreover have "hw_timer ?hw ?e = (am_clock c, ?f)" by (simp add: amd_hw_def)
    moreover have "hw_write ?hw ?b 0xF0 (?f\<lparr>am_mode := Array, am_clock := k\<rparr>) = c\<lparr>am_cells := ?m, am_clock := k\<rparr>" for k
      using assms(1) by (cases c) (simp add: chip_defs)
    ultimately have "flash_erase ?hw info first lst c = Some (0, c\<lparr>am_cells := ?m, am_clock := k\<rparr>)"
      using assms(3,5,6) id cmds False by (simp add: flash_erase_def start Let_def)
    then show ?thesis ..
  qed
qed

subsection \<open>Banks\<close>

text \<open>A bank of 64 KB sectors, one behind the other.\<close>

definition bank_ok :: "amd_type \<Rightarrow> flash_info \<Rightarrow> bool" where
  "bank_ok t info \<longleftrightarrow> amd_chip info \<and> 0 < sector_count info \<and> sector_count info \<le> 67 \<and>
     unat (ch_base t) + 0x10000 * sector_count info \<le> 2 ^ 32 \<and> ch_base t AND 0xFFFF = 0 \<and>
     (\<forall>i < sector_count info. fi_start info i = ch_base t + 0x10000 * of_nat i) \<and>
     fi_size info = 0x10000 * of_nat (sector_count info)"

definition touches :: "flash_info \<Rightarrow> nat \<Rightarrow> u32 \<Rightarrow> nat \<Rightarrow> bool" where
  "touches info i addr n \<longleftrightarrow> unat (fi_start info i) < unat addr + n \<and> unat addr < unat (fi_start info i) + 0x10000"

definition inside :: "amd_type \<Rightarrow> flash_info \<Rightarrow> u32 \<Rightarrow> nat \<Rightarrow> bool" where
  "inside t info addr n \<longleftrightarrow> unat (ch_base t) \<le> unat addr \<and> unat addr + n \<le> unat (ch_base t) + 0x10000 * sector_count info"

lemma sector_start:
  assumes "bank_ok t info" "i < sector_count info"
  shows "unat (fi_start info i) = unat (ch_base t) + 0x10000 * i"
proof -
  have i: "unat (ch_base t) + 0x10000 * i < 2 ^ 32" "i \<le> 67" using assms by (auto simp: bank_ok_def)
  have "fi_start info i = ch_base t + of_nat (0x10000 * i)" using assms by (simp add: bank_ok_def)
  moreover have "unat (of_nat (0x10000 * i) :: u32) = 0x10000 * i" using i(2) by (intro unat_of_nat_u32) simp
  ultimately show ?thesis using i(1) by (simp add: unat_word_ariths)
qed

definition sector_stop :: "flash_info \<Rightarrow> nat \<Rightarrow> u32" where
  "sector_stop info i = (if Suc i = sector_count info then fi_start info 0 + fi_size info else fi_start info (Suc i))"

lemma hits_protected_value:
  assumes "\<forall>i \<in> set is. i < 67 \<and> (Suc i < 67 \<or> Suc i = sector_count info)"
  shows "hits_protected info addr lst is =
    Some (\<exists>i \<in> set is. fi_start info i \<le> lst \<and> addr < sector_stop info i \<and> fi_protect info i \<noteq> 0)"
  using assms by (induction "is") (auto simp: sector_stop_def)

lemma sector_stop_nat:
  assumes "bank_ok t info" "i < sector_count info"
  shows "unat (sector_stop info i) =
    (if Suc i = sector_count info \<and> unat (ch_base t) + 0x10000 * sector_count info = 2 ^ 32 then 0
     else unat (ch_base t) + 0x10000 * Suc i)"
proof (cases "Suc i = sector_count info")
  case True
  have c: "sector_count info \<le> 67" "unat (ch_base t) + 0x10000 * sector_count info \<le> 2 ^ 32" using assms by (auto simp: bank_ok_def)
  have "fi_start info 0 = ch_base t" using assms by (auto simp: bank_ok_def)
  then have "sector_stop info i = ch_base t + of_nat (0x10000 * sector_count info)"
    using assms True by (simp add: sector_stop_def bank_ok_def)
  moreover have "unat (of_nat (0x10000 * sector_count info) :: u32) = 0x10000 * sector_count info"
    using c(1) by (intro unat_of_nat_u32) simp
  ultimately have "unat (sector_stop info i) = (unat (ch_base t) + 0x10000 * sector_count info) mod 2 ^ 32"
    by (simp add: unat_word_ariths)
  then show ?thesis using c(2) True by (cases "unat (ch_base t) + 0x10000 * sector_count info = 2 ^ 32") simp_all
next
  case False
  then show ?thesis using assms sector_start [OF assms(1), of "Suc i"] by (simp add: sector_stop_def)
qed

lemma last_addr:
  fixes addr :: u32
  assumes "0 < n" "unat addr + n \<le> 2 ^ 32"
  shows "unat (addr + of_nat n - 1) = unat addr + n - 1"
proof -
  obtain k where k: "n = Suc k" using assms(1) by (cases n) auto
  have "unat (of_nat k :: u32) = k" using assms(2) k by (intro unat_of_nat_u32) simp
  then show ?thesis using assms(2) k by (simp add: unat_word_ariths)
qed

lemma bank_protected:
  assumes "bank_ok t info" "inside t info addr n" "0 < n"
  shows "hits_protected info addr (addr + of_nat n - 1) [0..<sector_count info] =
    Some (\<exists>i < sector_count info. touches info i addr n \<and> fi_protect info i \<noteq> 0 \<and>
      \<not> (Suc i = sector_count info \<and> unat (ch_base t) + 0x10000 * sector_count info = 2 ^ 32))"
proof -
  let ?top = "unat (ch_base t) + 0x10000 * sector_count info = 2 ^ 32"
  have le: "unat addr + n \<le> 2 ^ 32" using assms by (auto simp: inside_def bank_ok_def)
  have "fi_start info i \<le> addr + of_nat n - 1 \<and> addr < sector_stop info i \<and> fi_protect info i \<noteq> 0 \<longleftrightarrow>
      touches info i addr n \<and> fi_protect info i \<noteq> 0 \<and> \<not> (Suc i = sector_count info \<and> ?top)" if "i < sector_count info" for i
    using sector_start [OF assms(1) that] sector_stop_nat [OF assms(1) that] last_addr [OF assms(3) le] assms(3)
    by (auto simp: word_le_nat_alt word_less_nat_alt touches_def)
  moreover have "\<forall>i \<in> set [0..<sector_count info]. i < 67 \<and> (Suc i < 67 \<or> Suc i = sector_count info)"
    using assms(1) by (auto simp: bank_ok_def)
  ultimately show ?thesis by (subst hits_protected_value) (simp_all add: Bex_def cong: conj_cong)
qed

text \<open>A write inside one bank, after the bank was found.\<close>

definition in_bank :: "flash_info list \<Rightarrow> nat \<Rightarrow> u32 \<Rightarrow> nat \<Rightarrow> bool" where
  "in_bank banks j addr n \<longleftrightarrow> j < length banks \<and> addr2info banks addr = Some j \<and> addr2info banks (addr + of_nat n - 1) = Some j"

lemma one_bank: "j < length banks \<Longrightarrow> drop j (take (Suc j) banks) = [banks ! j]"
  by (simp add: take_Suc_conv_app_nth)

lemma flash_write_one_bank:
  assumes "in_bank banks j addr (length src)" "bank_ok t (banks ! j)" "inside t (banks ! j) addr (length src)" "src \<noteq> []"
    "am_mode w = Array" "fast_enough t" "length src < 2 ^ 31" "addr AND 3 = 0"
    "\<forall>i < length src. am_cells w (addr + of_nat i) = 0xFF"
  shows "\<exists>k. flash_write (amd_hw t) banks src addr w =
    Some (if \<exists>i < sector_count (banks ! j). touches (banks ! j) i addr (length src) \<and> fi_protect (banks ! j) i \<noteq> 0 \<and>
        \<not> (Suc i = sector_count (banks ! j) \<and> unat (ch_base t) + 0x10000 * sector_count (banks ! j) = 2 ^ 32)
      then (ERR_PROTECTED, w) else (ERR_OK, w\<lparr>am_cells := mem_write addr src (am_cells w), am_clock := k\<rparr>))"
proof -
  let ?info = "banks ! j"
  have base: "fi_start ?info 0 = ch_base t" using assms(2) by (auto simp: bank_ok_def)
  obtain k where k: "write_buff (amd_hw t) ?info src addr w = Some (0, w\<lparr>am_cells := mem_write addr src (am_cells w), am_clock := k\<rparr>)"
    using write_buff_ok [OF assms(5,6) base assms(7,8,9)] by blast
  have room: "length src \<le> unat (fi_start ?info 0 + fi_size ?info - addr)"
  proof -
    have c: "sector_count ?info \<le> 67" using assms(2) by (simp add: bank_ok_def)
    have s: "unat (fi_size ?info) = 0x10000 * sector_count ?info"
    proof -
      have "fi_size ?info = of_nat (0x10000 * sector_count ?info)" using assms(2) by (simp add: bank_ok_def)
      then show ?thesis using c by (simp only:) (intro unat_of_nat_u32, simp)
    qed
    have a: "unat (addr - ch_base t) = unat addr - unat (ch_base t)"
      using assms(3) by (simp add: inside_def unat_sub word_le_nat_alt)
    have "ch_base t + fi_size ?info - addr = fi_size ?info - (addr - ch_base t)" by simp
    moreover have "addr - ch_base t \<le> fi_size ?info"
      using assms(3) a s unfolding inside_def word_le_nat_alt by linarith
    ultimately have "unat (ch_base t + fi_size ?info - addr) = unat (fi_size ?info) - unat (addr - ch_base t)"
      by (simp only: unat_sub)
    then show ?thesis using assms(3) a s unfolding inside_def base by linarith
  qed
  have "0 < length src" using assms(4) by simp
  then show ?thesis
    using assms(1,4) k room bank_protected [OF assms(2,3)]
    by (auto simp: flash_write_def in_bank_def one_bank Let_def)
qed

text \<open>An address of a write lies in the sectors that the write touches.\<close>

lemma same_sector_div: "same_sector a b \<longleftrightarrow> unat a div 0x10000 = unat b div 0x10000"
  by (simp add: same_sector_def word_unat_eq_iff unat_drop_bit)

lemma sector_of:
  assumes "bank_ok t info" "inside t info addr n" "i < n"
  shows "\<exists>s < sector_count info. touches info s addr n \<and> same_sector (addr + of_nat i) (fi_start info s)"
proof -
  let ?b = "unat (ch_base t)" and ?x = "unat addr + i"
  let ?s = "(?x - ?b) div 0x10000"
  have in1: "?b \<le> ?x" "?x < ?b + 0x10000 * sector_count info" "unat addr + n \<le> 2 ^ 32"
    using assms by (auto simp: inside_def bank_ok_def)
  have "unat (addr + of_nat i) = ?x"
  proof -
    have "unat (of_nat i :: u32) = i" using in1 assms(3) by (intro unat_of_nat_u32) simp
    then show ?thesis using in1 assms(3) by (simp add: unat_word_ariths)
  qed
  moreover have s: "?s < sector_count info" using in1 by (simp add: less_mult_imp_div_less)
  moreover have st: "unat (fi_start info ?s) = ?b + 0x10000 * ?s" by (rule sector_start [OF assms(1) s])
  moreover have "?b mod 0x10000 = 0"
  proof -
    have "ch_base t AND mask 16 = 0" using assms(1) by (simp add: bank_ok_def mask_eq_exp_minus_1)
    then have "take_bit 16 (ch_base t) = 0" by (simp add: take_bit_eq_mask)
    then have "take_bit 16 ?b = 0" by (metis unsigned_take_bit_eq unat_0)
    then show ?thesis by (simp add: take_bit_eq_mod)
  qed
  moreover obtain q where "?b = 0x10000 * q" using \<open>?b mod 0x10000 = 0\<close> by blast
  ultimately have "same_sector (addr + of_nat i) (fi_start info ?s)"
    using in1 unfolding same_sector_div by simp
  moreover have "touches info ?s addr n"
    unfolding touches_def st using assms(3) in1 mult_div_mod_eq [of "0x10000" "?x - ?b"] mod_less_divisor [of "0x10000" "?x - ?b"]
    by linarith
  ultimately show ?thesis using s by blast
qed

subsection \<open>Properties\<close>

lemma mem_write_outside:
  assumes "unat addr + length bs \<le> 2 ^ 32" "unat x < unat addr \<or> unat addr + length bs \<le> unat x"
  shows "mem_write addr bs m x = m x"
proof (rule mem_write_other, intro allI impI)
  fix i assume "i < length bs"
  then have "unat (of_nat i :: u32) = i" using assms(1) by (intro unat_of_nat_u32) simp
  then have "unat (addr + of_nat i) = unat addr + i" using assms(1) \<open>i < length bs\<close> by (simp add: unat_word_ariths)
  then show "x \<noteq> addr + of_nat i" using assms(2) \<open>i < length bs\<close> by auto
qed

text \<open>C14: an update of flash memory. Erasing a run of sectors that holds a range, none of them protected, and then writing data to
  the range, from an address that is a multiple of four, stores the data: both calls report success, the data can be read at
  its addresses, the rest of the erased sectors is 0xFF, and every other byte of the chip is unchanged.\<close>

theorem flash_update:
  assumes "bank_ok t info" and "inside t info addr (length src)" and "src \<noteq> []" and "length src < 2 ^ 31" and "addr AND 3 = 0"
    and "in_bank banks j addr (length src)" and "banks ! j = info" and "am_mode w = Array" and "fast_enough t"
    and "first \<le> lst" and "lst < sector_count info" and "\<forall>s. first \<le> s \<and> s \<le> lst \<longrightarrow> fi_protect info s = 0"
    and "\<forall>s < sector_count info. touches info s addr (length src) \<longrightarrow> first \<le> s \<and> s \<le> lst"
  shows "\<exists>w1 w2. flash_erase (amd_hw t) info (int first) (int lst) w = Some (0, w1) \<and>
    flash_write (amd_hw t) banks src addr w1 = Some (0, w2) \<and> am_mode w2 = Array \<and>
    mem_read addr (length src) (am_cells w2) = src \<and>
    (\<forall>x. unat x < unat addr \<or> unat addr + length src \<le> unat x \<longrightarrow>
       am_cells w2 x = (if \<exists>s. first \<le> s \<and> s \<le> lst \<and> same_sector x (fi_start info s) then 0xFF else am_cells w x))"
proof -
  have base: "fi_start info 0 = ch_base t" "amd_chip info" "sector_count info \<le> 67" using assms(1) by (auto simp: bank_ok_def)
  have u: "unprotected info [nat (int first)..<nat (int lst + 1)] = [first..<Suc lst]"
    using assms(12) by (auto simp: unprotected_def nat_add_distrib intro!: filter_True)
  have l: "int first \<le> int lst" "int lst < 67" "0 \<le> int first" using assms(10,11) base(3) by simp_all
  let ?m = "erase_sectors info [first..<Suc lst] (am_cells w)"
  obtain k where k: "flash_erase (amd_hw t) info (int first) (int lst) w = Some (0, w\<lparr>am_cells := ?m, am_clock := k\<rparr>)"
    using flash_erase_ok [OF assms(8,9) base(1,2) l(3,1,2)] unfolding u by blast
  let ?w = "w\<lparr>am_cells := ?m, am_clock := k\<rparr>"
  have m: "?m x = (if \<exists>s. first \<le> s \<and> s \<le> lst \<and> same_sector x (fi_start info s) then 0xFF else am_cells w x)" for x
    by (auto simp: erase_sectors_at)
  have e: "\<forall>i < length src. am_cells ?w (addr + of_nat i) = 0xFF"
  proof (intro allI impI)
    fix i assume "i < length src"
    from sector_of [OF assms(1,2) this] show "am_cells ?w (addr + of_nat i) = 0xFF" using assms(13) by (auto simp: m simp del: upt_Suc)
  qed
  have np: "\<not> (\<exists>i < sector_count info. touches info i addr (length src) \<and> fi_protect info i \<noteq> 0 \<and>
        \<not> (Suc i = sector_count info \<and> unat (ch_base t) + 0x10000 * sector_count info = 2 ^ 32))"
    using assms(12,13) by blast
  obtain k' where w: "flash_write (amd_hw t) banks src addr ?w = Some (0, ?w\<lparr>am_cells := mem_write addr src ?m, am_clock := k'\<rparr>)"
    using flash_write_one_bank [of banks j addr src t ?w] assms(1-9) np e by auto
  have len: "unat addr + length src \<le> 2 ^ 32" using assms(1,2) by (auto simp: inside_def bank_ok_def)
  have "mem_read addr (length src) (mem_write addr src ?m) = src" by (rule mem_read_write) (use assms(4) in simp)
  then show ?thesis using k w m assms(8) mem_write_outside [OF len]
    by (intro exI [of _ ?w] exI [of _ "?w\<lparr>am_cells := mem_write addr src ?m, am_clock := k'\<rparr>"]) (simp del: upt_Suc)
qed

text \<open>Bank 1 of the board with a 4 MB chip: it ends at the end of the address space.\<close>

definition sample_chip :: amd_type where
  "sample_chip = \<lparr>ch_base = 0xFFC00000, ch_dev = 0x41, ch_prot = \<lambda>_. 0, ch_pt = \<lambda>_. 3, ch_et = 10\<rparr>"

definition sample_bank :: "(nat \<Rightarrow> byte) \<Rightarrow> flash_info" where
  "sample_bank prot = \<lparr>fi_size = 0x400000, sector_count = 64, flash_id = 0x41,
     fi_start = \<lambda>i. 0xFFC00000 + 0x10000 * of_nat i, fi_protect = prot\<rparr>"

lemma sample_bank_ok: "bank_ok sample_chip (sample_bank prot)" "fast_enough sample_chip"
  by (simp_all add: bank_ok_def amd_chip_def sample_chip_def sample_bank_def fast_enough_def)

theorem flash_update_witness:
  "\<exists>w1 w2. flash_erase (amd_hw sample_chip) (sample_bank (\<lambda>_. 0)) 1 1 \<lparr>am_cells = \<lambda>_. 7, am_mode = Array, am_clock = 0\<rparr> = Some (0, w1) \<and>
    flash_write (amd_hw sample_chip) [sample_bank (\<lambda>_. 0)] [1, 2, 3, 4, 5] 0xFFC10000 w1 = Some (0, w2) \<and>
    mem_read 0xFFC10000 5 (am_cells w2) = [1, 2, 3, 4, 5]"
proof -
  let ?i = "sample_bank (\<lambda>_. 0)" and ?src = "[1, 2, 3, 4, 5] :: byte list"
  have c: "sector_count ?i = 64" "ch_base sample_chip = 0xFFC00000" by (simp_all add: sample_bank_def sample_chip_def)
  have p: "fi_protect ?i s = 0" for s by (simp add: sample_bank_def)
  have len: "length ?src = 5" by simp
  have t: "\<forall>s < sector_count ?i. touches ?i s 0xFFC10000 5 \<longrightarrow> 1 \<le> s \<and> s \<le> 1"
    using sector_start [OF sample_bank_ok(1)] by (auto simp: touches_def c)
  have i: "inside sample_chip ?i 0xFFC10000 5" by (simp add: inside_def c)
  have b: "in_bank [?i] 0 0xFFC10000 5"
    by (simp add: in_bank_def addr2info_def bank_last_def) (simp add: sample_bank_def)
  show ?thesis
    using flash_update [OF sample_bank_ok(1) [of "\<lambda>_. 0"], of "0xFFC10000" ?src "[?i]" 0 "\<lparr>am_cells = \<lambda>_. 7, am_mode = Array, am_clock = 0\<rparr>" 1 1]
      sample_bank_ok(2) t i b p unfolding len by (auto simp: c)
qed

text \<open>C34: write protection. A write that touches a protected sector is refused and no access to the chip takes place, whatever
  the driver, for a bank that does not end at the end of the address space.\<close>

theorem flash_write_refuses_protected:
  assumes "bank_ok t (banks ! j)" and "inside t (banks ! j) addr (length src)" and "src \<noteq> []"
    and "in_bank banks j addr (length src)" and "unat (ch_base t) + 0x10000 * sector_count (banks ! j) < 2 ^ 32"
    and "s < sector_count (banks ! j)" and "touches (banks ! j) s addr (length src)" and "fi_protect (banks ! j) s \<noteq> 0"
  shows "flash_write hw banks src addr w = Some (ERR_PROTECTED, w)"
proof -
  have "0 < length src" using assms(3) by simp
  from bank_protected [OF assms(1,2) this] have "hits_protected (banks ! j) addr (addr + of_nat (length src) - 1)
      [0..<sector_count (banks ! j)] = Some True" using assms(5-8) by auto
  then show ?thesis using assms(3,4) by (simp add: flash_write_def in_bank_def one_bank Let_def)
qed

theorem flash_write_refuses_protected_witness:
  "flash_write (amd_hw sample_chip) [(sample_bank (\<lambda>i. if i = 1 then 1 else 0))\<lparr>sector_count := 32, fi_size := 0x200000\<rparr>]
      [1, 2] 0xFFC10000 \<lparr>am_cells = \<lambda>_. 0xFF, am_mode = Array, am_clock = 0\<rparr> =
    Some (ERR_PROTECTED, \<lparr>am_cells = \<lambda>_. 0xFF, am_mode = Array, am_clock = 0\<rparr>)"
proof -
  let ?i = "(sample_bank (\<lambda>i. if i = 1 then 1 else 0))\<lparr>sector_count := 32, fi_size := 0x200000\<rparr>" and ?src = "[1, 2] :: byte list"
  have ok: "bank_ok sample_chip ?i" by (simp add: bank_ok_def amd_chip_def sample_chip_def sample_bank_def)
  have b: "in_bank [?i] 0 0xFFC10000 (length ?src)"
    by (simp add: in_bank_def addr2info_def bank_last_def) (simp add: sample_bank_def)
  have "touches ?i 1 0xFFC10000 (length ?src)" by (simp add: touches_def sample_bank_def)
  moreover have "inside sample_chip ?i 0xFFC10000 (length ?src)" by (simp add: inside_def sample_chip_def sample_bank_def)
  ultimately show ?thesis
    using flash_write_refuses_protected [of sample_chip "[?i]" 0 "0xFFC10000" ?src 1 "amd_hw sample_chip"] ok b
    by (simp add: sample_chip_def) (simp add: sample_bank_def)
qed

text \<open>C35: the last sector of a bank that ends at the end of the address space, as bank 1 of the board does, is not protected:
  the end of the bank wraps to 0, the test whether the sector is hit fails, and an erased range in it is written although the
  sector is marked as protected.\<close>

theorem top_sector_not_protected:
  assumes "bank_ok t (banks ! j)" and "unat (ch_base t) + 0x10000 * sector_count (banks ! j) = 2 ^ 32"
    and "inside t (banks ! j) addr (length src)" and "unat (fi_start (banks ! j) (sector_count (banks ! j) - 1)) \<le> unat addr"
    and "src \<noteq> []" and "in_bank banks j addr (length src)" and "addr AND 3 = 0" and "am_mode w = Array" and "fast_enough t"
    and "\<forall>i < length src. am_cells w (addr + of_nat i) = 0xFF"
  shows "\<exists>w'. flash_write (amd_hw t) banks src addr w = Some (ERR_OK, w') \<and> am_cells w' = mem_write addr src (am_cells w)"
proof -
  let ?i = "banks ! j"
  have n: "0 < sector_count ?i" using assms(1) by (simp add: bank_ok_def)
  have "unat (fi_start ?i (sector_count ?i - 1)) = unat (ch_base t) + 0x10000 * (sector_count ?i - 1)"
    using sector_start [OF assms(1)] n by simp
  then have a: "unat (ch_base t) + 0x10000 * (sector_count ?i - 1) \<le> unat addr" using assms(4) by simp
  have l: "length src < 2 ^ 31" using assms(2,3) a n by (simp add: inside_def)
  have "\<not> touches ?i s addr (length src)" if "s < sector_count ?i" "Suc s \<noteq> sector_count ?i" for s
  proof -
    have "0x10000 * s + 0x10000 \<le> 0x10000 * (sector_count ?i - 1)" using that by simp
    then show ?thesis using sector_start [OF assms(1) that(1)] a unfolding touches_def by linarith
  qed
  then have "\<not> (\<exists>i < sector_count ?i. touches ?i i addr (length src) \<and> fi_protect ?i i \<noteq> 0 \<and>
        \<not> (Suc i = sector_count ?i \<and> unat (ch_base t) + 0x10000 * sector_count ?i = 2 ^ 32))" using assms(2) by blast
  then show ?thesis using flash_write_one_bank [OF assms(6,1,3,5,8,9) l assms(7,10)] by auto
qed

theorem top_sector_not_protected_witness:
  "\<exists>w'. flash_write (amd_hw sample_chip) [sample_bank (\<lambda>i. if i = 63 then 1 else 0)] [1, 2] 0xFFFF0000
      \<lparr>am_cells = \<lambda>_. 0xFF, am_mode = Array, am_clock = 0\<rparr> = Some (ERR_OK, w') \<and>
    fi_protect (sample_bank (\<lambda>i. if i = 63 then 1 else 0)) 63 = 1 \<and> am_cells w' = mem_write 0xFFFF0000 [1, 2] (\<lambda>_. 0xFF)"
proof -
  let ?i = "sample_bank (\<lambda>i. if i = 63 then 1 else 0)" and ?src = "[1, 2] :: byte list"
  have b: "in_bank [?i] 0 0xFFFF0000 (length ?src)"
    by (simp add: in_bank_def addr2info_def bank_last_def) (simp add: sample_bank_def)
  have i: "inside sample_chip ?i 0xFFFF0000 (length ?src)" by (simp add: inside_def sample_chip_def sample_bank_def)
  have "unat (ch_base sample_chip) + 0x10000 * sector_count ?i = 2 ^ 32" "unat (fi_start ?i (sector_count ?i - 1)) \<le> unat (0xFFFF0000 :: u32)"
    by (simp_all add: sample_chip_def sample_bank_def)
  then show ?thesis
    using top_sector_not_protected [of sample_chip "[?i]" 0 "0xFFFF0000" ?src "\<lparr>am_cells = \<lambda>_. 0xFF, am_mode = Array, am_clock = 0\<rparr>"]
      sample_bank_ok b i by (simp del: mem_write.simps) (simp add: sample_bank_def)
qed

text \<open>A write that does not start at a multiple of four can fail with "not erased" although its whole range is erased: the
  test compares the first byte of the word, which the write does not change, with the last byte of the new word.\<close>

theorem unaligned_write_refused:
  assumes "am_mode w = Array" and "addr AND 3 = 1" and "am_cells w (addr - 1) AND src ! 2 \<noteq> src ! 2" and "3 \<le> length src"
  shows "write_buff (amd_hw t) info src addr w = Some (ERR_NOT_ERASED, w)"
proof -
  have m: "(3 :: u32) = mask 2" by (simp add: mask_eq_exp_minus_1)
  have "Suc (Suc (n - 2)) = n" if "2 \<le> n" for n :: nat using that by simp
  then have "addr AND NOT 3 = push_bit 2 (drop_bit 2 addr)" unfolding m by (intro bit_word_eqI) (auto simp: bit_simps not_less)
  moreover have "take_bit 2 addr = 1" using assms(2) unfolding m by (simp add: take_bit_eq_mask)
  ultimately have "(addr AND NOT 3) + 1 = addr" using bits_ident [of 2 addr] by simp
  then have wp: "addr AND NOT 3 = addr - 1" by (simp add: eq_diff_eq)
  obtain a b c ss where src: "src = a # b # c # ss"
    using assms(4) by (metis Suc_le_length_iff numeral_3_eq_3)
  have "write_word (amd_hw t) info (addr - 1) (shift_in [am_cells w (addr - 1), a, b, c]) w = Some (2, w)"
    using assms(1,3) by (simp add: write_word_def shift_in_word idle_read src)
  then show ?thesis unfolding write_buff_def wp src Let_def
    by (simp add: read_bytes_idle [OF assms(1)] mem_read_def take_Cons' del: read_bytes.simps)
qed

theorem unaligned_write_refused_witness:
  "write_buff (amd_hw sample_chip) (sample_bank (\<lambda>_. 0)) [1, 2, 3] 0xFFC10001
      \<lparr>am_cells = \<lambda>a. if a = 0xFFC10000 then 0 else 0xFF, am_mode = Array, am_clock = 0\<rparr> =
    Some (ERR_NOT_ERASED, \<lparr>am_cells = \<lambda>a. if a = 0xFFC10000 then 0 else 0xFF, am_mode = Array, am_clock = 0\<rparr>)"
  by (rule unaligned_write_refused) simp_all

subsection \<open>Start-up\<close>

lemma read_sectors_keeps:
  "flash_id (fst (read_sectors hw base is s)) = flash_id (fst s) \<and>
   sector_count (fst (read_sectors hw base is s)) = sector_count (fst s) \<and> fi_size (fst (read_sectors hw base is s)) = fi_size (fst s)"
  by (induction "is" arbitrary: s) (simp_all add: Let_def split: prod.splits)

lemma read_sectors_start:
  "fi_start (fst (read_sectors hw base is s)) i =
    (if i \<in> set is then base + of_nat i * (fi_size (fst s) div of_nat (sector_count (fst s))) else fi_start (fst s) i)"
proof (induction "is" arbitrary: s)
  case (Cons j "is")
  obtain info w where s: "s = (info, w)" by force
  then show ?case using Cons.IH by (auto simp: Let_def split: prod.split)
qed simp

text \<open>What identification finds: nothing, or one of the three chips with its sectors of 64 KB.\<close>

definition identified :: "u32 \<Rightarrow> flash_info \<Rightarrow> bool" where
  "identified base info \<longleftrightarrow> (flash_id info, sector_count info, fi_size info) \<in> {(0xA4, 8, 0x80000), (0xAD, 32, 0x200000), (0x41, 64, 0x400000)} \<and>
     (\<forall>i < sector_count info. fi_start info i = base + 0x10000 * of_nat i)"

lemma flash_get_size_value:
  "\<exists>sz info' w'. flash_get_size hw base info w = (sz, info', w') \<and>
    (sz = 0 \<and> flash_id info' = FLASH_UNKNOWN \<or> sz = fi_size info' \<and> identified base info')"
proof -
  obtain vendor w1 where v: "hw_read hw base (command hw base 0x90 (hw_write hw base 0xF0 w)) = (vendor, w1)" by force
  obtain devid w2 where d: "hw_read hw (base + 1) w1 = (devid, w2)" by force
  show ?thesis
  proof (cases "vendor = AMD_MANUFACT \<and> amd_devices devid \<noteq> None")
    case True
    then obtain ty n sz where t: "amd_devices devid = Some (ty, n, sz)" by auto
    let ?i = "info\<lparr>flash_id := ty, sector_count := n, fi_size := sz\<rparr>"
    obtain i' w' where r: "read_sectors hw base [0..<n] (?i, w2) = (i', w')" by force
    have f: "flash_id i' = ty" "sector_count i' = n" "fi_size i' = sz" "\<forall>i < n. fi_start i' i = base + of_nat i * (sz div of_nat n)"
      using read_sectors_keeps [of hw base "[0..<n]" "(?i, w2)"] read_sectors_start [of hw base "[0..<n]" "(?i, w2)"] r by auto
    have "(ty, n, sz) \<in> {(0xA4, 8, 0x80000), (0xAD, 32, 0x200000), (0x41, 64, 0x400000)}"
      using t by (auto simp: amd_devices_def split: if_splits)
    then have "identified base i'" using f by (auto simp: identified_def mult.commute)
    then show ?thesis using v d True t r f(3) by (simp add: flash_get_size_def Let_def del: upt_Suc)
  next
    case False
    then have "vendor \<noteq> AMD_MANUFACT \<or> amd_devices devid = None" by blast
    then show ?thesis using v d by (elim disjE) (simp_all add: flash_get_size_def Let_def)
  qed
qed

lemma protect_loop_set:
  assumes "distinct is" "\<forall>i \<in> set is. i < 67 \<and> sector_last info i \<noteq> None"
  shows "\<exists>pr. protect_loop FLAG_PROTECT_SET from to is info = Some (info\<lparr>fi_protect := pr\<rparr>) \<and>
    (\<forall>i. pr i = (if i \<in> set is \<and> from \<le> the (sector_last info i) \<and> fi_start info i \<le> to then 1 else fi_protect info i))"
  using assms
proof (induction "is" arbitrary: info)
  case Nil
  show ?case by (intro exI [of _ "fi_protect info"]) simp
next
  case (Cons i "is")
  obtain l where l: "sector_last info i = Some l" using Cons.prems by auto
  let ?i = "if from \<le> l \<and> fi_start info i \<le> to then info\<lparr>fi_protect := (fi_protect info)(i := 1)\<rparr> else info"
  have s: "sector_last ?i j = sector_last info j" for j by (simp add: sector_last_def bank_last_def)
  obtain pr where pr: "protect_loop FLAG_PROTECT_SET from to is ?i = Some (?i\<lparr>fi_protect := pr\<rparr>)"
      "\<forall>j. pr j = (if j \<in> set is \<and> from \<le> the (sector_last info j) \<and> fi_start ?i j \<le> to then 1 else fi_protect ?i j)"
    using Cons.IH [of ?i] Cons.prems s by auto
  have "protect_loop FLAG_PROTECT_SET from to (i # is) info = Some (info\<lparr>fi_protect := pr\<rparr>)"
    using pr(1) l Cons.prems by (auto simp: if_distrib cong: if_cong)
  moreover have "pr j = (if j \<in> set (i # is) \<and> from \<le> the (sector_last info j) \<and> fi_start info j \<le> to then 1 else fi_protect info j)" for j
    using pr(2) l by auto
  ultimately show ?case by blast
qed

lemma identified_sectors:
  assumes "identified base info"
  shows "distinct [0..<sector_count info]" "\<forall>i \<in> set [0..<sector_count info]. i < 67 \<and> sector_last info i \<noteq> None"
  using assms by (auto simp: identified_def sector_last_def)

lemma flash_protect_total:
  assumes "identified base info"
  shows "\<exists>pr. flash_protect FLAG_PROTECT_SET from to info = Some (info\<lparr>fi_protect := pr\<rparr>)"
proof -
  have "\<exists>pr. info = info\<lparr>fi_protect := pr\<rparr>" by (rule exI [of _ "fi_protect info"]) simp
  moreover obtain pr where "protect_loop FLAG_PROTECT_SET from to [0..<sector_count info] info = Some (info\<lparr>fi_protect := pr\<rparr>)"
    using protect_loop_set [OF identified_sectors [OF assms], of "from" to] by blast
  ultimately show ?thesis by (auto simp: flash_protect_def)
qed

lemma flash_protect_if:
  assumes "p \<Longrightarrow> identified base info"
  shows "\<exists>info'. (if p then flash_protect FLAG_PROTECT_SET from to info else Some info) = Some info' \<and> flash_id info' = flash_id info"
proof (cases p)
  case True
  then show ?thesis using flash_protect_total [OF assms, of "from" to] by auto
qed simp

text \<open>The sectors of the monitor in the 4 MB bank.\<close>

lemma monitor_protected:
  assumes "identified 0xFFC00000 info" "flash_id info = 0x41" "0 < len" "len \<le> 0x100000"
  shows "\<exists>pr. flash_protect FLAG_PROTECT_SET FLASH_BASE (FLASH_BASE + len - 1) info = Some (info\<lparr>fi_protect := pr\<rparr>) \<and>
    (\<forall>s < 64. 48 \<le> s \<and> 0x10000 * (s - 48) < unat len \<longrightarrow> pr s = 1)"
proof -
  have i: "sector_count info = 64" "fi_size info = 0x400000" "\<forall>s < 64. fi_start info s = 0xFFC00000 + 0x10000 * of_nat s"
    using assms(1,2) by (auto simp: identified_def)
  have ok: "bank_ok sample_chip info" using i assms(2) by (simp add: bank_ok_def sample_chip_def amd_chip_def)
  have st: "unat (fi_start info s) = 0xFFC00000 + 0x10000 * s" if "s < 64" for s
    using sector_start [OF ok, of s] that i(1) by (simp add: sample_chip_def)
  have l: "unat (FLASH_BASE + len - 1) = 0xFFF00000 + unat len - 1"
    using last_addr [of "unat len" FLASH_BASE] assms(3,4) by (simp add: word_less_nat_alt word_le_nat_alt unat_gt_0)
  have b: "bank_last info = 0xFFFFFFFF" "fi_start info 0 = 0xFFC00000" using i by (simp_all add: bank_last_def)
  have n: "0 < unat len" using assms(3) by (simp add: unat_gt_0)
  have c: "\<not> FLASH_BASE + len - 1 < FLASH_BASE" "\<not> FLASH_BASE + len - 1 < fi_start info 0" "\<not> FLASH_BASE > bank_last info"
    using l n b by (simp_all add: word_less_nat_alt)
  have last: "FLASH_BASE \<le> the (sector_last info s)" if "48 \<le> s" "s < 64" for s
  proof (cases "s = 63")
    case False
    then have s: "Suc s < 64" using that by simp
    have "fi_start info (Suc s) = fi_start info s + of_nat 0x10000" using i(3) s by (simp add: distrib_left)
    then have "unat (fi_start info (Suc s) - 1) = 0xFFC00000 + 0x10000 * Suc s - 1"
      using st [OF that(2)] last_addr [of "0x10000" "fi_start info s"] s by simp
    then show ?thesis using that s i by (simp add: sector_last_def word_le_nat_alt)
  qed (simp add: sector_last_def i b)
  obtain pr where pr: "protect_loop FLAG_PROTECT_SET FLASH_BASE (FLASH_BASE + len - 1) [0..<64] info = Some (info\<lparr>fi_protect := pr\<rparr>)"
      "\<forall>s. pr s = (if s \<in> set [0..<64] \<and> FLASH_BASE \<le> the (sector_last info s) \<and> fi_start info s \<le> FLASH_BASE + len - 1 then 1 else fi_protect info s)"
    using protect_loop_set [OF identified_sectors [OF assms(1)], of FLASH_BASE "FLASH_BASE + len - 1"] i(1) by auto
  have "pr s = 1" if "s < 64" "48 \<le> s" "0x10000 * (s - 48) < unat len" for s
  proof -
    have "fi_start info s \<le> FLASH_BASE + len - 1" using st [OF that(1)] l that by (simp add: word_le_nat_alt)
    then show ?thesis using pr(2) last [OF that(2,1)] that by simp
  qed
  moreover have "flash_protect FLAG_PROTECT_SET FLASH_BASE (FLASH_BASE + len - 1) info = Some (info\<lparr>fi_protect := pr\<rparr>)"
    using c assms(2) i pr(1) by (simp add: flash_protect_def del: upt_rec_numeral)
  ultimately show ?thesis by blast
qed

lemma monitor_sector:
  assumes "i < 0x100000" "s \<in> {s. s < 64 \<and> same_sector (0xFFF00000 + of_nat i) (0xFFC00000 + 0x10000 * of_nat s)}"
  shows "48 \<le> s" "0x10000 * (s - 48) \<le> i"
proof -
  have s: "s < 64" "same_sector (0xFFF00000 + of_nat i) (0xFFC00000 + 0x10000 * of_nat s)" using assms(2) by auto
  have i: "unat (of_nat i :: u32) = i" "unat (of_nat (0x10000 * s) :: u32) = 0x10000 * s"
    using assms(1) s(1) by (intro unat_of_nat_u32; simp)+
  then have "unat (0xFFF00000 + of_nat i :: u32) = 0xFFF00000 + i" "unat (0xFFC00000 + of_nat (0x10000 * s) :: u32) = 0xFFC00000 + 0x10000 * s"
    using assms(1) s(1) by (simp_all add: unat_word_ariths)
  then have "(0xFFF00000 + i) div 0x10000 = (0xFFC00000 + 0x10000 * s) div 0x10000" using s(2) by (simp add: same_sector_div)
  moreover have "(0xFFF00000 + i) div 0x10000 = 0xFFF0 + i div 0x10000" by simp
  ultimately have e: "0xFFF0 + i div 0x10000 = 0xFFC0 + s" by simp
  then show "48 \<le> s" by simp
  have "s - 48 = i div 0x10000" using e by simp
  then show "0x10000 * (s - 48) \<le> i" by simp
qed

text \<open>C15: the monitor survives. Whatever chips answer at start-up, initialisation ends without a fault; and when bank 1 holds the 4 MB
  chip, no run of sectors that is erased afterwards changes a byte of the monitor, of which the linker gives the length (at most
  1 MB): the erase reports success and skips its sectors.\<close>

theorem monitor_survives_erase:
  assumes "0 < len" and "len \<le> 0x100000"
  shows "\<exists>sz info0 info1 w'. flash_init hw len i0 i1 w = Some (sz, [info0, info1], w') \<and>
    (flash_id info1 = 0x41 \<longrightarrow>
      (\<forall>t c first lst. ch_base t = 0xFFC00000 \<and> fast_enough t \<and> am_mode c = Array \<and> 0 \<le> first \<and> first \<le> lst \<and> lst < 64 \<longrightarrow>
        (\<exists>c'. flash_erase (amd_hw t) info1 first lst c = Some (0, c') \<and>
          (\<forall>i < unat len. am_cells c' (0xFFF00000 + of_nat i) = am_cells c (0xFFF00000 + of_nat i)))))"
proof -
  obtain sz1 b0 w1 where g0: "flash_get_size hw FLASH_BASE0_PRELIM (i0\<lparr>flash_id := FLASH_UNKNOWN\<rparr>) w = (sz1, b0, w1)"
      "sz1 = 0 \<or> sz1 = fi_size b0 \<and> identified FLASH_BASE0_PRELIM b0"
    using flash_get_size_value [of hw FLASH_BASE0_PRELIM "i0\<lparr>flash_id := FLASH_UNKNOWN\<rparr>" w] by blast
  obtain sz2 b1 w2 where g1: "flash_get_size hw FLASH_BASE1_PRELIM (i1\<lparr>flash_id := FLASH_UNKNOWN\<rparr>) w1 = (sz2, b1, w2)"
      "sz2 = 0 \<and> flash_id b1 = FLASH_UNKNOWN \<or> sz2 = fi_size b1 \<and> identified FLASH_BASE1_PRELIM b1"
    using flash_get_size_value [of hw FLASH_BASE1_PRELIM "i1\<lparr>flash_id := FLASH_UNKNOWN\<rparr>" w1] by blast
  obtain info0 where p0: "(if sz1 = 512 * 1024 then flash_protect FLAG_PROTECT_SET FLASH_BASE0_PRELIM (FLASH_BASE0_PRELIM + len - 1) b0
      else Some b0) = Some info0"
    using g0(2) flash_protect_if [of "sz1 = 512 * 1024" FLASH_BASE0_PRELIM b0 FLASH_BASE0_PRELIM "FLASH_BASE0_PRELIM + len - 1"] by auto
  show ?thesis
  proof (cases "sz2 = 0x400000")
    case True
    then have idb: "identified FLASH_BASE1_PRELIM b1" "flash_id b1 = 0x41" using g1(2) by (auto simp: identified_def)
    obtain pr where pr: "flash_protect FLAG_PROTECT_SET FLASH_BASE (FLASH_BASE + len - 1) b1 = Some (b1\<lparr>fi_protect := pr\<rparr>)"
        "\<forall>s < 64. 48 \<le> s \<and> 0x10000 * (s - 48) < unat len \<longrightarrow> pr s = 1"
      using monitor_protected [OF idb assms] by blast
    let ?i = "b1\<lparr>fi_protect := pr\<rparr>"
    have init: "flash_init hw len i0 i1 w = Some (sz1 + sz2, [info0, ?i], w2)"
      using g0(1) g1(1) p0 pr(1) True by (simp add: flash_init_def)
    have "\<exists>c'. flash_erase (amd_hw t) ?i first lst c = Some (0, c') \<and>
        (\<forall>i < unat len. am_cells c' (0xFFF00000 + of_nat i) = am_cells c (0xFFF00000 + of_nat i))"
      if t: "ch_base t = 0xFFC00000" "fast_enough t" "am_mode c = Array" "0 \<le> first" "first \<le> lst" "lst < 64" for t c first lst
    proof -
      let ?u = "unprotected ?i [nat first..<nat (lst + 1)]"
      have st: "\<forall>s < 64. fi_start ?i s = 0xFFC00000 + 0x10000 * of_nat s" using idb by (auto simp: identified_def)
      have "fi_start ?i 0 = ch_base t" "amd_chip ?i" "lst < 67" using st t idb by (simp_all add: amd_chip_def)
      then obtain k where k: "flash_erase (amd_hw t) ?i first lst c =
          Some (0, c\<lparr>am_cells := erase_sectors ?i ?u (am_cells c), am_clock := k\<rparr>)"
        using flash_erase_ok [OF t(3,2) _ _ t(4,5)] by blast
      have "\<not> same_sector (0xFFF00000 + of_nat i) (fi_start ?i s)" if i: "i < unat len" and s: "s \<in> set ?u" for i s
      proof
        assume e: "same_sector (0xFFF00000 + of_nat i) (fi_start ?i s)"
        have l: "s < 64" "pr s = 0" using s t(6) by (auto simp: unprotected_def)
        have "i < 0x100000" using i assms(2) by (simp add: word_le_nat_alt)
        from monitor_sector [OF this, of s] e st l(1) have "48 \<le> s" "0x10000 * (s - 48) \<le> i" by auto
        then have "pr s = 1" using pr(2) l(1) i by simp
        then show False using l(2) by simp
      qed
      then show ?thesis using k by (intro exI [of _ "c\<lparr>am_cells := erase_sectors ?i ?u (am_cells c), am_clock := k\<rparr>"]) (auto simp: erase_sectors_at)
    qed
    then show ?thesis using init by (intro exI [of _ "sz1 + sz2"] exI [of _ info0] exI [of _ ?i] exI [of _ w2]) blast
  next
    case False
    then have u: "flash_id b1 \<noteq> 0x41" using g1(2) by (auto simp: identified_def)
    obtain info1 where p1: "(if sz2 = 512 * 1024 then flash_protect FLAG_PROTECT_SET FLASH_BASE1_PRELIM (FLASH_BASE1_PRELIM + len - 1) b1
        else Some b1) = Some info1" "flash_id info1 = flash_id b1"
      using g1(2) flash_protect_if [of "sz2 = 512 * 1024" FLASH_BASE1_PRELIM b1 FLASH_BASE1_PRELIM "FLASH_BASE1_PRELIM + len - 1"] by auto
    have "flash_init hw len i0 i1 w = Some (sz1 + sz2, [info0, info1], w2)"
      using g0(1) g1(1) p0 p1(1) False by (simp add: flash_init_def)
    then show ?thesis using u p1(2) by auto
  qed
qed

definition sample_hw :: "unit flash_hw" where
  "sample_hw = \<lparr>hw_read = \<lambda>a w. (if a = 0xFFC00000 then 1 else if a = 0xFFC00001 then 0x41 else 0, w), hw_write = \<lambda>a v w. w,
     hw_timer = \<lambda>w. (0, w)\<rparr>"

lemma sample_ids:
  "map_option (\<lambda>(sz, banks, w). (sz, map flash_id banks))
    (flash_init sample_hw 0x40000 (sample_bank (\<lambda>_. 0)) (sample_bank (\<lambda>_. 0)) ()) = Some (0x400000, [0xFFFF, 0x41])"
  by code_simp

theorem monitor_survives_erase_witness:
  "\<exists>info0 info1. flash_init sample_hw 0x40000 (sample_bank (\<lambda>_. 0)) (sample_bank (\<lambda>_. 0)) () = Some (0x400000, [info0, info1], ()) \<and>
    (\<exists>c'. flash_erase (amd_hw sample_chip) info1 40 60 \<lparr>am_cells = \<lambda>_. 7, am_mode = Array, am_clock = 0\<rparr> = Some (0, c') \<and>
      am_cells c' 0xFFF00000 = 7)"
proof -
  let ?b = "sample_bank (\<lambda>_. 0)" and ?c = "\<lparr>am_cells = \<lambda>_. 7, am_mode = Array, am_clock = 0\<rparr>"
  obtain sz info0 info1 w' where i: "flash_init sample_hw 0x40000 ?b ?b () = Some (sz, [info0, info1], w')"
    and e: "flash_id info1 = 0x41 \<longrightarrow>
      (\<forall>t c first lst. ch_base t = 0xFFC00000 \<and> fast_enough t \<and> am_mode c = Array \<and> 0 \<le> first \<and> first \<le> lst \<and> lst < 64 \<longrightarrow>
        (\<exists>c'. flash_erase (amd_hw t) info1 first lst c = Some (0, c') \<and>
          (\<forall>i < unat (0x40000 :: u32). am_cells c' (0xFFF00000 + of_nat i) = am_cells c (0xFFF00000 + of_nat i))))"
    using monitor_survives_erase [of "0x40000" sample_hw ?b ?b "()"] by auto
  have "flash_id info1 = 0x41" "sz = 0x400000" using sample_ids unfolding i by simp_all
  moreover have "ch_base sample_chip = 0xFFC00000" by (simp add: sample_chip_def)
  ultimately obtain c' where "flash_erase (amd_hw sample_chip) info1 40 60 ?c = Some (0, c')"
      "\<forall>i < unat (0x40000 :: u32). am_cells c' (0xFFF00000 + of_nat i) = am_cells ?c (0xFFF00000 + of_nat i)"
    using e [rule_format, of sample_chip ?c 40 60] sample_bank_ok(2) by auto
  moreover from this(2) have "am_cells c' 0xFFF00000 = 7" by (auto dest: spec [of _ 0])
  ultimately show ?thesis using i \<open>sz = 0x400000\<close> by auto
qed

end
