(* ===== verification/FlashCmdProps.thy ===== *)
theory FlashCmdProps
  imports FlashCmd FlashProps
begin

text \<open>
  The address ranges of the commands \<^verbatim>\<open>erase\<close> and \<^verbatim>\<open>protect\<close>: the sectors that a range selects.
\<close>

subsection \<open>Sectors of a range\<close>

text \<open>The sectors of a bank lie one behind the other, and so do the banks.\<close>

definition sectors_ok :: "flash_info \<Rightarrow> bool" where
  "sectors_ok info \<longleftrightarrow> 0 < sector_count info \<and> sector_count info \<le> 67 \<and>
     (\<forall>i j. i < j \<and> j < sector_count info \<longrightarrow> fi_start info i < fi_start info j) \<and>
     fi_start info (sector_count info - 1) \<le> bank_last info"

definition banks_ok :: "flash_info list \<Rightarrow> bool" where
  "banks_ok banks \<longleftrightarrow> (\<forall>info \<in> set banks. flash_id info \<noteq> FLASH_UNKNOWN \<longrightarrow> sectors_ok info) \<and>
     sorted_wrt (\<lambda>a b. flash_id a \<noteq> FLASH_UNKNOWN \<and> flash_id b \<noteq> FLASH_UNKNOWN \<longrightarrow> bank_last a < fi_start b 0) banks"

definition last_of :: "flash_info \<Rightarrow> nat \<Rightarrow> u32" where
  "last_of info i = (if Suc i = sector_count info then bank_last info else fi_start info (Suc i) - 1)"

lemma sector_last_of: "sectors_ok info \<Longrightarrow> i < sector_count info \<Longrightarrow> sector_last info i = Some (last_of info i)"
  by (auto simp: sectors_ok_def sector_last_def last_of_def)

lemma word_pred: "(a :: u32) < b \<Longrightarrow> a \<le> b - 1 \<and> b - 1 < b \<and> unat (b - 1) = unat b - 1"
proof -
  assume "a < b"
  moreover from this have "unat (b - 1) = unat b - 1" by (intro unat_minus_one) auto
  ultimately show ?thesis by (auto simp: word_le_nat_alt word_less_nat_alt)
qed

lemma word_next: "(a :: u32) \<noteq> -1 \<Longrightarrow> a < a + 1"
proof -
  assume "a \<noteq> -1"
  then have "a + 1 \<noteq> 0" by (simp add: eq_neg_iff_add_eq_0)
  then have "unat (a + 1) \<noteq> 0" by (simp add: unat_eq_zero)
  then have "(unat a + 1) mod 4294967296 \<noteq> 0" by (simp add: unat_word_ariths)
  then have "unat a + 1 < 4294967296" using u32_less [of a] by (cases "unat a + 1 = 4294967296") auto
  then show ?thesis by (simp add: word_less_nat_alt unat_word_ariths)
qed

lemma sector_order:
  assumes "sectors_ok info" "i \<le> j" "j < sector_count info"
  shows "fi_start info i \<le> fi_start info j" "fi_start info j \<le> last_of info j" "last_of info i \<le> last_of info j"
    "last_of info j \<le> bank_last info"
proof -
  have lt: "fi_start info a < fi_start info b" if "a < b" "b < sector_count info" for a b
    using assms(1) that by (auto simp: sectors_ok_def)
  have le: "fi_start info a \<le> fi_start info b" if "a \<le> b" "b < sector_count info" for a b
    using lt [of a b] that by (cases "a = b") auto
  have top: "fi_start info a \<le> bank_last info" if "a < sector_count info" for a
  proof -
    have "fi_start info a \<le> fi_start info (sector_count info - 1)" using le [of a "sector_count info - 1"] that by simp
    also have "\<dots> \<le> bank_last info" using assms(1) by (simp add: sectors_ok_def)
    finally show ?thesis .
  qed
  have in1: "fi_start info a \<le> last_of info a \<and> last_of info a \<le> bank_last info" if "a < sector_count info" for a
    using that top [of a] top [of "Suc a"] word_pred [OF lt [of a "Suc a"]] by (auto simp: last_of_def)
  show "fi_start info i \<le> fi_start info j" by (rule le [OF assms(2,3)])
  show "fi_start info j \<le> last_of info j" "last_of info j \<le> bank_last info" using in1 [OF assms(3)] by auto
  show "last_of info i \<le> last_of info j"
  proof (cases "i = j")
    case False
    then have "last_of info i < fi_start info (Suc i)" using assms(2,3) word_pred [OF lt [of i "Suc i"]] by (simp add: last_of_def)
    also have "\<dots> \<le> fi_start info j" using le [of "Suc i" j] assms(2,3) False by simp
    finally show ?thesis using in1 [OF assms(3)] by (auto intro: order_trans less_imp_le)
  qed simp
qed

text \<open>What the scan of a bank finds.\<close>

definition found :: "flash_info \<Rightarrow> u32 \<Rightarrow> u32 \<Rightarrow> int \<times> int \<Rightarrow> bool" where
  "found info first lst s \<longleftrightarrow>
     (fst s = -1 \<or> (0 \<le> fst s \<and> nat (fst s) < sector_count info \<and> fi_start info (nat (fst s)) = first)) \<and>
     (snd s = -1 \<or> (0 \<le> snd s \<and> nat (snd s) < sector_count info \<and> last_of info (nat (snd s)) = lst))"

lemma fill_sectors_found:
  assumes "sectors_ok info" "\<forall>i \<in> set is. i < sector_count info" "found info first lst s"
  shows "\<exists>s'. fill_sectors info first lst is s = Some s' \<and> found info first lst s'"
  using assms
proof (induction "is" arbitrary: s)
  case (Cons i "is")
  have i: "i < sector_count info" "i < 67" "sector_last info i = Some (last_of info i)"
    using Cons.prems sector_last_of [OF Cons.prems(1)] by (auto simp: sectors_ok_def)
  let ?s = "if first > last_of info i \<or> lst < fi_start info i then s
            else (if first = fi_start info i then int i else fst s, if lst = last_of info i then int i else snd s)"
  have "found info first lst ?s" using Cons.prems(3) i by (auto simp: found_def)
  then show ?case using Cons.IH [of ?s] Cons.prems i by simp
qed simp

definition selected :: "flash_info \<Rightarrow> u32 \<Rightarrow> u32 \<Rightarrow> int \<times> int \<Rightarrow> bool" where
  "selected info first lst r \<longleftrightarrow> (0 \<le> fst r \<longrightarrow> fst r \<le> snd r \<and> snd r < int (sector_count info) \<and>
     first \<le> fi_start info (nat (fst r)) \<and> last_of info (nat (snd r)) \<le> lst)"

lemma selected_mono: "selected info first lst r \<Longrightarrow> first' \<le> first \<Longrightarrow> selected info first' lst r"
  by (auto simp: selected_def)

lemma fill_banks_unknown:
  "\<forall>info \<in> set banks. flash_id info = FLASH_UNKNOWN \<Longrightarrow> fill_banks banks first lst = Some (0, map (\<lambda>_. (-1, -1)) banks, 0)"
  by (induction banks arbitrary: first) (auto simp: Let_def)

text \<open>The address behind the selected sectors of a bank.\<close>

lemma next_start:
  assumes "banks_ok (info # banks)" "flash_id info \<noteq> FLASH_UNKNOWN" "i \<le> j" "j < sector_count info"
  shows "(if Suc j = sector_count info then bank_last info + 1 else fi_start info (Suc j)) \<ge> fi_start info i \<or>
    (\<forall>b \<in> set banks. flash_id b = FLASH_UNKNOWN)"
proof -
  have sok: "sectors_ok info" using assms(1,2) by (simp add: banks_ok_def)
  show ?thesis
  proof (cases "Suc j = sector_count info")
    case True
    have le: "fi_start info i \<le> bank_last info" using sector_order [OF sok assms(3,4)] by simp
    show ?thesis
    proof (cases "bank_last info = -1")
      case T: True
      then have "\<forall>b \<in> set banks. flash_id b = FLASH_UNKNOWN"
        using assms(1,2) by (auto simp: banks_ok_def word_order.extremum_strict)
      then show ?thesis ..
    next
      case False
      then have "bank_last info < bank_last info + 1"
        by (rule word_next)
      then have "fi_start info i \<le> bank_last info + 1" using le by (auto intro: order_trans less_imp_le)
      then show ?thesis using True by simp
    qed
  next
    case False
    then show ?thesis using sector_order(1) [OF sok, of i "Suc j"] assms(3,4) by simp
  qed
qed

lemma fill_banks_selected:
  assumes "banks_ok banks"
  shows "\<exists>rc ranges n. fill_banks banks first lst = Some (rc, ranges, n) \<and> length ranges = length banks \<and>
    (rc = 0 \<longrightarrow> list_all2 (\<lambda>info. selected info first lst) banks ranges)"
  using assms
proof (induction banks arbitrary: first)
  case (Cons info banks)
  let ?none = "map (\<lambda>_. (-1, -1)) banks :: (int \<times> int) list"
  have none: "list_all2 (\<lambda>info. selected info first lst) banks ?none" "length ?none = length banks"
    by (auto simp: list_all2_conv_all_nth selected_def)
  have ok: "banks_ok banks" using Cons.prems by (auto simp: banks_ok_def)
  have skip: "selected info first lst (-1, x)" for x by (simp add: selected_def)
  obtain rc r n where ih: "fill_banks banks first lst = Some (rc, r, n)" "length r = length banks"
    "rc = 0 \<longrightarrow> list_all2 (\<lambda>info. selected info first lst) banks r" using Cons.IH [OF ok] by blast
  show ?case
  proof (cases "lst < first \<or> flash_id info = FLASH_UNKNOWN")
    case True
    then show ?thesis using none skip ih by (auto simp: Let_def)
  next
    case False
    have sok: "sectors_ok info" using Cons.prems False by (simp add: banks_ok_def)
    have cnt: "0 < sector_count info" "sector_count info \<le> 67" using sok by (simp_all add: sectors_ok_def)
    obtain sf sl where s: "fill_sectors info first lst [0..<sector_count info] (-1, -1) = Some (sf, sl)" "found info first lst (sf, sl)"
      using fill_sectors_found [OF sok, of "[0..<sector_count info]" first lst "(-1, -1)"] by (auto simp: found_def)
    show ?thesis
    proof (cases "0 \<le> sf")
      case True
      define sl' where "sl' = (if sl < 0 then int (sector_count info) - 1 else sl)"
      have f: "nat sf < sector_count info" "fi_start info (nat sf) = first" using s(2) True by (auto simp: found_def)
      have l: "0 \<le> sl'" "nat sl' < sector_count info" using s(2) cnt by (auto simp: found_def sl'_def)
      show ?thesis
      proof (cases "(sl < 0 \<and> \<not> lst > bank_last info) \<or> sl' < sf")
        case bad: True
        then show ?thesis using True False s(1) none by (auto simp: Let_def sl'_def)
      next
        case good: False
        let ?next = "if Suc (nat sl') = sector_count info then bank_last info + 1 else fi_start info (Suc (nat sl'))"
        have "last_of info (nat sl') \<le> lst"
          using good s(2) cnt by (auto simp: found_def sl'_def last_of_def nat_diff_distrib)
        then have sel: "selected info first lst (sf, sl')" using f l good True by (simp add: selected_def)
        obtain rc r n where ih: "fill_banks banks ?next lst = Some (rc, r, n)" "length r = length banks"
          "rc = 0 \<longrightarrow> list_all2 (\<lambda>info. selected info ?next lst) banks r" using Cons.IH [OF ok] by blast
        have "first \<le> ?next \<or> (\<forall>b \<in> set banks. flash_id b = FLASH_UNKNOWN)"
          using next_start [OF Cons.prems, of "nat sf" "nat sl'"] False f(2) l good True nat_mono [of sf sl'] by simp
        then have rest: "rc = 0 \<longrightarrow> list_all2 (\<lambda>info. selected info first lst) banks r"
        proof
          assume "first \<le> ?next"
          then show ?thesis using ih(3) by (auto elim: list_all2_mono intro: selected_mono)
        next
          assume "\<forall>b \<in> set banks. flash_id b = FLASH_UNKNOWN"
          then show ?thesis using ih(1) fill_banks_unknown none(1) by auto
        qed
        have nx: "(if sl' = int (sector_count info) - 1 then Some (bank_last info + 1)
            else if Suc (nat sl') < 67 then Some (fi_start info (Suc (nat sl'))) else None) = Some ?next"
          using l cnt by auto
        have "fill_banks (info # banks) first lst = Some (rc, (sf, sl') # r, n + (sl' - sf + 1))"
          using True False good s(1) ih(1) nx by (simp add: Let_def flip: sl'_def)
        then show ?thesis using rest sel ih(2) by simp
      qed
    next
      case F: False
      then show ?thesis using s False ih none skip by (auto simp: Let_def found_def)
    qed
  qed
qed simp

text \<open>C21: the range of an erase or protect command. For banks in ascending order the computation of the sectors always returns, and
  if it reports success then in every bank the sectors that it selects lie inside the range: the first one does not start before
  the range, and the last one does not end behind it.\<close>

theorem sector_ranges_inside:
  assumes "banks_ok banks"
  shows "\<exists>rc ranges n. flash_fill_sect_ranges banks first lst = Some (rc, ranges, n) \<and> length ranges = length banks \<and>
    (rc = 0 \<longrightarrow> (\<forall>k < length banks. 0 \<le> fst (ranges ! k) \<longrightarrow>
       fst (ranges ! k) \<le> snd (ranges ! k) \<and> snd (ranges ! k) < int (sector_count (banks ! k)) \<and>
       first \<le> fi_start (banks ! k) (nat (fst (ranges ! k))) \<and>
       (\<forall>e. sector_last (banks ! k) (nat (snd (ranges ! k))) = Some e \<longrightarrow> e \<le> lst)))"
proof -
  have l: "sector_last info i = Some e \<Longrightarrow> e = last_of info i" for info i e
    by (auto simp: sector_last_def last_of_def split: if_splits)
  obtain rc ranges n where "fill_banks banks first lst = Some (rc, ranges, n)" "length ranges = length banks"
    "rc = 0 \<longrightarrow> list_all2 (\<lambda>info. selected info first lst) banks ranges"
    using fill_banks_selected [OF assms] by blast
  then show ?thesis using l by (auto simp: flash_fill_sect_ranges_def list_all2_conv_all_nth selected_def)
qed

lemma bank_sectors:
  assumes "bank_ok t info"
  shows "sectors_ok info" "unat (bank_last info) = unat (ch_base t) + 0x10000 * sector_count info - 1"
proof -
  have c: "0 < sector_count info" "sector_count info \<le> 67" "unat (ch_base t) + 0x10000 * sector_count info \<le> 2 ^ 32"
    using assms by (auto simp: bank_ok_def)
  have "bank_last info = ch_base t + of_nat (0x10000 * sector_count info) - 1" using assms c(1) by (auto simp: bank_last_def bank_ok_def)
  then show l: "unat (bank_last info) = unat (ch_base t) + 0x10000 * sector_count info - 1"
    using last_addr [of "0x10000 * sector_count info" "ch_base t"] c by simp
  have "fi_start info i < fi_start info j" if "i < j" "j < sector_count info" for i j
    using sector_start [OF assms, of i] sector_start [OF assms, of j] that by (simp add: word_less_nat_alt)
  moreover have "fi_start info (sector_count info - 1) \<le> bank_last info"
    using sector_start [OF assms, of "sector_count info - 1"] c l by (simp add: word_le_nat_alt)
  ultimately show "sectors_ok info" using c by (simp add: sectors_ok_def)
qed

lemma sample_ranges: "flash_fill_sect_ranges [sample_bank (\<lambda>_. 0)] 0xFFC10000 0xFFC2FFFF = Some (0, [(1, 2)], 2)"
  "sector_last (sample_bank (\<lambda>_. 0)) 2 = Some 0xFFC2FFFF"
  by code_simp+

theorem sector_ranges_inside_witness:
  "flash_fill_sect_ranges [sample_bank (\<lambda>_. 0)] 0xFFC10000 0xFFC2FFFF = Some (0, [(1, 2)], 2) \<and>
   0xFFC10000 \<le> fi_start (sample_bank (\<lambda>_. 0)) 1 \<and> (\<exists>e. sector_last (sample_bank (\<lambda>_. 0)) 2 = Some e \<and> e \<le> 0xFFC2FFFF)"
proof -
  have "banks_ok [sample_bank (\<lambda>_. 0)]" using bank_sectors(1) [OF sample_bank_ok(1)] by (simp add: banks_ok_def)
  from sector_ranges_inside [OF this, of "0xFFC10000" "0xFFC2FFFF"] sample_ranges show ?thesis by auto
qed

end
