(* ===== verification/Memsize.thy ===== *)
theory Memsize
  imports Prelude
begin

text \<open>
  The sizing of memory, \<^verbatim>\<open>common/memsize.c\<close>. Memory is accessed in words over a bus, a parameter, because the routine
  touches addresses at which there may be no memory, or the same memory again.
\<close>

record 'm bus =
  bus_read :: "u32 \<Rightarrow> 'm \<Rightarrow> u32"
  bus_write :: "u32 \<Rightarrow> u32 \<Rightarrow> 'm \<Rightarrow> 'm"

definition word_addr :: "u32 \<Rightarrow> nat \<Rightarrow> u32" where
  "word_addr base i = base + 4 * of_nat i"

text \<open>The array \<^verbatim>\<open>save\<close> with its index is a stack of at most 32 words; taking from the empty stack is an access to \<^verbatim>\<open>save[-1]\<close>.\<close>

function save_words :: "'m bus \<Rightarrow> u32 \<Rightarrow> nat \<Rightarrow> 'm \<Rightarrow> u32 list \<Rightarrow> ('m \<times> u32 list) option" where
  "save_words b base cnt m save =
     (if cnt = 0 then Some (m, save)
      else if 32 \<le> length save then None
      else save_words b base (cnt div 2) (bus_write b (word_addr base cnt) (NOT (of_nat cnt)) m)
             (bus_read b (word_addr base cnt) m # save))"
  by pat_completeness auto
termination by (relation "measure (\<lambda>(b, base, cnt, m, save). cnt)") auto

declare save_words.simps [simp del]

function restore_words :: "'m bus \<Rightarrow> u32 \<Rightarrow> nat \<Rightarrow> nat \<Rightarrow> 'm \<Rightarrow> u32 list \<Rightarrow> 'm option" where
  "restore_words b base lim cnt m save =
     (if 0 < cnt \<and> cnt < lim then
        case save of [] \<Rightarrow> None
        | w # save \<Rightarrow> restore_words b base lim (2 * cnt) (bus_write b (word_addr base cnt) w m) save
      else Some m)"
  by pat_completeness auto
termination by (relation "measure (\<lambda>(b, base, lim, cnt, m, save). lim - cnt)") auto

declare restore_words.simps [simp del]

function check_words :: "'m bus \<Rightarrow> u32 \<Rightarrow> u32 \<Rightarrow> nat \<Rightarrow> nat \<Rightarrow> 'm \<Rightarrow> u32 list \<Rightarrow> (u32 \<times> 'm) option" where
  "check_words b base maxsize lim cnt m save =
     (if 0 < cnt \<and> cnt < lim then
        case save of [] \<Rightarrow> None
        | w # save \<Rightarrow>
            let val = bus_read b (word_addr base cnt) m;
                m = bus_write b (word_addr base cnt) w m
            in if val \<noteq> NOT (of_nat cnt)
               then map_option (Pair (of_nat cnt * 4)) (restore_words b base lim (2 * cnt) m save)
               else check_words b base maxsize lim (2 * cnt) m save
      else Some (maxsize, m))"
  by pat_completeness auto
termination by (relation "measure (\<lambda>(b, base, maxsize, lim, cnt, m, save). lim - cnt)") auto

declare check_words.simps [simp del]

definition get_ram_size :: "'m bus \<Rightarrow> u32 \<Rightarrow> u32 \<Rightarrow> 'm \<Rightarrow> (u32 \<times> 'm) option" where
  "get_ram_size b base maxsize m =
     (let lim = unat (maxsize div 4)
      in Option.bind (save_words b base (lim div 2) m [])
           (\<lambda>(m, save).
              let w = bus_read b base m;
                  m = bus_write b base 0 m
              in if bus_read b base m \<noteq> 0
                 then map_option (Pair 0) (restore_words b base lim 1 (bus_write b base w m) save)
                 else check_words b base maxsize lim 1 m save))"

subsection \<open>A memory chip on the bus\<close>

text \<open>A chip of \<open>n\<close> words that answers at every address from \<open>base\<close> on: behind its end the same words appear again.\<close>

definition ram_chip :: "u32 \<Rightarrow> nat \<Rightarrow> (nat \<Rightarrow> u32) bus" where
  "ram_chip base n =
     \<lparr>bus_read = \<lambda>a m. m (unat (a - base) div 4 mod n), bus_write = \<lambda>a v m. m(unat (a - base) div 4 mod n := v)\<rparr>"

lemma word_addr_index:
  assumes "i < 2 ^ 30"
  shows "unat (word_addr base i - base) div 4 = i"
proof -
  have "word_addr base i - base = of_nat (4 * i)" by (simp add: word_addr_def)
  moreover have "unat (of_nat (4 * i) :: u32) = 4 * i" by (rule unat_of_nat_u32) (use assms in simp)
  ultimately show ?thesis by simp
qed

lemma ram_chip_access:
  assumes "i < 2 ^ 30"
  shows "bus_read (ram_chip base n) (word_addr base i) m = m (i mod n)"
    and "bus_write (ram_chip base n) (word_addr base i) v m = m(i mod n := v)"
  using word_addr_index [OF assms, of base] by (simp_all add: ram_chip_def)

lemma ram_chip_base: "bus_read (ram_chip base n) base m = m 0" "bus_write (ram_chip base n) base v m = m(0 := v)"
  by (simp_all add: ram_chip_def)

lemma power_less_30: "(e :: nat) < 30 \<Longrightarrow> (2 :: nat) ^ e < 1073741824"
  using power_strict_increasing [of e 30 "2 :: nat"] by simp

lemma power_mod_0: "(j :: nat) \<le> e \<Longrightarrow> (2 :: nat) ^ e mod 2 ^ j = 0"
  by (simp add: le_imp_power_dvd)

lemma half_power: "(2 :: nat) ^ Suc e div 2 = 2 ^ e"
  by simp

text \<open>Saving at the addresses inside the chip.\<close>

lemma save_inside:
  assumes "k \<le> j" "j \<le> 29" "length st + k \<le> 32"
  shows "save_words (ram_chip base (2 ^ j)) base (2 ^ k div 2) m st =
    Some (\<lambda>i. if \<exists>e < k. i = 2 ^ e then NOT (of_nat i) else m i, map (\<lambda>e. m (2 ^ e)) [0..<k] @ st)"
  using assms
proof (induction k arbitrary: m st)
  case 0
  then show ?case by (simp add: save_words.simps)
next
  case (Suc k)
  have l: "(2 :: nat) ^ k < 2 ^ 30" "(2 :: nat) ^ k mod 2 ^ j = 2 ^ k" using Suc.prems by (simp_all add: power_less_30)
  let ?m = "m(2 ^ k := NOT (of_nat (2 ^ k)))"
  have "save_words (ram_chip base (2 ^ j)) base (2 ^ Suc k div 2) m st =
      save_words (ram_chip base (2 ^ j)) base (2 ^ k div 2) ?m (m (2 ^ k) # st)"
    using Suc.prems l by (simp add: half_power save_words.simps [of _ _ "2 ^ k"] ram_chip_access)
  also have "\<dots> = Some (\<lambda>i. if \<exists>e < k. i = 2 ^ e then NOT (of_nat i) else ?m i, map (\<lambda>e. ?m (2 ^ e)) [0..<k] @ m (2 ^ k) # st)"
    by (rule Suc.IH) (use Suc.prems in simp_all)
  also have "map (\<lambda>e. ?m (2 ^ e)) [0..<k] @ m (2 ^ k) # st = map (\<lambda>e. m (2 ^ e)) [0..<Suc k] @ st" by simp
  also have "(\<lambda>i. if \<exists>e < k. i = 2 ^ e then NOT (of_nat i) else ?m i) =
      (\<lambda>i. if \<exists>e < Suc k. i = 2 ^ e then NOT (of_nat i) else m i)"
    by (auto simp: fun_eq_iff less_Suc_eq)
  finally show ?case .
qed

text \<open>Saving at the addresses behind it, all of which are the first word.\<close>

lemma save_outside:
  assumes "j \<le> 29" "j < k" "k \<le> 29" "length st + (k - j) \<le> 32"
  shows "save_words (ram_chip base (2 ^ j)) base (2 ^ k div 2) m st =
    save_words (ram_chip base (2 ^ j)) base (2 ^ j div 2) (m(0 := NOT (of_nat (2 ^ j))))
      (map (\<lambda>e. NOT (of_nat (2 ^ Suc e))) [j..<k - 1] @ m 0 # st)"
  using assms(2-)
proof (induction k arbitrary: m st)
  case (Suc k)
  have l: "(2 :: nat) ^ k < 2 ^ 30" "(2 :: nat) ^ k mod 2 ^ j = 0" using Suc.prems by (simp_all add: power_less_30 power_mod_0)
  let ?m = "m(0 := NOT (of_nat (2 ^ k)))"
  have n: "length st < 32" using Suc.prems by simp
  have s: "save_words (ram_chip base (2 ^ j)) base (2 ^ Suc k div 2) m st =
      save_words (ram_chip base (2 ^ j)) base (2 ^ k div 2) ?m (m 0 # st)"
    using n l by (simp add: half_power save_words.simps [of _ _ "2 ^ k"] ram_chip_access del: fun_upd_apply)
  show ?case
  proof (cases "j = k")
    case False
    then have jk: "j < k" using Suc.prems by simp
    then have "[j..<Suc k - 1] = [j..<k - 1] @ [k - 1]" by (cases k) simp_all
    moreover have "save_words (ram_chip base (2 ^ j)) base (2 ^ k div 2) ?m (m 0 # st) =
        save_words (ram_chip base (2 ^ j)) base (2 ^ j div 2) (?m(0 := NOT (of_nat (2 ^ j))))
          (map (\<lambda>e. NOT (of_nat (2 ^ Suc e))) [j..<k - 1] @ ?m 0 # m 0 # st)"
      by (rule Suc.IH) (use Suc.prems jk in simp_all)
    moreover have "2 * 2 ^ (k - 1) = (2 :: u32) ^ k" using jk by (cases k) simp_all
    ultimately show ?thesis using s jk by (simp add: fun_upd_def cong: if_cong)
  qed (use s in \<open>simp add: fun_upd_def\<close>)
qed simp

text \<open>The check inside the chip restores every word.\<close>

lemma check_inside:
  assumes "e \<le> j" "j \<le> k" "k \<le> 29" "\<And>i. e \<le> i \<Longrightarrow> i < j \<Longrightarrow> m (2 ^ i) = NOT (of_nat (2 ^ i))"
  shows "check_words (ram_chip base (2 ^ j)) base maxsize (2 ^ k) (2 ^ e) m (map (\<lambda>i. m0 (2 ^ i)) [e..<j] @ st) =
    check_words (ram_chip base (2 ^ j)) base maxsize (2 ^ k) (2 ^ j) (\<lambda>i :: nat. if \<exists>e' < j. e \<le> e' \<and> i = 2 ^ e' then m0 i else m i) st"
  using assms
proof (induction "j - e" arbitrary: e m)
  case 0
  then have "e = j" by simp
  then show ?case by (simp cong: conj_cong)
next
  case (Suc d)
  then have ej: "e < j" by simp
  have l: "(2 :: nat) ^ e < 2 ^ 30" "(2 :: nat) ^ e mod 2 ^ j = 2 ^ e" "(2 :: nat) ^ e < 2 ^ k"
    using Suc.prems ej by (simp_all add: power_less_30)
  let ?m = "m(2 ^ e := m0 (2 ^ e))"
  have "map (\<lambda>i. m0 (2 ^ i)) [e..<j] @ st = m0 (2 ^ e) # map (\<lambda>i. m0 (2 ^ i)) [Suc e..<j] @ st"
    using ej by (simp add: upt_conv_Cons)
  then have "check_words (ram_chip base (2 ^ j)) base maxsize (2 ^ k) (2 ^ e) m (map (\<lambda>i. m0 (2 ^ i)) [e..<j] @ st) =
      check_words (ram_chip base (2 ^ j)) base maxsize (2 ^ k) (2 ^ Suc e) ?m (map (\<lambda>i. m0 (2 ^ i)) [Suc e..<j] @ st)"
    using l Suc.prems(4) [of e] ej
    by (simp add: check_words.simps [of _ _ _ _ "2 ^ e"] ram_chip_access Let_def)
  also have "\<dots> = check_words (ram_chip base (2 ^ j)) base maxsize (2 ^ k) (2 ^ j)
      (\<lambda>i. if \<exists>e' < j. Suc e \<le> e' \<and> i = 2 ^ e' then m0 i else ?m i) st"
    using Suc.hyps(1) [of "Suc e" ?m] Suc.hyps(2) Suc.prems ej by simp
  also have "(\<lambda>i. if \<exists>e' < j. Suc e \<le> e' \<and> i = 2 ^ e' then m0 i else ?m i) = (\<lambda>i. if \<exists>e' < j. e \<le> e' \<and> i = 2 ^ e' then m0 i else m i)"
  proof
    fix i :: nat
    have "(\<exists>e' < j. e \<le> e' \<and> i = 2 ^ e') \<longleftrightarrow> i = 2 ^ e \<or> (\<exists>e' < j. Suc e \<le> e' \<and> i = 2 ^ e')"
      using ej by (auto simp: Suc_le_eq order_le_less)
    then show "(if \<exists>e' < j. Suc e \<le> e' \<and> i = 2 ^ e' then m0 i else ?m i) = (if \<exists>e' < j. e \<le> e' \<and> i = 2 ^ e' then m0 i else m i)"
      by auto
  qed
  finally show ?case .
qed

lemma restore_outside:
  assumes "j \<le> e" "e + length st = k" "k \<le> 29"
  shows "restore_words (ram_chip base (2 ^ j)) base (2 ^ k) (2 ^ e) m st = Some (m(0 := last (m 0 # st)))"
  using assms
proof (induction st arbitrary: e m)
  case Nil
  then show ?case by (simp add: restore_words.simps)
next
  case (Cons w st)
  have l: "(2 :: nat) ^ e < 2 ^ 30" "(2 :: nat) ^ e mod 2 ^ j = 0" "(2 :: nat) ^ e < 2 ^ k"
    using Cons.prems by (simp_all add: power_less_30 power_mod_0)
  have "restore_words (ram_chip base (2 ^ j)) base (2 ^ k) (2 ^ Suc e) (m(0 := w)) st =
      Some ((m(0 := w))(0 := last ((m(0 := w)) 0 # st)))"
    by (rule Cons.IH) (use Cons.prems in simp_all)
  then show ?case using l by (simp add: restore_words.simps [of _ _ _ "2 ^ e"] ram_chip_access fun_upd_def cong: if_cong)
qed

subsection \<open>The size\<close>

lemma nonempty_last: "xs \<noteq> [] \<Longrightarrow> length xs = n \<Longrightarrow> last xs = x \<Longrightarrow> \<exists>w ws. xs = w # ws \<and> last (w # ws) = x \<and> length ws = n - 1"
  by (cases xs) auto

text \<open>C20: the size of memory. For a chip of any power of two of words, at most as large as the range tested, \<^verbatim>\<open>get_ram_size\<close>
  returns exactly the size of the chip. If the chip is smaller than the range, all of its words have the values from before
  the call; if it fills the range, the first word is left at 0 and the others have their values from before.\<close>

theorem get_ram_size_correct:
  assumes "j \<le> k" and "k \<le> 29"
  shows "get_ram_size (ram_chip base (2 ^ j)) base (2 ^ (k + 2)) m = Some (2 ^ (j + 2), if j < k then m else m(0 := 0))"
proof -
  let ?b = "ram_chip base (2 ^ j)" and ?saved = "map (\<lambda>e. m (2 ^ e)) [0..<j]"
  let ?tail = "if j < k then map (\<lambda>e. NOT (of_nat (2 ^ Suc e)) :: u32) [j..<k - 1] @ [m 0] else []"
  let ?m1 = "if j < k then m(0 := NOT (of_nat (2 ^ j))) else m"
  have "(2 :: nat) ^ (k + 2) < 2 ^ 32" by (rule power_strict_increasing) (use assms in simp_all)
  then have "unat (of_nat (2 ^ (k + 2)) :: u32) = 2 ^ (k + 2)" by (intro unat_of_nat_u32) simp
  then have lim: "unat ((2 :: u32) ^ (k + 2) div 4) = 2 ^ k" by (simp add: unat_div del: power_add)
  have "save_words ?b base (2 ^ k div 2) m [] = save_words ?b base (2 ^ j div 2) ?m1 ?tail"
    using assms save_outside [of j k "[]" base m] by (cases "j < k") simp_all
  also have "\<dots> = Some (\<lambda>i. if \<exists>e < j. i = 2 ^ e then NOT (of_nat i) else ?m1 i, ?saved @ ?tail)"
    using assms save_inside [of j j ?tail base ?m1] by (cases "j < k") simp_all
  finally have s: "save_words ?b base (2 ^ k div 2) m [] =
    Some (\<lambda>i. if \<exists>e < j. i = 2 ^ e then NOT (of_nat i) else ?m1 i, ?saved @ ?tail)" .
  let ?m2 = "(\<lambda>i. if \<exists>e < j. i = 2 ^ e then NOT (of_nat i) else ?m1 i)(0 := 0)"
  have c: "check_words ?b base (2 ^ (k + 2)) (2 ^ k) (2 ^ 0) ?m2 (?saved @ ?tail) =
      check_words ?b base (2 ^ (k + 2)) (2 ^ k) (2 ^ j) (\<lambda>i :: nat. if \<exists>e < j. 0 \<le> e \<and> i = 2 ^ e then m i else ?m2 i) ?tail"
    by (rule check_inside) (use assms in auto)
  have m3: "(\<lambda>i :: nat. if \<exists>e < j. 0 \<le> e \<and> i = 2 ^ e then m i else ?m2 i) = m(0 := 0)" by (auto simp: fun_eq_iff)
  have "check_words ?b base (2 ^ (k + 2)) (2 ^ k) (2 ^ j) (m(0 := 0)) ?tail = Some (2 ^ (j + 2), if j < k then m else m(0 := 0))"
  proof (cases "j < k")
    case True
    have "?tail \<noteq> []" "length ?tail = k - j" "last ?tail = m 0" using True by simp_all
    from nonempty_last [OF this] obtain w ws where t: "?tail = w # ws" "last (w # ws) = m 0" "length ws = k - j - 1" by blast
    have l: "(2 :: nat) ^ j < 2 ^ 30" "(2 :: nat) ^ j < 2 ^ k" using True assms by (simp_all add: power_less_30)
    have "restore_words ?b base (2 ^ k) (2 ^ Suc j) (m(0 := w)) ws = Some ((m(0 := w))(0 := last ((m(0 := w)) 0 # ws)))"
      by (rule restore_outside) (use True assms t in auto)
    moreover have "NOT (2 ^ j) \<noteq> (0 :: u32)"
    proof
      assume "NOT (2 ^ j) = (0 :: u32)"
      then have "(2 :: u32) ^ j = NOT 0" by (metis bit.double_compl)
      then have "bit (2 ^ j :: u32) 31" by simp
      then show False using True assms by (simp add: bit_exp_iff)
    qed
    ultimately show ?thesis
      using l t True by (simp add: check_words.simps [of _ _ _ _ "2 ^ j"] ram_chip_access)
  next
    case False
    then show ?thesis using assms by (simp add: check_words.simps)
  qed
  then show ?thesis unfolding get_ram_size_def lim Let_def s using c m3 by (simp add: ram_chip_base)
qed

theorem get_ram_size_correct_witness:
  "get_ram_size (ram_chip 0 (2 ^ 12)) 0 (2 ^ 16) (\<lambda>i. of_nat i + 7) = Some (2 ^ 14, \<lambda>i. of_nat i + 7) \<and>
   get_ram_size (ram_chip 0 (2 ^ 12)) 0 (2 ^ 14) (\<lambda>i. of_nat i + 7) = Some (2 ^ 14, (\<lambda>i. of_nat i + 7)(0 := 0))"
  using get_ram_size_correct [of 12 14 0 "\<lambda>i. of_nat i + 7"] get_ram_size_correct [of 12 12 0 "\<lambda>i. of_nat i + 7"] by simp

end
