(* ===== verification/Memcmd.thy ===== *)
theory Memcmd
  imports Memsize Image Cmdline Flash
begin

text \<open>
  The memory commands of \<^verbatim>\<open>common/cmd_mem.c\<close>: display, write, compare, copy, checksum, interactive modification and the
  memory test. The record holds memory and the static variables of the file. The ctrl-c key is a function of the number of
  times it was polled.
\<close>

record memcmd =
  mc_mem :: mem
  base_address :: u32
  dp_last_addr :: u32
  dp_last_size :: u32
  dp_last_length :: u32
  mm_last_addr :: u32
  mm_last_size :: u32

definition cmd_get_data_size :: "cstr \<Rightarrow> int \<Rightarrow> int" where
  "cmd_get_data_size arg dflt =
     (let len = length arg
      in if len > 2 \<and> arg ! (len - 2) = ch CHR ''.'' then
           let c = arg ! (len - 1)
           in if c = ch CHR ''b'' then 1 else if c = ch CHR ''w'' then 2 else if c = ch CHR ''l'' then 4
              else if c = ch CHR ''s'' then -2 else -1
         else dflt)"

text \<open>Accesses of a width: 4, 2, or one byte for everything else.\<close>

definition load :: "u32 \<Rightarrow> u32 \<Rightarrow> mem \<Rightarrow> u32" where
  "load width a m = (if width = 4 then word32 m a else if width = 2 then ucast (be16_val (m a) (m (a + 1))) else ucast (m a))"

definition store :: "u32 \<Rightarrow> u32 \<Rightarrow> u32 \<Rightarrow> mem \<Rightarrow> mem" where
  "store width a v m =
     mem_write a (if width = 4 then be32_bytes v else if width = 2 then be16_bytes (ucast v) else [ucast v]) m"

definition arg_addr :: "memcmd \<Rightarrow> cstr \<Rightarrow> u32" where
  "arg_addr s arg = fst (simple_strtoul arg 16) + base_address s"

subsection \<open>Write, compare, copy\<close>

primrec write_objects :: "nat \<Rightarrow> u32 \<Rightarrow> u32 \<Rightarrow> u32 \<Rightarrow> mem \<Rightarrow> mem" where
  "write_objects 0 width addr v m = m"
| "write_objects (Suc n) width addr v m = write_objects n width (addr + width) v (store width addr v m)"

definition do_mem_mw :: "cstr list \<Rightarrow> memcmd \<Rightarrow> int \<times> memcmd" where
  "do_mem_mw argv s =
     (let width = cmd_get_data_size (argv ! 0) 4
      in if length argv < 3 \<or> length argv > 4 then (1, s)
         else if width < 1 then (1, s)
         else
           let count = (if length argv = 4 then fst (simple_strtoul (argv ! 3) 16) else 1)
           in (0, s\<lparr>mc_mem := write_objects (unat count) (of_int width) (arg_addr s (argv ! 1))
                              (fst (simple_strtoul (argv ! 2) 16)) (mc_mem s)\<rparr>))"

text \<open>The result code and the number of equal objects in front of the first difference.\<close>

primrec compare_objects :: "nat \<Rightarrow> u32 \<Rightarrow> u32 \<Rightarrow> u32 \<Rightarrow> mem \<Rightarrow> nat \<Rightarrow> int \<times> nat" where
  "compare_objects 0 width a b m good = (0, good)"
| "compare_objects (Suc n) width a b m good =
     (if load width a m \<noteq> load width b m then (1, good) else compare_objects n width (a + width) (b + width) m (Suc good))"

definition do_mem_cmp :: "cstr list \<Rightarrow> memcmd \<Rightarrow> int \<times> nat" where
  "do_mem_cmp argv s =
     (let width = cmd_get_data_size (argv ! 0) 4
      in if length argv \<noteq> 4 then (1, 0)
         else if width < 0 then (1, 0)
         else compare_objects (unat (fst (simple_strtoul (argv ! 3) 16))) (of_int width) (arg_addr s (argv ! 1))
                (arg_addr s (argv ! 2)) (mc_mem s) 0)"

primrec copy_objects :: "nat \<Rightarrow> u32 \<Rightarrow> u32 \<Rightarrow> u32 \<Rightarrow> mem \<Rightarrow> mem" where
  "copy_objects 0 width a d m = m"
| "copy_objects (Suc n) width a d m = copy_objects n width (a + width) (d + width) (store width d (load width a m) m)"

definition do_mem_cp :: "'w flash_hw \<Rightarrow> flash_info list \<Rightarrow> cstr list \<Rightarrow> memcmd \<Rightarrow> 'w \<Rightarrow> (int \<times> memcmd \<times> 'w) option" where
  "do_mem_cp hw banks argv s w =
     (let width = cmd_get_data_size (argv ! 0) 4
      in if length argv \<noteq> 4 then Some (1, s, w)
         else if width < 0 then Some (1, s, w)
         else
           let addr = arg_addr s (argv ! 1); dest = arg_addr s (argv ! 2); count = fst (simple_strtoul (argv ! 3) 16)
           in if count = 0 then Some (1, s, w)
              else if addr2info banks dest \<noteq> None then
                map_option (\<lambda>(rc, w). (if rc \<noteq> 0 then 1 else 0, s, w))
                  (flash_write hw banks (mem_read addr (unat (count * of_int width)) (mc_mem s)) dest w)
              else Some (0, s\<lparr>mc_mem := copy_objects (unat count) (of_int width) addr dest (mc_mem s)\<rparr>, w))"

definition do_mem_base :: "cstr list \<Rightarrow> memcmd \<Rightarrow> int \<times> memcmd" where
  "do_mem_base argv s = (0, if length argv > 1 then s\<lparr>base_address := fst (simple_strtoul (argv ! 1) 16)\<rparr> else s)"

text \<open>The address for the result is not relative to the base address.\<close>

definition do_mem_crc :: "cstr list \<Rightarrow> memcmd \<Rightarrow> int \<times> memcmd" where
  "do_mem_crc argv s =
     (if length argv < 3 then (1, s)
      else
        let addr = arg_addr s (argv ! 1);
            len = fst (simple_strtoul (argv ! 2) 16);
            crc = crc32 addr 0 (mem_read addr (unat len) (mc_mem s))
        in (0, if length argv > 3 then s\<lparr>mc_mem := store 4 (fst (simple_strtoul (argv ! 3) 16)) crc (mc_mem s)\<rparr> else s))"

subsection \<open>Display\<close>

definition ascii_char :: "byte \<Rightarrow> byte" where
  "ascii_char c = (if \<not> isprint c \<or> c \<ge> 0x80 then ch CHR ''.'' else c)"

primrec hex_objects :: "nat \<Rightarrow> u32 \<Rightarrow> u32 \<Rightarrow> mem \<Rightarrow> byte list option" where
  "hex_objects 0 width a m = Some []"
| "hex_objects (Suc n) width a m =
     do { t \<leftarrow> printf '' %0*x'' [VA_word (width * 2), VA_word (load width a m)];
          ts \<leftarrow> hex_objects n width (a + width) m;
          Some (t @ ts) }"

text \<open>The lines of at most \<open>linelen\<close> objects; \<open>brk\<close> is the state of ctrl-c after each line.\<close>

function buffer_lines :: "(nat \<Rightarrow> bool) \<Rightarrow> nat \<Rightarrow> u32 \<Rightarrow> u32 \<Rightarrow> nat \<Rightarrow> nat \<Rightarrow> mem \<Rightarrow> (int \<times> byte list) option" where
  "buffer_lines brk k addr width count linelen m =
     (if count = 0 \<or> linelen = 0 then Some (0, [])
      else
        let linelen = min count linelen;
            bytes = mem_read addr (linelen * unat width) m
        in do { a \<leftarrow> printf ''%08lx:'' [VA_word addr];
                hex \<leftarrow> hex_objects linelen width addr m;
                asc \<leftarrow> printf (''    %s'' @ newline) [VA_str (Some (map ascii_char bytes))];
                if brk k then Some (-1, a @ hex @ asc)
                else do { (rc, out) \<leftarrow> buffer_lines brk (Suc k) (addr + of_nat linelen * width) width (count - linelen) linelen m;
                          Some (rc, a @ hex @ asc @ out) } })"
  by pat_completeness auto
termination by (relation "measure (\<lambda>(brk, k, addr, width, count, linelen, m). count)") auto

declare buffer_lines.simps [simp del]

definition print_buffer :: "(nat \<Rightarrow> bool) \<Rightarrow> u32 \<Rightarrow> u32 \<Rightarrow> u32 \<Rightarrow> u32 \<Rightarrow> mem \<Rightarrow> (int \<times> byte list) option" where
  "print_buffer brk addr width count linelen m =
     (let linelen = (if linelen * width > 64 then 64 div width else linelen);
          linelen = (if linelen < 1 then 16 div width else linelen)
      in buffer_lines brk 0 addr width (unat count) (unat linelen) m)"

abbreviation (input) CMD_FLAG_REPEAT :: u32 where "CMD_FLAG_REPEAT \<equiv> 1"

definition do_mem_md :: "(nat \<Rightarrow> bool) \<Rightarrow> u32 \<Rightarrow> cstr list \<Rightarrow> memcmd \<Rightarrow> (int \<times> memcmd \<times> byte list) option" where
  "do_mem_md brk flag argv s =
     (let fresh = (flag AND CMD_FLAG_REPEAT = 0); sz = cmd_get_data_size (argv ! 0) 4
      in if length argv < 2 then Some (1, s, [])
         else if fresh \<and> sz < 0 then Some (1, s, [])
         else
           let width = (if fresh then of_int sz else dp_last_size s);
               addr = (if fresh then arg_addr s (argv ! 1) else dp_last_addr s);
               len = (if fresh \<and> length argv > 2 then fst (simple_strtoul (argv ! 2) 16) else dp_last_length s)
           in do { (_, out) \<leftarrow> (if width = 0 then None else print_buffer brk addr width len (16 div width) (mc_mem s));
                   Some (0, s\<lparr>dp_last_addr := addr + width * len, dp_last_length := len, dp_last_size := width\<rparr>, out) })"

subsection \<open>Interactive modification\<close>

text \<open>One prompt: the new address and memory, and whether the command goes on. There is no value while input is missing.\<close>

definition mod_step :: "bool \<Rightarrow> u32 \<Rightarrow> u32 \<Rightarrow> mem \<Rightarrow> byte list \<Rightarrow> (bool \<times> u32 \<times> mem \<times> byte list) option" where
  "mod_step incrflag width addr m inp =
     (case readline (cs '' ? '') inp of
        (Blocked, _) \<Rightarrow> None
      | (Line buf n, inp, _) \<Rightarrow>
          if n = 0 \<or> (n = 1 \<and> peek buf = ch CHR ''-'') then
            Some (True, if incrflag then (if n \<noteq> 0 then addr - width else addr + width) else addr, m, inp)
          else
            let (i, rest) = simple_strtoul buf 16
            in if rest \<noteq> buf then Some (True, if incrflag then addr + width else addr, store width addr i m, inp)
               else Some (False, addr, m, inp))"

partial_function (option) mod_loop :: "bool \<Rightarrow> u32 \<Rightarrow> u32 \<Rightarrow> mem \<Rightarrow> byte list \<Rightarrow> (u32 \<times> mem \<times> byte list) option" where
  "mod_loop incrflag width addr m inp =
     Option.bind (mod_step incrflag width addr m inp)
       (\<lambda>(more, addr, m, inp). if more then mod_loop incrflag width addr m inp else Some (addr, m, inp))"

definition mod_mem :: "bool \<Rightarrow> u32 \<Rightarrow> cstr list \<Rightarrow> memcmd \<Rightarrow> byte list \<Rightarrow> (int \<times> memcmd \<times> byte list) option" where
  "mod_mem incrflag flag argv s inp =
     (let fresh = (flag AND CMD_FLAG_REPEAT = 0); sz = cmd_get_data_size (argv ! 0) 4
      in if length argv \<noteq> 2 then Some (1, s, inp)
         else if fresh \<and> sz < 0 then Some (1, s, inp)
         else
           let width = (if fresh then of_int sz else mm_last_size s);
               addr = (if fresh then arg_addr s (argv ! 1) else mm_last_addr s)
           in map_option (\<lambda>(addr, m, inp). (0, s\<lparr>mc_mem := m, mm_last_addr := addr, mm_last_size := width\<rparr>, inp))
                (mod_loop incrflag width addr (mc_mem s) inp))"

definition do_mem_mm :: "u32 \<Rightarrow> cstr list \<Rightarrow> memcmd \<Rightarrow> byte list \<Rightarrow> (int \<times> memcmd \<times> byte list) option" where
  "do_mem_mm = mod_mem True"

definition do_mem_nm :: "u32 \<Rightarrow> cstr list \<Rightarrow> memcmd \<Rightarrow> byte list \<Rightarrow> (int \<times> memcmd \<times> byte list) option" where
  "do_mem_nm = mod_mem False"

subsection \<open>The memory test\<close>

text \<open>The passes over the words from an address up to a limit. They do not end when the address wraps around below the
  limit.\<close>

partial_function (option) test_write :: "'m bus \<Rightarrow> u32 \<Rightarrow> u32 \<Rightarrow> u32 \<Rightarrow> u32 \<Rightarrow> 'm \<Rightarrow> 'm option" where
  "test_write b addr lim val incr m =
     (if addr < lim then test_write b (addr + 4) lim (val + incr) incr (bus_write b addr val m) else Some m)"

text \<open>The result: whether it was interrupted, the number of errors, and the number of polls of ctrl-c.\<close>

partial_function (option) test_read ::
  "'m bus \<Rightarrow> (nat \<Rightarrow> bool) \<Rightarrow> u32 \<Rightarrow> u32 \<Rightarrow> u32 \<Rightarrow> u32 \<Rightarrow> 'm \<Rightarrow> u32 \<Rightarrow> nat \<Rightarrow> (bool \<times> u32 \<times> nat) option" where
  "test_read b ctrlc addr lim val incr m errs k =
     (if addr < lim then
        if bus_read b addr m \<noteq> val then
          if ctrlc k then Some (True, errs + 1, Suc k)
          else test_read b ctrlc (addr + 4) lim (val + incr) incr m (errs + 1) (Suc k)
        else test_read b ctrlc (addr + 4) lim (val + incr) incr m errs k
      else Some (False, errs, k))"

definition flip_pattern :: "u32 \<Rightarrow> u32" where
  "flip_pattern p = (if p AND 0x80000000 \<noteq> 0 then - p else NOT p)"

text \<open>The count of iterations is a 32-bit \<^verbatim>\<open>int\<close> and wraps.\<close>

partial_function (option) mtest_loop ::
  "'m bus \<Rightarrow> (nat \<Rightarrow> bool) \<Rightarrow> u32 \<Rightarrow> u32 \<Rightarrow> int \<Rightarrow> int \<Rightarrow> u32 \<Rightarrow> u32 \<Rightarrow> u32 \<Rightarrow> nat \<Rightarrow> 'm \<Rightarrow> (int \<times> 'm) option" where
  "mtest_loop b ctrlc start lim limit iterations pattern incr errs k m =
     (if ctrlc k then Some (1, m)
      else if limit \<noteq> 0 \<and> iterations > limit then Some (if errs \<noteq> 0 then 1 else 0, m)
      else do { m \<leftarrow> test_write b start lim pattern incr m;
                (stop, errs, k) \<leftarrow> test_read b ctrlc start lim pattern incr m errs (Suc k);
                if stop then Some (1, m)
                else mtest_loop b ctrlc start lim limit (sint (of_int (iterations + 1) :: u32)) (flip_pattern pattern) (- incr) errs k m })"

definition do_mem_mtest :: "'m bus \<Rightarrow> (nat \<Rightarrow> bool) \<Rightarrow> cstr list \<Rightarrow> 'm \<Rightarrow> (int \<times> 'm) option" where
  "do_mem_mtest b ctrlc argv m =
     (let num = (\<lambda>i dflt. if length argv > i then fst (simple_strtoul (argv ! i) 16) else dflt)
      in mtest_loop b ctrlc (num 1 0) (num 2 0x04000000) (sint (num 4 0)) 1 (num 3 0) 1 0 0 m)"

end
