(* ===== verification/MemcmdProps.thy ===== *)
theory MemcmdProps
  imports Memcmd
begin

text \<open>
  The memory test finds a stuck bit and accepts good memory, and a copy compares equal with its source.
\<close>

subsection \<open>The memory test\<close>

text \<open>Words behind a fault: reading shows what \<open>fault\<close> makes of the stored word. A stuck cell has one bit that always reads
  the same.\<close>

definition cell_bus :: "(u32 \<Rightarrow> u32 \<Rightarrow> u32) \<Rightarrow> (u32 \<Rightarrow> u32) bus" where
  "cell_bus fault = \<lparr>bus_read = \<lambda>a m. fault a (m a), bus_write = \<lambda>a v m. m(a := v)\<rparr>"

definition stuck_at :: "u32 \<Rightarrow> nat \<Rightarrow> bool \<Rightarrow> u32 \<Rightarrow> u32 \<Rightarrow> u32" where
  "stuck_at bad n s a v = (if a = bad then if s then set_bit n v else unset_bit n v else v)"

definition good_cell :: "u32 \<Rightarrow> u32 \<Rightarrow> u32" where
  "good_cell a v = v"

lemma cell_bus_access [simp]:
  "bus_read (cell_bus fault) a m = fault a (m a)" "bus_write (cell_bus fault) a v m = m(a := v)"
  by (simp_all add: cell_bus_def)

text \<open>The number of words of a range.\<close>

definition words_in :: "u32 \<Rightarrow> u32 \<Rightarrow> nat" where
  "words_in a lim = (unat lim - unat a + 3) div 4"

lemma words_in_step:
  assumes "a < lim" "lim \<le> 0xFFFFFFFC"
  shows "words_in a lim = Suc (words_in (a + 4) lim)"
proof -
  have l: "unat a < unat lim" "unat lim \<le> 4294967292"
    using assms by (simp_all add: word_less_nat_alt word_le_nat_alt)
  then have "unat (a + 4) = unat a + 4" by (simp add: unat_word_ariths)
  moreover have "(n - k + 3) div 4 = Suc ((n - (k + 4) + 3) div 4)" if "k < n" for k n :: nat
  proof (cases "k + 4 \<le> n")
    case True
    then obtain d where "n = k + 4 + d" using le_Suc_ex by blast
    then show ?thesis using div_add_self1 [of 4 "d + 3"] by (simp add: add.commute)
  next
    case False
    then have "n - k + 3 = n - k - 1 + 1 * 4" "n - k - 1 < 4" "n - (k + 4) = 0" using that by auto
    then show ?thesis by (simp only: div_mult_self1) simp
  qed
  ultimately show ?thesis using l by (simp only: words_in_def)
qed

lemma words_in_0: "\<not> a < lim \<Longrightarrow> words_in a lim = 0"
  by (simp add: words_in_def word_less_nat_alt)

lemma words_in_bound: "lim \<le> 0xFFFFFFFC \<Longrightarrow> words_in a lim < 1073741824"
  by (simp add: words_in_def word_le_nat_alt)

lemma word_addr_Suc: "word_addr (a + 4) i = word_addr a (Suc i)"
  by (simp add: word_addr_def algebra_simps)

lemma word_addr_0 [simp]: "word_addr a 0 = a"
  by (simp add: word_addr_def)

lemma word_addr_inj: "i < 1073741824 \<Longrightarrow> j < 1073741824 \<Longrightarrow> word_addr a i = word_addr a j \<longleftrightarrow> i = j"
  using word_addr_index [of i a] word_addr_index [of j a] by (simp, metis)

lemma test_write_cells:
  assumes "lim \<le> 0xFFFFFFFC"
  shows "\<exists>m'. test_write (cell_bus fault) a lim v incr m = Some m' \<and>
    (\<forall>i < words_in a lim. m' (word_addr a i) = v + of_nat i * incr) \<and>
    (\<forall>x. (\<forall>i < words_in a lim. x \<noteq> word_addr a i) \<longrightarrow> m' x = m x)"
proof (induction "words_in a lim" arbitrary: a v m)
  case 0
  then have "\<not> a < lim" using words_in_step assms by fastforce
  then show ?case by (simp add: test_write.simps words_in_0)
next
  case (Suc n)
  then have lt: "a < lim" using words_in_0 by fastforce
  have n: "words_in (a + 4) lim = n" using words_in_step [OF lt assms] Suc.hyps(2) by simp
  obtain m' where m': "test_write (cell_bus fault) (a + 4) lim (v + incr) incr (m(a := v)) = Some m'"
      "\<forall>i < n. m' (word_addr (a + 4) i) = v + incr + of_nat i * incr"
      "\<forall>x. (\<forall>i < n. x \<noteq> word_addr (a + 4) i) \<longrightarrow> m' x = (m(a := v)) x"
    using Suc.hyps(1) [of "a + 4" "v + incr" "m(a := v)"] n by auto
  have b: "Suc n < 1073741824" using words_in_bound [OF assms, of a] Suc.hyps(2) by simp
  have "m' (word_addr a i) = v + of_nat i * incr" if "i < Suc n" for i
  proof (cases i)
    case 0
    have "\<forall>j < n. a \<noteq> word_addr (a + 4) j" using word_addr_inj [of 0 "Suc _" a] b by (force simp: word_addr_Suc)
    then show ?thesis using m'(3) 0 by simp
  next
    case (Suc j)
    then show ?thesis using m'(2) that by (simp add: word_addr_Suc algebra_simps)
  qed
  moreover have "m' x = m x" if "\<forall>i < Suc n. x \<noteq> word_addr a i" for x
    using m'(3) that by (metis Suc_less_eq fun_upd_apply word_addr_0 word_addr_Suc zero_less_Suc)
  ultimately show ?case using m'(1) lt Suc.hyps(2) by (subst test_write.simps) auto
qed

text \<open>The number of words that read back differently is added to the errors.\<close>

lemma test_read_cells:
  assumes "lim \<le> 0xFFFFFFFC" "\<forall>k. \<not> ctrlc k"
  shows "\<exists>k'. test_read (cell_bus fault) ctrlc a lim v incr m errs k =
    Some (False, errs + of_nat (card {i. i < words_in a lim \<and> fault (word_addr a i) (m (word_addr a i)) \<noteq> v + of_nat i * incr}), k')"
proof (induction "words_in a lim" arbitrary: a v errs k)
  case 0
  then have "\<not> a < lim" using words_in_step assms by fastforce
  then show ?case by (simp add: test_read.simps words_in_0)
next
  case (Suc n)
  then have lt: "a < lim" using words_in_0 by fastforce
  have n: "words_in (a + 4) lim = n" using words_in_step [OF lt assms(1)] Suc.hyps(2) by simp
  let ?S = "\<lambda>a v n. {i. i < n \<and> fault (word_addr a i) (m (word_addr a i)) \<noteq> v + of_nat i * incr}"
  have "?S a v (Suc n) = (if fault a (m a) \<noteq> v then insert 0 else id) (Suc ` ?S (a + 4) (v + incr) n)"
    by (auto simp: less_Suc_eq_0_disj word_addr_Suc algebra_simps)
  then have c: "card (?S a v (Suc n)) = (if fault a (m a) \<noteq> v then 1 else 0) + card (?S (a + 4) (v + incr) n)"
    by (simp add: card_image)
  let ?e = "errs + (if fault a (m a) \<noteq> v then 1 else 0)"
  let ?k = "if fault a (m a) \<noteq> v then Suc k else k"
  obtain k' where "test_read (cell_bus fault) ctrlc (a + 4) lim (v + incr) incr m ?e ?k =
      Some (False, ?e + of_nat (card (?S (a + 4) (v + incr) n)), k')"
    using Suc.hyps(1) [of "a + 4" "v + incr" ?e ?k] n by auto
  moreover have "test_read (cell_bus fault) ctrlc a lim v incr m errs k =
      test_read (cell_bus fault) ctrlc (a + 4) lim (v + incr) incr m ?e ?k"
    using lt assms(2) by (subst test_read.simps) auto
  ultimately show ?case using c Suc.hyps(2) [symmetric] by (simp add: add.assoc)
qed

text \<open>The errors of one pass, and of \<open>r\<close> passes.\<close>

definition pass_errors :: "(u32 \<Rightarrow> u32 \<Rightarrow> u32) \<Rightarrow> u32 \<Rightarrow> nat \<Rightarrow> u32 \<Rightarrow> u32 \<Rightarrow> nat" where
  "pass_errors fault a n p incr = card {i. i < n \<and> fault (word_addr a i) (p + of_nat i * incr) \<noteq> p + of_nat i * incr}"

primrec total_errors :: "(u32 \<Rightarrow> u32 \<Rightarrow> u32) \<Rightarrow> u32 \<Rightarrow> nat \<Rightarrow> nat \<Rightarrow> u32 \<Rightarrow> u32 \<Rightarrow> nat" where
  "total_errors fault a n 0 p incr = 0"
| "total_errors fault a n (Suc r) p incr = pass_errors fault a n p incr + total_errors fault a n r (flip_pattern p) (- incr)"

lemma mtest_loop_errors:
  assumes lim: "lim \<le> 0xFFFFFFFC" and nc: "\<forall>k. \<not> ctrlc k" and "limit > 0" "limit < 0x7FFFFFFF" "0 < iterations" "iterations + int r = limit + 1"
  shows "\<exists>m'. mtest_loop (cell_bus fault) ctrlc a lim limit iterations p incr errs k m =
    Some (if errs + of_nat (total_errors fault a (words_in a lim) r p incr) \<noteq> 0 then 1 else 0, m')"
  using assms(3-)
proof (induction r arbitrary: iterations p incr errs k m)
  case 0
  then show ?case using nc by (subst mtest_loop.simps) simp
next
  case (Suc r)
  let ?n = "words_in a lim"
  obtain m1 where w: "test_write (cell_bus fault) a lim p incr m = Some m1"
      "\<forall>i < ?n. m1 (word_addr a i) = p + of_nat i * incr"
    using test_write_cells [OF lim, of fault a p incr m] by auto
  have c: "{i. i < ?n \<and> fault (word_addr a i) (m1 (word_addr a i)) \<noteq> p + of_nat i * incr} =
      {i. i < ?n \<and> fault (word_addr a i) (p + of_nat i * incr) \<noteq> p + of_nat i * incr}" using w(2) by auto
  obtain k' where r: "test_read (cell_bus fault) ctrlc a lim p incr m1 errs (Suc k) =
      Some (False, errs + of_nat (pass_errors fault a ?n p incr), k')"
    using test_read_cells [OF lim nc, of fault a p incr m1 errs "Suc k"] by (auto simp: c pass_errors_def)
  have "mtest_loop (cell_bus fault) ctrlc a lim limit iterations p incr errs k m =
      mtest_loop (cell_bus fault) ctrlc a lim limit (sint (of_int (iterations + 1) :: u32)) (flip_pattern p) (- incr)
        (errs + of_nat (pass_errors fault a ?n p incr)) k' m1"
    using nc Suc.prems by (subst mtest_loop.simps) (simp add: w(1) r)
  moreover have "sint (of_int (iterations + 1) :: u32) = iterations + 1"
    using Suc.prems by (simp add: signed_of_int signed_take_bit_int_eq_self del: of_int_add)
  ultimately show ?case
    using Suc.IH [of "iterations + 1" "flip_pattern p" "- incr" "errs + of_nat (pass_errors fault a ?n p incr)" k' m1] Suc.prems
    by (simp add: add.assoc)
qed

lemma total_errors_good: "total_errors good_cell a n r p incr = 0"
  by (induction r arbitrary: p incr) (simp_all add: pass_errors_def good_cell_def)

text \<open>With one stuck cell there is at most one error in a pass, and the second pass writes the complement of the first.\<close>

lemma pass_errors_stuck:
  assumes "n < 1073741824" "i < n"
  shows "pass_errors (stuck_at (word_addr a i) b s) a n p incr =
    (if stuck_at (word_addr a i) b s (word_addr a i) (p + of_nat i * incr) \<noteq> p + of_nat i * incr then 1 else 0)"
proof -
  have "{j. j < n \<and> stuck_at (word_addr a i) b s (word_addr a j) (p + of_nat j * incr) \<noteq> p + of_nat j * incr} =
      (if stuck_at (word_addr a i) b s (word_addr a i) (p + of_nat i * incr) \<noteq> p + of_nat i * incr then {i} else {})"
    using assms word_addr_inj [of _ i a] by (auto simp: stuck_at_def)
  then show ?thesis by (simp add: pass_errors_def)
qed

lemma total_errors_stuck_le:
  assumes "n < 1073741824" "i < n"
  shows "total_errors (stuck_at (word_addr a i) b s) a n r p incr \<le> r"
proof (induction r arbitrary: p incr)
  case (Suc r)
  then show ?case by (simp add: pass_errors_stuck [OF assms] le_SucI)
qed simp

lemma stuck_complement:
  assumes "b < 32"
  shows "stuck_at x b s x v \<noteq> v \<or> stuck_at x b s x (NOT v) \<noteq> NOT v"
proof -
  have "bit (stuck_at x b s x w) b = s" for w using assms by (simp add: stuck_at_def bit_set_bit_iff bit_unset_bit_iff)
  moreover have "bit (NOT v) b \<longleftrightarrow> \<not> bit v b" using assms by (simp add: bit_not_iff)
  ultimately show ?thesis by metis
qed

lemma flip_low: "p < 0x80000000 \<Longrightarrow> flip_pattern p = NOT p"
proof -
  assume "p < 0x80000000"
  then have "p AND mask 31 = p" by (intro less_mask_eq) simp
  then have "\<not> bit p 31" by (metis bit_and_iff bit_mask_iff less_irrefl)
  then have "p AND push_bit 31 1 = 0"
    by (intro bit_word_eqI) (auto simp only: bit_and_iff bit_push_bit_iff bit_1_iff bit_0_eq bot_bool_def bot_fun_def dest!: le_antisym)
  then show ?thesis by (simp add: flip_pattern_def)
qed

lemma total_errors_stuck:
  assumes "n < 1073741824" "i < n" "b < 32" "p < 0x80000000"
  shows "0 < total_errors (stuck_at (word_addr a i) b s) a n (Suc (Suc r)) p 1"
proof -
  have "NOT p + of_nat i * - 1 = NOT (p + of_nat i)" by (simp add: not_eq_complement)
  then show ?thesis using stuck_complement [OF assms(3), of "word_addr a i" s "p + of_nat i"]
    by (auto simp: pass_errors_stuck [OF assms(1,2)] flip_low [OF assms(4)])
qed

text \<open>C19: the memory test tells good memory from memory with a stuck bit. For a range that ends at 0xFFFFFFFC at the latest, a pattern
  whose top bit is clear, a limit of at least two iterations and below 0x7FFFFFFF (which the counter cannot exceed), and no ctrl-c,
  \<^verbatim>\<open>mtest\<close> returns 0 when every word reads as written, and 1 when any one bit of any one word of the range is stuck, at either
  value.\<close>

theorem mtest_verdict:
  assumes "length argv > 4" "fst (simple_strtoul (argv ! 1) 16) = start" "fst (simple_strtoul (argv ! 2) 16) = lim"
    "fst (simple_strtoul (argv ! 3) 16) = pattern" "fst (simple_strtoul (argv ! 4) 16) = limit"
    "lim \<le> 0xFFFFFFFC" "pattern < 0x80000000" "2 \<le> sint limit" "\<forall>k. \<not> ctrlc k"
    "limit \<noteq> 0x7FFFFFFF"
  shows "(\<exists>m'. do_mem_mtest (cell_bus good_cell) ctrlc argv m = Some (0, m')) \<and>
    (\<forall>i b s. i < words_in start lim \<and> b < 32 \<longrightarrow>
      (\<exists>m'. do_mem_mtest (cell_bus (stuck_at (word_addr start i) b s)) ctrlc argv m = Some (1, m')))"
proof (intro conjI allI impI)
  have eq: "do_mem_mtest c ctrlc argv m = mtest_loop c ctrlc start lim (sint limit) 1 pattern 1 0 0 m" for c :: "(u32 \<Rightarrow> u32) bus"
    using assms(1-5) by (simp add: do_mem_mtest_def)
  define r where "r = nat (sint limit)"
  have r: "1 + int r = sint limit + 1" "2 \<le> r" using assms(8) by (simp_all add: r_def)
  have r32: "r < 2 ^ 32" using sint_lt [of limit] assms(8) by (simp add: r_def)
  have top: "sint limit < 0x7FFFFFFF"
  proof -
    have "sint limit \<noteq> sint (0x7FFFFFFF :: u32)" using assms(10) signed_word_eqI by blast
    then show ?thesis using sint_lt [of limit] by simp
  qed
  note loop = mtest_loop_errors [OF assms(6,9) _ top _ r(1)]
  show "\<exists>m'. do_mem_mtest (cell_bus good_cell) ctrlc argv m = Some (0, m')"
    using loop [of good_cell start pattern 1 0 0 m] assms(8) by (simp add: eq total_errors_good)
  fix i b :: nat and s assume i: "i < words_in start lim \<and> b < 32"
  let ?f = "stuck_at (word_addr start i) b s"
  obtain q where q: "r = Suc (Suc q)" using r(2) by (metis Suc_le_D numeral_2_eq_2 Suc_le_mono)
  have n: "words_in start lim < 1073741824" by (rule words_in_bound) (rule assms)
  have "0 < total_errors ?f start (words_in start lim) r pattern 1"
    using total_errors_stuck [OF n _ _ assms(7), of i b start s q] i q by simp
  moreover have "total_errors ?f start (words_in start lim) r pattern 1 < 2 ^ 32"
    using total_errors_stuck_le [OF n, of i start b s r pattern 1] i r32 by simp
  ultimately have "(of_nat (total_errors ?f start (words_in start lim) r pattern 1) :: u32) \<noteq> 0"
    using unat_of_nat_u32 [of "total_errors ?f start (words_in start lim) r pattern 1"] by auto
  then show "\<exists>m'. do_mem_mtest (cell_bus ?f) ctrlc argv m = Some (1, m')"
    using loop [of ?f start pattern 1 0 0 m] assms(8) by (simp add: eq)
qed

theorem mtest_verdict_witness:
  "\<exists>m'. do_mem_mtest (cell_bus (stuck_at (word_addr 0 2) 5 True)) (\<lambda>_. False)
      (map cs [''mtest'', ''0'', ''10'', ''0'', ''2'']) (\<lambda>_. 0) = Some (1, m')"
proof -
  have a: "fst (simple_strtoul (cs ''0'') 16) = 0" "fst (simple_strtoul (cs ''10'') 16) = 0x10" "fst (simple_strtoul (cs ''2'') 16) = 2"
    by code_simp+
  have "2 < words_in 0 0x10" by (simp add: words_in_def)
  then show ?thesis
    using mtest_verdict [of "map cs [''mtest'', ''0'', ''10'', ''0'', ''2'']" 0 "0x10" 0 2 "\<lambda>_. False" "\<lambda>_. 0"]
    by (simp add: a)
qed

subsection \<open>Copy and compare\<close>

lemma cmd_get_data_size_cases: "cmd_get_data_size arg 4 \<in> {1, 2, 4, - 1, - 2}"
  by (simp add: cmd_get_data_size_def Let_def)

text \<open>An access of a width moves the bytes it covers.\<close>

lemma mem_read_widths:
  "mem_read a 1 m = [m a]" "mem_read a 2 m = [m a, m (a + 1)]" "mem_read a 4 m = [m a, m (a + 1), m (a + 2), m (a + 3)]"
  by (simp_all add: mem_read_def upt_rec)

lemma narrow_widen: "ucast (ucast (x :: byte) :: u32) = x" "ucast (ucast (y :: u16) :: u32) = y"
  by (rule bit_word_eqI, simp add: bit_simps)+

lemma store_load:
  assumes "w \<in> {1, 2, 4}"
  shows "store (of_nat w) d (load (of_nat w) a m) m' = mem_write d (mem_read a w m) m'"
proof -
  consider "w = 1" | "w = 2" | "w = 4" using assms by blast
  then show ?thesis
    by cases (simp_all add: store_def load_def word32_def be32_bytes_val be16_bytes_val narrow_widen mem_read_widths [simplified])
qed

lemma load_cong:
  assumes "w \<in> {1, 2, 4}" "mem_read a w m = mem_read d w m'"
  shows "load (of_nat w) a m = load (of_nat w) d m'"
proof -
  consider "w = 1" | "w = 2" | "w = 4" using assms(1) by blast
  then show ?thesis using assms(2) by cases (simp_all add: load_def word32_def mem_read_widths [simplified])
qed

lemma mem_read_apart:
  assumes "\<forall>i < n. \<forall>j < length bs. a + of_nat i \<noteq> d + of_nat j"
  shows "mem_read a n (mem_write d bs m) = mem_read a n m"
  using assms by (simp add: mem_read_def mem_write_other)

lemma copy_objects_eq:
  assumes w: "w \<in> {1, 2, 4}" and "\<forall>i < n * w. \<forall>j < n * w. a + of_nat i \<noteq> d + of_nat j"
  shows "copy_objects n (of_nat w) a d m = mem_write d (mem_read a (n * w) m) m"
  using assms(2)
proof (induction n arbitrary: a d m)
  case (Suc n)
  let ?m = "mem_write d (mem_read a w m) m"
  have sh: "a + of_nat w + of_nat i \<noteq> d + of_nat j" if "i < n * w" "j < Suc n * w" for i j
    using Suc.prems [rule_format, of "w + i" j] that by (simp add: add.assoc)
  have sh2: "a + of_nat w + of_nat i \<noteq> d + of_nat w + of_nat j" if "i < n * w" "j < n * w" for i j
    using sh [of i "w + j"] that by (simp add: add.assoc)
  have "copy_objects (Suc n) (of_nat w) a d m = copy_objects n (of_nat w) (a + of_nat w) (d + of_nat w) ?m"
    by (simp add: store_load [OF w])
  also have "\<dots> = mem_write (d + of_nat w) (mem_read (a + of_nat w) (n * w) ?m) ?m"
    by (rule Suc.IH) (use sh2 in blast)
  also have "mem_read (a + of_nat w) (n * w) ?m = mem_read (a + of_nat w) (n * w) m"
    by (rule mem_read_apart) (use sh in simp)
  also have "mem_write (d + of_nat w) (mem_read (a + of_nat w) (n * w) m) ?m = mem_write d (mem_read a (Suc n * w) m) m"
    using mem_write_append [of d "mem_read a w m" "mem_read (a + of_nat w) (n * w) m" m] by (simp add: mem_read_append)
  finally show ?case .
qed simp

lemma compare_objects_same:
  assumes w: "w \<in> {1, 2, 4}" and "mem_read a (n * w) m = mem_read d (n * w) m"
  shows "compare_objects n (of_nat w) a d m good = (0, good + n)"
  using assms(2)
proof (induction n arbitrary: a d good)
  case (Suc n)
  have e: "mem_read a w m = mem_read d w m" "mem_read (a + of_nat w) (n * w) m = mem_read (d + of_nat w) (n * w) m"
    using Suc.prems by (simp_all add: mem_read_append)
  show ?case using load_cong [OF w e(1)] Suc.IH [OF e(2), of "Suc good"] by simp
qed simp

lemma disjoint_short:
  assumes "\<forall>i < n. \<forall>j < n. (a :: u32) + of_nat i \<noteq> d + of_nat j"
  shows "n \<le> 4294967296"
proof (rule ccontr)
  assume "\<not> n \<le> 4294967296"
  moreover have "unat (d - a) < 4294967296" using unsigned_less [of "d - a"] by simp
  ultimately show False using assms [rule_format, of "unat (d - a)" 0] by simp
qed

text \<open>A block copied with \<^verbatim>\<open>cp\<close> outside flash, to a place that does not overlap it, is stored there in full and nothing else changes; \<^verbatim>\<open>cmp\<close> of the two blocks in the same width then finds all \<open>n\<close> objects equal.\<close>

theorem cp_then_cmp:
  assumes "length args = 3" "cmd_get_data_size cp 4 = int w" "cmd_get_data_size cmp 4 = int w"
    "a = arg_addr s (args ! 0)" "d = arg_addr s (args ! 1)" "n = unat (fst (simple_strtoul (args ! 2) 16))" "n \<noteq> 0"
    "addr2info banks d = None" "\<forall>i < n * w. \<forall>j < n * w. a + of_nat i \<noteq> d + of_nat j"
  shows "\<exists>s'. do_mem_cp hw banks (cp # args) s x = Some (0, s', x) \<and>
    s' = s\<lparr>mc_mem := mem_write d (mem_read a (n * w) (mc_mem s)) (mc_mem s)\<rparr> \<and>
    mem_read d (n * w) (mc_mem s') = mem_read a (n * w) (mc_mem s) \<and> do_mem_cmp (cmp # args) s' = (0, n)"
proof -
  have w: "w \<in> {1, 2, 4}" using cmd_get_data_size_cases [of cp] assms(2) by auto
  define s' where "s' = s\<lparr>mc_mem := mem_write d (mem_read a (n * w) (mc_mem s)) (mc_mem s)\<rparr>"
  have cp: "do_mem_cp hw banks (cp # args) s x = Some (0, s', x)"
    using assms copy_objects_eq [OF w assms(9)] by (simp add: do_mem_cp_def Let_def s'_def unat_eq_zero)
  have d: "mem_read d (n * w) (mc_mem s') = mem_read a (n * w) (mc_mem s)"
    using mem_read_write [of "mem_read a (n * w) (mc_mem s)" d "mc_mem s"] disjoint_short [OF assms(9)] by (simp add: s'_def)
  have a: "mem_read a (n * w) (mc_mem s') = mem_read a (n * w) (mc_mem s)"
    using assms(9) by (simp add: s'_def mem_read_apart)
  have "arg_addr s' = arg_addr s" by (simp add: s'_def arg_addr_def fun_eq_iff)
  then have "do_mem_cmp (cmp # args) s' = (0, n)"
    using assms compare_objects_same [OF w, of a n "mc_mem s'" d 0] a d by (simp add: do_mem_cmp_def Let_def)
  with cp d s'_def show ?thesis by blast
qed

theorem cp_then_cmp_witness:
  "\<forall>hw :: unit flash_hw. \<exists>s'. do_mem_cp hw [] (map cs [''cp.w'', ''100'', ''200'', ''8''])
        \<lparr>mc_mem = ucast, base_address = 0, dp_last_addr = 0, dp_last_size = 0, dp_last_length = 0x40, mm_last_addr = 0,
         mm_last_size = 0\<rparr> () = Some (0, s', ()) \<and> do_mem_cmp (map cs [''cmp.w'', ''100'', ''200'', ''8'']) s' = (0, 8)"
proof
  fix hw :: "unit flash_hw"
  let ?s = "\<lparr>mc_mem = ucast, base_address = 0, dp_last_addr = 0, dp_last_size = 0, dp_last_length = 0x40, mm_last_addr = 0,
    mm_last_size = 0\<rparr> :: memcmd"
  have a: "fst (simple_strtoul (cs ''100'') 16) = 0x100" "fst (simple_strtoul (cs ''200'') 16) = 0x200" "fst (simple_strtoul (cs ''8'') 16) = 8"
    "cmd_get_data_size (cs ''cp.w'') 4 = 2" "cmd_get_data_size (cs ''cmp.w'') 4 = 2" by code_simp+
  have "\<forall>i < 16. \<forall>j < 16. (0x100 :: u32) + of_nat i \<noteq> 0x200 + of_nat j"
  proof (intro allI impI)
    fix i j :: nat assume "i < 16" "j < 16"
    then have "(of_nat (0x100 + i) :: u32) \<noteq> of_nat (0x200 + j)" by (subst of_nat_u32_inj) auto
    then show "(0x100 :: u32) + of_nat i \<noteq> 0x200 + of_nat j" by simp
  qed
  then show "\<exists>s'. do_mem_cp hw [] (map cs [''cp.w'', ''100'', ''200'', ''8'']) ?s () = Some (0, s', ()) \<and>
      do_mem_cmp (map cs [''cmp.w'', ''100'', ''200'', ''8'']) s' = (0, 8)"
    using cp_then_cmp [of "map cs [''100'', ''200'', ''8'']" "cs ''cp.w''" 2 "cs ''cmp.w''" "0x100" ?s "0x200" 8 "[]" hw "()"] a
    by (auto simp: arg_addr_def addr2info_def find_bank_def)
qed

end
