(* ===== verification/Kermit.thy ===== *)
theory Kermit
  imports Srec "HOL-Library.Monad_Syntax"
begin

text \<open>
  The Kermit receiver of \<^verbatim>\<open>common/cmd_load.c\<close> (command \<^verbatim>\<open>loadb\<close>). The input is the list of characters still to come, and a
  routine that waits for more has no value. The record holds memory, the static variables of the file, the local variables
  \<open>n\<close> and \<open>last_n\<close> of \<^verbatim>\<open>k_recv\<close>, and the characters sent. The type of an earlier packet is never read again, so
  \<^verbatim>\<open>k_state_saved\<close> is left out; \<^verbatim>\<open>os_data_state\<close> is always 0.
\<close>

abbreviation (input) START_CHAR :: byte where "START_CHAR \<equiv> 0x01"
abbreviation (input) ETX_CHAR :: byte where "ETX_CHAR \<equiv> 0x03"
abbreviation (input) END_CHAR :: byte where "END_CHAR \<equiv> 0x0D"
abbreviation (input) K_ESCAPE :: byte where "K_ESCAPE \<equiv> 0x23"
abbreviation (input) SEND_TYPE :: byte where "SEND_TYPE \<equiv> 0x53"
abbreviation (input) DATA_TYPE :: byte where "DATA_TYPE \<equiv> 0x44"
abbreviation (input) ACK_TYPE :: byte where "ACK_TYPE \<equiv> 0x59"
abbreviation (input) NACK_TYPE :: byte where "NACK_TYPE \<equiv> 0x4E"
abbreviation (input) BREAK_TYPE :: byte where "BREAK_TYPE \<equiv> 0x42"
abbreviation (input) SEND_DATA_SIZE :: nat where "SEND_DATA_SIZE \<equiv> 20"

definition tochar :: "int \<Rightarrow> byte" where
  "tochar x = of_int (x + 0x20)"

definition untochar :: "byte \<Rightarrow> int" where
  "untochar c = uint (c - 0x20)"

record kermit =
  k_mem :: mem
  bin_start_address :: u32
  os_data_addr :: u32
  os_data_addr_saved :: u32
  k_data_escape :: bool
  k_data_escape_saved :: bool
  his_eol :: byte
  his_pad_count :: int
  his_pad_char :: byte
  his_quote :: byte
  send_parms :: "byte list"
  k_n :: int
  last_n :: int
  k_out :: "byte list"

subsection \<open>Answers\<close>

definition ktrans :: "byte \<Rightarrow> byte" where
  "ktrans c = (if c AND 0x60 = 0x40 then c AND NOT 0x40 else if c AND 0x7F = 0x3F then c OR 0x40 else c)"

text \<open>The block check of a sum of characters.\<close>

definition block_check :: "int \<Rightarrow> int" where
  "block_check sm = (sm + sm div 64 mod 4) mod 64"

definition chk1 :: "byte list \<Rightarrow> int" where
  "chk1 buffer = block_check (sum_list (map uint (takeWhile (\<lambda>c. c \<noteq> 0) buffer)))"

definition s1_sendpacket :: "byte list \<Rightarrow> kermit \<Rightarrow> kermit" where
  "s1_sendpacket packet s =
     s\<lparr>k_out := k_out s @ replicate (nat (his_pad_count s)) (his_pad_char s) @ takeWhile (\<lambda>c. c \<noteq> 0) packet\<rparr>"

definition send_reply :: "byte \<Rightarrow> int \<Rightarrow> byte list \<Rightarrow> kermit \<Rightarrow> kermit" where
  "send_reply ty n parms s =
     (let head = tochar (3 + int (length parms)) # tochar n # ty # parms
      in s1_sendpacket (START_CHAR # head @ [tochar (chk1 head), his_eol s]) s)"

definition send_ack :: "int \<Rightarrow> kermit \<Rightarrow> kermit" where
  "send_ack n s = send_reply ACK_TYPE n [] s"

definition send_nack :: "int \<Rightarrow> kermit \<Rightarrow> kermit" where
  "send_nack n s = send_reply NACK_TYPE n [] s"

text \<open>The parameters of a send packet: one answer for each that he gave, and four for the tenth.\<close>

definition handle_send_packet :: "int \<Rightarrow> kermit \<Rightarrow> kermit" where
  "handle_send_packet n s =
     (let bytes = (if length (send_parms s) = SEND_DATA_SIZE - 1 then SEND_DATA_SIZE - 2 else length (send_parms s));
          ps = send_parms s;
          s = s\<lparr>his_pad_count := if 2 < bytes then untochar (ps ! 2) else 0,
                his_pad_char := if 3 < bytes then ktrans (ps ! 3) else 0,
                his_eol := if 4 < bytes then of_int (untochar (ps ! 4)) else END_CHAR,
                his_quote := if 5 < bytes then ps ! 5 else K_ESCAPE\<rparr>;
          answers = [tochar 94, tochar 1, tochar 0, 0x40, tochar 13, 0x23, 0x4E, 0x31, 0x4E]
      in send_reply ACK_TYPE n (take bytes answers @ (if 10 \<le> bytes then [tochar 2, tochar 0, tochar 94, tochar 94] else [])) s)"

subsection \<open>Data\<close>

definition k_data_init :: "kermit \<Rightarrow> kermit" where
  "k_data_init s = s\<lparr>k_data_escape := False, os_data_addr := bin_start_address s\<rparr>"

definition k_data_save :: "kermit \<Rightarrow> kermit" where
  "k_data_save s = s\<lparr>k_data_escape_saved := k_data_escape s, os_data_addr_saved := os_data_addr s\<rparr>"

definition k_data_restore :: "kermit \<Rightarrow> kermit" where
  "k_data_restore s = s\<lparr>k_data_escape := k_data_escape_saved s, os_data_addr := os_data_addr_saved s\<rparr>"

definition bin_data_char :: "byte \<Rightarrow> kermit \<Rightarrow> kermit" where
  "bin_data_char c s = s\<lparr>k_mem := (k_mem s)(os_data_addr s := c), os_data_addr := os_data_addr s + 1\<rparr>"

definition k_data_char :: "byte \<Rightarrow> kermit \<Rightarrow> kermit" where
  "k_data_char c s =
     (if k_data_escape s then (bin_data_char (ktrans c) s)\<lparr>k_data_escape := False\<rparr>
      else if c = his_quote s then s\<lparr>k_data_escape := True\<rparr>
      else bin_data_char c s)"

text \<open>A character of a send packet. The pointer stays at the last element of the buffer, which is written again.\<close>

definition save_parm :: "byte \<Rightarrow> kermit \<Rightarrow> kermit" where
  "save_parm c s = (if length (send_parms s) < SEND_DATA_SIZE - 1 then s\<lparr>send_parms := send_parms s @ [c]\<rparr> else s)"

subsection \<open>The receiver\<close>

text \<open>One character of a packet: \<open>err\<close> for a control character.\<close>

definition k_getc :: "byte list \<Rightarrow> (byte \<Rightarrow> byte list \<Rightarrow> 'a option) \<Rightarrow> (byte list \<Rightarrow> 'a option) \<Rightarrow> 'a option" where
  "k_getc inp ok err = (case inp of [] \<Rightarrow> None | c # inp \<Rightarrow> if c AND 0xE0 = 0 then err inp else ok c inp)"

text \<open>The rest of a packet. The result is its type, or \<open>None\<close> for a packet with an error.\<close>

type_synonym k_result = "byte option \<times> kermit \<times> byte list"

definition k_check :: "byte \<Rightarrow> int \<Rightarrow> kermit \<Rightarrow> byte list \<Rightarrow> k_result option" where
  "k_check ty sm s inp =
     k_getc inp
       (\<lambda>c inp. if c \<noteq> tochar (block_check sm) then Some (None, s, inp)
                else case inp of [] \<Rightarrow> None | e # inp \<Rightarrow> Some (if e \<noteq> END_CHAR then None else Some ty, s, inp))
       (\<lambda>inp. Some (None, s, inp))"

primrec k_body :: "nat \<Rightarrow> byte \<Rightarrow> int \<Rightarrow> kermit \<Rightarrow> byte list \<Rightarrow> k_result option" where
  "k_body 0 ty sm s inp = k_check ty sm s inp"
| "k_body (Suc m) ty sm s inp =
     k_getc inp
       (\<lambda>c inp. k_body m ty (sm + uint c)
                  (if ty = DATA_TYPE then k_data_char c s else if ty = SEND_TYPE then save_parm c s else s) inp)
       (\<lambda>inp. Some (None, s, inp))"

definition k_long :: "byte \<Rightarrow> int \<Rightarrow> kermit \<Rightarrow> byte list \<Rightarrow> k_result option" where
  "k_long ty sm s inp =
     (let err = (\<lambda>inp. Some (None, s, inp))
      in k_getc inp (\<lambda>hi inp.
           k_getc inp (\<lambda>lo inp.
             let sm = sm + uint hi + uint lo; len = untochar hi * 95 + untochar lo
             in k_getc inp (\<lambda>c inp.
                  if c \<noteq> tochar (block_check sm) then err inp
                  else k_body (nat (len - 1)) ty (sm + uint c) s inp) err) err) err)"

text \<open>A packet with the number of the last one is a repetition and starts from the saved state, which is saved otherwise.\<close>

definition checkpoint :: "int \<Rightarrow> kermit \<Rightarrow> kermit" where
  "checkpoint n s = (if n = last_n s then k_data_restore s else k_data_save (s\<lparr>last_n := n\<rparr>))\<lparr>k_n := n\<rparr>"

definition k_packet :: "kermit \<Rightarrow> byte list \<Rightarrow> k_result option" where
  "k_packet s inp =
     (let err = (\<lambda>s inp. Some (None, s, inp))
      in k_getc inp (\<lambda>l inp.
           k_getc inp (\<lambda>q inp.
             let s = checkpoint (untochar q) s
             in k_getc inp (\<lambda>ty inp.
                  let len = untochar l - 2; sm = uint l + uint q + uint ty
                  in if len = -2 then k_long ty sm s inp else k_body (nat (len - 1)) ty sm s inp)
                (err s)) (err s)) (err s))"

fun wait_start :: "byte list \<Rightarrow> (bool \<times> byte list) option" where
  "wait_start [] = None"
| "wait_start (c # inp) =
     (if c = START_CHAR then Some (True, inp) else if c = ETX_CHAR then Some (False, inp) else wait_start inp)"

partial_function (option) k_recv_loop :: "kermit \<Rightarrow> byte list \<Rightarrow> (u32 \<times> kermit \<times> byte list) option" where
  "k_recv_loop s inp =
     do { (start, inp) \<leftarrow> wait_start inp;
          if \<not> start then Some (0, s, inp)
          else do {
            (r, s, inp) \<leftarrow> k_packet (s\<lparr>send_parms := []\<rparr>) inp;
            case r of
              None \<Rightarrow> let s = k_data_restore s in k_recv_loop (send_nack (k_n s) s) inp
            | Some ty \<Rightarrow>
                if ty = SEND_TYPE then k_recv_loop (handle_send_packet (k_n s) s) inp
                else
                  let s = send_ack (k_n s) s
                  in if ty = BREAK_TYPE then Some (os_data_addr s - bin_start_address s, s, inp)
                     else k_recv_loop s inp } }"

definition k_recv :: "kermit \<Rightarrow> byte list \<Rightarrow> (u32 \<times> kermit \<times> byte list) option" where
  "k_recv s inp =
     k_recv_loop (k_data_save (k_data_init
       (s\<lparr>his_eol := END_CHAR, his_pad_count := 0, his_pad_char := 0, his_quote := K_ESCAPE, k_n := 0, last_n := -1\<rparr>))) inp"

text \<open>\<open>parms\<close> is what the static buffer holds; \<open>avail\<close> tells at which of the hundred polls after the download a character has
  arrived. The size is printed with \<^verbatim>\<open>%X\<close>.\<close>

definition set_size :: "u32 \<Rightarrow> env_state \<Rightarrow> env_state option" where
  "set_size sz st =
     Option.bind (vsprintf (\<lambda>_. 0) (cs ''%X'') [VA_word sz])
       (\<lambda>(buf, _). map_option snd (setenv (cs ''filesize'') (Some (butlast buf)) st))"

definition kermit_init :: "u32 \<Rightarrow> mem \<Rightarrow> kermit" where
  "kermit_init offset m =
     \<lparr>k_mem = m, bin_start_address = offset, os_data_addr = 0, os_data_addr_saved = 0, k_data_escape = False,
      k_data_escape_saved = False, his_eol = 0, his_pad_count = 0, his_pad_char = 0, his_quote = 0, send_parms = [],
      k_n = 0, last_n = 0, k_out = []\<rparr>"

definition load_serial_bin :: "(nat \<Rightarrow> bool) \<Rightarrow> u32 \<Rightarrow> byte list \<Rightarrow> dl \<Rightarrow> (u32 \<times> byte list \<times> dl) option" where
  "load_serial_bin avail offset inp s =
     do { (sz, k, inp) \<leftarrow> k_recv (kermit_init offset (dl_mem s)) inp;
          e \<leftarrow> set_size sz (dl_env s);
          Some (offset, gather avail 100 inp, s\<lparr>dl_mem := k_mem k, dl_env := e\<rparr>) }"

end
