(* ===== verification/Crc16.thy ===== *)
theory Crc16
  imports Prelude
begin

unbundle bit_operations_syntax

text \<open>
  The CRC of \<^verbatim>\<open>lib/crc16.c\<close>, which guards the blocks of Y-modem. The comment on its table gives the polynomial
  \<open>x\<^sup>1\<^sup>6 + x\<^sup>1\<^sup>2 + x\<^sup>5 + 1\<close>; the reference is the shift register of that polynomial, and the table is checked against it.
\<close>

definition crc16_tab :: "u16 list" where
  "crc16_tab =
     [0x0000, 0x1021, 0x2042, 0x3063, 0x4084, 0x50a5, 0x60c6, 0x70e7,
      0x8108, 0x9129, 0xa14a, 0xb16b, 0xc18c, 0xd1ad, 0xe1ce, 0xf1ef,
      0x1231, 0x0210, 0x3273, 0x2252, 0x52b5, 0x4294, 0x72f7, 0x62d6,
      0x9339, 0x8318, 0xb37b, 0xa35a, 0xd3bd, 0xc39c, 0xf3ff, 0xe3de,
      0x2462, 0x3443, 0x0420, 0x1401, 0x64e6, 0x74c7, 0x44a4, 0x5485,
      0xa56a, 0xb54b, 0x8528, 0x9509, 0xe5ee, 0xf5cf, 0xc5ac, 0xd58d,
      0x3653, 0x2672, 0x1611, 0x0630, 0x76d7, 0x66f6, 0x5695, 0x46b4,
      0xb75b, 0xa77a, 0x9719, 0x8738, 0xf7df, 0xe7fe, 0xd79d, 0xc7bc,
      0x48c4, 0x58e5, 0x6886, 0x78a7, 0x0840, 0x1861, 0x2802, 0x3823,
      0xc9cc, 0xd9ed, 0xe98e, 0xf9af, 0x8948, 0x9969, 0xa90a, 0xb92b,
      0x5af5, 0x4ad4, 0x7ab7, 0x6a96, 0x1a71, 0x0a50, 0x3a33, 0x2a12,
      0xdbfd, 0xcbdc, 0xfbbf, 0xeb9e, 0x9b79, 0x8b58, 0xbb3b, 0xab1a,
      0x6ca6, 0x7c87, 0x4ce4, 0x5cc5, 0x2c22, 0x3c03, 0x0c60, 0x1c41,
      0xedae, 0xfd8f, 0xcdec, 0xddcd, 0xad2a, 0xbd0b, 0x8d68, 0x9d49,
      0x7e97, 0x6eb6, 0x5ed5, 0x4ef4, 0x3e13, 0x2e32, 0x1e51, 0x0e70,
      0xff9f, 0xefbe, 0xdfdd, 0xcffc, 0xbf1b, 0xaf3a, 0x9f59, 0x8f78,
      0x9188, 0x81a9, 0xb1ca, 0xa1eb, 0xd10c, 0xc12d, 0xf14e, 0xe16f,
      0x1080, 0x00a1, 0x30c2, 0x20e3, 0x5004, 0x4025, 0x7046, 0x6067,
      0x83b9, 0x9398, 0xa3fb, 0xb3da, 0xc33d, 0xd31c, 0xe37f, 0xf35e,
      0x02b1, 0x1290, 0x22f3, 0x32d2, 0x4235, 0x5214, 0x6277, 0x7256,
      0xb5ea, 0xa5cb, 0x95a8, 0x8589, 0xf56e, 0xe54f, 0xd52c, 0xc50d,
      0x34e2, 0x24c3, 0x14a0, 0x0481, 0x7466, 0x6447, 0x5424, 0x4405,
      0xa7db, 0xb7fa, 0x8799, 0x97b8, 0xe75f, 0xf77e, 0xc71d, 0xd73c,
      0x26d3, 0x36f2, 0x0691, 0x16b0, 0x6657, 0x7676, 0x4615, 0x5634,
      0xd94c, 0xc96d, 0xf90e, 0xe92f, 0x99c8, 0x89e9, 0xb98a, 0xa9ab,
      0x5844, 0x4865, 0x7806, 0x6827, 0x18c0, 0x08e1, 0x3882, 0x28a3,
      0xcb7d, 0xdb5c, 0xeb3f, 0xfb1e, 0x8bf9, 0x9bd8, 0xabbb, 0xbb9a,
      0x4a75, 0x5a54, 0x6a37, 0x7a16, 0x0af1, 0x1ad0, 0x2ab3, 0x3a92,
      0xfd2e, 0xed0f, 0xdd6c, 0xcd4d, 0xbdaa, 0xad8b, 0x9de8, 0x8dc9,
      0x7c26, 0x6c07, 0x5c64, 0x4c45, 0x3ca2, 0x2c83, 0x1ce0, 0x0cc1,
      0xef1f, 0xff3e, 0xcf5d, 0xdf7c, 0xaf9b, 0xbfba, 0x8fd9, 0x9ff8,
      0x6e17, 0x7e36, 0x4e55, 0x5e74, 0x2e93, 0x3eb2, 0x0ed1, 0x1ef0]"

definition crc16_step :: "u16 \<Rightarrow> byte \<Rightarrow> u16" where
  "crc16_step cksum b = (crc16_tab ! unat ((drop_bit 8 cksum XOR ucast b) AND 0xFF)) XOR push_bit 8 cksum"

definition cyg_crc16 :: "byte list \<Rightarrow> u16" where
  "cyg_crc16 buf = foldl crc16_step 0 buf"

subsection \<open>The shift register\<close>

definition crc16_bit :: "u16 \<Rightarrow> u16" where
  "crc16_bit c = (if c AND 0x8000 \<noteq> 0 then push_bit 1 c XOR 0x1021 else push_bit 1 c)"

primrec crc16_bits :: "nat \<Rightarrow> u16 \<Rightarrow> u16" where
  "crc16_bits 0 c = c"
| "crc16_bits (Suc n) c = crc16_bits n (crc16_bit c)"

definition crc16_ref :: "byte list \<Rightarrow> u16" where
  "crc16_ref buf = foldl (\<lambda>c b. crc16_bits 8 (c XOR push_bit 8 (ucast b))) 0 buf"

lemma high_bit: "(c :: u16) AND 0x8000 \<noteq> 0 \<longleftrightarrow> bit c 15"
proof -
  have p: "(0x8000 :: u16) = push_bit 15 1" by simp
  have "c AND 0x8000 = 0 \<longleftrightarrow> \<not> bit c 15"
  proof
    assume "c AND 0x8000 = 0"
    then have "\<not> bit (c AND push_bit 15 1) 15" unfolding p by simp
    then show "\<not> bit c 15" by (simp add: bit_simps)
  next
    assume "\<not> bit c 15"
    moreover have "n = 15" if "n < 16" "15 \<le> n" for n :: nat using that by simp
    ultimately have "\<not> bit (c AND push_bit 15 1) n" if "n < 16" for n
      using that by (cases "n = 15") (auto simp: bit_simps simp del: push_bit_of_1)
    then show "c AND 0x8000 = 0" unfolding p by (intro bit_word_eqI) (simp del: push_bit_of_1)
  qed
  then show ?thesis by simp
qed

lemma crc16_bit_xor: "crc16_bit (v XOR w) = crc16_bit v XOR crc16_bit w"
proof -
  have swap: "(x XOR p) XOR y = (x XOR y) XOR p" "((x XOR y) XOR p) XOR p = x XOR y" for p x y :: u16
    by (simp_all add: ac_simps)
  show ?thesis unfolding crc16_bit_def high_bit push_bit_xor bit_xor_iff
    by (cases "bit v 15"; cases "bit w 15") (simp_all only: if_True if_False swap xor.assoc [symmetric] not_False_eq_True simp_thms)
qed

lemma crc16_bits_xor: "crc16_bits k (v XOR w) = crc16_bits k v XOR crc16_bits k w"
  by (induction k arbitrary: v w) (simp_all add: crc16_bit_xor)

lemma crc16_bits_shift: "(\<And>j. 16 - k \<le> j \<Longrightarrow> \<not> bit w j) \<Longrightarrow> k \<le> 16 \<Longrightarrow> crc16_bits k w = push_bit k w"
proof (induction k arbitrary: w)
  case (Suc k)
  have "\<not> bit w 15" using Suc.prems by simp
  then have c: "crc16_bit w = push_bit 1 w" by (simp only: crc16_bit_def high_bit if_False)
  have "\<not> bit (push_bit 1 w) j" if "16 - k \<le> j" for j
    using Suc.prems(1) [of "j - 1"] that Suc.prems(2) unfolding bit_push_bit_iff by simp
  then show ?case using Suc.IH [of "push_bit 1 w"] Suc.prems(2) by (simp add: c push_bit_push_bit del: push_bit_Suc)
qed simp

subsection \<open>The table\<close>

text \<open>Entry \<open>2i\<close> is one shift of entry \<open>i\<close>, and entry \<open>2i + 1\<close> is entry \<open>2i\<close> with the polynomial.\<close>

fun pairs_ok :: "u16 list \<Rightarrow> u16 list \<Rightarrow> bool" where
  "pairs_ok (a # xs) (v # w # ys) \<longleftrightarrow> v = crc16_bit a \<and> w = v XOR 0x1021 \<and> pairs_ok xs ys"
| "pairs_ok xs ys \<longleftrightarrow> xs = [] \<and> ys = []"

lemma crc16_bit_less: "crc16_bit c = (if c < 0x8000 then c + c else (c + c) XOR 0x1021)"
proof -
  have "c < 0x8000 \<longleftrightarrow> \<not> bit c 15"
  proof -
    have "bit c 15 \<longleftrightarrow> bit (unat c) 15" by (simp add: bit_simps)
    also have "\<dots> \<longleftrightarrow> odd (unat c div 32768)" by (simp add: bit_iff_odd)
    also have "\<dots> \<longleftrightarrow> \<not> unat c < 32768"
    proof -
      have "unat c div 32768 = 0 \<or> unat c div 32768 = 1" using u16_less [of c] by linarith
      then show ?thesis by (auto simp: div_eq_0_iff)
    qed
    finally show ?thesis by (simp add: word_less_nat_alt)
  qed
  then show ?thesis unfolding crc16_bit_def high_bit by (simp add: push_bit_eq_mult mult.commute)
qed

lemma crc16_tab_pairs: "pairs_ok (take 128 crc16_tab) crc16_tab"
  by (simp add: crc16_tab_def crc16_bit_less)

lemma pairs_ok_nth: "pairs_ok xs ys \<Longrightarrow> i < length xs \<Longrightarrow> ys ! (2 * i) = crc16_bit (xs ! i) \<and> ys ! (2 * i + 1) = ys ! (2 * i) XOR 0x1021"
proof (induction xs ys arbitrary: i rule: pairs_ok.induct)
  case (1 a xs v w ys)
  then show ?case by (cases i) auto
qed auto

lemma crc16_tab_length: "length crc16_tab = 256"
  by (simp add: crc16_tab_def)

lemma crc16_bits_bit: "crc16_bits k (crc16_bit c) = crc16_bit (crc16_bits k c)"
  by (induction k arbitrary: c) simp_all

lemma crc16_tab_nth: "i < 256 \<Longrightarrow> crc16_tab ! i = crc16_bits 8 (push_bit 8 (of_nat i))"
proof (induction i rule: less_induct)
  case (less i)
  show ?case
  proof (cases "i = 0")
    case True
    have "crc16_bits k 0 = 0" for k by (induction k) (simp_all add: crc16_bit_def)
    then show ?thesis using True by (simp add: crc16_tab_def)
  next
    case False
    define j where "j = i div 2"
    have j: "j < i" "j < 128" using False less.prems by (auto simp: j_def)
    have e: "crc16_tab ! (2 * j) = crc16_bit (crc16_tab ! j)" "crc16_tab ! (2 * j + 1) = crc16_tab ! (2 * j) XOR 0x1021"
      using pairs_ok_nth [OF crc16_tab_pairs, of j] j(2) crc16_tab_length by simp_all
    have b: "\<not> bit (push_bit 8 (of_nat j) :: u16) 15"
    proof -
      have "bit (push_bit 8 (of_nat j) :: u16) 15 \<longleftrightarrow> bit j 7" by (simp add: bit_simps)
      then show ?thesis using j(2) by (simp add: bit_iff_odd)
    qed
    then have d: "push_bit 8 (of_nat (2 * j)) = crc16_bit (push_bit 8 (of_nat j))"
      by (simp add: crc16_bit_def high_bit push_bit_eq_mult)
    have even: "crc16_tab ! (2 * j) = crc16_bits 8 (push_bit 8 (of_nat (2 * j)))"
      using e(1) less.IH [OF j(1)] j(2) by (simp only: d crc16_bits_bit)
    show ?thesis
    proof (cases "i = 2 * j")
      case True
      then show ?thesis using even by simp
    next
      case False
      then have i: "i = 2 * j + 1" by (simp add: j_def)
      have "(of_nat (2 * j + 1) :: u16) = of_nat (2 * j) XOR 1" by (simp add: xor_one_eq)
      then have "crc16_bits 8 (push_bit 8 (of_nat i)) = crc16_bits 8 (push_bit 8 (of_nat (2 * j))) XOR crc16_bits 8 (push_bit 8 1)"
        by (simp only: i push_bit_xor crc16_bits_xor)
      moreover have "crc16_bits 8 (push_bit 8 1) = 0x1021" by code_simp
      ultimately show ?thesis using e(2) even i by simp
    qed
  qed
qed

lemma crc16_step_eq: "crc16_step c b = crc16_bits 8 (c XOR push_bit 8 (ucast b))"
proof -
  let ?i = "(drop_bit 8 c XOR ucast b) AND 0xFF :: u16" and ?l = "take_bit 8 c"
  have i: "?i < 256" by (rule le_less_trans [OF word_and_le1]) simp
  have ff: "(0xFF :: u16) = mask 8" by (simp add: mask_eq_exp_minus_1)
  have "c XOR push_bit 8 (ucast b) = push_bit 8 ?i XOR ?l"
    unfolding ff by (rule bit_word_eqI) (auto simp: bit_simps)
  moreover have "crc16_bits 8 ?l = push_bit 8 ?l" by (rule crc16_bits_shift) (simp_all add: bit_simps)
  moreover have "push_bit 8 ?l = push_bit 8 c" by (rule bit_word_eqI) (auto simp: bit_simps)
  moreover have "crc16_tab ! unat ?i = crc16_bits 8 (push_bit 8 ?i)"
    using crc16_tab_nth [of "unat ?i"] i by (simp add: word_less_nat_alt del: push_bit_and push_bit_xor)
  ultimately show ?thesis by (simp only: crc16_step_def crc16_bits_xor)
qed

text \<open>C25: the table-driven CRC of the Y-modem blocks is the one of the shift register for the polynomial that the comment names.\<close>

theorem cyg_crc16_correct: "cyg_crc16 buf = crc16_ref buf"
  unfolding cyg_crc16_def crc16_ref_def crc16_step_eq ..

end
