(* ===== verification/Ymodem.thy ===== *)
theory Ymodem
  imports Kermit Flash Image Crc16
begin

text \<open>
  The Y-modem receiver of \<^verbatim>\<open>common/xyzModem.c\<close> (command \<^verbatim>\<open>loady\<close>), and the command of
  \<^verbatim>\<open>common/cmd_load.c\<close> for both binary protocols. The function \<open>late\<close> tells for each attempt to read a character, counted from
  0, whether the time limit passes before one arrives; at the end of the input the line is silent. The receiver is only opened
  in Y-modem mode, so \<^verbatim>\<open>mode\<close> is left out, as are the counters of the final report.
\<close>

subsection \<open>Numbers\<close>

definition is_hex :: "byte \<Rightarrow> bool" where
  "is_hex c \<longleftrightarrow> ch CHR ''0'' \<le> c \<and> c \<le> ch CHR ''9'' \<or> ch CHR ''A'' \<le> c \<and> c \<le> ch CHR ''F'' \<or> ch CHR ''a'' \<le> c \<and> c \<le> ch CHR ''f''"

definition from_hex :: "byte \<Rightarrow> int" where
  "from_hex c =
     (if ch CHR ''0'' \<le> c \<and> c \<le> ch CHR ''9'' then uint c - 0x30
      else if ch CHR ''a'' \<le> c \<and> c \<le> ch CHR ''f'' then uint c - 0x61 + 0x0A
      else if ch CHR ''A'' \<le> c \<and> c \<le> ch CHR ''F'' then uint c - 0x41 + 0x0A
      else 0)"

definition lower :: "byte \<Rightarrow> byte" where
  "lower c = (if ch CHR ''A'' \<le> c \<and> c \<le> ch CHR ''Z'' then c - 0x41 + 0x61 else c)"

text \<open>The number starts at the head of the list and the string ends at the first NUL. \<open>None\<close>: the scan leaves the list;
  \<open>Some None\<close>: malformed number. The prefix of a hexadecimal number is looked for at the first digit only.\<close>

fun parse_digits :: "int \<Rightarrow> u32 \<Rightarrow> byte list \<Rightarrow> byte list \<Rightarrow> u32 option option" where
  "parse_digits radix val delim [] = None"
| "parse_digits radix val delim (c # s) =
     (if c = 0 then Some (Some val)
      else if is_hex c \<and> from_hex c < radix then parse_digits radix (val * of_int radix + of_int (from_hex c)) delim s
      else if c \<in> set delim then Some (Some val) else Some None)"

fun parse_prefix :: "byte list \<Rightarrow> byte list \<Rightarrow> u32 option option" where
  "parse_prefix delim (d # x # s) =
     (if d = ch CHR ''0'' \<and> lower x = ch CHR ''x''
      then case s of [] \<Rightarrow> None | c # s' \<Rightarrow> if c = 0 then Some None else parse_digits 16 0 delim s
      else parse_digits 10 0 delim (d # x # s))"
| "parse_prefix delim s = (if s = [ch CHR ''0''] then None else parse_digits 10 0 delim s)"

definition parse_num :: "byte list \<Rightarrow> byte list \<Rightarrow> u32 option option" where
  "parse_num s delim = parse_prefix delim (dropWhile (\<lambda>c. c = ch CHR '' '') s)"

subsection \<open>The receiver\<close>

abbreviation (input) SOH :: byte where "SOH \<equiv> 0x01"
abbreviation (input) STX :: byte where "STX \<equiv> 0x02"
abbreviation (input) EOT :: byte where "EOT \<equiv> 0x04"
abbreviation (input) ACK :: byte where "ACK \<equiv> 0x06"
abbreviation (input) NAK :: byte where "NAK \<equiv> 0x15"
abbreviation (input) CAN :: byte where "CAN \<equiv> 0x18"
abbreviation (input) CTRL_Z :: byte where "CTRL_Z \<equiv> 0x1A"
abbreviation (input) MAX_RETRIES :: nat where "MAX_RETRIES \<equiv> 20"
abbreviation (input) MAX_RETRIES_WITH_CRC :: int where "MAX_RETRIES_WITH_CRC \<equiv> 10"

datatype xstat = X_ok | X_timeout | X_eof | X_cancel | X_frame | X_cksum | X_sequence

record xyz =
  x_inp :: "byte list"
  x_polls :: nat
  x_out :: "byte list"
  pkt :: "byte list"
  bufp :: nat
  blk :: byte
  cblk :: byte
  crc1 :: byte
  crc2 :: byte
  next_blk :: byte
  x_len :: int
  crc_mode :: bool
  at_eof :: bool
  tx_ack :: bool
  file_length :: u32
  read_length :: u32

definition x_putc :: "byte \<Rightarrow> xyz \<Rightarrow> xyz" where
  "x_putc c s = s\<lparr>x_out := x_out s @ [c]\<rparr>"

definition x_getc :: "(nat \<Rightarrow> bool) \<Rightarrow> xyz \<Rightarrow> byte option \<times> xyz" where
  "x_getc late s =
     (if late (x_polls s) then (None, s\<lparr>x_polls := Suc (x_polls s)\<rparr>)
      else case x_inp s of [] \<Rightarrow> (None, s\<lparr>x_polls := Suc (x_polls s)\<rparr>)
           | c # inp \<Rightarrow> (Some c, s\<lparr>x_inp := inp, x_polls := Suc (x_polls s)\<rparr>))"

lemma x_getc_shorter: "(Some c, s') = x_getc late s \<Longrightarrow> length (x_inp s') < length (x_inp s)"
  by (auto simp: x_getc_def split: if_splits list.splits)

function x_flush :: "(nat \<Rightarrow> bool) \<Rightarrow> xyz \<Rightarrow> xyz" where
  "x_flush late s = (case x_getc late s of (None, s) \<Rightarrow> s | (Some c, s) \<Rightarrow> x_flush late s)"
  by pat_completeness auto
termination by (relation "measure (\<lambda>(late, s). length (x_inp s))") (auto intro: x_getc_shorter)

declare x_flush.simps [simp del]

text \<open>The search for the first character of a block: that character, or a status.\<close>

function x_find :: "(nat \<Rightarrow> bool) \<Rightarrow> nat \<Rightarrow> nat \<Rightarrow> xyz \<Rightarrow> (xstat + byte) \<times> xyz" where
  "x_find late hdr_chars can_total s =
     (case x_getc late s of
        (None, s) \<Rightarrow> (Inl X_timeout, x_flush late s)
      | (Some c, s) \<Rightarrow>
          if c = SOH \<or> c = STX then (Inr c, s)
          else if c = CAN then
            if Suc can_total = 3 then (Inl X_cancel, s) else x_find late (Suc hdr_chars) (Suc can_total) s
          else if c = EOT \<and> hdr_chars = 0 then (Inl X_eof, x_putc ACK s)
          else x_find late (Suc hdr_chars) can_total s)"
  by pat_completeness auto
termination by (relation "measure (\<lambda>(late, h, c, s). length (x_inp s))") (auto intro: x_getc_shorter)

declare x_find.simps [simp del]

text \<open>The data of a block, as far as it arrives.\<close>

primrec x_data :: "(nat \<Rightarrow> bool) \<Rightarrow> nat \<Rightarrow> nat \<Rightarrow> xyz \<Rightarrow> bool \<times> xyz" where
  "x_data late 0 i s = (True, s)"
| "x_data late (Suc n) i s =
     (case x_getc late s of (None, s) \<Rightarrow> (False, s) | (Some c, s) \<Rightarrow> x_data late n (Suc i) (s\<lparr>pkt := (pkt s)[i := c]\<rparr>))"

definition x_sum_ok :: "xyz \<Rightarrow> bool" where
  "x_sum_ok s =
     (let data = take (nat (x_len s)) (pkt s)
      in if crc_mode s then cyg_crc16 data = push_bit 8 (ucast (crc1 s)) OR ucast (crc2 s)
         else crc1 s = sum_list data)"

definition x_get_hdr :: "(nat \<Rightarrow> bool) \<Rightarrow> xyz \<Rightarrow> xstat \<times> xyz" where
  "x_get_hdr late s =
     (let s = (if tx_ack s then (x_putc ACK s)\<lparr>tx_ack := False\<rparr> else s);
          field = (\<lambda>upd s rest. case x_getc late s of (None, s) \<Rightarrow> (X_timeout, s) | (Some c, s) \<Rightarrow> rest (upd c s))
      in case x_find late 0 0 s of
           (Inl stat, s) \<Rightarrow> (stat, s)
         | (Inr c, s) \<Rightarrow>
             field (\<lambda>v. blk_update (\<lambda>_. v)) s (\<lambda>s.
             field (\<lambda>v. cblk_update (\<lambda>_. v)) s (\<lambda>s.
             let n = (if c = SOH then 128 else 1024);
                 (done, s) = x_data late n 0 (s\<lparr>x_len := int n, bufp := 0\<rparr>)
             in if \<not> done then (X_timeout, s)
                else field (\<lambda>v. crc1_update (\<lambda>_. v)) s (\<lambda>s.
                  let check = (\<lambda>s. if blk s XOR cblk s \<noteq> 0xFF then (X_frame, x_flush late s)
                                   else (if x_sum_ok s then X_ok else X_cksum, s))
                  in if crc_mode s then field (\<lambda>v. crc2_update (\<lambda>_. v)) s check else check s))))"

definition x_ask :: "xyz \<Rightarrow> xyz" where
  "x_ask s = x_putc (if crc_mode s then ch CHR ''C'' else NAK) s"

text \<open>The name in the packet; without its NUL the scan leaves the packet.\<close>

definition skip_name :: "byte list \<Rightarrow> byte list option" where
  "skip_name p = (if 0 \<in> set p then Some (tl (dropWhile (\<lambda>c. c \<noteq> 0) p)) else None)"

definition x_header :: "xyz \<Rightarrow> xyz option" where
  "x_header s =
     (if blk s = 0 then
        do { p \<leftarrow> skip_name (pkt s);
             v \<leftarrow> parse_num p [ch CHR '' ''];
             Some (s\<lparr>bufp := length (pkt s) - length p, tx_ack := True,
                     file_length := (case v of None \<Rightarrow> file_length s | Some v \<Rightarrow> v)\<rparr>) }
      else Some s)"

primrec open_loop :: "(nat \<Rightarrow> bool) \<Rightarrow> nat \<Rightarrow> int \<Rightarrow> xyz \<Rightarrow> (int \<times> xyz) option" where
  "open_loop late 0 crc_retries s = Some (-1, s)"
| "open_loop late (Suc retries) crc_retries s =
     (let (stat, s) = x_get_hdr late s
      in if stat = X_ok then map_option (\<lambda>s. (0, s\<lparr>next_blk := 1, x_len := 0\<rparr>)) (x_header s)
         else if stat = X_timeout then
           open_loop late retries (crc_retries - 1)
             (x_ask (if crc_retries - 1 \<le> 0 then s\<lparr>crc_mode := False\<rparr> else s))
         else if stat = X_cancel then Some (-1, s)
         else open_loop late retries crc_retries s)"

definition stream_open :: "(nat \<Rightarrow> bool) \<Rightarrow> xyz \<Rightarrow> (int \<times> xyz) option" where
  "stream_open late s =
     open_loop late MAX_RETRIES MAX_RETRIES_WITH_CRC
       (x_ask (s\<lparr>x_len := 0, crc_mode := True, at_eof := False, tx_ack := False, read_length := 0, file_length := 0\<rparr>))"

text \<open>A block with the expected number. Padding is removed when the length of the file is not known, and what is too much when
  it is; the length can become negative.\<close>

definition strip_pad :: "xyz \<Rightarrow> xyz" where
  "strip_pad s =
     (let d = take (nat (x_len s)) (pkt s); n = length d
      in if file_length s = 0 \<and> 3 \<le> n \<and> d ! (n - 1) = CTRL_Z \<and> d ! (n - 2) = CTRL_Z \<and> d ! (n - 3) = CTRL_Z
         then s\<lparr>x_len := int (length (dropWhile (\<lambda>c. c = CTRL_Z) (rev d)))\<rparr> else s)"

definition cut_length :: "xyz \<Rightarrow> xyz" where
  "cut_length s =
     (if file_length s \<noteq> 0 then
        let rl = read_length s + of_int (x_len s)
        in s\<lparr>read_length := rl, x_len := if rl > file_length s then sint (of_int (x_len s) - (rl - file_length s) :: u32) else x_len s\<rparr>
      else s)"

definition accept_block :: "xyz \<Rightarrow> xyz" where
  "accept_block s = cut_length (strip_pad (s\<lparr>tx_ack := True, next_blk := next_blk s + 1\<rparr>))"

primrec read_block :: "(nat \<Rightarrow> bool) \<Rightarrow> nat \<Rightarrow> xstat \<Rightarrow> xyz \<Rightarrow> xstat \<times> xyz" where
  "read_block late 0 stat s = (stat, s)"
| "read_block late (Suc retries) stat s =
     (let (stat, s) = x_get_hdr late s
      in if stat = X_ok \<and> blk s = next_blk s then (X_ok, accept_block s)
         else if stat = X_ok \<and> blk s = next_blk s - 1 then read_block late retries stat (x_putc ACK s)
         else
           let stat = (if stat = X_ok then X_sequence else stat)
           in if stat = X_cancel then (stat, s)
              else if stat = X_eof then
                let (stat, s) = x_get_hdr late (x_ask (x_putc ACK s)) in (stat, (x_putc ACK s)\<lparr>at_eof := True\<rparr>)
              else read_block late retries stat (x_ask s))"

partial_function (option) stream_read :: "(nat \<Rightarrow> bool) \<Rightarrow> nat \<Rightarrow> byte list \<Rightarrow> xyz \<Rightarrow> (byte list \<times> xyz) option" where
  "stream_read late n buf s =
     (if at_eof s \<or> n = 0 then Some (buf, s)
      else
        let (stat, s) = (if x_len s = 0 then read_block late MAX_RETRIES X_cancel s else (X_ok, s))
        in if stat \<noteq> X_ok then Some (buf, s\<lparr>x_len := -1\<rparr>)
           else if at_eof s then stream_read late n buf s
           else
             let len = min (int n) (x_len s)
             in if len < 0 then None
                else stream_read late (n - nat len) (buf @ take (nat len) (drop (bufp s) (pkt s)))
                       (s\<lparr>x_len := x_len s - len, bufp := bufp s + nat len\<rparr>))"

subsection \<open>The command\<close>

record 'w ydl =
  y_dl :: dl
  y_flash :: 'w
  y_xyz :: xyz

text \<open>The blocks as they are read, to memory or to flash.\<close>

partial_function (option) y_store ::
  "(nat \<Rightarrow> bool) \<Rightarrow> 'w flash_hw \<Rightarrow> flash_info list \<Rightarrow> u32 \<Rightarrow> u32 \<Rightarrow> xyz \<Rightarrow> 'w ydl \<Rightarrow> (bool \<times> u32 \<times> xyz \<times> 'w ydl) option" where
  "y_store late hw banks offset addr x s =
     do { (buf, x) \<leftarrow> stream_read late 1024 [] x;
          if buf = [] then Some (True, addr, x, s)
          else
            let store_addr = addr + offset; addr = addr + of_nat (length buf)
            in if addr2info banks store_addr \<noteq> None then
                 do { (rc, w) \<leftarrow> flash_write hw banks buf store_addr (y_flash s);
                      if rc \<noteq> 0 then Some (False, addr, x, s\<lparr>y_flash := w\<rparr>)
                      else y_store late hw banks offset addr x (s\<lparr>y_flash := w\<rparr>) }
               else y_store late hw banks offset addr x
                      (s\<lparr>y_dl := (y_dl s)\<lparr>dl_mem := mem_write store_addr buf (dl_mem (y_dl s))\<rparr>\<rparr>) }"

text \<open>The receiver's state stays from one transfer to the next. Characters that are there at the end are taken off the line;
  \<open>late\<close> is the poll for one.\<close>

definition load_serial_ymodem ::
  "(nat \<Rightarrow> bool) \<Rightarrow> 'w flash_hw \<Rightarrow> flash_info list \<Rightarrow> u32 \<Rightarrow> byte list \<Rightarrow> 'w ydl \<Rightarrow> (u32 \<times> byte list \<times> 'w ydl) option" where
  "load_serial_ymodem late hw banks offset inp s =
     do { (res, x) \<leftarrow> stream_open late ((y_xyz s)\<lparr>x_inp := inp, x_polls := 0, x_out := []\<rparr>);
          (fine, sz, x, s) \<leftarrow> (if res = 0 then y_store late hw banks offset 0 x s else Some (True, 0, x, s));
          if \<not> fine then Some (0xFFFFFFFF, x_inp x, s\<lparr>y_xyz := x\<rparr>)
          else do {
            e \<leftarrow> set_size sz (dl_env (y_dl s));
            let x = x_flush late x;
            Some (offset, x_inp x, s\<lparr>y_dl := (y_dl s)\<lparr>dl_env := e\<rparr>, y_xyz := x\<rparr>) } }"

definition do_load_serial_bin ::
  "(nat \<Rightarrow> bool) \<Rightarrow> (nat \<Rightarrow> bool) \<Rightarrow> 'w flash_hw \<Rightarrow> flash_info list \<Rightarrow> cstr list \<Rightarrow> 'w ydl \<Rightarrow> (int \<times> 'w ydl) option" where
  "do_load_serial_bin avail late hw banks argv s =
     (let current_baudrate = gd_baudrate (dl_env (y_dl s));
          load_baudrate = (if length argv = 3
             then let b = fst (simple_strtoul (argv ! 2) 10) in if b = 0 then current_baudrate else b
             else current_baudrate);
          inp = con_in (dl_env (y_dl s))
      in do {
        v \<leftarrow> getenv_str (dl_env (y_dl s)) (cs ''loadaddr'');
        let offset = (if 2 \<le> length argv then fst (simple_strtoul (argv ! 1) 16)
                      else case v of None \<Rightarrow> 0x1000000 | Some v \<Rightarrow> fst (simple_strtoul v 16));
        inp \<leftarrow> (if load_baudrate \<noteq> current_baudrate then wait_cr inp else Some inp);
        let s = s\<lparr>y_dl := (y_dl s)\<lparr>dl_env := (dl_env (y_dl s))\<lparr>gd_baudrate := load_baudrate\<rparr>\<rparr>\<rparr>;
        (rcode, inp, s) \<leftarrow>
          (if argv ! 0 = cs ''loady''
           then map_option (\<lambda>(addr, inp, s). (0, inp, s)) (load_serial_ymodem late hw banks offset inp s)
           else map_option (\<lambda>(addr, inp, d).
                  (if addr = 0xFFFFFFFF then 1 else 0, inp,
                   s\<lparr>y_dl := d\<lparr>dl_env := (dl_env d)\<lparr>load_addr := if addr = 0xFFFFFFFF then 0 else addr\<rparr>\<rparr>\<rparr>))
                  (load_serial_bin avail offset inp (y_dl s)));
        inp \<leftarrow> (if load_baudrate \<noteq> current_baudrate then wait_esc inp else Some inp);
        Some (rcode, s\<lparr>y_dl := (y_dl s)\<lparr>dl_env := (dl_env (y_dl s))\<lparr>gd_baudrate := current_baudrate, con_in := inp\<rparr>\<rparr>\<rparr>) })"

end
