(* ===== verification/KermitProps.thy ===== *)
theory KermitProps
  imports Kermit SrecProps
begin

text \<open>
  A file sent with the Kermit protocol arrives: a reference sender, the state between two packets, and the effect of good
  and damaged packets.
\<close>

subsection \<open>The sender\<close>

text \<open>Control characters, DEL and the quote itself are quoted, whatever their top bit is. A packet has a short or a long
  header, depending on the length of its data.\<close>

definition quoted :: "byte \<Rightarrow> byte list" where
  "quoted c =
     (if c AND 0x60 = 0 \<or> c AND 0x7F = 0x7F then [0x23, c XOR 0x40] else if c AND 0x7F = 0x23 then [0x23, c] else [c])"

definition k_encode :: "byte list \<Rightarrow> byte list" where
  "k_encode xs = concat (map quoted xs)"

definition k_sum :: "byte list \<Rightarrow> int" where
  "k_sum xs = sum_list (map uint xs)"

definition k_header :: "nat \<Rightarrow> byte \<Rightarrow> nat \<Rightarrow> byte list" where
  "k_header n ty m =
     (if m \<le> 91 then [tochar (int m + 3), tochar (int n), ty]
      else let h = [tochar 0, tochar (int n), ty, tochar (int ((m + 1) div 95)), tochar (int ((m + 1) mod 95))]
           in h @ [tochar (block_check (k_sum h))])"

definition k_frame :: "nat \<Rightarrow> byte \<Rightarrow> byte list \<Rightarrow> byte list" where
  "k_frame n ty body =
     START_CHAR # k_header n ty (length body) @ body @ [tochar (block_check (k_sum (k_header n ty (length body) @ body))), END_CHAR]"

definition printable :: "byte \<Rightarrow> bool" where
  "printable c \<longleftrightarrow> c AND 0xE0 \<noteq> 0"

lemma byte_eq_iff: "(a :: byte) = b \<longleftrightarrow> (\<forall>n \<in> {0, 1, 2, 3, 4, 5, 6, 7}. bit a n = bit b n)"
proof
  assume e: "\<forall>n \<in> {0, 1, 2, 3, 4, 5, 6, 7}. bit a n = bit b n"
  show "a = b"
  proof (rule bit_word_eqI)
    fix n assume "n < LENGTH(8)"
    then have "n \<in> {0, 1, 2, 3, 4, 5, 6, 7}" by auto
    then show "bit a n = bit b n" using e by blast
  qed
qed simp

lemma printable_ge: "0x20 \<le> c \<Longrightarrow> printable c"
proof (rule ccontr)
  assume c: "0x20 \<le> c" "\<not> printable c"
  then have "c AND 0xE0 = 0" by (simp add: printable_def)
  then have "c = c AND 0x1F" by (simp add: byte_eq_iff bit_simps)
  then have "c \<le> 0x1F" by (metis word_and_le1)
  then show False using c(1) by (simp add: word_le_nat_alt)
qed

lemma k_getc_printable [simp]: "printable c \<Longrightarrow> k_getc (c # inp) ok err = ok c inp"
  by (simp add: k_getc_def printable_def)

lemma k_getc_control [simp]: "\<not> printable c \<Longrightarrow> k_getc (c # inp) ok err = err inp"
  by (simp add: k_getc_def printable_def)

lemma untochar_tochar: "0 \<le> x \<Longrightarrow> x < 256 \<Longrightarrow> untochar (tochar x) = x"
  by (simp add: untochar_def tochar_def uint_word_of_int_eq take_bit_int_eq_self)

lemma printable_tochar:
  assumes "0 \<le> x" "x < 95"
  shows "printable (tochar x)"
proof -
  have "uint (word_of_int (x + 0x20) :: byte) = x + 0x20" using assms by (simp only: uint_word_of_int_eq) (simp add: take_bit_int_eq_self)
  then have "uint (tochar x) = x + 0x20" by (simp add: tochar_def)
  then show ?thesis using assms by (intro printable_ge) (simp add: word_le_def)
qed

lemma block_check_range: "0 \<le> block_check x" "block_check x < 64"
  by (simp_all add: block_check_def)

lemma printable_check [simp]: "printable (tochar (block_check x))"
  using block_check_range [of x] by (intro printable_tochar) auto

lemma k_sum_simps [simp]: "k_sum [] = 0" "k_sum (x # xs) = uint x + k_sum xs" "k_sum (xs @ ys) = k_sum xs + k_sum ys"
  by (simp_all add: k_sum_def)

text \<open>What the characters of a packet do to the state.\<close>

definition k_feed :: "byte \<Rightarrow> byte list \<Rightarrow> kermit \<Rightarrow> kermit" where
  "k_feed ty xs s = fold (\<lambda>c s. if ty = DATA_TYPE then k_data_char c s else if ty = SEND_TYPE then save_parm c s else s) xs s"

lemma k_body_good:
  "list_all printable body \<Longrightarrow>
    k_body (length body) ty sm s (body @ tochar (block_check (sm + k_sum body)) # END_CHAR # rest) = Some (Some ty, k_feed ty body s, rest)"
proof (induction body arbitrary: sm s)
  case Nil
  then show ?case by (simp add: k_check_def k_feed_def)
next
  case (Cons c body)
  then show ?case using Cons.IH [of "sm + uint c"] by (simp add: k_feed_def add.assoc)
qed

lemma k_body_bad:
  assumes "list_all printable pre"
    "length pre < m \<and> \<not> printable z \<or> length pre = m \<and> z \<noteq> tochar (block_check (sm + k_sum pre))"
  shows "k_body m ty sm s (pre @ z # rest) = Some (None, k_feed ty pre s, rest)"
  using assms
proof (induction pre arbitrary: m sm s)
  case Nil
  then show ?case by (cases m; cases "printable z") (auto simp: k_check_def k_feed_def)
next
  case (Cons c pre)
  then obtain m' where m: "m = Suc m'" by (cases m) auto
  show ?case using Cons.IH [of m' "sm + uint c"] Cons.prems by (simp add: m k_feed_def add.assoc)
qed

lemma k_packet_header:
  assumes "printable ty" "n < 64" "m \<le> 9023"
  shows "k_packet s (k_header n ty m @ rest) = k_body m ty (k_sum (k_header n ty m)) (checkpoint (int n) s) rest"
proof -
  have n: "printable (tochar (int n))" "untochar (tochar (int n)) = int n"
    using assms(2) by (auto intro!: printable_tochar untochar_tochar)
  show ?thesis
  proof (cases "m \<le> 91")
    case True
    have "printable (tochar (int m + 3))" "untochar (tochar (int m + 3)) = int m + 3"
      using True by (auto intro!: printable_tochar untochar_tochar)
    then show ?thesis using n assms(1) True by (simp add: k_packet_def k_header_def add.assoc)
  next
    case False
    let ?hi = "int ((m + 1) div 95)" and ?lo = "int ((m + 1) mod 95)"
    have hl: "?hi < 95" "?lo < 95" using assms(3) by auto
    have e: "?hi * 95 + ?lo = int m + 1" by (metis div_mult_mod_eq of_nat_1 of_nat_add of_nat_mult of_nat_numeral)
    have "printable (tochar 0)" "untochar (tochar 0) = 0" "printable (tochar ?hi)" "printable (tochar ?lo)"
      "untochar (tochar ?hi) = ?hi" "untochar (tochar ?lo) = ?lo"
      using hl by (auto intro!: printable_tochar untochar_tochar)
    then show ?thesis using n assms(1) False e by (simp add: k_packet_def k_header_def k_long_def Let_def add.assoc)
  qed
qed

subsection \<open>Data\<close>

lemma ktrans_quoted:
  "quoted c = [c] \<and> c \<noteq> 0x23 \<or> (\<exists>x. quoted c = [0x23, x] \<and> ktrans x = c)" "list_all printable (quoted c)"
proof -
  have x: "c AND 0x60 = 0 \<or> c AND 0x7F = 0x7F \<Longrightarrow> ktrans (c XOR 0x40) = c \<and> printable (c XOR 0x40)"
    by (auto simp: ktrans_def printable_def byte_eq_iff bit_simps)
  have y: "c AND 0x7F = 0x23 \<Longrightarrow> ktrans c = c \<and> printable c" "c AND 0x60 \<noteq> 0 \<Longrightarrow> printable c" "printable 0x23"
    "c AND 0x7F \<noteq> 0x23 \<Longrightarrow> c \<noteq> 0x23"
    by (auto simp: ktrans_def printable_def byte_eq_iff bit_simps)
  show "quoted c = [c] \<and> c \<noteq> 0x23 \<or> (\<exists>x. quoted c = [0x23, x] \<and> ktrans x = c)" "list_all printable (quoted c)"
    using x y by (auto simp: quoted_def)
qed

lemma printable_encode: "list_all printable (k_encode xs)"
  using ktrans_quoted(2) by (induction xs) (simp_all add: k_encode_def)

lemma feed_quoted:
  assumes "his_quote s = 0x23" "\<not> k_data_escape s"
  shows "k_feed DATA_TYPE (quoted c) s = bin_data_char c s"
  using ktrans_quoted(1) [of c] assms by (cases s) (auto simp: k_feed_def k_data_char_def bin_data_char_def)

lemma feed_append: "k_feed ty (xs @ ys) s = k_feed ty ys (k_feed ty xs s)"
  by (simp add: k_feed_def)

lemma feed_encode:
  assumes "his_quote s = 0x23" "\<not> k_data_escape s"
  shows "k_feed DATA_TYPE (k_encode xs) s =
    s\<lparr>k_mem := mem_write (os_data_addr s) xs (k_mem s), os_data_addr := os_data_addr s + of_nat (length xs)\<rparr>"
  using assms
proof (induction xs arbitrary: s)
  case Nil
  then show ?case by (simp add: k_encode_def k_feed_def)
next
  case (Cons c xs)
  have h: "his_quote (bin_data_char c s) = his_quote s" "k_data_escape (bin_data_char c s) = k_data_escape s"
    "os_data_addr (bin_data_char c s) = os_data_addr s + 1" by (simp_all add: bin_data_char_def)
  have "k_feed DATA_TYPE (k_encode (c # xs)) s = k_feed DATA_TYPE (k_encode xs) (bin_data_char c s)"
    by (simp add: k_encode_def feed_append feed_quoted [OF Cons.prems])
  also have "\<dots> = (bin_data_char c s)\<lparr>k_mem := mem_write (os_data_addr s + 1) xs (k_mem (bin_data_char c s)),
      os_data_addr := os_data_addr s + 1 + of_nat (length xs)\<rparr>"
    using Cons.IH [of "bin_data_char c s"] Cons.prems by (simp add: h)
  finally show ?case by (simp add: bin_data_char_def add.assoc)
qed

text \<open>Whatever the characters are, they only reach memory behind the current address.\<close>

lemma feed_any:
  "\<exists>bs e ps. length bs \<le> length xs \<and>
    k_feed ty xs s = s\<lparr>k_mem := mem_write (os_data_addr s) bs (k_mem s), os_data_addr := os_data_addr s + of_nat (length bs),
      k_data_escape := e, send_parms := ps\<rparr>"
proof (induction xs arbitrary: s)
  case Nil
  show ?case by (rule exI [of _ "[]"], rule exI [of _ "k_data_escape s"], rule exI [of _ "send_parms s"]) (simp add: k_feed_def)
next
  case (Cons c xs)
  let ?s = "k_feed ty [c] s"
  obtain b e ps where s: "length b \<le> 1" "?s = s\<lparr>k_mem := mem_write (os_data_addr s) b (k_mem s),
      os_data_addr := os_data_addr s + of_nat (length b), k_data_escape := e, send_parms := ps\<rparr>"
  proof (cases "ty = DATA_TYPE")
    case True
    show ?thesis
    proof (cases "k_data_escape s \<or> c \<noteq> his_quote s")
      case w: True
      show ?thesis
        by (rule that [where b = "[if k_data_escape s then ktrans c else c]" and e = False and ps = "send_parms s"])
          (use True w in \<open>cases s; auto simp: k_feed_def k_data_char_def bin_data_char_def\<close>)+
    next
      case False
      then show ?thesis using True
        by (intro that [where b = "[]" and e = True and ps = "send_parms s"]) (cases s; simp add: k_feed_def k_data_char_def)+
    qed
  next
    case False
    then show ?thesis
      by (intro that [where b = "[]" and e = "k_data_escape s" and ps = "send_parms ?s"]) (cases s; simp add: k_feed_def save_parm_def)+
  qed
  obtain bs e' ps' where t: "length bs \<le> length xs" "k_feed ty xs ?s = ?s\<lparr>k_mem := mem_write (os_data_addr ?s) bs (k_mem ?s),
      os_data_addr := os_data_addr ?s + of_nat (length bs), k_data_escape := e', send_parms := ps'\<rparr>"
    using Cons.IH [of ?s] by blast
  have "k_feed ty (c # xs) s = k_feed ty xs ?s" by (simp add: k_feed_def)
  also note t(2)
  finally have "k_feed ty (c # xs) s = s\<lparr>k_mem := mem_write (os_data_addr s) (b @ bs) (k_mem s),
      os_data_addr := os_data_addr s + of_nat (length (b @ bs)), k_data_escape := e', send_parms := ps'\<rparr>"
    unfolding s(2) by (simp add: mem_write_append add.assoc)
  moreover have "length (b @ bs) \<le> length (c # xs)" using s(1) t(1) by simp
  ultimately show ?case by blast
qed

subsection \<open>Between packets\<close>

text \<open>The state between two packets: the number of the last one was \<open>l\<close>, \<open>d0\<close> had arrived before it and \<open>d\<close> has arrived now.\<close>

definition k_at :: "u32 \<Rightarrow> kermit \<Rightarrow> int \<Rightarrow> byte list \<Rightarrow> byte list \<Rightarrow> bool" where
  "k_at a s l d0 d \<longleftrightarrow> last_n s = l \<and> his_quote s = 0x23 \<and> \<not> k_data_escape s \<and> \<not> k_data_escape_saved s \<and>
     bin_start_address s = a \<and> os_data_addr_saved s = a + of_nat (length d0) \<and> os_data_addr s = a + of_nat (length d) \<and>
     d0 = take (length d0) d \<and> mem_read a (length d) (k_mem s) = d"

text \<open>What a packet starts from.\<close>

definition k_base :: "nat \<Rightarrow> int \<Rightarrow> byte list \<Rightarrow> byte list \<Rightarrow> byte list" where
  "k_base n l d0 d = (if int n = l then d0 else d)"

lemma mem_read_prefix: "mem_read a (length d) m = d \<Longrightarrow> d0 = take (length d0) d \<Longrightarrow> mem_read a (length d0) m = d0"
proof -
  assume d: "mem_read a (length d) m = d" "d0 = take (length d0) d"
  have "length d0 = min (length d) (length d0)" using d(2) by (metis length_take)
  then have "length d0 \<le> length d" by simp
  then have "take (length d0) (mem_read a (length d) m) = mem_read a (length d0) m" by (simp add: mem_read_def take_map)
  then show ?thesis using d by simp
qed

lemma k_at_checkpoint:
  assumes "k_at a s l d0 d"
  shows "k_at a (checkpoint (int n) s) (int n) (k_base n l d0 d) (k_base n l d0 d)" "k_n (checkpoint (int n) s) = int n"
  using assms mem_read_prefix [of a d "k_mem s" d0]
  by (auto simp: k_at_def k_base_def checkpoint_def k_data_restore_def k_data_save_def)

lemma k_at_write:
  assumes "k_at a s l d0 d" "length d + length bs \<le> 4294967296"
  shows "mem_read a (length d) (mem_write (os_data_addr s) bs (k_mem s)) = d"
    "mem_read a (length (d @ bs)) (mem_write (os_data_addr s) bs (k_mem s)) = d @ bs"
proof -
  have s: "os_data_addr s = a + of_nat (length d)" "mem_read a (length d) (k_mem s) = d" using assms(1) by (auto simp: k_at_def)
  have "mem_write (os_data_addr s) bs (k_mem s) (a + of_nat i) = k_mem s (a + of_nat i)" if "i < length d" for i
  proof (rule mem_write_other, intro allI impI)
    fix j assume "j < length bs"
    then have "(of_nat i :: u32) \<noteq> of_nat (length d + j)" using that assms(2) by (subst of_nat_u32_inj) auto
    then show "a + of_nat i \<noteq> os_data_addr s + of_nat j" by (simp add: s(1) add.assoc)
  qed
  then have "mem_read a (length d) (mem_write (os_data_addr s) bs (k_mem s)) = mem_read a (length d) (k_mem s)"
    by (simp add: mem_read_def)
  then show m: "mem_read a (length d) (mem_write (os_data_addr s) bs (k_mem s)) = d" using s(2) by simp
  have "mem_read (a + of_nat (length d)) (length bs) (mem_write (os_data_addr s) bs (k_mem s)) = bs"
    using mem_read_write [of bs "os_data_addr s" "k_mem s"] assms(2) s(1) by simp
  then show "mem_read a (length (d @ bs)) (mem_write (os_data_addr s) bs (k_mem s)) = d @ bs" using m by (simp add: mem_read_append)
qed

lemma k_at_out:
  "k_at a (s1_sendpacket p s) l d0 d = k_at a s l d0 d" "k_at a (send_ack n s) l d0 d = k_at a s l d0 d"
  "k_at a (send_nack n s) l d0 d = k_at a s l d0 d" "k_at a (s\<lparr>send_parms := ps\<rparr>) l d0 d = k_at a s l d0 d"
  by (simp_all add: k_at_def s1_sendpacket_def send_ack_def send_nack_def send_reply_def Let_def)

text \<open>A damaged packet, seen up to the character that shows the damage.\<close>

lemma k_at_restore:
  assumes "k_at a s l d d" "length d + length xs \<le> 4294967296"
  shows "k_at a (k_data_restore (k_feed ty xs s)) l d d"
proof -
  obtain bs e ps where f: "length bs \<le> length xs" "k_feed ty xs s = s\<lparr>k_mem := mem_write (os_data_addr s) bs (k_mem s),
      os_data_addr := os_data_addr s + of_nat (length bs), k_data_escape := e, send_parms := ps\<rparr>"
    using feed_any [of xs ty s] by blast
  show ?thesis unfolding f(2) using assms k_at_write(1) [OF assms(1), of bs] f(1) by (simp add: k_at_def k_data_restore_def)
qed

text \<open>The packets of a file: type, characters and the data they stand for.\<close>

definition packet_ok :: "byte \<Rightarrow> byte list \<Rightarrow> byte list \<Rightarrow> bool" where
  "packet_ok ty body xs \<longleftrightarrow> printable ty \<and> list_all printable body \<and> length body \<le> 9023 \<and>
     (if ty = DATA_TYPE then body = k_encode xs else xs = []) \<and> (ty = SEND_TYPE \<and> 5 < length body \<longrightarrow> body ! 5 = 0x23)"

lemma feed_send: "send_parms (k_feed SEND_TYPE xs s) = take 19 (send_parms s @ xs) \<or> 19 < length (send_parms s)"
proof (induction xs arbitrary: s)
  case (Cons c xs)
  have "k_feed SEND_TYPE (c # xs) s = k_feed SEND_TYPE xs (save_parm c s)" by (simp add: k_feed_def)
  then show ?case using Cons.IH [of "save_parm c s"] by (auto simp: save_parm_def take_Cons' split: if_splits)
qed (auto simp: k_feed_def not_less)

lemma k_at_feed_other: "ty \<noteq> DATA_TYPE \<Longrightarrow> k_at a (k_feed ty body s) l d0 d = k_at a s l d0 d"
proof (induction body arbitrary: s)
  case (Cons c body)
  have "k_at a (save_parm c s) l d0 d = k_at a s l d0 d" by (simp add: save_parm_def k_at_out)
  then show ?case using Cons by (simp add: k_feed_def)
qed (simp add: k_feed_def)

lemma k_at_good:
  assumes "k_at a s l d d" "packet_ok ty body xs" "length d + length xs \<le> 4294967296"
  shows "k_at a (k_feed ty body s) l d (d @ xs)"
proof (cases "ty = DATA_TYPE")
  case True
  then have "k_feed ty body s = s\<lparr>k_mem := mem_write (os_data_addr s) xs (k_mem s), os_data_addr := os_data_addr s + of_nat (length xs)\<rparr>"
    using assms(1,2) feed_encode [of s xs] by (simp add: packet_ok_def k_at_def)
  then show ?thesis using assms(1) k_at_write(2) [OF assms(1,3)] by (simp add: k_at_def)
qed (use assms in \<open>simp add: k_at_feed_other packet_ok_def\<close>)

lemma k_at_send:
  assumes "k_at a s l d0 d" "send_parms s = take 19 body" "5 < length body \<longrightarrow> body ! 5 = 0x23"
  shows "k_at a (handle_send_packet n s) l d0 d"
  using assms by (auto simp: k_at_def handle_send_packet_def send_reply_def s1_sendpacket_def Let_def)

text \<open>One packet on the line, after some noise: as it was sent, or damaged. Noise has no start character and no ctrl-c.\<close>

datatype attempt = Good | Damaged "byte list" byte

definition noise :: "byte list \<Rightarrow> bool" where
  "noise g \<longleftrightarrow> START_CHAR \<notin> set g \<and> ETX_CHAR \<notin> set g"

fun attempt_ok :: "nat \<Rightarrow> byte \<Rightarrow> byte list \<Rightarrow> byte list \<times> attempt \<Rightarrow> bool" where
  "attempt_ok n ty body (g, Good) \<longleftrightarrow> noise g"
| "attempt_ok n ty body (g, Damaged pre z) \<longleftrightarrow> noise g \<and> list_all printable pre \<and>
     (length pre < length body \<and> \<not> printable z \<or>
      length pre = length body \<and> z \<noteq> tochar (block_check (k_sum (k_header n ty (length body) @ pre))))"

fun on_wire :: "nat \<Rightarrow> byte \<Rightarrow> byte list \<Rightarrow> byte list \<times> attempt \<Rightarrow> byte list" where
  "on_wire n ty body (g, Good) = g @ k_frame n ty body"
| "on_wire n ty body (g, Damaged pre z) = g @ START_CHAR # k_header n ty (length body) @ pre @ [z]"

lemma wait_noise: "noise g \<Longrightarrow> wait_start (g @ START_CHAR # rest) = Some (True, rest)"
  by (induction g) (auto simp: noise_def)

lemma k_recv_damaged:
  assumes "k_at a s l d0 d" "attempt_ok n ty body (g, Damaged pre z)" "packet_ok ty body xs" "n < 64"
    "length (k_base n l d0 d) + 9023 \<le> 4294967296"
  shows "\<exists>s'. k_recv_loop s (on_wire n ty body (g, Damaged pre z) @ rest) = k_recv_loop s' rest \<and>
    k_at a s' (int n) (k_base n l d0 d) (k_base n l d0 d)"
proof -
  let ?c = "checkpoint (int n) (s\<lparr>send_parms := []\<rparr>)" and ?b = "k_base n l d0 d"
  have c: "k_at a ?c (int n) ?b ?b" by (rule k_at_checkpoint) (simp add: assms(1) k_at_out)
  have p: "k_packet (s\<lparr>send_parms := []\<rparr>) (k_header n ty (length body) @ pre @ z # rest) = Some (None, k_feed ty pre ?c, rest)"
    using k_packet_header [of ty n "length body"] k_body_bad [of pre "length body" z _ ty ?c rest] assms(2-4) by (simp add: packet_ok_def)
  have len: "length ?b + length pre \<le> 4294967296" using assms(2,3,5) by (auto simp: packet_ok_def)
  let ?r = "k_data_restore (k_feed ty pre ?c)"
  have "k_at a (send_nack (k_n ?r) ?r) (int n) ?b ?b" using k_at_restore [OF c len] by (simp add: k_at_out)
  moreover have "k_recv_loop s (on_wire n ty body (g, Damaged pre z) @ rest) = k_recv_loop (send_nack (k_n ?r) ?r) rest"
    using wait_noise [of g] assms(2) p by (subst k_recv_loop.simps) (simp add: Let_def)
  ultimately show ?thesis by blast
qed

lemma k_recv_good:
  assumes "k_at a s l d0 d" "noise g" "packet_ok ty body xs" "n < 64" "length (k_base n l d0 d) + 9023 \<le> 4294967296"
  shows "\<exists>s'. k_at a s' (int n) (k_base n l d0 d) (k_base n l d0 d @ xs) \<and>
    k_recv_loop s (on_wire n ty body (g, Good) @ rest) =
      (if ty = BREAK_TYPE then Some (of_nat (length (k_base n l d0 d @ xs)), s', rest) else k_recv_loop s' rest)"
proof -
  let ?c = "checkpoint (int n) (s\<lparr>send_parms := []\<rparr>)" and ?b = "k_base n l d0 d"
  let ?f = "k_feed ty body ?c"
  have c: "k_at a ?c (int n) ?b ?b" by (rule k_at_checkpoint) (simp add: assms(1) k_at_out)
  have p: "k_packet (s\<lparr>send_parms := []\<rparr>) (k_header n ty (length body) @ body @
      tochar (block_check (k_sum (k_header n ty (length body) @ body))) # END_CHAR # rest) = Some (Some ty, ?f, rest)"
    using k_packet_header [of ty n "length body"] k_body_good [of body ty _ ?c rest] assms(3,4) by (simp add: packet_ok_def)
  have "length xs \<le> length (k_encode xs)" by (induction xs) (auto simp: k_encode_def quoted_def)
  then have len: "length ?b + length xs \<le> 4294967296" using assms(3,5) by (auto simp: packet_ok_def split: if_splits)
  have f: "k_at a ?f (int n) ?b (?b @ xs)" by (rule k_at_good [OF c assms(3) len])
  let ?s = "if ty = SEND_TYPE then handle_send_packet (k_n ?f) ?f else send_ack (k_n ?f) ?f"
  have "send_parms ?c = []" by (simp add: checkpoint_def k_data_restore_def k_data_save_def)
  then have "ty = SEND_TYPE \<Longrightarrow> send_parms ?f = take 19 body" using feed_send [of body ?c] by simp
  then have "k_at a ?s (int n) ?b (?b @ xs)"
    using f k_at_send [OF f, of body] assms(3) by (cases "ty = SEND_TYPE") (simp_all add: k_at_out packet_ok_def)
  moreover have "k_recv_loop s (on_wire n ty body (g, Good) @ rest) =
      (if ty = BREAK_TYPE then Some (of_nat (length (?b @ xs)), ?s, rest) else k_recv_loop ?s rest)"
    using wait_noise [OF assms(2)] p f
    by (subst k_recv_loop.simps)
      (auto simp: k_frame_def Let_def k_at_def send_ack_def send_reply_def s1_sendpacket_def)
  ultimately show ?thesis by blast
qed

text \<open>All attempts at a packet: when the last one is good, the data of the packet has arrived exactly once.\<close>

lemma k_recv_attempts:
  assumes "k_at a s l d0 d" "\<forall>x \<in> set as. attempt_ok n ty body x" "packet_ok ty body xs"
    "\<forall>x \<in> set as. ty = BREAK_TYPE \<longrightarrow> snd x \<noteq> Good" "n < 64" "length (k_base n l d0 d) + 9023 \<le> 4294967296" "as \<noteq> []"
  shows "\<exists>s'. k_recv_loop s (concat (map (on_wire n ty body) as) @ rest) = k_recv_loop s' rest \<and>
    k_at a s' (int n) (k_base n l d0 d) (if snd (last as) = Good then k_base n l d0 d @ xs else k_base n l d0 d)"
  using assms
proof (induction "as" arbitrary: s l d0 d)
  case (Cons x as)
  obtain g k where x: "x = (g, k)" by force
  let ?b = "k_base n l d0 d"
  let ?d = "if k = Good then ?b @ xs else ?b"
  obtain s1 where s1: "k_recv_loop s (on_wire n ty body x @ concat (map (on_wire n ty body) as) @ rest) =
      k_recv_loop s1 (concat (map (on_wire n ty body) as) @ rest)" "k_at a s1 (int n) ?b ?d"
  proof (cases k)
    case Good
    then show ?thesis using that k_recv_good [OF Cons.prems(1) _ Cons.prems(3,5,6), of g "concat (map (on_wire n ty body) as) @ rest"]
        Cons.prems(2,4) x by auto
  next
    case (Damaged pre z)
    then show ?thesis using that k_recv_damaged [OF Cons.prems(1) _ Cons.prems(3,5,6), of g pre z "concat (map (on_wire n ty body) as) @ rest"]
        Cons.prems(2) x by auto
  qed
  show ?case
  proof (cases "as = []")
    case True
    then show ?thesis using s1 x by auto
  next
    case False
    have "k_base n (int n) ?b ?d = ?b" by (simp add: k_base_def)
    then show ?thesis using Cons.IH [OF s1(2)] Cons.prems(2-6) False s1(1) by auto
  qed
qed simp

text \<open>A transmission: packets in order, each with its attempts. The numbers count modulo 64.\<close>

type_synonym k_sent = "byte \<times> byte list \<times> byte list \<times> (byte list \<times> attempt) list"

fun sent_ok :: "nat \<Rightarrow> k_sent list \<Rightarrow> bool" where
  "sent_ok i [] \<longleftrightarrow> True"
| "sent_ok i ((ty, body, xs, as) # ps) \<longleftrightarrow> packet_ok ty body xs \<and> ty \<noteq> BREAK_TYPE \<and> as \<noteq> [] \<and> snd (last as) = Good \<and>
     (\<forall>x \<in> set as. attempt_ok (i mod 64) ty body x) \<and> sent_ok (Suc i) ps"

fun sent :: "nat \<Rightarrow> k_sent list \<Rightarrow> byte list" where
  "sent i [] = []"
| "sent i ((ty, body, xs, as) # ps) = concat (map (on_wire (i mod 64) ty body) as) @ sent (Suc i) ps"

definition k_file :: "k_sent list \<Rightarrow> byte list" where
  "k_file ps = concat (map (\<lambda>(ty, body, xs, as). xs) ps)"

lemma mod_Suc_neq: "int (Suc i mod 64) \<noteq> int (i mod 64)"
  by (simp add: mod_Suc)

lemma k_recv_sent:
  assumes "k_at a s l d0 d" "sent_ok i ps" "l \<noteq> int (i mod 64)" "length d + length (k_file ps) + 9023 \<le> 4294967296"
  shows "\<exists>s' l' d0'. k_recv_loop s (sent i ps @ rest) = k_recv_loop s' rest \<and> k_at a s' l' d0' (d @ k_file ps) \<and>
    l' \<noteq> int ((i + length ps) mod 64)"
  using assms
proof (induction ps arbitrary: s l d0 d i)
  case Nil
  then show ?case by (auto simp: k_file_def)
next
  case (Cons p ps)
  obtain ty body xs "as" where p: "p = (ty, body, xs, as)" by (cases p) auto
  have b: "k_base (i mod 64) l d0 d = d" using Cons.prems(3) by (auto simp: k_base_def)
  have f: "k_file (p # ps) = xs @ k_file ps" by (simp add: k_file_def p)
  obtain s1 where s1: "k_recv_loop s (concat (map (on_wire (i mod 64) ty body) as) @ sent (Suc i) ps @ rest) = k_recv_loop s1 (sent (Suc i) ps @ rest)"
      "k_at a s1 (int (i mod 64)) d (d @ xs)"
    using k_recv_attempts [OF Cons.prems(1), of "as" "i mod 64" ty body xs "sent (Suc i) ps @ rest"] Cons.prems(2,4) p b f by auto
  have "int (i mod 64) \<noteq> int (Suc i mod 64)" using mod_Suc_neq [of i] by simp
  then show ?case using Cons.IH [OF s1(2), of "Suc i"] Cons.prems(2,4) p s1(1) f by auto
qed

subsection \<open>The file\<close>

lemma vsprintf_X: "vsprintf mm (cs ''%X'') [VA_word w] = Some (hex_text w @ [0], [], length (hex_text w))"
proof -
  have "number (ucast w) 16 (-1) (-1) 0 = hex_text w"
    using number_unfold [of "ucast w" 0 "-1" 0 "ucast w" "-1", OF _ _ refl refl refl refl, of 0 16 "-1"]
    by (simp add: number_sign_def number_tmp_upper hex_text_def)
  then show ?thesis
    by (simp add: vsprintf_def cs_def vsprintf_spec_def parse_width_def parse_precision_def
        parse_qualifier_def format_conv_def fetch_num_def)
qed

lemma set_size_filesize: "set_size sz st = set_filesize sz st"
  by (simp add: set_size_def set_filesize_def vsprintf_X vsprintf_lX)

lemma k_at_start: "k_at offset (k_data_save (k_data_init ((kermit_init offset m)\<lparr>his_eol := END_CHAR, his_pad_count := 0,
    his_pad_char := 0, his_quote := K_ESCAPE, k_n := 0, last_n := -1\<rparr>))) (-1) [] []"
  by (simp add: k_at_def k_data_save_def k_data_init_def kermit_init_def)

lemma break_ok: "packet_ok BREAK_TYPE [] []"
  by (simp add: packet_ok_def printable_def)

text \<open>The end of a transmission, with any number of damaged attempts before the good one.\<close>

definition k_break :: "nat \<Rightarrow> (byte list \<times> attempt) list \<Rightarrow> byte list \<Rightarrow> byte list" where
  "k_break n bs g = concat (map (on_wire n BREAK_TYPE []) bs) @ on_wire n BREAK_TYPE [] (g, Good)"

definition break_sent :: "nat \<Rightarrow> (byte list \<times> attempt) list \<Rightarrow> byte list \<Rightarrow> bool" where
  "break_sent n bs g \<longleftrightarrow> noise g \<and> (\<forall>x \<in> set bs. attempt_ok n BREAK_TYPE [] x \<and> snd x \<noteq> Good)"

lemma k_recv_break:
  assumes "k_at a s l d0 d" "break_sent n bs g" "n < 64" "l \<noteq> int n" "length d + 9023 \<le> 4294967296"
  shows "\<exists>s'. k_recv_loop s (k_break n bs g @ rest) = Some (of_nat (length d), s', rest) \<and> mem_read a (length d) (k_mem s') = d"
proof -
  have b: "k_base n l d0 d = d" using assms(4) by (auto simp: k_base_def)
  have "\<exists>s1 l' d0'. k_recv_loop s (k_break n bs g @ rest) = k_recv_loop s1 (on_wire n BREAK_TYPE [] (g, Good) @ rest) \<and>
      k_at a s1 l' d0' d \<and> k_base n l' d0' d = d"
  proof (cases "bs = []")
    case True
    then show ?thesis using assms(1) b by (auto simp: k_break_def)
  next
    case False
    have "snd (last bs) \<noteq> Good" using assms(2) False by (simp add: break_sent_def)
    then obtain s1 where s1: "k_recv_loop s (k_break n bs g @ rest) = k_recv_loop s1 (on_wire n BREAK_TYPE [] (g, Good) @ rest)"
        "k_at a s1 (int n) d d"
      using k_recv_attempts [OF assms(1) _ break_ok, of bs n "on_wire n BREAK_TYPE [] (g, Good) @ rest"] assms(2,3,5) b False
      by (auto simp: k_break_def break_sent_def)
    moreover have "k_base n (int n) d d = d" by (simp add: k_base_def)
    ultimately show ?thesis by blast
  qed
  then obtain s1 l' d0' where s1: "k_recv_loop s (k_break n bs g @ rest) = k_recv_loop s1 (on_wire n BREAK_TYPE [] (g, Good) @ rest)"
      "k_at a s1 l' d0' d" "k_base n l' d0' d = d" by blast
  obtain s2 where "k_at a s2 (int n) d d" "k_recv_loop s1 (on_wire n BREAK_TYPE [] (g, Good) @ rest) = Some (of_nat (length d), s2, rest)"
    using k_recv_good [OF s1(2) _ break_ok assms(3), of g rest] assms(2,5) s1(3) by (auto simp: break_sent_def)
  then show ?thesis using s1(1) by (auto simp: k_at_def)
qed

lemma load_serial_bin_result:
  assumes "k_recv (kermit_init offset (dl_mem s)) inp = Some (of_nat (length d), k, rest)" "mem_read offset (length d) (k_mem k) = d"
    "env_ok (dl_env s) kvs" "env_fits (put_var (cs ''filesize'') (hex_text (of_nat (length d))) kvs)"
  shows "\<exists>m e. load_serial_bin avail offset inp s = Some (offset, gather avail 100 rest, s\<lparr>dl_mem := m, dl_env := e\<rparr>) \<and>
    mem_read offset (length d) m = d \<and> env_ok e (put_var (cs ''filesize'') (hex_text (of_nat (length d))) kvs)"
proof -
  obtain e where "set_filesize (of_nat (length d)) (dl_env s) = Some e" "env_ok e (put_var (cs ''filesize'') (hex_text (of_nat (length d))) kvs)"
    using set_filesize_ok [OF assms(3), of "of_nat (length d)"] assms(4) by auto
  then show ?thesis using assms(1,2) by (auto simp: load_serial_bin_def set_size_filesize)
qed

text \<open>C13: a file sent with Kermit. Whatever the packets are (short or long, with the parameters of the sender, the file header and the
  end of the file), however often each is damaged behind its header and sent again, or repeated because an answer was lost, and
  whatever noise without a start character or ctrl-c lies between them: when the sender ends the transmission \<^verbatim>\<open>loadb\<close> has the
  file in memory from the offset on, and \<^verbatim>\<open>filesize\<close> is its size.\<close>

theorem kermit_loads_file:
  assumes "sent_ok 0 ps" and "break_sent (length ps mod 64) bs g" and "length (k_file ps) + 9023 \<le> 4294967296"
    and "env_ok (dl_env s) kvs" and "env_fits (put_var (cs ''filesize'') (hex_text (of_nat (length (k_file ps)))) kvs)"
  shows "\<exists>m e. load_serial_bin avail offset (sent 0 ps @ k_break (length ps mod 64) bs g @ rest) s =
      Some (offset, gather avail 100 rest, s\<lparr>dl_mem := m, dl_env := e\<rparr>) \<and>
    mem_read offset (length (k_file ps)) m = k_file ps \<and>
    env_ok e (put_var (cs ''filesize'') (hex_text (of_nat (length (k_file ps)))) kvs)"
proof -
  obtain s1 l d0 where "k_recv (kermit_init offset (dl_mem s)) (sent 0 ps @ k_break (length ps mod 64) bs g @ rest) =
      k_recv_loop s1 (k_break (length ps mod 64) bs g @ rest)" "k_at offset s1 l d0 (k_file ps)" "l \<noteq> int (length ps mod 64)"
    using k_recv_sent [OF k_at_start [of offset "dl_mem s"] assms(1), of "k_break (length ps mod 64) bs g @ rest"] assms(3) by (auto simp: k_recv_def)
  moreover from k_recv_break [OF this(2) assms(2) _ this(3), of rest] assms(3)
  obtain s2 where "k_recv_loop s1 (k_break (length ps mod 64) bs g @ rest) = Some (of_nat (length (k_file ps)), s2, rest)"
    "mem_read offset (length (k_file ps)) (k_mem s2) = k_file ps" by auto
  ultimately show ?thesis using load_serial_bin_result [of offset s _ "k_file ps" s2 rest, OF _ _ assms(4,5)] by auto
qed

text \<open>A transmission of three bytes in one data packet, which is first damaged and later repeated.\<close>

definition sample_sent :: "k_sent list" where
  "sample_sent =
     [(SEND_TYPE, cs ''~+ @-#Y1'', [], [([], Good)]), (0x46, cs ''A'', [], [([0x0D, 0x0A], Good)]),
      (DATA_TYPE, k_encode [1, 0x41, 0xFF], [1, 0x41, 0xFF],
       [([], Damaged (cs ''#'') 0), ([], Good), ([0x0D], Good)]), (0x5A, [], [], [([], Good)])]"

lemma sample_sent_ok: "sent_ok 0 sample_sent" "k_file sample_sent = [1, 0x41, 0xFF]"
  by (simp_all add: sample_sent_def packet_ok_def printable_encode k_file_def)
    (simp_all add: k_encode_def quoted_def printable_def noise_def cs_def)

lemma sample_dl:
  "env_ok (dl_env dl_sample) sample_vars" "env_fits (put_var (cs ''filesize'') (hex_text 3) sample_vars)"
  "hex_text 3 = cs ''3''" "gather (\<lambda>_. False) n xs = xs" "break_sent 4 [] []"
proof -
  show t: "hex_text 3 = cs ''3''" by (simp add: hex_text_def base_digits_small hex_upper_def cs_def)
  show "env_fits (put_var (cs ''filesize'') (hex_text 3) sample_vars)"
    unfolding t by (simp add: env_fits_def put_var_def del_var_def entry_def cs_def)
  show "env_ok (dl_env dl_sample) sample_vars" using sample_state_ok(1) [OF sample_vars_ok] by (simp add: dl_sample_def)
  show "gather (\<lambda>_. False) n xs = xs" by (induction n) simp_all
  show "break_sent 4 [] []" by (simp add: break_sent_def noise_def)
qed

theorem kermit_loads_file_witness:
  "\<exists>m e. load_serial_bin (\<lambda>_. False) 0x1000 (sent 0 sample_sent @ k_break 4 [] []) dl_sample =
      Some (0x1000, [], dl_sample\<lparr>dl_mem := m, dl_env := e\<rparr>) \<and> mem_read 0x1000 3 m = [1, 0x41, 0xFF] \<and>
    env_lookup e (cs ''filesize'') = Some (cs ''3'')"
proof -
  have l: "length sample_sent mod 64 = 4" "length (k_file sample_sent) = 3" by (simp add: sample_sent_def) (simp add: sample_sent_ok)
  have e: "of_nat 3 = (3 :: u32)" "(3 :: nat) + 9023 \<le> 4294967296" by simp_all
  have "\<exists>m e. load_serial_bin (\<lambda>_. False) 0x1000 (sent 0 sample_sent @ k_break 4 [] [] @ []) dl_sample =
      Some (0x1000, gather (\<lambda>_. False) 100 [], dl_sample\<lparr>dl_mem := m, dl_env := e\<rparr>) \<and>
    mem_read 0x1000 3 m = [1, 0x41, 0xFF] \<and> env_ok e (put_var (cs ''filesize'') (hex_text 3) sample_vars)"
    by (rule kermit_loads_file [OF sample_sent_ok(1), unfolded l e(1), unfolded sample_sent_ok(2)])
      (fact sample_dl(1,2,5) e(2))+
  then obtain m e where r: "load_serial_bin (\<lambda>_. False) 0x1000 (sent 0 sample_sent @ k_break 4 [] [] @ []) dl_sample =
      Some (0x1000, gather (\<lambda>_. False) 100 [], dl_sample\<lparr>dl_mem := m, dl_env := e\<rparr>)"
    "mem_read 0x1000 3 m = [1, 0x41, 0xFF]" "env_ok e (put_var (cs ''filesize'') (hex_text 3) sample_vars)" by blast
  have "env_lookup e (cs ''filesize'') = Some (cs ''3'')" using r(3) by (simp add: env_lookup_ok map_of_put_var sample_dl(3))
  then show ?thesis using r(1,2) by (intro exI [of _ m] exI [of _ e]) (simp add: sample_dl(4))
qed

subsection \<open>Damage in a header\<close>

lemma sent_append: "sent i (ps @ qs) = sent i ps @ sent (i + length ps) qs"
  by (induction i ps rule: sent.induct) simp_all

lemma sent_ok_append: "sent_ok i (ps @ qs) \<longleftrightarrow> sent_ok i ps \<and> sent_ok (i + length ps) qs"
  by (induction i ps rule: sent_ok.induct) auto

lemma k_recv_header_damaged:
  assumes "k_at a s l d0 d" "\<not> printable z"
  shows "\<exists>s'. k_recv_loop s (START_CHAR # z # rest) = k_recv_loop s' rest \<and> k_at a s' l d0 d0"
proof -
  let ?r = "k_data_restore (s\<lparr>send_parms := []\<rparr>)"
  have "k_at a (send_nack (k_n ?r) ?r) l d0 d0"
    using assms(1) mem_read_prefix [of a d "k_mem s" d0] by (simp add: k_at_out) (simp add: k_at_def k_data_restore_def)
  moreover have "k_recv_loop s (START_CHAR # z # rest) = k_recv_loop (send_nack (k_n ?r) ?r) rest"
    using assms(2) by (subst k_recv_loop.simps) (simp add: k_packet_def Let_def)
  ultimately show ?thesis by blast
qed

text \<open>C36: a start character followed by a control character, for example from a packet that lost its length, undoes the last packet,
  although it was acknowledged: the state goes back to the one saved before it, and the next packet is stored in its place. The
  file in memory then lacks the data of that packet, and the download still ends with success.\<close>

theorem kermit_header_damage_loses_packet:
  assumes "sent_ok 0 (ps @ [p])" and "sent_ok (length ps + 1) qs" and "\<not> printable z"
    and "n = (length ps + 1 + length qs) mod 64" and "break_sent n bs g"
    and "length (k_file ps) + length (k_file [p]) + length (k_file qs) + 9023 \<le> 4294967296"
    and "env_ok (dl_env s) kvs" and "env_fits (put_var (cs ''filesize'') (hex_text (of_nat (length (k_file ps @ k_file qs)))) kvs)"
  shows "\<exists>m e. load_serial_bin avail offset (sent 0 (ps @ [p]) @ [START_CHAR, z] @ sent (length ps + 1) qs @ k_break n bs g @ rest) s =
      Some (offset, gather avail 100 rest, s\<lparr>dl_mem := m, dl_env := e\<rparr>) \<and>
    mem_read offset (length (k_file ps @ k_file qs)) m = k_file ps @ k_file qs"
proof -
  obtain ty body xs "as" where p: "p = (ty, body, xs, as)" by (cases p) auto
  let ?i = "length ps mod 64" and ?tl = "sent (length ps + 1) qs @ k_break n bs g @ rest"
  have ok: "sent_ok 0 ps" "packet_ok ty body xs" "ty \<noteq> BREAK_TYPE" "as \<noteq> []" "snd (last as) = Good" "\<forall>x \<in> set as. attempt_ok ?i ty body x"
    using assms(1) by (auto simp: sent_ok_append p)
  have w: "sent 0 (ps @ [p]) = sent 0 ps @ concat (map (on_wire ?i ty body) as)" by (simp add: sent_append p)
  obtain s1 l d0 where s1: "k_recv (kermit_init offset (dl_mem s)) (sent 0 (ps @ [p]) @ [START_CHAR, z] @ ?tl) =
      k_recv_loop s1 (concat (map (on_wire ?i ty body) as) @ START_CHAR # z # ?tl)" "k_at offset s1 l d0 (k_file ps)" "l \<noteq> int ?i"
    using k_recv_sent [OF k_at_start [of offset "dl_mem s"] ok(1), of "concat (map (on_wire ?i ty body) as) @ START_CHAR # z # ?tl"] assms(6)
    by (auto simp: k_recv_def w)
  have b: "k_base ?i l d0 (k_file ps) = k_file ps" using s1(3) by (auto simp: k_base_def)
  obtain s2 where s2: "k_recv_loop s1 (concat (map (on_wire ?i ty body) as) @ START_CHAR # z # ?tl) = k_recv_loop s2 (START_CHAR # z # ?tl)"
      "k_at offset s2 (int ?i) (k_file ps) (k_file ps @ xs)"
    using k_recv_attempts [OF s1(2), of "as" ?i ty body xs "START_CHAR # z # ?tl"] ok b assms(6) by auto
  obtain s3 where s3: "k_recv_loop s2 (START_CHAR # z # ?tl) = k_recv_loop s3 ?tl" "k_at offset s3 (int ?i) (k_file ps) (k_file ps)"
    using k_recv_header_damaged [OF s2(2) assms(3)] by blast
  have "int ?i \<noteq> int ((length ps + 1) mod 64)" using mod_Suc_neq [of "length ps"] by simp
  then obtain s4 l' d0' where s4: "k_recv_loop s3 ?tl = k_recv_loop s4 (k_break n bs g @ rest)" "k_at offset s4 l' d0' (k_file ps @ k_file qs)" "l' \<noteq> int n"
    using k_recv_sent [OF s3(2) assms(2), of "k_break n bs g @ rest"] assms(4,6) by auto
  have "n < 64" using assms(4) by simp
  then obtain s5 where "k_recv_loop s4 (k_break n bs g @ rest) = Some (of_nat (length (k_file ps @ k_file qs)), s5, rest)"
      "mem_read offset (length (k_file ps @ k_file qs)) (k_mem s5) = k_file ps @ k_file qs"
    using k_recv_break [OF s4(2) assms(5) _ s4(3), of rest] assms(6) by auto
  then have "k_recv (kermit_init offset (dl_mem s)) (sent 0 (ps @ [p]) @ [START_CHAR, z] @ ?tl) =
      Some (of_nat (length (k_file ps @ k_file qs)), s5, rest)"
    using s1(1) s2(1) s3(1) s4(1) by (simp only:)
  from load_serial_bin_result [OF this _ assms(7,8)]
  show ?thesis using \<open>mem_read offset (length (k_file ps @ k_file qs)) (k_mem s5) = k_file ps @ k_file qs\<close> by blast
qed

theorem kermit_header_damage_loses_packet_witness:
  "\<exists>m e. load_serial_bin (\<lambda>_. False) 0x1000
      (sent 0 (take 3 sample_sent) @ [START_CHAR, 0] @ sent 3 [(DATA_TYPE, k_encode [7, 8, 9], [7, 8, 9], [([], Good)])] @ k_break 4 [] []) dl_sample =
      Some (0x1000, [], dl_sample\<lparr>dl_mem := m, dl_env := e\<rparr>) \<and> mem_read 0x1000 3 m = [7, 8, 9]"
proof -
  let ?ps = "take 2 sample_sent" and ?p = "sample_sent ! 2" and ?qs = "[(DATA_TYPE, k_encode [7, 8, 9], [7, 8, 9], [([], Good)])] :: k_sent list"
  have s: "?ps @ [?p] = take 3 sample_sent" "sample_sent = take 3 sample_sent @ drop 3 sample_sent" "length ?ps = 2" "length sample_sent = 4"
    by (simp_all add: sample_sent_def)
  have ok: "sent_ok 0 (?ps @ [?p])" using sample_sent_ok(1) s by (metis sent_ok_append)
  have "packet_ok DATA_TYPE (k_encode [7, 8, 9]) [7, 8, 9]"
    using printable_encode [of "[7, 8, 9]"] by (simp add: packet_ok_def) (simp add: printable_def k_encode_def quoted_def)
  then have q: "sent_ok 3 ?qs" by (simp add: noise_def)
  have f: "k_file ?ps = []" "k_file [?p] = [1, 0x41, 0xFF]" "k_file ?qs = [7, 8, 9]" by (simp_all add: k_file_def sample_sent_def)
  have "\<not> printable 0" by (simp add: printable_def)
  then have "\<exists>m e. load_serial_bin (\<lambda>_. False) 0x1000 (sent 0 (?ps @ [?p]) @ [START_CHAR, 0] @ sent (length ?ps + 1) ?qs @ k_break 4 [] [] @ []) dl_sample =
      Some (0x1000, gather (\<lambda>_. False) 100 [], dl_sample\<lparr>dl_mem := m, dl_env := e\<rparr>) \<and>
      mem_read 0x1000 (length (k_file ?ps @ k_file ?qs)) m = k_file ?ps @ k_file ?qs"
    by (intro kermit_header_damage_loses_packet [OF ok]) (use sample_dl(1,2,5) q in \<open>simp_all add: f s(4) del: sent_ok.simps\<close>)
  moreover have "length ([] @ [7, 8, 9] :: byte list) = 3" "(2 :: nat) + 1 = 3" by simp_all
  ultimately show ?thesis unfolding s(1,3) f sample_dl(4) by (simp only: append_Nil2 append_Nil)
qed

end
