(* ===== verification/YmodemProps.thy ===== *)
theory YmodemProps
  imports Ymodem KermitProps FlashProps
begin

text \<open>
  What \<^verbatim>\<open>loady\<close> stores. The line is described by what the sender puts on it: for every block some damaged or repeated blocks and
  then the block itself. The lemmas follow the receiver outwards, from the characters of one block (\<open>x_get_hdr\<close>) over the retries
  (\<open>read_block\<close>) and the buffer (\<open>stream_read\<close>) to the command.
\<close>

subsection \<open>Blocks on the line\<close>

definition block_bytes :: "byte \<Rightarrow> byte list \<Rightarrow> u16 \<Rightarrow> byte list" where
  "block_bytes b d c =
     (if length d = 128 then SOH else STX) # b # (b XOR 0xFF) # d @ [ucast (drop_bit 8 c), ucast c]"

definition block_size :: "byte list \<Rightarrow> bool" where
  "block_size d \<longleftrightarrow> length d = 128 \<or> length d = 1024"

lemma x_getc_here: "\<not> late (x_polls s) \<Longrightarrow> x_inp s = c # r \<Longrightarrow> x_getc late s = (Some c, s\<lparr>x_inp := r, x_polls := Suc (x_polls s)\<rparr>)"
  by (simp add: x_getc_def)

lemma x_data_here:
  assumes "\<And>k. \<not> late k" "x_inp s = d @ r" "i + length d \<le> length (pkt s)"
  shows "x_data late (length d) i s =
    (True, s\<lparr>x_inp := r, x_polls := x_polls s + length d, pkt := take i (pkt s) @ d @ drop (i + length d) (pkt s)\<rparr>)"
  using assms(2,3)
proof (induction d arbitrary: i s)
  case Nil
  then show ?case by simp
next
  case (Cons c d)
  let ?s = "s\<lparr>x_inp := d @ r, x_polls := Suc (x_polls s), pkt := (pkt s)[i := c]\<rparr>"
  have "(pkt s)[i := c] = take i (pkt s) @ c # drop (Suc i) (pkt s)" using Cons.prems(2) by (simp add: upd_conv_take_nth_drop)
  then show ?case using Cons.IH [of ?s "Suc i"] Cons.prems by (simp add: x_getc_here assms(1) min_def ac_simps)
qed

lemma crc_bytes: "push_bit 8 (ucast (ucast (drop_bit 8 c) :: byte)) OR ucast (ucast c :: byte) = (c :: u16)"
  by (rule bit_word_eqI) (auto simp: bit_simps)

text \<open>The state after a block: what the receiver keeps of the state before, and what it has read.\<close>

definition got :: "xyz \<Rightarrow> byte list \<Rightarrow> byte \<Rightarrow> byte list \<Rightarrow> xyz \<Rightarrow> bool" where
  "got s r b d s' \<longleftrightarrow>
     x_inp s' = r \<and> blk s' = b \<and> x_len s' = int (length d) \<and> bufp s' = 0 \<and> take (length d) (pkt s') = d \<and> length (pkt s') = 1024 \<and>
     crc_mode s' \<and> \<not> tx_ack s' \<and> at_eof s' = at_eof s \<and> next_blk s' = next_blk s \<and>
     file_length s' = file_length s \<and> read_length s' = read_length s"

lemma x_get_hdr_block:
  assumes late: "\<And>k. \<not> late k" and d: "block_size d" and s: "x_inp s = block_bytes b d c @ r" "crc_mode s" "length (pkt s) = 1024"
  shows "\<exists>s'. x_get_hdr late s = (if c = cyg_crc16 d then X_ok else X_cksum, s') \<and> got s r b d s'"
proof -
  define s0 where "s0 = (if tx_ack s then (x_putc ACK s)\<lparr>tx_ack := False\<rparr> else s)"
  define k where "k = (if length d = 128 then SOH else STX)"
  define h l :: byte where "h = ucast (drop_bit 8 c)" and "l = ucast c"
  have s0: "x_inp s0 = k # b # (b XOR 0xFF) # d @ h # l # r" "pkt s0 = pkt s" "crc_mode s0" "\<not> tx_ack s0"
    "at_eof s0 = at_eof s" "next_blk s0 = next_blk s" "file_length s0 = file_length s" "read_length s0 = read_length s"
    using s by (simp_all add: s0_def k_def x_putc_def block_bytes_def h_def l_def)
  have k: "k = SOH \<or> k = STX" "(if k = SOH then 128 else 1024 :: nat) = length d" "length d \<le> length (pkt s0)"
    using d s(3) s0(2) by (auto simp: k_def block_size_def)
  have find: "x_find late 0 0 s0 = (Inr k, s0\<lparr>x_inp := b # (b XOR 0xFF) # d @ h # l # r, x_polls := Suc (x_polls s0)\<rparr>)"
    using k(1) by (subst x_find.simps) (simp add: x_getc_here [OF late s0(1)])
  let ?s1 = "s0\<lparr>blk := b, x_inp := d @ h # l # r, x_polls := Suc (Suc (Suc (x_polls s0))), cblk := b XOR 0xFF,
    x_len := int (length d), bufp := 0\<rparr>"
  let ?s2 = "s0\<lparr>blk := b, cblk := b XOR 0xFF, x_len := int (length d), bufp := 0, pkt := d @ drop (length d) (pkt s), crc1 := h,
    x_inp := r, x_polls := Suc (Suc (x_polls ?s1 + length d)), crc2 := l\<rparr>"
  have data: "x_data late (length d) 0 ?s1 =
      (True, ?s1\<lparr>x_inp := h # l # r, x_polls := x_polls ?s1 + length d, pkt := d @ drop (length d) (pkt s)\<rparr>)"
    using x_data_here [of late ?s1 d "h # l # r" 0] late k(3) s0(2) by simp
  have sum: "x_sum_ok ?s2 \<longleftrightarrow> c = cyg_crc16 d" using s0(3) by (auto simp: x_sum_ok_def crc_bytes h_def l_def)
  have x: "b XOR (b XOR 0xFF) = 0xFF" by (simp add: xor.assoc [symmetric])
  have "x_get_hdr late s = (if c = cyg_crc16 d then X_ok else X_cksum, ?s2)"
    using data sum [symmetric] x s0(3) unfolding x_get_hdr_def s0_def [symmetric] Let_def find k(2) prod.case sum.case
    by (simp add: x_getc_here late k(2))
  moreover have "got s r b d ?s2" using s0 s(3) k(3) by (simp add: got_def)
  ultimately show ?thesis by blast
qed

subsection \<open>Retries\<close>

datatype y_fault = Bad_crc byte "byte list" u16 | Again "byte list"

fun fault_ok :: "y_fault \<Rightarrow> bool" where
  "fault_ok (Bad_crc n d c) \<longleftrightarrow> block_size d \<and> c \<noteq> cyg_crc16 d"
| "fault_ok (Again d) \<longleftrightarrow> block_size d"

fun fault_bytes :: "byte \<Rightarrow> y_fault \<Rightarrow> byte list" where
  "fault_bytes b (Bad_crc n d c) = block_bytes n d c"
| "fault_bytes b (Again d) = block_bytes (b - 1) d (cyg_crc16 d)"

definition y_block :: "byte \<Rightarrow> y_fault list \<Rightarrow> byte list \<Rightarrow> byte list" where
  "y_block b fs d = concat (map (fault_bytes b) fs) @ block_bytes b d (cyg_crc16 d)"

lemma got_trans: "got s r b d s1 \<Longrightarrow> got (x_putc c s1) r' b' d' s2 \<Longrightarrow> got s r' b' d' s2"
  by (simp add: got_def x_putc_def)

lemma read_block_step:
  assumes "x_get_hdr late s = (X_cksum, s1) \<or> x_get_hdr late s = (X_ok, s1) \<and> blk s1 = next_blk s1 - 1"
  shows "\<exists>c stat'. read_block late (Suc n) stat s = read_block late n stat' (x_putc c s1)"
  using assms
proof
  assume "x_get_hdr late s = (X_cksum, s1)"
  then have "read_block late (Suc n) stat s = read_block late n X_cksum (x_ask s1)" by simp
  then show ?thesis unfolding x_ask_def by blast
next
  assume "x_get_hdr late s = (X_ok, s1) \<and> blk s1 = next_blk s1 - 1"
  then have "read_block late (Suc n) stat s = read_block late n X_ok (x_putc ACK s1)" by simp
  then show ?thesis by blast
qed

lemma read_block_here:
  assumes late: "\<And>k. \<not> late k" and d: "block_size d" and crc: "crc_mode s" "length (pkt s) = 1024"
    and inp: "x_inp s = y_block (next_blk s) fs d @ r" "list_all fault_ok fs" "length fs < n"
  shows "\<exists>s'. read_block late n stat s = (X_ok, accept_block s') \<and> got s r (next_blk s) d s'"
  using crc inp
proof (induction fs arbitrary: n stat s)
  case Nil
  then obtain n' where n: "n = Suc n'" by (cases n) auto
  obtain s' where "x_get_hdr late s = (X_ok, s')" "got s r (next_blk s) d s'"
    using x_get_hdr_block [of late d s "next_blk s" "cyg_crc16 d" r] late d Nil by (auto simp: y_block_def)
  then show ?case by (auto simp: n got_def)
next
  case (Cons f fs)
  then obtain n' where n: "n = Suc n'" "length fs < n'" by (cases n) auto
  let ?r = "y_block (next_blk s) fs d @ r"
  have "\<exists>s1 b e. got s ?r b e s1 \<and> (x_get_hdr late s = (X_cksum, s1) \<or> x_get_hdr late s = (X_ok, s1) \<and> blk s1 = next_blk s1 - 1)"
  proof (cases f)
    case (Bad_crc b e c)
    then show ?thesis using x_get_hdr_block [of late e s b c ?r] late Cons.prems by (auto simp: y_block_def)
  next
    case (Again e)
    then obtain s1 where "x_get_hdr late s = (X_ok, s1)" "got s ?r (next_blk s - 1) e s1"
      using x_get_hdr_block [of late e s "next_blk s - 1" "cyg_crc16 e" ?r] late Cons.prems by (auto simp: y_block_def)
    moreover from this(2) have "blk s1 = next_blk s1 - 1" by (simp add: got_def)
    ultimately show ?thesis by blast
  qed
  then obtain s1 b e where s1: "got s ?r b e s1"
    "x_get_hdr late s = (X_cksum, s1) \<or> x_get_hdr late s = (X_ok, s1) \<and> blk s1 = next_blk s1 - 1" by blast
  obtain c stat' where r: "read_block late n stat s = read_block late n' stat' (x_putc c s1)"
    using read_block_step [OF s1(2)] n(1) by blast
  have "\<exists>s'. read_block late n' stat' (x_putc c s1) = (X_ok, accept_block s') \<and> got (x_putc c s1) r (next_blk s) d s'"
    using Cons.IH [of "x_putc c s1" n' stat'] s1(1) n(2) Cons.prems(4) by (simp add: got_def x_putc_def)
  then show ?case using r got_trans [OF s1(1)] by auto
qed

subsection \<open>The buffer\<close>

text \<open>The blocks from number \<open>b\<close> on; the last one reaches the length that is left, no earlier one does.\<close>

type_synonym y_sent = "y_fault list \<times> byte list"

fun y_blocks :: "byte \<Rightarrow> y_sent list \<Rightarrow> byte list" where
  "y_blocks b [] = []"
| "y_blocks b ((fs, d) # bs) = y_block b fs d @ y_blocks (b + 1) bs"

fun y_sent_ok :: "nat \<Rightarrow> y_sent list \<Rightarrow> bool" where
  "y_sent_ok n [] \<longleftrightarrow> n = 0"
| "y_sent_ok n ((fs, d) # bs) \<longleftrightarrow>
     0 < n \<and> block_size d \<and> list_all fault_ok fs \<and> length fs < MAX_RETRIES \<and> y_sent_ok (n - length d) bs"

definition y_data :: "y_sent list \<Rightarrow> byte list" where
  "y_data bs = concat (map snd bs)"

definition holds :: "nat \<Rightarrow> byte list \<Rightarrow> byte list \<Rightarrow> y_sent list \<Rightarrow> nat \<Rightarrow> xyz \<Rightarrow> bool" where
  "holds N rest p bs m s \<longleftrightarrow>
     x_inp s = y_blocks (next_blk s) bs @ rest \<and> crc_mode s \<and> \<not> at_eof s \<and> length (pkt s) = 1024 \<and>
     x_len s = int (length p) \<and> take (length p) (drop (bufp s) (pkt s)) = p \<and>
     file_length s = of_nat N \<and> read_length s = of_nat m \<and> 0 < N \<and> N + 1024 \<le> 4294967296 \<and> y_sent_ok (N - m) bs"

lemma y_sent_length: "y_sent_ok n bs \<Longrightarrow> n \<le> length (y_data bs)"
  by (induction n bs rule: y_sent_ok.induct) (auto simp: y_data_def)

lemma accept_block_holds:
  assumes s: "holds N rest [] ((fs, d) # bs) m s" and g: "got s (y_blocks (next_blk s + 1) bs @ rest) (next_blk s) d s'"
  shows "holds N rest (take (N - m) d) bs (m + length d) (accept_block s')"
proof -
  have m: "m < N" "length d \<le> 1024" "N + 1024 \<le> 4294967296" "y_sent_ok (N - (m + length d)) bs" "0 < N"
    using s by (auto simp: holds_def block_size_def)
  have u: "unat (of_nat N :: u32) = N" "unat (of_nat (m + length d) :: u32) = m + length d"
    using m by (simp_all add: take_bit_nat_eq_self_iff unsigned_of_nat del: of_nat_add)
  then have nz: "(of_nat N :: u32) \<noteq> 0" using m(5) by (metis gr_implies_not0 unat_0)
  have cmp: "(of_nat (m + length d) :: u32) > of_nat N \<longleftrightarrow> N < m + length d" by (simp add: word_less_nat_alt u del: of_nat_add)
  have "sint (of_int (int (length d)) - (of_nat (m + length d) - of_nat N) :: u32) = int (N - m)" if "N < m + length d"
  proof -
    have "(of_int (int (length d)) - (of_nat (m + length d) - of_nat N) :: u32) = of_nat (N - m)"
      using m(1) by (simp add: of_nat_diff)
    moreover have "sint (of_nat k :: u32) = int k" if "k \<le> 1024" for k
      using that by (simp add: signed_of_nat signed_take_bit_int_eq_self)
    moreover have "N - m \<le> 1024" using that m by simp
    ultimately show ?thesis by (simp only:)
  qed
  then have "cut_length (s'\<lparr>tx_ack := True, next_blk := next_blk s' + 1\<rparr>) =
      s'\<lparr>tx_ack := True, next_blk := next_blk s + 1, read_length := of_nat (m + length d), x_len := int (min (length d) (N - m))\<rparr>"
    using g s nz cmp by (auto simp: cut_length_def Let_def got_def holds_def min_def)
  moreover have "strip_pad (s'\<lparr>tx_ack := True, next_blk := next_blk s' + 1\<rparr>) = s'\<lparr>tx_ack := True, next_blk := next_blk s' + 1\<rparr>"
    using g s nz by (simp add: strip_pad_def Let_def got_def holds_def)
  moreover have "take (min (length d) (N - m)) (pkt s') = take (N - m) d" using g by (metis got_def min.commute take_take)
  ultimately show ?thesis using g s m by (simp add: accept_block_def got_def holds_def)
qed

lemma stream_read_done: "at_eof s \<or> n = 0 \<Longrightarrow> stream_read late n buf s = Some (buf, s)"
  by (subst stream_read.simps) simp

lemma stream_read_deliver:
  assumes "holds N rest p bs m s" "p \<noteq> []" "0 < n"
  shows "\<exists>s'. stream_read late n buf s = stream_read late (n - length p) (buf @ take n p) s' \<and> holds N rest (drop n p) bs m s' \<and> next_blk s' = next_blk s"
proof -
  let ?l = "min n (length p)"
  let ?s = "s\<lparr>x_len := x_len s - int ?l, bufp := bufp s + ?l\<rparr>"
  have t: "take (length p) (drop (bufp s) (pkt s)) = p" using assms(1) by (simp add: holds_def)
  have c: "take ?l (drop (bufp s) (pkt s)) = take n p" using t by (metis min.commute take_take)
  have d: "take (length p - ?l) (drop (bufp s + ?l) (pkt s)) = drop n p"
    using t by (metis add.commute drop_drop drop_take min_def drop_all nle_le diff_self_eq_0 take_0)
  have "stream_read late n buf s = stream_read late (n - ?l) (buf @ take ?l (drop (bufp s) (pkt s))) ?s"
    using assms by (subst stream_read.simps) (simp add: holds_def Let_def min_def)
  also have "n - ?l = n - length p" by simp
  finally have "stream_read late n buf s = stream_read late (n - length p) (buf @ take n p) ?s" using c by simp
  moreover have "holds N rest (drop n p) bs m ?s" "next_blk ?s = next_blk s" using assms(1) d by (auto simp: holds_def min_def split: if_splits)
  ultimately show ?thesis by blast
qed

lemma stream_read_fetch:
  assumes late: "\<And>k. \<not> late k" and s: "holds N rest [] ((fs, d) # bs) m s" "0 < n"
  shows "\<exists>s'. stream_read late n buf s = stream_read late n buf s' \<and> holds N rest (take (N - m) d) bs (m + length d) s' \<and> next_blk s' = next_blk s + 1"
proof -
  obtain s' where r: "read_block late MAX_RETRIES X_cancel s = (X_ok, accept_block s')"
    and g: "got s (y_blocks (next_blk s + 1) bs @ rest) (next_blk s) d s'"
    using read_block_here [of late d s fs "y_blocks (next_blk s + 1) bs @ rest" MAX_RETRIES X_cancel] late s(1)
    by (auto simp: holds_def)
  have h: "holds N rest (take (N - m) d) bs (m + length d) (accept_block s')" by (rule accept_block_holds [OF s(1) g])
  then have "x_len (accept_block s') \<noteq> 0" "\<not> at_eof (accept_block s')" using s(1) by (auto simp: holds_def block_size_def)
  then have "stream_read late n buf s = stream_read late n buf (accept_block s')"
    using s r by (subst (1 2) stream_read.simps) (simp add: holds_def Let_def)
  moreover have "next_blk (accept_block s') = next_blk s + 1"
    using g by (simp add: got_def accept_block_def strip_pad_def cut_length_def Let_def)
  ultimately show ?thesis using h by blast
qed

lemma stream_read_eot:
  assumes "\<And>k. \<not> late k" and s: "holds N (EOT # rest) [] [] m s" "0 < n"
  shows "\<exists>s'. stream_read late n buf s = Some (buf, s') \<and> at_eof s'"
proof -
  define s0 where "s0 = (if tx_ack s then (x_putc ACK s)\<lparr>tx_ack := False\<rparr> else s)"
  have s0: "x_inp s0 = EOT # rest" using s(1) by (simp add: s0_def x_putc_def holds_def)
  have "x_find late 0 0 s0 = (Inl X_eof, x_putc ACK (s0\<lparr>x_inp := rest, x_polls := Suc (x_polls s0)\<rparr>))"
    by (subst x_find.simps) (simp add: x_getc_here [OF assms(1) s0])
  then have h: "\<exists>s1. x_get_hdr late s = (X_eof, s1)" by (simp add: x_get_hdr_def s0_def [symmetric] Let_def)
  have m: "MAX_RETRIES = Suc 19" by simp
  obtain stat s2 where r: "read_block late MAX_RETRIES X_cancel s = (stat, s2)" "at_eof s2"
  proof -
    obtain s1 where "x_get_hdr late s = (X_eof, s1)" using h by blast
    then have "at_eof (snd (read_block late (Suc 19) X_cancel s))" by (simp only: read_block.simps) (simp split: prod.splits)
    then show ?thesis using that unfolding m by (metis prod.collapse)
  qed
  have z: "x_len s = 0" "\<not> at_eof s" using s(1) by (simp_all add: holds_def)
  show ?thesis
  proof (cases "stat = X_ok")
    case True
    then have "stream_read late n buf s = stream_read late n buf s2"
      using r z s(2) by (subst stream_read.simps) simp
    then show ?thesis using stream_read_done [of s2 n late buf] r(2) by auto
  next
    case False
    then have "stream_read late n buf s = Some (buf, s2\<lparr>x_len := -1\<rparr>)"
      using r z s(2) by (subst stream_read.simps) simp
    then show ?thesis using r(2) by auto
  qed
qed

text \<open>\<open>carries\<close>: what is left of the file, in the packet and on the line. \<open>reads\<close>: a read of \<open>n\<close> bytes returns the next \<open>n\<close>.\<close>

definition carries :: "nat \<Rightarrow> byte list \<Rightarrow> xyz \<Rightarrow> byte list \<Rightarrow> bool" where
  "carries N rest s f \<longleftrightarrow> (\<exists>p bs m. holds N (EOT # rest) p bs m s \<and> f = p @ take (N - m) (y_data bs))"

definition reads :: "(nat \<Rightarrow> bool) \<Rightarrow> nat \<Rightarrow> byte list \<Rightarrow> byte list \<Rightarrow> nat \<Rightarrow> byte list \<Rightarrow> xyz \<Rightarrow> bool" where
  "reads late N rest f n buf s \<longleftrightarrow>
     (\<exists>s'. stream_read late n buf s = Some (buf @ take n f, s') \<and> (if n \<le> length f then carries N rest s' (drop n f) else at_eof s'))"

lemma reads_pending:
  assumes empty: "\<And>s n buf. holds N (EOT # rest) [] bs m s \<Longrightarrow> 0 < n \<Longrightarrow> reads late N rest t n buf s"
    and s: "holds N (EOT # rest) p bs m s" and t: "t = take (N - m) (y_data bs)"
  shows "reads late N rest (p @ t) n buf s"
proof (cases "n = 0 \<or> p = []")
  case True
  then show ?thesis
  proof (cases "n = 0")
    case True
    then show ?thesis using s by (auto simp: reads_def stream_read_done carries_def t)
  next
    case False
    then show ?thesis using True empty [of s n buf] s by simp
  qed
next
  case False
  obtain s' where r: "stream_read late n buf s = stream_read late (n - length p) (buf @ take n p) s'"
    and h: "holds N (EOT # rest) (drop n p) bs m s'"
    using stream_read_deliver [OF s, of n late buf] False by auto
  show ?thesis
  proof (cases "n \<le> length p")
    case True
    then have "carries N rest s' (drop n (p @ t))" using h by (auto simp: carries_def t)
    then show ?thesis using r True by (auto simp: reads_def stream_read_done)
  next
    case False
    then have "reads late N rest t (n - length p) (buf @ take n p) s'" using h by (intro empty) simp_all
    moreover have "n - length p \<le> length t \<longleftrightarrow> n \<le> length (p @ t)" using False by (simp only: length_append) linarith
    ultimately show ?thesis using r False unfolding reads_def by (auto split: if_splits)
  qed
qed

lemma stream_read_data:
  assumes late: "\<And>k. \<not> late k" and s: "carries N rest s f"
  shows "reads late N rest f n buf s"
proof -
  have "reads late N rest (p @ take (N - m) (y_data bs)) n buf s" if "holds N (EOT # rest) p bs m s" for p bs m s n buf
    using that
  proof (induction bs arbitrary: p m s n buf)
    case Nil
    show ?case
    proof (rule reads_pending [OF _ Nil.prems refl])
      fix s n buf assume "holds N (EOT # rest) [] [] m s" "0 < (n :: nat)"
      then show "reads late N rest (take (N - m) (y_data [])) n buf s"
        using stream_read_eot [of late N rest m s n buf] late by (auto simp: reads_def y_data_def)
    qed
  next
    case (Cons x bs)
    obtain fs d where x: "x = (fs, d)" by (cases x)
    show ?case
    proof (rule reads_pending [OF _ Cons.prems refl])
      fix s n buf assume h: "holds N (EOT # rest) [] (x # bs) m s" "0 < (n :: nat)"
      obtain s' where "stream_read late n buf s = stream_read late n buf s'"
        and "holds N (EOT # rest) (take (N - m) d) bs (m + length d) s'"
        using stream_read_fetch [of late N "EOT # rest" fs d bs m s n buf] late h by (auto simp: x)
      then show "reads late N rest (take (N - m) (y_data (x # bs))) n buf s"
        using Cons.IH [of "take (N - m) d" "m + length d" s' n buf] by (simp add: reads_def y_data_def x)
    qed
  qed
  then show ?thesis using s by (auto simp: carries_def)
qed

subsection \<open>The header and the command\<close>

definition digits_text :: "nat list \<Rightarrow> byte list" where
  "digits_text ds = map (\<lambda>d. 0x30 + of_nat d) ds"

definition digits_value :: "nat \<Rightarrow> nat list \<Rightarrow> nat" where
  "digits_value = foldl (\<lambda>a d. a * 10 + d)"

lemma digit_byte:
  assumes "d < 10"
  shows "0x30 + of_nat d \<noteq> (0 :: byte)" "0x30 + of_nat d \<noteq> (0x20 :: byte)" "is_hex (0x30 + of_nat d)" "from_hex (0x30 + of_nat d) = int d"
    "lower (0x30 + of_nat d) = 0x30 + of_nat d" "0x30 + of_nat d \<noteq> (0x78 :: byte)"
proof -
  have "d \<in> {0, 1, 2, 3, 4, 5, 6, 7, 8, 9}" using assms by auto
  then show "0x30 + of_nat d \<noteq> (0 :: byte)" "0x30 + of_nat d \<noteq> (0x20 :: byte)" "is_hex (0x30 + of_nat d)"
    "from_hex (0x30 + of_nat d) = int d" "lower (0x30 + of_nat d) = 0x30 + of_nat d" "0x30 + of_nat d \<noteq> (0x78 :: byte)"
    by (auto simp: is_hex_def from_hex_def lower_def)
qed

lemma parse_digits_text:
  assumes "list_all (\<lambda>d. d < 10) ds" "e = 0 \<or> e = 0x20"
  shows "parse_digits 10 (of_nat v) [0x20] (digits_text ds @ e # r) = Some (Some (of_nat (digits_value v ds)))"
  using assms(1)
proof (induction ds arbitrary: v)
  case Nil
  then show ?case using assms(2) by (auto simp: digits_text_def digits_value_def is_hex_def)
next
  case (Cons d ds)
  have "(of_nat v * of_int 10 + of_int (int d) :: u32) = of_nat (v * 10 + d)" by simp
  then show ?case using Cons.IH [of "v * 10 + d"] Cons.prems digit_byte [of d]
    by (simp add: digits_text_def digits_value_def del: of_nat_add of_nat_mult)
qed

lemma parse_num_text:
  assumes "list_all (\<lambda>d. d < 10) ds" "ds \<noteq> []" "e = 0 \<or> e = 0x20"
  shows "parse_num (digits_text ds @ e # r) [0x20] = Some (Some (of_nat (digits_value 0 ds)))"
proof -
  obtain d ds' where ds: "ds = d # ds'" "d < 10" using assms(1,2) by (cases ds) auto
  obtain c s where s: "digits_text ds' @ e # r = c # s" "lower c \<noteq> 0x78"
    using assms digit_byte by (cases ds') (auto simp: digits_text_def ds lower_def)
  have "parse_num (digits_text ds @ e # r) [0x20] = parse_digits 10 0 [0x20] (digits_text ds @ e # r)"
    using s digit_byte [OF ds(2)] by (simp add: parse_num_def ds digits_text_def)
  then show ?thesis using parse_digits_text [OF assms(1,3), of 0 r] by simp
qed

fun bad_header :: "y_fault \<Rightarrow> bool" where
  "bad_header (Bad_crc n d c) \<longleftrightarrow> block_size d \<and> c \<noteq> cyg_crc16 d"
| "bad_header (Again d) \<longleftrightarrow> False"

lemma open_loop_header:
  assumes late: "\<And>k. \<not> late k" and d: "block_size d" and crc: "crc_mode s" "length (pkt s) = 1024"
    and inp: "x_inp s = y_block 0 fs d @ r" "list_all bad_header fs" "length fs < n"
  shows "\<exists>s'. open_loop late n k s = map_option (\<lambda>s. (0, s\<lparr>next_blk := 1, x_len := 0\<rparr>)) (x_header s') \<and> got s r 0 d s'"
  using crc inp
proof (induction fs arbitrary: n s)
  case Nil
  then obtain n' where n: "n = Suc n'" by (cases n) auto
  obtain s' where "x_get_hdr late s = (X_ok, s')" "got s r 0 d s'"
    using x_get_hdr_block [of late d s 0 "cyg_crc16 d" r] late d Nil by (auto simp: y_block_def)
  then show ?case by (auto simp: n)
next
  case (Cons f fs)
  then obtain n' where n: "n = Suc n'" "length fs < n'" by (cases n) auto
  obtain b e c where f: "f = Bad_crc b e c" "block_size e" "c \<noteq> cyg_crc16 e" using Cons.prems(4) by (cases f) auto
  obtain s1 where s1: "x_get_hdr late s = (X_cksum, s1)" "got s (y_block 0 fs d @ r) b e s1"
    using x_get_hdr_block [of late e s b c "y_block 0 fs d @ r"] late f Cons.prems by (auto simp: y_block_def)
  obtain s' where "open_loop late n' k s1 = map_option (\<lambda>s. (0, s\<lparr>next_blk := 1, x_len := 0\<rparr>)) (x_header s')" "got s1 r 0 d s'"
    using Cons.IH [of s1 n'] s1(2) n(2) Cons.prems(4) by (auto simp: got_def)
  moreover have "got s r 0 d s'" using s1(2) calculation(2) by (simp add: got_def)
  ultimately show ?case using s1(1) n(1) by auto
qed

definition file_header :: "byte list \<Rightarrow> nat list \<Rightarrow> byte list \<Rightarrow> bool" where
  "file_header h ds padding \<longleftrightarrow>
     block_size h \<and> list_all (\<lambda>d. d < 10) ds \<and> ds \<noteq> [] \<and>
     (\<exists>name e. h = name @ [0] @ digits_text ds @ e # padding \<and> 0 \<notin> set name \<and> (e = 0 \<or> e = 0x20))"

lemma x_header_file:
  assumes "file_header h ds padding" "got s r 0 h s'"
  shows "\<exists>b. x_header s' = Some (s'\<lparr>bufp := b, tx_ack := True, file_length := of_nat (digits_value 0 ds)\<rparr>)"
proof -
  obtain name e where h: "h = name @ [0] @ digits_text ds @ e # padding" "0 \<notin> set name" "e = 0 \<or> e = 0x20"
    and ds: "list_all (\<lambda>d. d < 10) ds" "ds \<noteq> []" using assms(1) by (auto simp: file_header_def)
  have "pkt s' = h @ drop (length h) (pkt s')" using assms(2) by (metis append_take_drop_id got_def)
  then obtain r' where p: "pkt s' = name @ 0 # digits_text ds @ e # r'" using h(1) by auto
  have "dropWhile (\<lambda>c. c \<noteq> 0) (pkt s') = 0 # digits_text ds @ e # r'" unfolding p using h(2) by (auto simp: dropWhile_append3)
  then have "skip_name (pkt s') = Some (digits_text ds @ e # r')" using p by (simp add: skip_name_def)
  then show ?thesis using assms(2) parse_num_text [OF ds h(3), of r'] by (auto simp: x_header_def got_def)
qed

lemma stream_open_file:
  assumes late: "\<And>k. \<not> late k" and h: "file_header h ds padding" "N = digits_value 0 ds" "0 < N" "N + 1024 \<le> 4294967296"
    and s: "length (pkt s) = 1024" "x_inp s = y_block 0 fs h @ y_blocks 1 bs @ rest" "list_all bad_header fs" "length fs < MAX_RETRIES"
    and bs: "y_sent_ok N bs"
  shows "\<exists>s'. stream_open late s = Some (0, s') \<and> holds N rest [] bs 0 s' \<and> next_blk s' = 1"
proof -
  let ?s = "x_ask (s\<lparr>x_len := 0, crc_mode := True, at_eof := False, tx_ack := False, read_length := 0, file_length := 0\<rparr>)"
  have "crc_mode ?s" "length (pkt ?s) = 1024" "x_inp ?s = y_block 0 fs h @ y_blocks 1 bs @ rest" "block_size h"
    "at_eof ?s = False" "read_length ?s = 0"
    using s h(1) by (simp_all add: x_ask_def x_putc_def file_header_def)
  note f = this
  obtain s' where op: "stream_open late s = map_option (\<lambda>s. (0, s\<lparr>next_blk := 1, x_len := 0\<rparr>)) (x_header s')"
    and g: "got ?s (y_blocks 1 bs @ rest) 0 h s'"
    using open_loop_header [of late h ?s fs "y_blocks 1 bs @ rest" MAX_RETRIES MAX_RETRIES_WITH_CRC] late f s(3,4)
    unfolding stream_open_def by blast
  obtain b where x: "x_header s' = Some (s'\<lparr>bufp := b, tx_ack := True, file_length := of_nat N\<rparr>)"
    using x_header_file [OF h(1) g] h(2) by auto
  let ?t = "s'\<lparr>bufp := b, tx_ack := True, file_length := of_nat N, next_blk := 1, x_len := 0\<rparr>"
  have "holds N (rest) [] bs 0 ?t" using g f h(3,4) bs by (simp add: got_def holds_def)
  then show ?thesis using op x by simp
qed

lemma y_store_file:
  assumes late: "\<And>k. \<not> late k" and x: "carries N rest x f"
    and mem: "\<And>k. k < length f \<Longrightarrow> addr2info banks (addr + offset + of_nat k) = None"
  shows "\<exists>x'. y_store late hw banks offset addr x s = Some (True, addr + of_nat (length f), x',
    s\<lparr>y_dl := (y_dl s)\<lparr>dl_mem := mem_write (addr + offset) f (dl_mem (y_dl s))\<rparr>\<rparr>)"
  using x mem
proof (induction f arbitrary: addr x s rule: length_induct)
  case (1 f)
  have "reads late N rest f 1024 [] x" by (rule stream_read_data [OF late 1(2)])
  then obtain x1 where r: "stream_read late 1024 [] x = Some (take 1024 f, x1)"
    "if 1024 \<le> length f then carries N rest x1 (drop 1024 f) else at_eof x1" by (auto simp: reads_def)
  show ?case
  proof (cases "f = []")
    case True
    then show ?thesis using r(1) by (subst y_store.simps) simp
  next
    case False
    let ?a = "addr + of_nat (length (take 1024 f))" and ?w = "mem_write (addr + offset) (take 1024 f) (dl_mem (y_dl s))"
    let ?s = "s\<lparr>y_dl := (y_dl s)\<lparr>dl_mem := ?w\<rparr>\<rparr>"
    have n: "addr2info banks (addr + offset) = None" using 1(3) [of 0] False by simp
    have y: "y_store late hw banks offset addr x s = y_store late hw banks offset ?a x1 ?s"
      using r(1) n False by (subst y_store.simps) (simp add: Let_def)
    show ?thesis
    proof (cases "1024 \<le> length f")
      case True
      have a: "?a + offset = addr + offset + of_nat 1024" using True by simp
      have "addr2info banks (?a + offset + of_nat k) = None" if "k < length (drop 1024 f)" for k
        using 1(3) [of "1024 + k"] that unfolding a by (simp add: add.assoc)
      then obtain x' where "y_store late hw banks offset ?a x1 ?s = Some (True, ?a + of_nat (length (drop 1024 f)), x',
          ?s\<lparr>y_dl := (y_dl ?s)\<lparr>dl_mem := mem_write (?a + offset) (drop 1024 f) (dl_mem (y_dl ?s))\<rparr>\<rparr>)"
        using 1(1) [rule_format, of "drop 1024 f" x1 ?a ?s] r(2) True False by auto
      moreover have "mem_write (?a + offset) (drop 1024 f) ?w = mem_write (addr + offset) f (dl_mem (y_dl s))"
        using mem_write_append [of "addr + offset" "take 1024 f" "drop 1024 f" "dl_mem (y_dl s)"] by (simp add: ac_simps)
      moreover have "?a + of_nat (length (drop 1024 f)) = addr + of_nat (length f)" using True by (simp add: of_nat_diff)
      ultimately show ?thesis using y by auto
    next
      case False
      then have "stream_read late 1024 [] x1 = Some ([], x1)" using r(2) stream_read_done [of x1 1024 late "[]"] by simp
      then have "y_store late hw banks offset ?a x1 ?s = Some (True, ?a, x1, ?s)" by (subst y_store.simps) simp
      then show ?thesis using y False by simp
    qed
  qed
qed

lemma x_flush_line: "(\<And>k. \<not> late k) \<Longrightarrow> x_inp (x_flush late s) = []"
proof (induction "x_inp s" arbitrary: s)
  case Nil
  then show ?case by (subst x_flush.simps) (simp add: x_getc_def)
next
  case (Cons c r)
  show ?case
    by (subst x_flush.simps) (simp add: x_getc_here [OF Cons.prems Cons.hyps(2) [symmetric]] Cons.hyps(1) Cons.prems)
qed

text \<open>A transfer up to the blocks of the file.\<close>

definition y_start :: "y_fault list \<Rightarrow> byte list \<Rightarrow> y_sent list \<Rightarrow> byte list" where
  "y_start fs h bs = y_block 0 fs h @ y_blocks 1 bs"

text \<open>C12: a file sent with Y-modem. The header block announces the length; blocks of 128 and of 1024 bytes may be mixed, every
  block may be damaged or repeated before it (less than twenty times), and the last one is padded with anything: \<^verbatim>\<open>loady\<close> leaves
  exactly the announced bytes in memory from the offset on, \<^verbatim>\<open>filesize\<close> is their number, and nothing is left on the line,
  whatever follows the end of the transmission.\<close>

theorem ymodem_loads_file:
  assumes "\<forall>k. \<not> late k" and "file_header h ds padding" and "list_all bad_header fs" and "length fs < 20"
    and "N = digits_value 0 ds" and "0 < N" and "N + 1024 \<le> 4294967296" and "y_sent_ok N bs"
    and "\<forall>k < N. addr2info banks (offset + of_nat k) = None" and "length (pkt (y_xyz s)) = 1024"
    and "env_ok (dl_env (y_dl s)) kvs" and "env_fits (put_var (cs ''filesize'') (hex_text (of_nat N)) kvs)"
  shows "\<exists>e x. load_serial_ymodem late hw banks offset (y_start fs h bs @ EOT # rest) s =
      Some (offset, [], s\<lparr>y_dl := (y_dl s)\<lparr>dl_mem := mem_write offset (take N (y_data bs)) (dl_mem (y_dl s)), dl_env := e\<rparr>, y_xyz := x\<rparr>) \<and>
    length (take N (y_data bs)) = N \<and> env_ok e (put_var (cs ''filesize'') (hex_text (of_nat N)) kvs)"
proof -
  have late: "\<And>k. \<not> late k" using assms(1) by blast
  let ?f = "take N (y_data bs)" and ?inp = "y_start fs h bs @ EOT # rest"
  have n: "length ?f = N" using y_sent_length [OF assms(8)] by simp
  obtain x where x: "stream_open late ((y_xyz s)\<lparr>x_inp := ?inp, x_polls := 0, x_out := []\<rparr>) = Some (0, x)" "holds N (EOT # rest) [] bs 0 x"
    using stream_open_file [of late h ds padding N "(y_xyz s)\<lparr>x_inp := ?inp, x_polls := 0, x_out := []\<rparr>" fs bs "EOT # rest"]
      late assms(2-8,10) by (auto simp: y_start_def)
  have "carries N rest x ?f" using x(2) unfolding carries_def by (intro exI [of _ "[]"] exI [of _ bs] exI [of _ 0]) simp
  then obtain x' where y: "y_store late hw banks offset 0 x s = Some (True, of_nat N, x',
      s\<lparr>y_dl := (y_dl s)\<lparr>dl_mem := mem_write offset ?f (dl_mem (y_dl s))\<rparr>\<rparr>)"
    using y_store_file [of late N rest x ?f banks 0 offset hw s] late assms(9) n by auto
  obtain e where "set_size (of_nat N) (dl_env (y_dl s)) = Some e" "env_ok e (put_var (cs ''filesize'') (hex_text (of_nat N)) kvs)"
    using set_filesize_ok [OF assms(11), of "of_nat N"] assms(12) by (auto simp: set_size_filesize)
  then show ?thesis using x(1) y n x_flush_line [of late x'] late
    by (intro exI [of _ e] exI [of _ "x_flush late x'"]) (simp add: load_serial_ymodem_def Let_def)
qed

text \<open>A file of three bytes, whose only block is damaged once.\<close>

definition y_sample_header :: "byte list" where
  "y_sample_header = cs ''f'' @ [0] @ digits_text [3] @ 0 # replicate 124 0"

definition y_sample_sent :: "y_sent list" where
  "y_sample_sent = [([Bad_crc 5 (replicate 128 0) 1], [1, 2, 3] @ replicate 125 CTRL_Z)]"

definition y_sample :: "amd ydl" where
  "y_sample = \<lparr>y_dl = dl_sample, y_flash = \<lparr>am_cells = \<lambda>_. 7, am_mode = Array, am_clock = 0\<rparr>,
     y_xyz = \<lparr>x_inp = [], x_polls = 0, x_out = [], pkt = replicate 1024 0, bufp = 0, blk = 0, cblk = 0, crc1 = 0, crc2 = 0,
       next_blk = 0, x_len = 0, crc_mode = False, at_eof = False, tx_ack = False, file_length = 0, read_length = 0\<rparr>\<rparr>"

lemma cyg_crc16_zero: "cyg_crc16 (replicate n 0) = 0"
  by (induction n) (simp_all add: cyg_crc16_def crc16_step_def crc16_tab_def)

lemma y_sample_facts:
  "file_header y_sample_header [3] (replicate 124 0)" "y_sent_ok 3 y_sample_sent" "take 3 (y_data y_sample_sent) = [1, 2, 3]"
  "\<forall>k < 3. addr2info [sample_bank (\<lambda>_. 0)] (0x1000 + of_nat k) = None" "length (pkt (y_xyz y_sample)) = 1024"
  "digits_value 0 [3] = 3"
proof -
  show "file_header y_sample_header [3] (replicate 124 0)"
    by (auto simp: file_header_def y_sample_header_def block_size_def digits_text_def cs_def intro!: exI [of _ "cs ''f''"])
  show "y_sent_ok 3 y_sample_sent" by (simp add: y_sample_sent_def block_size_def cyg_crc16_zero)
  show "take 3 (y_data y_sample_sent) = [1, 2, 3]" by (simp add: y_sample_sent_def y_data_def)
  show "\<forall>k < 3. addr2info [sample_bank (\<lambda>_. 0)] (0x1000 + of_nat k) = None"
  proof (intro allI impI)
    fix k :: nat assume "k < 3"
    then have "k = 0 \<or> k = 1 \<or> k = 2" by auto
    then show "addr2info [sample_bank (\<lambda>_. 0)] (0x1000 + of_nat k) = None" by (elim disjE) (simp_all add: addr2info_def sample_bank_def)
  qed
  show "length (pkt (y_xyz y_sample)) = 1024" by (simp add: y_sample_def)
  show "digits_value 0 [3] = 3" by (simp add: digits_value_def)
qed

theorem ymodem_loads_file_witness:
  "\<exists>e x. load_serial_ymodem (\<lambda>_. False) (amd_hw sample_chip) [sample_bank (\<lambda>_. 0)] 0x1000
      (y_start [] y_sample_header y_sample_sent @ EOT # [7]) y_sample =
      Some (0x1000, [], y_sample\<lparr>y_dl := dl_sample\<lparr>dl_mem := mem_write 0x1000 [1, 2, 3] (dl_mem dl_sample), dl_env := e\<rparr>, y_xyz := x\<rparr>) \<and>
    env_lookup e (cs ''filesize'') = Some (cs ''3'')"
proof -
  have d: "y_dl y_sample = dl_sample" "of_nat 3 = (3 :: u32)" by (simp_all add: y_sample_def)
  obtain e x where r: "load_serial_ymodem (\<lambda>_. False) (amd_hw sample_chip) [sample_bank (\<lambda>_. 0)] 0x1000
      (y_start [] y_sample_header y_sample_sent @ EOT # [7]) y_sample =
      Some (0x1000, [], y_sample\<lparr>y_dl := dl_sample\<lparr>dl_mem := mem_write 0x1000 [1, 2, 3] (dl_mem dl_sample), dl_env := e\<rparr>, y_xyz := x\<rparr>)"
    "env_ok e (put_var (cs ''filesize'') (hex_text 3) sample_vars)"
    using ymodem_loads_file [of "\<lambda>_. False" y_sample_header "[3]" "replicate 124 0" "[]" 3 y_sample_sent "[sample_bank (\<lambda>_. 0)]" "0x1000" y_sample
        sample_vars "amd_hw sample_chip" "[7]", unfolded d y_sample_facts(3)] y_sample_facts sample_dl(1,2) by auto
  have "env_lookup e (cs ''filesize'') = Some (cs ''3'')" using r(2) by (simp add: env_lookup_ok map_of_put_var sample_dl(3))
  then show ?thesis using r(1) by blast
qed

subsection \<open>A block too many\<close>

lemma stream_read_beyond:
  assumes late: "\<And>k. \<not> late k" and d: "block_size d" "list_all fault_ok fs" "length fs < 20"
    and s: "holds N (y_block (next_blk s) fs d @ rest) [] [] m s" "0 < n" "N < m" "m + 1024 < 2147483648"
  shows "stream_read late n buf s = None"
proof -
  obtain s' where r: "read_block late MAX_RETRIES X_cancel s = (X_ok, accept_block s')" and g: "got s rest (next_blk s) d s'"
    using read_block_here [of late d s fs rest MAX_RETRIES X_cancel] late d s(1) by (auto simp: holds_def)
  have l: "length d \<le> 1024" using d(1) by (auto simp: block_size_def)
  have u: "unat (of_nat N :: u32) = N" "unat (of_nat (m + length d) :: u32) = m + length d"
    using s(3,4) l by (simp_all add: take_bit_nat_eq_self_iff unsigned_of_nat del: of_nat_add)
  have f: "file_length s' = of_nat N" "read_length s' = of_nat m" "x_len s' = int (length d)" "(of_nat N :: u32) \<noteq> 0" "\<not> at_eof s'"
    using g s(1) u(1) by (auto simp: got_def holds_def)
  have w: "(of_int (int (length d)) - (of_nat (m + length d) - of_nat N) :: u32) = of_int (- int (m - N))"
    using s(3) by (simp add: of_nat_diff)
  have neg: "sint (of_int (- int (m - N)) :: u32) = - int (m - N)"
  proof -
    have "sint (of_int j :: u32) = j" if "- 2147483648 \<le> j" "j < 0" for j
      using that by (simp add: signed_of_int signed_take_bit_int_eq_self)
    then show ?thesis using s(3,4) by (simp only:)
  qed
  have "(of_nat (m + length d) :: u32) > of_nat N" using s(3) by (simp add: word_less_nat_alt u del: of_nat_add)
  then have "x_len (accept_block s') = - int (m - N)" using f w neg
    by (simp add: accept_block_def strip_pad_def cut_length_def Let_def)
  moreover have "\<not> at_eof (accept_block s')" using f by (simp add: accept_block_def strip_pad_def cut_length_def Let_def)
  ultimately show ?thesis using r s by (subst stream_read.simps) (simp add: holds_def Let_def)
qed

text \<open>C37: the header announces less than the first block holds, and a further block follows (a file that grew while it was sent, or
  a header that lost a digit): the length of the second block becomes negative and is passed to \<^verbatim>\<open>memcpy\<close> as it is, so that the
  copy runs over the buffer on the stack. The model has no result.\<close>

theorem ymodem_short_length_faults:
  assumes "\<forall>k. \<not> late k" and "file_header h ds padding" and "list_all bad_header fs" and "length fs < 20"
    and "N = digits_value 0 ds" and "0 < N" and "N < length d" and "N < 1024" and "y_sent_ok N [(fs1, d)]"
    and "block_size d2" and "list_all fault_ok fs2" and "length fs2 < 20" and "length (pkt (y_xyz s)) = 1024"
  shows "load_serial_ymodem late hw banks offset (y_start fs h [(fs1, d), (fs2, d2)] @ rest) s = None"
proof -
  have late: "\<And>k. \<not> late k" using assms(1) by blast
  let ?inp = "y_start fs h [(fs1, d), (fs2, d2)] @ rest" and ?tl = "y_block 2 fs2 d2 @ rest"
  have l: "length d \<le> 1024" using assms(9) by (auto simp: block_size_def)
  obtain x where x: "stream_open late ((y_xyz s)\<lparr>x_inp := ?inp, x_polls := 0, x_out := []\<rparr>) = Some (0, x)" "holds N ?tl [] [(fs1, d)] 0 x" "next_blk x = 1"
    using stream_open_file [of late h ds padding N "(y_xyz s)\<lparr>x_inp := ?inp, x_polls := 0, x_out := []\<rparr>" fs "[(fs1, d)]" ?tl]
      late assms(2-6,8,9,13) by (auto simp: y_start_def)
  obtain x1 where x1: "stream_read late 1024 [] x = stream_read late 1024 [] x1" "holds N ?tl (take N d) [] (length d) x1" "next_blk x1 = 2"
    using stream_read_fetch [of late N ?tl fs1 d "[]" 0 x 1024 "[]"] late x(2,3) by auto
  have "take N d \<noteq> []" using assms(6,7) by auto
  then obtain x2 where x2: "stream_read late 1024 [] x1 = stream_read late (1024 - N) (take N d) x2" "holds N ?tl [] [] (length d) x2" "next_blk x2 = 2"
    using stream_read_deliver [OF x1(2), of 1024 late "[]"] assms(6,7,8) x1(3) by auto
  have "stream_read late (1024 - N) (take N d) x2 = None"
    using stream_read_beyond [of late d2 fs2 N x2 rest "length d" "1024 - N" "take N d"] x2(2,3) late assms(7,8,10-12) l by simp
  then have "stream_read late 1024 [] x = None" using x1(1) x2(1) by simp
  then have "y_store late hw banks offset 0 x s = None" by (subst y_store.simps) simp
  then show ?thesis using x(1) by (simp add: load_serial_ymodem_def)
qed

theorem ymodem_short_length_faults_witness:
  "load_serial_ymodem (\<lambda>_. False) (amd_hw sample_chip) [sample_bank (\<lambda>_. 0)] 0x1000
     (y_start [] y_sample_header [([], [1, 2, 3] @ replicate 125 CTRL_Z), ([], replicate 128 CTRL_Z)]) y_sample = None"
  using ymodem_short_length_faults [of "\<lambda>_. False" y_sample_header "[3]" "replicate 124 0" "[]" 3 "[1, 2, 3] @ replicate 125 CTRL_Z"
      "[]" "replicate 128 CTRL_Z" "[]" y_sample "amd_hw sample_chip" "[sample_bank (\<lambda>_. 0)]" "0x1000" "[]"] y_sample_facts
  by (simp add: block_size_def)

end
