(* ===== verification/Pci.thy ===== *)
theory Pci
  imports Prelude
begin

unbundle bit_operations_syntax

text \<open>
  The PCI bus: access to configuration space through the address and data registers of the host bridge
  (\<^verbatim>\<open>drivers/pci/pci_indirect.c\<close>), address translation, search and bus scan (\<^verbatim>\<open>drivers/pci/pci.c\<close>), the assignment of addresses
  (\<^verbatim>\<open>drivers/pci/pci_auto.c\<close>) and the set-up of the board (\<^verbatim>\<open>board/eltec/bab7xx/pci.c\<close>). The two registers are the parameter
  \<open>pci_hw\<close>. The board has one controller, no table of configured devices and no routine for interrupts.
\<close>

subsection \<open>Data\<close>

record 'w pci_hw =
  out_cfg_addr :: "u32 \<Rightarrow> 'w \<Rightarrow> 'w"
  in_data8 :: "u32 \<Rightarrow> 'w \<Rightarrow> byte \<times> 'w"
  in_data16 :: "u32 \<Rightarrow> 'w \<Rightarrow> u16 \<times> 'w"
  in_data32 :: "u32 \<Rightarrow> 'w \<Rightarrow> u32 \<times> 'w"
  out_data8 :: "u32 \<Rightarrow> byte \<Rightarrow> 'w \<Rightarrow> 'w"
  out_data16 :: "u32 \<Rightarrow> u16 \<Rightarrow> 'w \<Rightarrow> 'w"
  out_data32 :: "u32 \<Rightarrow> u32 \<Rightarrow> 'w \<Rightarrow> 'w"

record pci_region =
  bus_start :: u32
  phys_start :: u32
  reg_size :: u32
  reg_flags :: u32
  bus_lower :: u32

record 'w hose =
  first_busno :: u32
  last_busno :: u32
  current_busno :: u32
  regions :: "pci_region list"
  pci_mem :: "nat option"
  pci_io :: "nat option"
  pci_prefetch :: "nat option"
  pci_world :: 'w

definition PCI_BUS :: "u32 \<Rightarrow> u32" where "PCI_BUS d = drop_bit 16 d AND 0xFF"
definition PCI_DEV :: "u32 \<Rightarrow> u32" where "PCI_DEV d = drop_bit 11 d AND 0x1F"
definition PCI_FUNC :: "u32 \<Rightarrow> u32" where "PCI_FUNC d = drop_bit 8 d AND 0x7"

definition PCI_BDF :: "u32 \<Rightarrow> u32 \<Rightarrow> u32 \<Rightarrow> u32" where
  "PCI_BDF b d f = push_bit 16 b OR push_bit 11 d OR push_bit 8 f"

abbreviation (input) PCI_COMMAND :: u32 where "PCI_COMMAND \<equiv> 0x04"
abbreviation (input) PCI_CLASS_PROG :: u32 where "PCI_CLASS_PROG \<equiv> 0x09"
abbreviation (input) PCI_CLASS_DEVICE :: u32 where "PCI_CLASS_DEVICE \<equiv> 0x0A"
abbreviation (input) PCI_CACHE_LINE_SIZE :: u32 where "PCI_CACHE_LINE_SIZE \<equiv> 0x0C"
abbreviation (input) PCI_LATENCY_TIMER :: u32 where "PCI_LATENCY_TIMER \<equiv> 0x0D"
abbreviation (input) PCI_HEADER_TYPE :: u32 where "PCI_HEADER_TYPE \<equiv> 0x0E"
abbreviation (input) PCI_REGION_IO :: u32 where "PCI_REGION_IO \<equiv> 1"
abbreviation (input) PCI_REGION_PREFETCH :: u32 where "PCI_REGION_PREFETCH \<equiv> 8"
abbreviation (input) PCI_REGION_SYS_MEMORY :: u32 where "PCI_REGION_SYS_MEMORY \<equiv> 0x100"

subsection \<open>Configuration space\<close>

definition cfg_select :: "'w pci_hw \<Rightarrow> u32 \<Rightarrow> u32 \<Rightarrow> 'w hose \<Rightarrow> 'w" where
  "cfg_select hw dev offset s =
     out_cfg_addr hw (PCI_BDF (PCI_BUS dev - first_busno s) (PCI_DEV dev) (PCI_FUNC dev) OR (offset AND 0xFC) OR 0x80000000)
       (pci_world s)"

definition read_config_byte :: "'w pci_hw \<Rightarrow> u32 \<Rightarrow> u32 \<Rightarrow> 'w hose \<Rightarrow> byte \<times> 'w hose" where
  "read_config_byte hw dev offset s = map_prod id (\<lambda>w. s\<lparr>pci_world := w\<rparr>) (in_data8 hw (offset AND 3) (cfg_select hw dev offset s))"

definition read_config_word :: "'w pci_hw \<Rightarrow> u32 \<Rightarrow> u32 \<Rightarrow> 'w hose \<Rightarrow> u16 \<times> 'w hose" where
  "read_config_word hw dev offset s = map_prod id (\<lambda>w. s\<lparr>pci_world := w\<rparr>) (in_data16 hw (offset AND 2) (cfg_select hw dev offset s))"

definition read_config_dword :: "'w pci_hw \<Rightarrow> u32 \<Rightarrow> u32 \<Rightarrow> 'w hose \<Rightarrow> u32 \<times> 'w hose" where
  "read_config_dword hw dev offset s = map_prod id (\<lambda>w. s\<lparr>pci_world := w\<rparr>) (in_data32 hw 0 (cfg_select hw dev offset s))"

definition write_config_byte :: "'w pci_hw \<Rightarrow> u32 \<Rightarrow> u32 \<Rightarrow> byte \<Rightarrow> 'w hose \<Rightarrow> 'w hose" where
  "write_config_byte hw dev offset v s = s\<lparr>pci_world := out_data8 hw (offset AND 3) v (cfg_select hw dev offset s)\<rparr>"

definition write_config_word :: "'w pci_hw \<Rightarrow> u32 \<Rightarrow> u32 \<Rightarrow> u16 \<Rightarrow> 'w hose \<Rightarrow> 'w hose" where
  "write_config_word hw dev offset v s = s\<lparr>pci_world := out_data16 hw (offset AND 2) v (cfg_select hw dev offset s)\<rparr>"

definition write_config_dword :: "'w pci_hw \<Rightarrow> u32 \<Rightarrow> u32 \<Rightarrow> u32 \<Rightarrow> 'w hose \<Rightarrow> 'w hose" where
  "write_config_dword hw dev offset v s = s\<lparr>pci_world := out_data32 hw 0 v (cfg_select hw dev offset s)\<rparr>"

text \<open>The access by the number of the bus only, for the one controller of the board.\<close>

definition pci_bus_to_hose :: "u32 \<Rightarrow> 'w hose \<Rightarrow> bool" where
  "pci_bus_to_hose bus s \<longleftrightarrow> first_busno s \<le> bus \<and> bus \<le> last_busno s"

definition pci_read_config_byte :: "'w pci_hw \<Rightarrow> u32 \<Rightarrow> u32 \<Rightarrow> 'w hose \<Rightarrow> byte \<times> 'w hose" where
  "pci_read_config_byte hw dev offset s =
     (if pci_bus_to_hose (PCI_BUS dev) s then read_config_byte hw dev offset s else (0xFF, s))"

definition pci_read_config_word :: "'w pci_hw \<Rightarrow> u32 \<Rightarrow> u32 \<Rightarrow> 'w hose \<Rightarrow> u16 \<times> 'w hose" where
  "pci_read_config_word hw dev offset s =
     (if pci_bus_to_hose (PCI_BUS dev) s then read_config_word hw dev offset s else (0xFFFF, s))"

definition pci_read_config_dword :: "'w pci_hw \<Rightarrow> u32 \<Rightarrow> u32 \<Rightarrow> 'w hose \<Rightarrow> u32 \<times> 'w hose" where
  "pci_read_config_dword hw dev offset s =
     (if pci_bus_to_hose (PCI_BUS dev) s then read_config_dword hw dev offset s else (0xFFFFFFFF, s))"

definition pci_write_config_byte :: "'w pci_hw \<Rightarrow> u32 \<Rightarrow> u32 \<Rightarrow> byte \<Rightarrow> 'w hose \<Rightarrow> 'w hose" where
  "pci_write_config_byte hw dev offset v s =
     (if pci_bus_to_hose (PCI_BUS dev) s then write_config_byte hw dev offset v s else s)"

definition pci_write_config_word :: "'w pci_hw \<Rightarrow> u32 \<Rightarrow> u32 \<Rightarrow> u16 \<Rightarrow> 'w hose \<Rightarrow> 'w hose" where
  "pci_write_config_word hw dev offset v s =
     (if pci_bus_to_hose (PCI_BUS dev) s then write_config_word hw dev offset v s else s)"

definition pci_write_config_dword :: "'w pci_hw \<Rightarrow> u32 \<Rightarrow> u32 \<Rightarrow> u32 \<Rightarrow> 'w hose \<Rightarrow> 'w hose" where
  "pci_write_config_dword hw dev offset v s =
     (if pci_bus_to_hose (PCI_BUS dev) s then write_config_dword hw dev offset v s else s)"

subsection \<open>Address translation\<close>

text \<open>\<open>None\<close>: no region matches.\<close>

fun phys_to_bus :: "pci_region list \<Rightarrow> u32 \<Rightarrow> u32 \<Rightarrow> u32 \<Rightarrow> u32 option" where
  "phys_to_bus [] addr flags skip = None"
| "phys_to_bus (res # rs) addr flags skip =
     (let bus_addr = addr - phys_start res + bus_start res
      in if (reg_flags res XOR flags) AND 1 \<noteq> 0 \<or> reg_flags res AND skip \<noteq> 0 then phys_to_bus rs addr flags skip
         else if bus_start res \<le> bus_addr \<and> bus_addr < bus_start res + reg_size res then Some bus_addr
         else phys_to_bus rs addr flags skip)"

fun bus_to_phys :: "pci_region list \<Rightarrow> u32 \<Rightarrow> u32 \<Rightarrow> u32 \<Rightarrow> u32 option" where
  "bus_to_phys [] addr flags skip = None"
| "bus_to_phys (res # rs) addr flags skip =
     (if (reg_flags res XOR flags) AND 1 \<noteq> 0 \<or> reg_flags res AND skip \<noteq> 0 then bus_to_phys rs addr flags skip
      else if bus_start res \<le> addr \<and> addr < bus_start res + reg_size res then Some (addr - bus_start res + phys_start res)
      else bus_to_phys rs addr flags skip)"

text \<open>\<^verbatim>\<open>PCI_REGION_MEM\<close> is 0, so the first pass is always made.\<close>

definition pci_hose_phys_to_bus :: "pci_region list \<Rightarrow> u32 \<Rightarrow> u32 \<Rightarrow> u32" where
  "pci_hose_phys_to_bus rs addr flags =
     (case phys_to_bus rs addr flags PCI_REGION_SYS_MEMORY of
        Some a \<Rightarrow> a | None \<Rightarrow> case phys_to_bus rs addr flags 0 of Some a \<Rightarrow> a | None \<Rightarrow> 0)"

definition pci_hose_bus_to_phys :: "pci_region list \<Rightarrow> u32 \<Rightarrow> u32 \<Rightarrow> u32" where
  "pci_hose_bus_to_phys rs addr flags =
     (case bus_to_phys rs addr flags PCI_REGION_SYS_MEMORY of
        Some a \<Rightarrow> a | None \<Rightarrow> case bus_to_phys rs addr flags 0 of Some a \<Rightarrow> a | None \<Rightarrow> 0)"

subsection \<open>Address assignment\<close>

definition pciauto_region_init :: "pci_region \<Rightarrow> pci_region" where
  "pciauto_region_init res = res\<lparr>bus_lower := if bus_start res \<noteq> 0 then bus_start res else 0x1000\<rparr>"

definition pciauto_region_align :: "u32 \<Rightarrow> pci_region \<Rightarrow> pci_region" where
  "pciauto_region_align sz res = res\<lparr>bus_lower := ((bus_lower res - 1) OR (sz - 1)) + 1\<rparr>"

definition pciauto_region_allocate :: "u32 \<Rightarrow> pci_region \<Rightarrow> (u32 \<times> pci_region) option" where
  "pciauto_region_allocate sz res =
     (let addr = ((bus_lower res - 1) OR (sz - 1)) + 1
      in if addr - bus_start res + sz > reg_size res then None else Some (addr, res\<lparr>bus_lower := addr + sz\<rparr>))"

definition hose_allocate :: "nat option \<Rightarrow> u32 \<Rightarrow> 'w hose \<Rightarrow> (u32 \<times> 'w hose) option" where
  "hose_allocate res sz s =
     (case res of None \<Rightarrow> None
      | Some i \<Rightarrow> map_option (\<lambda>(addr, r). (addr, s\<lparr>regions := (regions s)[i := r]\<rparr>)) (pciauto_region_allocate sz (regions s ! i)))"

text \<open>Size and region of a base address register from the answer to all ones.\<close>

definition bar_request :: "'w pci_hw \<Rightarrow> u32 \<Rightarrow> u32 \<Rightarrow> u32 \<Rightarrow> 'w hose \<Rightarrow> bool \<times> u32 \<times> nat option \<times> 'w hose" where
  "bar_request hw dev bar resp s =
     (if resp AND 1 \<noteq> 0 then (False, (NOT (resp AND NOT 3) AND 0xFFFF) + 1, pci_io s, s)
      else
        let res = (if pci_prefetch s \<noteq> None \<and> resp AND 8 \<noteq> 0 then pci_prefetch s else pci_mem s)
        in if resp AND 6 = 4 then
             let s = write_config_dword hw dev (bar + 4) 0xFFFFFFFF s;
                 (upper, s) = read_config_dword hw dev (bar + 4) s;
                 bar64 = push_bit 32 (ucast upper) OR ucast resp :: 64 word
             in (True, ucast (NOT (bar64 AND NOT 0xF) + 1), res, s)
           else (False, NOT (resp AND NOT 0xF) + 1, res, s))"

function setup_bars :: "'w pci_hw \<Rightarrow> u32 \<Rightarrow> nat \<Rightarrow> nat \<Rightarrow> u32 \<Rightarrow> 'w hose \<Rightarrow> u32 \<times> 'w hose" where
  "setup_bars hw dev n i cmdstat s =
     (if i < n then
        let bar = 0x10 + 4 * of_nat i;
            s = write_config_dword hw dev bar 0xFFFFFFFF s;
            (resp, s) = read_config_dword hw dev bar s
        in if resp = 0 then setup_bars hw dev n (i + 1) cmdstat s
           else
             let (mem64, sz, res, s) = bar_request hw dev bar resp s
             in case hose_allocate res sz s of
                  None \<Rightarrow> setup_bars hw dev n (i + 1) cmdstat s
                | Some (value, s) \<Rightarrow>
                    let s = write_config_dword hw dev bar value s;
                        s = (if mem64 then write_config_dword hw dev (bar + 4) 0 s else s)
                    in setup_bars hw dev n (if mem64 then i + 2 else i + 1)
                         (cmdstat OR (if resp AND 1 \<noteq> 0 then 1 else 2)) s
      else (cmdstat, s))"
  by pat_completeness auto
termination by (relation "measure (\<lambda>(hw, dev, n, i, c, s). n - i)") auto

declare setup_bars.simps [simp del]

definition pciauto_setup_device :: "'w pci_hw \<Rightarrow> u32 \<Rightarrow> nat \<Rightarrow> 'w hose \<Rightarrow> 'w hose" where
  "pciauto_setup_device hw dev bars_num s =
     (let (cmdstat, s) = read_config_dword hw dev PCI_COMMAND s;
          (cmdstat, s) = setup_bars hw dev bars_num 0 ((cmdstat AND NOT 3) OR 4) s
      in write_config_byte hw dev PCI_LATENCY_TIMER 0x80
           (write_config_byte hw dev PCI_CACHE_LINE_SIZE 8 (write_config_dword hw dev PCI_COMMAND cmdstat s)))"

text \<open>The allocation of a region, rounded up, and what is then written for it.\<close>

definition align_region :: "nat option \<Rightarrow> u32 \<Rightarrow> (u32 \<Rightarrow> 'w hose \<Rightarrow> 'w hose) \<Rightarrow> 'w hose \<Rightarrow> 'w hose" where
  "align_region res sz f s =
     (case res of None \<Rightarrow> s
      | Some i \<Rightarrow> let r = pciauto_region_align sz (regions s ! i) in f (bus_lower r) (s\<lparr>regions := (regions s)[i := r]\<rparr>))"

definition pciauto_prescan_setup_bridge :: "'w pci_hw \<Rightarrow> u32 \<Rightarrow> u32 \<Rightarrow> 'w hose \<Rightarrow> 'w hose" where
  "pciauto_prescan_setup_bridge hw dev sub_bus s =
     (let (cmdstat, s) = read_config_dword hw dev PCI_COMMAND s;
          s = write_config_byte hw dev 0x18 (ucast (PCI_BUS dev - first_busno s)) s;
          s = write_config_byte hw dev 0x19 (ucast (sub_bus - first_busno s)) s;
          s = write_config_byte hw dev 0x1A 0xFF s;
          s = align_region (pci_mem s) 0x100000 (\<lambda>l. write_config_word hw dev 0x20 (ucast (drop_bit 16 (l AND 0xFFF00000)))) s;
          s = (if pci_prefetch s \<noteq> None
               then align_region (pci_prefetch s) 0x100000 (\<lambda>l. write_config_word hw dev 0x24 (ucast (drop_bit 16 (l AND 0xFFF00000)))) s
               else write_config_word hw dev 0x26 0 (write_config_word hw dev 0x24 0x1000 s));
          s = align_region (pci_io s) 0x1000
                (\<lambda>l s. write_config_word hw dev 0x30 (ucast (drop_bit 16 (l AND 0xFFFF0000)))
                         (write_config_byte hw dev 0x1C (ucast (drop_bit 8 (l AND 0xF000))) s)) s;
          cmdstat = cmdstat OR (if pci_mem s \<noteq> None \<or> pci_prefetch s \<noteq> None then 2 else 0) OR (if pci_io s \<noteq> None then 1 else 0)
      in write_config_dword hw dev PCI_COMMAND (cmdstat OR 4) s)"

definition pciauto_postscan_setup_bridge :: "'w pci_hw \<Rightarrow> u32 \<Rightarrow> u32 \<Rightarrow> 'w hose \<Rightarrow> 'w hose" where
  "pciauto_postscan_setup_bridge hw dev sub_bus s =
     (let s = write_config_byte hw dev 0x1A (ucast (sub_bus - first_busno s)) s;
          s = align_region (pci_mem s) 0x100000 (\<lambda>l. write_config_word hw dev 0x22 (ucast (drop_bit 16 (l - 1)))) s;
          s = align_region (pci_prefetch s) 0x100000 (\<lambda>l. write_config_word hw dev 0x26 (ucast (drop_bit 16 (l - 1)))) s
      in align_region (pci_io s) 0x1000
           (\<lambda>l s. write_config_word hw dev 0x32 (ucast (drop_bit 16 ((l - 1) AND 0xFFFF0000)))
                    (write_config_byte hw dev 0x1D (ucast (drop_bit 8 ((l - 1) AND 0xF000))) s)) s)"

definition larger :: "pci_region list \<Rightarrow> nat option \<Rightarrow> nat \<Rightarrow> nat option" where
  "larger rs best i = (case best of None \<Rightarrow> Some i | Some j \<Rightarrow> if reg_size (rs ! j) < reg_size (rs ! i) then Some i else Some j)"

definition choose_region :: "nat \<Rightarrow> 'w hose \<Rightarrow> 'w hose" where
  "choose_region i s =
     (let f = reg_flags (regions s ! i)
      in if f = PCI_REGION_IO then s\<lparr>pci_io := larger (regions s) (pci_io s) i\<rparr>
         else if f = 0 then s\<lparr>pci_mem := larger (regions s) (pci_mem s) i\<rparr>
         else if f = PCI_REGION_PREFETCH then s\<lparr>pci_prefetch := larger (regions s) (pci_prefetch s) i\<rparr>
         else s)"

definition init_region :: "nat option \<Rightarrow> 'w hose \<Rightarrow> 'w hose" where
  "init_region res s = (case res of None \<Rightarrow> s | Some i \<Rightarrow> s\<lparr>regions := (regions s)[i := pciauto_region_init (regions s ! i)]\<rparr>)"

definition pciauto_config_init :: "'w hose \<Rightarrow> 'w hose" where
  "pciauto_config_init s =
     (let s = fold choose_region [0..<length (regions s)] (s\<lparr>pci_io := None, pci_mem := None\<rparr>)
      in init_region (pci_io s) (init_region (pci_prefetch s) (init_region (pci_mem s) s)))"

subsection \<open>The bus scan\<close>

text \<open>\<open>scan\<close> is the scan of the bus behind a bridge.\<close>

definition pciauto_config_device ::
  "(u32 \<Rightarrow> 'w hose \<Rightarrow> (u32 \<times> 'w hose) option) \<Rightarrow> 'w pci_hw \<Rightarrow> u32 \<Rightarrow> 'w hose \<Rightarrow> (u32 \<times> 'w hose) option" where
  "pciauto_config_device scan hw dev s =
     (let sub_bus = PCI_BUS dev; (cls, s) = read_config_word hw dev PCI_CLASS_DEVICE s
      in if cls = 0x0604 then
           let s = s\<lparr>current_busno := current_busno s + 1\<rparr>;
               s = pciauto_setup_device hw dev 2 s;
               s = pciauto_prescan_setup_bridge hw dev (current_busno s) s
           in map_option (\<lambda>(n, s). let s = pciauto_postscan_setup_bridge hw dev (max n sub_bus) s in (current_busno s, s))
                (scan (current_busno s) s)
         else if cls = 0x0101 then
           let (prg_iface, s) = read_config_byte hw dev PCI_CLASS_PROG s
           in if prg_iface AND 5 = 0 then Some (sub_bus, s) else Some (sub_bus, pciauto_setup_device hw dev 6 s)
         else if cls = 0x0607 then
           let s = pciauto_setup_device hw dev 0 s in Some (sub_bus, s\<lparr>current_busno := current_busno s + 1\<rparr>)
         else Some (sub_bus, pciauto_setup_device hw dev 6 s))"

definition pci_skip_dev :: "'w hose \<Rightarrow> u32 \<Rightarrow> bool" where
  "pci_skip_dev s dev \<longleftrightarrow> dev = PCI_BDF (first_busno s) 0 0"

text \<open>The functions of a bus; the last one is left out.\<close>

definition bus_functions :: "u32 \<Rightarrow> u32 list" where
  "bus_functions bus = map (\<lambda>k. PCI_BDF bus 0 0 + 0x100 * of_nat k) [0..<255]"

primrec scan_functions ::
  "(u32 \<Rightarrow> 'w hose \<Rightarrow> (u32 \<times> 'w hose) option) \<Rightarrow> 'w pci_hw \<Rightarrow> u32 list \<Rightarrow> bool \<Rightarrow> u32 \<Rightarrow> 'w hose \<Rightarrow> (u32 \<times> 'w hose) option" where
  "scan_functions scan hw [] found_multi sub_bus s = Some (sub_bus, s)"
| "scan_functions scan hw (dev # devs) found_multi sub_bus s =
     (if pci_skip_dev s dev \<or> PCI_FUNC dev \<noteq> 0 \<and> \<not> found_multi then scan_functions scan hw devs found_multi sub_bus s
      else
        let (header_type, s) = read_config_byte hw dev PCI_HEADER_TYPE s;
            (vendor, s) = read_config_word hw dev 0 s
        in if vendor \<noteq> 0xFFFF \<and> vendor \<noteq> 0 then
             let found_multi = (if PCI_FUNC dev = 0 then header_type AND 0x80 \<noteq> 0 else found_multi);
                 s = snd (read_config_word hw dev 2 s); s = snd (read_config_word hw dev PCI_CLASS_DEVICE s)
             in Option.bind (pciauto_config_device scan hw dev s)
                  (\<lambda>(n, s). scan_functions scan hw devs found_multi (max sub_bus n) s)
           else scan_functions scan hw devs found_multi sub_bus s)"

text \<open>\<open>depth\<close> bounds the nesting of bridges.\<close>

primrec pci_hose_scan_bus :: "nat \<Rightarrow> 'w pci_hw \<Rightarrow> u32 \<Rightarrow> 'w hose \<Rightarrow> (u32 \<times> 'w hose) option" where
  "pci_hose_scan_bus 0 hw bus s = None"
| "pci_hose_scan_bus (Suc depth) hw bus s =
     scan_functions (pci_hose_scan_bus depth hw) hw (bus_functions bus) False bus s"

definition pci_hose_scan :: "nat \<Rightarrow> 'w pci_hw \<Rightarrow> 'w hose \<Rightarrow> (u32 \<times> 'w hose) option" where
  "pci_hose_scan depth hw s =
     (let s = (if first_busno s > current_busno s then s\<lparr>current_busno := first_busno s\<rparr> else s);
          s = pciauto_config_init s
      in pci_hose_scan_bus depth hw (current_busno s) s)"

subsection \<open>Search\<close>

primrec find_on :: "'w pci_hw \<Rightarrow> (u16 \<times> u16) list \<Rightarrow> u32 list \<Rightarrow> int \<Rightarrow> bool \<Rightarrow> 'w hose \<Rightarrow> (u32 + int \<times> bool) \<times> 'w hose" where
  "find_on hw ids [] index found_multi s = (Inr (index, found_multi), s)"
| "find_on hw ids (bdf # bdfs) index found_multi s =
     (let (found_multi, s) = (if PCI_FUNC bdf = 0
            then map_prod (\<lambda>h. h AND 0x80 \<noteq> 0) id (pci_read_config_byte hw bdf PCI_HEADER_TYPE s) else (found_multi, s))
      in if PCI_FUNC bdf \<noteq> 0 \<and> \<not> found_multi then find_on hw ids bdfs index found_multi s
         else
           let (vendor, s) = pci_read_config_word hw bdf 0 s;
               (device, s) = pci_read_config_word hw bdf 2 s;
               hits = length (filter (\<lambda>i. i = (vendor, device)) ids)
           in if int hits > max 0 index then (Inl bdf, s) else find_on hw ids bdfs (index - int hits) found_multi s)"

definition pci_find_devices :: "'w pci_hw \<Rightarrow> (u16 \<times> u16) list \<Rightarrow> int \<Rightarrow> 'w hose \<Rightarrow> u32 option \<times> 'w hose" where
  "pci_find_devices hw ids index s =
     (let bdfs = concat (map (\<lambda>b. map (\<lambda>k. PCI_BDF (of_nat b) 0 0 + 0x100 * of_nat k) [0..<256]) [unat (first_busno s)..<Suc (unat (last_busno s))])
      in map_prod (\<lambda>r. case r of Inl bdf \<Rightarrow> Some bdf | Inr _ \<Rightarrow> None) id (find_on hw ids bdfs index False s))"

definition pci_find_device :: "'w pci_hw \<Rightarrow> u16 \<Rightarrow> u16 \<Rightarrow> int \<Rightarrow> 'w hose \<Rightarrow> u32 option \<times> 'w hose" where
  "pci_find_device hw vendor device index s = pci_find_devices hw (if vendor = 0 then [] else [(vendor, device)]) index s"

subsection \<open>The board\<close>

definition board_regions :: "pci_region list \<Rightarrow> pci_region list" where
  "board_regions old =
     map2 (\<lambda>r (bus, phys, sz, flags). r\<lparr>bus_start := bus, phys_start := phys, reg_size := sz, reg_flags := flags\<rparr>) old
       [(0x80000000, 0, 0x80000000 - 1, PCI_REGION_SYS_MEMORY), (0, 0xC0000000, 0x3F000000, 0), (0, 0, 0, 0),
        (0x1000, 0x81000000, 0x01000000 - 0x1000, PCI_REGION_IO), (0, 0x80000000, 0x00800000, PCI_REGION_IO)]"

definition pci_init_board :: "nat \<Rightarrow> 'w pci_hw \<Rightarrow> 'w hose \<Rightarrow> 'w hose option" where
  "pci_init_board depth hw s =
     map_option (\<lambda>(n, s).
         let s = s\<lparr>last_busno := n\<rparr>;
             (reg32, s) = pci_read_config_dword hw 0 0xAC s;
             s = pci_write_config_dword hw 0 0xAC ((reg32 OR 0xC0000 OR 0x10000000 OR 0x600 OR 0xC) AND NOT (0x40000000 OR 0x80000000)) s;
             (reg16, s) = pci_read_config_word hw 0 PCI_COMMAND s;
             s = pci_write_config_word hw 0 PCI_COMMAND (reg16 OR 0x100 OR 4 OR 2) s;
             s = pci_write_config_word hw 0 0x06 0xFFFF s;
             (reg32, s) = pci_read_config_dword hw 0 0xA8 s
         in pci_write_config_dword hw 0 0xA8 (reg32 OR 0x3F000000 OR 0x800000 OR 0x800 OR 0x200 OR 0x60000 OR 0x10 OR 8) s)
       (pci_hose_scan depth hw (s\<lparr>first_busno := 0, last_busno := 0xFF, regions := board_regions (regions s)\<rparr>))"

end
