(* ===== verification/PciProps.thy ===== *)
theory PciProps
  imports Pci
begin

text \<open>
  What the bus scan assigns. The locale \<open>config_space\<close> states what the scan relies on: accesses to configuration space act on the
  registers of the functions that are present, and only on their writable bits. In it the scan is shown to give every base
  address register a range of its own.
\<close>

subsection \<open>Allocation\<close>

definition round_up :: "nat \<Rightarrow> u32 \<Rightarrow> u32" where
  "round_up k l = ((l - 1) OR mask k) + 1"

lemma mask_less: "k < 32 \<Longrightarrow> unat (mask k :: u32) = 2 ^ k - 1"
proof -
  assume "k < 32"
  then have "uint (mask k :: u32) = 2 ^ k - 1" unfolding uint_mask_eq by (simp add: mask_eq_exp_minus_1 min_def)
  then have "int (unat (mask k :: u32)) = int (2 ^ k - 1)" by (simp add: of_nat_diff)
  then show "unat (mask k :: u32) = 2 ^ k - 1" by (simp only: of_nat_eq_iff)
qed

lemma aligned_mod: "(a :: u32) AND mask k = 0 \<longleftrightarrow> unat a mod 2 ^ k = 0"
proof -
  have "unat (take_bit k a) = unat a mod 2 ^ k" unfolding unsigned_take_bit_eq by (simp only: take_bit_eq_mod)
  moreover have "a AND mask k = 0 \<longleftrightarrow> unat (take_bit k a) = 0" by (simp only: unat_eq_zero take_bit_eq_mask)
  ultimately show ?thesis by simp
qed

lemma round_up_bounds:
  assumes "0 < l" "unat l + 2 ^ k \<le> 4294967296" "k < 32"
  shows "unat l \<le> unat (round_up k l)" "unat (round_up k l) < unat l + 2 ^ k" "round_up k l AND mask k = 0"
proof -
  let ?x = "l - 1" and ?m = "mask k :: u32"
  let ?h = "?x AND NOT ?m"
  have x: "unat ?x = unat l - 1" "0 < unat l" using assms(1) unat_minus_one [of l] by (auto simp: word_gt_0 unat_gt_0)
  have or: "?x OR ?m = ?h + ?m" by (subst disjunctive_add) (auto simp: bit_simps intro!: bit_word_eqI)
  have h: "unat ?h \<le> unat ?x" using word_and_le2 [of ?x "NOT ?m"] by (simp add: word_le_nat_alt)
  have m: "unat ?m + 1 = 2 ^ k" using mask_less [OF assms(3)] by simp
  have s: "unat (?h + ?m) = unat ?h + unat ?m"
    using h x m assms(2) by (intro unat_add_lem [THEN iffD1]) simp
  have r: "unat (round_up k l) = unat ?h + 2 ^ k"
  proof (cases "unat ?h + 2 ^ k = 4294967296")
    case True
    then show ?thesis using h x assms(2) by simp
  next
    case False
    then have "unat (?h + ?m + 1) = unat (?h + ?m) + unat (1 :: u32)"
      using h x m s assms(2) by (intro unat_add_lem [THEN iffD1]) simp
    then show ?thesis using s m by (simp add: round_up_def or)
  qed
  show "unat (round_up k l) < unat l + 2 ^ k" using r h x by simp
  have "unat ?x \<le> unat (?x OR ?m)" using le_word_or2 [of ?x ?m] by (simp add: word_le_nat_alt)
  then show "unat l \<le> unat (round_up k l)" using r x m s or by simp
  have "?h AND ?m = 0" by (rule bit_word_eqI) (simp add: bit_simps)
  then have "unat ?h mod 2 ^ k = 0" by (simp only: aligned_mod)
  then show "round_up k l AND mask k = 0" using r by (simp only: aligned_mod mod_add_self2)
qed

text \<open>The memory and the I/O region of the board.\<close>

definition mem_region :: "pci_region \<Rightarrow> bool" where
  "mem_region r \<longleftrightarrow> bus_start r = 0 \<and> reg_size r = 0x3F000000 \<and> 0x1000 \<le> bus_lower r \<and> bus_lower r \<le> 0x3F000000"

definition io_region :: "pci_region \<Rightarrow> bool" where
  "io_region r \<longleftrightarrow> bus_start r = 0x1000 \<and> reg_size r = 0xFFF000 \<and> 0x1000 \<le> bus_lower r \<and> bus_lower r \<le> 0x1000000"

text \<open>A range of \<open>2\<^sup>k\<close> addresses from \<open>l\<close> up to \<open>u\<close>.\<close>

definition in_range :: "u32 \<Rightarrow> nat \<Rightarrow> u32 \<Rightarrow> u32 \<Rightarrow> bool" where
  "in_range a k l u \<longleftrightarrow> unat l \<le> unat a \<and> unat a + 2 ^ k \<le> unat u \<and> a AND mask k = 0"

lemma unat_power_k: "k < 32 \<Longrightarrow> unat (2 ^ k :: u32) = 2 ^ k"
proof -
  assume "k < 32"
  then have "(2 :: nat) ^ k < 2 ^ 32" by (rule power_strict_increasing) simp
  then have "take_bit 32 ((2 :: nat) ^ k) = 2 ^ k" by (simp only: take_bit_nat_eq_self_iff)
  then have "unat (of_nat (2 ^ k) :: u32) = 2 ^ k" unfolding unsigned_of_nat by (simp only: len_num1 len_bit0 len_num0) simp
  then show "unat (2 ^ k :: u32) = 2 ^ k" by simp
qed

lemma allocate_round_up:
  assumes "pciauto_region_allocate (2 ^ k) r = Some (a, r')"
  shows "a = round_up k (bus_lower r)" "r' = r\<lparr>bus_lower := a + 2 ^ k\<rparr>" "a - bus_start r + 2 ^ k \<le> reg_size r"
  using assms by (auto simp: pciauto_region_allocate_def Let_def round_up_def mask_eq_exp_minus_1 split: if_splits)

lemma mem_allocate:
  assumes "mem_region r" "k \<le> 30" "pciauto_region_allocate (2 ^ k) r = Some (a, r')"
  shows "mem_region r'" "in_range a k (bus_lower r) (bus_lower r')"
proof -
  note al = allocate_round_up [OF assms(3)]
  have r: "bus_start r = 0" "reg_size r = 0x3F000000" "0x1000 \<le> unat (bus_lower r)" "unat (bus_lower r) \<le> 0x3F000000"
    using assms(1) by (simp_all add: mem_region_def word_le_nat_alt)
  have k: "(2 :: nat) ^ k \<le> 1073741824" "unat (2 ^ k :: u32) = 2 ^ k"
    using power_increasing [OF assms(2), of "2 :: nat"] assms(2) by (simp_all add: unat_power_k)
  have "0 < bus_lower r" using r(3) by (simp add: word_less_nat_alt)
  then have b: "unat (bus_lower r) \<le> unat a" "unat a < unat (bus_lower r) + 2 ^ k" "a AND mask k = 0"
    using round_up_bounds [of "bus_lower r" k] r(4) k(1) assms(2) al(1) by simp_all
  have s: "unat (a + 2 ^ k) = unat a + 2 ^ k" using b(2) k r(4) unat_add_lem [of a "2 ^ k"] by simp
  then have "unat a + 2 ^ k \<le> 0x3F000000" using al(3) r(1,2) by (simp add: word_le_nat_alt)
  then show "mem_region r'" "in_range a k (bus_lower r) (bus_lower r')"
    using s b r al(2) assms(1) by (simp_all add: mem_region_def in_range_def word_le_nat_alt)
qed

lemma io_allocate:
  assumes "io_region r" "k \<le> 16" "pciauto_region_allocate (2 ^ k) r = Some (a, r')"
  shows "io_region r'" "in_range a k (bus_lower r) (bus_lower r')"
proof -
  note al = allocate_round_up [OF assms(3)]
  have r: "bus_start r = 0x1000" "reg_size r = 0xFFF000" "0x1000 \<le> unat (bus_lower r)" "unat (bus_lower r) \<le> 0x1000000"
    using assms(1) by (simp_all add: io_region_def word_le_nat_alt)
  have k: "(2 :: nat) ^ k \<le> 65536" "unat (2 ^ k :: u32) = 2 ^ k"
    using power_increasing [OF assms(2), of "2 :: nat"] assms(2) by (simp_all add: unat_power_k)
  have "0 < bus_lower r" using r(3) by (simp add: word_less_nat_alt)
  then have b: "unat (bus_lower r) \<le> unat a" "unat a < unat (bus_lower r) + 2 ^ k" "a AND mask k = 0"
    using round_up_bounds [of "bus_lower r" k] r(4) k(1) assms(2) al(1) by simp_all
  have s: "unat (a + 2 ^ k) = unat a + 2 ^ k" using b(2) k r(4) unat_add_lem [of a "2 ^ k"] by simp
  have d: "unat (a - 0x1000) = unat a - 0x1000" using b(1) r(3) by (simp add: unat_sub word_le_nat_alt)
  moreover have "unat a - 0x1000 + 2 ^ k < 4294967296" using b(2) k(1) r(4) by linarith
  ultimately have "unat (a - 0x1000 + 2 ^ k) = unat a - 0x1000 + 2 ^ k" using k(2) unat_add_lem [of "a - 0x1000" "2 ^ k"] by simp
  then have "unat a + 2 ^ k \<le> 0x1000000" using al(3) r(1,2,3) b(1) by (simp add: word_le_nat_alt)
  then show "io_region r'" "in_range a k (bus_lower r) (bus_lower r')"
    using s b r al(2) assms(1) by (simp_all add: io_region_def in_range_def word_le_nat_alt)
qed

lemma round_up_to:
  assumes "0 < l" "unat l \<le> e" "2 ^ k dvd e" "e + 2 ^ k \<le> 4294967296" "k < 32"
  shows "unat l \<le> unat (round_up k l)" "unat (round_up k l) \<le> e"
proof -
  have b: "unat l \<le> unat (round_up k l)" "unat (round_up k l) < unat l + 2 ^ k" "round_up k l AND mask k = 0"
    using round_up_bounds [of l k] assms by simp_all
  from b(3) have "2 ^ k dvd unat (round_up k l)" by (simp only: aligned_mod mod_eq_0_iff_dvd)
  then obtain p q where pq: "unat (round_up k l) = 2 ^ k * p" "e = 2 ^ k * q" using assms(3) by (elim dvdE)
  then have "2 ^ k * p < 2 ^ k * (q + 1)" using b(2) assms(2) by simp
  then have "p < q + 1" by (simp only: mult_less_cancel1)
  then have "p \<le> q" by simp
  then show "unat (round_up k l) \<le> e" using pq by simp
qed (use round_up_bounds [of l k] assms in simp)

lemma align_regions:
  "mem_region r \<Longrightarrow> mem_region (pciauto_region_align 0x100000 r) \<and> bus_lower r \<le> bus_lower (pciauto_region_align 0x100000 r)"
  "io_region r \<Longrightarrow> io_region (pciauto_region_align 0x1000 r) \<and> bus_lower r \<le> bus_lower (pciauto_region_align 0x1000 r)"
proof -
  have m: "pciauto_region_align 0x100000 r = r\<lparr>bus_lower := round_up 20 (bus_lower r)\<rparr>" "pciauto_region_align 0x1000 r = r\<lparr>bus_lower := round_up 12 (bus_lower r)\<rparr>"
    by (simp_all add: pciauto_region_align_def round_up_def mask_eq_exp_minus_1)
  have "2 ^ 20 dvd (0x3F000000 :: nat)" "2 ^ 12 dvd (0x1000000 :: nat)" by simp_all
  note d = this
  show "mem_region (pciauto_region_align 0x100000 r) \<and> bus_lower r \<le> bus_lower (pciauto_region_align 0x100000 r)" if "mem_region r"
  proof -
    have l: "bus_start r = 0" "reg_size r = 0x3F000000" "0x1000 \<le> unat (bus_lower r)" "unat (bus_lower r) \<le> 0x3F000000"
      using that by (simp_all add: mem_region_def word_le_nat_alt)
    then have p: "0 < bus_lower r" by (simp add: word_less_nat_alt)
    show ?thesis using l round_up_to [OF p l(4) d(1)] by (simp add: m mem_region_def word_le_nat_alt)
  qed
  show "io_region (pciauto_region_align 0x1000 r) \<and> bus_lower r \<le> bus_lower (pciauto_region_align 0x1000 r)" if "io_region r"
  proof -
    have l: "bus_start r = 0x1000" "reg_size r = 0xFFF000" "0x1000 \<le> unat (bus_lower r)" "unat (bus_lower r) \<le> 0x1000000"
      using that by (simp_all add: io_region_def word_le_nat_alt)
    then have p: "0 < bus_lower r" by (simp add: word_less_nat_alt)
    show ?thesis using l round_up_to [OF p l(4) d(2)] by (simp add: m io_region_def word_le_nat_alt)
  qed
qed

lemma round_up_mono:
  assumes "0 < l" "unat l \<le> unat l'" "unat l' + 2 ^ k \<le> 4294967296" "k < 32"
  shows "unat (round_up k l) \<le> unat (round_up k l')"
proof -
  have p: "0 < l'" using assms(1,2) by (simp add: word_less_nat_alt)
  have b: "unat l' \<le> unat (round_up k l')" "round_up k l' AND mask k = 0" "unat (round_up k l') < unat l' + 2 ^ k"
    using round_up_bounds [OF p] assms(3,4) by simp_all
  show ?thesis
  proof (rule ccontr)
    assume n: "\<not> ?thesis"
    have a: "unat (round_up k l) < unat l + 2 ^ k" "round_up k l AND mask k = 0"
      using round_up_bounds [OF assms(1), of k] assms(2,3,4) by simp_all
    obtain x y where xy: "unat (round_up k l) = 2 ^ k * x" "unat (round_up k l') = 2 ^ k * y"
      using a(2) b(2) by (auto simp only: aligned_mod mod_eq_0_iff_dvd elim!: dvdE)
    then have "2 ^ k * y < 2 ^ k * x" using n by simp
    then have "y < x" by (simp only: mult_less_cancel1)
    then have "2 ^ k * (y + 1) \<le> 2 ^ k * x" by (intro mult_le_mono2) simp
    then have "unat (round_up k l') + 2 ^ k \<le> unat (round_up k l)" using xy by simp
    then show False using a(1) b(1) assms(2) by linarith
  qed
qed

text \<open>What was refused does not fit later either.\<close>

lemma mem_refused:
  assumes "mem_region r" "mem_region r'" "bus_lower r \<le> bus_lower r'" "k \<le> 30" "pciauto_region_allocate (2 ^ k) r = None"
  shows "pciauto_region_allocate (2 ^ k) r' = None"
proof -
  have r: "bus_start r = 0" "reg_size r = 0x3F000000" "bus_start r' = 0" "reg_size r' = 0x3F000000"
    "0x1000 \<le> unat (bus_lower r)" "unat (bus_lower r') \<le> 0x3F000000" "unat (bus_lower r) \<le> unat (bus_lower r')"
    using assms(1-3) by (simp_all add: mem_region_def word_le_nat_alt)
  have k: "(2 :: nat) ^ k \<le> 1073741824" "unat (2 ^ k :: u32) = 2 ^ k"
    using power_increasing [OF assms(4), of "2 :: nat"] assms(4) by (simp_all add: unat_power_k)
  have p: "0 < bus_lower r" "0 < bus_lower r'" using r(5,7) by (simp_all add: word_less_nat_alt)
  have m: "unat (round_up k (bus_lower r)) \<le> unat (round_up k (bus_lower r'))" "unat (round_up k (bus_lower r')) < unat (bus_lower r') + 2 ^ k"
    using round_up_mono [OF p(1) r(7), of k] round_up_bounds [OF p(2), of k] r(6) k(1) assms(4) by simp_all
  have s: "unat (round_up k (bus_lower q) + 2 ^ k) = unat (round_up k (bus_lower q)) + 2 ^ k" if "q = r \<or> q = r'" for q
    using that m k r(6) unat_add_lem [of "round_up k (bus_lower q)" "2 ^ k"] by auto
  have al: "pciauto_region_allocate (2 ^ k) q = None \<longleftrightarrow> 0x3F000000 < unat (round_up k (bus_lower q)) + 2 ^ k" if "q = r \<or> q = r'" for q
    using that r(1-4) s [OF that] by (auto simp: pciauto_region_allocate_def Let_def round_up_def mask_eq_exp_minus_1 word_less_nat_alt)
  show ?thesis using al [of r] al [of r'] assms(5) m(1) by simp
qed

lemma io_refused:
  assumes "io_region r" "io_region r'" "bus_lower r \<le> bus_lower r'" "k \<le> 16" "pciauto_region_allocate (2 ^ k) r = None"
  shows "pciauto_region_allocate (2 ^ k) r' = None"
proof -
  have r: "bus_start r = 0x1000" "reg_size r = 0xFFF000" "bus_start r' = 0x1000" "reg_size r' = 0xFFF000"
    "0x1000 \<le> unat (bus_lower r)" "unat (bus_lower r') \<le> 0x1000000" "unat (bus_lower r) \<le> unat (bus_lower r')"
    using assms(1-3) by (simp_all add: io_region_def word_le_nat_alt)
  have k: "(2 :: nat) ^ k \<le> 65536" "unat (2 ^ k :: u32) = 2 ^ k" "k < 32"
    using power_increasing [OF assms(4), of "2 :: nat"] assms(4) by (simp_all add: unat_power_k)
  have p: "0 < bus_lower r" "0 < bus_lower r'" using r(5,7) by (simp_all add: word_less_nat_alt)
  have m: "unat (round_up k (bus_lower r)) \<le> unat (round_up k (bus_lower r'))" "unat (round_up k (bus_lower r')) < unat (bus_lower r') + 2 ^ k"
    "0x1000 \<le> unat (round_up k (bus_lower r))"
    using round_up_mono [OF p(1) r(7), of k] round_up_bounds [OF p(2), of k] round_up_bounds(1) [OF p(1), of k] r(5,6,7) k by simp_all
  have s: "unat (round_up k (bus_lower q) - 0x1000 + 2 ^ k) = unat (round_up k (bus_lower q)) - 0x1000 + 2 ^ k" if "q = r \<or> q = r'" for q
  proof -
    have "unat (round_up k (bus_lower q) - 0x1000) = unat (round_up k (bus_lower q)) - 0x1000"
      using that m by (auto simp: unat_sub word_le_nat_alt)
    moreover have "unat (round_up k (bus_lower q)) - 0x1000 + 2 ^ k < 4294967296" using that m k(1) r(6) by auto
    ultimately show ?thesis using k(2) unat_add_lem [of "round_up k (bus_lower q) - 0x1000" "2 ^ k"] by simp
  qed
  have al: "pciauto_region_allocate (2 ^ k) q = None \<longleftrightarrow> 0xFFF000 < unat (round_up k (bus_lower q)) - 0x1000 + 2 ^ k" if "q = r \<or> q = r'" for q
    using that r(1-4) s [OF that] by (auto simp: pciauto_region_allocate_def Let_def round_up_def mask_eq_exp_minus_1 word_less_nat_alt)
  show ?thesis using al [of r] al [of r'] assms(5) m(1,3) by simp
qed

subsection \<open>Registers\<close>

text \<open>A function of a device: its registers and the bits of them that can be written.\<close>

record pfun =
  pf_reg :: "nat \<Rightarrow> u32"
  pf_mask :: "nat \<Rightarrow> u32"

type_synonym pspace = "u32 \<Rightarrow> pfun option"

definition reg_read :: "pspace \<Rightarrow> u32 \<Rightarrow> u32 \<Rightarrow> u32" where
  "reg_read sp d offset = (case sp d of None \<Rightarrow> 0xFFFFFFFF | Some f \<Rightarrow> pf_reg f (unat (offset div 4)))"

definition reg_write :: "nat \<Rightarrow> u32 \<Rightarrow> u32 \<Rightarrow> pfun \<Rightarrow> pfun" where
  "reg_write i lanes v f = f\<lparr>pf_reg := (pf_reg f)(i := (pf_reg f i AND NOT (pf_mask f i AND lanes)) OR (v AND pf_mask f i AND lanes))\<rparr>"

definition space_write :: "pspace \<Rightarrow> u32 \<Rightarrow> u32 \<Rightarrow> u32 \<Rightarrow> u32 \<Rightarrow> pspace" where
  "space_write sp d offset lanes v = sp(d := map_option (reg_write (unat (offset div 4)) lanes v) (sp d))"

text \<open>The address of a function.\<close>

definition bdf_ok :: "u32 \<Rightarrow> bool" where
  "bdf_ok d \<longleftrightarrow> d AND 0xFFFF00 = d"

locale config_space =
  fixes hw :: "'w pci_hw" and space :: "'w \<Rightarrow> pspace"
  assumes rd32: "bdf_ok d \<Longrightarrow> first_busno s = 0 \<Longrightarrow> offset < 0x100 \<Longrightarrow> offset AND 3 = 0 \<Longrightarrow>
      fst (read_config_dword hw d offset s) = reg_read (space (pci_world s)) d offset"
    and rd16: "bdf_ok d \<Longrightarrow> first_busno s = 0 \<Longrightarrow> offset < 0x100 \<Longrightarrow> offset AND 1 = 0 \<Longrightarrow>
      fst (read_config_word hw d offset s) = ucast (drop_bit (8 * unat (offset AND 2)) (reg_read (space (pci_world s)) d offset))"
    and rd8: "bdf_ok d \<Longrightarrow> first_busno s = 0 \<Longrightarrow> offset < 0x100 \<Longrightarrow>
      fst (read_config_byte hw d offset s) = ucast (drop_bit (8 * unat (offset AND 3)) (reg_read (space (pci_world s)) d offset))"
    and rd_keeps: "bdf_ok d \<Longrightarrow> first_busno s = 0 \<Longrightarrow> space (pci_world (snd (read_config_dword hw d offset s))) = space (pci_world s)"
      "bdf_ok d \<Longrightarrow> first_busno s = 0 \<Longrightarrow> space (pci_world (snd (read_config_word hw d offset s))) = space (pci_world s)"
      "bdf_ok d \<Longrightarrow> first_busno s = 0 \<Longrightarrow> space (pci_world (snd (read_config_byte hw d offset s))) = space (pci_world s)"
    and wr32: "bdf_ok d \<Longrightarrow> first_busno s = 0 \<Longrightarrow> offset < 0x100 \<Longrightarrow> offset AND 3 = 0 \<Longrightarrow>
      space (pci_world (write_config_dword hw d offset v s)) = space_write (space (pci_world s)) d offset (- 1) v"
    and wr16: "bdf_ok d \<Longrightarrow> first_busno s = 0 \<Longrightarrow> offset < 0x100 \<Longrightarrow> offset AND 1 = 0 \<Longrightarrow>
      space (pci_world (write_config_word hw d offset v16 s)) =
      space_write (space (pci_world s)) d offset (push_bit (8 * unat (offset AND 2)) 0xFFFF) (push_bit (8 * unat (offset AND 2)) (ucast v16))"
    and wr8: "bdf_ok d \<Longrightarrow> first_busno s = 0 \<Longrightarrow> offset < 0x100 \<Longrightarrow>
      space (pci_world (write_config_byte hw d offset v8 s)) =
      space_write (space (pci_world s)) d offset (push_bit (8 * unat (offset AND 3)) 0xFF) (push_bit (8 * unat (offset AND 3)) (ucast v8))"

subsection \<open>Base address registers\<close>

text \<open>A register for \<open>2\<^sup>k\<close> addresses of I/O or of 32-bit memory: its low bits tell the kind and cannot be written.\<close>

definition bar :: "bool \<Rightarrow> pfun \<Rightarrow> nat \<Rightarrow> nat \<Rightarrow> bool" where
  "bar io f i k \<longleftrightarrow> pf_mask f (4 + i) = NOT (mask k) \<and>
     (if io then 2 \<le> k \<and> k \<le> 16 \<and> pf_reg f (4 + i) AND mask k = 1
      else 4 \<le> k \<and> k \<le> 30 \<and> (pf_reg f (4 + i) AND mask k = 0 \<or> pf_reg f (4 + i) AND mask k = 8))"

definition base :: "pfun \<Rightarrow> nat \<Rightarrow> u32" where
  "base f i = pf_reg f (4 + i) AND pf_mask f (4 + i)"

definition func_class :: "pfun \<Rightarrow> u16" where
  "func_class f = ucast (drop_bit 16 (pf_reg f 2))"

definition bars_of :: "pfun \<Rightarrow> nat" where
  "bars_of f = (if func_class f = 0x0604 then 2 else if func_class f = 0x0607 then 0 else 6)"

definition func_ok :: "pfun \<Rightarrow> bool" where
  "func_ok f \<longleftrightarrow> pf_mask f 0 = 0 \<and> pf_mask f 2 = 0 \<and> pf_mask f 3 AND 0xFF0000 = 0 \<and>
     (\<forall>i < bars_of f. pf_mask f (4 + i) = 0 \<and> pf_reg f (4 + i) = 0 \<or> (\<exists>io k. bar io f i k))"

definition region :: "bool \<Rightarrow> 'w hose \<Rightarrow> pci_region" where
  "region io s = regions s ! (if io then 3 else 1)"

definition hose_ok :: "'w hose \<Rightarrow> bool" where
  "hose_ok s \<longleftrightarrow> first_busno s = 0 \<and> pci_mem s = Some 1 \<and> pci_io s = Some 3 \<and> pci_prefetch s = None \<and> length (regions s) = 5 \<and>
     mem_region (region False s) \<and> io_region (region True s)"

text \<open>A register that has been given a range, and one that may have been refused.\<close>

definition placed :: "pfun \<Rightarrow> nat \<Rightarrow> bool" where
  "placed f i \<longleftrightarrow> base f i \<noteq> 0 \<and> base f i \<noteq> pf_mask f (4 + i)"

definition bar_fine :: "'w hose \<Rightarrow> bool \<Rightarrow> pfun \<Rightarrow> nat \<Rightarrow> nat \<Rightarrow> bool" where
  "bar_fine s io f i k \<longleftrightarrow> base f i = 0 \<or> base f i = NOT (mask k) \<and> pciauto_region_allocate (2 ^ k) (region io s) = None \<or>
     in_range (base f i) k 0x1000 (bus_lower (region io s))"

definition apart :: "u32 \<Rightarrow> nat \<Rightarrow> u32 \<Rightarrow> nat \<Rightarrow> bool" where
  "apart a k a' k' \<longleftrightarrow> unat a + 2 ^ k \<le> unat a' \<or> unat a' + 2 ^ k' \<le> unat a"

definition all_apart :: "pspace \<Rightarrow> bool" where
  "all_apart sp \<longleftrightarrow> (\<forall>d f i d' f' i' io k k'. sp d = Some f \<longrightarrow> sp d' = Some f' \<longrightarrow> i < bars_of f \<longrightarrow> i' < bars_of f' \<longrightarrow>
     bar io f i k \<longrightarrow> bar io f' i' k' \<longrightarrow> placed f i \<longrightarrow> placed f' i' \<longrightarrow> (d, i) \<noteq> (d', i') \<longrightarrow> apart (base f i) k (base f' i') k')"

definition funcs_fine :: "'w hose \<Rightarrow> pspace \<Rightarrow> bool" where
  "funcs_fine s sp \<longleftrightarrow> (\<forall>d f. sp d = Some f \<longrightarrow>
     bdf_ok d \<and> func_ok f \<and> (\<forall>i < bars_of f. \<forall>io k. bar io f i k \<longrightarrow> bar_fine s io f i k))"

definition pci_inv :: "'w hose \<Rightarrow> pspace \<Rightarrow> bool" where
  "pci_inv s sp \<longleftrightarrow> hose_ok s \<and> funcs_fine s sp \<and> all_apart sp"

text \<open>The regions only shrink.\<close>

definition shrinks :: "'w hose \<Rightarrow> 'w hose \<Rightarrow> bool" where
  "shrinks s s' \<longleftrightarrow> hose_ok s' \<and> (\<forall>io. bus_lower (region io s) \<le> bus_lower (region io s'))"

lemma bar_fine_shrinks:
  assumes "hose_ok s" "shrinks s s'" "bar io f i k" "bar_fine s io f i k"
  shows "bar_fine s' io f i k"
proof -
  have "bus_lower (region io s) \<le> bus_lower (region io s')" using assms(2) by (simp add: shrinks_def)
  then have l: "unat (bus_lower (region io s)) \<le> unat (bus_lower (region io s'))" by (simp add: word_le_nat_alt)
  have "pciauto_region_allocate (2 ^ k) (region io s') = None" if "pciauto_region_allocate (2 ^ k) (region io s) = None"
    using assms(1-3) that mem_refused [of "region io s" "region io s'" k] io_refused [of "region io s" "region io s'" k]
    by (cases io) (auto simp: shrinks_def hose_ok_def bar_def)
  then show ?thesis using assms(4) l by (auto simp: bar_fine_def in_range_def)
qed

text \<open>Two states of a function that differ in writable bits only.\<close>

definition same_func :: "pfun \<Rightarrow> pfun \<Rightarrow> bool" where
  "same_func f f' \<longleftrightarrow> pf_mask f' = pf_mask f \<and> (\<forall>j. pf_reg f' j AND NOT (pf_mask f j) = pf_reg f j AND NOT (pf_mask f j))"

lemma same_func_bar: "same_func f f' \<Longrightarrow> bar io f' i k = bar io f i k"
proof (cases "pf_mask f (4 + i) = NOT (mask k)")
  case True
  assume s: "same_func f f'"
  have "pf_reg f' (4 + i) AND NOT (pf_mask f (4 + i)) = pf_reg f (4 + i) AND NOT (pf_mask f (4 + i))" using s by (simp add: same_func_def)
  then have "pf_reg f' (4 + i) AND mask k = pf_reg f (4 + i) AND mask k" unfolding True bit.double_compl .
  then show ?thesis using s by (simp add: bar_def same_func_def)
qed (simp add: bar_def same_func_def)

lemma same_func_reg: "same_func f f' \<Longrightarrow> pf_mask f j = 0 \<Longrightarrow> pf_reg f' j = pf_reg f j"
proof -
  assume s: "same_func f f'" "pf_mask f j = 0"
  have "pf_reg f' j AND NOT (pf_mask f j) = pf_reg f j AND NOT (pf_mask f j)" using s(1) by (simp add: same_func_def)
  then show ?thesis using s(2) by simp
qed

lemma same_func_class: "same_func f f' \<Longrightarrow> func_ok f \<Longrightarrow> func_class f' = func_class f \<and> bars_of f' = bars_of f"
  using same_func_reg [of f f' 2] by (simp add: func_ok_def func_class_def bars_of_def)

lemma same_func_ok: "same_func f f' \<Longrightarrow> func_ok f \<Longrightarrow> func_ok f'"
  using same_func_class [of f f'] same_func_reg [of f f'] same_func_bar [of f f']
  by (auto simp: func_ok_def) (auto simp: same_func_def)

lemma same_func_refl [simp]: "same_func f f"
  by (simp add: same_func_def)

lemma same_func_trans: "same_func f g \<Longrightarrow> same_func g h \<Longrightarrow> same_func f h"
  by (simp add: same_func_def)

lemma reg_write_same: "same_func f (reg_write i lanes v f)"
proof -
  have "((r AND NOT (m AND l)) OR (v AND m AND l)) AND NOT m = r AND NOT m" for r m l v :: u32
    by (rule bit_word_eqI) (auto simp: bit_simps)
  then show ?thesis by (simp add: same_func_def reg_write_def)
qed

lemma inv_below:
  assumes "pci_inv s sp" "sp d = Some f" "i < bars_of f" "bar io f i k" "placed f i"
  shows "unat (base f i) + 2 ^ k \<le> unat (bus_lower (region io s))"
proof -
  have "bar_fine s io f i k" using assms(1-4) unfolding pci_inv_def funcs_fine_def by blast
  then show ?thesis using assms(4,5) by (auto simp: bar_fine_def placed_def in_range_def bar_def)
qed

text \<open>One register is refused, or gets a range above all that were given before.\<close>

lemma inv_step:
  assumes inv: "pci_inv s sp" and sh: "shrinks s s'" and f: "sp d = Some f" "same_func f f'"
    and other: "\<And>i. i < bars_of f \<Longrightarrow> i \<noteq> i0 \<Longrightarrow> base f' i = base f i"
    and new: "\<And>io k. i0 < bars_of f \<Longrightarrow> bar io f i0 k \<Longrightarrow>
      base f' i0 = NOT (mask k) \<and> pciauto_region_allocate (2 ^ k) (region io s') = None \<or>
      in_range (base f' i0) k (bus_lower (region io s)) (bus_lower (region io s'))"
  shows "pci_inv s' (sp(d \<mapsto> f'))"
proof -
  have ok: "func_ok f" "bdf_ok d" "hose_ok s" using inv f(1) by (auto simp: pci_inv_def funcs_fine_def)
  have cls: "bars_of f' = bars_of f" using same_func_class [OF f(2) ok(1)] by simp
  have m: "pf_mask f' = pf_mask f" using f(2) by (simp add: same_func_def)
  have low: "0x1000 \<le> unat (bus_lower (region io s))" for io
    using ok(3) by (cases io) (simp_all add: hose_ok_def mem_region_def io_region_def word_le_nat_alt)
  have fine: "bar_fine s' io f1 i k" if "(sp(d \<mapsto> f')) e = Some f1" "i < bars_of f1" "bar io f1 i k" for e f1 i io k
  proof (cases "e = d \<and> i = i0")
    case True
    then show ?thesis using that new [of io k] same_func_bar [OF f(2)] cls low [of io] by (auto simp: bar_fine_def in_range_def)
  next
    case False
    show ?thesis
    proof (cases "e = d")
      case True
      then have d: "f1 = f'" "i \<noteq> i0" "i < bars_of f" "bar io f i k" using that False same_func_bar [OF f(2)] cls by auto
      then have "bar_fine s' io f i k"
        using bar_fine_shrinks [OF ok(3) sh d(4)] inv f(1) unfolding pci_inv_def funcs_fine_def by blast
      then show ?thesis using other [OF d(3,2)] d(1) by (simp add: bar_fine_def)
    next
      case False
      then have "bar_fine s io f1 i k" using inv that unfolding pci_inv_def funcs_fine_def by simp
      then show ?thesis by (rule bar_fine_shrinks [OF ok(3) sh that(3)])
    qed
  qed
  have old: "\<exists>g. sp e = Some g \<and> i < bars_of g \<and> bar io g i k \<and> placed g i \<and> base g i = base f1 i"
    if "(sp(d \<mapsto> f')) e = Some f1" "i < bars_of f1" "bar io f1 i k" "placed f1 i" "(e, i) \<noteq> (d, i0)" for e f1 i io k
  proof (cases "e = d")
    case True
    then show ?thesis using that f other [of i] same_func_bar [OF f(2)] cls m by (auto simp: placed_def)
  qed (use that in auto)
  have top: "unat (bus_lower (region io s)) \<le> unat (base f' i0)"
    if "i0 < bars_of f" "bar io f' i0 k" "placed f' i0" for io k
    using new [OF that(1), of io k] that(2,3) same_func_bar [OF f(2)] m by (auto simp: placed_def in_range_def bar_def)
  have "all_apart (sp(d \<mapsto> f'))"
    unfolding all_apart_def
  proof (intro allI impI)
    fix d1 f1 i1 d2 f2 i2 io k1 k2
    assume a: "(sp(d \<mapsto> f')) d1 = Some f1" "(sp(d \<mapsto> f')) d2 = Some f2" "i1 < bars_of f1" "i2 < bars_of f2" "bar io f1 i1 k1" "bar io f2 i2 k2"
      "placed f1 i1" "placed f2 i2" "(d1, i1) \<noteq> (d2, i2)"
    consider (1) "(d1, i1) = (d, i0)" | (2) "(d2, i2) = (d, i0)" | (3) "(d1, i1) \<noteq> (d, i0)" "(d2, i2) \<noteq> (d, i0)" by blast
    then show "apart (base f1 i1) k1 (base f2 i2) k2"
    proof cases
      case 1
      obtain g where g: "sp d2 = Some g" "i2 < bars_of g" "bar io g i2 k2" "placed g i2" "base g i2 = base f2 i2"
        using old [OF a(2,4,6,8)] a(9) 1 by auto
      have "unat (base f2 i2) + 2 ^ k2 \<le> unat (bus_lower (region io s))" using inv_below [OF inv g(1-4)] g(5) by simp
      then show ?thesis using 1 a top [of io k1] cls by (auto simp: apart_def)
    next
      case 2
      obtain g where g: "sp d1 = Some g" "i1 < bars_of g" "bar io g i1 k1" "placed g i1" "base g i1 = base f1 i1"
        using old [OF a(1,3,5,7)] a(9) 2 by auto
      have "unat (base f1 i1) + 2 ^ k1 \<le> unat (bus_lower (region io s))" using inv_below [OF inv g(1-4)] g(5) by simp
      then show ?thesis using 2 a top [of io k2] cls by (auto simp: apart_def)
    next
      case 3
      obtain g h where g: "sp d1 = Some g" "i1 < bars_of g" "bar io g i1 k1" "placed g i1" "base g i1 = base f1 i1"
        and h: "sp d2 = Some h" "i2 < bars_of h" "bar io h i2 k2" "placed h i2" "base h i2 = base f2 i2"
        using old [OF a(1,3,5,7) 3(1)] old [OF a(2,4,6,8) 3(2)] by blast
      have "all_apart sp" using inv by (simp add: pci_inv_def)
      then have "apart (base g i1) k1 (base h i2) k2" using g h a(9) unfolding all_apart_def by blast
      then show ?thesis using g(5) h(5) by simp
    qed
  qed
  moreover have "funcs_fine s' (sp(d \<mapsto> f'))"
    unfolding funcs_fine_def
  proof (intro allI impI)
    fix e f1 assume e: "(sp(d \<mapsto> f')) e = Some f1"
    have "bdf_ok e \<and> func_ok f1" using e inv ok(1,2) same_func_ok [OF f(2)] by (cases "e = d") (auto simp: pci_inv_def funcs_fine_def)
    then show "bdf_ok e \<and> func_ok f1 \<and> (\<forall>i < bars_of f1. \<forall>io k. bar io f1 i k \<longrightarrow> bar_fine s' io f1 i k)" using fine [OF e] by blast
  qed
  ultimately show ?thesis using sh by (simp add: pci_inv_def shrinks_def)
qed

lemma inv_hose:
  assumes "pci_inv s sp" "shrinks s s'"
  shows "pci_inv s' sp"
proof -
  have "funcs_fine s' sp" using assms bar_fine_shrinks [of s s'] unfolding pci_inv_def funcs_fine_def by blast
  then show ?thesis using assms by (simp add: pci_inv_def shrinks_def)
qed

subsection \<open>The answer to all ones\<close>

lemma high_and_low: "(x :: u32) AND mask 4 = x \<Longrightarrow> 4 \<le> k \<Longrightarrow> NOT (mask k) AND x = 0"
proof (rule bit_word_eqI)
  fix n assume x: "x AND mask 4 = x" "4 \<le> k" "n < LENGTH(32)"
  have "bit x n = bit (x AND mask 4) n" using x(1) by simp
  then show "bit (NOT (mask k) AND x) n = bit 0 n" using x(2,3) by (auto simp: bit_simps)
qed

lemma sizing_mem:
  assumes "4 \<le> k" "low = 0 \<or> low = (8 :: u32)"
  shows "(low OR NOT (mask k)) AND 1 = 0" "(low OR NOT (mask k)) AND 6 = 0" "NOT ((low OR NOT (mask k)) AND NOT 0xF) + 1 = 2 ^ k"
proof -
  have "NOT (mask k) AND 1 = (0 :: u32)" "NOT (mask k) AND 6 = (0 :: u32)" by (rule high_and_low; simp add: mask_eq_exp_minus_1 assms(1))+
  then show "(low OR NOT (mask k)) AND 1 = 0" "(low OR NOT (mask k)) AND 6 = 0" using assms(2) by (auto simp: bit.conj_disj_distrib2)
  have f: "(0xF :: u32) = mask 4" by (simp add: mask_eq_exp_minus_1)
  have l: "low AND NOT (mask 4) = 0" using assms(2) by (auto simp: mask_eq_exp_minus_1)
  have "NOT (mask k) AND NOT (mask 4) = (NOT (mask k) :: u32)" using assms(1) by (intro bit_word_eqI) (auto simp: bit_simps)
  then have "(low OR NOT (mask k)) AND NOT 0xF = NOT (mask k)" unfolding f using l by (simp only: bit.conj_disj_distrib2 or.left_neutral)
  then have "NOT ((low OR NOT (mask k)) AND NOT 0xF) + 1 = mask k + 1" by (simp only: bit.double_compl)
  then show "NOT ((low OR NOT (mask k)) AND NOT 0xF) + 1 = 2 ^ k" by (simp add: mask_eq_exp_minus_1)
qed

lemma sizing_io:
  assumes "2 \<le> k" "k \<le> 16"
  shows "((1 :: u32) OR NOT (mask k)) AND 1 = 1" "(NOT ((1 OR NOT (mask k)) AND NOT 3) AND 0xFFFF) + 1 = (2 ^ k :: u32)"
proof -
  show "((1 :: u32) OR NOT (mask k)) AND 1 = 1" by (simp add: bit.conj_disj_distrib2)
  have f: "(3 :: u32) = mask 2" "(0xFFFF :: u32) = mask 16" by (simp_all add: mask_eq_exp_minus_1)
  have l: "(1 :: u32) AND NOT (mask 2) = 0" by (simp add: mask_eq_exp_minus_1)
  have "NOT (mask k) AND NOT (mask 2) = (NOT (mask k) :: u32)" using assms(1) by (intro bit_word_eqI) (auto simp: bit_simps)
  then have "((1 :: u32) OR NOT (mask k)) AND NOT 3 = NOT (mask k)" unfolding f using l by (simp only: bit.conj_disj_distrib2 or.left_neutral)
  moreover have "mask k AND mask 16 = (mask k :: u32)" using assms(2) by (intro bit_word_eqI) (auto simp: bit_simps)
  ultimately have "(NOT ((1 OR NOT (mask k)) AND NOT 3) AND 0xFFFF) + 1 = (mask k + 1 :: u32)" unfolding f(2) by (simp only: bit.double_compl)
  then show "(NOT ((1 OR NOT (mask k)) AND NOT 3) AND 0xFFFF) + 1 = (2 ^ k :: u32)" by (simp add: mask_eq_exp_minus_1)
qed

lemma bar_offset:
  assumes "i < 6"
  shows "unat ((0x10 + 4 * of_nat i :: u32) div 4) = 4 + i" "(0x10 + 4 * of_nat i :: u32) < 0x100" "(0x10 + 4 * of_nat i :: u32) AND 3 = 0"
proof -
  have "i \<in> {0, 1, 2, 3, 4, 5}" using assms by auto
  then show "unat ((0x10 + 4 * of_nat i :: u32) div 4) = 4 + i" "(0x10 + 4 * of_nat i :: u32) < 0x100" "(0x10 + 4 * of_nat i :: u32) AND 3 = 0"
    by auto
qed

lemma access_fields [simp]:
  "first_busno (snd (read_config_dword hw d off s)) = first_busno s" "first_busno (snd (read_config_word hw d off s)) = first_busno s"
  "first_busno (snd (read_config_byte hw d off s)) = first_busno s" "first_busno (write_config_dword hw d off v s) = first_busno s"
  "first_busno (write_config_word hw d off v16 s) = first_busno s" "first_busno (write_config_byte hw d off v8 s) = first_busno s"
  "current_busno (snd (read_config_dword hw d off s)) = current_busno s" "current_busno (snd (read_config_word hw d off s)) = current_busno s"
  "current_busno (snd (read_config_byte hw d off s)) = current_busno s" "current_busno (write_config_dword hw d off v s) = current_busno s"
  "current_busno (write_config_word hw d off v16 s) = current_busno s" "current_busno (write_config_byte hw d off v8 s) = current_busno s"
  "regions (snd (read_config_dword hw d off s)) = regions s" "regions (snd (read_config_word hw d off s)) = regions s"
  "regions (snd (read_config_byte hw d off s)) = regions s" "regions (write_config_dword hw d off v s) = regions s"
  "regions (write_config_word hw d off v16 s) = regions s" "regions (write_config_byte hw d off v8 s) = regions s"
  "pci_mem (snd (read_config_dword hw d off s)) = pci_mem s" "pci_mem (snd (read_config_word hw d off s)) = pci_mem s"
  "pci_mem (snd (read_config_byte hw d off s)) = pci_mem s" "pci_mem (write_config_dword hw d off v s) = pci_mem s"
  "pci_mem (write_config_word hw d off v16 s) = pci_mem s" "pci_mem (write_config_byte hw d off v8 s) = pci_mem s"
  "pci_io (snd (read_config_dword hw d off s)) = pci_io s" "pci_io (snd (read_config_word hw d off s)) = pci_io s"
  "pci_io (snd (read_config_byte hw d off s)) = pci_io s" "pci_io (write_config_dword hw d off v s) = pci_io s"
  "pci_io (write_config_word hw d off v16 s) = pci_io s" "pci_io (write_config_byte hw d off v8 s) = pci_io s"
  "pci_prefetch (snd (read_config_dword hw d off s)) = pci_prefetch s" "pci_prefetch (snd (read_config_word hw d off s)) = pci_prefetch s"
  "pci_prefetch (snd (read_config_byte hw d off s)) = pci_prefetch s" "pci_prefetch (write_config_dword hw d off v s) = pci_prefetch s"
  "pci_prefetch (write_config_word hw d off v16 s) = pci_prefetch s" "pci_prefetch (write_config_byte hw d off v8 s) = pci_prefetch s"
  by (simp_all add: read_config_dword_def read_config_word_def read_config_byte_def write_config_dword_def write_config_word_def write_config_byte_def)

lemma allocate_cases:
  assumes "hose_ok s" "if io then k \<le> 16 else k \<le> 30" "i = (if io then 3 else 1)"
  shows "hose_allocate (Some i) (2 ^ k) s = None \<and> pciauto_region_allocate (2 ^ k) (region io s) = None \<or>
    (\<exists>a rs. hose_allocate (Some i) (2 ^ k) s = Some (a, s\<lparr>regions := rs\<rparr>) \<and> shrinks s (s\<lparr>regions := rs\<rparr>) \<and>
      in_range a k (bus_lower (region io s)) (bus_lower (region io (s\<lparr>regions := rs\<rparr>))))"
proof (cases "pciauto_region_allocate (2 ^ k) (region io s)")
  case None
  then show ?thesis using assms(3) by (auto simp: hose_allocate_def region_def)
next
  case (Some x)
  then obtain a r where r: "pciauto_region_allocate (2 ^ k) (region io s) = Some (a, r)" by (cases x) auto
  let ?s = "s\<lparr>regions := (regions s)[i := r]\<rparr>"
  have h: "hose_allocate (Some i) (2 ^ k) s = Some (a, ?s)" using r assms(3) by (auto simp: hose_allocate_def region_def)
  have len: "length (regions s) = 5" using assms(1) by (simp add: hose_ok_def)
  have g: "region io ?s = r" "region (\<not> io) ?s = region (\<not> io) s" using len assms(3) by (cases io; simp add: region_def)+
  have b: "(if io then io_region r else mem_region r) \<and> in_range a k (bus_lower (region io s)) (bus_lower r)"
    using assms(1,2) r mem_allocate [of "region io s" k a r] io_allocate [of "region io s" k a r] by (cases io) (auto simp: hose_ok_def)
  then have le: "bus_lower (region io s) \<le> bus_lower r" by (auto simp: in_range_def word_le_nat_alt)
  have "hose_ok ?s" using assms(1) b g by (cases io) (auto simp: hose_ok_def)
  moreover have "bus_lower (region io' s) \<le> bus_lower (region io' ?s)" for io' using g le by (cases "io' = io") auto
  ultimately show ?thesis using h b g(1) by (auto simp: shrinks_def)
qed

lemma shrinks_refl: "hose_ok s \<Longrightarrow> shrinks s s"
  by (simp add: shrinks_def)

lemma shrinks_trans: "shrinks s s' \<Longrightarrow> shrinks s' s'' \<Longrightarrow> shrinks s s''"
  by (auto simp: shrinks_def intro: order_trans)

text \<open>States that agree in everything but the devices.\<close>

definition same_hose :: "'w hose \<Rightarrow> 'w hose \<Rightarrow> bool" where
  "same_hose s s' \<longleftrightarrow> first_busno s' = first_busno s \<and> current_busno s' = current_busno s \<and> regions s' = regions s \<and>
     pci_mem s' = pci_mem s \<and> pci_io s' = pci_io s \<and> pci_prefetch s' = pci_prefetch s"

lemma same_hose_ok: "same_hose s s' \<Longrightarrow> hose_ok s \<Longrightarrow> hose_ok s'"
  by (simp add: same_hose_def hose_ok_def region_def)

lemma same_hose_shrinks: "same_hose s' s'' \<Longrightarrow> shrinks s s' \<Longrightarrow> shrinks s s''"
  using same_hose_ok [of s' s''] by (simp add: same_hose_def shrinks_def region_def)

definition settled :: "pfun \<Rightarrow> bool" where
  "settled f \<longleftrightarrow> (\<forall>i < bars_of f. (\<exists>io k. bar io f i k) \<longrightarrow> base f i \<noteq> 0)"

lemma not_mask_inject: "k < 32 \<Longrightarrow> k' < 32 \<Longrightarrow> NOT (mask k :: u32) = NOT (mask k') \<Longrightarrow> k = k'"
proof (rule ccontr)
  assume k: "k < 32" "k' < 32" "NOT (mask k :: u32) = NOT (mask k')" "k \<noteq> k'"
  have "bit (NOT (mask k) :: u32) j = bit (NOT (mask k') :: u32) j" for j using k(3) by simp
  from this [of "min k k'"] show False using k(1,2,4) by (auto simp: bit_simps min_def split: if_splits)
qed

lemma bar_unique: "bar io f i k \<Longrightarrow> bar io' f i k' \<Longrightarrow> io' = io \<and> k' = k"
proof -
  assume b: "bar io f i k" "bar io' f i k'"
  have "k = k'" using b not_mask_inject [of k k'] by (auto simp: bar_def split: if_splits)
  then show ?thesis using b by (auto simp: bar_def split: if_splits)
qed

lemma bar_not_zero: "bar io f i k \<Longrightarrow> pf_mask f (4 + i) \<noteq> 0"
proof -
  assume b: "bar io f i k"
  then have "k < 32" by (auto simp: bar_def split: if_splits)
  then have "bit (NOT (mask k) :: u32) 31" using b by (auto simp: bit_simps bar_def split: if_splits)
  then show ?thesis using b by (auto simp: bar_def)
qed

subsection \<open>Steps\<close>

definition evolves :: "('w \<Rightarrow> pspace) \<Rightarrow> 'w hose \<Rightarrow> 'w hose \<Rightarrow> bool" where
  "evolves space s s' \<longleftrightarrow> shrinks s s' \<and> pci_inv s' (space (pci_world s')) \<and>
     (\<forall>d. space (pci_world s) d = None \<longrightarrow> space (pci_world s') d = None) \<and>
     (\<forall>d f. space (pci_world s) d = Some f \<longrightarrow> (\<exists>f'. space (pci_world s') d = Some f' \<and> same_func f f' \<and> (settled f \<longrightarrow> settled f')))"

lemma evolves_refl: "pci_inv s (space (pci_world s)) \<Longrightarrow> evolves space s s"
  by (simp add: evolves_def shrinks_refl pci_inv_def)

lemma evolves_trans: "evolves space s s' \<Longrightarrow> evolves space s' s'' \<Longrightarrow> evolves space s s''"
  unfolding evolves_def by (meson same_func_trans shrinks_trans)

lemma evolves_func:
  "evolves space s s' \<Longrightarrow> space (pci_world s) d = Some f \<Longrightarrow> \<exists>f'. space (pci_world s') d = Some f' \<and> same_func f f' \<and> (settled f \<longrightarrow> settled f')"
  unfolding evolves_def by blast

lemma evolves_one:
  assumes "shrinks s s'" "pci_inv s' (space (pci_world s'))" "space (pci_world s) d = Some f" "same_func f f'" "settled f \<longrightarrow> settled f'"
    and "space (pci_world s') = (space (pci_world s))(d \<mapsto> f')"
  shows "evolves space s s'"
  using assms by (auto simp: evolves_def)

text \<open>The state while one function is set up, which has \<open>n\<close> base address registers.\<close>

definition reach :: "('w \<Rightarrow> pspace) \<Rightarrow> u32 \<Rightarrow> nat \<Rightarrow> 'w hose \<Rightarrow> 'w hose \<Rightarrow> bool" where
  "reach space d n s s' \<longleftrightarrow> evolves space s s' \<and> current_busno s' = current_busno s \<and>
     (\<exists>f. space (pci_world s') d = Some f \<and> bars_of f = n)"

subsection \<open>One register\<close>

lemma reg_write_ones:
  assumes "bar io f i k" "f1 = reg_write (4 + i) (- 1) (- 1) f"
  shows "pf_reg f1 (4 + i) = (pf_reg f (4 + i) AND mask k) OR NOT (mask k)" "base f1 i = NOT (mask k)"
proof -
  have m: "pf_mask f (4 + i) = NOT (mask k)" using assms(1) by (simp add: bar_def)
  show "pf_reg f1 (4 + i) = (pf_reg f (4 + i) AND mask k) OR NOT (mask k)" using m assms(2) by (simp add: reg_write_def)
  then show "base f1 i = NOT (mask k)" using m assms(2) by (simp add: base_def bit.conj_disj_distrib2 and.assoc) (simp add: reg_write_def m)
qed

lemma reg_write_base:
  assumes "bar io f i k" "a AND mask k = 0"
  shows "base (reg_write (4 + i) (- 1) a f) i = a"
proof -
  have m: "pf_mask f (4 + i) = NOT (mask k)" using assms(1) by (simp add: bar_def)
  have "((r AND mask k) OR (a AND NOT (mask k))) AND NOT (mask k) = a AND NOT (mask k)" for r :: u32
    by (rule bit_word_eqI) (auto simp: bit_simps)
  moreover have "a AND NOT (mask k) = a"
  proof -
    have "a = (a AND mask k) OR (a AND NOT (mask k))" by (rule bit_word_eqI) (auto simp: bit_simps)
    then show ?thesis using assms(2) by simp
  qed
  ultimately show ?thesis by (simp add: base_def reg_write_def m)
qed

lemma bar_request_size:
  assumes "bar io f i k" "resp = (pf_reg f (4 + i) AND mask k) OR NOT (mask k)" "hose_ok s"
  shows "resp \<noteq> 0" "bar_request hw d off resp s = (False, 2 ^ k, Some (if io then 3 else 1), s)"
proof -
  show "resp \<noteq> 0"
  proof -
    have "bit resp 31" using assms(1,2) by (auto simp: bit_simps bar_def split: if_splits)
    then show ?thesis by auto
  qed
  show "bar_request hw d off resp s = (False, 2 ^ k, Some (if io then 3 else 1), s)"
  proof (cases io)
    case True
    then have "resp = 1 OR NOT (mask k)" "2 \<le> k" "k \<le> 16" using assms(1,2) by (simp_all add: bar_def)
    then show ?thesis using True assms(3) sizing_io [of k] by (simp add: bar_request_def hose_ok_def)
  next
    case False
    let ?low = "pf_reg f (4 + i) AND mask k"
    have l: "4 \<le> k" "?low = 0 \<or> ?low = 8" using False assms(1) by (simp_all add: bar_def)
    show ?thesis using False assms(2,3) sizing_mem [OF l] by (simp add: bar_request_def hose_ok_def Let_def)
  qed
qed

context config_space
begin

lemma write_reg:
  assumes b: "bdf_ok d" "first_busno s = 0" and "space (pci_world s) d = Some f" "i < 6"
  shows "space (pci_world (write_config_dword hw d (0x10 + 4 * of_nat i) v s)) = (space (pci_world s))(d \<mapsto> reg_write (4 + i) (- 1) v f)"
    and "fst (read_config_dword hw d (0x10 + 4 * of_nat i) s) = pf_reg f (4 + i)"
proof -
  show "space (pci_world (write_config_dword hw d (0x10 + 4 * of_nat i) v s)) = (space (pci_world s))(d \<mapsto> reg_write (4 + i) (- 1) v f)"
    using wr32 [OF b bar_offset(2,3) [OF assms(4)]] bar_offset(1) [OF assms(4)] assms(3) by (simp add: space_write_def)
  show "fst (read_config_dword hw d (0x10 + 4 * of_nat i) s) = pf_reg f (4 + i)"
    using rd32 [OF b bar_offset(2,3) [OF assms(4)]] bar_offset(1) [OF assms(4)] assms(3) by (simp add: reg_read_def)
qed

lemma bar_step:
  assumes inv: "pci_inv s (space (pci_world s))" and f: "space (pci_world s) d = Some f" and i: "i < n" "n \<le> bars_of f"
  shows "\<exists>c' s' f'. setup_bars hw d n i c s = setup_bars hw d n (i + 1) c' s' \<and> current_busno s' = current_busno s \<and> shrinks s s' \<and>
    space (pci_world s') = (space (pci_world s))(d \<mapsto> f') \<and> same_func f f' \<and> pci_inv s' (space (pci_world s')) \<and>
    (\<forall>j. j \<noteq> 4 + i \<longrightarrow> pf_reg f' j = pf_reg f j) \<and> ((\<exists>io k. bar io f i k) \<longrightarrow> base f' i \<noteq> 0)"
proof -
  have ok: "bdf_ok d" "func_ok f" "hose_ok s" "first_busno s = 0" using inv f by (auto simp: pci_inv_def funcs_fine_def hose_ok_def)
  have i6: "i < 6" "bars_of f \<le> 6" using i by (auto simp: bars_of_def split: if_splits)
  have ones: "(0xFFFFFFFF :: u32) = - 1" by simp
  let ?b = "0x10 + 4 * of_nat i :: u32"
  define s2 where "s2 = snd (read_config_dword hw d ?b (write_config_dword hw d ?b 0xFFFFFFFF s))"
  define resp where "resp = fst (read_config_dword hw d ?b (write_config_dword hw d ?b 0xFFFFFFFF s))"
  define f1 where "f1 = reg_write (4 + i) (- 1) (- 1) f"
  have w1: "space (pci_world (write_config_dword hw d ?b 0xFFFFFFFF s)) = (space (pci_world s))(d \<mapsto> f1)"
    using write_reg(1) [OF ok(1,4) f i6(1), of "0xFFFFFFFF"] unfolding ones by (simp only: f1_def)
  have s2: "same_hose s s2" "space (pci_world s2) = (space (pci_world s))(d \<mapsto> f1)"
    using rd_keeps(1) [of d "write_config_dword hw d ?b 0xFFFFFFFF s" ?b] ok(1,4) w1 by (simp_all add: s2_def same_hose_def)
  have resp: "resp = pf_reg f1 (4 + i)"
    using write_reg(2) [of d "write_config_dword hw d ?b 0xFFFFFFFF s" f1 i] w1 ok(1,4) i6(1) by (simp add: resp_def)
  have same1: "same_func f f1" unfolding f1_def by (rule reg_write_same)
  have reg1: "\<forall>j. j \<noteq> 4 + i \<longrightarrow> pf_reg f1 j = pf_reg f j" by (simp add: f1_def reg_write_def)
  have base1: "base f1 j = base f j" if "j \<noteq> i" for j using that by (simp add: base_def f1_def reg_write_def)
  have sh2: "shrinks s s2" using same_hose_shrinks [OF s2(1) shrinks_refl [OF ok(3)]] .
  have cur: "current_busno s2 = current_busno s" using s2(1) by (simp add: same_hose_def)
  have un: "setup_bars hw d n i c s =
      (if resp = 0 then setup_bars hw d n (i + 1) c s2
       else let (mem64, sz, res, s) = bar_request hw d ?b resp s2
            in case hose_allocate res sz s of
                 None \<Rightarrow> setup_bars hw d n (i + 1) c s
               | Some (value, s) \<Rightarrow>
                   let s = write_config_dword hw d ?b value s;
                       s = (if mem64 then write_config_dword hw d (?b + 4) 0 s else s)
                   in setup_bars hw d n (if mem64 then i + 2 else i + 1) (c OR (if resp AND 1 \<noteq> 0 then 1 else 2)) s)"
    using i(1) by (subst setup_bars.simps) (simp add: Let_def resp_def s2_def split_beta)
  show ?thesis
  proof (cases "\<exists>io k. bar io f i k")
    case False
    have "i < bars_of f" using i by simp
    then have z: "pf_mask f (4 + i) = 0" "pf_reg f (4 + i) = 0" using False ok(2) unfolding func_ok_def by blast+
    then have "resp = 0" by (simp add: resp f1_def reg_write_def)
    moreover have "pci_inv s2 ((space (pci_world s))(d \<mapsto> f1))"
      by (rule inv_step [OF inv sh2 f same1, of 6]) (use base1 z i6(2) in \<open>auto simp: base_def f1_def reg_write_def\<close>)
    ultimately show ?thesis using un s2 sh2 cur same1 reg1 False by (intro exI [of _ c] exI [of _ s2] exI [of _ f1]) simp
  next
    case True
    then obtain io k where b: "bar io f i k" by blast
    have uniq: "io' = io \<and> k' = k" if "bar io' f i k'" for io' k' using bar_unique [OF b that] .
    have r: "resp = (pf_reg f (4 + i) AND mask k) OR NOT (mask k)" "base f1 i = NOT (mask k)"
      using reg_write_ones [OF b f1_def] resp by simp_all
    have ok2: "hose_ok s2" using same_hose_ok [OF s2(1) ok(3)] .
    have reg2: "region io' s2 = region io' s" for io' using s2(1) by (simp add: region_def same_hose_def)
    note req = bar_request_size(1) [OF b r(1) ok2] bar_request_size(2) [OF b r(1) ok2, of hw d ?b]
    have kk: "if io then k \<le> 16 else k \<le> 30" using b by (auto simp: bar_def split: if_splits)
    from allocate_cases [OF ok2 kk refl]
    consider (none) "hose_allocate (Some (if io then 3 else 1)) (2 ^ k) s2 = None" "pciauto_region_allocate (2 ^ k) (region io s2) = None"
      | (some) a rs where "hose_allocate (Some (if io then 3 else 1)) (2 ^ k) s2 = Some (a, s2\<lparr>regions := rs\<rparr>)" "shrinks s2 (s2\<lparr>regions := rs\<rparr>)"
        "in_range a k (bus_lower (region io s2)) (bus_lower (region io (s2\<lparr>regions := rs\<rparr>)))" by (elim disjE exE conjE) (rule that; assumption)+
    then show ?thesis
    proof cases
      case none
      have "pci_inv s2 ((space (pci_world s))(d \<mapsto> f1))"
        by (rule inv_step [OF inv sh2 f same1, of i]) (use base1 r(2) none(2) uniq in auto)
      moreover have "base f1 i \<noteq> 0" using bar_not_zero [OF b] b r(2) by (simp add: bar_def)
      moreover have "setup_bars hw d n i c s = setup_bars hw d n (i + 1) c s2" using un req none(1) by (simp add: Let_def)
      ultimately show ?thesis using s2 sh2 cur same1 reg1 by (intro exI [of _ c] exI [of _ s2] exI [of _ f1]) simp
    next
      case some
      let ?s3 = "s2\<lparr>regions := rs\<rparr>"
      let ?s4 = "write_config_dword hw d ?b a ?s3"
      define f2 where "f2 = reg_write (4 + i) (- 1) a f1"
      have bar1: "bar io f1 i k" using b same_func_bar [OF same1] by simp
      have a: "a AND mask k = 0" "a \<noteq> 0" using some(3) ok2 by (cases io; auto simp: in_range_def hose_ok_def mem_region_def io_region_def word_le_nat_alt)+
      have base2: "base f2 i = a" using reg_write_base [OF bar1 a(1)] by (simp add: f2_def)
      have w: "space (pci_world ?s4) = (space (pci_world s))(d \<mapsto> f2)"
        using write_reg(1) [of d ?s3 f1 i a] ok(1) s2 ok(4) i6(1) by (simp add: same_hose_def f2_def)
      have same2: "same_func f f2" unfolding f2_def by (rule same_func_trans [OF same1 reg_write_same])
      have sm: "same_hose ?s3 ?s4" by (simp add: same_hose_def)
      have sh4: "shrinks s ?s4" by (rule same_hose_shrinks [OF sm shrinks_trans [OF sh2 some(2)]])
      have "region io ?s4 = region io ?s3" by (simp add: region_def)
      then have "pci_inv ?s4 ((space (pci_world s))(d \<mapsto> f2))"
        using some(3) base2 base1 uniq reg2
        by (intro inv_step [OF inv sh4 f same2, of i]) (auto simp: f2_def base_def reg_write_def)
      moreover have "setup_bars hw d n i c s = setup_bars hw d n (i + 1) (c OR (if resp AND 1 \<noteq> 0 then 1 else 2)) ?s4"
        using un req some(1) by (simp add: Let_def)
      moreover have "\<forall>j. j \<noteq> 4 + i \<longrightarrow> pf_reg f2 j = pf_reg f j" using reg1 by (simp add: f2_def reg_write_def)
      ultimately show ?thesis using w sh4 cur same2 base2 a(2)
        by (intro exI [of _ "c OR (if resp AND 1 \<noteq> 0 then 1 else 2)"] exI [of _ ?s4] exI [of _ f2]) simp
    qed
  qed
qed

lemma setup_bars_ok:
  assumes "pci_inv s (space (pci_world s))" "space (pci_world s) d = Some f" "n \<le> bars_of f"
  shows "\<exists>c' s' f'. setup_bars hw d n i c s = (c', s') \<and> current_busno s' = current_busno s \<and> shrinks s s' \<and>
    space (pci_world s') = (space (pci_world s))(d \<mapsto> f') \<and> same_func f f' \<and> pci_inv s' (space (pci_world s')) \<and>
    (\<forall>j. j < i \<or> n \<le> j \<longrightarrow> base f' j = base f j) \<and> (\<forall>j. i \<le> j \<longrightarrow> j < n \<longrightarrow> (\<exists>io k. bar io f j k) \<longrightarrow> base f' j \<noteq> 0)"
  using assms
proof (induction "n - i" arbitrary: i c s f)
  case 0
  then have "setup_bars hw d n i c s = (c, s)" by (subst setup_bars.simps) simp
  then show ?case using 0 by (intro exI [of _ c] exI [of _ s] exI [of _ f]) (auto simp: fun_upd_idem shrinks_refl pci_inv_def)
next
  case (Suc m)
  then have i: "i < n" by simp
  obtain c1 s1 f1 where s1: "setup_bars hw d n i c s = setup_bars hw d n (i + 1) c1 s1" "current_busno s1 = current_busno s" "shrinks s s1"
    "space (pci_world s1) = (space (pci_world s))(d \<mapsto> f1)" "same_func f f1" "pci_inv s1 (space (pci_world s1))"
    "\<forall>j. j \<noteq> 4 + i \<longrightarrow> pf_reg f1 j = pf_reg f j" "(\<exists>io k. bar io f i k) \<longrightarrow> base f1 i \<noteq> 0"
    using bar_step [OF Suc.prems(1,2) i Suc.prems(3), of c] by blast
  have ok: "func_ok f" using Suc.prems(1,2) by (auto simp: pci_inv_def funcs_fine_def)
  have b1: "base f1 j = base f j" if "j \<noteq> i" for j using s1(5,7) that by (simp add: base_def same_func_def)
  have f1: "space (pci_world s1) d = Some f1" "n \<le> bars_of f1" using s1(4) Suc.prems(3) same_func_class [OF s1(5) ok] by simp_all
  have m: "m = n - (i + 1)" using Suc.hyps(2) by simp
  obtain c2 s2 f2 where s2: "setup_bars hw d n (i + 1) c1 s1 = (c2, s2)" "current_busno s2 = current_busno s1" "shrinks s1 s2"
    "space (pci_world s2) = (space (pci_world s1))(d \<mapsto> f2)" "same_func f1 f2" "pci_inv s2 (space (pci_world s2))"
    "\<forall>j. j < i + 1 \<or> n \<le> j \<longrightarrow> base f2 j = base f1 j" "\<forall>j. i + 1 \<le> j \<longrightarrow> j < n \<longrightarrow> (\<exists>io k. bar io f1 j k) \<longrightarrow> base f2 j \<noteq> 0"
    using Suc.hyps(1) [OF m s1(6) f1, of c1] by blast
  have "\<forall>j. j < i \<or> n \<le> j \<longrightarrow> base f2 j = base f j" using s2(7) b1 i by auto
  moreover have "\<forall>j. i \<le> j \<longrightarrow> j < n \<longrightarrow> (\<exists>io k. bar io f j k) \<longrightarrow> base f2 j \<noteq> 0"
  proof (intro allI impI)
    fix j assume j: "i \<le> j" "j < n" "\<exists>io k. bar io f j k"
    show "base f2 j \<noteq> 0"
    proof (cases "j = i")
      case True
      then show ?thesis using s1(8) j(3) s2(7) by simp
    next
      case False
      then show ?thesis using s2(8) j same_func_bar [OF s1(5)] by simp
    qed
  qed
  ultimately show ?case using s1 s2 shrinks_trans [OF s1(3) s2(3)] same_func_trans [OF s1(5) s2(5)]
    by (intro exI [of _ c2] exI [of _ s2] exI [of _ f2]) simp
qed

lemma reach_inv: "reach space d n s s' \<Longrightarrow> pci_inv s' (space (pci_world s')) \<and> bdf_ok d \<and> hose_ok s' \<and> first_busno s' = 0"
  by (auto simp: reach_def evolves_def pci_inv_def funcs_fine_def hose_ok_def)

lemma reach_write:
  assumes r: "reach space d n s s1" and h: "same_hose s1 s2" "space (pci_world s2) = space_write (space (pci_world s1)) d off lanes v"
    and i: "unat (off div 4) < 4 \<or> 4 + n \<le> unat (off div 4)"
  shows "reach space d n s s2"
proof -
  obtain f where f: "space (pci_world s1) d = Some f" "bars_of f = n" using r by (auto simp: reach_def)
  let ?i = "unat (off div 4)" and ?f = "reg_write (unat (off div 4)) lanes v f"
  have ok: "pci_inv s1 (space (pci_world s1))" "func_ok f" using reach_inv [OF r] f(1) by (auto simp: pci_inv_def funcs_fine_def)
  have b: "base ?f j = base f j" if "j < n" for j using i that by (auto simp: base_def reg_write_def)
  have sp: "space (pci_world s2) = (space (pci_world s1))(d \<mapsto> ?f)" using h(2) f(1) by (simp add: space_write_def)
  have sh: "shrinks s1 s2" using same_hose_shrinks [OF h(1) shrinks_refl] reach_inv [OF r] by simp
  have n6: "bars_of f \<le> 6" by (auto simp: bars_of_def)
  have c: "bars_of ?f = n" using same_func_class [OF reg_write_same ok(2)] f(2) by simp
  have "pci_inv s2 (space (pci_world s2))" unfolding sp
    by (rule inv_step [OF ok(1) sh f(1) reg_write_same, of 6]) (use b f(2) n6 in auto)
  moreover have "settled f \<longrightarrow> settled ?f" using b c f(2) same_func_bar [OF reg_write_same] by (auto simp: settled_def)
  ultimately have "evolves space s1 s2" using sh f(1) sp by (intro evolves_one [where f = f and f' = ?f]) (auto intro: reg_write_same)
  then have "evolves space s s2" using r evolves_trans unfolding reach_def by blast
  then show ?thesis using r h(1) sp c by (simp add: reach_def same_hose_def)
qed

lemma same_hose_access:
  "same_hose s (snd (read_config_dword hw d off s))" "same_hose s (snd (read_config_word hw d off s))" "same_hose s (snd (read_config_byte hw d off s))"
  "same_hose s (write_config_dword hw d off v s)" "same_hose s (write_config_word hw d off v16 s)" "same_hose s (write_config_byte hw d off v8 s)"
  by (simp_all add: same_hose_def)

lemma reach_writes:
  assumes "reach space d n s s1" "off < 0x100" "unat (off div 4) < 4 \<or> 4 + n \<le> unat (off div 4)"
  shows "off AND 3 = 0 \<Longrightarrow> reach space d n s (write_config_dword hw d off v s1)"
    and "off AND 1 = 0 \<Longrightarrow> reach space d n s (write_config_word hw d off v16 s1)"
    and "reach space d n s (write_config_byte hw d off v8 s1)"
  using reach_inv [OF assms(1)] assms(2) wr32 [of d s1 off v] wr16 [of d s1 off v16] wr8 [of d s1 off v8]
  by (auto intro!: reach_write [OF assms(1) _ _ assms(3)] same_hose_access)

lemma reach_same:
  assumes "reach space d n s s1" "same_hose s1 s2" "space (pci_world s2) = space (pci_world s1)"
  shows "reach space d n s s2"
proof -
  have i: "pci_inv s1 (space (pci_world s1))" using reach_inv [OF assms(1)] by simp
  have sh: "shrinks s1 s2" using same_hose_shrinks [OF assms(2) shrinks_refl] reach_inv [OF assms(1)] by simp
  have "evolves space s1 s2" using sh inv_hose [OF i sh] assms(3) by (simp add: evolves_def)
  then show ?thesis using assms evolves_trans unfolding reach_def by (auto simp: same_hose_def)
qed

lemma reach_reads:
  assumes "reach space d n s s1"
  shows "reach space d n s (snd (read_config_dword hw d off s1))" "reach space d n s (snd (read_config_word hw d off s1))"
    "reach space d n s (snd (read_config_byte hw d off s1))"
  using reach_inv [OF assms] rd_keeps [of d s1 off] by (auto intro!: reach_same [OF assms] same_hose_access)

lemma reach_refl: "pci_inv s (space (pci_world s)) \<Longrightarrow> space (pci_world s) d = Some f \<Longrightarrow> bars_of f = n \<Longrightarrow> reach space d n s s"
  by (simp add: reach_def evolves_refl)

lemma reach_align:
  assumes r: "reach space d n s s1" and res: "res = Some 1 \<and> sz = 0x100000 \<or> res = Some 3 \<and> sz = 0x1000"
    and f: "\<And>l s2. reach space d n s s2 \<Longrightarrow> reach space d n s (f l s2)"
  shows "reach space d n s (align_region res sz f s1)"
proof -
  obtain i where i: "res = Some i" "i = 1 \<and> sz = 0x100000 \<or> i = 3 \<and> sz = 0x1000" using res by blast
  let ?s = "s1\<lparr>regions := (regions s1)[i := pciauto_region_align sz (regions s1 ! i)]\<rparr>"
  have ok: "hose_ok s1" "pci_inv s1 (space (pci_world s1))" using reach_inv [OF r] by simp_all
  have len: "length (regions s1) = 5" using ok(1) by (simp add: hose_ok_def)
  have g: "region True ?s = (if i = 3 then pciauto_region_align sz (region True s1) else region True s1)"
    "region False ?s = (if i = 1 then pciauto_region_align sz (region False s1) else region False s1)"
    using i(2) len by (auto simp: region_def)
  have ok2: "hose_ok ?s" using ok(1) g i(2) align_regions by (auto simp: hose_ok_def)
  moreover have "bus_lower (region io s1) \<le> bus_lower (region io ?s)" for io
    using ok(1) g i(2) align_regions [of "region io s1"] by (cases io) (auto simp: hose_ok_def)
  ultimately have sh: "shrinks s1 ?s" by (simp add: shrinks_def)
  have "evolves space s1 ?s" using sh inv_hose [OF ok(2) sh] by (simp add: evolves_def)
  then have "reach space d n s ?s" using r evolves_trans unfolding reach_def by auto
  from f [OF this] show ?thesis by (simp add: align_region_def i(1) Let_def)
qed

lemma setup_device_reach:
  assumes r: "reach space d n s0 s"
  shows "reach space d n s0 (pciauto_setup_device hw d n s)"
    and "\<exists>f. space (pci_world (pciauto_setup_device hw d n s)) d = Some f \<and> settled f"
proof -
  let ?s1 = "snd (read_config_dword hw d PCI_COMMAND s)"
  let ?c = "(fst (read_config_dword hw d PCI_COMMAND s) AND NOT 3) OR 4"
  have r1: "reach space d n s0 ?s1" by (rule reach_reads(1) [OF r])
  obtain f1 where f1: "space (pci_world ?s1) d = Some f1" "bars_of f1 = n" using r1 by (auto simp: reach_def)
  have inv1: "pci_inv ?s1 (space (pci_world ?s1))" using reach_inv [OF r1] by simp
  have ok1: "func_ok f1" using inv1 f1(1) by (auto simp: pci_inv_def funcs_fine_def)
  obtain c2 s2 f2 where s2: "setup_bars hw d n 0 ?c ?s1 = (c2, s2)" "current_busno s2 = current_busno ?s1" "shrinks ?s1 s2"
    "space (pci_world s2) = (space (pci_world ?s1))(d \<mapsto> f2)" "same_func f1 f2" "pci_inv s2 (space (pci_world s2))"
    "\<forall>j. j < n \<longrightarrow> (\<exists>io k. bar io f1 j k) \<longrightarrow> base f2 j \<noteq> 0"
    using setup_bars_ok [OF inv1 f1(1), of n 0 ?c] f1(2) by auto
  have b2: "bars_of f2 = n" using same_func_class [OF s2(5) ok1] f1(2) by simp
  have set2: "settled f2" using s2(7) b2 same_func_bar [OF s2(5)] by (simp add: settled_def)
  have "evolves space ?s1 s2" by (rule evolves_one [OF s2(3,6) f1(1) s2(5) _ s2(4)]) (simp add: set2)
  then have r2: "reach space d n s0 s2" using r1 evolves_trans s2(2,4) b2 unfolding reach_def by auto
  let ?w = "\<lambda>s. write_config_byte hw d PCI_LATENCY_TIMER 0x80 (write_config_byte hw d PCI_CACHE_LINE_SIZE 8 (write_config_dword hw d PCI_COMMAND c2 s))"
  have w: "reach space d n t (?w s2)" if "reach space d n t s2" for t
    by (intro reach_writes that) simp_all
  have e: "pciauto_setup_device hw d n s = ?w s2" using s2(1) by (simp add: pciauto_setup_device_def split_beta Let_def)
  show "reach space d n s0 (pciauto_setup_device hw d n s)" unfolding e by (rule w [OF r2])
  have "reach space d n s2 (?w s2)" by (rule w) (use s2(4,6) b2 in \<open>simp add: reach_def evolves_refl\<close>)
  then show "\<exists>f. space (pci_world (pciauto_setup_device hw d n s)) d = Some f \<and> settled f"
    unfolding e using evolves_func [of space s2 "?w s2" d f2] s2(4) set2 by (auto simp: reach_def)
qed

lemma prescan_reach: "reach space d 2 s0 s \<Longrightarrow> reach space d 2 s0 (pciauto_prescan_setup_bridge hw d b s)"
proof -
  assume r: "reach space d 2 s0 s"
  have regs: "pci_mem s = Some 1" "pci_io s = Some 3" "pci_prefetch s = None" using reach_inv [OF r] by (simp_all add: hose_ok_def)
  have f: "pci_mem (align_region res sz g t) = pci_mem t \<and> pci_io (align_region res sz g t) = pci_io t \<and> pci_prefetch (align_region res sz g t) = pci_prefetch t"
    if "\<And>l t. pci_mem (g l t) = pci_mem t \<and> pci_io (g l t) = pci_io t \<and> pci_prefetch (g l t) = pci_prefetch t" for res sz and g :: "u32 \<Rightarrow> 'w hose \<Rightarrow> 'w hose" and t
    using that by (simp add: align_region_def Let_def split: option.splits)
  show ?thesis
    unfolding pciauto_prescan_setup_bridge_def Let_def split_beta
    by (simp add: f regs) (intro reach_writes reach_align reach_reads r; simp)
qed

lemma postscan_reach: "reach space d 2 s0 s \<Longrightarrow> reach space d 2 s0 (pciauto_postscan_setup_bridge hw d b s)"
proof -
  assume r: "reach space d 2 s0 s"
  have regs: "pci_mem s = Some 1" "pci_io s = Some 3" "pci_prefetch s = None" using reach_inv [OF r] by (simp_all add: hose_ok_def)
  have f: "pci_mem (align_region res sz g t) = pci_mem t \<and> pci_io (align_region res sz g t) = pci_io t \<and> pci_prefetch (align_region res sz g t) = pci_prefetch t"
    if "\<And>l t. pci_mem (g l t) = pci_mem t \<and> pci_io (g l t) = pci_io t \<and> pci_prefetch (g l t) = pci_prefetch t" for res sz and g :: "u32 \<Rightarrow> 'w hose \<Rightarrow> 'w hose" and t
    using that by (simp add: align_region_def Let_def split: option.splits)
  have none: "align_region None sz g t = t" for sz and g :: "u32 \<Rightarrow> 'w hose \<Rightarrow> 'w hose" and t by (simp add: align_region_def)
  show ?thesis
    unfolding pciauto_postscan_setup_bridge_def Let_def
    by (simp add: f regs none) (intro reach_writes reach_align r; simp)
qed

end

subsection \<open>Functions that the scan finds\<close>

definition valid_vendor :: "pfun \<Rightarrow> bool" where
  "valid_vendor f \<longleftrightarrow> (ucast (pf_reg f 0) :: u16) \<noteq> 0xFFFF \<and> (ucast (pf_reg f 0) :: u16) \<noteq> 0"

definition multi :: "pspace \<Rightarrow> u32 \<Rightarrow> bool" where
  "multi sp d \<longleftrightarrow> d \<noteq> 0 \<and> (\<exists>f. sp d = Some f \<and> valid_vendor f \<and> pf_reg f 3 AND 0x800000 \<noteq> 0)"

definition func_at :: "u32 \<Rightarrow> nat \<Rightarrow> u32" where
  "func_at b k = PCI_BDF b 0 0 + 0x100 * of_nat k"

text \<open>A function that the scan configures: not the host bridge, an IDE controller in legacy mode or the last function of a bus.\<close>

definition due :: "pspace \<Rightarrow> u32 \<Rightarrow> nat \<Rightarrow> bool" where
  "due sp b k \<longleftrightarrow> k < 255 \<and> func_at b k \<noteq> 0 \<and> (k mod 8 = 0 \<or> multi sp (func_at b (k - k mod 8))) \<and>
     (\<exists>f. sp (func_at b k) = Some f \<and> valid_vendor f \<and> \<not> (func_class f = 0x0101 \<and> (ucast (drop_bit 8 (pf_reg f 2)) :: byte) AND 5 = 0))"

definition is_bridge :: "pspace \<Rightarrow> u32 \<Rightarrow> bool" where
  "is_bridge sp d \<longleftrightarrow> (\<exists>f. sp d = Some f \<and> func_class f = 0x0604)"

definition no_cardbus :: "pspace \<Rightarrow> bool" where
  "no_cardbus sp \<longleftrightarrow> (\<forall>d f. sp d = Some f \<longrightarrow> func_class f \<noteq> 0x0607)"

definition bridges_on :: "pspace \<Rightarrow> nat \<Rightarrow> nat" where
  "bridges_on sp b = length (filter (is_bridge sp) (bus_functions (of_nat b)))"

definition bus_bound :: "pspace \<Rightarrow> nat \<Rightarrow> nat" where
  "bus_bound sp c = c + (\<Sum>b = Suc c..255. bridges_on sp b)"

definition static_eq :: "pspace \<Rightarrow> pspace \<Rightarrow> bool" where
  "static_eq sp sp' \<longleftrightarrow> (\<forall>d. sp d = None \<longrightarrow> sp' d = None) \<and> (\<forall>d f. sp d = Some f \<longrightarrow> func_ok f \<and> (\<exists>f'. sp' d = Some f' \<and> same_func f f'))"

lemma not_and_disjoint: "x AND c = 0 \<Longrightarrow> NOT x AND c = (c :: u32)"
proof (rule bit_word_eqI)
  fix n assume x: "x AND c = 0" "n < LENGTH(32)"
  have "\<not> bit (x AND c) n" unfolding x(1) by simp
  then show "bit (NOT x AND c) n = bit c n" using x(2) by (auto simp: bit_simps)
qed

lemma static_eq_parts:
  assumes "static_eq sp sp'"
  shows "due sp' b k = due sp b k" "is_bridge sp' d = is_bridge sp d" "no_cardbus sp' = no_cardbus sp" "bridges_on sp' c = bridges_on sp c"
    "bus_bound sp' c = bus_bound sp c" "multi sp' d = multi sp d"
proof -
  have n: "sp' e = None \<longleftrightarrow> sp e = None" for e
    using assms unfolding static_eq_def by (metis not_None_eq)
  have f: "\<exists>f'. sp' e = Some f' \<and> func_class f' = func_class f \<and> pf_reg f' 0 = pf_reg f 0 \<and> pf_reg f' 2 = pf_reg f 2 \<and>
      pf_reg f' 3 AND 0x800000 = pf_reg f 3 AND 0x800000" if sp: "sp e = Some f" for e f
  proof -
    obtain f' where f': "sp' e = Some f'" "same_func f f'" "func_ok f" using assms sp unfolding static_eq_def by blast
    have ro: "pf_reg f' 3 AND NOT (pf_mask f 3) = pf_reg f 3 AND NOT (pf_mask f 3)" using f'(2) by (simp add: same_func_def)
    have m: "NOT (pf_mask f 3) AND 0x800000 = 0x800000"
    proof -
      have z: "pf_mask f 3 AND 0xFF0000 = 0" using f'(3) by (simp add: func_ok_def)
      have "pf_mask f 3 AND 0x800000 = (pf_mask f 3 AND 0xFF0000) AND 0x800000" by (simp add: and.assoc)
      then have "pf_mask f 3 AND 0x800000 = 0" using z by simp
      then show ?thesis by (rule not_and_disjoint)
    qed
    have "pf_reg f' 3 AND 0x800000 = (pf_reg f' 3 AND NOT (pf_mask f 3)) AND 0x800000" by (simp only: and.assoc m)
    also have "\<dots> = pf_reg f 3 AND 0x800000" unfolding ro by (simp only: and.assoc m)
    finally show ?thesis using f' same_func_class [OF f'(2,3)] same_func_reg [OF f'(2)] by (simp add: func_ok_def)
  qed
  have g: "(\<exists>f. sp' e = Some f \<and> P (func_class f) (pf_reg f 0) (pf_reg f 2) (pf_reg f 3 AND 0x800000)) \<longleftrightarrow>
      (\<exists>f. sp e = Some f \<and> P (func_class f) (pf_reg f 0) (pf_reg f 2) (pf_reg f 3 AND 0x800000))" for e P
    using f [of e] n [of e] by (cases "sp e") force+
  show mu: "multi sp' d = multi sp d" for d using g [of d "\<lambda>c v q h. (ucast v :: u16) \<noteq> 0xFFFF \<and> (ucast v :: u16) \<noteq> 0 \<and> h \<noteq> 0"]
    by (simp add: multi_def valid_vendor_def conj_assoc)
  show "due sp' b k = due sp b k"
    using g [of "func_at b k" "\<lambda>c v q h. (ucast v :: u16) \<noteq> 0xFFFF \<and> (ucast v :: u16) \<noteq> 0 \<and> \<not> (c = 0x0101 \<and> (ucast (drop_bit 8 q) :: byte) AND 5 = 0)"]
    by (simp add: due_def mu valid_vendor_def conj_assoc)
  show br: "is_bridge sp' d = is_bridge sp d" for d using g [of d "\<lambda>c v q h. c = 0x0604"] by (simp add: is_bridge_def)
  show "no_cardbus sp' = no_cardbus sp" using g [of _ "\<lambda>c v q h. c = 0x0607"] unfolding no_cardbus_def by blast
  have "is_bridge sp' = is_bridge sp" using br by blast
  then show bo: "bridges_on sp' c = bridges_on sp c" for c by (simp add: bridges_on_def)
  show "bus_bound sp' c = bus_bound sp c" by (simp add: bus_bound_def bo)
qed

lemma evolves_static: "pci_inv s (space (pci_world s)) \<Longrightarrow> evolves space s s' \<Longrightarrow> static_eq (space (pci_world s)) (space (pci_world s'))"
  unfolding static_eq_def evolves_def pci_inv_def funcs_fine_def by blast

subsection \<open>Addresses of functions\<close>

lemma bus_functions_at: "bus_functions b = map (func_at b) [0..<255]"
  by (simp add: bus_functions_def func_at_def)

lemma func_at_val: "unat b \<le> 255 \<Longrightarrow> k < 256 \<Longrightarrow> unat (func_at b k) = 65536 * unat b + 256 * k"
proof -
  assume b: "unat b \<le> 255" "k < 256"
  have "PCI_BDF b 0 0 = of_nat (65536 * unat b)" by (simp add: PCI_BDF_def push_bit_eq_mult mult.commute)
  then have "func_at b k = of_nat (65536 * unat b + 256 * k)" by (simp add: func_at_def)
  then show ?thesis using b by (simp add: unsigned_of_nat take_bit_nat_eq_self_iff del: of_nat_add of_nat_mult)
qed

lemma func_at_parts:
  assumes b: "unat b \<le> 255" "k < 256"
  shows "bdf_ok (func_at b k)" "PCI_FUNC (func_at b k) = 0 \<longleftrightarrow> k mod 8 = 0" "func_at b k = 0 \<longleftrightarrow> b = 0 \<and> k = 0"
proof -
  note v = func_at_val [OF b]
  define m where "m = 256 * unat b + k"
  have m: "m < 65536" using b by (simp add: m_def)
  have "func_at b k = of_nat (unat (func_at b k))" by simp
  also have "unat (func_at b k) = 256 * m" using v by (simp add: m_def)
  finally have d: "func_at b k = push_bit 8 (of_nat m)" by (simp add: push_bit_eq_mult mult.commute)
  show "func_at b k = 0 \<longleftrightarrow> b = 0 \<and> k = 0"
  proof -
    have "func_at b k = 0 \<longleftrightarrow> unat (func_at b k) = 0" by (simp only: unat_eq_zero)
    also have "\<dots> \<longleftrightarrow> unat b = 0 \<and> k = 0" unfolding v by simp
    finally show ?thesis by (simp only: unat_eq_zero)
  qed
  have m16: "j < 16" if "bit m j" for j
  proof (rule ccontr)
    assume "\<not> j < 16"
    then have "(65536 :: nat) \<le> 2 ^ j" using power_increasing [of 16 j "2 :: nat"] by simp
    then show False using m that by (simp add: bit_iff_odd)
  qed
  have m24: "j < 24" if "bit m j" for j using m16 [OF that] by simp
  have ff: "(0xFFFF00 :: u32) = push_bit 8 (mask 16)" by (simp add: mask_eq_exp_minus_1)
  show "bdf_ok (func_at b k)" unfolding bdf_ok_def d ff
    by (rule bit_word_eqI) (use m16 in \<open>auto simp: bit_simps simp del: push_bit_mask_eq\<close>)
  have "PCI_FUNC (func_at b k) = of_nat m AND mask 3"
    unfolding PCI_FUNC_def d by (rule bit_word_eqI) (use m24 in \<open>auto simp: bit_simps mask_eq_exp_minus_1\<close>)
  then have "PCI_FUNC (func_at b k) = 0 \<longleftrightarrow> unat (of_nat m :: u32) mod 8 = 0" by (simp only: aligned_mod) simp
  also have "unat (of_nat m :: u32) = m" using m by (simp add: unsigned_of_nat take_bit_nat_eq_self_iff)
  also have "m mod 8 = 0 \<longleftrightarrow> k mod 8 = 0" unfolding m_def by presburger
  finally show "PCI_FUNC (func_at b k) = 0 \<longleftrightarrow> k mod 8 = 0" .
qed

subsection \<open>Progress of the scan\<close>

text \<open>The functions of \<open>S\<close> and of the buses numbered meanwhile are set up; at most \<open>n\<close> bridges outside of these buses were passed.\<close>

definition progress :: "('w \<Rightarrow> pspace) \<Rightarrow> (u32 \<times> nat) set \<Rightarrow> nat \<Rightarrow> 'w hose \<Rightarrow> 'w hose \<Rightarrow> bool" where
  "progress space S n s s' \<longleftrightarrow> evolves space s s' \<and> unat (current_busno s) \<le> unat (current_busno s') \<and>
     bus_bound (space (pci_world s)) (unat (current_busno s')) \<le> bus_bound (space (pci_world s)) (unat (current_busno s)) + n \<and>
     (\<forall>b k. (b, k) \<in> S \<or> unat (current_busno s) < unat b \<and> unat b \<le> unat (current_busno s') \<longrightarrow>
        due (space (pci_world s)) b k \<longrightarrow> (\<exists>f. space (pci_world s') (func_at b k) = Some f \<and> settled f))"

lemma progress_trans:
  assumes inv: "pci_inv s (space (pci_world s))" and 1: "progress space S n s s1" and 2: "progress space T m s1 s2"
  shows "progress space (S \<union> T) (n + m) s s2"
proof -
  have e: "evolves space s s1" "evolves space s1 s2" using 1 2 by (simp_all add: progress_def)
  note st = static_eq_parts [OF evolves_static [OF inv e(1)]]
  have "\<exists>f. space (pci_world s2) (func_at b k) = Some f \<and> settled f"
    if bk: "(b, k) \<in> S \<union> T \<or> unat (current_busno s) < unat b \<and> unat b \<le> unat (current_busno s2)" "due (space (pci_world s)) b k" for b k
  proof (cases "(b, k) \<in> S \<or> unat (current_busno s) < unat b \<and> unat b \<le> unat (current_busno s1)")
    case True
    then obtain f where "space (pci_world s1) (func_at b k) = Some f" "settled f" using 1 bk(2) unfolding progress_def by blast
    then show ?thesis using evolves_func [OF e(2)] by blast
  next
    case False
    then have "(b, k) \<in> T \<or> unat (current_busno s1) < unat b \<and> unat b \<le> unat (current_busno s2)" using bk(1) by auto
    moreover have "due (space (pci_world s1)) b k" using bk(2) st(1) by simp
    ultimately show ?thesis using 2 unfolding progress_def by blast
  qed
  moreover have "bus_bound (space (pci_world s)) (unat (current_busno s2)) \<le> bus_bound (space (pci_world s)) (unat (current_busno s)) + (n + m)"
    using 1 2 st(5) by (simp add: progress_def)
  ultimately show ?thesis using 1 2 evolves_trans [OF e] unfolding progress_def by auto
qed

lemma progress_mono: "progress space S n s s' \<Longrightarrow> n \<le> m \<Longrightarrow> (\<And>b k. (b, k) \<in> T \<Longrightarrow> due (space (pci_world s)) b k \<Longrightarrow> (b, k) \<in> S) \<Longrightarrow> progress space T m s s'"
  unfolding progress_def by (meson add_left_mono le_trans)

lemma progress_reach:
  assumes "reach space d n s s'"
  shows "progress space {} 0 s s'"
  using assms by (auto simp: reach_def progress_def)

lemma bus_bound_Suc: "c < 255 \<Longrightarrow> bus_bound sp (Suc c) + bridges_on sp (Suc c) = bus_bound sp c + 1"
  by (simp add: bus_bound_def sum.atLeast_Suc_atMost [of "Suc c" 255])

lemma bus_bound_le: "c \<le> bus_bound sp c"
  by (simp add: bus_bound_def)

text \<open>What a scan of a bus does, with a number from \<open>lo\<close> on.\<close>

definition scan_ok :: "('w \<Rightarrow> pspace) \<Rightarrow> (u32 \<Rightarrow> 'w hose \<Rightarrow> (u32 \<times> 'w hose) option) \<Rightarrow> nat \<Rightarrow> bool" where
  "scan_ok space scan lo \<longleftrightarrow> (\<forall>s. lo \<le> unat (current_busno s) \<longrightarrow> pci_inv s (space (pci_world s)) \<longrightarrow> no_cardbus (space (pci_world s)) \<longrightarrow>
     bus_bound (space (pci_world s)) (unat (current_busno s)) + bridges_on (space (pci_world s)) (unat (current_busno s)) \<le> 255 \<longrightarrow>
     (\<exists>n s'. scan (current_busno s) s = Some (n, s') \<and>
        progress space ({current_busno s} \<times> UNIV) (bridges_on (space (pci_world s)) (unat (current_busno s))) s s'))"

lemma scan_okD:
  "scan_ok space scan lo \<Longrightarrow> lo \<le> unat (current_busno s) \<Longrightarrow> pci_inv s (space (pci_world s)) \<Longrightarrow> no_cardbus (space (pci_world s)) \<Longrightarrow>
     bus_bound (space (pci_world s)) (unat (current_busno s)) + bridges_on (space (pci_world s)) (unat (current_busno s)) \<le> 255 \<Longrightarrow>
     \<exists>n s'. scan (current_busno s) s = Some (n, s') \<and>
        progress space ({current_busno s} \<times> UNIV) (bridges_on (space (pci_world s)) (unat (current_busno s))) s s'"
  unfolding scan_ok_def by blast

context config_space
begin

lemma read_ids:
  assumes "bdf_ok d" "first_busno s = 0" "space (pci_world s) d = Some f"
  shows "fst (read_config_word hw d PCI_CLASS_DEVICE s) = func_class f" "fst (read_config_word hw d 0 s) = ucast (pf_reg f 0)"
    "fst (read_config_byte hw d PCI_CLASS_PROG s) = ucast (drop_bit 8 (pf_reg f 2))"
    "fst (read_config_byte hw d PCI_HEADER_TYPE s) = ucast (drop_bit 16 (pf_reg f 3))"
  using rd16 [OF assms(1,2), of "0xA"] rd16 [OF assms(1,2), of 0] rd8 [OF assms(1,2), of 9] rd8 [OF assms(1,2), of "0xE"] assms(3)
  by (simp_all add: reg_read_def func_class_def)

lemma evolves_current: "pci_inv s (space (pci_world s)) \<Longrightarrow> evolves space s (s\<lparr>current_busno := c\<rparr>)"
proof -
  assume i: "pci_inv s (space (pci_world s))"
  have "shrinks s (s\<lparr>current_busno := c\<rparr>)" using i by (simp add: pci_inv_def shrinks_def hose_ok_def region_def)
  then show ?thesis using inv_hose [OF i] by (simp add: evolves_def)
qed

lemma progress_settled:
  assumes "reach space d n s s'" "\<exists>f. space (pci_world s') d = Some f \<and> settled f" "d = func_at b k"
  shows "progress space {(b, k)} 0 s s'"
  using assms by (auto simp: reach_def progress_def)

lemma config_device_ok:
  assumes inv: "pci_inv s (space (pci_world s))" and nc: "no_cardbus (space (pci_world s))" and f: "space (pci_world s) d = Some f" "d = func_at b k"
    and scan: "scan_ok space scan lo" "lo \<le> Suc (unat (current_busno s))"
    and bound: "is_bridge (space (pci_world s)) d \<longrightarrow> bus_bound (space (pci_world s)) (unat (current_busno s)) + 1 \<le> 255"
  shows "\<exists>n s'. pciauto_config_device scan hw d s = Some (n, s') \<and>
    progress space {(b, k)} (if is_bridge (space (pci_world s)) d then 1 else 0) s s'"
proof -
  have ok: "bdf_ok d" "first_busno s = 0" "func_ok f" using inv f by (auto simp: pci_inv_def funcs_fine_def hose_ok_def)
  have c7: "func_class f \<noteq> 0x0607" using nc f(1) by (auto simp: no_cardbus_def)
  have br: "is_bridge (space (pci_world s)) d \<longleftrightarrow> func_class f = 0x0604" using f(1) by (simp add: is_bridge_def)
  let ?s1 = "snd (read_config_word hw d PCI_CLASS_DEVICE s)"
  have r0: "reach space d (bars_of f) s s" by (rule reach_refl [OF inv f(1) refl])
  have r1: "reach space d (bars_of f) s ?s1" by (rule reach_reads(2) [OF r0])
  have sp1: "space (pci_world ?s1) = space (pci_world s)" using rd_keeps(2) [OF ok(1,2)] by simp
  have cls: "fst (read_config_word hw d PCI_CLASS_DEVICE s) = func_class f" by (rule read_ids(1) [OF ok(1,2) f(1)])
  show ?thesis
  proof (cases "func_class f = 0x0604")
    case bridge: True
    then have b2: "bars_of f = 2" by (simp add: bars_of_def)
    let ?s2 = "?s1\<lparr>current_busno := current_busno ?s1 + 1\<rparr>"
    let ?s3 = "pciauto_setup_device hw d 2 ?s2"
    let ?s4 = "pciauto_prescan_setup_bridge hw d (current_busno ?s3) ?s3"
    have inv1: "pci_inv ?s1 (space (pci_world ?s1))" using reach_inv [OF r1] by simp
    have e2: "evolves space ?s1 ?s2" by (rule evolves_current [OF inv1])
    have inv2: "pci_inv ?s2 (space (pci_world ?s2))" using e2 by (simp add: evolves_def)
    have r2: "reach space d 2 ?s2 ?s2" using reach_refl [OF inv2, of d f 2] sp1 f(1) b2 by simp
    have r3: "reach space d 2 ?s2 ?s3" by (rule setup_device_reach(1) [OF r2])
    have r4: "reach space d 2 ?s2 ?s4" by (rule prescan_reach [OF r3])
    have inv3: "pci_inv ?s3 (space (pci_world ?s3))" using reach_inv [OF r3] by simp
    have r34: "reach space d 2 ?s3 ?s4"
    proof (rule prescan_reach)
      show "reach space d 2 ?s3 ?s3" using r3 inv3 by (simp add: reach_def evolves_refl)
    qed
    have e4: "evolves space s ?s4" using evolves_trans [OF _ evolves_trans [OF e2]] r1 r4 unfolding reach_def by blast
    have inv4: "pci_inv ?s4 (space (pci_world ?s4))" using reach_inv [OF r4] by simp
    let ?sp = "space (pci_world s)" and ?c = "unat (current_busno s)"
    note st = static_eq_parts [OF evolves_static [OF inv e4]]
    have c255: "?c < 255" using bound bus_bound_le [of ?c ?sp] bridge br by simp
    then have cc: "unat (current_busno s + 1) = Suc ?c" using unat_add_lem [of "current_busno s" 1] by simp
    have cur4: "current_busno ?s3 = current_busno s + 1" "current_busno ?s4 = current_busno s + 1" using r3 r4 by (simp_all add: reach_def)
    have "bus_bound ?sp (Suc ?c) + bridges_on ?sp (Suc ?c) \<le> 255" using bus_bound_Suc [OF c255, of ?sp] bound bridge br by simp
    then have pre: "lo \<le> unat (current_busno ?s4)" "no_cardbus (space (pci_world ?s4))"
      "bus_bound (space (pci_world ?s4)) (unat (current_busno ?s4)) + bridges_on (space (pci_world ?s4)) (unat (current_busno ?s4)) \<le> 255"
      using scan(2) nc by (simp_all only: cur4(2) cc st)
    have "\<exists>n s'. scan (current_busno ?s4) ?s4 = Some (n, s') \<and>
        progress space ({current_busno ?s4} \<times> UNIV) (bridges_on (space (pci_world ?s4)) (unat (current_busno ?s4))) ?s4 s'"
      by (rule scan_okD [OF scan(1) pre(1) inv4 pre(2,3)])
    then obtain n s5 where s5: "scan (current_busno s + 1) ?s4 = Some (n, s5)"
      "progress space ({current_busno s + 1} \<times> UNIV) (bridges_on ?sp (Suc ?c)) ?s4 s5" unfolding cur4(2) cc st by blast
    let ?s6 = "pciauto_postscan_setup_bridge hw d (max n (PCI_BUS d)) s5"
    have e45: "evolves space ?s4 s5" using s5(2) by (simp add: progress_def)
    have inv5: "pci_inv s5 (space (pci_world s5))" using e45 by (simp add: evolves_def)
    obtain f4 where f4: "space (pci_world ?s4) d = Some f4" "bars_of f4 = 2" using r4 unfolding reach_def by blast
    have ok4: "func_ok f4" using inv4 f4(1) unfolding pci_inv_def funcs_fine_def by blast
    obtain f5 where f5: "space (pci_world s5) d = Some f5" "same_func f4 f5" using evolves_func [OF e45 f4(1)] by blast
    have "bars_of f5 = 2" using same_func_class [OF f5(2) ok4] f4(2) by simp
    then have r6: "reach space d 2 s5 ?s6" by (intro postscan_reach reach_refl [OF inv5 f5(1)])
    have e56: "evolves space s5 ?s6" "current_busno ?s6 = current_busno s5" using r6 by (simp_all add: reach_def)
    have e46: "evolves space ?s4 ?s6" by (rule evolves_trans [OF e45 e56(1)])
    have own: "\<exists>g. space (pci_world ?s6) d = Some g \<and> settled g"
    proof -
      obtain g where "space (pci_world ?s3) d = Some g" "settled g" using setup_device_reach(2) [OF r2] by blast
      then obtain h where "space (pci_world ?s4) d = Some h" "settled h" using r34 evolves_func unfolding reach_def by blast
      then show ?thesis using evolves_func [OF e46] by blast
    qed
    have nested: "\<exists>g. space (pci_world ?s6) (func_at b' k') = Some g \<and> settled g"
      if bk: "?c < unat b'" "unat b' \<le> unat (current_busno ?s6)" "due ?sp b' k'" for b' k'
    proof -
      have "b' = current_busno s + 1 \<or> Suc ?c < unat b'" using bk(1) cc by (auto simp: word_unat_eq_iff)
      then have "(b', k') \<in> {current_busno s + 1} \<times> UNIV \<or> unat (current_busno ?s4) < unat b' \<and> unat b' \<le> unat (current_busno s5)"
        using bk(2) cur4(2) cc e56(2) by auto
      moreover have "due (space (pci_world ?s4)) b' k'" using bk(3) st(1) by simp
      ultimately obtain g where "space (pci_world s5) (func_at b' k') = Some g" "settled g" using s5(2) unfolding progress_def by blast
      then show ?thesis using evolves_func [OF e56(1)] by blast
    qed
    have le: "Suc ?c \<le> unat (current_busno ?s6)" using s5(2) cur4(2) cc e56(2) by (simp add: progress_def)
    have bb: "bus_bound ?sp (unat (current_busno ?s6)) \<le> bus_bound ?sp ?c + 1"
      using s5(2) bus_bound_Suc [OF c255, of ?sp] cur4(2) cc st(5) e56(2) by (simp add: progress_def)
    have p: "progress space {(b, k)} 1 s ?s6"
      unfolding progress_def using evolves_trans [OF e4 e46] le bb own nested f(2) by auto
    have "pciauto_config_device scan hw d s = Some (current_busno ?s6, ?s6)"
      using cls bridge s5(1) cur4 by (simp add: pciauto_config_device_def split_beta Let_def)
    then show ?thesis using p br bridge by auto
  next
    case no: False
    have b6: "bars_of f = 6" using no c7 by (simp add: bars_of_def)
    show ?thesis
    proof (cases "func_class f = 0x0101")
      case True
      let ?s2 = "snd (read_config_byte hw d PCI_CLASS_PROG ?s1)"
      have r2: "reach space d 6 s ?s2" using reach_reads(3) [OF r1] b6 by simp
      have prog: "fst (read_config_byte hw d PCI_CLASS_PROG ?s1) = ucast (drop_bit 8 (pf_reg f 2))"
        using read_ids(3) [OF ok(1), of ?s1 f] ok(2) sp1 f(1) by simp
      show ?thesis
      proof (cases "(ucast (drop_bit 8 (pf_reg f 2)) :: byte) AND 5 = 0")
        case legacy: True
        have "\<not> due (space (pci_world s)) b k" using f True legacy by (auto simp: due_def)
        then have "progress space {(b, k)} 0 s ?s2" using progress_mono [OF progress_reach [OF r2], of 0 "{(b, k)}"] by auto
        then show ?thesis using cls True prog legacy no br by (simp add: pciauto_config_device_def split_beta Let_def)
      next
        case False
        have "progress space {(b, k)} 0 s (pciauto_setup_device hw d 6 ?s2)"
          by (rule progress_settled [OF setup_device_reach [OF r2] f(2)])
        then show ?thesis using cls True prog False no br by (simp add: pciauto_config_device_def split_beta Let_def)
      qed
    next
      case False
      have r1': "reach space d 6 s ?s1" using r1 b6 by simp
      have "progress space {(b, k)} 0 s (pciauto_setup_device hw d 6 ?s1)"
        by (rule progress_settled [OF setup_device_reach [OF r1'] f(2)])
      then show ?thesis using cls False c7 no br by (simp add: pciauto_config_device_def split_beta Let_def)
    qed
  qed
qed

lemma header_bit: "(ucast (drop_bit 16 r) :: byte) AND 0x80 \<noteq> 0 \<longleftrightarrow> (r :: u32) AND 0x800000 \<noteq> 0"
proof -
  have m: "(0x80 :: byte) = 2 ^ 7" "(0x800000 :: u32) = 2 ^ 23" by simp_all
  show ?thesis unfolding m and_exp_eq_0_iff_not_bit by (simp add: bit_simps)
qed

lemma sibling_Suc: "Suc k mod 8 \<noteq> 0 \<Longrightarrow> Suc k - Suc k mod 8 = k - k mod 8"
  by (simp add: mod_Suc split: if_splits)

text \<open>What the loop knows when it comes to function \<open>k\<close>.\<close>

definition flag_ok :: "pspace \<Rightarrow> u32 \<Rightarrow> nat \<Rightarrow> bool \<Rightarrow> bool" where
  "flag_ok sp b k mf \<longleftrightarrow> (k mod 8 \<noteq> 0 \<longrightarrow> multi sp (func_at b (k - k mod 8)) \<longrightarrow> mf)"

lemma flag_ok_Suc:
  assumes "flag_ok sp b k mf" "k mod 8 = 0 \<longrightarrow> multi sp (func_at b k) \<longrightarrow> mf'" "k mod 8 \<noteq> 0 \<longrightarrow> mf' = mf"
  shows "flag_ok sp b (Suc k) mf'"
proof (cases "k mod 8 = 0")
  case True
  then show ?thesis using assms(2) by (auto simp: flag_ok_def sibling_Suc)
next
  case False
  then show ?thesis using assms(1,3) by (auto simp: flag_ok_def sibling_Suc)
qed

lemma scan_functions_ok:
  assumes scan: "scan_ok space scan (Suc (unat b))" and b: "unat b \<le> 255"
    and "k \<le> 255" "pci_inv s (space (pci_world s))" "no_cardbus (space (pci_world s))" "unat b \<le> unat (current_busno s)"
    "bus_bound (space (pci_world s)) (unat (current_busno s)) + length (filter (is_bridge (space (pci_world s))) (map (func_at b) [k..<255])) \<le> 255"
    "flag_ok (space (pci_world s)) b k mf"
  shows "\<exists>n s'. scan_functions scan hw (map (func_at b) [k..<255]) mf sub s = Some (n, s') \<and>
    progress space {(b, j) |j. k \<le> j} (length (filter (is_bridge (space (pci_world s))) (map (func_at b) [k..<255]))) s s'"
  using assms(3-)
proof (induction "255 - k" arbitrary: k s mf sub)
  case 0
  then have "[k..<255] = []" by simp
  moreover have "progress space {(b, j) |j. k \<le> j} 0 s s"
    using 0 by (auto simp: progress_def evolves_refl due_def)
  ultimately show ?case by simp
next
  case (Suc m)
  then have k: "k < 255" "m = 255 - Suc k" "Suc k \<le> 255" "k < 256" by simp_all
  let ?d = "func_at b k" and ?sp = "space (pci_world s)"
  let ?w = "\<lambda>sp k. length (filter (is_bridge sp) (map (func_at b) [k..<255]))"
  have up: "[k..<255] = k # [Suc k..<255]" using k(1) by (simp add: upt_conv_Cons)
  have w: "?w ?sp k = (if is_bridge ?sp ?d then 1 else 0) + ?w ?sp (Suc k)" by (simp add: up)
  note parts = func_at_parts [OF b k(4)]
  have f0: "first_busno s = 0" using Suc.prems(2) by (simp add: pci_inv_def hose_ok_def)
  have rest: "\<exists>n s'. scan_functions scan hw (map (func_at b) [Suc k..<255]) mf' sub' s1 = Some (n, s') \<and>
      progress space {(b, j) |j. k \<le> j} (?w ?sp k) s s'"
    if p: "progress space {(b, k)} (if is_bridge ?sp ?d then 1 else 0) s s1" and fl: "flag_ok ?sp b (Suc k) mf'" for s1 mf' sub'
  proof -
    have e: "evolves space s s1" using p by (simp add: progress_def)
    note st = static_eq_parts [OF evolves_static [OF Suc.prems(2) e]]
    have ib: "is_bridge (space (pci_world s1)) = is_bridge ?sp" using st(2) by blast
    have fl1: "flag_ok (space (pci_world s1)) b (Suc k) mf'" using fl by (simp add: flag_ok_def st(6))
    have i1: "pci_inv s1 (space (pci_world s1))" using e by (simp add: evolves_def)
    have c1: "unat b \<le> unat (current_busno s1)" using p Suc.prems(4) by (simp add: progress_def)
    have b1: "bus_bound (space (pci_world s1)) (unat (current_busno s1)) + ?w (space (pci_world s1)) (Suc k) \<le> 255"
      using p w Suc.prems(5) unfolding st(5) ib by (auto simp: progress_def split: if_splits)
    have n1: "no_cardbus (space (pci_world s1))" using Suc.prems(3) st(3) by simp
    obtain n s2 where s2: "scan_functions scan hw (map (func_at b) [Suc k..<255]) mf' sub' s1 = Some (n, s2)"
      "progress space {(b, j) |j. Suc k \<le> j} (?w ?sp (Suc k)) s1 s2"
      using Suc.hyps(1) [OF k(2,3) i1 n1 c1 b1 fl1, of sub'] unfolding ib by blast
    have "progress space ({(b, k)} \<union> {(b, j) |j. Suc k \<le> j}) (?w ?sp k) s s2"
      unfolding w by (rule progress_trans [OF Suc.prems(2) p s2(2)])
    moreover have "{(b, k)} \<union> {(b, j) |j. Suc k \<le> j} = {(b, j) |j. k \<le> j}" by (auto simp: Suc_le_eq le_less)
    ultimately show ?thesis using s2(1) by simp
  qed
  have idle: "progress space {(b, k)} (if is_bridge ?sp ?d then 1 else 0) s s1" if "\<not> due ?sp b k" "evolves space s s1" "current_busno s1 = current_busno s" for s1
    using that by (auto simp: progress_def)
  show ?case
  proof (cases "pci_skip_dev s ?d \<or> PCI_FUNC ?d \<noteq> 0 \<and> \<not> mf")
    case skip: True
    have z: "pci_skip_dev s ?d \<longleftrightarrow> ?d = 0" using f0 by (simp add: pci_skip_dev_def PCI_BDF_def)
    have fl: "flag_ok ?sp b (Suc k) mf"
      by (rule flag_ok_Suc [OF Suc.prems(6)]) (use skip z parts(2) in \<open>auto simp: multi_def\<close>)
    have "\<not> due ?sp b k" using skip z parts(2) Suc.prems(6) by (auto simp: due_def flag_ok_def)
    from rest [OF idle [OF this evolves_refl [where space = space and s = s, OF Suc.prems(2)] refl] fl] show ?thesis using skip by (simp add: up)
  next
    case visit: False
    let ?s1 = "snd (read_config_byte hw ?d PCI_HEADER_TYPE s)"
    let ?s2 = "snd (read_config_word hw ?d 0 ?s1)"
    let ?hd = "fst (read_config_byte hw ?d PCI_HEADER_TYPE s)" and ?v = "fst (read_config_word hw ?d 0 ?s1)"
    let ?s3 = "snd (read_config_word hw ?d PCI_CLASS_DEVICE (snd (read_config_word hw ?d 2 ?s2)))"
    have sp: "space (pci_world ?s1) = ?sp" "space (pci_world ?s2) = ?sp" "space (pci_world ?s3) = ?sp"
      using rd_keeps [OF parts(1)] f0 by simp_all
    have sm: "same_hose s ?s2" "same_hose s ?s3" by (simp_all add: same_hose_def)
    have ev: "evolves space s t" if "same_hose s t" "space (pci_world t) = ?sp" for t
    proof -
      have "shrinks s t" using same_hose_shrinks [OF that(1) shrinks_refl] Suc.prems(2) by (simp add: pci_inv_def)
      then show ?thesis using inv_hose [OF Suc.prems(2)] that(2) by (simp add: evolves_def)
    qed
    have un: "scan_functions scan hw (map (func_at b) [k..<255]) mf sub s =
        (if ?v \<noteq> 0xFFFF \<and> ?v \<noteq> 0 then
           Option.bind (pciauto_config_device scan hw ?d ?s3)
             (\<lambda>(n, s). scan_functions scan hw (map (func_at b) [Suc k..<255])
                 (if PCI_FUNC ?d = 0 then ?hd AND 0x80 \<noteq> 0 else mf) (max sub n) s)
         else scan_functions scan hw (map (func_at b) [Suc k..<255]) mf sub ?s2)"
      unfolding up list.map scan_functions.simps(2) if_not_P [OF visit] by (simp add: split_beta Let_def)
    show ?thesis
    proof (cases "\<exists>f. ?sp ?d = Some f \<and> valid_vendor f")
      case False
      have v: "\<not> (?v \<noteq> 0xFFFF \<and> ?v \<noteq> 0)"
      proof (cases "?sp ?d")
        case None
        then show ?thesis using rd16 [OF parts(1), of ?s1 0] f0 sp(1) by (simp add: reg_read_def)
      next
        case (Some f)
        then show ?thesis using False read_ids(2) [OF parts(1), of ?s1 f] f0 sp(1) by (auto simp: valid_vendor_def)
      qed
      have fl: "flag_ok ?sp b (Suc k) mf" by (rule flag_ok_Suc [OF Suc.prems(6)]) (use False in \<open>auto simp: multi_def\<close>)
      have "\<not> due ?sp b k" using False by (auto simp: due_def)
      from rest [OF idle [OF this ev [OF sm(1) sp(2)]] fl] show ?thesis using un v by simp
    next
      case True
      then obtain f where f: "?sp ?d = Some f" "valid_vendor f" by blast
      have v: "?v \<noteq> 0xFFFF \<and> ?v \<noteq> 0" using f read_ids(2) [OF parts(1), of ?s1 f] f0 sp(1) by (simp add: valid_vendor_def)
      have hd: "?hd AND 0x80 \<noteq> 0 \<longleftrightarrow> pf_reg f 3 AND 0x800000 \<noteq> 0"
        using read_ids(4) [OF parts(1) f0 f(1)] header_bit [of "pf_reg f 3"] by simp
      have fl: "flag_ok ?sp b (Suc k) (if PCI_FUNC ?d = 0 then ?hd AND 0x80 \<noteq> 0 else mf)"
        by (rule flag_ok_Suc [OF Suc.prems(6)]) (use hd f parts(2) in \<open>auto simp: multi_def\<close>)
      have e3: "evolves space s ?s3" by (rule ev [OF sm(2) sp(3)])
      have i3: "pci_inv ?s3 (space (pci_world ?s3))" using e3 by (simp add: evolves_def)
      have bd: "is_bridge (space (pci_world ?s3)) ?d \<longrightarrow> bus_bound (space (pci_world ?s3)) (unat (current_busno ?s3)) + 1 \<le> 255"
        using Suc.prems(5) w unfolding sp(3) by auto
      have pre: "no_cardbus (space (pci_world ?s3))" "space (pci_world ?s3) ?d = Some f" "Suc (unat b) \<le> Suc (unat (current_busno ?s3))"
        using Suc.prems(3,4) f(1) unfolding sp(3) by simp_all
      obtain n s4 where s4: "pciauto_config_device scan hw ?d ?s3 = Some (n, s4)"
        "progress space {(b, k)} (if is_bridge (space (pci_world ?s3)) ?d then 1 else 0) ?s3 s4"
        using config_device_ok [OF i3 pre(1,2) refl scan pre(3) bd] by blast
      have "progress space {(b, k)} (if is_bridge ?sp ?d then 1 else 0) s s4"
      proof -
        have "progress space {} 0 s ?s3" using e3 by (auto simp: progress_def)
        from progress_trans [OF Suc.prems(2) this s4(2)] show ?thesis unfolding sp(3) by simp
      qed
      from rest [OF this fl] show ?thesis using un v s4(1) by simp
    qed
  qed
qed

lemma scan_bus_ok: "255 < lo + depth \<Longrightarrow> 0 < depth \<Longrightarrow> scan_ok space (pci_hose_scan_bus depth hw) lo"
proof (induction depth arbitrary: lo)
  case (Suc depth)
  show ?case
    unfolding scan_ok_def
  proof (intro allI impI)
    fix s
    assume a: "lo \<le> unat (current_busno s)" "pci_inv s (space (pci_world s))" "no_cardbus (space (pci_world s))"
      "bus_bound (space (pci_world s)) (unat (current_busno s)) + bridges_on (space (pci_world s)) (unat (current_busno s)) \<le> 255"
    let ?b = "current_busno s" and ?sp = "space (pci_world s)"
    have b: "unat ?b \<le> 255" using bus_bound_le [of "unat ?b" ?sp] a(4) by simp
    have bo: "bridges_on ?sp (unat ?b) = length (filter (is_bridge ?sp) (map (func_at ?b) [0..<255]))"
      by (simp add: bridges_on_def bus_functions_at)
    have sc: "scan_ok space (pci_hose_scan_bus depth hw) (Suc (unat ?b))"
    proof (cases "unat ?b = 255")
      case True
      have "unat (current_busno t) \<le> 255" if "bus_bound sp (unat (current_busno t)) + n \<le> 255" for t :: "'w hose" and sp n
        using bus_bound_le [of "unat (current_busno t)" sp] that by linarith
      then show ?thesis using True unfolding scan_ok_def by fastforce
    next
      case False
      then show ?thesis using Suc.IH [of "Suc (unat ?b)"] Suc.prems(1) a(1) b by simp
    qed
    obtain n s' where r: "pci_hose_scan_bus (Suc depth) hw ?b s = Some (n, s')" "progress space {(?b, j) |j. 0 \<le> j} (bridges_on ?sp (unat ?b)) s s'"
      using scan_functions_ok [OF sc b _ a(2,3) le_refl, of 0 False ?b] a(4) unfolding bo by (auto simp: flag_ok_def bus_functions_at)
    have "progress space ({?b} \<times> UNIV) (bridges_on ?sp (unat ?b)) s s'" by (rule progress_mono [OF r(2)]) auto
    then show "\<exists>n s'. pci_hose_scan_bus (Suc depth) hw ?b s = Some (n, s') \<and> progress space ({?b} \<times> UNIV) (bridges_on ?sp (unat ?b)) s s'"
      using r(1) by blast
  qed
qed simp

end

subsection \<open>A machine\<close>

text \<open>The host bridge with the functions behind it: the address register selects a function and a register of it, and the byte lanes
  of the data register are the bytes of that register.\<close>

record pci_machine =
  m_latch :: u32
  m_funs :: pspace

definition m_read :: "pci_machine \<Rightarrow> u32" where
  "m_read w = reg_read (m_funs w) (m_latch w AND 0xFFFF00) (m_latch w AND 0xFC)"

definition m_write :: "u32 \<Rightarrow> u32 \<Rightarrow> pci_machine \<Rightarrow> pci_machine" where
  "m_write lanes v w = w\<lparr>m_funs := space_write (m_funs w) (m_latch w AND 0xFFFF00) (m_latch w AND 0xFC) lanes v\<rparr>"

definition machine_hw :: "pci_machine pci_hw" where
  "machine_hw =
     \<lparr>out_cfg_addr = (\<lambda>v w. w\<lparr>m_latch := v\<rparr>),
      in_data8 = (\<lambda>l w. (ucast (drop_bit (8 * unat l) (m_read w)), w)),
      in_data16 = (\<lambda>l w. (ucast (drop_bit (8 * unat l) (m_read w)), w)),
      in_data32 = (\<lambda>l w. (m_read w, w)),
      out_data8 = (\<lambda>l v. m_write (push_bit (8 * unat l) 0xFF) (push_bit (8 * unat l) (ucast v))),
      out_data16 = (\<lambda>l v. m_write (push_bit (8 * unat l) 0xFFFF) (push_bit (8 * unat l) (ucast v))),
      out_data32 = (\<lambda>l v. m_write (- 1) v)\<rparr>"

lemma bdf_parts: "PCI_BDF (PCI_BUS d) (PCI_DEV d) (PCI_FUNC d) = d AND 0xFFFF00"
proof -
  have m: "(0xFFFF00 :: u32) = push_bit 8 (mask 16)" "(0xFF :: u32) = mask 8" "(0x1F :: u32) = mask 5" "(7 :: u32) = mask 3"
    by (simp_all add: mask_eq_exp_minus_1)
  show ?thesis unfolding PCI_BDF_def PCI_BUS_def PCI_DEV_def PCI_FUNC_def m
  proof (rule bit_word_eqI)
    fix n assume n: "n < LENGTH(32)"
    consider "n < 8" | "8 \<le> n" "n < 11" | "11 \<le> n" "n < 16" | "16 \<le> n" by linarith
    then show "bit (push_bit 16 (drop_bit 16 d AND mask 8) OR push_bit 11 (drop_bit 11 d AND mask 5) OR push_bit 8 (drop_bit 8 d AND mask 3)) n =
        bit (d AND push_bit 8 (mask 16)) n"
      using n by cases (auto simp: bit_simps simp del: push_bit_mask_eq)
  qed
qed

lemma select_latch:
  assumes "bdf_ok d" "first_busno s = 0" "offset < 0x100"
  shows "cfg_select machine_hw d offset s = (pci_world s)\<lparr>m_latch := d OR (offset AND 0xFC) OR 0x80000000\<rparr>"
    "(d OR (offset AND 0xFC) OR 0x80000000) AND 0xFFFF00 = d" "unat (((d OR (offset AND 0xFC) OR 0x80000000) AND 0xFC) div 4) = unat (offset div 4)"
proof -
  have d: "d AND 0xFFFF00 = d" using assms(1) by (simp add: bdf_ok_def)
  show "cfg_select machine_hw d offset s = (pci_world s)\<lparr>m_latch := d OR (offset AND 0xFC) OR 0x80000000\<rparr>"
    using assms(2) d by (simp add: cfg_select_def machine_hw_def bdf_parts)
  have a: "(offset AND 0xFC) AND 0xFFFF00 = (0 :: u32)" by (simp add: and.assoc)
  show "(d OR (offset AND 0xFC) OR 0x80000000) AND 0xFFFF00 = d"
    by (simp only: bit.conj_disj_distrib2 a d) simp
  have c: "d AND 0xFC = 0"
  proof -
    have "d AND 0xFC = (d AND 0xFFFF00) AND 0xFC" using d by simp
    then show ?thesis by (simp add: and.assoc)
  qed
  have "(d OR (offset AND 0xFC) OR 0x80000000) AND 0xFC = offset AND 0xFC"
    by (simp only: bit.conj_disj_distrib2 c and.assoc) simp
  also have "(offset AND 0xFC) div 4 = offset div 4"
  proof -
    have m: "(0xFC :: u32) = push_bit 2 (mask 6)" by (simp add: mask_eq_exp_minus_1)
    have small: "offset = take_bit 8 offset"
    proof -
      have "unat offset < 256" using assms(3) by (simp add: word_less_nat_alt)
      then have "unat (take_bit 8 offset) = unat offset" by (simp add: unsigned_take_bit_eq take_bit_nat_eq_self_iff)
      then show ?thesis by (simp add: word_unat_eq_iff)
    qed
    have "drop_bit 2 (take_bit 8 offset AND push_bit 2 (mask 6)) = drop_bit 2 (take_bit 8 offset)"
      by (rule bit_word_eqI) (auto simp: bit_simps simp del: push_bit_mask_eq)
    then show ?thesis unfolding m using small by (simp add: drop_bit_eq_div)
  qed
  finally show "unat (((d OR (offset AND 0xFC) OR 0x80000000) AND 0xFC) div 4) = unat (offset div 4)" by simp
qed

lemma read_machine:
  assumes "bdf_ok d" "first_busno s = 0" "offset < 0x100"
  shows "m_read (cfg_select machine_hw d offset s) = reg_read (m_funs (pci_world s)) d offset"
    "m_funs (m_write lanes v (cfg_select machine_hw d offset s)) = space_write (m_funs (pci_world s)) d offset lanes v"
  unfolding m_read_def m_write_def reg_read_def space_write_def select_latch(1) [OF assms] by (simp_all add: select_latch(2,3) [OF assms] cong: option.case_cong)

interpretation mach: config_space machine_hw m_funs
proof
  fix d offset :: u32 and s :: "pci_machine hose" and v :: u32 and v16 :: u16 and v8 :: byte
  assume d: "bdf_ok d" and s: "first_busno s = 0"
  have keeps: "m_funs (cfg_select machine_hw d offset s) = m_funs (pci_world s)" by (simp add: cfg_select_def machine_hw_def)
  show "m_funs (pci_world (snd (read_config_dword machine_hw d offset s))) = m_funs (pci_world s)"
    "m_funs (pci_world (snd (read_config_word machine_hw d offset s))) = m_funs (pci_world s)"
    "m_funs (pci_world (snd (read_config_byte machine_hw d offset s))) = m_funs (pci_world s)"
    using keeps by (simp_all add: read_config_dword_def read_config_word_def read_config_byte_def) (simp_all add: machine_hw_def)
  assume o: "offset < 0x100"
  note r = read_machine [OF d s o]
  show "fst (read_config_byte machine_hw d offset s) = ucast (drop_bit (8 * unat (offset AND 3)) (reg_read (m_funs (pci_world s)) d offset))"
    using r by (simp add: read_config_byte_def) (simp add: machine_hw_def)
  show "m_funs (pci_world (write_config_byte machine_hw d offset v8 s)) =
      space_write (m_funs (pci_world s)) d offset (push_bit (8 * unat (offset AND 3)) 0xFF) (push_bit (8 * unat (offset AND 3)) (ucast v8))"
    using r by (simp add: write_config_byte_def) (simp add: machine_hw_def)
  show "fst (read_config_dword machine_hw d offset s) = reg_read (m_funs (pci_world s)) d offset"
    using r by (simp add: read_config_dword_def) (simp add: machine_hw_def)
  show "m_funs (pci_world (write_config_dword machine_hw d offset v s)) = space_write (m_funs (pci_world s)) d offset (- 1) v"
    using r by (simp add: write_config_dword_def) (simp add: machine_hw_def)
  show "fst (read_config_word machine_hw d offset s) = ucast (drop_bit (8 * unat (offset AND 2)) (reg_read (m_funs (pci_world s)) d offset))"
    using r by (simp add: read_config_word_def) (simp add: machine_hw_def)
  show "m_funs (pci_world (write_config_word machine_hw d offset v16 s)) =
      space_write (m_funs (pci_world s)) d offset (push_bit (8 * unat (offset AND 2)) 0xFFFF) (push_bit (8 * unat (offset AND 2)) (ucast v16))"
    using r by (simp add: write_config_word_def) (simp add: machine_hw_def)
qed

subsection \<open>The scan of the board\<close>

lemma list_of_5: "length xs = 5 \<Longrightarrow> \<exists>a b c d e. xs = [a, b, c, d, e]"
  by (auto simp: eval_nat_numeral length_Suc_conv)

lemma config_init_board:
  assumes "length old = 5" "regions s = board_regions old" "first_busno s = 0" "pci_prefetch s = None"
  shows "hose_ok (pciauto_config_init s)" "current_busno (pciauto_config_init s) = current_busno s" "pci_world (pciauto_config_init s) = pci_world s"
    "first_busno (pciauto_config_init s) = 0"
proof -
  obtain a b c d e where old: "old = [a, b, c, d, e]" using list_of_5 [OF assms(1)] by blast
  have up: "[0..<5] = [0, 1, 2, 3, 4 :: nat]" by (simp add: upt_rec)
  have len: "length (regions s) = 5" using assms(2) old by (simp add: board_regions_def)
  show "hose_ok (pciauto_config_init s)" "current_busno (pciauto_config_init s) = current_busno s" "pci_world (pciauto_config_init s) = pci_world s"
    "first_busno (pciauto_config_init s) = 0"
    unfolding pciauto_config_init_def len up
    using assms(2-4) by (simp_all add: old board_regions_def choose_region_def larger_def init_region_def Let_def hose_ok_def region_def
        pciauto_region_init_def mem_region_def io_region_def)
qed

text \<open>The translation of memory addresses on the board: what the processor sees of memory and of the PCI devices has a bus address,
  and back.\<close>

lemma memory_translation_roundtrip:
  assumes "length old = 5" "a < 0x7FFFFFFF \<or> 0xC0000000 \<le> a \<and> a < 0xFF000000"
  shows "pci_hose_bus_to_phys (board_regions old) (pci_hose_phys_to_bus (board_regions old) a 0) 0 = a"
    "pci_hose_phys_to_bus (board_regions old) a 0 = (if a < 0x7FFFFFFF then a + 0x80000000 else a - 0xC0000000)"
proof -
  obtain p q r s t where old: "old = [p, q, r, s, t]" using list_of_5 [OF assms(1)] by blast
  have u: "unat (a - 0xC0000000) = unat a - 0xC0000000 \<and> 0xC0000000 \<le> unat a \<and> unat a < 0xFF000000" if "\<not> a < 0x7FFFFFFF"
    using that assms(2) by (auto simp: unat_sub word_le_nat_alt word_less_nat_alt)
  have l: "unat (a + 0x80000000) = unat a + 0x80000000 \<and> unat (a - 0xC0000000) = unat a + 0x40000000" if "a < 0x7FFFFFFF"
  proof -
    have "a - 0xC0000000 = a + 0x40000000" by simp
    then show ?thesis using that by (simp only: word_less_nat_alt unat_word_ariths) simp
  qed
  note defs = pci_hose_phys_to_bus_def pci_hose_bus_to_phys_def old board_regions_def word_less_nat_alt word_le_nat_alt Let_def
  show "pci_hose_phys_to_bus (board_regions old) a 0 = (if a < 0x7FFFFFFF then a + 0x80000000 else a - 0xC0000000)"
  proof (cases "a < 0x7FFFFFFF")
    case True
    then show ?thesis using l [OF True] by (simp add: defs)
  next
    case False
    then show ?thesis using u [OF False] by (simp add: defs) linarith
  qed
  note bus = this
  show "pci_hose_bus_to_phys (board_regions old) (pci_hose_phys_to_bus (board_regions old) a 0) 0 = a"
  proof (cases "a < 0x7FFFFFFF")
    case True
    then show ?thesis using l [OF True] unfolding bus by (simp add: defs)
  next
    case False
    then show ?thesis using u [OF False] unfolding bus by (simp add: defs) linarith
  qed
qed

text \<open>The devices after a reset: no address is set.\<close>

definition fresh :: "pspace \<Rightarrow> bool" where
  "fresh sp \<longleftrightarrow> (\<forall>d f. sp d = Some f \<longrightarrow> bdf_ok d \<and> func_ok f \<and> (\<forall>i < bars_of f. base f i = 0))"

lemma fresh_inv: "hose_ok s \<Longrightarrow> fresh sp \<Longrightarrow> pci_inv s sp"
  unfolding pci_inv_def funcs_fine_def all_apart_def fresh_def bar_fine_def placed_def by blast

text \<open>A register of \<open>f\<close> after the scan: it has an aligned range of the region, or the region has no room for it.\<close>

definition served :: "'w hose \<Rightarrow> pfun \<Rightarrow> bool" where
  "served s f \<longleftrightarrow> (\<forall>i < bars_of f. \<forall>io k. bar io f i k \<longrightarrow>
     placed f i \<and> in_range (base f i) k 0x1000 (if io then 0x1000000 else 0x3F000000) \<or>
     base f i = NOT (mask k) \<and> pciauto_region_allocate (2 ^ k) (region io s) = None)"

lemma settled_served:
  assumes "pci_inv s sp" "sp d = Some f" "settled f"
  shows "served s f"
  unfolding served_def
proof (intro allI impI)
  fix i io k assume b: "i < bars_of f" "bar io f i k"
  have m: "pf_mask f (4 + i) = NOT (mask k)" using b(2) by (simp add: bar_def)
  have fine: "bar_fine s io f i k" using assms(1,2) b unfolding pci_inv_def funcs_fine_def by blast
  have nz: "base f i \<noteq> 0" using assms(3) b unfolding settled_def by blast
  have low: "unat (bus_lower (region io s)) \<le> (if io then 0x1000000 else 0x3F000000)"
    using assms(1) by (cases io) (simp_all add: pci_inv_def hose_ok_def mem_region_def io_region_def word_le_nat_alt)
  have top: "2147483648 \<le> unat (NOT (mask k) :: u32)"
  proof -
    have "bit (NOT (mask k) :: u32) 31" using b(2) by (auto simp: bit_simps bar_def split: if_splits)
    then have "bit (unat (NOT (mask k) :: u32)) 31" by (simp only: bit_unsigned_iff) simp
    then have "odd (unat (NOT (mask k) :: u32) div 2147483648)" by (simp add: bit_iff_odd)
    then show ?thesis by (rule contrapos_pp) simp
  qed
  have "base f i \<noteq> NOT (mask k)" if "in_range (base f i) k 0x1000 (bus_lower (region io s))"
    using that low top by (auto simp: in_range_def split: if_splits)
  then show "placed f i \<and> in_range (base f i) k 0x1000 (if io then 0x1000000 else 0x3F000000) \<or>
     base f i = NOT (mask k) \<and> pciauto_region_allocate (2 ^ k) (region io s) = None"
    using m fine nz low by (cases io) (auto simp: bar_fine_def placed_def in_range_def)
qed

text \<open>C16: the bus scan of the board on any hardware whose configuration registers work as specified, for any population of devices
  after a reset whose base address registers are for I/O (up to 64 KB) or 32-bit memory (up to 1 GB), without CardBus bridges and with
  at most 255 bridges: it comes to an end, no two address ranges that it assigns overlap (memory and I/O each), and every function
  that it configures on the buses it has numbered (not the host bridge, a legacy IDE controller or function 7 of device 31) gets for
  every base address register an aligned range inside the board's region, unless the region has no room left for it.\<close>

theorem pci_scan_assigns:
  assumes "fresh sp" and "no_cardbus sp" and "(\<Sum>b = 0..255. bridges_on sp b) \<le> 255" and "space (pci_world s) = sp"
    and "first_busno s = 0" and "current_busno s = 0" and "length old = 5" and "regions s = board_regions old" and "pci_prefetch s = None"
    and hw: "config_space hw space"
  shows "\<exists>n s'. pci_hose_scan 256 hw s = Some (n, s') \<and> all_apart (space (pci_world s')) \<and>
    (\<forall>b k. due sp b k \<and> b \<le> current_busno s' \<longrightarrow> (\<exists>f. space (pci_world s') (func_at b k) = Some f \<and> served s' f))"
proof -
  let ?s = "pciauto_config_init s"
  note ci = config_init_board [OF assms(7,8,5,9)]
  have sp: "space (pci_world ?s) = sp" using ci(3) assms(4) by simp
  have inv: "pci_inv ?s (space (pci_world ?s))" unfolding sp by (rule fresh_inv [OF ci(1) assms(1)])
  have cur: "current_busno ?s = 0" using ci(2) assms(6) by simp
  have "bus_bound sp 0 + bridges_on sp 0 = (\<Sum>b = 0..255. bridges_on sp b)"
    unfolding bus_bound_def using sum.atLeast_Suc_atMost [of 0 255 "bridges_on sp"] by simp
  then have bound: "bus_bound (space (pci_world ?s)) (unat (current_busno ?s)) + bridges_on (space (pci_world ?s)) (unat (current_busno ?s)) \<le> 255"
    using assms(3) sp cur by simp
  have nc: "no_cardbus (space (pci_world ?s))" using assms(2) sp by simp
  have "scan_ok space (pci_hose_scan_bus 256 hw) 0" by (rule config_space.scan_bus_ok [OF hw]) simp_all
  from scan_okD [OF this _ inv nc bound]
  obtain n s' where s': "pci_hose_scan_bus 256 hw (current_busno ?s) ?s = Some (n, s')"
    "progress space ({current_busno ?s} \<times> UNIV) (bridges_on (space (pci_world ?s)) (unat (current_busno ?s))) ?s s'" by (meson le0)
  have inv': "pci_inv s' (space (pci_world s'))" using s'(2) by (simp add: progress_def evolves_def)
  have "pci_hose_scan 256 hw s = Some (n, s')"
  proof -
    have late: "\<not> current_busno s < first_busno s" using assms(5,6) by simp
    show ?thesis unfolding pci_hose_scan_def Let_def if_not_P [OF late] by (rule s'(1))
  qed
  moreover have "\<exists>f. space (pci_world s') (func_at b k) = Some f \<and> served s' f" if bk: "due sp b k" "b \<le> current_busno s'" for b k
  proof -
    have "(b, k) \<in> {current_busno ?s} \<times> UNIV \<or> unat (current_busno ?s) < unat b \<and> unat b \<le> unat (current_busno s')"
      using bk(2) cur by (auto simp: word_le_nat_alt unat_gt_0)
    then obtain f where "space (pci_world s') (func_at b k) = Some f" "settled f"
      using s'(2) bk(1) unfolding progress_def sp by blast
    then show ?thesis using settled_served [OF inv'] by blast
  qed
  moreover have "all_apart (space (pci_world s'))" using inv' by (simp add: pci_inv_def)
  ultimately show ?thesis by blast
qed

text \<open>A network controller with an I/O and a memory register, and a bridge with another one behind it.\<close>

definition nic :: pfun where
  "nic = \<lparr>pf_reg = (\<lambda>_. 0)(0 := 0x00191011, 2 := 0x02000000, 4 := 1), pf_mask = (\<lambda>_. 0)(1 := 7, 4 := NOT (mask 7), 5 := NOT (mask 12))\<rparr>"

definition p2p :: pfun where
  "p2p = \<lparr>pf_reg = (\<lambda>_. 0)(0 := 0x00211011, 2 := 0x06040000, 3 := 0x00010000), pf_mask = (\<lambda>_. 0)(1 := 7, 6 := 0xFFFFFF)\<rparr>"

definition demo_space :: pspace where
  "demo_space = [0x1000 \<mapsto> p2p, 0x1800 \<mapsto> nic, 0x12000 \<mapsto> nic]"

definition demo_hose :: "pci_machine hose" where
  "demo_hose =
     \<lparr>first_busno = 0, last_busno = 255, current_busno = 0,
      regions = board_regions (replicate 5 \<lparr>bus_start = 0, phys_start = 0, reg_size = 0, reg_flags = 0, bus_lower = 0\<rparr>),
      pci_mem = None, pci_io = None, pci_prefetch = None, pci_world = \<lparr>m_latch = 0, m_funs = demo_space\<rparr>\<rparr>"

lemma demo_fresh: "fresh demo_space" "no_cardbus demo_space"
proof -
  have "bar True nic 0 7" "bar False nic 1 12" by (simp_all add: bar_def nic_def mask_eq_exp_minus_1)
  then have "\<forall>i < 6. pf_mask nic (4 + i) = 0 \<and> pf_reg nic (4 + i) = 0 \<or> (\<exists>io k. bar io nic i k)"
    by (auto simp: nic_def)
  then have n: "func_ok nic" "\<forall>i < bars_of nic. base nic i = 0"
    by (auto simp: func_ok_def bars_of_def func_class_def base_def) (simp_all add: nic_def mask_eq_exp_minus_1 less_Suc_eq numeral_eq_Suc)
  have p: "func_ok p2p" "\<forall>i < bars_of p2p. base p2p i = 0"
    by (auto simp: func_ok_def bars_of_def func_class_def base_def p2p_def)
  show "fresh demo_space" using n p by (auto simp: fresh_def demo_space_def bdf_ok_def split: if_splits)
  show "no_cardbus demo_space" by (auto simp: no_cardbus_def demo_space_def func_class_def nic_def p2p_def split: if_splits)
qed

lemma demo_bridges: "(\<Sum>b = 0..255. bridges_on demo_space b) \<le> 255"
proof -
  have "bridges_on demo_space b = 0" if "b \<in> {1..255}" for b
  proof -
    have "\<not> is_bridge demo_space (func_at (of_nat b) k)" if "k < 255" for k
    proof
      assume "is_bridge demo_space (func_at (of_nat b) k)"
      then have "func_at (of_nat b) k = 0x1000"
        by (auto simp: is_bridge_def demo_space_def func_class_def nic_def split: if_splits)
      then show False using func_at_val [of "of_nat b" k] \<open>b \<in> {1..255}\<close> that by (simp add: unat_of_nat take_bit_nat_eq_self_iff)
    qed
    then show ?thesis by (auto simp: bridges_on_def bus_functions_at filter_empty_conv)
  qed
  moreover have "bridges_on demo_space 0 \<le> 255"
    unfolding bridges_on_def using length_filter_le [of "is_bridge demo_space" "bus_functions (of_nat 0)"] by (simp add: bus_functions_def)
  ultimately show ?thesis using sum.atLeast_Suc_atMost [of 0 255 "bridges_on demo_space"] by simp
qed

theorem pci_scan_assigns_witness:
  "\<exists>n s'. pci_hose_scan 256 machine_hw demo_hose = Some (n, s') \<and> all_apart (m_funs (pci_world s')) \<and>
     (\<exists>f. m_funs (pci_world s') 0x1000 = Some f \<and> served s' f) \<and> (\<exists>f. m_funs (pci_world s') 0x1800 = Some f \<and> served s' f)"
proof -
  have s: "m_funs (pci_world demo_hose) = demo_space" "first_busno demo_hose = 0" "current_busno demo_hose = 0"
    "pci_prefetch demo_hose = None" by (simp_all add: demo_hose_def)
  have r: "regions demo_hose = board_regions (replicate 5 \<lparr>bus_start = 0, phys_start = 0, reg_size = 0, reg_flags = 0, bus_lower = 0\<rparr>)"
    by (simp add: demo_hose_def)
  have a: "func_at 0 16 = 0x1000" "func_at 0 24 = 0x1800" by (simp_all add: func_at_def PCI_BDF_def)
  have d: "due demo_space 0 16" "due demo_space 0 24"
    by (simp_all add: due_def a demo_space_def valid_vendor_def func_class_def) (simp_all add: nic_def p2p_def)
  obtain n s' where "pci_hose_scan 256 machine_hw demo_hose = Some (n, s')" "all_apart (m_funs (pci_world s'))"
    "\<forall>b k. due demo_space b k \<and> b \<le> current_busno s' \<longrightarrow> (\<exists>f. m_funs (pci_world s') (func_at b k) = Some f \<and> served s' f)"
    using pci_scan_assigns [OF demo_fresh demo_bridges s(1-3) length_replicate r s(4) mach.config_space_axioms] by blast
  then show ?thesis using d a by (metis word_zero_le)
qed

text \<open>The overflow check of the allocation can itself overflow: a request for 2 GB is granted outside the memory region, and from then on
  ranges are handed out again from address 0, whatever was assigned before.\<close>

lemma allocate_2gb_restarts:
  assumes "mem_region r" "k < 30"
  shows "pciauto_region_allocate (2 ^ 31) r = Some (0x80000000, r\<lparr>bus_lower := 0\<rparr>)"
    "pciauto_region_allocate (2 ^ k) (r\<lparr>bus_lower := 0\<rparr>) = Some (0, r\<lparr>bus_lower := 2 ^ k\<rparr>)"
proof -
  have r: "bus_start r = 0" "reg_size r = 0x3F000000" "0x1000 \<le> bus_lower r" "bus_lower r \<le> 0x3F000000"
    using assms(1) by (simp_all add: mem_region_def)
  have "take_bit 31 (bus_lower r - 1) = bus_lower r - 1"
  proof -
    have "1 \<le> bus_lower r" using r(3) by (simp add: word_le_nat_alt)
    then have "unat (bus_lower r - 1) < 2 ^ 31" using r(4) by (simp add: unat_sub word_le_nat_alt)
    then show ?thesis by (simp add: word_unat_eq_iff unsigned_take_bit_eq take_bit_nat_eq_self_iff)
  qed
  moreover have "take_bit 31 (bus_lower r - 1) OR mask 31 = mask 31" by (rule bit_word_eqI) (auto simp: bit_simps)
  ultimately show "pciauto_region_allocate (2 ^ 31) r = Some (0x80000000, r\<lparr>bus_lower := 0\<rparr>)"
    using r(1,2) by (simp add: pciauto_region_allocate_def mask_eq_exp_minus_1)
  have "(2 :: nat) ^ k \<le> 2 ^ 29" by (rule power_increasing) (use assms(2) in auto)
  then have "\<not> 0x3F000000 < (2 ^ k :: u32)" using assms(2) by (simp add: word_less_nat_alt unat_power_k)
  then show "pciauto_region_allocate (2 ^ k) (r\<lparr>bus_lower := 0\<rparr>) = Some (0, r\<lparr>bus_lower := 2 ^ k\<rparr>)"
    using r(1,2) by (simp add: pciauto_region_allocate_def)
qed

end
