(* ===== verification/Spec2Isabelle.thy ===== *)
theory Spec2Isabelle
  imports CmdlineProps Lmb Date NetbootProps GunzipProps FlashCmdProps MemcmdProps YmodemProps PciProps
begin

text \<open>
  \<^bold>\<open>Verification of the U-Boot boot loader for the ELTEC BAB740/BAB750 board\<close>
  (\<^verbatim>\<open>src/u-boot-lab\<close>, configuration \<^verbatim>\<open>include/configs/BAB7xx.h\<close>).

  \<^bold>\<open>The program.\<close> The boot loader reads command lines from the console, expands variables of its environment in
  them and runs the commands of a table. The environment is a buffer of strings that is saved in the NVRAM of the clock
  chip with a CRC. Images are downloaded over the serial line as S-records, with Kermit or Y-modem, or over the network with TFTP, after BOOTP or
  RARP has given the board its address. An image, built on the development host by the image tool, has a header with two
  checksums; the boot commands verify it, unpack it to its load address, place arguments and board information in memory
  that is kept in tables of blocks, and jump to the operating system. All code is C for a 32-bit big-endian
  PowerPC; \<^verbatim>\<open>char\<close> is unsigned there. The model follows the board's configuration: code behind options the board does not
  set is left out.

  \<^bold>\<open>Conventions.\<close> Machine integers are words of their width, so arithmetic wraps as in C; C's \<^verbatim>\<open>int\<close> is \<open>int\<close> where
  it cannot overflow. A C string is the list of its bytes without the NUL. A result of type \<open>option\<close> is \<open>None\<close> where
  the C code reads or writes outside of an object, dereferences a null pointer or would wait for input that never comes;
  theorems that say that a function returns therefore also say that it has no such fault. Loops with a bound of their own
  are recursive functions with a termination proof; loops that wait for hardware or input, and passes over memory whose
  address may wrap, are partial functions. Three functions have fuel: \<open>Cmdline.run_command\<close>, whose nesting
  depth is a parameter, because \<^verbatim>\<open>run\<close> may recurse for ever (\<open>shell_run_depth\<close> shows that the bound never changes a
  result, \<open>run_self_never_returns\<close> that no bound is enough for a variable that runs itself),
  \<open>Eth.eth_init_loop\<close>, whose fuel is the number of devices (\<open>eth_init_rotates\<close> shows that it is never used up), and
  \<open>Pci.pci_hose_scan_bus\<close>, whose depth of bridges is bounded by the 256 bus numbers (\<open>pci_scan_assigns\<close> shows that 256 is enough).
  Hardware, drivers and code that the model does not contain are parameters: port accesses (\<open>out8\<close>, \<open>in8\<close>) with the
  protocol of the clock chip as the locale \<open>rtc_ports\<close>, network drivers (\<open>eth_driver\<close>), the flash chips (\<open>flash_hw\<close>), the memory bus (\<open>bus\<close>), the registers of the PCI bridge (\<open>pci_hw\<close>), the NFS
  client, the inflate routine of zlib (\<open>zlib\<close>). Console output is modelled where it is the purpose of the code (\<^verbatim>\<open>printenv\<close>, \<^verbatim>\<open>readline\<close>,
  \<^verbatim>\<open>save_serial\<close>) and left out where it reports progress.

  \<^bold>\<open>The theories.\<close>

  \<^item> \<open>Prelude\<close>: words, bytes and C strings, big-endian encodings, the collections of simplification rules.
  \<^item> \<open>Ctype\<close>, \<open>Strtoul\<close>, \<open>Div64\<close>, \<open>Vsprintf\<close>: \<^verbatim>\<open>lib/ctype.c\<close>, the number parsers and the whole of
    \<^verbatim>\<open>vsprintf\<close> of \<^verbatim>\<open>lib/vsprintf.c\<close>, \<^verbatim>\<open>lib/div64.c\<close>, \<^verbatim>\<open>string_to_ip\<close>. \<open>Roundtrip\<close> shows that printed
    numbers and IP addresses are read back as the same values.
  \<^item> \<open>Crc32\<close>: the table-driven, word-wise routine of \<^verbatim>\<open>lib/crc32.c\<close>; it equals the bit-serial CRC-32, detects every
    changed byte, and can be continued over pieces (locale \<open>running_checksum\<close>).
  \<^item> \<open>Nvram\<close>: \<^verbatim>\<open>drivers/rtc/mk48t59.c\<close>, clock and NVRAM behind index and data ports. For every device with the port
    protocol, what is written is read back.
  \<^item> \<open>Date\<close>: \<^verbatim>\<open>drivers/rtc/date.c\<close> and the command of \<^verbatim>\<open>common/cmd_date.c\<close>, against a Gregorian reference calendar.
  \<^item> \<open>Stdio\<close>: registration, lookup and assignment of the console devices (\<^verbatim>\<open>common/stdio.c\<close>, \<^verbatim>\<open>common/console.c\<close>).
  \<^item> \<open>Env\<close>, \<open>EnvProps\<close>: the environment, \<^verbatim>\<open>common/env_common.c\<close>, \<^verbatim>\<open>common/env_nvram.c\<close> and
    \<^verbatim>\<open>common/cmd_nvedit.c\<close>. The record \<open>env_state\<close> holds the buffer, its CRC, the NVRAM and the globals that variables
    control. The predicate \<open>env_ok st kvs\<close> relates a buffer to the list of variables it represents; the operations refine
    those of the list (\<open>setenv_correct\<close>, \<open>getenv_correct\<close>), the interface \<open>var_store\<close> gives the laws of sequences
    of updates, and saving and starting again is the identity (\<open>save_boot_roundtrip\<close>) unless a byte changed
    (\<open>corrupted_env_falls_back\<close>).
  \<^item> \<open>Cmdline\<close>, \<open>CmdlineProps\<close>: line input, macro expansion, argument splitting, command lookup and execution of
    \<^verbatim>\<open>common/main.c\<close> and \<^verbatim>\<open>common/command.c\<close>, with \<^verbatim>\<open>run\<close> and \<^verbatim>\<open>bootd\<close>. \<open>shell_setenv\<close> composes them with the
    environment: a line of several commands with references to variables has the effect of its commands in turn.
  \<^item> \<open>Memory\<close>: memory as a function from addresses, with the laws of storing and reading blocks.
  \<^item> \<open>Srec\<close>, \<open>SrecProps\<close>: \<^verbatim>\<open>common/s_record.c\<close> and the S-record part of \<^verbatim>\<open>common/cmd_load.c\<close>; a saved block is
    loaded unchanged (\<open>save_load_roundtrip\<close>).
  \<^item> \<open>Kermit\<close>, \<open>KermitProps\<close>: the receiver of \<^verbatim>\<open>loadb\<close> in \<^verbatim>\<open>common/cmd_load.c\<close> as a function of the characters on the line.
    A file arrives whole over a line with damage, repetitions and noise (\<open>kermit_loads_file\<close>), unless the damage hits the first
    two characters of a packet (\<open>kermit_header_damage_loses_packet\<close>).
  \<^item> \<open>Crc16\<close>, \<open>Ymodem\<close>, \<open>YmodemProps\<close>: \<^verbatim>\<open>lib/crc16.c\<close> against its polynomial (\<open>cyg_crc16_correct\<close>), the receiver of
    \<^verbatim>\<open>common/xyzModem.c\<close>, the command \<^verbatim>\<open>loady\<close> to memory and flash, and what it loads (\<open>ymodem_loads_file\<close>).
  \<^item> \<open>Lmb\<close>: \<^verbatim>\<open>lib/lmb.c\<close>; adding, reserving, releasing and allocating blocks against the set of addresses a table
    represents.
  \<^item> \<open>Eth\<close>, \<open>EthProps\<close>: the device list of \<^verbatim>\<open>net/eth.c\<close>, hardware addresses in the environment, rotation.
  \<^item> \<open>Net\<close>, \<open>NetProps\<close>: headers, checksums, ARP, sending and receiving of \<^verbatim>\<open>net/net.c\<close>. The record \<open>net\<close> holds
    its global variables; frames are byte lists. A datagram sent arrives at the peer's handler (\<open>udp_send_receive\<close>), and
    an unknown hardware address is resolved (\<open>arp_resolution\<close>).
  \<^item> \<open>Tftp\<close>, \<open>TftpProps\<close>: the client of \<^verbatim>\<open>net/tftp.c\<close>; its static variables extend the record \<open>net\<close>. The relation
    \<open>tftp_step\<close> has the packets and timer events a client may see; its invariant is the content of memory
    (\<open>tftp_transfer\<close>).
  \<^item> \<open>Bootp\<close>, \<open>BootpProps\<close>: \<^verbatim>\<open>net/bootp.c\<close> (without DHCP) and \<^verbatim>\<open>net/rarp.c\<close>; what a reply configures.
  \<^item> \<open>NetLoop\<close>, \<open>NetLoopProps\<close>: the main loop of \<^verbatim>\<open>net/net.c\<close> as a function of the events its iterations see, and
    the loading of a file through all layers (\<open>netloop_loads_file\<close>).
  \<^item> \<open>Image\<close>: the legacy image format of \<^verbatim>\<open>include/image.h\<close> and \<^verbatim>\<open>common/image.c\<close>: the header in memory, its checks, the
    component table, names and printing.
  \<^item> \<open>Mkimage\<close>: the image tool, \<^verbatim>\<open>tools/mkimage.c\<close> and \<^verbatim>\<open>tools/default_image.c\<close>. What it writes passes the checks of the
    board (\<open>mkimage_accepted\<close>) and is taken apart again (\<open>mkimage_components\<close>).
  \<^item> \<open>Bootm\<close>, \<open>BootmProps\<close>, \<open>GunzipProps\<close>: the boot commands of \<^verbatim>\<open>common/cmd_bootm.c\<close>, \<^verbatim>\<open>arch/powerpc/lib/bootm.c\<close> and
    \<^verbatim>\<open>lib/gunzip.c\<close>. The record \<open>boot\<close> holds environment, memory, the global \<^verbatim>\<open>images\<close> and the board information; the
    datatype \<open>boot_end\<close> has the ways a command can end, with the jump to a kernel and its arguments. A kernel of the tool is
    started (\<open>bootm_boots_kernel\<close>), a damaged one is not (\<open>bootm_rejects_damaged\<close>), nothing is started unchecked
    (\<open>bootm_starts_checked\<close>), and the subcommands run in order (\<open>bootm_stages_in_order\<close>).
  \<^item> \<open>Netboot\<close>, \<open>NetbootProps\<close>: the network boot commands of \<^verbatim>\<open>common/cmd_net.c\<close>, which join the network code, the
    environment and the boot commands (\<open>netboot_publishes\<close>, \<open>netboot_boots\<close>).
  \<^item> \<open>Flash\<close>, \<open>FlashProps\<close>: the flash driver of the board (\<^verbatim>\<open>board/eltec/bab7xx/flash.c\<close>) over byte accesses and a timer,
    and banks, protection and writing of \<^verbatim>\<open>common/flash.c\<close>. On a model of the chips' command interface an update stores its
    data (\<open>flash_update\<close>) and the monitor is never erased (\<open>monitor_survives_erase\<close>).
  \<^item> \<open>FlashCmd\<close>, \<open>FlashCmdProps\<close>: \<^verbatim>\<open>flinfo\<close>, \<^verbatim>\<open>erase\<close> and \<^verbatim>\<open>protect\<close> of \<^verbatim>\<open>common/cmd_flash.c\<close>; the sectors that a range
    selects lie inside it (\<open>sector_ranges_inside\<close>).
  \<^item> \<open>Memsize\<close>: \<^verbatim>\<open>common/memsize.c\<close> over a bus, on which memory can appear more than once; the size found is the size of the
    chip (\<open>get_ram_size_correct\<close>).
  \<^item> \<open>Memcmd\<close>, \<open>MemcmdProps\<close>: the commands of \<^verbatim>\<open>common/cmd_mem.c\<close>; the verdict of the memory test (\<open>mtest_verdict\<close>),
    copying and comparing (\<open>cp_then_cmp\<close>).
  \<^item> \<open>Pci\<close>, \<open>PciProps\<close>: configuration accesses, address translation, search, bus scan and address assignment of
    \<^verbatim>\<open>drivers/pci\<close> and the set-up of the host bridge in \<^verbatim>\<open>board/eltec/bab7xx/pci.c\<close>. For hardware that obeys the laws of the
    locale \<open>config_space\<close> the scan gives every base address register its own range (\<open>pci_scan_assigns\<close>); memory
    addresses are translated to the bus and back (\<open>memory_translation_roundtrip\<close>); a request for 2 GB defeats the allocation
    (\<open>allocate_2gb_restarts\<close>).

  \<^bold>\<open>What is assumed.\<close> The driver of the clock chip's ports obeys the index/data protocol (\<open>rtc_ports\<close>, satisfied by a
  concrete device), and PCI functions answer to configuration accesses with their registers (\<open>config_space\<close>, likewise). Time does not pass inside one handler. A frame handed to \<^verbatim>\<open>NetReceive\<close> is what the driver received;
  bytes behind it in the buffer count as unknown.

  \<^bold>\<open>What is not modelled.\<close> The autoboot countdown and the endless main loop of the shell (timing), history editing and
  the hush shell (not configured), \<^verbatim>\<open>editenv\<close>, the NFS client, FIT images
  and device trees (not configured), the start routines of operating systems other than Linux, the ELF loader, partition
  tables, the \<^verbatim>\<open>loop\<close> command, which reads memory for ever, the \<^verbatim>\<open>pci\<close> command, and the board's serial ROMs. Register-level drivers,
  start-up assembly, third-party libraries (zlib, bzip2, lzma, libfdt, the allocator) and the code of other boards are
  outside the development.
\<close>

end
